(* ===== verification/PyBase.thy ===== *)
theory PyBase
  imports Main "HOL-Library.Char_ord" "HOL-Library.List_Lexorder" "HOL-Library.AList"
begin

text \<open>
  Prelude of the CDUP development: the pieces of Python the modelled files use everywhere.
  A Python \<open>str\<close> is a \<open>string\<close> (one \<open>char\<close> per code point, so source text whose code points are
  below 256), a \<open>dict\<close> is an association list in insertion order (updated with
  \<^const>\<open>AList.update\<close>, which overwrites in place and appends a new key at the end, as Python
  does), an exception is the left summand of a sum type. The theory also states the interface of
  an insertion-ordered dictionary as a locale and shows that association lists provide it.
\<close>

section \<open>Fact collections\<close>

named_theorems py_list \<open>facts about the list, string and dictionary operations of the prelude\<close>
named_theorems py_str \<open>facts about splitting and joining strings\<close>

section \<open>Exceptions\<close>

datatype py_error =
    KeyError string
  | NameError string
  | ValueError string
  | TypeError string
  | IndexError
  | ZeroDivisionError string
  | OverflowError string
  | RuntimeError string
  | NotImplementedError string
  | AttributeError string
  | StopIteration
  | RecursionError

type_synonym 'a py = "py_error + 'a"

definition py_bind :: "'a py \<Rightarrow> ('a \<Rightarrow> 'b py) \<Rightarrow> 'b py" where
  "py_bind r f = (case r of Inl e \<Rightarrow> Inl e | Inr x \<Rightarrow> f x)"

lemma py_bind_simps [simp]:
  "py_bind (Inl e) f = Inl e"
  "py_bind (Inr x) f = f x"
  by (simp_all add: py_bind_def)

lemma py_bind_eq_Inr:
  "py_bind r f = Inr y \<longleftrightarrow> (\<exists>x. r = Inr x \<and> f x = Inr y)"
  by (cases r) simp_all

lemma py_bind_cong [fundef_cong]:
  "r = r' \<Longrightarrow> (\<And>x. r' = Inr x \<Longrightarrow> f x = f' x) \<Longrightarrow> py_bind r f = py_bind r' f'"
  by (cases r') simp_all

text \<open>Evaluation of a list of computations from left to right, stopping at the first exception.\<close>

fun py_seq :: "'a py list \<Rightarrow> 'a list py" where
  "py_seq [] = Inr []"
| "py_seq (r # rs) = py_bind r (\<lambda>x. py_bind (py_seq rs) (\<lambda>xs. Inr (x # xs)))"

lemma py_seq_Inr: "py_seq rs = Inr xs \<longleftrightarrow> rs = map Inr xs"
proof (induction rs arbitrary: xs)
  case Nil
  show ?case by auto
next
  case (Cons r rs)
  show ?case by (cases xs; cases r) (auto simp: py_bind_eq_Inr Cons.IH)
qed

text \<open>A \<open>for\<close> loop over a list whose body may raise: the state is threaded, the first error ends it.\<close>

fun py_fold :: "('a \<Rightarrow> 's \<Rightarrow> 's py) \<Rightarrow> 'a list \<Rightarrow> 's \<Rightarrow> 's py" where
  "py_fold f [] s = Inr s"
| "py_fold f (x # xs) s = py_bind (f x s) (py_fold f xs)"

lemma py_fold_append: "py_fold f (xs @ ys) s = py_bind (py_fold f xs s) (py_fold f ys)"
  by (induction xs arbitrary: s) (auto simp: py_bind_def split: sum.splits)

lemma py_fold_pure: "py_fold (\<lambda>x s. Inr (f x s)) xs s = Inr (fold f xs s)"
  by (induction xs arbitrary: s) auto

lemma py_fold_cong_Inr:
  assumes "\<And>x s. x \<in> set xs \<Longrightarrow> f x s = Inr (g x s)"
  shows "py_fold f xs s = Inr (fold g xs s)"
  using assms by (induction xs arbitrary: s) auto

text \<open>An invariant over the elements processed so far carries through a loop that never raises on it.\<close>

lemma py_fold_invariant:
  assumes "I [] s"
    and "\<And>ys x s. x \<in> set xs \<Longrightarrow> set ys \<subseteq> set xs \<Longrightarrow> I ys s \<Longrightarrow> \<exists>s'. f x s = Inr s' \<and> I (ys @ [x]) s'"
  shows "\<exists>s'. py_fold f xs s = Inr s' \<and> I xs s'"
proof -
  have "\<exists>s'. py_fold f zs s = Inr s' \<and> I (ys @ zs) s'"
    if "I ys s" "set ys \<subseteq> set xs" "set zs \<subseteq> set xs" for ys zs s
    using that
  proof (induction zs arbitrary: ys s)
    case (Cons x zs)
    then obtain s' where "f x s = Inr s'" "I (ys @ [x]) s'" using assms(2) [of x ys s] by auto
    moreover from Cons.IH [OF this(2)] Cons.prems obtain s'' where
      "py_fold f zs s' = Inr s''" "I ((ys @ [x]) @ zs) s''" by auto
    ultimately show ?case by auto
  qed simp
  from this [of "[]" s xs] assms(1) show ?thesis by simp
qed

section \<open>Lists and dictionaries\<close>

lemma enumerate_memD: "(i, x) \<in> set (enumerate k xs) \<Longrightarrow> x \<in> set xs"
  by (auto simp: enumerate_eq_zip dest: set_zip_rightD)

lemma enumerate_memI: "x \<in> set xs \<Longrightarrow> \<exists>i. (i, x) \<in> set (enumerate k xs)"
proof -
  assume "x \<in> set xs"
  then have "x \<in> snd ` set (enumerate k xs)" by (metis map_snd_enumerate set_map)
  then show ?thesis by force
qed

text \<open>\<open>list(dict.fromkeys(xs))\<close>: the first occurrence of every element, in order.\<close>

primrec uniq :: "'a list \<Rightarrow> 'a list" where
  "uniq [] = []"
| "uniq (x # xs) = x # removeAll x (uniq xs)"

lemma set_uniq [simp]: "set (uniq xs) = set xs"
  by (induction xs) auto

lemma distinct_removeAll_iff: "distinct xs \<Longrightarrow> distinct (removeAll x xs)"
  by (induction xs) auto

lemma distinct_uniq [simp, intro]: "distinct (uniq xs)"
  by (induction xs) (auto simp: distinct_removeAll_iff)

lemma removeAll_idle: "x \<notin> set xs \<Longrightarrow> removeAll x xs = xs"
  by (induction xs) auto

lemma uniq_distinct_id: "distinct xs \<Longrightarrow> uniq xs = xs"
  by (induction xs) (auto simp: removeAll_idle)

lemma uniq_idem [simp]: "uniq (uniq xs) = uniq xs"
  by (rule uniq_distinct_id) simp

lemma uniq_Nil_iff [simp]: "uniq xs = [] \<longleftrightarrow> xs = []"
  by (cases xs) auto

lemma length_uniq_le: "length (uniq xs) \<le> length xs"
proof (induction xs)
  case (Cons x xs)
  have "length (removeAll x (uniq xs)) \<le> length xs"
    using length_removeAll_less_eq Cons by (rule le_trans)
  then show ?case by simp
qed simp

type_synonym ('k, 'v) dict = "('k \<times> 'v) list"

abbreviation dict_get :: "('k, 'v) dict \<Rightarrow> 'k \<Rightarrow> 'v option" where
  "dict_get d k \<equiv> map_of d k"

abbreviation dict_set :: "'k \<Rightarrow> 'v \<Rightarrow> ('k, 'v) dict \<Rightarrow> ('k, 'v) dict" where
  "dict_set \<equiv> AList.update"

abbreviation dict_keys :: "('k, 'v) dict \<Rightarrow> 'k list" where
  "dict_keys d \<equiv> map fst d"

text \<open>\<open>d.setdefault(k, []).append(v)\<close> and \<open>defaultdict(list)[k].append(v)\<close>.\<close>

definition dict_append :: "'k \<Rightarrow> 'v \<Rightarrow> ('k, 'v list) dict \<Rightarrow> ('k, 'v list) dict" where
  "dict_append k v d =
     dict_set k ((case dict_get d k of None \<Rightarrow> [] | Some vs \<Rightarrow> vs) @ [v]) d"

text \<open>\<open>d.get(k, [])\<close>.\<close>

definition dict_get_list :: "('k, 'v list) dict \<Rightarrow> 'k \<Rightarrow> 'v list" where
  "dict_get_list d k = (case dict_get d k of None \<Rightarrow> [] | Some vs \<Rightarrow> vs)"

lemma dict_get_set: "dict_get (dict_set k v d) k' = (if k' = k then Some v else dict_get d k')"
  by (simp add: update_conv')

lemma dict_keys_set:
  "dict_keys (dict_set k v d) = (if k \<in> set (dict_keys d) then dict_keys d else dict_keys d @ [k])"
  by (induction d) auto

lemma dict_set_fresh: "k \<notin> set (dict_keys d) \<Longrightarrow> dict_set k v d = d @ [(k, v)]"
  by (induction d) auto

lemma distinct_dict_set [simp, intro]:
  "distinct (dict_keys d) \<Longrightarrow> distinct (dict_keys (dict_set k v d))"
  by (simp add: dict_keys_set)

lemma dict_get_list_append:
  "dict_get_list (dict_append k v d) k' =
     (if k' = k then dict_get_list d k @ [v] else dict_get_list d k')"
  by (simp add: dict_get_list_def dict_append_def dict_get_set)

lemma dict_get_list_Nil [simp]: "dict_get_list [] k = []"
  by (simp add: dict_get_list_def)

lemma dict_keys_append:
  "dict_keys (dict_append k v d) =
     (if k \<in> set (dict_keys d) then dict_keys d else dict_keys d @ [k])"
  by (simp add: dict_append_def dict_keys_set)

lemma dict_get_list_filter:
  "distinct (dict_keys d) \<Longrightarrow>
     dict_get_list (filter (\<lambda>(k, v). P v) d) s = (if P (dict_get_list d s) then dict_get_list d s else [])"
proof (induction d)
  case (Cons kv d)
  obtain k v where kv: "kv = (k, v)" by (cases kv)
  have "dict_get_list (filter (\<lambda>(k, v). P v) d) k = []" if "k \<notin> set (dict_keys d)"
    using that by (auto simp: dict_get_list_def split: option.splits dest!: map_of_SomeD) force
  with Cons kv show ?case by (auto simp: dict_get_list_def map_of_eq_None_iff split: option.splits)
qed (simp add: dict_get_list_def)

lemmas dict_simps = dict_get_set dict_keys_set dict_get_list_append dict_keys_append

text \<open>
  The interface of an insertion-ordered dictionary, as the graph and clone passes use it: a lookup
  after an update, the key order, and distinct keys.
\<close>

locale ordered_dict =
  fixes empty :: "'d"
    and lookup :: "'d \<Rightarrow> 'k \<Rightarrow> 'v option"
    and insert :: "'k \<Rightarrow> 'v \<Rightarrow> 'd \<Rightarrow> 'd"
    and keys :: "'d \<Rightarrow> 'k list"
  assumes lookup_empty: "lookup empty k = None"
    and lookup_insert: "lookup (insert k v d) k' = (if k' = k then Some v else lookup d k')"
    and keys_empty: "keys empty = []"
    and keys_insert: "keys (insert k v d) = (if k \<in> set (keys d) then keys d else keys d @ [k])"
begin

text \<open>Writing a list of pairs in order: the last write to a key wins, keys come in first-write order.\<close>

lemma lookup_fold_insert:
  "lookup (fold (\<lambda>(k, v). insert k v) kvs d) k' =
     (case map_of (rev kvs) k' of Some v \<Rightarrow> Some v | None \<Rightarrow> lookup d k')"
  by (induction kvs arbitrary: d) (auto simp: lookup_insert map_add_def split: option.splits)

lemma set_keys_fold_insert:
  "set (keys (fold (\<lambda>(k, v). insert k v) kvs d)) = set (keys d) \<union> fst ` set kvs"
  by (induction kvs arbitrary: d) (auto simp: keys_insert split: if_splits)

lemma distinct_keys_fold_insert:
  "distinct (keys d) \<Longrightarrow> distinct (keys (fold (\<lambda>(k, v). insert k v) kvs d))"
  by (induction kvs arbitrary: d) (auto simp: keys_insert)

lemma keys_fold_insert_fresh:
  "distinct (keys d @ map fst kvs) \<Longrightarrow>
     keys (fold (\<lambda>(k, v). insert k v) kvs d) = keys d @ map fst kvs"
  by (induction kvs arbitrary: d) (auto simp: keys_insert)

end

interpretation pydict: ordered_dict "[]" map_of AList.update "map fst"
  by unfold_locales (auto simp: dict_simps)

section \<open>Strings\<close>

text \<open>
  \<open>str.isspace\<close>, \<open>str.isdigit\<close>, \<open>str.isalpha\<close>, \<open>str.isalnum\<close> and the regex class \<open>\w\<close> on ASCII, and
  \<open>str.lower\<close>. The space class also has the four ASCII separators, which Python's \<open>split\<close> and
  \<open>strip\<close> drop too.
\<close>

definition is_space :: "char \<Rightarrow> bool" where
  "is_space c = (let n = (of_char c :: nat) in (9 \<le> n \<and> n \<le> 13) \<or> (28 \<le> n \<and> n \<le> 32))"

definition is_digit :: "char \<Rightarrow> bool" where
  "is_digit c = (let n = (of_char c :: nat) in 48 \<le> n \<and> n \<le> 57)"

definition is_upper :: "char \<Rightarrow> bool" where
  "is_upper c = (let n = (of_char c :: nat) in 65 \<le> n \<and> n \<le> 90)"

definition is_alpha :: "char \<Rightarrow> bool" where
  "is_alpha c = (let n = (of_char c :: nat) in (65 \<le> n \<and> n \<le> 90) \<or> (97 \<le> n \<and> n \<le> 122))"

definition is_alnum :: "char \<Rightarrow> bool" where
  "is_alnum c = (is_alpha c \<or> is_digit c)"

definition is_word :: "char \<Rightarrow> bool" where
  "is_word c = (is_alnum c \<or> c = CHR ''_'')"

definition is_id_start :: "char \<Rightarrow> bool" where
  "is_id_start c = (is_alpha c \<or> c = CHR ''_'')"

definition lower_char :: "char \<Rightarrow> char" where
  "lower_char c = (if is_upper c then char_of (of_char c + 32 :: nat) else c)"

definition str_lower :: "string \<Rightarrow> string" where
  "str_lower s = map lower_char s"

definition startswith :: "string \<Rightarrow> string \<Rightarrow> bool" where
  "startswith s p = (take (length p) s = p)"

definition endswith :: "string \<Rightarrow> string \<Rightarrow> bool" where
  "endswith s p = (length p \<le> length s \<and> drop (length s - length p) s = p)"

text \<open>\<open>s.find(p)\<close>; Python's \<open>-1\<close> is \<open>None\<close>.\<close>

fun str_find :: "string \<Rightarrow> string \<Rightarrow> nat option" where
  "str_find s p =
     (if startswith s p then Some 0
      else case s of [] \<Rightarrow> None | c # s' \<Rightarrow> map_option Suc (str_find s' p))"

declare str_find.simps [simp del]

definition str_contains :: "string \<Rightarrow> string \<Rightarrow> bool" where
  "str_contains s p = (str_find s p \<noteq> None)"

text \<open>\<open>s.strip()\<close>, \<open>s.lstrip()\<close>, \<open>s.rstrip()\<close> over a class of characters.\<close>

definition lstrip_by :: "(char \<Rightarrow> bool) \<Rightarrow> string \<Rightarrow> string" where
  "lstrip_by P s = dropWhile P s"

definition rstrip_by :: "(char \<Rightarrow> bool) \<Rightarrow> string \<Rightarrow> string" where
  "rstrip_by P s = rev (dropWhile P (rev s))"

definition strip_by :: "(char \<Rightarrow> bool) \<Rightarrow> string \<Rightarrow> string" where
  "strip_by P s = rstrip_by P (lstrip_by P s)"

abbreviation str_strip :: "string \<Rightarrow> string" where
  "str_strip s \<equiv> strip_by is_space s"

text \<open>\<open>s.split()\<close>: the maximal runs of non-space characters.\<close>

fun split_ws_acc :: "string \<Rightarrow> string \<Rightarrow> string list" where
  "split_ws_acc cur [] = (if cur = [] then [] else [rev cur])"
| "split_ws_acc cur (c # s) =
     (if is_space c then (if cur = [] then split_ws_acc [] s else rev cur # split_ws_acc [] s)
      else split_ws_acc (c # cur) s)"

definition split_ws :: "string \<Rightarrow> string list" where
  "split_ws s = split_ws_acc [] s"

text \<open>\<open>s.split(c)\<close> for a one-character separator.\<close>

fun split_on :: "char \<Rightarrow> string \<Rightarrow> string list" where
  "split_on d [] = [[]]"
| "split_on d (c # s) =
     (if c = d then [] # split_on d s
      else case split_on d s of [] \<Rightarrow> [[c]] | p # ps \<Rightarrow> (c # p) # ps)"

text \<open>\<open>sep.join(xs)\<close>.\<close>

fun str_join :: "string \<Rightarrow> string list \<Rightarrow> string" where
  "str_join sep [] = []"
| "str_join sep [x] = x"
| "str_join sep (x # y # ys) = x @ sep @ str_join sep (y # ys)"

text \<open>\<open>s.replace(old, new, 1)\<close> and \<open>s.count(p)\<close>.\<close>

definition replace1 :: "string \<Rightarrow> string \<Rightarrow> string \<Rightarrow> string" where
  "replace1 s old new =
     (case str_find s old of
        None \<Rightarrow> s
      | Some i \<Rightarrow> take i s @ new @ drop (i + length old) s)"

text \<open>\<open>str(n)\<close> for an integer.\<close>

fun nat_digits :: "nat \<Rightarrow> string" where
  "nat_digits n =
     (if n < 10 then [char_of (48 + n)] else nat_digits (n div 10) @ [char_of (48 + n mod 10)])"

declare nat_digits.simps [simp del]

definition int_str :: "int \<Rightarrow> string" where
  "int_str i = (if i < 0 then ''-'' @ nat_digits (nat (- i)) else nat_digits (nat i))"

subsection \<open>Facts about strings\<close>

lemma startswith_iff: "startswith s p \<longleftrightarrow> (\<exists>t. s = p @ t)"
  by (metis append_take_drop_id append_eq_conv_conj startswith_def)

lemma startswith_append [simp]: "startswith (p @ t) p"
  by (simp add: startswith_def)

lemma startswith_Nil [simp]: "startswith s []"
  by (simp add: startswith_def)

lemma str_find_Some:
  "str_find s p = Some i \<Longrightarrow> i + length p \<le> length s \<and> take (length p) (drop i s) = p"
proof (induction s p arbitrary: i rule: str_find.induct)
  case (1 s p)
  show ?case
  proof (cases "startswith s p")
    case True
    then have "length p \<le> length s" by (auto simp: startswith_iff)
    with True 1(2) show ?thesis by (auto simp: str_find.simps [of s p] startswith_def)
  next
    case False
    with 1(2) obtain c s' where s: "s = c # s'"
      by (auto simp: str_find.simps [of s p] split: list.splits)
    with False 1(2) obtain j where "str_find s' p = Some j" "i = Suc j"
      by (auto simp: str_find.simps [of "c # s'" p])
    with 1(1)[OF False s] s show ?thesis by auto
  qed
qed

lemma str_find_None: "str_find s p = None \<longleftrightarrow> (\<forall>u v. s \<noteq> u @ p @ v)"
proof (induction s p rule: str_find.induct)
  case (1 s p)
  show ?case
  proof (cases "startswith s p")
    case True
    then obtain t where "s = [] @ p @ t" by (auto simp: startswith_iff)
    with True show ?thesis by (metis option.distinct(1) str_find.simps)
  next
    case False
    note ns = False
    show ?thesis
    proof (cases s)
      case Nil
      with ns show ?thesis by (auto simp: str_find.simps [of "[]" p])
    next
      case (Cons c s')
      have "str_find s p = None \<longleftrightarrow> (\<forall>u v. s' \<noteq> u @ p @ v)"
        using 1[OF ns Cons] ns Cons by (simp add: str_find.simps [of "c # s'" p])
      also have "\<dots> \<longleftrightarrow> (\<forall>u v. s \<noteq> u @ p @ v)"
        using ns Cons by (auto simp: startswith_iff Cons_eq_append_conv)
      finally show ?thesis .
    qed
  qed
qed

lemma split_on_ne [simp]: "split_on d s \<noteq> []"
  by (induction s) (auto split: list.splits)

lemma split_on_no_sep: "p \<in> set (split_on d s) \<Longrightarrow> d \<notin> set p"
proof (induction s arbitrary: p)
  case (Cons c s)
  then show ?case by (cases "split_on d s") (auto split: if_splits)
qed simp

lemma join_split_on [py_str]: "str_join [d] (split_on d s) = s"
proof (induction s)
  case (Cons c s)
  then show ?case
    by (cases "split_on d s" rule: list.exhaust; cases "tl (split_on d s)") auto
qed simp

lemma split_on_no_sep_id: "d \<notin> set s \<Longrightarrow> split_on d s = [s]"
  by (induction s) auto

lemma split_on_append_sep: "d \<notin> set p \<Longrightarrow> split_on d (p @ d # s) = p # split_on d s"
  by (induction p) auto

lemma split_on_join [py_str]:
  "ps \<noteq> [] \<Longrightarrow> (\<forall>p \<in> set ps. d \<notin> set p) \<Longrightarrow> split_on d (str_join [d] ps) = ps"
  by (induction "[d]" ps rule: str_join.induct) (auto simp: split_on_no_sep_id split_on_append_sep)

lemma str_join_append:
  "xs \<noteq> [] \<Longrightarrow> ys \<noteq> [] \<Longrightarrow> str_join sep (xs @ ys) = str_join sep xs @ sep @ str_join sep ys"
proof (induction sep xs rule: str_join.induct)
  case (2 sep x)
  then show ?case by (cases ys) auto
qed auto

lemma set_split_ws_acc:
  "list_all (\<lambda>c. \<not> is_space c) cur \<Longrightarrow> w \<in> set (split_ws_acc cur s) \<Longrightarrow>
     w \<noteq> [] \<and> list_all (\<lambda>c. \<not> is_space c) w"
proof (induction s arbitrary: cur)
  case Nil
  then show ?case by (auto split: if_splits)
next
  case (Cons c s)
  show ?case
  proof (cases "is_space c")
    case True
    with Cons.prems have "w = rev cur \<and> cur \<noteq> [] \<or> w \<in> set (split_ws_acc [] s)"
      by (auto split: if_splits)
    with Cons.IH [of "[]"] Cons.prems(1) show ?thesis by auto
  next
    case False
    with Cons.prems Cons.IH [of "c # cur"] show ?thesis by simp
  qed
qed

lemma split_ws_words: "w \<in> set (split_ws s) \<Longrightarrow> w \<noteq> [] \<and> (\<forall>c \<in> set w. \<not> is_space c)"
  unfolding split_ws_def using set_split_ws_acc [of "[]" w s] by (auto simp: list_all_iff)

lemma split_ws_acc_word:
  "\<forall>c \<in> set w. \<not> is_space c \<Longrightarrow> split_ws_acc cur (w @ s) = split_ws_acc (rev w @ cur) s"
  by (induction w arbitrary: cur) auto

lemma is_space_blank [simp]: "is_space (CHR '' '')"
  by (simp add: is_space_def)

text \<open>\<open>" ".join(ws).split()\<close> gives the words back.\<close>

lemma split_ws_join [py_str]:
  "\<forall>w \<in> set ws. w \<noteq> [] \<and> (\<forall>c \<in> set w. \<not> is_space c) \<Longrightarrow> split_ws (str_join '' '' ws) = ws"
proof (induction "'' ''" ws rule: str_join.induct)
  case (2 x)
  then show ?case using split_ws_acc_word [of x "[]" "[]"] by (simp add: split_ws_def)
next
  case (3 x y ys)
  then have "split_ws (str_join '' '' (y # ys)) = y # ys" by simp
  with 3(2) show ?case
    using split_ws_acc_word [of x "[]" "'' '' @ str_join '' '' (y # ys)"] by (simp add: split_ws_def)
qed (simp add: split_ws_def)

lemma of_char_upper_bounds: "is_upper c \<Longrightarrow> (of_char c :: nat) + 32 < 256"
  by (simp add: is_upper_def Let_def)

lemma lower_char_idem [simp]: "lower_char (lower_char c) = lower_char c"
proof (cases "is_upper c")
  case True
  then have "of_char (char_of (of_char c + 32 :: nat)) = (of_char c + 32 :: nat)"
    using of_char_upper_bounds by (simp add: of_char_of take_bit_eq_mod)
  with True show ?thesis by (simp add: lower_char_def is_upper_def Let_def)
next
  case False
  then show ?thesis by (simp add: lower_char_def)
qed

lemma is_space_lower [simp]: "is_space (lower_char c) = is_space c"
proof (cases "is_upper c")
  case True
  then have "of_char (char_of (of_char c + 32 :: nat)) = (of_char c + 32 :: nat)"
    using of_char_upper_bounds by (simp add: of_char_of take_bit_eq_mod)
  with True show ?thesis by (simp add: lower_char_def is_upper_def is_space_def Let_def)
next
  case False
  then show ?thesis by (simp add: lower_char_def)
qed

subsection \<open>Decimal digits\<close>

lemma nat_digits_ne [simp]: "nat_digits n \<noteq> []"
  by (subst nat_digits.simps) simp

lemma of_char_digit: "d < 10 \<Longrightarrow> (of_char (char_of (48 + d :: nat)) :: nat) = 48 + d"
  by (simp add: of_char_of take_bit_eq_mod)

lemma char_of_digit_inj: "d < 10 \<Longrightarrow> e < 10 \<Longrightarrow>
    (char_of (48 + d :: nat) = (char_of (48 + e :: nat) :: char)) = (d = e)"
  by (metis add_left_cancel of_char_digit)

lemma nat_digits_inj: "nat_digits m = nat_digits n \<longleftrightarrow> m = n"
proof (induction m arbitrary: n rule: less_induct)
  case (less m)
  have len1: "n < 10 \<Longrightarrow> length (nat_digits n) = 1" for n by (subst nat_digits.simps) simp
  have len2: "\<not> n < 10 \<Longrightarrow> length (nat_digits n) > 1" for n
    by (subst nat_digits.simps) (simp add: Suc_lessI)
  show ?case
  proof (cases "m < 10")
    case True
    show ?thesis
    proof (cases "n < 10")
      case True
      with \<open>m < 10\<close> show ?thesis
        by (simp add: nat_digits.simps [of m] nat_digits.simps [of n] char_of_digit_inj)
    next
      case False
      with True len1 [of m] len2 [of n] show ?thesis by auto
    qed
  next
    case False
    show ?thesis
    proof (cases "n < 10")
      case True
      with False len1 [of n] len2 [of m] show ?thesis by auto
    next
      case n: False
      have "nat_digits m = nat_digits n \<longleftrightarrow> nat_digits (m div 10) = nat_digits (n div 10)
              \<and> char_of (48 + m mod 10) = (char_of (48 + n mod 10) :: char)"
        using False n by (simp add: nat_digits.simps [of m] nat_digits.simps [of n])
      also have "\<dots> \<longleftrightarrow> m div 10 = n div 10 \<and> m mod 10 = n mod 10"
        using less [of "m div 10" "n div 10"] False by (simp add: char_of_digit_inj)
      also have "\<dots> \<longleftrightarrow> m = n" by (metis div_mult_mod_eq)
      finally show ?thesis .
    qed
  qed
qed

lemma nat_digits_word: "list_all is_word (nat_digits n)"
proof (induction n rule: nat_digits.induct)
  case (1 n)
  have "d < 10 \<Longrightarrow> is_word (char_of (48 + d :: nat))" for d
    by (simp add: is_word_def is_alnum_def is_digit_def Let_def of_char_digit)
  with 1 show ?case by (subst nat_digits.simps) simp
qed

subsection \<open>Indexing, counting, building dictionaries\<close>

text \<open>\<open>xs[i]\<close> for an index that is not negative, and \<open>d[k]\<close> for an integer key.\<close>

definition py_nth :: "'a list \<Rightarrow> nat \<Rightarrow> 'a py" where
  "py_nth xs i = (if i < length xs then Inr (xs ! i) else Inl IndexError)"

definition py_item :: "(nat, 'v) dict \<Rightarrow> nat \<Rightarrow> 'v py" where
  "py_item d k = (case dict_get d k of None \<Rightarrow> Inl (KeyError (nat_digits k)) | Some v \<Rightarrow> Inr v)"

text \<open>\<open>s.count(p)\<close>: occurrences that do not overlap, from the left.\<close>

function str_count :: "string \<Rightarrow> string \<Rightarrow> nat" where
  "str_count s p =
     (if p = [] then Suc (length s)
      else case str_find s p of None \<Rightarrow> 0 | Some i \<Rightarrow> Suc (str_count (drop (i + length p) s) p))"
  by pat_completeness auto
termination
proof (relation "measure (length \<circ> fst)", simp_all, goal_cases)
  case (1 s p i)
  then have "0 < length p" "i + length p \<le> length s" using str_find_Some [of s p i] by simp_all
  then show ?case by linarith
qed

declare str_count.simps [simp del]

text \<open>\<open>{f(x): x for x in xs}\<close>: the last element with a key wins.\<close>

definition dict_by :: "('a \<Rightarrow> 'k) \<Rightarrow> 'a list \<Rightarrow> ('k, 'a) dict" where
  "dict_by f xs = fold (\<lambda>x d. dict_set (f x) x d) xs []"

lemma dict_by_get: "dict_get (dict_by f xs) k = map_of (rev (map (\<lambda>x. (f x, x)) xs)) k"
proof -
  have "fold (\<lambda>x d. dict_set (f x) x d) xs d
      = fold (\<lambda>(k, v). dict_set k v) (map (\<lambda>x. (f x, x)) xs) d" for d
    by (induction xs arbitrary: d) auto
  then show ?thesis
    by (simp add: dict_by_def pydict.lookup_fold_insert split: option.splits)
qed

lemma dict_by_mem: "dict_get (dict_by f xs) k = Some x \<Longrightarrow> x \<in> set xs \<and> f x = k"
  by (auto simp: dict_by_get dest!: map_of_SomeD)

lemma dict_by_Some:
  assumes "distinct (map f xs)" "x \<in> set xs"
  shows "dict_get (dict_by f xs) (f x) = Some x"
proof -
  have "distinct (map fst (rev (map (\<lambda>x. (f x, x)) xs)))"
    using assms(1) by (simp add: rev_map [symmetric] o_def)
  with assms(2) show ?thesis by (auto simp: dict_by_get intro!: map_of_is_SomeI)
qed

lemma dict_by_in: "x \<in> set xs \<Longrightarrow> \<exists>y. dict_get (dict_by f xs) (f x) = Some y"
proof -
  assume "x \<in> set xs"
  then have "f x \<in> fst ` set (rev (map (\<lambda>x. (f x, x)) xs))" by force
  then show ?thesis unfolding dict_by_get by (metis map_of_eq_None_iff not_Some_eq)
qed

lemma py_nth_Inr: "py_nth xs i = Inr x \<longleftrightarrow> i < length xs \<and> xs ! i = x"
  by (auto simp: py_nth_def)

lemma py_item_Inr: "py_item d k = Inr v \<longleftrightarrow> dict_get d k = Some v"
  by (auto simp: py_item_def split: option.splits)

end
