(* ===== verification/PyFloat.thy ===== *)
theory PyFloat
  imports PyBase
begin

text \<open>
  Python's \<open>float\<close> (an IEEE 754 double) computed on integers: a finite number is a sign, an integer
  mantissa and a binary exponent, and every operation computes the exact rational result and rounds
  it once, to nearest with ties to even. The expression parser, the evaluation kernel and the clone
  detectors use these operations for float literals, \<open>int(a / b)\<close>, comparisons and thresholds. The
  number grammars of \<open>float(s)\<close> and \<open>int(s, 0)\<close> are here too. The main fact is that truncating the
  rounded quotient of two integers is exact as long as the dividend is below \<open>2^53\<close>.
\<close>

section \<open>Doubles\<close>

text \<open>
  \<open>FFin s m e\<close> is \<open>(-1)^s * m * 2^e\<close>; zero is \<open>FFin s 0 0\<close>, and the mantissa of a normal number has
  53 bits, so equal values have equal representations apart from the sign of zero.
\<close>

datatype pyfloat = FNaN | FInf bool | FFin bool int int

definition pow2 :: "int \<Rightarrow> int" where
  "pow2 k = 2 ^ nat k"

lemma pow2_pos [simp]: "0 < pow2 k"
  by (simp add: pow2_def)

lemma pow2_nonneg [simp]: "0 \<le> pow2 k"
  by (simp add: pow2_def)

lemma pow2_add: "0 \<le> a \<Longrightarrow> 0 \<le> b \<Longrightarrow> pow2 (a + b) = pow2 a * pow2 b"
  by (simp add: pow2_def nat_add_distrib power_add)

lemma pow2_mono: "a \<le> b \<Longrightarrow> pow2 a \<le> pow2 b"
  by (simp add: pow2_def)

function bit_len :: "int \<Rightarrow> int" where
  "bit_len n = (if n \<le> 0 then 0 else 1 + bit_len (n div 2))"
  by pat_completeness auto
termination
  by (relation "measure nat") auto

declare bit_len.simps [simp del]

text \<open>The floor of the base-2 logarithm of \<open>n / d\<close>, for positive \<open>n\<close> and \<open>d\<close>.\<close>

definition flog2 :: "int \<Rightarrow> int \<Rightarrow> int" where
  "flog2 n d =
     (let k = bit_len n - bit_len d
      in if (if 0 \<le> k then d * pow2 k \<le> n else d \<le> n * pow2 (- k)) then k else k - 1)"

definition round_ratio :: "bool \<Rightarrow> int \<Rightarrow> int \<Rightarrow> pyfloat" where
  "round_ratio s n d =
     (if n = 0 then FFin s 0 0
      else
        let e = max (flog2 n d - 52) (- 1074);
            nn = (if 0 \<le> e then n else n * pow2 (- e));
            dd = (if 0 \<le> e then d * pow2 e else d);
            q = nn div dd;
            r = nn mod dd;
            q' = (if dd < 2 * r \<or> (dd = 2 * r \<and> odd q) then q + 1 else q)
        in if q' = 0 then FFin s 0 0
           else if q' = pow2 53 then (if 971 < e + 1 then FInf s else FFin s (pow2 52) (e + 1))
           else if 971 < e then FInf s
           else FFin s q' e)"

definition fl_ratio :: "int \<Rightarrow> int \<Rightarrow> pyfloat" where
  "fl_ratio n d = round_ratio ((n < 0) \<noteq> (d < 0)) \<bar>n\<bar> \<bar>d\<bar>"

text \<open>The exact value of a finite number as numerator and positive denominator.\<close>

definition fl_num :: "bool \<Rightarrow> int \<Rightarrow> int \<Rightarrow> int" where
  "fl_num s m e = (if s then - 1 else 1) * (if 0 \<le> e then m * pow2 e else m)"

definition fl_den :: "int \<Rightarrow> int" where
  "fl_den e = (if 0 \<le> e then 1 else pow2 (- e))"

lemma fl_den_pos [simp]: "0 < fl_den e"
  by (simp add: fl_den_def)

text \<open>\<open>float(i)\<close> and \<open>a / b\<close> on integers: both raise \<open>OverflowError\<close> where the result is infinite.\<close>

definition fl_of_int :: "int \<Rightarrow> pyfloat py" where
  "fl_of_int i =
     (case fl_ratio i 1 of
        FInf _ \<Rightarrow> Inl (OverflowError ''int too large to convert to float'')
      | x \<Rightarrow> Inr x)"

definition int_true_div :: "int \<Rightarrow> int \<Rightarrow> pyfloat py" where
  "int_true_div a b =
     (if b = 0 then Inl (ZeroDivisionError ''division by zero'')
      else case fl_ratio a b of
        FInf _ \<Rightarrow> Inl (OverflowError ''integer division result too large for a float'')
      | x \<Rightarrow> Inr x)"

text \<open>\<open>int(x)\<close> truncates toward zero.\<close>

definition fl_trunc :: "pyfloat \<Rightarrow> int py" where
  "fl_trunc x =
     (case x of
        FNaN \<Rightarrow> Inl (ValueError ''cannot convert float NaN to integer'')
      | FInf _ \<Rightarrow> Inl (OverflowError ''cannot convert float infinity to integer'')
      | FFin s m e \<Rightarrow>
          Inr ((if s then - 1 else 1) * (if 0 \<le> e then m * pow2 e else m div pow2 (- e))))"

definition fl_neg :: "pyfloat \<Rightarrow> pyfloat" where
  "fl_neg x = (case x of FNaN \<Rightarrow> FNaN | FInf s \<Rightarrow> FInf (\<not> s) | FFin s m e \<Rightarrow> FFin (\<not> s) m e)"

definition fl_abs :: "pyfloat \<Rightarrow> pyfloat" where
  "fl_abs x = (case x of FNaN \<Rightarrow> FNaN | FInf s \<Rightarrow> FInf False | FFin s m e \<Rightarrow> FFin False m e)"

definition fl_is_zero :: "pyfloat \<Rightarrow> bool" where
  "fl_is_zero x = (case x of FFin s m e \<Rightarrow> m = 0 | _ \<Rightarrow> False)"

definition fl_add :: "pyfloat \<Rightarrow> pyfloat \<Rightarrow> pyfloat" where
  "fl_add x y =
     (case x of
        FNaN \<Rightarrow> FNaN
      | FInf s \<Rightarrow> (case y of FNaN \<Rightarrow> FNaN | FInf t \<Rightarrow> if s = t then FInf s else FNaN | _ \<Rightarrow> FInf s)
      | FFin s m e \<Rightarrow>
         (case y of
            FNaN \<Rightarrow> FNaN
          | FInf t \<Rightarrow> FInf t
          | FFin t m' e' \<Rightarrow>
              let n = fl_num s m e * fl_den e' + fl_num t m' e' * fl_den e
              in if n = 0 then FFin (s \<and> t \<and> m = 0 \<and> m' = 0) 0 0
                 else fl_ratio n (fl_den e * fl_den e')))"

definition fl_sub :: "pyfloat \<Rightarrow> pyfloat \<Rightarrow> pyfloat" where
  "fl_sub x y = fl_add x (fl_neg y)"

definition fl_mul :: "pyfloat \<Rightarrow> pyfloat \<Rightarrow> pyfloat" where
  "fl_mul x y =
     (case x of
        FNaN \<Rightarrow> FNaN
      | FInf s \<Rightarrow>
         (case y of
            FNaN \<Rightarrow> FNaN
          | FInf t \<Rightarrow> FInf (s \<noteq> t)
          | FFin t m e \<Rightarrow> if m = 0 then FNaN else FInf (s \<noteq> t))
      | FFin s m e \<Rightarrow>
         (case y of
            FNaN \<Rightarrow> FNaN
          | FInf t \<Rightarrow> if m = 0 then FNaN else FInf (s \<noteq> t)
          | FFin t m' e' \<Rightarrow>
              round_ratio (s \<noteq> t) (\<bar>fl_num s m e\<bar> * \<bar>fl_num t m' e'\<bar>) (fl_den e * fl_den e')))"

text \<open>\<open>x / y\<close>; the callers have excluded a zero divisor, which Python refuses.\<close>

definition fl_div :: "pyfloat \<Rightarrow> pyfloat \<Rightarrow> pyfloat py" where
  "fl_div x y =
     (if fl_is_zero y then Inl (ZeroDivisionError ''float division by zero'')
      else Inr (case x of
        FNaN \<Rightarrow> FNaN
      | FInf s \<Rightarrow> (case y of FNaN \<Rightarrow> FNaN | FInf t \<Rightarrow> FNaN | FFin t m e \<Rightarrow> FInf (s \<noteq> t))
      | FFin s m e \<Rightarrow>
         (case y of
            FNaN \<Rightarrow> FNaN
          | FInf t \<Rightarrow> FFin (s \<noteq> t) 0 0
          | FFin t m' e' \<Rightarrow>
              round_ratio (s \<noteq> t) (\<bar>fl_num s m e\<bar> * fl_den e') (\<bar>fl_num t m' e'\<bar> * fl_den e))))"

text \<open>\<open>x % y\<close> for a non-negative \<open>x\<close> and a positive \<open>y\<close>, which is exact.\<close>

definition fl_mod_nonneg :: "pyfloat \<Rightarrow> pyfloat \<Rightarrow> pyfloat" where
  "fl_mod_nonneg x y =
     (case x of
        FNaN \<Rightarrow> FNaN
      | FInf s \<Rightarrow> FNaN
      | FFin s m e \<Rightarrow>
         (case y of
            FNaN \<Rightarrow> FNaN
          | FInf t \<Rightarrow> x
          | FFin t m' e' \<Rightarrow>
              fl_ratio ((fl_num s m e * fl_den e') mod (fl_num t m' e' * fl_den e))
                       (fl_den e * fl_den e')))"

text \<open>Comparisons are exact; \<open>None\<close> is an unordered pair (a NaN operand).\<close>

definition fl_cmp :: "pyfloat \<Rightarrow> pyfloat \<Rightarrow> int option" where
  "fl_cmp x y =
     (case x of
        FNaN \<Rightarrow> None
      | FInf s \<Rightarrow>
         (case y of
            FNaN \<Rightarrow> None
          | FInf t \<Rightarrow> Some (if s = t then 0 else if s then - 1 else 1)
          | FFin _ _ _ \<Rightarrow> Some (if s then - 1 else 1))
      | FFin s m e \<Rightarrow>
         (case y of
            FNaN \<Rightarrow> None
          | FInf t \<Rightarrow> Some (if t then 1 else - 1)
          | FFin t m' e' \<Rightarrow>
              Some (sgn (fl_num s m e * fl_den e' - fl_num t m' e' * fl_den e))))"

definition fl_cmp_int :: "pyfloat \<Rightarrow> int \<Rightarrow> int option" where
  "fl_cmp_int x i =
     (case x of
        FNaN \<Rightarrow> None
      | FInf s \<Rightarrow> Some (if s then - 1 else 1)
      | FFin s m e \<Rightarrow> Some (sgn (fl_num s m e - i * fl_den e)))"

section \<open>Number grammars\<close>

definition digit_val :: "int \<Rightarrow> char \<Rightarrow> int option" where
  "digit_val b c =
     (let n = (of_char c :: int);
          v = (if 48 \<le> n \<and> n \<le> 57 then n - 48
               else if 97 \<le> n \<and> n \<le> 102 then n - 87
               else if 65 \<le> n \<and> n \<le> 70 then n - 55
               else 99)
      in if v < b then Some v else None)"

text \<open>Digits with single underscores between them; the flag says that the last character was a digit.\<close>

fun und_digits :: "int \<Rightarrow> int \<Rightarrow> bool \<Rightarrow> string \<Rightarrow> int option" where
  "und_digits b acc lastd [] = (if lastd then Some acc else None)"
| "und_digits b acc lastd (c # s) =
     (if c = CHR ''_'' then (if lastd then und_digits b acc False s else None)
      else case digit_val b c of None \<Rightarrow> None | Some v \<Rightarrow> und_digits b (acc * b + v) True s)"

fun split_sign :: "string \<Rightarrow> bool \<times> string" where
  "split_sign [] = (False, [])"
| "split_sign (c # s) =
     (if c = CHR ''-'' then (True, s) else if c = CHR ''+'' then (False, s) else (False, c # s))"

definition py_int10 :: "string \<Rightarrow> int option" where
  "py_int10 str =
     (let (neg, s) = split_sign (str_strip str)
      in map_option (\<lambda>v. if neg then - v else v) (und_digits 10 0 False s))"

text \<open>\<open>int(s, 0)\<close>: a base prefix, or decimal digits that do not start with a zero unless all are zero.\<close>

definition int0_body :: "string \<Rightarrow> int option" where
  "int0_body s =
     (case s of
        a # b # t \<Rightarrow>
          if a = CHR ''0'' \<and> (b = CHR ''x'' \<or> b = CHR ''X'')
            then (if t = [] then None else und_digits 16 0 True t)
          else if a = CHR ''0'' \<and> (b = CHR ''o'' \<or> b = CHR ''O'')
            then (if t = [] then None else und_digits 8 0 True t)
          else if a = CHR ''0'' \<and> (b = CHR ''b'' \<or> b = CHR ''B'')
            then (if t = [] then None else und_digits 2 0 True t)
          else (case und_digits 10 0 False s of
                  None \<Rightarrow> None
                | Some v \<Rightarrow> if a = CHR ''0'' \<and> v \<noteq> 0 then None else Some v)
      | _ \<Rightarrow> und_digits 10 0 False s)"

definition py_int0 :: "string \<Rightarrow> int option" where
  "py_int0 str =
     (let (neg, s) = split_sign (str_strip str)
      in map_option (\<lambda>v. if neg then - v else v) (int0_body s))"

text \<open>\<open>float(s)\<close> on a decimal literal: digits, an optional fraction, an optional exponent.\<close>

definition is_exp_char :: "char \<Rightarrow> bool" where
  "is_exp_char c = (c = CHR ''e'' \<or> c = CHR ''E'')"

definition dec_to_float :: "bool \<Rightarrow> int \<Rightarrow> int \<Rightarrow> pyfloat" where
  "dec_to_float s m ex =
     (if 0 \<le> ex then round_ratio s (m * 10 ^ nat ex) 1 else round_ratio s m (10 ^ nat (- ex)))"

definition opt_digits :: "string \<Rightarrow> int option" where
  "opt_digits s = (if s = [] then Some 0 else und_digits 10 0 False s)"

definition py_float_body :: "bool \<Rightarrow> string \<Rightarrow> pyfloat option" where
  "py_float_body neg s =
     (let mant = takeWhile (\<lambda>c. \<not> is_exp_char c) s;
          rest = dropWhile (\<lambda>c. \<not> is_exp_char c) s;
          ip = takeWhile (\<lambda>c. c \<noteq> CHR ''.'') mant;
          fp = (case dropWhile (\<lambda>c. c \<noteq> CHR ''.'') mant of [] \<Rightarrow> [] | _ # t \<Rightarrow> t);
          ex = (case rest of
                  [] \<Rightarrow> Some 0
                | _ # t \<Rightarrow> (let (en, ds) = split_sign t
                             in map_option (\<lambda>v. if en then - v else v) (und_digits 10 0 False ds)))
      in if ip = [] \<and> fp = [] then None
         else case opt_digits ip of
                None \<Rightarrow> None
              | Some i \<Rightarrow>
                 (case opt_digits fp of
                    None \<Rightarrow> None
                  | Some f \<Rightarrow>
                     (case ex of
                        None \<Rightarrow> None
                      | Some x \<Rightarrow>
                          let k = length (filter (\<lambda>c. c \<noteq> CHR ''_'') fp)
                          in Some (dec_to_float neg (i * 10 ^ k + f) (x - int k)))))"

definition py_float :: "string \<Rightarrow> pyfloat option" where
  "py_float str =
     (let (neg, s) = split_sign (str_strip str); l = str_lower s
      in if l = ''inf'' \<or> l = ''infinity'' then Some (FInf neg)
         else if l = ''nan'' then Some FNaN
         else py_float_body neg s)"

section \<open>Truncated quotients\<close>

lemma div_pow2_div: "0 < d \<Longrightarrow> 0 \<le> k \<Longrightarrow> ((n * pow2 k) div d) div pow2 k = n div (d::int)"
  by (simp add: zdiv_zmult2_eq [symmetric] mult.commute [of _ "pow2 k"] pow2_def)

lemma bit_len_bounds: "0 < n \<Longrightarrow> 0 < bit_len n \<and> pow2 (bit_len n - 1) \<le> n \<and> n < pow2 (bit_len n)"
proof (induction n rule: bit_len.induct)
  case (1 n)
  show ?case
  proof (cases "n = 1")
    case True
    then show ?thesis by (simp add: bit_len.simps [of 1] bit_len.simps [of 0] pow2_def)
  next
    case False
    with 1 have IH: "0 < bit_len (n div 2)" "pow2 (bit_len (n div 2) - 1) \<le> n div 2"
      "n div 2 < pow2 (bit_len (n div 2))" by auto
    have eq: "bit_len n = 1 + bit_len (n div 2)"
      using 1(2) by (simp add: bit_len.simps [of n])
    have "pow2 (bit_len (n div 2)) = pow2 1 * pow2 (bit_len (n div 2) - 1)"
      using IH(1) pow2_add [of 1 "bit_len (n div 2) - 1"] by simp
    moreover have "pow2 (1 + bit_len (n div 2)) = pow2 1 * pow2 (bit_len (n div 2))"
      using IH(1) pow2_add [of 1 "bit_len (n div 2)"] by simp
    moreover have "pow2 1 = 2" by (simp add: pow2_def)
    ultimately show ?thesis using IH eq by simp linarith
  qed
qed

text \<open>\<open>2^(flog2 n d) <= n / d < 2^(flog2 n d + 1)\<close>, written without fractions.\<close>

definition le_scaled :: "int \<Rightarrow> int \<Rightarrow> int \<Rightarrow> bool" where
  "le_scaled k n d = (if 0 \<le> k then d * pow2 k \<le> n else d \<le> n * pow2 (- k))"

lemma le_scaled_trans:
  "le_scaled k n d \<Longrightarrow> j \<le> k \<Longrightarrow> 0 < n \<Longrightarrow> 0 < d \<Longrightarrow> le_scaled j n d"
proof -
  assume k: "le_scaled k n d" and jk: "j \<le> k" and n: "0 < n" and d: "0 < d"
  consider "0 \<le> j" | "j < 0" "0 \<le> k" | "k < 0" using jk by linarith
  then show "le_scaled j n d"
  proof cases
    case 1
    then have "d * pow2 j \<le> d * pow2 k" using jk d by (simp add: pow2_mono)
    with 1 k jk show ?thesis by (simp add: le_scaled_def)
  next
    case 2
    have "d * 1 \<le> d * pow2 k" using d by (intro mult_left_mono) (simp_all add: pow2_def)
    with 2 k have "d \<le> n" by (simp add: le_scaled_def)
    moreover have "n * 1 \<le> n * pow2 (- j)" using n by (intro mult_left_mono) (simp_all add: pow2_def)
    ultimately show ?thesis using 2 by (simp add: le_scaled_def)
  next
    case 3
    have "n * pow2 (- k) \<le> n * pow2 (- j)" using n jk by (simp add: pow2_mono)
    with 3 k jk show ?thesis by (simp add: le_scaled_def)
  qed
qed

lemma flog2_eq:
  "flog2 n d =
     (let k = bit_len n - bit_len d in if le_scaled k n d then k else k - 1)"
  by (simp only: flog2_def le_scaled_def)

lemma flog2_lower:
  assumes "0 < n" "0 < d"
  shows "le_scaled (flog2 n d) n d"
proof -
  define k where "k = bit_len n - bit_len d"
  note n = bit_len_bounds [OF assms(1)] and d = bit_len_bounds [OF assms(2)]
  show ?thesis
  proof (cases "le_scaled k n d")
    case True
    then have "flog2 n d = k" by (simp add: flog2_eq k_def Let_def)
    with True show ?thesis by simp
  next
    case False
    then have eq: "flog2 n d = k - 1"
      by (simp add: flog2_eq k_def Let_def)
    have "le_scaled (k - 1) n d"
    proof (cases "1 \<le> k")
      case True
      have "d * pow2 (k - 1) \<le> pow2 (bit_len d) * pow2 (k - 1)"
        using d by (intro mult_right_mono) (auto simp: less_imp_le)
      also have "\<dots> = pow2 (bit_len n - 1)"
        using True d by (simp add: pow2_add [symmetric] k_def)
      also have "\<dots> \<le> n" using n by simp
      finally show ?thesis using True by (simp add: le_scaled_def)
    next
      case False
      have "d \<le> pow2 (bit_len d)" using d by simp
      also have "\<dots> = pow2 (bit_len n - 1) * pow2 (1 - k)"
        using False n by (simp add: pow2_add [symmetric] k_def)
      also have "\<dots> \<le> n * pow2 (1 - k)"
        using n by (intro mult_right_mono) (auto simp: less_imp_le)
      finally show ?thesis using False by (simp add: le_scaled_def)
    qed
    with eq show ?thesis by simp
  qed
qed

lemma flog2_le_52:
  assumes "0 < n" "n < pow2 53" "0 < d"
  shows "flog2 n d \<le> 52"
proof (rule ccontr)
  assume "\<not> flog2 n d \<le> 52"
  then have "le_scaled 53 n d"
    using flog2_lower [OF assms(1,3)] le_scaled_trans [of "flog2 n d" n d 53] assms by simp
  then have "d * pow2 53 \<le> n" by (simp add: le_scaled_def)
  moreover have "1 * pow2 53 \<le> d * pow2 53" using assms(3) by (intro mult_right_mono) auto
  ultimately show False using assms(2) by simp
qed

lemma scaled_quotient_ge:
  assumes "0 < n" "0 < d" "0 \<le> k" "le_scaled (52 - k) n d"
  shows "pow2 52 \<le> (n * pow2 k) div d"
proof -
  have "pow2 52 * d \<le> n * pow2 k"
  proof (cases "k \<le> 52")
    case True
    then have "d * pow2 (52 - k) * pow2 k \<le> n * pow2 k"
      using assms(4) by (intro mult_right_mono) (auto simp: le_scaled_def less_imp_le)
    moreover have "pow2 52 = pow2 (52 - k) * pow2 k"
      using True assms(3) pow2_add [of "52 - k" k] by simp
    ultimately show ?thesis by (simp add: ac_simps)
  next
    case False
    then have "d * pow2 52 \<le> n * pow2 (k - 52) * pow2 52"
      using assms(4) by (intro mult_right_mono) (auto simp: le_scaled_def less_imp_le)
    moreover have "pow2 k = pow2 (k - 52) * pow2 52"
      using False pow2_add [of "k - 52" 52] by simp
    ultimately show ?thesis by (simp add: ac_simps)
  qed
  from zdiv_mono1 [OF this assms(2)] assms(2) show ?thesis by simp
qed

lemma div_succ_same:
  assumes "0 < P" "\<forall>j. q + 1 \<noteq> j * P"
  shows "(q + 1) div P = q div (P::int)"
proof -
  have "(q + 1) mod P \<noteq> 0"
    using assms(2) by (metis div_mult_mod_eq add.right_neutral)
  then have "0 < (q + 1) mod P" using assms(1) by (simp add: order_less_le)
  then have "q = (q + 1) div P * P + ((q + 1) mod P - 1)" by (simp add: algebra_simps)
  moreover have "0 \<le> (q + 1) mod P - 1" "(q + 1) mod P - 1 < P"
    using \<open>0 < (q + 1) mod P\<close> assms(1) pos_mod_bound [of P "q + 1"] by linarith+
  ultimately show ?thesis
    by (metis assms(1) div_mult_self3 div_pos_pos_trivial add.commute add.right_neutral order_less_irrefl)
qed

text \<open>
  The rounded significand of a ratio whose numerator is below \<open>2^53\<close> never crosses to the next
  integer: rounding up would need a denominator above \<open>2^(k+1)\<close>, and then the numerator is too big.
\<close>

lemma rounded_quotient_div:
  fixes n d k :: int
  assumes n: "0 < n" "n < pow2 53" and d: "0 < d" and k: "0 < k"
    and big: "pow2 52 \<le> (n * pow2 k) div d \<or> k = 1074"
    and up: "d \<le> 2 * ((n * pow2 k) mod d)"
    and small: "k = 1074 \<longrightarrow> (n * pow2 k) div d + 1 < pow2 k \<or> pow2 52 \<le> (n * pow2 k) div d"
  shows "((n * pow2 k) div d + 1) div pow2 k = n div d"
proof -
  define q where "q = (n * pow2 k) div d"
  define r where "r = (n * pow2 k) mod d"
  have nk: "n * pow2 k = q * d + r" by (simp add: q_def r_def)
  have "\<forall>j. q + 1 \<noteq> j * pow2 k"
  proof (intro allI notI)
    fix j assume j: "q + 1 = j * pow2 k"
    have q0: "0 \<le> q" using n d by (simp add: q_def pos_imp_zdiv_nonneg_iff)
    show False
    proof (cases "pow2 52 \<le> q")
      case True
      have "(j * d - n) * pow2 k = (j * pow2 k) * d - n * pow2 k" by (simp add: algebra_simps)
      also have "\<dots> = (q + 1) * d - (q * d + r)" using nk j by simp
      also have "\<dots> = d - r" by (simp add: algebra_simps)
      finally have cross: "(j * d - n) * pow2 k = d - r" .
      have "r < d" using d by (simp add: r_def)
      with cross have "0 < (j * d - n) * pow2 k" by simp
      then have pos: "1 \<le> j * d - n" using pow2_pos [of k] by (auto simp: zero_less_mult_iff)
      have "pow2 k \<le> (j * d - n) * pow2 k" using mult_right_mono [OF pos, of "pow2 k"] by simp
      also note cross
      finally have "2 * pow2 k \<le> d" using up by (simp add: r_def)
      then have "pow2 52 * (2 * pow2 k) \<le> q * d"
        using True by (intro mult_mono) (auto simp: q0)
      also have "\<dots> \<le> n * pow2 k"
        using nk pos_mod_sign [OF d, of "n * pow2 k"] r_def by linarith
      finally have "(pow2 52 * 2) * pow2 k \<le> n * pow2 k" by (simp add: ac_simps)
      then have "pow2 52 * 2 \<le> n" by simp
      with n show False by (simp add: pow2_def)
    next
      case False
      with big small have "q + 1 < pow2 k" by (auto simp: q_def)
      moreover have "0 < j * pow2 k" using j q0 by simp
      then have "1 \<le> j" using pow2_pos [of k] by (auto simp: zero_less_mult_iff)
      then have "1 * pow2 k \<le> j * pow2 k" by (rule mult_right_mono) simp
      ultimately show False using j by simp
    qed
  qed
  with div_succ_same [of "pow2 k" q] have "(q + 1) div pow2 k = q div pow2 k" by simp
  with div_pow2_div [of d k n] d k show ?thesis by (simp add: q_def)
qed

lemma trunc_round_ratio:
  assumes n: "0 < n" "n < pow2 53" and d: "0 < d"
  shows "fl_trunc (round_ratio s n d) = Inr ((if s then - 1 else 1) * (n div d))"
proof -
  define e where "e = max (flog2 n d - 52) (- 1074)"
  define k where "k = - e"
  define q where "q = (n * pow2 k) div d"
  define r where "r = (n * pow2 k) mod d"
  define q' where "q' = (if d < 2 * r \<or> (d = 2 * r \<and> odd q) then q + 1 else q)"
  have e0: "e \<le> 0" using flog2_le_52 [OF n d] by (simp add: e_def)
  have e_test: "(0 \<le> e) = (k = 0)" using e0 by (auto simp: k_def)
  have p0: "pow2 0 = 1" by (simp add: pow2_def)
  have round: "round_ratio s n d =
      (if q' = 0 then FFin s 0 0
       else if q' = pow2 53 then FFin s (pow2 52) (e + 1) else FFin s q' e)"
  proof -
    have "(if 0 \<le> e then n else n * pow2 (- e)) = n * pow2 k"
      and "(if 0 \<le> e then d * pow2 e else d) = d"
      using e0 by (auto simp: k_def p0)
    moreover have "n \<noteq> 0" "\<not> 971 < e + 1" "\<not> 971 < e" using n e0 by simp_all
    ultimately show ?thesis
      unfolding round_ratio_def Let_def e_def [symmetric] q'_def q_def r_def
      by (simp only: if_False)
  qed
  have big: "pow2 52 \<le> q \<or> k = 1074"
  proof (cases "flog2 n d - 52 \<le> - 1074")
    case False
    then have "le_scaled (52 - k) n d"
      using flog2_lower [OF n(1) d] by (simp add: k_def e_def)
    then show ?thesis
      using scaled_quotient_ge [of n d k] n d e0 by (simp add: q_def k_def)
  qed (simp add: k_def e_def)
  have q': "q' div pow2 k = n div d"
  proof (cases "q' = q")
    case True
    then show ?thesis using div_pow2_div [of d k n] d e0 by (simp add: q_def k_def)
  next
    case False
    then have up: "q' = q + 1" "d \<le> 2 * r" by (auto simp: q'_def split: if_splits)
    have "0 < r" using up d by simp
    have k0: "0 < k"
    proof (rule ccontr)
      assume "\<not> 0 < k"
      with e0 have k: "k = 0" by (simp add: k_def)
      with big have "pow2 52 \<le> n div d" by (simp add: q_def p0)
      then have "pow2 52 * d \<le> n div d * d" using d by (intro mult_right_mono) auto
      then have "pow2 52 * d \<le> n"
        using div_mult_mod_eq [of n d] pos_mod_sign [of d n] d by linarith
      with n(2) have "d = 1" using d by (simp add: pow2_def)
      with \<open>0 < r\<close> show False by (simp add: r_def)
    qed
    have "k = 1074 \<longrightarrow> q + 1 < pow2 k \<or> pow2 52 \<le> q" by (auto simp: pow2_def)
    with rounded_quotient_div [of n d k] n d k0 big up show ?thesis
      by (simp add: q_def r_def)
  qed
  show ?thesis
  proof (cases "q' = pow2 53")
    case True
    have "pow2 52 div pow2 (k - 1) = pow2 53 div pow2 k" if "0 < k"
    proof -
      have "pow2 53 = pow2 1 * pow2 52" "pow2 k = pow2 1 * pow2 (k - 1)"
        using that pow2_add [of 1 "k - 1"] by (simp_all add: pow2_def)
      then show ?thesis by (simp add: pow2_def)
    qed
    moreover have "0 < k"
    proof (rule ccontr)
      assume "\<not> 0 < k"
      with e0 have "k = 0" by (simp add: k_def)
      with q' True have "pow2 53 = n div d" by (simp add: p0)
      moreover have "n div d \<le> n" using n d by (simp add: zdiv_mono2 [of n 1 d, simplified])
      ultimately show False using n by simp
    qed
    ultimately have "pow2 52 div pow2 (k - 1) = n div d" using q' True by simp
    moreover have "round_ratio s n d = FFin s (pow2 52) (e + 1)"
      using round True by (simp add: pow2_def)
    moreover have "e = - k" by (simp add: k_def)
    ultimately show ?thesis using \<open>0 < k\<close>
      by (cases "k = 1") (auto simp: fl_trunc_def p0)
  next
    case False
    then show ?thesis using q' round e_test
      by (auto simp: fl_trunc_def k_def p0)
  qed
qed

end
