(* ===== verification/IR.thy ===== *)
theory IR
  imports PyFloat
begin

text \<open>
  The intermediate representation of \<open>cdup/src/models.py\<close>: slots, classified statements and segments
  as records, the expression trees \<open>expr.py\<close> builds as a datatype, and the \<open>to_dict\<close> methods that
  turn them into JSON documents. The last section shows that serialisation loses nothing.
\<close>

section \<open>JSON documents\<close>

datatype json =
    JNull
  | JBool bool
  | JInt int
  | JFloat pyfloat
  | JStr string
  | JList "json list"
  | JObj "(string \<times> json) list"

text \<open>\<open>d.get(k)\<close> on a JSON object.\<close>

fun json_get :: "json \<Rightarrow> string \<Rightarrow> json option" where
  "json_get (JObj kvs) k = map_of kvs k"
| "json_get _ k = None"

definition json_opt :: "string option \<Rightarrow> json" where
  "json_opt s = (case s of None \<Rightarrow> JNull | Some x \<Rightarrow> JStr x)"

text \<open>The truth value of an \<open>Optional[str]\<close>.\<close>

definition truthy_str :: "string option \<Rightarrow> bool" where
  "truthy_str s = (case s of None \<Rightarrow> False | Some x \<Rightarrow> x \<noteq> [])"

section \<open>Expression trees\<close>

text \<open>
  The four node shapes of \<open>expr.py\<close>: \<open>{"name": x}\<close>, \<open>{"slot": x}\<close> (after resolution),
  \<open>{"const": v, "type": t}\<close> and \<open>{"op": o, "args": [...]}\<close> with the extra keys \<open>field\<close>, \<open>type\<close>,
  \<open>fn\<close> and \<open>of\<close> some operators carry. The key \<open>of\<close> may be present with the value \<open>None\<close>.
\<close>

datatype const_val = CInt int | CFloat pyfloat | CStr string

record op_attrs =
  a_field :: "string option"
  a_type :: "string option"
  a_fn :: "string option"
  a_of :: "string option option"

definition no_attrs :: op_attrs where
  "no_attrs = \<lparr>a_field = None, a_type = None, a_fn = None, a_of = None\<rparr>"

datatype expr =
    EName string
  | ESlot string
  | EConst const_val string
  | EOp string "expr list" op_attrs

definition const_json :: "const_val \<Rightarrow> json" where
  "const_json v = (case v of CInt i \<Rightarrow> JInt i | CFloat x \<Rightarrow> JFloat x | CStr s \<Rightarrow> JStr s)"

definition attrs_json :: "op_attrs \<Rightarrow> (string \<times> json) list" where
  "attrs_json a =
     (case a_field a of None \<Rightarrow> [] | Some x \<Rightarrow> [(''field'', JStr x)])
     @ (case a_type a of None \<Rightarrow> [] | Some x \<Rightarrow> [(''type'', JStr x)])
     @ (case a_fn a of None \<Rightarrow> [] | Some x \<Rightarrow> [(''fn'', JStr x)])
     @ (case a_of a of None \<Rightarrow> [] | Some x \<Rightarrow> [(''of'', json_opt x)])"

fun expr_json :: "expr \<Rightarrow> json" where
  "expr_json (EName x) = JObj [(''name'', JStr x)]"
| "expr_json (ESlot x) = JObj [(''slot'', JStr x)]"
| "expr_json (EConst v t) = JObj [(''const'', const_json v), (''type'', JStr t)]"
| "expr_json (EOp op args a) =
     JObj ([(''op'', JStr op), (''args'', JList (map expr_json args))] @ attrs_json a)"

section \<open>Slots, statements, segments\<close>

record slot =
  sl_name :: string
  sl_scoped_name :: string
  sl_type :: string
  sl_constant :: bool
  sl_param :: bool
  sl_loop_iterator :: bool
  sl_value :: "json option"
  sl_udt_parent :: "string option"
  sl_udt_type :: "string option"

definition slot_to_dict :: "slot \<Rightarrow> json" where
  "slot_to_dict s =
     JObj ([(''name'', JStr (sl_name s)),
            (''scoped_name'', JStr (sl_scoped_name s)),
            (''type'', JStr (sl_type s)),
            (''constant'', JBool (sl_constant s))]
           @ (if sl_param s then [(''param'', JBool True)] else [])
           @ (if sl_loop_iterator s then [(''loop_iterator'', JBool True)] else [])
           @ (case sl_value s of None \<Rightarrow> [] | Some v \<Rightarrow> [(''value'', v)])
           @ (if truthy_str (sl_udt_parent s)
              then [(''udt_parent'', json_opt (sl_udt_parent s))] else [])
           @ (if truthy_str (sl_udt_type s)
              then [(''udt_type'', json_opt (sl_udt_type s))] else []))"

record stmt =
  st_raw :: string
  st_kind :: string
  st_l_name :: "string option"
  st_r_names :: "string list"
  st_expr :: "expr option"
  st_type :: "string option"
  st_iterator_type :: "string option"

definition stmt_to_dict :: "stmt \<Rightarrow> json" where
  "stmt_to_dict s =
     JObj ([(''raw'', JStr (st_raw s)),
            (''kind'', JStr (st_kind s)),
            (''l_name'', json_opt (st_l_name s)),
            (''r_names'', JList (map JStr (st_r_names s)))]
           @ (case st_expr s of None \<Rightarrow> [] | Some e \<Rightarrow> [(''expr'', expr_json e)])
           @ (if truthy_str (st_type s) then [(''type'', json_opt (st_type s))] else [])
           @ (if truthy_str (st_iterator_type s)
              then [(''iterator_type'', json_opt (st_iterator_type s))] else []))"

record segment =
  sg_id :: nat
  sg_parent :: nat
  sg_type :: string
  sg_name :: string
  sg_scope_path :: string
  sg_head :: "string option"
  sg_memory :: "slot list"
  sg_constants :: "slot list"
  sg_stmts :: "stmt list"

definition segment_to_dict :: "segment \<Rightarrow> json" where
  "segment_to_dict s =
     JObj [(''id'', JInt (int (sg_id s))),
           (''parent'', JInt (int (sg_parent s))),
           (''type'', JStr (sg_type s)),
           (''name'', JStr (sg_name s)),
           (''scope_path'', JStr (sg_scope_path s)),
           (''head'', json_opt (sg_head s)),
           (''memory'', JList (map slot_to_dict (sg_memory s))),
           (''constants'', JList (map slot_to_dict (sg_constants s))),
           (''stmts'', JList (map stmt_to_dict (sg_stmts s)))]"

text \<open>
  The front ends add three keys to every segment of a file (\<open>file\<close>, \<open>module\<close>, \<open>language\<close>); the
  detectors read them with defaults. A missing key is \<open>None\<close>.
\<close>

record fsegment = segment +
  sg_file :: "string option"
  sg_module :: "string option"
  sg_language :: "string option"

section \<open>Segment trees\<close>

text \<open>
  \<open>{seg["id"]: seg for seg in segments}\<close> and the children lists. Both are dictionaries; a later
  segment with the same id replaces an earlier one.
\<close>

definition seg_by_id :: "('a segment_scheme) list \<Rightarrow> (nat, 'a segment_scheme) dict" where
  "seg_by_id segments = fold (\<lambda>seg d. dict_set (sg_id seg) seg d) segments []"

lemma seg_by_id_lookup:
  "dict_get (seg_by_id segs) i = map_of (rev (map (\<lambda>s. (sg_id s, s)) segs)) i"
proof -
  have "fold (\<lambda>seg d. dict_set (sg_id seg) seg d) segs d
      = fold (\<lambda>(k, v). dict_set k v) (map (\<lambda>s. (sg_id s, s)) segs) d" for d
    by (induction segs arbitrary: d) auto
  then show ?thesis
    by (simp add: seg_by_id_def pydict.lookup_fold_insert split: option.splits)
qed

lemma seg_by_id_mem: "dict_get (seg_by_id segs) i = Some s \<Longrightarrow> s \<in> set segs \<and> sg_id s = i"
  by (auto simp: seg_by_id_lookup dest!: map_of_SomeD)

lemma seg_by_id_Some:
  assumes "distinct (map sg_id segs)" "s \<in> set segs"
  shows "dict_get (seg_by_id segs) (sg_id s) = Some s"
proof -
  have "distinct (map fst (rev (map (\<lambda>s. (sg_id s, s)) segs)))"
    using assms(1) by (simp add: rev_map [symmetric] o_def)
  with assms(2) show ?thesis by (auto simp: seg_by_id_lookup intro!: map_of_is_SomeI)
qed

section \<open>Serialisation is faithful\<close>

lemma json_opt_inj [simp]: "json_opt a = json_opt b \<longleftrightarrow> a = b"
  by (auto simp: json_opt_def split: option.splits)

lemma const_json_inj [simp]: "const_json a = const_json b \<longleftrightarrow> a = b"
  by (auto simp: const_json_def split: const_val.splits)

lemma attrs_json_get:
  "map_of (attrs_json a) ''field'' = map_option JStr (a_field a)"
  "map_of (attrs_json a) ''type'' = map_option JStr (a_type a)"
  "map_of (attrs_json a) ''fn'' = map_option JStr (a_fn a)"
  "map_of (attrs_json a) ''of'' = map_option json_opt (a_of a)"
  by (simp_all add: attrs_json_def split: option.splits)

lemma map_option_inj: "map_option f x = map_option f y \<Longrightarrow> (\<And>a b. f a = f b \<Longrightarrow> a = b) \<Longrightarrow> x = y"
  by (cases x; cases y) auto

lemma attrs_json_inj: "attrs_json a = attrs_json b \<Longrightarrow> a = b"
proof -
  assume eq: "attrs_json a = attrs_json b"
  have "a_field a = a_field b"
    by (rule map_option_inj [of JStr]) (simp_all add: attrs_json_get [symmetric] eq)
  moreover have "a_type a = a_type b"
    by (rule map_option_inj [of JStr]) (simp_all add: attrs_json_get [symmetric] eq)
  moreover have "a_fn a = a_fn b"
    by (rule map_option_inj [of JStr]) (simp_all add: attrs_json_get [symmetric] eq)
  moreover have "a_of a = a_of b"
    by (rule map_option_inj [of json_opt]) (simp_all add: attrs_json_get [symmetric] eq)
  ultimately show ?thesis by (simp add: op_attrs.equality)
qed

lemma map_inj_on_set:
  "map f xs = map f ys \<Longrightarrow> (\<And>x y. x \<in> set xs \<Longrightarrow> f x = f y \<Longrightarrow> x = y) \<Longrightarrow> xs = ys"
proof (induction xs arbitrary: ys)
  case (Cons x xs)
  then show ?case by (cases ys) auto
qed simp

lemma expr_json_inj: "expr_json e = expr_json e' \<Longrightarrow> e = e'"
proof (induction e arbitrary: e')
  case (EName x)
  then show ?case by (cases e') simp_all
next
  case (ESlot x)
  then show ?case by (cases e') simp_all
next
  case (EConst v t)
  then show ?case by (cases e') simp_all
next
  case (EOp op args a)
  then obtain args' a' where e': "e' = EOp op args' a'" "map expr_json args = map expr_json args'"
    "attrs_json a = attrs_json a'" by (cases e') simp_all
  have "args = args'" using e'(2) EOp.IH by (rule map_inj_on_set)
  with e' show ?case by (simp add: attrs_json_inj)
qed

text \<open>The serialised keys of a slot and of a statement, as the later passes read them.\<close>

lemma slot_dict_get:
  "json_get (slot_to_dict s) ''name'' = Some (JStr (sl_name s))"
  "json_get (slot_to_dict s) ''scoped_name'' = Some (JStr (sl_scoped_name s))"
  "json_get (slot_to_dict s) ''type'' = Some (JStr (sl_type s))"
  "json_get (slot_to_dict s) ''constant'' = Some (JBool (sl_constant s))"
  "json_get (slot_to_dict s) ''param'' = (if sl_param s then Some (JBool True) else None)"
  "json_get (slot_to_dict s) ''loop_iterator'' =
     (if sl_loop_iterator s then Some (JBool True) else None)"
  "json_get (slot_to_dict s) ''value'' = sl_value s"
  "json_get (slot_to_dict s) ''udt_parent'' =
     (if truthy_str (sl_udt_parent s) then Some (json_opt (sl_udt_parent s)) else None)"
  "json_get (slot_to_dict s) ''udt_type'' =
     (if truthy_str (sl_udt_type s) then Some (json_opt (sl_udt_type s)) else None)"
  by (simp_all add: slot_to_dict_def split: option.splits)

lemma stmt_dict_get:
  "json_get (stmt_to_dict s) ''raw'' = Some (JStr (st_raw s))"
  "json_get (stmt_to_dict s) ''kind'' = Some (JStr (st_kind s))"
  "json_get (stmt_to_dict s) ''l_name'' = Some (json_opt (st_l_name s))"
  "json_get (stmt_to_dict s) ''r_names'' = Some (JList (map JStr (st_r_names s)))"
  "json_get (stmt_to_dict s) ''expr'' = map_option expr_json (st_expr s)"
  "json_get (stmt_to_dict s) ''type'' =
     (if truthy_str (st_type s) then Some (json_opt (st_type s)) else None)"
  "json_get (stmt_to_dict s) ''iterator_type'' =
     (if truthy_str (st_iterator_type s) then Some (json_opt (st_iterator_type s)) else None)"
  by (simp_all add: stmt_to_dict_def split: option.splits)

text \<open>An optional name is never the empty string, which \<open>to_dict\<close> would drop.\<close>

definition opt_ok :: "string option \<Rightarrow> bool" where
  "opt_ok x = (x \<noteq> Some [])"

lemma opt_ok_inj:
  "opt_ok x \<Longrightarrow> opt_ok y \<Longrightarrow>
   (if truthy_str x then Some (json_opt x) else None) =
   (if truthy_str y then Some (json_opt y) else None) \<Longrightarrow> x = y"
  by (cases x; cases y) (auto simp: opt_ok_def truthy_str_def split: if_splits)

definition slot_ok :: "slot \<Rightarrow> bool" where
  "slot_ok s = (opt_ok (sl_udt_parent s) \<and> opt_ok (sl_udt_type s))"

definition stmt_ok :: "stmt \<Rightarrow> bool" where
  "stmt_ok s = (opt_ok (st_type s) \<and> opt_ok (st_iterator_type s))"

definition segment_ok :: "segment \<Rightarrow> bool" where
  "segment_ok s =
     (list_all slot_ok (sg_memory s) \<and> list_all slot_ok (sg_constants s) \<and>
      list_all stmt_ok (sg_stmts s))"

lemma slot_to_dict_inj:
  assumes "slot_to_dict s = slot_to_dict t" "slot_ok s" "slot_ok t"
  shows "s = t"
proof -
  note get = slot_dict_get [of s, unfolded assms(1) slot_dict_get [of t], simplified]
  have "sl_udt_parent s = sl_udt_parent t" "sl_udt_type s = sl_udt_type t"
    using get(8,9) assms(2,3) by (auto simp: slot_ok_def intro: opt_ok_inj)
  with get(1-7) show ?thesis by (auto intro!: slot.equality split: if_splits)
qed

lemma stmt_to_dict_inj:
  assumes "stmt_to_dict s = stmt_to_dict t" "stmt_ok s" "stmt_ok t"
  shows "s = t"
proof -
  note get = stmt_dict_get [of s, unfolded assms(1) stmt_dict_get [of t], simplified]
  have "st_type s = st_type t" "st_iterator_type s = st_iterator_type t"
    using get(6,7) assms(2,3) by (auto simp: stmt_ok_def intro: opt_ok_inj)
  moreover have "st_expr s = st_expr t"
    using get(5) by (intro map_option_inj [of expr_json]) (auto intro: expr_json_inj)
  moreover have "st_r_names s = st_r_names t"
    using get(4) by (auto intro: map_inj_on_set [of JStr])
  ultimately show ?thesis using get(1-3) by (auto intro!: stmt.equality)
qed

lemma map_inj_list_all:
  "map f xs = map f ys \<Longrightarrow> list_all P xs \<Longrightarrow> list_all P ys \<Longrightarrow>
   (\<And>x y. f x = f y \<Longrightarrow> P x \<Longrightarrow> P y \<Longrightarrow> x = y) \<Longrightarrow> xs = ys"
proof (induction xs arbitrary: ys)
  case (Cons x xs)
  then show ?case by (cases ys) auto
qed simp

lemma segment_to_dict_inj:
  assumes "segment_to_dict s = segment_to_dict t" "segment_ok s" "segment_ok t"
  shows "s = t"
proof -
  have "sg_memory s = sg_memory t" "sg_constants s = sg_constants t"
    using assms by (auto simp: segment_to_dict_def segment_ok_def
        intro!: map_inj_list_all [of slot_to_dict _ _ slot_ok] slot_to_dict_inj)
  moreover have "sg_stmts s = sg_stmts t"
    using assms by (auto simp: segment_to_dict_def segment_ok_def
        intro!: map_inj_list_all [of stmt_to_dict _ _ stmt_ok] stmt_to_dict_inj)
  ultimately show ?thesis
    using assms(1) by (auto simp: segment_to_dict_def intro!: segment.equality)
qed

end
