(* ===== verification/PyRegex.thy ===== *)
theory PyRegex
  imports PyBase
begin

text \<open>
  The part of Python's \<open>re\<close> the program uses: a backtracking matcher over pattern trees that returns
  every way to match, in the order the engine tries them (greedy before lazy alternatives, left
  before right), so that the engine's own match is the head of the list. \<open>match\<close>, \<open>fullmatch\<close>,
  \<open>search\<close>, \<open>findall\<close> and \<open>sub\<close> are built on it. Each pattern of the source is written once, as a
  tree, next to the function that compiles it.
\<close>

section \<open>Patterns\<close>

datatype rx =
    RChar "char \<Rightarrow> bool"
  | REps
  | RSeq rx rx
  | RAlt rx rx
  | RStar bool rx
  | RGroup nat rx
  | RLook rx
  | RWordB
  | RBeginLine
  | RBegin
  | REnd
  | REndLine

text \<open>Greedy and lazy repetition: \<open>r*\<close>, \<open>r*?\<close>, \<open>r+\<close>, \<open>r+?\<close>, \<open>r?\<close>.\<close>

abbreviation "rstar r \<equiv> RStar True r"
abbreviation "rplus r \<equiv> RSeq r (RStar True r)"
abbreviation "rplus_lazy r \<equiv> RSeq r (RStar False r)"
abbreviation "rstar_lazy r \<equiv> RStar False r"
abbreviation "ropt r \<equiv> RAlt r REps"
abbreviation "rchr c \<equiv> RChar (\<lambda>x. x = c)"
abbreviation "rword \<equiv> RChar is_word"
abbreviation "rspace \<equiv> RChar is_space"
abbreviation "rdigit \<equiv> RChar is_digit"
abbreviation "rdot \<equiv> RChar (\<lambda>x. x \<noteq> CHR 0x0A)"
abbreviation "rany \<equiv> RChar (\<lambda>x. True)"

fun rseq :: "rx list \<Rightarrow> rx" where
  "rseq [] = REps"
| "rseq [r] = r"
| "rseq (r # rs) = RSeq r (rseq rs)"

fun ralt :: "rx list \<Rightarrow> rx" where
  "ralt [] = RChar (\<lambda>_. False)"
| "ralt [r] = r"
| "ralt (r # rs) = RAlt r (ralt rs)"

definition rlit :: "string \<Rightarrow> rx" where
  "rlit s = rseq (map (\<lambda>c. rchr c) s)"

text \<open>\<open>[A-Za-z_]\w*\<close>.\<close>

definition rident :: rx where
  "rident = RSeq (RChar is_id_start) (rstar rword)"

section \<open>The matcher\<close>

text \<open>
  A state is the text before the position (reversed), the text after it, and the groups captured so
  far (the latest first).
\<close>

type_synonym rstate = "string \<times> string \<times> (nat \<times> string) list"

definition at_word_boundary :: "string \<Rightarrow> string \<Rightarrow> bool" where
  "at_word_boundary pre s =
     ((case pre of [] \<Rightarrow> False | c # _ \<Rightarrow> is_word c) \<noteq> (case s of [] \<Rightarrow> False | c # _ \<Rightarrow> is_word c))"

function (sequential) rx_match :: "rx \<Rightarrow> rstate \<Rightarrow> rstate list" where
  "rx_match (RChar P) (pre, s, cs) =
     (case s of [] \<Rightarrow> [] | c # t \<Rightarrow> if P c then [(c # pre, t, cs)] else [])"
| "rx_match REps st = [st]"
| "rx_match (RSeq a b) st = concat (map (rx_match b) (rx_match a st))"
| "rx_match (RAlt a b) st = rx_match a st @ rx_match b st"
| "rx_match (RStar greedy a) st =
     (let more = concat (map (\<lambda>st'. if length (fst (snd st')) < length (fst (snd st))
                                     then rx_match (RStar greedy a) st' else [])
                         (rx_match a st))
      in if greedy then more @ [st] else st # more)"
| "rx_match (RGroup n a) (pre, s, cs) =
     map (\<lambda>(pre', s', cs'). (pre', s', (n, take (length s - length s') s) # cs'))
       (rx_match a (pre, s, cs))"
| "rx_match (RLook a) st = (if rx_match a st = [] then [] else [st])"
| "rx_match RWordB (pre, s, cs) = (if at_word_boundary pre s then [(pre, s, cs)] else [])"
| "rx_match RBeginLine (pre, s, cs) =
     (case pre of [] \<Rightarrow> [(pre, s, cs)] | c # _ \<Rightarrow> if c = CHR 0x0A then [(pre, s, cs)] else [])"
| "rx_match RBegin (pre, s, cs) = (if pre = [] then [(pre, s, cs)] else [])"
| "rx_match REnd (pre, s, cs) = (if s = [] \<or> s = [CHR 0x0A] then [(pre, s, cs)] else [])"
| "rx_match REndLine (pre, s, cs) =
     (case s of [] \<Rightarrow> [(pre, s, cs)] | c # _ \<Rightarrow> if c = CHR 0x0A then [(pre, s, cs)] else [])"
  by pat_completeness auto
termination
  by (relation "measures [\<lambda>(r, st). size r, \<lambda>(r, st). length (fst (snd st))]") auto

declare rx_match.simps(5) [simp del]

section \<open>The entry points\<close>

record rmatch =
  m_pre :: string
  m_text :: string
  m_rest :: string
  m_groups :: "(nat \<times> string) list"

definition mk_match :: "string \<Rightarrow> string \<Rightarrow> rstate \<Rightarrow> rmatch" where
  "mk_match pre s st =
     (case st of (pre', s', cs) \<Rightarrow>
        \<lparr>m_pre = pre, m_text = take (length s - length s') s, m_rest = s', m_groups = cs\<rparr>)"

text \<open>\<open>m.group(n)\<close>; a group that did not take part is \<open>None\<close>.\<close>

definition m_group :: "rmatch \<Rightarrow> nat \<Rightarrow> string option" where
  "m_group m n = map_of (m_groups m) n"

definition m_group_str :: "rmatch \<Rightarrow> nat \<Rightarrow> string" where
  "m_group_str m n = (case m_group m n of None \<Rightarrow> [] | Some t \<Rightarrow> t)"

definition re_match_at :: "rx \<Rightarrow> string \<Rightarrow> string \<Rightarrow> rmatch option" where
  "re_match_at r pre s =
     (case rx_match r (pre, s, []) of [] \<Rightarrow> None | st # _ \<Rightarrow> Some (mk_match pre s st))"

definition re_match :: "rx \<Rightarrow> string \<Rightarrow> rmatch option" where
  "re_match r s = re_match_at r [] s"

definition re_fullmatch :: "rx \<Rightarrow> string \<Rightarrow> rmatch option" where
  "re_fullmatch r s =
     (case filter (\<lambda>st. fst (snd st) = []) (rx_match r ([], s, [])) of
        [] \<Rightarrow> None | st # _ \<Rightarrow> Some (mk_match [] s st))"

fun re_search_from :: "rx \<Rightarrow> string \<Rightarrow> string \<Rightarrow> rmatch option" where
  "re_search_from r pre s =
     (case re_match_at r pre s of
        Some m \<Rightarrow> Some m
      | None \<Rightarrow> (case s of [] \<Rightarrow> None | c # t \<Rightarrow> re_search_from r (c # pre) t))"

declare re_search_from.simps [simp del]

definition re_search :: "rx \<Rightarrow> string \<Rightarrow> rmatch option" where
  "re_search r s = re_search_from r [] s"

text \<open>
  The scan behind \<open>finditer\<close> and \<open>sub\<close>: the text as a list of pieces, unmatched characters and
  matches. An empty match is reported and the next character skipped.
\<close>

datatype piece = PChar char | PMatch rmatch

function re_pieces :: "rx \<Rightarrow> string \<Rightarrow> string \<Rightarrow> piece list" where
  "re_pieces r pre s =
     (case re_match_at r pre s of
        None \<Rightarrow> (case s of [] \<Rightarrow> [] | c # t \<Rightarrow> PChar c # re_pieces r (c # pre) t)
      | Some m \<Rightarrow>
          if length (m_rest m) < length s
          then PMatch m # re_pieces r (rev (m_text m) @ pre) (m_rest m)
          else (case s of [] \<Rightarrow> [PMatch m] | c # t \<Rightarrow> PMatch m # PChar c # re_pieces r (c # pre) t))"
  by pat_completeness auto
termination
  by (relation "measure (\<lambda>(r, pre, s). length s)") auto

declare re_pieces.simps [simp del]

fun pieces_matches :: "piece list \<Rightarrow> rmatch list" where
  "pieces_matches [] = []"
| "pieces_matches (PChar c # ps) = pieces_matches ps"
| "pieces_matches (PMatch m # ps) = m # pieces_matches ps"

fun pieces_sub :: "(rmatch \<Rightarrow> string) \<Rightarrow> piece list \<Rightarrow> string" where
  "pieces_sub f [] = []"
| "pieces_sub f (PChar c # ps) = c # pieces_sub f ps"
| "pieces_sub f (PMatch m # ps) = f m @ pieces_sub f ps"

definition re_finditer :: "rx \<Rightarrow> string \<Rightarrow> rmatch list" where
  "re_finditer r s = pieces_matches (re_pieces r [] s)"

definition re_findall :: "rx \<Rightarrow> string \<Rightarrow> string list" where
  "re_findall r s = map m_text (re_finditer r s)"

definition re_sub :: "rx \<Rightarrow> (rmatch \<Rightarrow> string) \<Rightarrow> string \<Rightarrow> string" where
  "re_sub r f s = pieces_sub f (re_pieces r [] s)"

section \<open>Facts\<close>

text \<open>The matcher only moves the position forward over the text.\<close>

definition consumes :: "rstate \<Rightarrow> rstate \<Rightarrow> bool" where
  "consumes st st' =
     (\<exists>u. fst (snd st) = u @ fst (snd st') \<and> fst st' = rev u @ fst st)"

lemma consumes_refl [simp, intro]: "consumes st st"
  by (simp add: consumes_def)

lemma consumes_trans: "consumes a b \<Longrightarrow> consumes b c \<Longrightarrow> consumes a c"
  by (auto simp: consumes_def)

lemma rx_match_consumes: "st' \<in> set (rx_match r st) \<Longrightarrow> consumes st st'"
proof (induction r st arbitrary: st' rule: rx_match.induct)
  case (1 P pre s cs)
  then show ?case by (auto simp: consumes_def split: list.splits if_splits)
next
  case (3 a b st)
  then obtain mid where "mid \<in> set (rx_match a st)" "st' \<in> set (rx_match b mid)" by auto
  with 3 show ?case by (blast intro: consumes_trans)
next
  case (5 greedy a st)
  from "5.prems" consider "st' = st"
    | mid where "mid \<in> set (rx_match a st)" "length (fst (snd mid)) < length (fst (snd st))"
        "st' \<in> set (rx_match (RStar greedy a) mid)"
    by (subst (asm) rx_match.simps) (auto simp: Let_def split: if_splits)
  then show ?case
  proof cases
    case 2
    from "5.IH"(1) [OF 2(1)] "5.IH"(2) [OF 2] show ?thesis by (rule consumes_trans)
  qed simp
next
  case (6 n a pre s cs)
  then show ?case by (fastforce simp: consumes_def)
qed (auto split: if_splits list.splits)

lemma re_match_at_split:
  assumes "re_match_at r pre s = Some m"
  shows "s = m_text m @ m_rest m" "m_pre m = pre"
proof -
  from assms obtain pre' s' cs where st: "(pre', s', cs) \<in> set (rx_match r (pre, s, []))"
    and m: "m = mk_match pre s (pre', s', cs)"
    by (auto simp: re_match_at_def split: list.splits)
  from rx_match_consumes [OF st] obtain u where "s = u @ s'" by (auto simp: consumes_def)
  then show "s = m_text m @ m_rest m" using m by (simp add: mk_match_def)
  show "m_pre m = pre" using m by (simp add: mk_match_def)
qed

lemma re_fullmatch_text: "re_fullmatch r s = Some m \<Longrightarrow> m_text m = s \<and> m_rest m = []"
  by (auto simp: re_fullmatch_def mk_match_def split: list.splits dest!: filter_eq_ConsD)

text \<open>Substituting every match by itself changes nothing, whatever the pattern.\<close>

lemma pieces_sub_id: "pieces_sub m_text (re_pieces r pre s) = s"
proof (induction r pre s rule: re_pieces.induct)
  case (1 r pre s)
  show ?case
  proof (cases "re_match_at r pre s")
    case None
    then show ?thesis using 1(1)[OF None] by (cases s) (simp_all add: re_pieces.simps [of r pre])
  next
    case (Some m)
    note split = re_match_at_split(1) [OF Some]
    show ?thesis
    proof (cases "length (m_rest m) < length s")
      case True
      then show ?thesis using Some split 1(2)[OF Some True] by (simp add: re_pieces.simps [of r pre])
    next
      case False
      with split have "m_text m = []" by (metis add_cancel_right_left append_Nil length_append length_greater_0_conv less_add_same_cancel2)
      then show ?thesis using Some False 1(3)[OF Some False]
        by (cases s) (simp_all add: re_pieces.simps [of r pre])
    qed
  qed
qed

lemma re_sub_id: "re_sub r m_text s = s"
  by (simp add: re_sub_def pieces_sub_id)

text \<open>A pattern without a match leaves the text alone.\<close>

lemma re_sub_no_match:
  "re_finditer r s = [] \<Longrightarrow> re_sub r f s = s"
proof -
  have "pieces_matches ps = [] \<Longrightarrow> pieces_sub f ps = pieces_sub m_text ps" for ps
    by (induction ps rule: pieces_matches.induct) auto
  then show "re_finditer r s = [] \<Longrightarrow> re_sub r f s = s"
    using pieces_sub_id [of r "[]" s] by (simp add: re_finditer_def re_sub_def)
qed

text \<open>Every string \<open>findall\<close> returns is a factor of the text.\<close>

lemma re_pieces_factor:
  "m \<in> set (pieces_matches (re_pieces r pre s)) \<Longrightarrow> \<exists>u v. s = u @ m_text m @ v"
proof (induction r pre s rule: re_pieces.induct)
  case (1 r pre s)
  show ?case
  proof (cases "re_match_at r pre s")
    case None
    then show ?thesis using 1(1)[OF None] 1(4)
      by (cases s) (auto simp: re_pieces.simps [of r pre] intro: exI [of _ "_ # _"], metis append_Cons)
  next
    case (Some m')
    note split = re_match_at_split(1) [OF Some]
    show ?thesis
    proof (cases "m = m'")
      case True
      then show ?thesis using split by (metis append_Nil)
    next
      case ne: False
      show ?thesis
      proof (cases "length (m_rest m') < length s")
        case True
        with ne 1(4) Some have "m \<in> set (pieces_matches (re_pieces r (rev (m_text m') @ pre) (m_rest m')))"
          by (simp add: re_pieces.simps [of r pre])
        from 1(2)[OF Some True this] split show ?thesis by (metis append.assoc)
      next
        case False
        with ne 1(4) Some obtain c t where s: "s = c # t"
          and "m \<in> set (pieces_matches (re_pieces r (c # pre) t))"
          by (cases s) (auto simp: re_pieces.simps [of r pre])
        from 1(3)[OF Some False s this(2)] s show ?thesis by (metis append_Cons)
      qed
    qed
  qed
qed

lemma re_findall_factor: "t \<in> set (re_findall r s) \<Longrightarrow> \<exists>u v. s = u @ t @ v"
  by (auto simp: re_findall_def re_finditer_def dest: re_pieces_factor)

text \<open>What a pattern over a class of characters consumes is over that class.\<close>

fun rx_over :: "(char \<Rightarrow> bool) \<Rightarrow> rx \<Rightarrow> bool" where
  "rx_over P (RChar Q) = (\<forall>c. Q c \<longrightarrow> P c)"
| "rx_over P (RSeq a b) = (rx_over P a \<and> rx_over P b)"
| "rx_over P (RAlt a b) = (rx_over P a \<and> rx_over P b)"
| "rx_over P (RStar g a) = rx_over P a"
| "rx_over P (RGroup n a) = rx_over P a"
| "rx_over P _ = True"

definition consumes_over :: "(char \<Rightarrow> bool) \<Rightarrow> rstate \<Rightarrow> rstate \<Rightarrow> bool" where
  "consumes_over P st st' = (\<exists>u. fst (snd st) = u @ fst (snd st') \<and> list_all P u)"

lemma consumes_over_refl [simp, intro]: "consumes_over P st st"
  by (simp add: consumes_over_def)

lemma consumes_over_trans:
  "consumes_over P a b \<Longrightarrow> consumes_over P b c \<Longrightarrow> consumes_over P a c"
  by (auto simp: consumes_over_def)

lemma rx_over_consumes:
  "rx_over P r \<Longrightarrow> st' \<in> set (rx_match r st) \<Longrightarrow> consumes_over P st st'"
proof (induction r st arbitrary: st' rule: rx_match.induct)
  case (1 Q pre s cs)
  then show ?case by (auto simp: consumes_over_def split: list.splits if_splits)
next
  case (3 a b st)
  then obtain mid where mid: "mid \<in> set (rx_match a st)" "st' \<in> set (rx_match b mid)" by auto
  have "consumes_over P st mid" using 3 mid(1) by simp
  moreover have "consumes_over P mid st'" using 3(2) [OF mid(1) _ mid(2)] 3(3) by simp
  ultimately show ?case by (rule consumes_over_trans)
next
  case (5 greedy a st)
  from "5.prems"(2) consider "st' = st"
    | mid where "mid \<in> set (rx_match a st)" "length (fst (snd mid)) < length (fst (snd st))"
        "st' \<in> set (rx_match (RStar greedy a) mid)"
    by (subst (asm) rx_match.simps) (auto simp: Let_def split: if_splits)
  then show ?case
  proof cases
    case 2
    have "consumes_over P st mid" using "5.IH"(1) 2(1) "5.prems"(1) by simp
    moreover have "consumes_over P mid st'" using "5.IH"(2) [OF 2(1,2) "5.prems"(1) 2(3)] .
    ultimately show ?thesis by (rule consumes_over_trans)
  qed simp
next
  case (6 n a pre s cs)
  then show ?case by (fastforce simp: consumes_over_def)
qed (auto split: if_splits list.splits)

text \<open>A pattern that starts with a character of a class consumes at least that character.\<close>

fun rx_first :: "(char \<Rightarrow> bool) \<Rightarrow> rx \<Rightarrow> bool" where
  "rx_first P (RChar Q) = (\<forall>c. Q c \<longrightarrow> P c)"
| "rx_first P (RSeq a b) = rx_first P a"
| "rx_first P (RAlt a b) = (rx_first P a \<and> rx_first P b)"
| "rx_first P (RGroup n a) = rx_first P a"
| "rx_first P _ = False"

lemma rx_first_consumes:
  "rx_first P r \<Longrightarrow> st' \<in> set (rx_match r st) \<Longrightarrow>
     \<exists>c u. fst (snd st) = c # u @ fst (snd st') \<and> P c"
proof (induction r arbitrary: st st')
  case (RChar Q)
  then show ?case by (cases st) (auto split: list.splits if_splits)
next
  case (RSeq a b)
  then obtain mid where mid: "mid \<in> set (rx_match a st)" "st' \<in> set (rx_match b mid)" by auto
  from RSeq.IH(1) [OF _ mid(1)] RSeq.prems obtain c u
    where "fst (snd st) = c # u @ fst (snd mid)" "P c" by auto
  moreover obtain v where "fst (snd mid) = v @ fst (snd st')"
    using rx_match_consumes [OF mid(2)] by (auto simp: consumes_def)
  ultimately have "fst (snd st) = c # (u @ v) @ fst (snd st') \<and> P c" by simp
  then show ?case by blast
next
  case (RGroup n a)
  then show ?case by (cases st) fastforce
qed auto

lemma re_pieces_match:
  "m \<in> set (pieces_matches (re_pieces r pre s)) \<Longrightarrow> \<exists>pre' s'. re_match_at r pre' s' = Some m"
proof (induction r pre s rule: re_pieces.induct)
  case (1 r pre s)
  show ?case
  proof (cases "re_match_at r pre s")
    case None
    then show ?thesis using 1(1)[OF None] 1(4)
      by (cases s) (auto simp: re_pieces.simps [of r pre])
  next
    case (Some m')
    then show ?thesis using 1(2)[OF Some] 1(3)[OF Some] 1(4)
      by (cases s) (auto simp: re_pieces.simps [of r pre] split: if_splits)
  qed
qed

lemma re_findall_consumed:
  assumes "t \<in> set (re_findall r s)"
    and "\<And>st st'. st' \<in> set (rx_match r st) \<Longrightarrow> \<exists>u. fst (snd st) = u @ fst (snd st') \<and> P u"
  shows "P t"
proof -
  from assms(1) obtain m where "m \<in> set (pieces_matches (re_pieces r [] s))" and t: "t = m_text m"
    by (auto simp: re_findall_def re_finditer_def)
  from re_pieces_match [OF this(1)] obtain pre' s' where "re_match_at r pre' s' = Some m" by auto
  then obtain st' where st': "st' \<in> set (rx_match r (pre', s', []))" and m: "m = mk_match pre' s' st'"
    by (auto simp: re_match_at_def split: list.splits)
  from assms(2) [OF st'] obtain u where "s' = u @ fst (snd st')" "P u" by auto
  with t m show ?thesis by (cases st') (simp add: mk_match_def)
qed

end
