(* ===== verification/Literals.thy ===== *)
theory Literals
  imports PyRegex
begin

text \<open>
  The lexical helpers of \<open>cdup/src/parse.py\<close>: the identifiers and the literals of a raw statement
  (\<open>_extract_identifiers\<close>, \<open>_extract_literals\<close>) and the canonical name of a constant slot
  (\<open>_canonical_constant_name\<close>). They are regular-expression passes; each pattern is written out
  once as a tree.
\<close>

section \<open>Keyword tables\<close>

definition c_types :: "string list" where
  "c_types =
    [''int'', ''char'', ''float'', ''double'', ''long'', ''short'', ''unsigned'', ''signed'',
     ''void'', ''size_t'', ''uint8_t'', ''uint16_t'', ''uint32_t'', ''uint64_t'',
     ''int8_t'', ''int16_t'', ''int32_t'', ''int64_t'', ''bool'', ''FILE'']"

definition c_keywords :: "string list" where
  "c_keywords =
    [''auto'', ''break'', ''case'', ''char'', ''const'', ''continue'', ''default'', ''do'',
     ''double'', ''else'', ''enum'', ''extern'', ''float'', ''for'', ''goto'', ''if'', ''inline'',
     ''int'', ''long'', ''register'', ''restrict'', ''return'', ''short'', ''signed'', ''sizeof'',
     ''static'', ''struct'', ''switch'', ''typedef'', ''union'', ''unsigned'', ''void'',
     ''volatile'', ''while'', ''NULL'', ''true'', ''false'']"

definition assign_ops :: "string list" where
  "assign_ops =
    [''<<='', ''>>='', ''+='', ''-='', ''*='', ''/='', ''%='', ''&='', ''|='', ''^='', ''='']"

definition control_keywords :: "string list" where
  "control_keywords = [''return'', ''break'', ''continue'', ''goto'']"

definition branch_keywords :: "string list" where
  "branch_keywords = [''if'', ''else'', ''switch'', ''case'']"

definition loop_keywords :: "string list" where
  "loop_keywords = [''for'', ''while'', ''do'']"

section \<open>Patterns\<close>

abbreviation "bslash \<equiv> CHR 0x5C"
abbreviation "dquote \<equiv> CHR 0x22"
abbreviation "squote \<equiv> CHR 0x27"
abbreviation "newline \<equiv> CHR 0x0A"

text \<open>A string literal \<open>"(?:[^"\\]|\\.)*"\<close> and a character literal \<open>'(?:[^'\\]|\\.)*'\<close>.\<close>

definition rx_quoted :: "char \<Rightarrow> rx" where
  "rx_quoted q =
     rseq [rchr q,
           rstar (RAlt (RChar (\<lambda>c. c \<noteq> q \<and> c \<noteq> bslash)) (RSeq (rchr bslash) rdot)),
           rchr q]"

definition rx_float :: rx where
  "rx_float = rseq [RWordB, rplus rdigit, rchr CHR ''.'', rplus rdigit, RWordB]"

definition rx_int :: rx where
  "rx_int = rseq [RWordB, rplus rdigit, RWordB]"

text \<open>\<open>([A-Za-z_]\w*)\s*->\s*([A-Za-z_]\w*)\<close>.\<close>

definition rx_arrow :: rx where
  "rx_arrow =
     rseq [RGroup 1 rident, rstar rspace, rlit ''->'', rstar rspace, RGroup 2 rident]"

text \<open>\<open>([A-Za-z_]\w*)\.([A-Za-z_]\w*)\<close>.\<close>

definition rx_dot :: rx where
  "rx_dot = rseq [RGroup 1 rident, rchr CHR ''.'', RGroup 2 rident]"

text \<open>\<open>([A-Za-z_]\w*)(?:\.|->)[A-Za-z_]\w*\<close>.\<close>

definition rx_chain :: rx where
  "rx_chain = rseq [RGroup 1 rident, RAlt (rchr CHR ''.'') (rlit ''->''), rident]"

text \<open>\<open>[A-Za-z_]\w*\.[A-Za-z_]\w*|[A-Za-z_]\w*\<close>.\<close>

definition rx_dotted_or_ident :: rx where
  "rx_dotted_or_ident = RAlt (rseq [rident, rchr CHR ''.'', rident]) rident"

section \<open>Identifiers of an expression\<close>

definition strip_strings :: "string \<Rightarrow> string" where
  "strip_strings s = re_sub (rx_quoted dquote) (\<lambda>_. []) s"

text \<open>
  \<open>_extract_identifiers\<close>. With a non-empty set of UDT variables, \<open>var.field\<close> survives as one token
  (the source protects the dot with a NUL while it collapses the other chains); without one, every
  chain is collapsed to its root, two passes deep.
\<close>

definition replace_field :: "string list \<Rightarrow> rmatch \<Rightarrow> string" where
  "replace_field known_udt_vars m =
     (let root = m_group_str m 1; field = m_group_str m 2
      in if root \<in> set known_udt_vars then root @ [CHR 0x00] @ field else root)"

definition extract_identifiers ::
  "string \<Rightarrow> string list \<Rightarrow> string list option \<Rightarrow> string list" where
  "extract_identifiers e known_types known_udt_vars =
     (let s0 = strip_strings e
      in case known_udt_vars of
           Some (v # vs) \<Rightarrow>
             (let s1 = re_sub rx_arrow (\<lambda>m. m_group_str m 1 @ ''.'' @ m_group_str m 2) s0;
                  s2 = re_sub rx_dot (replace_field (v # vs)) s1;
                  s3 = re_sub rx_dot (\<lambda>m. m_group_str m 1) s2;
                  s4 = map (\<lambda>c. if c = CHR 0x00 then CHR ''.'' else c) s3
              in filter (\<lambda>t. t \<notin> set c_keywords \<and> t \<notin> set known_types
                             \<and> hd (split_on CHR ''.'' t) \<notin> set known_types)
                   (re_findall rx_dotted_or_ident s4))
         | _ \<Rightarrow>
             (let s1 = re_sub rx_chain (\<lambda>m. m_group_str m 1) s0;
                  s2 = re_sub rx_chain (\<lambda>m. m_group_str m 1) s1
              in filter (\<lambda>t. t \<notin> set c_keywords \<and> t \<notin> set known_types) (re_findall rident s2)))"

section \<open>Literals of a statement\<close>

record literals =
  lit_ints :: "string list"
  lit_floats :: "string list"
  lit_strings :: "string list"
  lit_chars :: "string list"

definition float_parts :: "string list \<Rightarrow> string list" where
  "float_parts floats = concat (map (split_on CHR ''.'') floats)"

definition extract_literals :: "string \<Rightarrow> literals" where
  "extract_literals raw =
     (let strings = re_findall (rx_quoted dquote) raw;
          chars = re_findall (rx_quoted squote) raw;
          stripped = re_sub (rx_quoted squote) (\<lambda>_. []) (re_sub (rx_quoted dquote) (\<lambda>_. []) raw);
          floats = re_findall rx_float stripped;
          ints = filter (\<lambda>x. x \<notin> set (float_parts floats)) (re_findall rx_int stripped)
      in \<lparr>lit_ints = ints, lit_floats = floats, lit_strings = strings, lit_chars = chars\<rparr>)"

section \<open>Canonical constant names\<close>

definition hex_digit :: "nat \<Rightarrow> char" where
  "hex_digit n = (if n < 10 then char_of (48 + n) else char_of (87 + n))"

text \<open>\<open>f"{ord(c):02x}"\<close> for a code point below 256.\<close>

definition hex2 :: "char \<Rightarrow> string" where
  "hex2 c = (let n = (of_char c :: nat) in [hex_digit (n div 16), hex_digit (n mod 16)])"

definition char_escape_map :: "(string, string) dict" where
  "char_escape_map =
     [([bslash, CHR ''n''], ''newline''), ([bslash, CHR ''t''], ''tab''), ([bslash, CHR ''r''], ''cr''),
      ([bslash, CHR ''0''], ''null''), ([bslash, bslash], ''backslash''), ([bslash, squote], ''squote'')]"

definition canonical_char_name :: "string \<Rightarrow> string" where
  "canonical_char_name v =
     (let inner = strip_by (\<lambda>c. c = squote) v
      in case dict_get char_escape_map inner of
           Some n \<Rightarrow> n
         | None \<Rightarrow>
             if inner \<noteq> [] \<and> list_all is_alnum inner then inner
             else if length inner = 1 then ''0x'' @ hex2 (hd inner)
             else ''esc'')"

definition canonical_constant_name :: "string \<Rightarrow> string \<Rightarrow> nat \<Rightarrow> string" where
  "canonical_constant_name kind v string_index =
     (if kind = ''int'' then ''const_int_'' @ v
      else if kind = ''float''
        then ''const_float_'' @ map (\<lambda>c. if c = CHR ''.'' then CHR ''p'' else c) v
      else if kind = ''char'' then ''const_char_'' @ canonical_char_name v
      else if kind = ''string'' then ''const_str_'' @ nat_digits string_index
      else ''const_'' @ kind @ ''_'' @ nat_digits string_index)"

end
