(* ===== verification/Matrix.thy ===== *)
theory Matrix
  imports IR Literals
begin

text \<open>
  The dependency matrix of \<open>cdup/src/matrix.py\<close>: the resolution of names to scoped slots, the row of
  a statement, the phi rows of loops and of branch groups, and the walk over the segment tree that
  emits the rows in program order. The walk's recursion over children is bounded by a fuel argument
  that stands for Python's recursion limit; running out is \<open>RecursionError\<close>, a child id without a
  segment is \<open>KeyError\<close>.
\<close>

section \<open>Children and slots\<close>

definition build_children :: "('a segment_scheme) list \<Rightarrow> (nat, nat list) dict" where
  "build_children segments =
     map (\<lambda>(p, cs). (p, sort cs))
       (fold (\<lambda>seg d. if sg_id seg = sg_parent seg then d
                      else dict_append (sg_parent seg) (sg_id seg) d) segments [])"

definition all_scoped_slots :: "('a segment_scheme) list \<Rightarrow> string list" where
  "all_scoped_slots segments =
     dict_keys
       (fold (\<lambda>seg seen.
           fold (\<lambda>slot d. if sl_scoped_name slot \<in> set (dict_keys d) then d
                          else dict_set (sl_scoped_name slot) slot d)
             (sg_memory seg @ sg_constants seg) seen)
         (sort_key sg_id segments) [])"

section \<open>Name resolution\<close>

text \<open>The candidates \<open>scope.suffix\<close>, innermost scope first.\<close>

definition scope_candidates :: "string \<Rightarrow> string \<Rightarrow> string list" where
  "scope_candidates scope_path suffix =
     (let parts = split_on CHR ''.'' scope_path
      in map (\<lambda>depth. str_join ''.'' (take depth parts) @ ''.'' @ suffix)
           (rev [1..<Suc (length parts)]))"

definition find_candidate :: "string list \<Rightarrow> string \<Rightarrow> string \<Rightarrow> string option" where
  "find_candidate slot_index scope_path suffix =
     List.find (\<lambda>c. c \<in> set slot_index) (scope_candidates scope_path suffix)"

definition rx_static_index :: rx where
  "rx_static_index =
     rseq [RGroup 1 rident, rchr CHR ''['', RGroup 2 (rplus rdigit), rchr CHR '']'']"

definition rx_dynamic_index :: rx where
  "rx_dynamic_index = rseq [RGroup 1 rident, rchr CHR ''['', rident, rchr CHR '']'']"

definition resolve_slot :: "string \<Rightarrow> string \<Rightarrow> string list \<Rightarrow> string option" where
  "resolve_slot name scope_path slot_index =
     (case re_fullmatch rx_static_index name of
        Some m \<Rightarrow>
          (let base = m_group_str m 1; idx = m_group_str m 2
           in case find_candidate slot_index scope_path (base @ ''.'' @ idx) of
                Some c \<Rightarrow> Some c
              | None \<Rightarrow> find_candidate slot_index scope_path base)
      | None \<Rightarrow>
          (let name' = (case re_fullmatch rx_dynamic_index name of
                          Some m \<Rightarrow> m_group_str m 1 | None \<Rightarrow> name)
           in find_candidate slot_index scope_path name'))"

text \<open>The constant slots of a statement's literals; strings are numbered within the statement.\<close>

definition extract_literal_slots :: "stmt \<Rightarrow> string \<Rightarrow> string list \<Rightarrow> string list" where
  "extract_literal_slots st scope_path slot_index =
     (let lits = extract_literals (st_raw st);
          res = (\<lambda>n. resolve_slot n scope_path slot_index)
      in List.map_filter (\<lambda>v. res (canonical_constant_name ''int'' v 0)) (lit_ints lits)
         @ List.map_filter (\<lambda>v. res (canonical_constant_name ''float'' v 0)) (lit_floats lits)
         @ List.map_filter (\<lambda>v. res (canonical_constant_name ''char'' v 0)) (lit_chars lits)
         @ List.map_filter (\<lambda>(i, v). res (canonical_constant_name ''string'' v i))
             (enumerate 0 (lit_strings lits)))"

text \<open>Resolution of an expression tree; \<open>a.x\<close> is tried as one dotted slot first.\<close>

fun resolve_expr :: "expr \<Rightarrow> string \<Rightarrow> string list \<Rightarrow> expr" where
  "resolve_expr (EName n) scope_path slot_index =
     (case resolve_slot n scope_path slot_index of Some r \<Rightarrow> ESlot r | None \<Rightarrow> EName n)"
| "resolve_expr (EConst v t) scope_path slot_index = EConst v t"
| "resolve_expr (ESlot s) scope_path slot_index = ESlot s"
| "resolve_expr (EOp op args a) scope_path slot_index =
     (let field_name = (case a_field a of None \<Rightarrow> [] | Some f \<Rightarrow> f);
          direct = (if op = ''field'' then
                      (case args of
                         EName obj # _ \<Rightarrow>
                           resolve_slot (obj @ ''.'' @ field_name) scope_path slot_index
                       | _ \<Rightarrow> None)
                    else None)
      in case direct of
           Some r \<Rightarrow> ESlot r
         | None \<Rightarrow> EOp op (map (\<lambda>e. resolve_expr e scope_path slot_index) args) a)"

section \<open>Rows\<close>

record row =
  rw_kind :: string
  rw_seg_id :: "nat option"
  rw_scope_path :: "string option"
  rw_raw :: string
  rw_reads :: "string list"
  rw_writes :: "string list"
  rw_decls :: "string list"
  rw_note :: "string option"
  rw_expr :: "expr option"

definition make_row ::
  "string \<Rightarrow> nat option \<Rightarrow> string option \<Rightarrow> string \<Rightarrow> string list \<Rightarrow> string list \<Rightarrow> string list
   \<Rightarrow> string option \<Rightarrow> expr option \<Rightarrow> row" where
  "make_row kind seg_id scope_path raw reads writes decls note e =
     \<lparr>rw_kind = kind, rw_seg_id = seg_id, rw_scope_path = scope_path, rw_raw = raw,
      rw_reads = uniq reads, rw_writes = uniq writes, rw_decls = uniq decls,
      rw_note = note, rw_expr = e\<rparr>"

text \<open>The slots \<open>prefix.field\<close> with a one-identifier field, sorted: a UDT variable passed to a call.\<close>

definition expand_udt_read :: "string \<Rightarrow> string \<Rightarrow> string list \<Rightarrow> string list" where
  "expand_udt_read rn scope_path slot_index =
     (let prefix = scope_path @ ''.'' @ rn @ ''.''
      in sort (filter (\<lambda>s. startswith s prefix \<and> CHR ''.'' \<notin> set (drop (length prefix) s)) slot_index))"

definition resolve_read :: "string \<Rightarrow> string list \<Rightarrow> string \<Rightarrow> string list" where
  "resolve_read scope_path slot_index rn =
     (case resolve_slot rn scope_path slot_index of
        Some r \<Rightarrow> [r]
      | None \<Rightarrow> expand_udt_read rn scope_path slot_index)"

text \<open>The field slots a UDT declaration writes: the innermost scope that has any.\<close>

definition expand_udt_decl :: "string \<Rightarrow> string \<Rightarrow> string list \<Rightarrow> string list" where
  "expand_udt_decl l_name scope_path slot_index =
     (let parts = split_on CHR ''.'' scope_path;
          hits = map (\<lambda>depth. filter (\<lambda>s. startswith s
                     (str_join ''.'' (take depth parts) @ ''.'' @ l_name @ ''.'')) slot_index)
                   (rev [1..<Suc (length parts)])
      in case List.find (\<lambda>ms. ms \<noteq> []) hits of Some ms \<Rightarrow> sort ms | None \<Rightarrow> [])"

definition stmt_to_row :: "stmt \<Rightarrow> nat \<Rightarrow> string \<Rightarrow> string list \<Rightarrow> row" where
  "stmt_to_row st seg_id scope_path slot_index =
     (let kind = st_kind st;
          reads = concat (map (resolve_read scope_path slot_index) (st_r_names st))
                  @ extract_literal_slots st scope_path slot_index;
          scoped = (if truthy_str (st_l_name st)
                    then resolve_slot (the (st_l_name st)) scope_path slot_index else None);
          (reads, writes, decls) =
            (if kind = ''decl'' then
               (if truthy_str (st_l_name st) then
                  (case scoped of
                     Some s \<Rightarrow> (reads, [s], [s])
                   | None \<Rightarrow>
                       (let fs = expand_udt_decl (the (st_l_name st)) scope_path slot_index
                        in (reads, fs, fs)))
                else (reads, [], []))
             else if kind = ''assign'' then
               (case scoped of Some s \<Rightarrow> (reads, [s], []) | None \<Rightarrow> (reads, [], []))
             else if kind = ''loop_head'' then
               (case scoped of
                  Some s \<Rightarrow> (filter (\<lambda>r. r \<noteq> s) reads, [s], [s])
                | None \<Rightarrow> (reads, [], []))
             else (reads, [], []));
          resolved_expr = map_option (\<lambda>e. resolve_expr e scope_path slot_index) (st_expr st)
      in make_row kind (Some seg_id) (Some scope_path) (st_raw st) reads writes decls None resolved_expr)"

section \<open>Phi rows\<close>

definition lookup_seg ::
  "(nat, 'a segment_scheme) dict \<Rightarrow> nat \<Rightarrow> ('a segment_scheme) py" where
  "lookup_seg seg_map i =
     (case dict_get seg_map i of None \<Rightarrow> Inl (KeyError (nat_digits i)) | Some s \<Rightarrow> Inr s)"

text \<open>What the statements of one segment write or declare, in order.\<close>

definition seg_writes :: "'a segment_scheme \<Rightarrow> nat \<Rightarrow> string list \<Rightarrow> string list" where
  "seg_writes seg seg_id slot_index =
     concat (map (\<lambda>st. let row = stmt_to_row st seg_id (sg_scope_path seg) slot_index
                        in rw_writes row @ rw_decls row) (sg_stmts seg))"

definition phi_rows_for_branch_group ::
  "nat list \<Rightarrow> (nat, 'a segment_scheme) dict \<Rightarrow> string list \<Rightarrow> row list py" where
  "phi_rows_for_branch_group branch_child_ids seg_map slot_index =
     py_bind (py_seq (map (lookup_seg seg_map) branch_child_ids)) (\<lambda>children.
       let written = fold (\<lambda>(child_id, child) d.
                        fold (\<lambda>w d. dict_append w (sg_scope_path child) d)
                          (seg_writes child child_id slot_index) d)
                       (zip branch_child_ids children) []
       in Inr (map (\<lambda>(slot, sources).
                 make_row ''phi'' None None (''phi('' @ slot @ '')'') (uniq sources) [slot] []
                   (Some ''branch_reconvergence'') None) written))"

text \<open>Everything written in the subtree of a segment; a set in the source, a list here.\<close>

fun collect_writes_in_subtree ::
  "nat \<Rightarrow> nat \<Rightarrow> (nat, 'a segment_scheme) dict \<Rightarrow> (nat, nat list) dict \<Rightarrow> string list
   \<Rightarrow> string list py" where
  "collect_writes_in_subtree 0 seg_id seg_map children_map slot_index = Inl RecursionError"
| "collect_writes_in_subtree (Suc fuel) seg_id seg_map children_map slot_index =
     py_bind (lookup_seg seg_map seg_id) (\<lambda>seg.
       py_bind (py_seq (map (\<lambda>c. collect_writes_in_subtree fuel c seg_map children_map slot_index)
                  (dict_get_list children_map seg_id))) (\<lambda>subs.
         Inr (seg_writes seg seg_id slot_index @ concat subs)))"

definition phi_rows_for_loop ::
  "nat \<Rightarrow> nat \<Rightarrow> (nat, 'a segment_scheme) dict \<Rightarrow> (nat, nat list) dict \<Rightarrow> string list
   \<Rightarrow> row list py" where
  "phi_rows_for_loop fuel loop_seg_id seg_map children_map slot_index =
     py_bind (lookup_seg seg_map loop_seg_id) (\<lambda>loop_seg.
       py_bind (collect_writes_in_subtree fuel loop_seg_id seg_map children_map slot_index) (\<lambda>written.
         Inr (map (\<lambda>slot. make_row ''phi'' (Some loop_seg_id) (Some (sg_scope_path loop_seg))
                    (''phi('' @ slot @ '')'') [slot] [slot] [] (Some ''loop_entry'') None)
                (sort (uniq written)))))"

section \<open>The walk\<close>

text \<open>
  \<open>flush_branch_group\<close>, and the statement loop of \<open>_walk_segment\<close>: \<open>cs\<close> are the children the
  iterator has not handed out yet, \<open>grp\<close> the branch children waiting for their phi rows, and
  \<open>walk\<close> the recursive call. The result is the rows emitted and the children left over.
\<close>

definition flush_branch_group ::
  "nat list \<Rightarrow> (nat, 'a segment_scheme) dict \<Rightarrow> string list \<Rightarrow> row list py" where
  "flush_branch_group grp seg_map slot_index =
     (if grp = [] then Inr [] else phi_rows_for_branch_group grp seg_map slot_index)"

fun walk_stmts ::
  "(nat \<Rightarrow> row list py) \<Rightarrow> (nat, 'a segment_scheme) dict \<Rightarrow> string list \<Rightarrow> nat \<Rightarrow> string
   \<Rightarrow> stmt list \<Rightarrow> nat list \<Rightarrow> nat list \<Rightarrow> (row list \<times> nat list) py" where
  "walk_stmts walk seg_map slot_index seg_id scope [] cs grp =
     py_bind (flush_branch_group grp seg_map slot_index) (\<lambda>phis. Inr (phis, cs))"
| "walk_stmts walk seg_map slot_index seg_id scope (st # sts) cs grp =
     (if st_kind st = ''branch'' \<or> st_kind st = ''loop_head'' then
        (case cs of
           [] \<Rightarrow>
             py_bind (walk_stmts walk seg_map slot_index seg_id scope sts [] grp) (\<lambda>(rows, rest).
               Inr (stmt_to_row st seg_id scope slot_index # rows, rest))
         | c # cs' \<Rightarrow>
             py_bind (lookup_seg seg_map c) (\<lambda>child.
             py_bind (if sg_type child = ''branch'' then Inr []
                      else flush_branch_group grp seg_map slot_index) (\<lambda>phis.
             py_bind (walk c) (\<lambda>sub.
             py_bind (walk_stmts walk seg_map slot_index seg_id scope sts cs'
                        (if sg_type child = ''branch'' then grp @ [c] else [])) (\<lambda>(rows, rest).
               Inr (stmt_to_row st seg_id scope slot_index # phis @ sub @ rows, rest))))))
      else
        py_bind (flush_branch_group grp seg_map slot_index) (\<lambda>phis.
        py_bind (walk_stmts walk seg_map slot_index seg_id scope sts cs []) (\<lambda>(rows, rest).
          Inr (phis @ stmt_to_row st seg_id scope slot_index # rows, rest))))"

fun walk_segment ::
  "nat \<Rightarrow> nat \<Rightarrow> (nat, 'a segment_scheme) dict \<Rightarrow> (nat, nat list) dict \<Rightarrow> string list
   \<Rightarrow> row list py" where
  "walk_segment 0 seg_id seg_map children_map slot_index = Inl RecursionError"
| "walk_segment (Suc fuel) seg_id seg_map children_map slot_index =
     py_bind (lookup_seg seg_map seg_id) (\<lambda>seg.
     py_bind (if sg_type seg = ''loop''
              then phi_rows_for_loop fuel seg_id seg_map children_map slot_index
              else Inr []) (\<lambda>entry.
     py_bind (walk_stmts (\<lambda>c. walk_segment fuel c seg_map children_map slot_index)
                seg_map slot_index seg_id (sg_scope_path seg) (sg_stmts seg)
                (dict_get_list children_map seg_id) []) (\<lambda>(rows, rest).
     py_bind (py_seq (map (\<lambda>c. walk_segment fuel c seg_map children_map slot_index) rest)) (\<lambda>subs.
       Inr (entry @ rows @ concat subs)))))"

record matrix =
  mx_slots :: "string list"
  mx_rows :: "row list"

definition build_matrix :: "nat \<Rightarrow> ('a segment_scheme) list \<Rightarrow> matrix py" where
  "build_matrix fuel segments =
     (let seg_map = seg_by_id segments;
          children_map = build_children segments;
          all_slots = all_scoped_slots segments;
          root_ids = sort (map sg_id (filter (\<lambda>s. sg_id s = sg_parent s) segments))
      in py_bind (py_seq (map (\<lambda>root_id.
             py_bind (lookup_seg seg_map root_id) (\<lambda>root.
             py_bind (py_seq (map (\<lambda>c. walk_segment fuel c seg_map children_map all_slots)
                        (dict_get_list children_map root_id))) (\<lambda>subs.
               Inr (map (\<lambda>st. stmt_to_row st root_id (sg_scope_path root) all_slots) (sg_stmts root)
                    @ concat subs)))) root_ids))
           (\<lambda>rows. Inr \<lparr>mx_slots = all_slots, mx_rows = concat rows\<rparr>))"

section \<open>Name resolution is innermost first\<close>

definition candidate :: "string \<Rightarrow> string \<Rightarrow> nat \<Rightarrow> string" where
  "candidate scope_path suffix depth =
     str_join ''.'' (take depth (split_on CHR ''.'' scope_path)) @ ''.'' @ suffix"

lemma find_map: "List.find P (map f xs) = map_option f (List.find (P \<circ> f) xs)"
  by (induction xs) auto

lemma find_rev_upt:
  "List.find P (rev [Suc 0..<Suc n]) = Some d \<longleftrightarrow>
     1 \<le> d \<and> d \<le> n \<and> P d \<and> (\<forall>d'. d < d' \<and> d' \<le> n \<longrightarrow> \<not> P d')"
  "List.find P (rev [Suc 0..<Suc n]) = None \<longleftrightarrow> (\<forall>d. 1 \<le> d \<and> d \<le> n \<longrightarrow> \<not> P d)"
proof -
  show "List.find P (rev [Suc 0..<Suc n]) = Some d \<longleftrightarrow>
     1 \<le> d \<and> d \<le> n \<and> P d \<and> (\<forall>d'. d < d' \<and> d' \<le> n \<longrightarrow> \<not> P d')"
  proof (induction n)
    case (Suc n)
    then show ?case by (auto simp: le_Suc_eq)
  qed simp
  show "List.find P (rev [Suc 0..<Suc n]) = None \<longleftrightarrow> (\<forall>d. 1 \<le> d \<and> d \<le> n \<longrightarrow> \<not> P d)"
    by (auto simp: find_None_iff)
qed

lemma find_candidate_conv:
  "find_candidate idx scope suf = map_option (candidate scope suf)
     (List.find (\<lambda>d. candidate scope suf d \<in> set idx)
        (rev [1..<Suc (length (split_on CHR ''.'' scope))]))"
  by (simp add: find_candidate_def scope_candidates_def candidate_def [abs_def] Let_def find_map o_def
           del: upt_Suc)

lemma find_candidate_Some:
  "find_candidate idx scope suf = Some c \<longleftrightarrow>
     (\<exists>d. 1 \<le> d \<and> d \<le> length (split_on CHR ''.'' scope) \<and> c = candidate scope suf d
        \<and> c \<in> set idx
        \<and> (\<forall>d'. d < d' \<and> d' \<le> length (split_on CHR ''.'' scope) \<longrightarrow> candidate scope suf d' \<notin> set idx))"
  unfolding find_candidate_conv One_nat_def map_option_eq_Some option.map_disc_iff find_rev_upt
  by auto

lemma find_candidate_None:
  "find_candidate idx scope suf = None \<longleftrightarrow>
     (\<forall>d. 1 \<le> d \<and> d \<le> length (split_on CHR ''.'' scope) \<longrightarrow> candidate scope suf d \<notin> set idx)"
  unfolding find_candidate_conv One_nat_def map_option_eq_Some option.map_disc_iff find_rev_upt
  by auto

lemma find_candidate_mem: "find_candidate idx scope suf = Some c \<Longrightarrow> c \<in> set idx"
  by (simp add: find_candidate_Some) blast

lemma rx_seq_char_mem:
  assumes "st' \<in> set (rx_match (RSeq a (RSeq (rchr c) b)) (pre, s, cs))"
  shows "c \<in> set s"
proof -
  from assms obtain m1 m2 where m: "m1 \<in> set (rx_match a (pre, s, cs))"
      "m2 \<in> set (rx_match (rchr c) m1)" by auto
  obtain p1 s1 c1 where m1: "m1 = (p1, s1, c1)" by (cases m1)
  from m(2) have "c \<in> set s1" by (auto simp: m1 split: list.splits if_splits)
  with rx_match_consumes [OF m(1)] show ?thesis by (auto simp: consumes_def m1)
qed

lemma no_index_no_match:
  assumes "CHR ''['' \<notin> set name"
  shows "re_fullmatch rx_static_index name = None" "re_fullmatch rx_dynamic_index name = None"
proof -
  have "rx_match rx_static_index ([], name, []) = []" "rx_match rx_dynamic_index ([], name, []) = []"
    using assms rx_seq_char_mem
    unfolding rx_static_index_def rx_dynamic_index_def rseq.simps
    by (metis list.set_intros(1) neq_Nil_conv)+
  then show "re_fullmatch rx_static_index name = None" "re_fullmatch rx_dynamic_index name = None"
    by (simp_all add: re_fullmatch_def)
qed

lemma resolve_slot_plain:
  "CHR ''['' \<notin> set name \<Longrightarrow> resolve_slot name scope idx = find_candidate idx scope name"
  by (simp add: resolve_slot_def no_index_no_match)

lemma resolve_slot_mem: "resolve_slot name scope idx = Some c \<Longrightarrow> c \<in> set idx"
  by (auto simp: resolve_slot_def Let_def dest: find_candidate_mem split: option.splits)

lemma resolve_slot_innermost_lem:
  assumes "CHR ''['' \<notin> set name"
  shows "case resolve_slot name scope idx of
      Some c \<Rightarrow> \<exists>d. 1 \<le> d \<and> d \<le> length (split_on CHR ''.'' scope)
          \<and> c = candidate scope name d \<and> c \<in> set idx
          \<and> (\<forall>d'. d < d' \<and> d' \<le> length (split_on CHR ''.'' scope) \<longrightarrow> candidate scope name d' \<notin> set idx)
    | None \<Rightarrow> \<forall>d. 1 \<le> d \<and> d \<le> length (split_on CHR ''.'' scope) \<longrightarrow> candidate scope name d \<notin> set idx"
proof (cases "find_candidate idx scope name")
  case None
  have "resolve_slot name scope idx = None" using None resolve_slot_plain [OF assms] by simp
  with None show ?thesis unfolding find_candidate_None by simp
next
  case (Some c)
  have "resolve_slot name scope idx = Some c" using Some resolve_slot_plain [OF assms] by simp
  with Some show ?thesis unfolding find_candidate_Some by simp
qed

section \<open>Rows only mention slots\<close>

definition row_wf :: "string list \<Rightarrow> row \<Rightarrow> bool" where
  "row_wf slots r \<longleftrightarrow>
     distinct (rw_reads r) \<and> distinct (rw_writes r) \<and> distinct (rw_decls r)
     \<and> set (rw_writes r) \<subseteq> set slots \<and> set (rw_decls r) \<subseteq> set (rw_writes r)
     \<and> (case rw_note r of
          None \<Rightarrow> set (rw_reads r) \<subseteq> set slots \<and> rw_seg_id r \<noteq> None
        | Some n \<Rightarrow>
            n = ''loop_entry'' \<and> rw_reads r = rw_writes r \<and> length (rw_writes r) = 1
              \<and> rw_scope_path r \<noteq> None \<and> rw_seg_id r \<noteq> None
            \<or> n = ''branch_reconvergence'' \<and> length (rw_writes r) = 1 \<and> rw_decls r = []
              \<and> rw_seg_id r = None \<and> rw_scope_path r = None)"

lemma set_map_filter: "set (List.map_filter f xs) = {y. \<exists>x\<in>set xs. f x = Some y}"
  by (induction xs) (auto simp: List.map_filter_simps split: option.splits)

lemma extract_literal_slots_mem: "set (extract_literal_slots st scope idx) \<subseteq> set idx"
  by (auto simp: extract_literal_slots_def Let_def set_map_filter dest: resolve_slot_mem)

lemma resolve_read_mem: "set (resolve_read scope idx rn) \<subseteq> set idx"
  by (auto simp: resolve_read_def expand_udt_read_def Let_def dest: resolve_slot_mem
           split: option.splits)

lemma find_filter_mem:
  "List.find Q (map (\<lambda>d. filter (P d) idx) ds) = Some ms \<Longrightarrow> set ms \<subseteq> set idx"
  by (induction ds) (auto split: if_splits)

lemma expand_udt_decl_mem: "set (expand_udt_decl l scope idx) \<subseteq> set idx"
proof -
  have "set (case r of Some ms \<Rightarrow> sort ms | None \<Rightarrow> []) \<subseteq> set idx"
    if "\<And>ms. r = Some ms \<Longrightarrow> set ms \<subseteq> set idx" for r :: "string list option"
    using that by (cases r) simp_all
  then show ?thesis unfolding expand_udt_decl_def Let_def by (metis find_filter_mem)
qed

lemma stmt_to_row_sel:
  "rw_seg_id (stmt_to_row st i scope idx) = Some i"
  "rw_scope_path (stmt_to_row st i scope idx) = Some scope"
  "rw_note (stmt_to_row st i scope idx) = None"
  "rw_raw (stmt_to_row st i scope idx) = st_raw st"
  "rw_kind (stmt_to_row st i scope idx) = st_kind st"
  by (simp_all add: stmt_to_row_def make_row_def Let_def split: prod.splits)

lemma stmt_to_row_wf: "row_wf idx (stmt_to_row st i scope idx)"
proof -
  let ?reads = "concat (map (resolve_read scope idx) (st_r_names st)) @ extract_literal_slots st scope idx"
  have reads: "set ?reads \<subseteq> set idx"
    using resolve_read_mem extract_literal_slots_mem by fastforce
  have "set (rw_reads (stmt_to_row st i scope idx)) \<subseteq> set ?reads"
    unfolding stmt_to_row_def make_row_def by (simp add: Let_def split: option.split) blast
  moreover have "set (rw_writes (stmt_to_row st i scope idx)) \<subseteq> set idx"
    using resolve_slot_mem expand_udt_decl_mem
    unfolding stmt_to_row_def make_row_def by (simp add: Let_def split: option.split)
  moreover have "set (rw_decls (stmt_to_row st i scope idx)) \<subseteq> set (rw_writes (stmt_to_row st i scope idx))"
    unfolding stmt_to_row_def make_row_def by (simp add: Let_def split: option.split)
  moreover have "distinct (rw_reads (stmt_to_row st i scope idx))"
      "distinct (rw_writes (stmt_to_row st i scope idx))" "distinct (rw_decls (stmt_to_row st i scope idx))"
    unfolding stmt_to_row_def make_row_def by (simp_all add: Let_def split: option.split)
  ultimately show ?thesis
    using reads unfolding row_wf_def by (simp only: stmt_to_row_sel option.case) blast
qed

lemma seg_writes_mem: "set (seg_writes seg i idx) \<subseteq> set idx"
  using stmt_to_row_wf [unfolded row_wf_def] by (fastforce simp: seg_writes_def Let_def)

lemma dict_append_keys: "set (dict_keys (dict_append k v d)) = insert k (set (dict_keys d))"
  by (simp add: dict_keys_append insert_absorb del: set_map)

lemma collect_writes_mem:
  "collect_writes_in_subtree fuel i seg_map cm idx = Inr ws \<Longrightarrow> set ws \<subseteq> set idx"
proof (induction fuel arbitrary: i ws)
  case (Suc fuel)
  from Suc.prems obtain seg subs where "lookup_seg seg_map i = Inr seg"
    "ws = seg_writes seg i idx @ concat subs"
    "map (\<lambda>c. collect_writes_in_subtree fuel c seg_map cm idx) (dict_get_list cm i) = map Inr subs"
    by (auto simp: py_bind_eq_Inr py_seq_Inr)
  moreover from this(3) have "\<forall>s\<in>set subs. \<exists>c. collect_writes_in_subtree fuel c seg_map cm idx = Inr s"
    by (metis (no_types, lifting) imageE image_eqI set_map)
  ultimately show ?case using Suc.IH seg_writes_mem by fastforce
qed simp

lemma branch_phi_wf:
  assumes "phi_rows_for_branch_group grp seg_map idx = Inr rows" "r \<in> set rows"
  shows "row_wf idx r"
proof -
  have keys: "set (dict_keys (fold (\<lambda>w d. dict_append w x d) ws d)) = set ws \<union> set (dict_keys d)"
    for ws x and d :: "(string, string list) dict"
    by (induction ws arbitrary: d) (auto simp: dict_append_keys simp del: set_map)
  have sub: "set (dict_keys (fold (\<lambda>(child_id, child) d.
        fold (\<lambda>w d. dict_append w (sg_scope_path child) d) (seg_writes child child_id idx) d) cs d))
      \<subseteq> set idx \<union> set (dict_keys d)" for cs :: "(nat \<times> 'a segment_scheme) list" and d
  proof (induction cs arbitrary: d)
    case (Cons c cs)
    let ?d = "fold (\<lambda>w d. dict_append w (sg_scope_path (snd c)) d) (seg_writes (snd c) (fst c) idx) d"
    have "set idx \<union> set (dict_keys ?d) \<subseteq> set idx \<union> set (dict_keys d)"
      unfolding keys using seg_writes_mem [of "snd c" "fst c" idx] by blast
    from subset_trans [OF Cons [of ?d] this] show ?case by (simp add: case_prod_beta)
  qed simp
  from assms(1) obtain children where "py_seq (map (lookup_seg seg_map) grp) = Inr children" and rows:
    "rows = map (\<lambda>(slot, sources). make_row ''phi'' None None (''phi('' @ slot @ '')'') (uniq sources) [slot] []
        (Some ''branch_reconvergence'') None)
       (fold (\<lambda>(child_id, child) d. fold (\<lambda>w d. dict_append w (sg_scope_path child) d)
          (seg_writes child child_id idx) d) (zip grp children) [])"
    by (auto simp: phi_rows_for_branch_group_def Let_def py_bind_eq_Inr)
  have "set (dict_keys (fold (\<lambda>(child_id, child) d. fold (\<lambda>w d. dict_append w (sg_scope_path child) d)
          (seg_writes child child_id idx) d) (zip grp children) [])) \<subseteq> set idx"
    using sub [of "zip grp children" "[]"] by simp
  with assms(2) show ?thesis
    unfolding rows by (fastforce simp: row_wf_def make_row_def)
qed

lemma loop_phi_wf:
  assumes "phi_rows_for_loop fuel i seg_map cm idx = Inr rows" "r \<in> set rows"
  shows "row_wf idx r \<and> rw_note r = Some ''loop_entry'' \<and> rw_seg_id r = Some i"
proof -
  from assms(1) obtain seg ws where "lookup_seg seg_map i = Inr seg" and "collect_writes_in_subtree fuel i seg_map cm idx = Inr ws"
    and rows: "rows = map (\<lambda>slot. make_row ''phi'' (Some i) (Some (sg_scope_path seg))
                    (''phi('' @ slot @ '')'') [slot] [slot] [] (Some ''loop_entry'') None)
                (sort (uniq ws))"
    by (auto simp: phi_rows_for_loop_def py_bind_eq_Inr)
  then have "set ws \<subseteq> set idx" by (auto dest: collect_writes_mem)
  with assms(2) show ?thesis by (auto simp: rows row_wf_def make_row_def)
qed

lemma flush_wf:
  "flush_branch_group grp seg_map idx = Inr rows \<Longrightarrow> r \<in> set rows \<Longrightarrow> row_wf idx r"
  by (auto simp: flush_branch_group_def dest: branch_phi_wf split: if_splits)

lemma walk_stmts_wf:
  assumes "walk_stmts walk seg_map idx i scope sts cs grp = Inr (rows, rest)" "r \<in> set rows"
    and "\<And>c sub r. walk c = Inr sub \<Longrightarrow> r \<in> set sub \<Longrightarrow> row_wf idx r"
  shows "row_wf idx r"
  using assms(1,2)
proof (induction sts arbitrary: cs grp rows rest)
  case Nil
  then show ?case by (auto simp: py_bind_eq_Inr dest: flush_wf)
next
  case (Cons st sts)
  show ?case
  proof (cases "st_kind st = ''branch'' \<or> st_kind st = ''loop_head''")
    case False
    with Cons show ?thesis
      by (auto simp: py_bind_eq_Inr stmt_to_row_wf dest: flush_wf)
  next
    case True
    show ?thesis
    proof (cases cs)
      case Nil
      with True Cons show ?thesis by (auto simp: py_bind_eq_Inr stmt_to_row_wf)
    next
      case (Cons c cs')
      with True Cons.prems Cons.IH assms(3) show ?thesis
        by (auto simp: py_bind_eq_Inr stmt_to_row_wf dest: flush_wf split: if_splits)
    qed
  qed
qed

lemma walk_segment_wf:
  "walk_segment fuel i seg_map cm idx = Inr rows \<Longrightarrow> r \<in> set rows \<Longrightarrow> row_wf idx r"
proof (induction fuel arbitrary: i rows r)
  case (Suc fuel)
  from Suc.prems(1) obtain seg entry rs rest subs where "lookup_seg seg_map i = Inr seg" and
      seg: "(if sg_type seg = ''loop'' then phi_rows_for_loop fuel i seg_map cm idx else Inr []) = Inr entry"
    and w: "walk_stmts (\<lambda>c. walk_segment fuel c seg_map cm idx) seg_map idx i
              (sg_scope_path seg) (sg_stmts seg) (dict_get_list cm i) [] = Inr (rs, rest)"
    and subs: "map (\<lambda>c. walk_segment fuel c seg_map cm idx) rest = map Inr subs"
    and rows: "rows = entry @ rs @ concat subs"
    by (auto simp: py_bind_eq_Inr py_seq_Inr)
  from subs have "\<forall>s\<in>set subs. \<exists>c. walk_segment fuel c seg_map cm idx = Inr s"
    by (metis (no_types, lifting) imageE image_eqI set_map)
  with Suc.prems(2) Suc.IH seg walk_stmts_wf [OF w _ Suc.IH] show ?case
    by (auto simp: rows dest: loop_phi_wf split: if_splits)
qed simp

lemma build_matrix_Inr:
  "build_matrix fuel segments = Inr m \<longleftrightarrow>
     (\<exists>rowss. py_seq (map (\<lambda>root_id.
             py_bind (lookup_seg (seg_by_id segments) root_id) (\<lambda>root.
             py_bind (py_seq (map (\<lambda>c. walk_segment fuel c (seg_by_id segments) (build_children segments)
                                      (all_scoped_slots segments))
                        (dict_get_list (build_children segments) root_id))) (\<lambda>subs.
               Inr (map (\<lambda>st. stmt_to_row st root_id (sg_scope_path root) (all_scoped_slots segments))
                      (sg_stmts root) @ concat subs))))
            (sort (map sg_id (filter (\<lambda>s. sg_id s = sg_parent s) segments)))) = Inr rowss
        \<and> m = \<lparr>mx_slots = all_scoped_slots segments, mx_rows = concat rowss\<rparr>)"
  by (auto simp: build_matrix_def Let_def py_bind_eq_Inr)

lemma map_Inr_mem: "map f xs = map Inr ys \<Longrightarrow> y \<in> set ys \<Longrightarrow> \<exists>x\<in>set xs. f x = Inr y"
  by (metis (no_types, lifting) imageE image_eqI set_map)

lemma distinct_all_scoped_slots: "distinct (all_scoped_slots segments)"
proof -
  have "distinct (dict_keys (fold (\<lambda>slot d. if sl_scoped_name slot \<in> set (dict_keys d) then d
          else dict_set (sl_scoped_name slot) slot d) xs d))" if "distinct (dict_keys d)"
    for xs and d :: "(string, slot) dict"
    using that by (induction xs arbitrary: d) (simp_all add: distinct_dict_set)
  note inner = this
  have "distinct (dict_keys (fold (\<lambda>seg. fold (\<lambda>slot d. if sl_scoped_name slot \<in> set (dict_keys d)
          then d else dict_set (sl_scoped_name slot) slot d) (sg_memory seg @ sg_constants seg)) segs d))"
    if "distinct (dict_keys d)" for segs :: "('a segment_scheme) list" and d :: "(string, slot) dict"
    using that by (induction segs arbitrary: d) (simp_all only: fold_simps o_apply inner)
  from this [of "[]" "sort_key sg_id segments"] show ?thesis
    unfolding all_scoped_slots_def by (simp only: list.map distinct.simps)
qed

lemma matrix_rows_wf:
  assumes "build_matrix fuel segments = Inr m"
  shows "mx_slots m = all_scoped_slots segments \<and> distinct (mx_slots m)
    \<and> (\<forall>r\<in>set (mx_rows m). row_wf (mx_slots m) r)"
proof -
  let ?idx = "all_scoped_slots segments"
  from assms obtain rowss where m: "m = \<lparr>mx_slots = ?idx, mx_rows = concat rowss\<rparr>"
    and rs: "map (\<lambda>root_id. py_bind (lookup_seg (seg_by_id segments) root_id) (\<lambda>root.
             py_bind (py_seq (map (\<lambda>c. walk_segment fuel c (seg_by_id segments) (build_children segments) ?idx)
                        (dict_get_list (build_children segments) root_id))) (\<lambda>subs.
               Inr (map (\<lambda>st. stmt_to_row st root_id (sg_scope_path root) ?idx) (sg_stmts root) @ concat subs))))
            (sort (map sg_id (filter (\<lambda>s. sg_id s = sg_parent s) segments))) = map Inr rowss"
    by (auto simp: build_matrix_Inr py_seq_Inr)
  have "row_wf ?idx r" if "rows \<in> set rowss" "r \<in> set rows" for rows r
  proof -
    from map_Inr_mem [OF rs that(1)] obtain i root subs
      where "lookup_seg (seg_by_id segments) i = Inr root"
        "map (\<lambda>c. walk_segment fuel c (seg_by_id segments) (build_children segments) ?idx)
           (dict_get_list (build_children segments) i) = map Inr subs"
        "rows = map (\<lambda>st. stmt_to_row st i (sg_scope_path root) ?idx) (sg_stmts root) @ concat subs"
      by (auto simp: py_bind_eq_Inr py_seq_Inr)
    note fs = this
    have "row_wf ?idx r" if "sub \<in> set subs" "r \<in> set sub" for sub
      using map_Inr_mem [OF fs(2) that(1)] that(2) by (blast intro: walk_segment_wf)
    with fs(3) that(2) show ?thesis by (auto simp: stmt_to_row_wf)
  qed
  then show ?thesis by (auto simp: m distinct_all_scoped_slots)
qed

section \<open>The walk reaches every segment once\<close>

definition segments_wf :: "('a segment_scheme) list \<Rightarrow> bool" where
  "segments_wf segments \<longleftrightarrow> distinct (map sg_id segments)
     \<and> (\<forall>s\<in>set segments. sg_parent s = sg_id s
          \<or> sg_parent s < sg_id s \<and> sg_parent s \<in> sg_id ` set segments)"

lemma build_children_get:
  "dict_get_list (build_children segments) p =
     sort (map sg_id (filter (\<lambda>s. sg_parent s = p \<and> sg_id s \<noteq> p) segments))"
proof -
  have "dict_get_list (fold (\<lambda>seg d. if sg_id seg = sg_parent seg then d
            else dict_append (sg_parent seg) (sg_id seg) d) segs d) p
      = dict_get_list d p @ map sg_id (filter (\<lambda>s. sg_parent s = p \<and> sg_id s \<noteq> p) segs)"
    for segs :: "('a segment_scheme) list" and d
    by (induction segs arbitrary: d) (auto simp: dict_get_list_append)
  moreover have "dict_get_list (map (\<lambda>(p, cs). (p, sort cs)) d) p = sort (dict_get_list d p)"
    for d :: "(nat, nat list) dict"
    by (simp add: dict_get_list_def map_of_map split: option.split)
  ultimately show ?thesis by (simp add: build_children_def)
qed

lemma children_props:
  assumes "segments_wf segments" "c \<in> set (dict_get_list (build_children segments) p)"
  shows "p < c" "c \<in> sg_id ` set segments"
  using assms by (auto simp: build_children_get segments_wf_def)

lemma lookup_seg_Inr:
  assumes "segments_wf segments" "s \<in> set segments"
  shows "lookup_seg (seg_by_id segments) (sg_id s) = Inr s"
  using assms seg_by_id_Some [of segments s] by (simp add: lookup_seg_def segments_wf_def)

definition ids_from :: "('a segment_scheme) list \<Rightarrow> nat \<Rightarrow> nat" where
  "ids_from segments i = card {j \<in> sg_id ` set segments. i \<le> j}"

lemma ids_from_less:
  assumes "i < c" "i \<in> sg_id ` set segments"
  shows "ids_from segments c < ids_from segments i"
  unfolding ids_from_def
proof (rule psubset_card_mono)
  show "{j \<in> sg_id ` set segments. c \<le> j} \<subset> {j \<in> sg_id ` set segments. i \<le> j}"
    using assms by (auto simp: psubset_eq dest: leD)
qed simp

lemma ids_from_le: "ids_from segments i \<le> length segments"
proof -
  have "ids_from segments i \<le> card (sg_id ` set segments)"
    unfolding ids_from_def by (intro card_mono) auto
  also have "\<dots> \<le> length segments" by (metis card_length length_map set_map)
  finally show ?thesis .
qed

lemma py_seq_total:
  "(\<And>x. x \<in> set xs \<Longrightarrow> \<exists>y. f x = Inr y) \<Longrightarrow> \<exists>ys. py_seq (map f xs) = Inr ys"
  by (induction xs) force+

lemma collect_total:
  assumes "segments_wf segments" "i \<in> sg_id ` set segments" "ids_from segments i \<le> fuel"
  shows "\<exists>ws. collect_writes_in_subtree fuel i (seg_by_id segments) (build_children segments) idx = Inr ws"
  using assms(2,3)
proof (induction fuel arbitrary: i)
  case 0
  then have "card {j \<in> sg_id ` set segments. i \<le> j} = 0" by (simp add: ids_from_def)
  with 0 show ?case by auto
next
  case (Suc fuel)
  obtain s where s: "s \<in> set segments" "sg_id s = i" using Suc.prems by auto
  have c: "\<exists>ws. collect_writes_in_subtree fuel c (seg_by_id segments) (build_children segments) idx = Inr ws"
    if "c \<in> set (dict_get_list (build_children segments) i)" for c
    using Suc.IH [of c] children_props [OF assms(1) that] ids_from_less [of i c segments] Suc.prems
    by simp
  have "\<exists>ys. py_seq (map (\<lambda>c. collect_writes_in_subtree fuel c (seg_by_id segments)
      (build_children segments) idx) (dict_get_list (build_children segments) i)) = Inr ys"
    by (intro py_seq_total) (rule c)
  with lookup_seg_Inr [OF assms(1) s(1)] s(2) show ?case by auto
qed

lemma branch_total:
  assumes "\<And>c. c \<in> set grp \<Longrightarrow> \<exists>s. lookup_seg seg_map c = Inr s"
  shows "\<exists>rows. flush_branch_group grp seg_map idx = Inr rows"
  using py_seq_total [of grp "lookup_seg seg_map", OF assms]
  by (auto simp: flush_branch_group_def phi_rows_for_branch_group_def Let_def)

lemma walk_stmts_total:
  assumes "\<And>c. c \<in> set cs \<Longrightarrow> \<exists>sub. walk c = Inr sub"
    and "\<And>c. c \<in> set (cs @ grp) \<Longrightarrow> \<exists>s. lookup_seg seg_map c = Inr s"
  shows "\<exists>rows rest. walk_stmts walk seg_map idx i scope sts cs grp = Inr (rows, rest)
    \<and> set rest \<subseteq> set cs"
  using assms
proof (induction sts arbitrary: cs grp)
  case Nil
  then show ?case using branch_total [of grp seg_map idx] by auto
next
  case (Cons st sts)
  have fl: "\<exists>rows. flush_branch_group grp seg_map idx = Inr rows"
    using Cons.prems(2) by (intro branch_total) auto
  show ?case
  proof (cases "st_kind st = ''branch'' \<or> st_kind st = ''loop_head''")
    case False
    then show ?thesis using fl Cons.IH [of cs "[]"] Cons.prems by fastforce
  next
    case True
    show ?thesis
    proof (cases cs)
      case Nil
      then show ?thesis using True Cons.IH [of "[]" grp] Cons.prems by fastforce
    next
      case cs: (Cons c cs')
      obtain sub s where "walk c = Inr sub" "lookup_seg seg_map c = Inr s"
        using Cons.prems [of c] cs by auto
      moreover obtain rows rest where "walk_stmts walk seg_map idx i scope sts cs'
          (if sg_type s = ''branch'' then grp @ [c] else []) = Inr (rows, rest)" "set rest \<subseteq> set cs'"
        using Cons.IH [of cs' "if sg_type s = ''branch'' then grp @ [c] else []"] Cons.prems
        unfolding cs by (cases "sg_type s = ''branch''") auto
      ultimately show ?thesis using True fl by (auto simp: cs)
    qed
  qed
qed

lemma walk_total:
  assumes "segments_wf segments" "i \<in> sg_id ` set segments" "ids_from segments i < fuel"
  shows "\<exists>rows. walk_segment fuel i (seg_by_id segments) (build_children segments) idx = Inr rows"
  using assms(2,3)
proof (induction fuel arbitrary: i)
  case (Suc fuel)
  let ?m = "seg_by_id segments" and ?cm = "build_children segments"
  obtain s where s: "s \<in> set segments" "sg_id s = i" using Suc.prems by auto
  have lk: "lookup_seg ?m i = Inr s" using lookup_seg_Inr [OF assms(1) s(1)] s(2) by simp
  have ch: "\<exists>rows. walk_segment fuel c ?m ?cm idx = Inr rows" "\<exists>s. lookup_seg ?m c = Inr s"
    if "c \<in> set (dict_get_list ?cm i)" for c
    using Suc.IH [of c] children_props [OF assms(1) that] ids_from_less [of i c segments] Suc.prems
      lookup_seg_Inr [OF assms(1)] by auto
  obtain entry where entry: "(if sg_type s = ''loop'' then phi_rows_for_loop fuel i ?m ?cm idx
      else Inr []) = Inr entry"
    using collect_total [OF assms(1) Suc.prems(1), of fuel idx] Suc.prems(2) lk
    by (cases "sg_type s = ''loop''") (auto simp: phi_rows_for_loop_def)
  obtain rows rest where w: "walk_stmts (\<lambda>c. walk_segment fuel c ?m ?cm idx) ?m idx i (sg_scope_path s)
      (sg_stmts s) (dict_get_list ?cm i) [] = Inr (rows, rest)" "set rest \<subseteq> set (dict_get_list ?cm i)"
    using walk_stmts_total [of "dict_get_list ?cm i" "\<lambda>c. walk_segment fuel c ?m ?cm idx" "[]" ?m
        idx i "sg_scope_path s" "sg_stmts s"] ch by auto
  have "\<exists>subs. py_seq (map (\<lambda>c. walk_segment fuel c ?m ?cm idx) rest) = Inr subs"
    using w(2) by (intro py_seq_total) (use ch(1) in blast)
  then obtain subs where "py_seq (map (\<lambda>c. walk_segment fuel c ?m ?cm idx) rest) = Inr subs" ..
  with lk entry w show ?case by simp
qed simp

text \<open>The rows below one root, and the roots, as \<open>build_matrix\<close> computes them.\<close>

definition root_rows ::
  "nat \<Rightarrow> ('a segment_scheme) list \<Rightarrow> nat \<Rightarrow> row list py" where
  "root_rows fuel segments root_id =
     py_bind (lookup_seg (seg_by_id segments) root_id) (\<lambda>root.
     py_bind (py_seq (map (\<lambda>c. walk_segment fuel c (seg_by_id segments) (build_children segments)
                              (all_scoped_slots segments))
                (dict_get_list (build_children segments) root_id))) (\<lambda>subs.
       Inr (map (\<lambda>st. stmt_to_row st root_id (sg_scope_path root) (all_scoped_slots segments))
              (sg_stmts root) @ concat subs)))"

definition root_ids :: "('a segment_scheme) list \<Rightarrow> nat list" where
  "root_ids segments = sort (map sg_id (filter (\<lambda>s. sg_id s = sg_parent s) segments))"

lemma build_matrix_roots:
  "build_matrix fuel segments = Inr m \<longleftrightarrow>
     (\<exists>rowss. py_seq (map (root_rows fuel segments) (root_ids segments)) = Inr rowss
        \<and> m = \<lparr>mx_slots = all_scoped_slots segments, mx_rows = concat rowss\<rparr>)"
  by (simp add: build_matrix_Inr root_rows_def [abs_def] root_ids_def)

lemma matrix_total:
  assumes "segments_wf segments" "length segments < fuel"
  shows "\<exists>m. build_matrix fuel segments = Inr m"
proof -
  have "\<exists>rows. root_rows fuel segments root_id = Inr rows" if r: "root_id \<in> set (root_ids segments)"
    for root_id
  proof -
    from r obtain s where s: "s \<in> set segments" "sg_id s = root_id"
      unfolding root_ids_def set_sort set_map set_filter by blast
    have c: "\<exists>rows. walk_segment fuel c (seg_by_id segments) (build_children segments)
        (all_scoped_slots segments) = Inr rows"
      if "c \<in> set (dict_get_list (build_children segments) root_id)" for c
      using children_props [OF assms(1) that] ids_from_le [of segments c] assms
      by (intro walk_total) auto
    have "\<exists>ys. py_seq (map (\<lambda>c. walk_segment fuel c (seg_by_id segments) (build_children segments)
        (all_scoped_slots segments)) (dict_get_list (build_children segments) root_id)) = Inr ys"
      by (intro py_seq_total) (rule c)
    with lookup_seg_Inr [OF assms(1) s(1)] s(2) show ?thesis by (auto simp: root_rows_def)
  qed
  note roots = this
  have "\<exists>rowss. py_seq (map (root_rows fuel segments) (root_ids segments)) = Inr rowss"
    by (intro py_seq_total) (rule roots)
  then show ?thesis unfolding build_matrix_roots by blast
qed

text \<open>The rows of one segment's statements, in a list of rows.\<close>

abbreviation rows_of :: "nat \<Rightarrow> row list \<Rightarrow> row list" where
  "rows_of k rows \<equiv> filter (\<lambda>r. rw_seg_id r = Some k \<and> rw_note r = None) rows"

definition own_rows :: "string list \<Rightarrow> 'a segment_scheme \<Rightarrow> row list" where
  "own_rows idx seg = map (\<lambda>st. stmt_to_row st (sg_id seg) (sg_scope_path seg) idx) (sg_stmts seg)"

lemma rows_of_stmts:
  "rows_of k (map (\<lambda>st. stmt_to_row st i scope idx) sts)
     = (if k = i then map (\<lambda>st. stmt_to_row st i scope idx) sts else [])"
  by (induction sts) (auto simp: stmt_to_row_sel)

lemma rows_of_flush: "flush_branch_group grp seg_map idx = Inr rows \<Longrightarrow> rows_of k rows = []"
  by (auto simp: flush_branch_group_def phi_rows_for_branch_group_def Let_def py_bind_eq_Inr
      make_row_def filter_empty_conv split: if_splits)

lemma rows_of_loop: "phi_rows_for_loop fuel i seg_map cm idx = Inr rows \<Longrightarrow> rows_of k rows = []"
  by (auto simp: filter_empty_conv dest: loop_phi_wf)

lemma walk_stmts_rows_of:
  assumes "walk_stmts walk seg_map idx i scope sts cs grp = Inr (rows, rest)"
    and "\<And>c sub. c \<in> set cs \<Longrightarrow> walk c = Inr sub \<Longrightarrow> rows_of k sub = g c"
    and "k = i \<Longrightarrow> (\<forall>c\<in>set cs. g c = [])"
  shows "\<exists>used. cs = used @ rest \<and>
    rows_of k rows = (if k = i then map (\<lambda>st. stmt_to_row st i scope idx) sts else concat (map g used))"
  using assms
proof (induction sts arbitrary: cs grp rows rest)
  case Nil
  then show ?case by (auto simp: py_bind_eq_Inr rows_of_flush)
next
  case (Cons st sts)
  show ?case
  proof (cases "st_kind st = ''branch'' \<or> st_kind st = ''loop_head''")
    case False
    with Cons.prems(1) obtain phis rows' where r: "flush_branch_group grp seg_map idx = Inr phis"
        "walk_stmts walk seg_map idx i scope sts cs [] = Inr (rows', rest)"
        "rows = phis @ stmt_to_row st i scope idx # rows'"
      by (auto simp: py_bind_eq_Inr)
    from Cons.IH [OF r(2) Cons.prems(2,3)] show ?thesis
      by (auto simp: r(3) rows_of_flush [OF r(1)] stmt_to_row_sel)
  next
    case True
    show ?thesis
    proof (cases cs)
      case Nil
      with True Cons.prems(1) obtain rows' where r:
          "walk_stmts walk seg_map idx i scope sts [] grp = Inr (rows', rest)"
          "rows = stmt_to_row st i scope idx # rows'"
        by (auto simp: py_bind_eq_Inr)
      from Cons.IH [OF r(1)] show ?thesis by (auto simp: Nil r(2) stmt_to_row_sel)
    next
      case cs: (Cons c cs')
      with True Cons.prems(1) obtain child phis sub rows' where r: "lookup_seg seg_map c = Inr child"
          "(if sg_type child = ''branch'' then Inr [] else flush_branch_group grp seg_map idx) = Inr phis"
          "walk c = Inr sub"
          "walk_stmts walk seg_map idx i scope sts cs'
             (if sg_type child = ''branch'' then grp @ [c] else []) = Inr (rows', rest)"
          "rows = stmt_to_row st i scope idx # phis @ sub @ rows'"
        by (auto simp: py_bind_eq_Inr)
      have phis: "rows_of k phis = []" using r(2) rows_of_flush by (auto split: if_splits)
      have sub: "rows_of k sub = g c" using Cons.prems(2) [OF _ r(3)] cs by simp
      obtain used where "cs' = used @ rest" "rows_of k rows' =
          (if k = i then map (\<lambda>st. stmt_to_row st i scope idx) sts else concat (map g used))"
        using Cons.IH [OF r(4)] Cons.prems(2,3) cs by auto
      then show ?thesis
        using Cons.prems(3) phis sub
        by (intro exI [of _ "c # used"]) (auto simp: cs r(5) stmt_to_row_sel)
    qed
  qed
qed

text \<open>How often the walk from \<open>i\<close> reaches segment \<open>k\<close>.\<close>

fun reach_count :: "nat \<Rightarrow> (nat, nat list) dict \<Rightarrow> nat \<Rightarrow> nat \<Rightarrow> nat" where
  "reach_count 0 cm k i = 0"
| "reach_count (Suc fuel) cm k i =
     (if i = k then 1 else 0) + sum_list (map (reach_count fuel cm k) (dict_get_list cm i))"

lemma concat_replicate_sum:
  "concat (map (\<lambda>c. concat (replicate (n c) xs)) cs) = concat (replicate (sum_list (map n cs)) xs)"
  by (induction cs) (simp_all add: replicate_add)

lemma reach_count_above:
  assumes "segments_wf segments" "k < i"
  shows "reach_count fuel (build_children segments) k i = 0"
  using assms(2)
proof (induction fuel arbitrary: i)
  case (Suc fuel)
  have "reach_count fuel (build_children segments) k c = 0"
    if "c \<in> set (dict_get_list (build_children segments) i)" for c
    using Suc.IH [of c] Suc.prems children_props(1) [OF assms(1) that] by simp
  with Suc.prems show ?case by (simp add: sum_list_0 map_idI cong: map_cong)
qed simp

lemma walk_segment_rows_of:
  assumes wf: "segments_wf segments" and seg: "seg \<in> set segments" "sg_id seg = k"
    and "walk_segment fuel i (seg_by_id segments) (build_children segments) idx = Inr rows"
  shows "rows_of k rows
    = concat (replicate (reach_count fuel (build_children segments) k i) (own_rows idx seg))"
  using assms(4)
proof (induction fuel arbitrary: i rows)
  case (Suc fuel)
  let ?m = "seg_by_id segments" and ?cm = "build_children segments"
  let ?g = "\<lambda>c. concat (replicate (reach_count fuel ?cm k c) (own_rows idx seg))"
  from Suc.prems obtain s entry rs rest subs where lk: "lookup_seg ?m i = Inr s"
    and entry: "(if sg_type s = ''loop'' then phi_rows_for_loop fuel i ?m ?cm idx else Inr []) = Inr entry"
    and w: "walk_stmts (\<lambda>c. walk_segment fuel c ?m ?cm idx) ?m idx i (sg_scope_path s) (sg_stmts s)
              (dict_get_list ?cm i) [] = Inr (rs, rest)"
    and subs: "map (\<lambda>c. walk_segment fuel c ?m ?cm idx) rest = map Inr subs"
    and rows: "rows = entry @ rs @ concat subs"
    by (auto simp: py_bind_eq_Inr py_seq_Inr)
  have e: "rows_of k entry = []" using entry rows_of_loop by (auto split: if_splits)
  have none: "k = i \<Longrightarrow> \<forall>c\<in>set (dict_get_list ?cm i). ?g c = []"
    using reach_count_above [OF wf] children_props(1) [OF wf] by simp
  obtain used where u: "dict_get_list ?cm i = used @ rest" "rows_of k rs =
      (if k = i then map (\<lambda>st. stmt_to_row st i (sg_scope_path s) idx) (sg_stmts s) else concat (map ?g used))"
    using walk_stmts_rows_of [where g = ?g, OF w Suc.IH none] by auto
  have "rows_of k (concat subs) = concat (map ?g rest)"
    using subs
  proof (induction rest arbitrary: subs)
    case (Cons c rest)
    then show ?case using Suc.IH by (cases subs) auto
  qed simp
  moreover have "k = i \<Longrightarrow> own_rows idx seg = map (\<lambda>st. stmt_to_row st i (sg_scope_path s) idx) (sg_stmts s)"
    using lookup_seg_Inr [OF wf seg(1)] lk seg(2) by (simp add: own_rows_def)
  ultimately show ?case
    using none u e by (auto simp: rows concat_replicate_sum replicate_add)
qed simp

lemma reach_count_parent:
  assumes "segments_wf segments" "s \<in> set segments" "sg_parent s \<noteq> sg_id s"
  shows "reach_count (Suc fuel) (build_children segments) (sg_id s) i
    = (if i = sg_id s then 1 else 0) + reach_count fuel (build_children segments) (sg_parent s) i"
proof (induction fuel arbitrary: i)
  case 0
  show ?case by (simp add: sum_list_0 map_idI)
next
  case (Suc fuel)
  let ?cm = "build_children segments"
  have d: "distinct (dict_get_list ?cm i)"
    using assms(1) by (auto simp: build_children_get segments_wf_def intro: distinct_map_filter)
  have mem: "sg_id s \<in> set (dict_get_list ?cm i) \<longleftrightarrow> i = sg_parent s"
    using assms by (auto simp: build_children_get segments_wf_def distinct_map inj_on_def)
  have "sum_list (map (reach_count (Suc fuel) ?cm (sg_id s)) cs)
      = (if sg_id s \<in> set cs then 1 else 0) + sum_list (map (reach_count fuel ?cm (sg_parent s)) cs)"
    if "distinct cs" for cs
    using that by (induction cs) (auto simp: Suc.IH simp del: reach_count.simps)
  from this [OF d] show ?case by (simp add: mem del: reach_count.simps(2) add: reach_count.simps(2) [of "Suc fuel"] reach_count.simps(2) [of fuel _ "sg_parent s"])
qed

lemma reach_count_root:
  assumes "segments_wf segments" "k \<in> set (root_ids segments)"
  shows "reach_count (Suc fuel) (build_children segments) k i = (if i = k then 1 else 0)"
proof -
  let ?cm = "build_children segments"
  have nk: "k \<notin> set (dict_get_list ?cm i)" for i
    using assms by (auto simp: build_children_get root_ids_def segments_wf_def distinct_map inj_on_def)
  have z: "i \<noteq> k \<Longrightarrow> reach_count fuel ?cm k i = 0" for i fuel
  proof (induction fuel arbitrary: i)
    case (Suc fuel)
    have "\<forall>c\<in>set (dict_get_list ?cm i). reach_count fuel ?cm k c = 0" using Suc.IH nk by metis
    with Suc.prems(1) show ?case by simp
  qed simp
  have "\<forall>c\<in>set (dict_get_list ?cm i). c \<noteq> k" for i using nk by metis
  with z show ?thesis by simp
qed

lemma reach_total:
  assumes "segments_wf segments" "s \<in> set segments"
    and "card {j \<in> sg_id ` set segments. j \<le> sg_id s} \<le> fuel"
  shows "sum_list (map (reach_count fuel (build_children segments) (sg_id s)) (root_ids segments)) = 1"
  using assms(2,3)
proof (induction fuel arbitrary: s)
  case 0
  then have "{j \<in> sg_id ` set segments. j \<le> sg_id s} = {}" by simp
  with 0 show ?case by blast
next
  case (Suc fuel)
  have d: "distinct (root_ids segments)"
    using assms(1) by (auto simp: root_ids_def segments_wf_def intro: distinct_map_filter)
  have ones: "sum_list (map (\<lambda>i. if i = k then 1 else (0 :: nat)) cs) = (if k \<in> set cs then 1 else 0)"
    if "distinct cs" for cs and k :: nat using that by (induction cs) auto
  show ?case
  proof (cases "sg_parent s = sg_id s")
    case True
    then have "s \<in> set (filter (\<lambda>s. sg_id s = sg_parent s) segments)" using Suc.prems by simp
    then have r: "sg_id s \<in> set (root_ids segments)"
      unfolding root_ids_def set_sort set_map by (rule imageI)
    show ?thesis using r by (simp only: reach_count_root [OF assms(1) r]) (simp add: ones [OF d])
  next
    case False
    then obtain p where p: "p \<in> set segments" "sg_id p = sg_parent s" "sg_parent s < sg_id s"
      using assms(1) Suc.prems(1) by (auto simp: segments_wf_def)
    have nr: "sg_id s \<notin> set (root_ids segments)"
    proof
      assume "sg_id s \<in> set (root_ids segments)"
      then obtain t where "t \<in> set segments" "sg_id t = sg_parent t" "sg_id t = sg_id s"
        unfolding root_ids_def set_sort set_map set_filter by auto
      moreover from this(1,3) have "t = s"
        using assms(1) Suc.prems(1) by (auto simp: segments_wf_def distinct_map dest: inj_onD)
      ultimately show False using False by simp
    qed
    have "{j \<in> sg_id ` set segments. j \<le> sg_parent s} \<subset> {j \<in> sg_id ` set segments. j \<le> sg_id s}"
    proof
      show "{j \<in> sg_id ` set segments. j \<le> sg_parent s} \<subseteq> {j \<in> sg_id ` set segments. j \<le> sg_id s}"
        using p(3) by auto
      have "sg_id s \<in> {j \<in> sg_id ` set segments. j \<le> sg_id s}" using Suc.prems(1) by simp
      then show "{j \<in> sg_id ` set segments. j \<le> sg_parent s} \<noteq> {j \<in> sg_id ` set segments. j \<le> sg_id s}"
        using p(3) by (metis (no_types, lifting) leD mem_Collect_eq)
    qed
    then have "card {j \<in> sg_id ` set segments. j \<le> sg_parent s}
        < card {j \<in> sg_id ` set segments. j \<le> sg_id s}"
      by (intro psubset_card_mono) simp_all
    then have "sum_list (map (reach_count fuel (build_children segments) (sg_parent s)) (root_ids segments)) = 1"
      using Suc.IH [OF p(1)] p Suc.prems(2) by simp
    then show ?thesis
      using nr by (simp only: reach_count_parent [OF assms(1) Suc.prems(1) False] sum_list_addf)
         (simp add: ones [OF d])
  qed
qed

text \<open>Each statement has exactly one row, in the order of its segment.\<close>

lemma matrix_statement_rows:
  assumes "segments_wf segments" "length segments < fuel" "build_matrix fuel segments = Inr m"
    and "seg \<in> set segments"
  shows "filter (\<lambda>r. rw_seg_id r = Some (sg_id seg) \<and> rw_note r = None) (mx_rows m)
    = map (\<lambda>st. stmt_to_row st (sg_id seg) (sg_scope_path seg) (mx_slots m)) (sg_stmts seg)"
proof -
  let ?idx = "all_scoped_slots segments" and ?k = "sg_id seg" and ?cm = "build_children segments"
  obtain rowss where m: "m = \<lparr>mx_slots = ?idx, mx_rows = concat rowss\<rparr>"
    and rs: "map (root_rows fuel segments) (root_ids segments) = map Inr rowss"
    using assms(3) by (auto simp: build_matrix_roots py_seq_Inr)
  have root: "rows_of ?k rows = concat (replicate (reach_count (Suc fuel) ?cm ?k i) (own_rows ?idx seg))"
    if "root_rows fuel segments i = Inr rows" for i rows
  proof -
    from that obtain s subs where lk: "lookup_seg (seg_by_id segments) i = Inr s"
      and subs: "map (\<lambda>c. walk_segment fuel c (seg_by_id segments) ?cm ?idx) (dict_get_list ?cm i) = map Inr subs"
      and rows: "rows = map (\<lambda>st. stmt_to_row st i (sg_scope_path s) ?idx) (sg_stmts s) @ concat subs"
      by (auto simp: root_rows_def py_bind_eq_Inr py_seq_Inr)
    have "rows_of ?k (concat subs) = concat (map (\<lambda>c. concat (replicate (reach_count fuel ?cm ?k c)
        (own_rows ?idx seg))) cs)"
      if "map (\<lambda>c. walk_segment fuel c (seg_by_id segments) ?cm ?idx) cs = map Inr subs" for cs
      using that
    proof (induction cs arbitrary: subs)
      case (Cons c cs)
      then show ?case
        using walk_segment_rows_of [OF assms(1,4) refl, of fuel c ?idx] by (cases subs) auto
    qed simp
    from this [OF subs] have sub: "rows_of ?k (concat subs)
        = concat (replicate (sum_list (map (reach_count fuel ?cm ?k) (dict_get_list ?cm i))) (own_rows ?idx seg))"
      by (simp add: concat_replicate_sum)
    have "i = ?k \<Longrightarrow> s = seg"
      using lookup_seg_Inr [OF assms(1,4)] lk by simp
    then show ?thesis by (auto simp: rows sub rows_of_stmts own_rows_def)
  qed
  have "rows_of ?k (concat rowss) = concat (map (\<lambda>i. concat (replicate (reach_count (Suc fuel) ?cm ?k i)
      (own_rows ?idx seg))) is)"
    if "map (root_rows fuel segments) is = map Inr rowss" for "is"
    using that
  proof (induction "is" arbitrary: rowss)
    case (Cons i "is")
    then show ?case using root by (cases rowss) auto
  qed simp
  moreover have "card {j \<in> sg_id ` set segments. j \<le> ?k} \<le> Suc fuel"
  proof -
    have "card {j \<in> sg_id ` set segments. j \<le> ?k} \<le> card (sg_id ` set segments)"
      by (intro card_mono) auto
    also have "\<dots> \<le> length segments" by (metis card_length length_map set_map)
    finally show ?thesis using assms(2) by simp
  qed
  ultimately show ?thesis
    using rs reach_total [OF assms(1,4), of "Suc fuel"]
    by (simp add: m concat_replicate_sum own_rows_def del: reach_count.simps)
qed

section \<open>A sample program\<close>

text \<open>
  The segments of \<open>int f(int a) { int x = 1; if (a) { x = a; } while (a) { x = x + a; } return x; }\<close>,
  on which the statements below are evaluated.
\<close>

definition sample_slot :: "string \<Rightarrow> string \<Rightarrow> bool \<Rightarrow> bool \<Rightarrow> slot" where
  "sample_slot n scoped is_const is_param =
     \<lparr>sl_name = n, sl_scoped_name = scoped, sl_type = ''int'', sl_constant = is_const,
      sl_param = is_param, sl_loop_iterator = False, sl_value = None, sl_udt_parent = None,
      sl_udt_type = None\<rparr>"

definition sample_stmt :: "string \<Rightarrow> string \<Rightarrow> string option \<Rightarrow> string list \<Rightarrow> stmt" where
  "sample_stmt raw kind l rs =
     \<lparr>st_raw = raw, st_kind = kind, st_l_name = l, st_r_names = rs, st_expr = None,
      st_type = None, st_iterator_type = None\<rparr>"

definition sample_seg ::
  "nat \<Rightarrow> nat \<Rightarrow> string \<Rightarrow> string \<Rightarrow> string \<Rightarrow> slot list \<Rightarrow> slot list \<Rightarrow> stmt list \<Rightarrow> segment" where
  "sample_seg i par ty n scope ms cs sts =
     \<lparr>sg_id = i, sg_parent = par, sg_type = ty, sg_name = n, sg_scope_path = scope,
      sg_head = None, sg_memory = ms, sg_constants = cs, sg_stmts = sts\<rparr>"

definition sample_segments :: "segment list" where
  "sample_segments =
    [sample_seg 0 0 ''root'' ''root'' ''root'' [] [] [],
     sample_seg 1 0 ''function'' ''f'' ''root.f''
       [sample_slot ''a'' ''root.f.a'' False True, sample_slot ''x'' ''root.f.x'' False False] []
       [sample_stmt ''int x = a;'' ''decl'' (Some ''x'') [''a''],
        sample_stmt ''if (a)'' ''branch'' None [''a''],
        sample_stmt ''while (a)'' ''loop_head'' None [''a''],
        sample_stmt ''return x;'' ''return'' None [''x'']],
     sample_seg 2 1 ''branch'' ''branch_1'' ''root.f.branch_1'' [] []
       [sample_stmt ''x = a;'' ''assign'' (Some ''x'') [''a'']],
     sample_seg 3 1 ''loop'' ''loop_1'' ''root.f.loop_1'' [] []
       [sample_stmt ''x = x + a;'' ''assign'' (Some ''x'') [''x'', ''a'']]]"

lemma sample_wf: "segments_wf sample_segments"
  by (simp add: segments_wf_def sample_segments_def sample_seg_def)

section \<open>Properties\<close>

text \<open>
  C19. Name resolution is lexical: for a name without an index, \<open>resolve_slot\<close> returns the slot of the
  innermost enclosing scope that has one, and \<open>None\<close> only when no enclosing scope has one.
\<close>
theorem resolve_slot_innermost:
  assumes "CHR ''['' \<notin> set name"
  shows "case resolve_slot name scope idx of
      Some c \<Rightarrow> \<exists>d. 1 \<le> d \<and> d \<le> length (split_on CHR ''.'' scope)
          \<and> c = candidate scope name d \<and> c \<in> set idx
          \<and> (\<forall>d'. d < d' \<and> d' \<le> length (split_on CHR ''.'' scope) \<longrightarrow> candidate scope name d' \<notin> set idx)
    | None \<Rightarrow> \<forall>d. 1 \<le> d \<and> d \<le> length (split_on CHR ''.'' scope) \<longrightarrow> candidate scope name d \<notin> set idx"
  by (rule resolve_slot_innermost_lem [OF assms])

theorem resolve_slot_innermost_witness:
  "resolve_slot ''x'' ''root.f.loop_1'' [''root.x'', ''root.f.x''] = Some ''root.f.x''
   \<and> (case resolve_slot ''x'' ''root.f.loop_1'' [''root.x'', ''root.f.x''] of
        Some c \<Rightarrow> c \<in> {''root.x'', ''root.f.x''} | None \<Rightarrow> False)"
proof -
  have r: "resolve_slot ''x'' ''root.f.loop_1'' [''root.x'', ''root.f.x''] = Some ''root.f.x''"
    by code_simp
  show ?thesis
    using resolve_slot_innermost [of "''x''" "''root.f.loop_1''" "[''root.x'', ''root.f.x'']"] r
    by auto
qed

text \<open>
  C6. Every row of the matrix is over the slot columns: reads, writes and declarations are without
  repetition, declarations are writes, writes are slots, reads of a statement row are slots; a loop
  phi reads what it writes, and a reconvergence phi writes one slot and belongs to no segment.
\<close>
theorem build_matrix_rows_wf:
  assumes "build_matrix fuel segments = Inr m"
  shows "mx_slots m = all_scoped_slots segments \<and> distinct (mx_slots m)
    \<and> (\<forall>r\<in>set (mx_rows m). row_wf (mx_slots m) r)"
  by (rule matrix_rows_wf [OF assms])

theorem build_matrix_rows_wf_witness:
  "\<exists>m. build_matrix 5 sample_segments = Inr m \<and> mx_slots m = [''root.f.a'', ''root.f.x'']
     \<and> length (mx_rows m) = 8 \<and> (\<forall>r\<in>set (mx_rows m). row_wf (mx_slots m) r)"
proof -
  have "case build_matrix 5 sample_segments of
      Inr m \<Rightarrow> mx_slots m = [''root.f.a'', ''root.f.x''] \<and> length (mx_rows m) = 8 | Inl _ \<Rightarrow> False"
    by code_simp
  then show ?thesis
    using build_matrix_rows_wf [of 5 sample_segments] by (auto split: sum.splits)
qed

text \<open>
  C5. On a well-formed segment tree (distinct ids, every parent present with a smaller id, or the
  segment itself), \<open>build_matrix\<close> terminates without an exception; a recursion budget above the number of
  segments is enough.
\<close>
theorem build_matrix_total:
  assumes "segments_wf segments" "length segments < fuel"
  shows "\<exists>m. build_matrix fuel segments = Inr m"
  by (rule matrix_total [OF assms])

theorem build_matrix_total_witness: "\<exists>m. build_matrix 5 sample_segments = Inr m"
  by (rule build_matrix_total [OF sample_wf]) (simp add: sample_segments_def)

text \<open>
  C2. The walk emits every statement exactly once: among the rows, those of one segment that are not
  phis are the rows of its statements, one each, in source order.
\<close>
theorem build_matrix_statement_rows:
  assumes "segments_wf segments" "length segments < fuel" "build_matrix fuel segments = Inr m"
    and "seg \<in> set segments"
  shows "filter (\<lambda>r. rw_seg_id r = Some (sg_id seg) \<and> rw_note r = None) (mx_rows m)
    = map (\<lambda>st. stmt_to_row st (sg_id seg) (sg_scope_path seg) (mx_slots m)) (sg_stmts seg)"
  by (rule matrix_statement_rows [OF assms])

theorem build_matrix_statement_rows_witness:
  "\<exists>m. build_matrix 5 sample_segments = Inr m \<and>
     length (filter (\<lambda>r. rw_seg_id r = Some 1 \<and> rw_note r = None) (mx_rows m)) = 4"
proof -
  obtain m where m: "build_matrix 5 sample_segments = Inr m"
    using matrix_total [OF sample_wf, of 5] by (auto simp: sample_segments_def)
  show ?thesis
    using build_matrix_statement_rows [OF sample_wf _ m, of "sample_segments ! 1"] m
    by (auto simp: sample_segments_def sample_seg_def)
qed

end
