(* ===== verification/Dag.thy ===== *)
theory Dag
  imports Matrix "HOL-Library.Multiset"
begin

text \<open>
  The data-flow graph of \<open>cdup/src/dag.py\<close>: entry nodes, node numbering, the def-use scan with its
  two write tables, and the back edges of loops. \<open>build_dag\<close> is then shown to produce exactly the
  edges of a declarative description (\<open>dag_edges\<close>): reaching definitions by the last writer, the
  per-branch last writer at a reconvergence, and the last writer of the loop body.
\<close>

section \<open>Nodes, edges and the edge log\<close>

record dag_node = row +
  nd_id :: nat

record edge =
  ed_from :: nat
  ed_to :: nat
  ed_slot :: string
  ed_kind :: string

record dag =
  dg_nodes :: "dag_node list"
  dg_edges :: "edge list"

type_synonym edge_key = "nat \<times> nat \<times> string"

text \<open>The accumulator of \<open>_add_edge\<close>: the list of edges and the set of keys already recorded.\<close>

record edge_log =
  el_edges :: "edge list"
  el_seen :: "edge_key set"

definition empty_log :: edge_log where
  "empty_log = \<lparr>el_edges = [], el_seen = {}\<rparr>"

definition add_edge :: "nat \<Rightarrow> nat \<Rightarrow> string \<Rightarrow> string \<Rightarrow> edge_log \<Rightarrow> edge_log" where
  "add_edge from_id to_id slot kind log =
     (let key = (from_id, to_id, slot)
      in if key \<notin> el_seen log
         then \<lparr>el_edges = el_edges log
                 @ [\<lparr>ed_from = from_id, ed_to = to_id, ed_slot = slot, ed_kind = kind\<rparr>],
               el_seen = insert key (el_seen log)\<rparr>
         else log)"

section \<open>Entry nodes and numbering\<close>

definition entry_kind :: "string \<Rightarrow> string" where
  "entry_kind seg_type =
     (if seg_type = ''root'' then ''file_entry''
      else if seg_type = ''struct'' then ''struct_def'' else ''func_entry'')"

definition make_entry_node :: "'a segment_scheme \<Rightarrow> row" where
  "make_entry_node seg =
     (let writes = map sl_scoped_name (filter sl_param (sg_memory seg))
                   @ map sl_scoped_name (sg_constants seg)
      in \<lparr>rw_kind = entry_kind (sg_type seg), rw_seg_id = Some (sg_id seg),
          rw_scope_path = Some (sg_scope_path seg),
          rw_raw = ''entry('' @ sg_scope_path seg @ '')'',
          rw_reads = [], rw_writes = writes, rw_decls = writes,
          rw_note = Some ''synthetic'', rw_expr = None\<rparr>)"

definition entry_segs :: "('a segment_scheme) list \<Rightarrow> ('a segment_scheme) list" where
  "entry_segs segments = filter (\<lambda>s. sg_type s \<in> {''function'', ''root'', ''struct''}) segments"

definition first_row_for_seg :: "row list \<Rightarrow> (nat, nat) dict" where
  "first_row_for_seg raw =
     fold (\<lambda>(i, node) d.
         case rw_seg_id node of
           None \<Rightarrow> d
         | Some sid \<Rightarrow> if sid \<in> set (dict_keys d) then d else dict_set sid i d)
       (enumerate 0 raw) []"

definition list_insert :: "nat \<Rightarrow> 'a \<Rightarrow> 'a list \<Rightarrow> 'a list" where
  "list_insert i x xs = take i xs @ x # drop i xs"

text \<open>\<open>insertions.sort(key=..., reverse=True)\<close> is stable: equal positions keep their order.\<close>

definition entry_insertions :: "('a segment_scheme) list \<Rightarrow> row list \<Rightarrow> (nat \<times> row) list" where
  "entry_insertions segments raw =
     (let first = first_row_for_seg raw
      in sort_key (\<lambda>p. - int (fst p))
           (map (\<lambda>seg. (case dict_get first (sg_id seg) of None \<Rightarrow> length raw | Some i \<Rightarrow> i,
                        make_entry_node seg))
             (entry_segs segments)))"

definition insert_entries :: "('a segment_scheme) list \<Rightarrow> row list \<Rightarrow> row list" where
  "insert_entries segments raw =
     fold (\<lambda>(i, node) ns. list_insert i node ns) (entry_insertions segments raw) raw"

definition number_node :: "nat \<Rightarrow> row \<Rightarrow> dag_node" where
  "number_node i r = row.extend r \<lparr>nd_id = i\<rparr>"

definition number_nodes :: "row list \<Rightarrow> dag_node list" where
  "number_nodes rows = map (\<lambda>(i, r). number_node i r) (enumerate 0 rows)"

section \<open>The def-use scan\<close>

record scan =
  sc_log :: edge_log
  sc_last :: "string \<Rightarrow> nat option"
  sc_scope_last :: "string \<times> string \<Rightarrow> nat option"

text \<open>
  The reads of one node against the write tables. A reconvergence phi reads scopes; \<open>writes[0]\<close> of a
  phi without writes raises \<open>IndexError\<close>.
\<close>

definition scan_reads :: "dag_node \<Rightarrow> scan \<Rightarrow> edge_log py" where
  "scan_reads node s =
     (if rw_note node = Some ''branch_reconvergence'' then
        (case rw_writes node of
           [] \<Rightarrow> Inl IndexError
         | slot # _ \<Rightarrow>
             Inr (fold (\<lambda>src_scope log.
                    case sc_scope_last s (src_scope, slot) of
                      None \<Rightarrow> log
                    | Some src \<Rightarrow> add_edge src (nd_id node) slot ''phi_branch'' log)
                  (rw_reads node) (sc_log s)))
      else
        Inr (fold (\<lambda>slot log.
               case sc_last s slot of
                 None \<Rightarrow> log
               | Some src \<Rightarrow>
                   add_edge src (nd_id node) slot
                     (if rw_note node = Some ''loop_entry'' then ''phi_loop'' else ''data_flow'') log)
             (rw_reads node) (sc_log s)))"

definition scan_writes :: "dag_node \<Rightarrow> scan \<Rightarrow> scan" where
  "scan_writes node s =
     fold (\<lambda>slot s.
         s\<lparr>sc_last := (sc_last s)(slot \<mapsto> nd_id node),
           sc_scope_last :=
             (case rw_scope_path node of
                None \<Rightarrow> sc_scope_last s
              | Some sc \<Rightarrow> (sc_scope_last s)((sc, slot) \<mapsto> nd_id node))\<rparr>)
       (rw_writes node) s"

definition scan_node :: "dag_node \<Rightarrow> scan \<Rightarrow> scan py" where
  "scan_node node s = py_bind (scan_reads node s) (\<lambda>log. Inr (scan_writes node (s\<lparr>sc_log := log\<rparr>)))"

definition def_use_scan :: "dag_node list \<Rightarrow> edge_log py" where
  "def_use_scan nodes =
     py_bind (py_fold scan_node nodes
       \<lparr>sc_log = empty_log, sc_last = Map.empty, sc_scope_last = Map.empty\<rparr>) (\<lambda>s. Inr (sc_log s))"

section \<open>Back edges\<close>

text \<open>The inner loop of step 4; \<open>startswith(None)\<close> raises \<open>TypeError\<close>.\<close>

fun last_in_loop :: "dag_node \<Rightarrow> string \<Rightarrow> nat option \<Rightarrow> dag_node list \<Rightarrow> nat option py" where
  "last_in_loop phi slot acc [] = Inr acc"
| "last_in_loop phi slot acc (n # ns) =
     (if nd_id n \<le> nd_id phi then last_in_loop phi slot acc ns
      else case rw_scope_path n of
        None \<Rightarrow> last_in_loop phi slot acc ns
      | Some sc \<Rightarrow>
          (case rw_scope_path phi of
             None \<Rightarrow> Inl (TypeError ''startswith first arg must be str'')
           | Some phi_scope \<Rightarrow>
               if \<not> startswith sc phi_scope then last_in_loop phi slot acc ns
               else last_in_loop phi slot
                      (if slot \<in> set (rw_writes n) then Some (nd_id n) else acc) ns))"

definition back_edges :: "dag_node list \<Rightarrow> edge_log \<Rightarrow> edge_log py" where
  "back_edges nodes =
     py_fold (\<lambda>phi log.
         if rw_note phi \<noteq> Some ''loop_entry'' then Inr log
         else py_fold (\<lambda>slot log.
                py_bind (last_in_loop phi slot None nodes) (\<lambda>r.
                  Inr (case r of
                         None \<Rightarrow> log
                       | Some src \<Rightarrow> add_edge src (nd_id phi) slot ''phi_loop'' log)))
              (rw_writes phi) log)
       nodes"

definition build_dag :: "('a segment_scheme) list \<Rightarrow> matrix \<Rightarrow> dag py" where
  "build_dag segments m =
     (let nodes = number_nodes (insert_entries segments (mx_rows m))
      in py_bind (def_use_scan nodes) (\<lambda>log.
         py_bind (back_edges nodes log) (\<lambda>log'.
           Inr \<lparr>dg_nodes = nodes, dg_edges = el_edges log'\<rparr>)))"

section \<open>The edge log as a keyed log\<close>

text \<open>
  An append-only list with at most one entry per key. Pushing a list of entries whose keys
  determine them keeps exactly those entries.
\<close>

locale keyed_log =
  fixes entries :: "'l \<Rightarrow> 'e list"
    and put :: "'e \<Rightarrow> 'l \<Rightarrow> 'l"
    and key :: "'e \<Rightarrow> 'k"
    and valid :: "'l \<Rightarrow> bool"
  assumes valid_put: "valid l \<Longrightarrow> valid (put e l)"
    and entries_put: "valid l \<Longrightarrow>
      entries (put e l) = (if key e \<in> key ` set (entries l) then entries l else entries l @ [e])"
begin

lemma valid_fold: "valid l \<Longrightarrow> valid (fold put es l)"
  by (induction es arbitrary: l) (auto simp: valid_put)

lemma keys_put: "valid l \<Longrightarrow> key ` set (entries (put e l)) = insert (key e) (key ` set (entries l))"
  by (auto simp: entries_put)

lemma distinct_fold:
  "valid l \<Longrightarrow> distinct (map key (entries l)) \<Longrightarrow> distinct (map key (entries (fold put es l)))"
  by (induction es arbitrary: l) (auto simp: valid_put entries_put)

lemma entries_fold_subset: "valid l \<Longrightarrow> set (entries (fold put es l)) \<subseteq> set (entries l) \<union> set es"
proof (induction es arbitrary: l)
  case (Cons e es)
  have "set (entries (put e l)) \<subseteq> insert e (set (entries l))"
    using Cons.prems by (auto simp: entries_put)
  with Cons.IH [OF valid_put [OF Cons.prems], of e] show ?case by auto
qed simp

lemma keys_fold: "valid l \<Longrightarrow> key ` set (entries (fold put es l)) = key ` (set (entries l) \<union> set es)"
  by (induction es arbitrary: l) (auto simp: valid_put keys_put image_Un)

lemma entries_fold:
  assumes "valid l" "inj_on key (set (entries l) \<union> set es)"
  shows "set (entries (fold put es l)) = set (entries l) \<union> set es"
proof -
  let ?S = "set (entries l) \<union> set es" and ?R = "set (entries (fold put es l))"
  have sub: "?R \<subseteq> ?S" and im: "key ` ?R = key ` ?S"
    using entries_fold_subset keys_fold assms(1) by auto
  show ?thesis using inj_on_image_eq_iff [OF assms(2) sub subset_refl] im by simp
qed

end

abbreviation edge_key :: "edge \<Rightarrow> edge_key" where
  "edge_key e \<equiv> (ed_from e, ed_to e, ed_slot e)"

abbreviation put_edge :: "edge \<Rightarrow> edge_log \<Rightarrow> edge_log" where
  "put_edge e \<equiv> add_edge (ed_from e) (ed_to e) (ed_slot e) (ed_kind e)"

abbreviation mk_edge :: "nat \<Rightarrow> nat \<Rightarrow> string \<Rightarrow> string \<Rightarrow> edge" where
  "mk_edge f t s k \<equiv> \<lparr>ed_from = f, ed_to = t, ed_slot = s, ed_kind = k\<rparr>"

definition log_valid :: "edge_log \<Rightarrow> bool" where
  "log_valid l \<longleftrightarrow> el_seen l = edge_key ` set (el_edges l)"

interpretation elog: keyed_log el_edges put_edge edge_key log_valid
  by unfold_locales (auto simp: log_valid_def add_edge_def Let_def)

lemma log_valid_empty [simp]: "log_valid empty_log" "el_edges empty_log = []"
  by (simp_all add: log_valid_def empty_log_def)

section \<open>The edges a graph should have\<close>

text \<open>
  \<open>last_writer ns i s\<close>: the last node before \<open>i\<close> that writes \<open>s\<close>; \<open>scope_writer\<close>: the last one
  whose scope is \<open>sc\<close>; \<open>loop_writer\<close>: the last node after \<open>i\<close> that writes \<open>s\<close> and is
  within the loop of \<open>i\<close>, for a given test of being within.
\<close>

definition last_writer :: "dag_node list \<Rightarrow> nat \<Rightarrow> string \<Rightarrow> nat option" where
  "last_writer ns i s = List.find (\<lambda>j. s \<in> set (rw_writes (ns ! j))) (rev [0..<i])"

definition scope_writer :: "dag_node list \<Rightarrow> nat \<Rightarrow> string \<Rightarrow> string \<Rightarrow> nat option" where
  "scope_writer ns i sc s =
     List.find (\<lambda>j. rw_scope_path (ns ! j) = Some sc \<and> s \<in> set (rw_writes (ns ! j))) (rev [0..<i])"

text \<open>
  The test of the code: the scope path of the node starts, as a string, with the scope path of the phi.
  What it stands for: the node's scope is the scope of the loop or lies inside it, path component by component.
\<close>

definition in_scope_prefix :: "dag_node \<Rightarrow> dag_node \<Rightarrow> bool" where
  "in_scope_prefix phi n =
     (case (rw_scope_path n, rw_scope_path phi) of
        (Some sc, Some p) \<Rightarrow> startswith sc p | _ \<Rightarrow> False)"

definition inside_scope :: "string \<Rightarrow> string \<Rightarrow> bool" where
  "inside_scope sc p \<longleftrightarrow> sc = p \<or> startswith sc (p @ ''.'')"

definition in_loop :: "dag_node \<Rightarrow> dag_node \<Rightarrow> bool" where
  "in_loop phi n =
     (case (rw_scope_path n, rw_scope_path phi) of
        (Some sc, Some p) \<Rightarrow> inside_scope sc p | _ \<Rightarrow> False)"

definition loop_writer :: "(dag_node \<Rightarrow> dag_node \<Rightarrow> bool) \<Rightarrow> dag_node list \<Rightarrow> nat \<Rightarrow> string \<Rightarrow> nat option" where
  "loop_writer within ns i s =
     List.find (\<lambda>j. within (ns ! i) (ns ! j) \<and> s \<in> set (rw_writes (ns ! j)))
       (rev [Suc i..<length ns])"

definition reaching_edges :: "dag_node list \<Rightarrow> nat \<Rightarrow> edge list" where
  "reaching_edges ns i =
     (let n = ns ! i in
      if rw_note n = Some ''branch_reconvergence'' then
        List.map_filter (\<lambda>sc. map_option (\<lambda>j. mk_edge j i (hd (rw_writes n)) ''phi_branch'')
                                (scope_writer ns i sc (hd (rw_writes n)))) (rw_reads n)
      else
        List.map_filter (\<lambda>s. map_option (\<lambda>j. mk_edge j i s
                                (if rw_note n = Some ''loop_entry'' then ''phi_loop'' else ''data_flow''))
                                (last_writer ns i s)) (rw_reads n))"

definition loop_edges :: "(dag_node \<Rightarrow> dag_node \<Rightarrow> bool) \<Rightarrow> dag_node list \<Rightarrow> nat \<Rightarrow> edge list" where
  "loop_edges within ns i =
     (if rw_note (ns ! i) = Some ''loop_entry'' then
        List.map_filter (\<lambda>s. map_option (\<lambda>j. mk_edge j i s ''phi_loop'') (loop_writer within ns i s))
          (rw_writes (ns ! i))
      else [])"

definition dag_edges :: "(dag_node \<Rightarrow> dag_node \<Rightarrow> bool) \<Rightarrow> dag_node list \<Rightarrow> edge set" where
  "dag_edges within ns = (\<Union>i<length ns. set (reaching_edges ns i) \<union> set (loop_edges within ns i))"

lemma last_writer_0 [simp]: "last_writer ns 0 s = None" "scope_writer ns 0 sc s = None"
  by (simp_all add: last_writer_def scope_writer_def)

lemma last_writer_Suc:
  "last_writer ns (Suc i) s = (if s \<in> set (rw_writes (ns ! i)) then Some i else last_writer ns i s)"
  "scope_writer ns (Suc i) sc s =
     (if rw_scope_path (ns ! i) = Some sc \<and> s \<in> set (rw_writes (ns ! i)) then Some i
      else scope_writer ns i sc s)"
  by (simp_all add: last_writer_def scope_writer_def)

lemma last_writer_less:
  "last_writer ns i s = Some j \<Longrightarrow> j < i \<and> s \<in> set (rw_writes (ns ! j))"
  "scope_writer ns i sc s = Some j \<Longrightarrow> j < i \<and> s \<in> set (rw_writes (ns ! j))
     \<and> rw_scope_path (ns ! j) = Some sc"
  by (auto simp: last_writer_def scope_writer_def find_Some_iff rev_nth dest!: sym [of "_ ! _"])

lemma find_Some_mem: "List.find P xs = Some x \<Longrightarrow> x \<in> set xs \<and> P x"
  by (induction xs) (auto split: if_splits)

lemma loop_writer_bounds:
  "loop_writer in_scope_prefix ns i s = Some j \<Longrightarrow> i < j \<and> j < length ns \<and> in_scope_prefix (ns ! i) (ns ! j)
     \<and> s \<in> set (rw_writes (ns ! j))"
  unfolding loop_writer_def by (drule find_Some_mem) auto

lemma set_map_filter_option: "y \<in> set (List.map_filter f xs) \<longleftrightarrow> (\<exists>x\<in>set xs. f x = Some y)"
  by (induction xs) (auto simp: List.map_filter_simps split: option.splits)

lemma reaching_edges_mem:
  assumes "e \<in> set (reaching_edges ns i)"
  shows "ed_from e < i" "ed_to e = i"
    "ed_kind e = (if rw_note (ns ! i) = Some ''branch_reconvergence'' then ''phi_branch''
                  else if rw_note (ns ! i) = Some ''loop_entry'' then ''phi_loop'' else ''data_flow'')"
    "ed_slot e \<in> set (rw_writes (ns ! ed_from e))"
  using assms
  by (auto simp: reaching_edges_def Let_def set_map_filter_option dest: last_writer_less
           split: if_splits)

lemma loop_edges_mem:
  assumes "e \<in> set (loop_edges in_scope_prefix ns i)"
  shows "i < ed_from e" "ed_from e < length ns" "ed_to e = i" "ed_kind e = ''phi_loop''"
    "rw_note (ns ! i) = Some ''loop_entry''" "in_scope_prefix (ns ! i) (ns ! ed_from e)"
    "ed_slot e \<in> set (rw_writes (ns ! ed_from e))"
  using assms
  by (auto simp: loop_edges_def set_map_filter_option dest: loop_writer_bounds split: if_splits)

lemma dag_edges_kind:
  assumes "e \<in> set (reaching_edges ns i) \<or> e \<in> set (loop_edges in_scope_prefix ns i)"
  shows "ed_to e = i"
    "ed_kind e = (if rw_note (ns ! i) = Some ''branch_reconvergence'' then ''phi_branch''
                  else if rw_note (ns ! i) = Some ''loop_entry'' then ''phi_loop'' else ''data_flow'')"
  using assms
  by (auto simp: reaching_edges_mem(2,3) loop_edges_mem(3-5))

lemma inj_on_dag_edges: "inj_on edge_key (dag_edges in_scope_prefix ns)"
proof (rule inj_onI)
  fix e e' assume e: "e \<in> dag_edges in_scope_prefix ns" and e': "e' \<in> dag_edges in_scope_prefix ns"
    and k: "edge_key e = edge_key e'"
  obtain i i' where i: "e \<in> set (reaching_edges ns i) \<or> e \<in> set (loop_edges in_scope_prefix ns i)"
      and i': "e' \<in> set (reaching_edges ns i') \<or> e' \<in> set (loop_edges in_scope_prefix ns i')"
    using e e' by (auto simp: dag_edges_def)
  with k have "i = i'" by (simp add: dag_edges_kind(1))
  then have "ed_kind e = ed_kind e'" using dag_edges_kind(2) [OF i] dag_edges_kind(2) [OF i'] by simp
  with k show "e = e'" by (cases e; cases e') simp
qed

section \<open>The scan implements the description\<close>

definition numbered :: "dag_node list \<Rightarrow> bool" where
  "numbered ns \<longleftrightarrow> (\<forall>i<length ns. nd_id (ns ! i) = i)"

definition node_ok :: "'a row_scheme \<Rightarrow> bool" where
  "node_ok r \<longleftrightarrow> (rw_note r = Some ''branch_reconvergence'' \<longrightarrow> rw_writes r \<noteq> [])
     \<and> (rw_note r = Some ''loop_entry'' \<longrightarrow> rw_scope_path r \<noteq> None)"

lemma scan_writes_tables:
  "sc_last (scan_writes n st) x = (if x \<in> set (rw_writes n) then Some (nd_id n) else sc_last st x)"
  "sc_scope_last (scan_writes n st) (sc, x) =
     (if rw_scope_path n = Some sc \<and> x \<in> set (rw_writes n) then Some (nd_id n)
      else sc_scope_last st (sc, x))"
  "sc_log (scan_writes n st) = sc_log st"
proof -
  have "sc_last (fold (\<lambda>slot s. s\<lparr>sc_last := (sc_last s)(slot \<mapsto> nd_id n), sc_scope_last :=
             (case rw_scope_path n of None \<Rightarrow> sc_scope_last s
              | Some sc \<Rightarrow> (sc_scope_last s)((sc, slot) \<mapsto> nd_id n))\<rparr>) ws st) x
        = (if x \<in> set ws then Some (nd_id n) else sc_last st x)"
    and "sc_scope_last (fold (\<lambda>slot s. s\<lparr>sc_last := (sc_last s)(slot \<mapsto> nd_id n), sc_scope_last :=
             (case rw_scope_path n of None \<Rightarrow> sc_scope_last s
              | Some sc \<Rightarrow> (sc_scope_last s)((sc, slot) \<mapsto> nd_id n))\<rparr>) ws st) (sc, x)
        = (if rw_scope_path n = Some sc \<and> x \<in> set ws then Some (nd_id n)
           else sc_scope_last st (sc, x))"
    and "sc_log (fold (\<lambda>slot s. s\<lparr>sc_last := (sc_last s)(slot \<mapsto> nd_id n), sc_scope_last :=
             (case rw_scope_path n of None \<Rightarrow> sc_scope_last s
              | Some sc \<Rightarrow> (sc_scope_last s)((sc, slot) \<mapsto> nd_id n))\<rparr>) ws st) = sc_log st"
    for ws
    by (induction ws arbitrary: st) (auto split: option.splits)
  then show "sc_last (scan_writes n st) x =
        (if x \<in> set (rw_writes n) then Some (nd_id n) else sc_last st x)"
    and "sc_scope_last (scan_writes n st) (sc, x) =
        (if rw_scope_path n = Some sc \<and> x \<in> set (rw_writes n) then Some (nd_id n)
         else sc_scope_last st (sc, x))"
    and "sc_log (scan_writes n st) = sc_log st"
    by (simp_all only: scan_writes_def)
qed

lemma fold_add_edges:
  "fold (\<lambda>x log. case f x of None \<Rightarrow> log | Some src \<Rightarrow> add_edge src t (g x) k log) xs log
   = fold put_edge (List.map_filter (\<lambda>x. map_option (\<lambda>j. mk_edge j t (g x) k) (f x)) xs) log"
  by (induction xs arbitrary: log) (auto simp: List.map_filter_simps split: option.splits)

lemma scan_reads_edges:
  assumes "node_ok (ns ! i)" "nd_id (ns ! i) = i"
    and "\<And>x. sc_last s x = last_writer ns i x"
    and "\<And>sc x. sc_scope_last s (sc, x) = scope_writer ns i sc x"
  shows "scan_reads (ns ! i) s = Inr (fold put_edge (reaching_edges ns i) (sc_log s))"
proof (cases "rw_note (ns ! i) = Some ''branch_reconvergence''")
  case True
  then obtain w ws where "rw_writes (ns ! i) = w # ws"
    using assms(1) by (cases "rw_writes (ns ! i)") (auto simp: node_ok_def)
  with True assms show ?thesis
    by (simp add: scan_reads_def reaching_edges_def fold_add_edges [where g = "\<lambda>_. w"])
next
  case False
  with assms show ?thesis
    by (simp add: scan_reads_def reaching_edges_def fold_add_edges [where g = "\<lambda>x. x"])
qed

lemma scan_prefix:
  assumes "numbered ns" "\<forall>n\<in>set ns. node_ok n" "k \<le> length ns"
  shows "\<exists>s. py_fold scan_node (take k ns)
        \<lparr>sc_log = empty_log, sc_last = Map.empty, sc_scope_last = Map.empty\<rparr> = Inr s
      \<and> sc_log s = fold put_edge (concat (map (reaching_edges ns) [0..<k])) empty_log
      \<and> (\<forall>x. sc_last s x = last_writer ns k x)
      \<and> (\<forall>sc x. sc_scope_last s (sc, x) = scope_writer ns k sc x)"
  using assms(3)
proof (induction k)
  case (Suc k)
  let ?s0 = "\<lparr>sc_log = empty_log, sc_last = Map.empty, sc_scope_last = Map.empty\<rparr>"
  obtain s where s: "py_fold scan_node (take k ns) ?s0 = Inr s"
      "sc_log s = fold put_edge (concat (map (reaching_edges ns) [0..<k])) empty_log"
      "\<And>x. sc_last s x = last_writer ns k x"
      "\<And>sc x. sc_scope_last s (sc, x) = scope_writer ns k sc x"
    using Suc by auto
  have k: "node_ok (ns ! k)" "nd_id (ns ! k) = k" "take (Suc k) ns = take k ns @ [ns ! k]"
    using Suc.prems assms(1,2) by (auto simp: numbered_def take_Suc_conv_app_nth)
  have r: "scan_reads (ns ! k) s = Inr (fold put_edge (reaching_edges ns k) (sc_log s))"
    by (rule scan_reads_edges [OF k(1,2) s(3,4)])
  then have step: "scan_node (ns ! k) s =
      Inr (scan_writes (ns ! k) (s\<lparr>sc_log := fold put_edge (reaching_edges ns k) (sc_log s)\<rparr>))"
    by (simp add: scan_node_def)
  show ?case
    using s k(2) by (simp add: k(3) py_fold_append step scan_writes_tables last_writer_Suc)
qed simp

lemma def_use_scan_edges:
  assumes "numbered ns" "\<forall>n\<in>set ns. node_ok n"
  shows "def_use_scan ns
    = Inr (fold put_edge (concat (map (reaching_edges ns) [0..<length ns])) empty_log)"
  using scan_prefix [OF assms order_refl] by (auto simp: def_use_scan_def)

lemma last_in_loop_append:
  "last_in_loop phi slot acc (xs @ ys)
     = py_bind (last_in_loop phi slot acc xs) (\<lambda>acc. last_in_loop phi slot acc ys)"
  by (induction xs arbitrary: acc) (auto split: option.splits)

lemma last_in_loop_writer:
  assumes "numbered ns" "i < length ns" "rw_scope_path (ns ! i) = Some p" "k \<le> length ns"
  shows "last_in_loop (ns ! i) slot None (take k ns) =
    Inr (List.find (\<lambda>j. in_scope_prefix (ns ! i) (ns ! j) \<and> slot \<in> set (rw_writes (ns ! j))) (rev [Suc i..<k]))"
  using assms(4)
proof (induction k)
  case (Suc k)
  have k: "nd_id (ns ! k) = k" "nd_id (ns ! i) = i" "take (Suc k) ns = take k ns @ [ns ! k]"
    using Suc.prems assms(1,2) by (auto simp: numbered_def take_Suc_conv_app_nth)
  show ?case
    using Suc assms(3) k(1,2)
    by (cases "i < k"; cases "rw_scope_path (ns ! k)")
       (auto simp: k(3) last_in_loop_append in_scope_prefix_def)
qed simp

lemma py_fold_edges:
  "py_fold (\<lambda>x log. Inr (case f x of None \<Rightarrow> log | Some src \<Rightarrow> add_edge src t x k log)) xs log
   = Inr (fold put_edge (List.map_filter (\<lambda>x. map_option (\<lambda>j. mk_edge j t x k) (f x)) xs) log)"
  by (simp add: py_fold_pure fold_add_edges [where g = "\<lambda>x. x"])

lemma back_edges_edges:
  assumes "numbered ns" "\<forall>n\<in>set ns. node_ok n"
  shows "back_edges ns log = Inr (fold put_edge (concat (map (loop_edges in_scope_prefix ns) [0..<length ns])) log)"
proof -
  let ?body = "\<lambda>phi log. if rw_note phi \<noteq> Some ''loop_entry'' then Inr log
         else py_fold (\<lambda>slot log. py_bind (last_in_loop phi slot None ns) (\<lambda>r.
                  Inr (case r of None \<Rightarrow> log
                       | Some src \<Rightarrow> add_edge src (nd_id phi) slot ''phi_loop'' log)))
              (rw_writes phi) log"
  have body: "?body (ns ! i) l = Inr (fold put_edge (loop_edges in_scope_prefix ns i) l)" if i: "i < length ns" for i l
  proof (cases "rw_note (ns ! i) = Some ''loop_entry''")
    case True
    then obtain p where p: "rw_scope_path (ns ! i) = Some p"
      using assms(2) i by (fastforce simp: node_ok_def)
    have "last_in_loop (ns ! i) slot None ns = Inr (loop_writer in_scope_prefix ns i slot)" for slot
      using last_in_loop_writer [OF assms(1) i p order_refl] by (simp add: loop_writer_def)
    then show ?thesis
      using True assms(1) i by (simp add: py_fold_edges loop_edges_def numbered_def)
  qed (simp add: loop_edges_def)
  have "py_fold ?body (map (\<lambda>i. ns ! i) is) log
      = Inr (fold put_edge (concat (map (loop_edges in_scope_prefix ns) is)) log)"
    if "set is \<subseteq> {..<length ns}" for "is"
    using that by (induction "is" arbitrary: log) (auto simp: body)
  from this [of "[0..<length ns]"] show ?thesis
    by (simp add: back_edges_def map_nth atLeast0LessThan)
qed

section \<open>Positions of the entry nodes\<close>

lemma number_nodes_nth:
  "i < length rs \<Longrightarrow> number_nodes rs ! i = number_node i (rs ! i)"
  by (simp add: number_nodes_def nth_enumerate_eq)

lemma length_number_nodes [simp]: "length (number_nodes rs) = length rs"
  by (simp add: number_nodes_def)

lemma number_node_sel [simp]:
  "nd_id (number_node i r) = i" "rw_kind (number_node i r) = rw_kind r"
  "rw_seg_id (number_node i r) = rw_seg_id r" "rw_scope_path (number_node i r) = rw_scope_path r"
  "rw_raw (number_node i r) = rw_raw r" "rw_reads (number_node i r) = rw_reads r"
  "rw_writes (number_node i r) = rw_writes r" "rw_decls (number_node i r) = rw_decls r"
  "rw_note (number_node i r) = rw_note r" "rw_expr (number_node i r) = rw_expr r"
  by (simp_all add: number_node_def row.extend_def)

lemma truncate_number_node [simp]: "row.truncate (number_node i r) = r"
  by (simp add: number_node_def row.extend_def row.truncate_def)

lemma numbered_number_nodes [simp]: "numbered (number_nodes rs)"
  by (simp add: numbered_def number_nodes_nth)

lemma truncate_number_nodes: "map row.truncate (number_nodes rs) = rs"
  by (rule nth_equalityI) (simp_all add: number_nodes_nth)

lemma list_insert_append: "i \<le> length ys \<Longrightarrow> list_insert i x (ys @ zs) = list_insert i x ys @ zs"
  by (simp add: list_insert_def)

lemma length_list_insert [simp]: "length (list_insert i x xs) = Suc (length xs)"
  by (simp add: list_insert_def)

abbreviation insert_all :: "(nat \<times> 'a) list \<Rightarrow> 'a list \<Rightarrow> 'a list" where
  "insert_all ps xs \<equiv> fold (\<lambda>(i, x). list_insert i x) ps xs"

lemma mset_insert_all: "mset (insert_all ps xs) = mset (map snd ps) + mset xs"
proof (induction ps arbitrary: xs)
  case (Cons p ps)
  have "mset xs = mset (take (fst p) xs) + mset (drop (fst p) xs)"
    by (metis append_take_drop_id mset_append)
  with Cons show ?case by (auto simp: list_insert_def split: prod.split)
qed simp

lemma insert_all_append:
  "\<forall>p\<in>set ps. fst p \<le> length ys \<Longrightarrow> insert_all ps (ys @ zs) = insert_all ps ys @ zs"
proof (induction ps arbitrary: ys)
  case (Cons p ps)
  have "\<forall>q\<in>set ps. fst q \<le> length (list_insert (fst p) (snd p) ys)"
    using Cons.prems by (auto intro: le_SucI)
  from Cons.IH [OF this] Cons.prems show ?case by (auto simp: list_insert_append split: prod.split)
qed simp

text \<open>With positions in descending order every element lands right before the original one.\<close>

lemma insert_all_split:
  assumes "sorted (map (\<lambda>p. - int (fst p)) ps)" "\<forall>p\<in>set ps. fst p \<le> length xs" "(i, x) \<in> set ps"
  shows "\<exists>A C. insert_all ps xs = A @ x # C \<and> set A \<subseteq> set (take i xs) \<union> set (map snd ps)
    \<and> set (drop i xs) \<subseteq> set C"
  using assms
proof (induction ps arbitrary: xs)
  case (Cons p ps)
  obtain q y where p: "p = (q, y)" by (cases p)
  have q: "q \<le> length xs" "\<forall>r\<in>set ps. fst r \<le> q"
    using Cons.prems(1,2) by (auto simp: p)
  then have eq: "insert_all (p # ps) xs = insert_all ps (take q xs) @ y # drop q xs"
    using insert_all_append [where ps = ps and ys = "take q xs" and zs = "y # drop q xs"] by (simp add: p list_insert_def)
  have first: "set (insert_all ps (take q xs)) \<subseteq> set (take q xs) \<union> snd ` set ps"
    using arg_cong [OF mset_insert_all [where ps = ps and xs = "take q xs"], of set_mset] by auto
  show ?case
  proof (cases "(i, x) \<in> set ps")
    case False
    with Cons.prems(3) have "i = q" "x = y" by (simp_all add: p)
    with eq first show ?thesis by (fastforce simp: p)
  next
    case True
    have s: "sorted (map (\<lambda>p. - int (fst p)) ps)" "\<forall>r\<in>set ps. fst r \<le> length (take q xs)"
      using Cons.prems(1) q by auto
    from Cons.IH [OF s True] obtain A C
      where AC: "insert_all ps (take q xs) = A @ x # C"
        "set A \<subseteq> set (take i (take q xs)) \<union> set (map snd ps)"
        "set (drop i (take q xs)) \<subseteq> set C" by blast
    have "i \<le> q" using q(2) True by fastforce
    then have t: "take i (take q xs) = take i xs" by (simp add: min_def)
    have d: "drop i xs = drop i (take q xs) @ drop q xs"
      using q(1) \<open>i \<le> q\<close> drop_append [of i "take q xs" "drop q xs"] by simp
    have "insert_all (p # ps) xs = A @ x # (C @ y # drop q xs)"
      unfolding eq AC(1) by simp
    moreover have "set A \<subseteq> set (take i xs) \<union> set (map snd (p # ps))"
      using AC(2) unfolding t by auto
    moreover have "set (drop i xs) \<subseteq> set (C @ y # drop q xs)"
      using AC(3) unfolding d by auto
    ultimately have "insert_all (p # ps) xs = A @ x # (C @ y # drop q xs)
        \<and> set A \<subseteq> set (take i xs) \<union> set (map snd (p # ps))
        \<and> set (drop i xs) \<subseteq> set (C @ y # drop q xs)" by blast
    then show ?thesis by blast
  qed
qed simp

lemma first_row_for_seg_spec:
  "case dict_get (first_row_for_seg raw) sid of
     None \<Rightarrow> \<forall>r\<in>set raw. rw_seg_id r \<noteq> Some sid
   | Some i \<Rightarrow> i < length raw \<and> rw_seg_id (raw ! i) = Some sid
       \<and> (\<forall>r\<in>set (take i raw). rw_seg_id r \<noteq> Some sid)"
proof (induction raw rule: rev_induct)
  case Nil
  show ?case by (simp add: first_row_for_seg_def)
next
  case (snoc x xs)
  let ?d = "first_row_for_seg xs"
  have step: "first_row_for_seg (xs @ [x]) = (case rw_seg_id x of None \<Rightarrow> ?d
      | Some s \<Rightarrow> if s \<in> set (dict_keys ?d) then ?d else dict_set s (length xs) ?d)"
    unfolding first_row_for_seg_def by (simp add: enumerate_append_eq)
  have mem: "s \<in> fst ` set ?d \<longleftrightarrow> dict_get ?d s \<noteq> None" for s
    by (metis map_of_eq_None_iff)
  have seg: "rw_seg_id x = Some sid \<or> rw_seg_id x \<noteq> Some sid \<and>
      dict_get (first_row_for_seg (xs @ [x])) sid = dict_get ?d sid"
    by (auto simp: step update_conv' split: option.split)
  show ?case
  proof (cases "rw_seg_id x = Some sid")
    case False
    with seg snoc.IH show ?thesis by (auto simp: nth_append split: option.splits)
  next
    case True
    then have "dict_get (first_row_for_seg (xs @ [x])) sid
        = (case dict_get ?d sid of None \<Rightarrow> Some (length xs) | Some i \<Rightarrow> Some i)"
      by (simp add: step mem update_conv' split: option.split)
    with True snoc.IH show ?thesis by (auto simp: nth_append split: option.splits)
  qed
qed

lemma mset_insert_entries:
  "mset (insert_entries segments raw) = mset (map make_entry_node (entry_segs segments)) + mset raw"
proof -
  have "mset (map snd (entry_insertions segments raw))
      = image_mset snd (mset (map (\<lambda>seg. (case dict_get (first_row_for_seg raw) (sg_id seg) of
            None \<Rightarrow> length raw | Some i \<Rightarrow> i, make_entry_node seg)) (entry_segs segments)))"
    by (simp add: entry_insertions_def)
  also have "\<dots> = mset (map make_entry_node (entry_segs segments))"
    by (simp add: image_mset.compositionality o_def)
  finally show ?thesis by (simp add: insert_entries_def mset_insert_all)
qed

lemma set_insert_entries:
  "set (insert_entries segments raw) = make_entry_node ` set (entry_segs segments) \<union> set raw"
  using arg_cong [OF mset_insert_entries [of segments raw], of set_mset] by simp

lemma insert_entries_split:
  fixes segments :: "('a segment_scheme) list"
  assumes "seg \<in> set (entry_segs segments)"
  shows "\<exists>A C. insert_entries segments raw = A @ make_entry_node seg # C
    \<and> (\<forall>r\<in>set A. rw_seg_id r = Some (sg_id seg) \<longrightarrow> r \<in> make_entry_node ` set (entry_segs segments))"
proof -
  let ?i = "case dict_get (first_row_for_seg raw) (sg_id seg) of None \<Rightarrow> length raw | Some i \<Rightarrow> i"
  have spec: "?i \<le> length raw" "\<forall>r\<in>set (take ?i raw). rw_seg_id r \<noteq> Some (sg_id seg)"
    using first_row_for_seg_spec [of raw "sg_id seg"] by (auto split: option.splits)
  have le: "fst p \<le> length raw" if "p \<in> set (entry_insertions segments raw)" for p
  proof -
    from that have "fst p \<in> fst ` set (entry_insertions segments raw)" by simp
    then have "\<exists>s. fst p = (case dict_get (first_row_for_seg raw) (sg_id (s :: 'a segment_scheme)) of
        None \<Rightarrow> length raw | Some i \<Rightarrow> i)"
      unfolding entry_insertions_def Let_def set_sort set_map image_image by (simp add: image_iff) blast
    then obtain s :: "'a segment_scheme" where "fst p = (case dict_get (first_row_for_seg raw) (sg_id s) of
        None \<Rightarrow> length raw | Some i \<Rightarrow> i)" ..
    then show ?thesis
      using first_row_for_seg_spec [of raw "sg_id s"] by (auto split: option.splits)
  qed
  have mem: "(?i, make_entry_node seg) \<in> set (entry_insertions segments raw)"
    using assms by (auto simp: entry_insertions_def)
  have "sorted (map (\<lambda>p. - int (fst p)) (entry_insertions segments raw))"
    by (simp add: entry_insertions_def Let_def del: map_map)
  from insert_all_split [OF this _ mem, of raw] le obtain A C
    where AC: "insert_entries segments raw = A @ make_entry_node seg # C"
      "set A \<subseteq> set (take ?i raw) \<union> set (map snd (entry_insertions segments raw))"
    by (auto simp: insert_entries_def)
  have "snd ` set (entry_insertions segments raw) = make_entry_node ` set (entry_segs segments)"
    by (auto simp: entry_insertions_def image_image)
  with AC spec(2) show ?thesis
    by (intro exI [of _ A] exI [of _ C]) auto
qed

section \<open>The graph\<close>

lemma node_ok_nodes:
  assumes "\<forall>r\<in>set rows. node_ok r"
  shows "\<forall>n\<in>set (number_nodes (insert_entries segments rows)). node_ok n"
proof
  fix n assume "n \<in> set (number_nodes (insert_entries segments rows))"
  then obtain i where i: "i < length (insert_entries segments rows)"
      "n = number_node i (insert_entries segments rows ! i)"
    by (auto simp: in_set_conv_nth number_nodes_nth)
  then have "insert_entries segments rows ! i \<in> make_entry_node ` set (entry_segs segments) \<union> set rows"
    using set_insert_entries nth_mem by metis
  with assms show "node_ok n"
    by (auto simp: i(2) node_ok_def make_entry_node_def Let_def)
qed

lemma build_dag_result:
  fixes m segments
  defines "nodes \<equiv> number_nodes (insert_entries segments (mx_rows m))"
  assumes "\<forall>r\<in>set (mx_rows m). node_ok r"
  shows "build_dag segments m = Inr \<lparr>dg_nodes = nodes,
    dg_edges = el_edges (fold put_edge (concat (map (reaching_edges nodes) [0..<length nodes])
                                        @ concat (map (loop_edges in_scope_prefix nodes) [0..<length nodes])) empty_log)\<rparr>"
proof -
  have ok: "\<forall>n\<in>set nodes. node_ok n" "numbered nodes"
    using node_ok_nodes assms by (auto simp: nodes_def)
  show ?thesis
    by (simp add: build_dag_def nodes_def [symmetric] def_use_scan_edges ok back_edges_edges)
qed

lemma edges_of_requests:
  "set (el_edges (fold put_edge (concat (map (reaching_edges ns) [0..<length ns])
         @ concat (map (loop_edges in_scope_prefix ns) [0..<length ns])) empty_log)) = dag_edges in_scope_prefix ns"
proof -
  let ?rs = "concat (map (reaching_edges ns) [0..<length ns]) @ concat (map (loop_edges in_scope_prefix ns) [0..<length ns])"
  have "set ?rs = dag_edges in_scope_prefix ns" by (auto simp: dag_edges_def)
  then show ?thesis using elog.entries_fold [of empty_log ?rs] inj_on_dag_edges by simp
qed

lemma row_wf_node_ok: "row_wf idx r \<Longrightarrow> node_ok r"
  by (auto simp: row_wf_def node_ok_def split: option.splits)

lemma matrix_rows_node_ok:
  "build_matrix fuel segments = Inr m \<Longrightarrow> \<forall>r\<in>set (mx_rows m). node_ok r"
  using matrix_rows_wf row_wf_node_ok by blast

lemma build_dag_cases:
  assumes "build_dag segments m = Inr d" "\<forall>r\<in>set (mx_rows m). node_ok r"
  shows "dg_nodes d = number_nodes (insert_entries segments (mx_rows m))"
    and "set (dg_edges d) = dag_edges in_scope_prefix (dg_nodes d)"
    and "distinct (map edge_key (dg_edges d))"
proof -
  let ?ns = "number_nodes (insert_entries segments (mx_rows m))"
  from assms(1) build_dag_result [OF assms(2), of segments]
  have d: "d = \<lparr>dg_nodes = ?ns, dg_edges = el_edges (fold put_edge
      (concat (map (reaching_edges ?ns) [0..<length ?ns])
       @ concat (map (loop_edges in_scope_prefix ?ns) [0..<length ?ns])) empty_log)\<rparr>" by simp
  show "dg_nodes d = ?ns" by (simp only: d dag.select_convs)
  show "set (dg_edges d) = dag_edges in_scope_prefix (dg_nodes d)"
    by (simp only: d dag.select_convs edges_of_requests)
  show "distinct (map edge_key (dg_edges d))"
    by (simp only: d dag.select_convs) (rule elog.distinct_fold; simp)
qed

definition sample_branch_segments :: "segment list" where
  "sample_branch_segments =
    [sample_seg 0 0 ''root'' ''root'' ''root'' [] [] [],
     sample_seg 1 0 ''function'' ''f'' ''root.f''
       [sample_slot ''a'' ''root.f.a'' False True, sample_slot ''x'' ''root.f.x'' False False] []
       [sample_stmt ''int x = a;'' ''decl'' (Some ''x'') [''a''],
        sample_stmt ''if (a)'' ''branch'' None [''a''],
        sample_stmt ''return x;'' ''return'' None [''x'']],
     sample_seg 2 1 ''branch'' ''branch_1'' ''root.f.branch_1'' [] []
       [sample_stmt ''x = 0;'' ''assign'' (Some ''x'') []]]"

subsection \<open>Loops whose path no other path continues\<close>

text \<open>
  The condition under which the comparison of paths as strings is the comparison of scopes: a scope path
  of a row or a segment that starts with the path of a loop is that path or continues it at a dot.
\<close>

definition loops_apart :: "'a segment_scheme list \<Rightarrow> matrix \<Rightarrow> bool" where
  "loops_apart segments m =
     list_all (\<lambda>phi. rw_note phi = Some ''loop_entry'' \<longrightarrow>
       (case rw_scope_path phi of None \<Rightarrow> True | Some p \<Rightarrow>
          list_all (\<lambda>sc. startswith sc p \<longrightarrow> inside_scope sc p)
            (List.map_filter rw_scope_path (mx_rows m) @ map sg_scope_path segments))) (mx_rows m)"

lemma inside_scope_startswith: "inside_scope sc p \<Longrightarrow> startswith sc p"
  by (auto simp: inside_scope_def startswith_def take_Suc_conv_app_nth min_def
      dest!: arg_cong [of _ "p @ ''.''" "take (length p)"])

lemma in_loop_prefix: "in_loop phi n \<Longrightarrow> in_scope_prefix phi n"
  by (auto simp: in_loop_def in_scope_prefix_def inside_scope_startswith split: option.splits)

lemma loop_edges_cong:
  assumes "\<And>n. rw_note (ns ! i) = Some ''loop_entry'' \<Longrightarrow> n \<in> set ns \<Longrightarrow> P (ns ! i) n = Q (ns ! i) n"
  shows "loop_edges P ns i = loop_edges Q ns i"
proof (cases "rw_note (ns ! i) = Some ''loop_entry''")
  case True
  have "loop_writer P ns i s = loop_writer Q ns i s" for s
    unfolding loop_writer_def using assms [OF True] by (intro find_cong) auto
  then show ?thesis by (simp add: loop_edges_def)
qed (simp add: loop_edges_def)

lemma node_origin:
  assumes "n \<in> set (number_nodes (insert_entries segments rows))"
  obtains r where "r \<in> make_entry_node ` set (entry_segs segments) \<union> set rows"
    "rw_note n = rw_note r" "rw_scope_path n = rw_scope_path r"
proof -
  from assms obtain i where i: "i < length (insert_entries segments rows)"
      "n = number_node i (insert_entries segments rows ! i)"
    by (auto simp: in_set_conv_nth number_nodes_nth)
  with nth_mem [OF i(1)] that [of "insert_entries segments rows ! i"] show thesis
    by (simp add: set_insert_entries)
qed

lemma node_scope:
  assumes "n \<in> set (number_nodes (insert_entries segments (mx_rows m)))" "rw_scope_path n = Some sc"
  shows "sc \<in> set (List.map_filter rw_scope_path (mx_rows m) @ map sg_scope_path segments)"
  using assms
  by (elim node_origin) (auto simp: make_entry_node_def Let_def entry_segs_def set_map_filter_option)

lemma loop_phi_is_row:
  assumes "n \<in> set (number_nodes (insert_entries segments (mx_rows m)))" "rw_note n = Some ''loop_entry''"
  shows "\<exists>r\<in>set (mx_rows m). rw_note r = Some ''loop_entry'' \<and> rw_scope_path r = rw_scope_path n"
  using assms by (elim node_origin) (auto simp: make_entry_node_def Let_def)

lemma loops_apart_in_loop:
  assumes "loops_apart segments m" "phi \<in> set ns" "n \<in> set ns" "rw_note phi = Some ''loop_entry''"
    and ns: "ns = number_nodes (insert_entries segments (mx_rows m))"
  shows "in_scope_prefix phi n = in_loop phi n"
proof (cases "rw_scope_path phi"; cases "rw_scope_path n")
  fix p sc assume p: "rw_scope_path phi = Some p" and sc: "rw_scope_path n = Some sc"
  obtain r where r: "r \<in> set (mx_rows m)" "rw_note r = Some ''loop_entry''" "rw_scope_path r = Some p"
    using loop_phi_is_row assms(2,4) p unfolding ns by metis
  have "startswith sc p \<Longrightarrow> inside_scope sc p"
    using assms(1) r node_scope [OF assms(3) [unfolded ns] sc]
    by (fastforce simp: loops_apart_def list_all_iff)
  then show ?thesis
    using inside_scope_startswith by (auto simp: in_scope_prefix_def in_loop_def p sc)
qed (auto simp: in_scope_prefix_def in_loop_def split: option.splits)

lemma loops_apart_edges:
  assumes "loops_apart segments m"
  shows "dag_edges in_scope_prefix (number_nodes (insert_entries segments (mx_rows m)))
    = dag_edges in_loop (number_nodes (insert_entries segments (mx_rows m)))"
proof -
  define ns where "ns = number_nodes (insert_entries segments (mx_rows m))"
  have "loop_edges in_scope_prefix ns i = loop_edges in_loop ns i" if "i < length ns" for i
    using loops_apart_in_loop [OF assms _ _ _ ns_def] nth_mem [OF that] by (intro loop_edges_cong) blast
  then show ?thesis unfolding ns_def [symmetric] dag_edges_def by (intro SUP_cong) auto
qed

lemma forward_dag_edges:
  "{e \<in> dag_edges in_scope_prefix ns. ed_from e < ed_to e} = (\<Union>i<length ns. set (reaching_edges ns i))"
proof -
  have "\<not> ed_from e < ed_to e" if "e \<in> set (loop_edges in_scope_prefix ns i)" for e i
    using loop_edges_mem(1,3) [OF that] by simp
  moreover have "ed_from e < ed_to e" if "e \<in> set (reaching_edges ns i)" for e i
    using reaching_edges_mem(1,2) [OF that] by simp
  ultimately show ?thesis unfolding dag_edges_def by blast
qed

section \<open>Properties\<close>

text \<open>
  C1. On every matrix whose phi rows are well formed, \<open>build_dag\<close> returns a graph without a repeated
  edge. Its forward edges are always the declarative ones: a read is joined to the last earlier writer of
  the slot, a reconvergence phi to the last earlier writer in each branch scope. When no scope path
  continues the path of a loop other than at a dot, all its edges are the declarative ones with the loop
  meant by the program: a loop phi also takes the last writer inside the loop body. Without that
  condition the code is wrong, since it compares the paths as strings: from ten loops in a block on,
  \<open>loop_1\<close> also takes the writes of \<open>loop_10\<close> (\<open>loop_takes_writes_of_its_sibling\<close>).
\<close>
theorem build_dag_reaching_definitions:
  assumes "\<forall>r\<in>set (mx_rows m). node_ok r"
  shows "\<exists>d. build_dag segments m = Inr d \<and> distinct (map edge_key (dg_edges d))
     \<and> {e \<in> set (dg_edges d). ed_from e < ed_to e}
         = (\<Union>i<length (dg_nodes d). set (reaching_edges (dg_nodes d) i))
     \<and> (loops_apart segments m \<longrightarrow> set (dg_edges d) = dag_edges in_loop (dg_nodes d))"
proof -
  obtain d where d: "build_dag segments m = Inr d"
    using build_dag_result [OF assms] by blast
  note cases = build_dag_cases [OF d assms]
  have "set (dg_edges d) = dag_edges in_loop (dg_nodes d)" if "loops_apart segments m"
    using that cases(1,2) loops_apart_edges by simp
  then show ?thesis using d cases(3) forward_dag_edges [of "dg_nodes d"] by (auto simp: cases(2))
qed

theorem build_dag_reaching_definitions_witness:
  "\<exists>m d. build_matrix 5 sample_segments = Inr m \<and> build_dag sample_segments m = Inr d
     \<and> set (dg_edges d) = dag_edges in_loop (dg_nodes d)"
proof -
  have "case build_matrix 5 sample_segments of Inr m \<Rightarrow> loops_apart sample_segments m | Inl _ \<Rightarrow> False"
    by code_simp
  then obtain m where m: "build_matrix 5 sample_segments = Inr m" "loops_apart sample_segments m"
    by (auto split: sum.splits)
  show ?thesis
    using build_dag_reaching_definitions [OF matrix_rows_node_ok [OF m(1)], of sample_segments] m by blast
qed

text \<open>
  The nodes are the matrix rows plus one entry node for each function, root and struct segment,
  with ids equal to their positions, and nothing that belongs to a segment stands before its entry
  node except entry nodes.
\<close>
lemma build_dag_nodes:
  assumes "build_dag segments m = Inr d" "\<forall>r\<in>set (mx_rows m). node_ok r"
  shows "(\<forall>i<length (dg_nodes d). nd_id (dg_nodes d ! i) = i)
    \<and> mset (map row.truncate (dg_nodes d))
        = mset (map make_entry_node (entry_segs segments)) + mset (mx_rows m)
    \<and> (\<forall>seg\<in>set (entry_segs segments). \<exists>A C.
         map row.truncate (dg_nodes d) = A @ make_entry_node seg # C
         \<and> (\<forall>r\<in>set A. rw_seg_id r = Some (sg_id seg)
                \<longrightarrow> r \<in> make_entry_node ` set (entry_segs segments)))"
proof (intro conjI ballI)
  note ns = build_dag_cases(1) [OF assms]
  show "\<forall>i<length (dg_nodes d). nd_id (dg_nodes d ! i) = i"
    using numbered_number_nodes by (simp add: ns numbered_def)
  show "mset (map row.truncate (dg_nodes d))
      = mset (map make_entry_node (entry_segs segments)) + mset (mx_rows m)"
    by (simp only: ns truncate_number_nodes mset_insert_entries)
  show "\<exists>A C. map row.truncate (dg_nodes d) = A @ make_entry_node seg # C
         \<and> (\<forall>r\<in>set A. rw_seg_id r = Some (sg_id seg)
                \<longrightarrow> r \<in> make_entry_node ` set (entry_segs segments))"
    if "seg \<in> set (entry_segs segments)" for seg
    unfolding ns truncate_number_nodes by (rule insert_entries_split [OF that])
qed

text \<open>
  The only edges against program order are loop back edges: every edge runs from an earlier to a
  later node that reads its slot's value, or is a \<open>phi_loop\<close> edge into a loop-entry phi from a
  node whose scope extends the phi's. The source of an edge writes the slot the edge carries.
\<close>
lemma build_dag_edge_direction:
  assumes "build_dag segments m = Inr d" "\<forall>r\<in>set (mx_rows m). node_ok r" "e \<in> set (dg_edges d)"
  shows "ed_slot e \<in> set (rw_writes (dg_nodes d ! ed_from e)) \<and> ed_to e < length (dg_nodes d)
    \<and> (ed_from e < ed_to e
       \<or> ed_kind e = ''phi_loop'' \<and> ed_to e < ed_from e \<and> ed_from e < length (dg_nodes d)
         \<and> rw_note (dg_nodes d ! ed_to e) = Some ''loop_entry''
         \<and> in_scope_prefix (dg_nodes d ! ed_to e) (dg_nodes d ! ed_from e))"
proof -
  from build_dag_cases(2) [OF assms(1,2)] assms(3) obtain i where i: "i < length (dg_nodes d)"
      "e \<in> set (reaching_edges (dg_nodes d) i) \<or> e \<in> set (loop_edges in_scope_prefix (dg_nodes d) i)"
    by (auto simp: dag_edges_def)
  from i(2) show ?thesis
  proof
    assume "e \<in> set (reaching_edges (dg_nodes d) i)"
    from reaching_edges_mem [OF this] i(1) show ?thesis by simp
  next
    assume "e \<in> set (loop_edges in_scope_prefix (dg_nodes d) i)"
    from loop_edges_mem [OF this] i(1) show ?thesis by simp
  qed
qed

text \<open>
  C7. The nodes of the graph are the matrix rows plus one entry node for each function, root and struct segment, with
  ids equal to their positions, and nothing that belongs to a segment stands before its entry node except entry nodes.
  The source of an edge writes the slot the edge carries; and every edge runs from an earlier to a later node, or is a
  \<open>phi_loop\<close> edge back into a loop-entry phi from a node whose scope extends the phi's.
\<close>

theorem build_dag_shape:
  assumes "build_dag segments m = Inr d" "\<forall>r\<in>set (mx_rows m). node_ok r"
  shows "(\<forall>i<length (dg_nodes d). nd_id (dg_nodes d ! i) = i)
    \<and> mset (map row.truncate (dg_nodes d))
        = mset (map make_entry_node (entry_segs segments)) + mset (mx_rows m)
    \<and> (\<forall>seg\<in>set (entry_segs segments). \<exists>A C.
         map row.truncate (dg_nodes d) = A @ make_entry_node seg # C
         \<and> (\<forall>r\<in>set A. rw_seg_id r = Some (sg_id seg)
                \<longrightarrow> r \<in> make_entry_node ` set (entry_segs segments)))
    \<and> (\<forall>e\<in>set (dg_edges d).
         ed_slot e \<in> set (rw_writes (dg_nodes d ! ed_from e)) \<and> ed_to e < length (dg_nodes d)
         \<and> (ed_from e < ed_to e
            \<or> ed_kind e = ''phi_loop'' \<and> ed_to e < ed_from e \<and> ed_from e < length (dg_nodes d)
              \<and> rw_note (dg_nodes d ! ed_to e) = Some ''loop_entry''
              \<and> in_scope_prefix (dg_nodes d ! ed_to e) (dg_nodes d ! ed_from e)))"
  using build_dag_nodes [OF assms] build_dag_edge_direction [OF assms] by blast

theorem build_dag_shape_witness:
  "\<exists>m d. build_matrix 5 sample_segments = Inr m \<and> build_dag sample_segments m = Inr d
     \<and> length (dg_nodes d) = 10 \<and> (\<forall>i<length (dg_nodes d). nd_id (dg_nodes d ! i) = i)
     \<and> (\<exists>e\<in>set (dg_edges d). ed_kind e = ''phi_loop'' \<and> ed_to e < ed_from e
          \<and> ed_slot e \<in> set (rw_writes (dg_nodes d ! ed_from e)))"
proof -
  have "case py_bind (build_matrix 5 sample_segments) (build_dag sample_segments) of
      Inr d \<Rightarrow> length (dg_nodes d) = 10 \<and> (\<exists>e\<in>set (dg_edges d). ed_kind e = ''phi_loop'' \<and> ed_to e < ed_from e)
    | Inl _ \<Rightarrow> False"
    by code_simp
  then obtain m d e where md: "build_matrix 5 sample_segments = Inr m" "build_dag sample_segments m = Inr d"
      "length (dg_nodes d) = 10" and e: "e \<in> set (dg_edges d)" "ed_kind e = ''phi_loop''" "ed_to e < ed_from e"
    by (auto simp: py_bind_eq_Inr split: sum.splits)
  show ?thesis
    using build_dag_shape [OF md(2) matrix_rows_node_ok [OF md(1)]] md e by blast
qed

lemma matrix_dag_result:
  assumes "segments_wf segments" "length segments < fuel"
  shows "\<exists>m d. build_matrix fuel segments = Inr m \<and> build_dag segments m = Inr d
    \<and> length (dg_nodes d) = length (mx_rows m) + length (entry_segs segments)"
proof -
  obtain m where m: "build_matrix fuel segments = Inr m" using matrix_total [OF assms] by blast
  note ok = matrix_rows_node_ok [OF m]
  obtain d where d: "build_dag segments m = Inr d" using build_dag_result [OF ok] by blast
  have "size (mset (insert_entries segments (mx_rows m)))
      = length (entry_segs segments) + length (mx_rows m)"
    by (simp only: mset_insert_entries size_union size_mset length_map)
  with m d build_dag_cases(1) [OF d ok] show ?thesis by auto
qed

text \<open>
  The two passes compose without an exception: on a well-formed segment tree, with a recursion
  budget above the number of segments, \<open>build_matrix\<close> followed by \<open>build_dag\<close> returns a graph.
\<close>
lemma matrix_then_dag_total:
  assumes "segments_wf segments" "length segments < fuel"
  shows "\<exists>m d. build_matrix fuel segments = Inr m \<and> build_dag segments m = Inr d
    \<and> length (dg_nodes d) = length (mx_rows m) + length (entry_segs segments)"
  by (rule matrix_dag_result [OF assms])

theorem matrix_then_dag_total_witness:
  "\<exists>m d. build_matrix 5 sample_segments = Inr m \<and> build_dag sample_segments m = Inr d"
proof -
  have "length sample_segments < 5" by (simp add: sample_segments_def)
  from matrix_then_dag_total [OF sample_wf this] show ?thesis by blast
qed

text \<open>
  A branch without an \<open>else\<close> cuts the value that was there before: in
  \<open>int x = a; if (a) { x = 0; } return x;\<close> the reconvergence phi takes only the branch's write, so no
  edge leaves the node of the declaration, although its value is returned whenever the branch is
  not taken.
\<close>
lemma dag_if_without_else_loses_definition:
  "case py_bind (build_matrix 4 sample_branch_segments) (build_dag sample_branch_segments) of
     Inr d \<Rightarrow> rw_raw (dg_nodes d ! 1) = ''int x = a;'' \<and> rw_raw (dg_nodes d ! 5) = ''return x;''
       \<and> rw_reads (dg_nodes d ! 5) = rw_writes (dg_nodes d ! 1)
       \<and> 1 \<notin> ed_from ` set (dg_edges d)
   | Inl _ \<Rightarrow> False"
  by code_simp

text \<open>
  The first and the tenth loop of a function, both of which write \<open>x\<close> (the loops between them, which write
  nothing, are left out): the back edge into the phi of \<open>loop_1\<close> (node 2) comes from the write in \<open>loop_10\<close>
  (node 6), and none comes from the write in its own body (node 3).
\<close>

definition sample_tenth_loop_segments :: "segment list" where
  "sample_tenth_loop_segments =
    [sample_seg 0 0 ''root'' ''root'' ''root'' [] [] [],
     sample_seg 1 0 ''function'' ''f'' ''root.f'' [sample_slot ''x'' ''root.f.x'' False False] []
       [sample_stmt ''while (c)'' ''loop_head'' None [], sample_stmt ''while (d)'' ''loop_head'' None []],
     sample_seg 2 1 ''loop'' ''loop_1'' ''root.f.loop_1'' [] []
       [sample_stmt ''x = 0;'' ''assign'' (Some ''x'') []],
     sample_seg 3 1 ''loop'' ''loop_10'' ''root.f.loop_10'' [] []
       [sample_stmt ''x = 1;'' ''assign'' (Some ''x'') []]]"

lemma loop_takes_writes_of_its_sibling:
  "case py_bind (build_matrix 5 sample_tenth_loop_segments) (build_dag sample_tenth_loop_segments) of
     Inr d \<Rightarrow> map (\<lambda>i. rw_scope_path (dg_nodes d ! i)) [2, 3, 6]
           = [Some ''root.f.loop_1'', Some ''root.f.loop_1'', Some ''root.f.loop_10'']
       \<and> rw_note (dg_nodes d ! 2) = Some ''loop_entry''
       \<and> (6, 2, ''root.f.x'') \<in> edge_key ` set (dg_edges d)
       \<and> (3, 2, ''root.f.x'') \<notin> edge_key ` set (dg_edges d)
   | Inl _ \<Rightarrow> False"
  by code_simp

end
