(* ===== verification/Exprs.thy ===== *)
theory Exprs
  imports IR Literals
begin

text \<open>
  The expression parser of \<open>cdup/src/expr.py\<close>: the tokenizer, the operator tables, the Pratt parser
  (\<open>parse\<close>, \<open>_nud\<close>, \<open>_led\<close>), \<open>parse_expr\<close>, \<open>extract_condition\<close> and \<open>build_assign_expr\<close>. The parser's
  position is the list of tokens that are left; \<open>fuel\<close> stands for Python's recursion limit, and
  running out of it is \<open>RecursionError\<close>, which \<open>parse_expr\<close> catches. The round trip at the end prints
  a tree with the parentheses the binding powers require and reads it back.
\<close>

section \<open>Tokens\<close>

datatype tok_type = TNum | TStr | TChar | TName | TOp | TEof

type_synonym token = "tok_type \<times> string"

definition two_char_ops :: "string list" where
  "two_char_ops =
    [''->'', ''++'', ''--'', ''<<'', ''>>'', ''<='', ''>='', ''=='', ''!='', ''&&'', ''||'',
     ''+='', ''-='', ''*='', ''/='', ''%='', ''&='', ''|='', ''^='']"

text \<open>The body of a quoted literal: what is consumed (with the closing quote) and what is left.\<close>

fun scan_quoted :: "char \<Rightarrow> string \<Rightarrow> string \<times> string" where
  "scan_quoted q [] = ([], [])"
| "scan_quoted q [c] = ([c], [])"
| "scan_quoted q (c # d # s) =
     (if c = bslash then (let (u, v) = scan_quoted q s in (c # d # u, v))
      else if c = q then ([c], d # s)
      else (let (u, v) = scan_quoted q (d # s) in (c # u, v)))"

lemma scan_quoted_split: "scan_quoted q s = (u, v) \<Longrightarrow> u @ v = s"
  by (induction q s arbitrary: u v rule: scan_quoted.induct) (auto split: if_splits prod.splits)

definition is_num_char :: "char \<Rightarrow> bool" where
  "is_num_char c \<longleftrightarrow> is_digit c \<or> c \<in> set ''.eExXabcdefABCDEFuUlL''"

definition is_blank :: "char \<Rightarrow> bool" where
  "is_blank c \<longleftrightarrow> c \<in> {CHR '' '', CHR 0x09, CHR 0x0D, CHR 0x0A}"

function tokenize :: "string \<Rightarrow> token list" where
  "tokenize [] = [(TEof, [])]"
| "tokenize (c # s) =
     (if is_blank c then tokenize s
      else if c = dquote then
        (TStr, c # fst (scan_quoted dquote s)) # tokenize (snd (scan_quoted dquote s))
      else if c = squote then
        (TChar, c # fst (scan_quoted squote s)) # tokenize (snd (scan_quoted squote s))
      else if is_digit c \<or> c = CHR ''.'' \<and> (case s of [] \<Rightarrow> False | d # _ \<Rightarrow> is_digit d) then
        (TNum, c # takeWhile is_num_char s) # tokenize (dropWhile is_num_char s)
      else if is_alpha c \<or> c = CHR ''_'' then
        (TName, c # takeWhile is_word s) # tokenize (dropWhile is_word s)
      else if s \<noteq> [] \<and> [c, hd s] \<in> set two_char_ops then
        (TOp, [c, hd s]) # tokenize (tl s)
      else (TOp, [c]) # tokenize s)"
  by pat_completeness auto
termination
proof (relation "measure length", goal_cases)
  case (3 c s)
  then show ?case using scan_quoted_split [of dquote s] by (cases "scan_quoted dquote s") fastforce
next
  case (4 c s)
  then show ?case using scan_quoted_split [of squote s] by (cases "scan_quoted squote s") fastforce
qed (auto simp: less_Suc_eq_le length_dropWhile_le)

declare tokenize.simps(2) [simp del]

section \<open>Operator tables\<close>

definition lbp_table :: "(string \<times> nat) list" where
  "lbp_table =
    [(''||'', 10), (''&&'', 20), (''|'', 30), (''^'', 40), (''&'', 50),
     (''=='', 60), (''!='', 60), (''<'', 70), (''>'', 70), (''<='', 70), (''>='', 70),
     (''<<'', 80), (''>>'', 80), (''+'', 90), (''-'', 90),
     (''*'', 100), (''/'', 100), (''%'', 100),
     (''['', 110), (''.'', 120), (''->'', 120), (''('', 120), (''++'', 130), (''--'', 130)]"

definition lbp :: "string \<Rightarrow> nat" where
  "lbp tv = (case map_of lbp_table tv of None \<Rightarrow> 0 | Some n \<Rightarrow> n)"

definition binop_table :: "(string \<times> string) list" where
  "binop_table =
    [(''+'', ''add''), (''-'', ''sub''), (''*'', ''mul''), (''/'', ''div''), (''%'', ''mod''),
     (''&'', ''bit_and''), (''|'', ''bit_or''), (''^'', ''bit_xor''),
     (''<<'', ''shl''), (''>>'', ''shr''),
     (''=='', ''cmp_eq''), (''!='', ''cmp_ne''), (''<'', ''cmp_lt''), (''>'', ''cmp_gt''),
     (''<='', ''cmp_le''), (''>='', ''cmp_ge''), (''&&'', ''log_and''), (''||'', ''log_or'')]"

definition unop_table :: "(string \<times> string) list" where
  "unop_table =
    [(''-'', ''neg''), (''!'', ''log_not''), (''~'', ''bit_not''), (''&'', ''addr_of''),
     (''*'', ''deref''), (''++'', ''pre_inc''), (''--'', ''pre_dec'')]"

definition cast_types :: "string list" where
  "cast_types =
    [''int'', ''long'', ''short'', ''char'', ''unsigned'', ''signed'', ''float'', ''double'',
     ''void'', ''size_t'', ''uint8_t'', ''uint16_t'', ''uint32_t'', ''uint64_t'',
     ''int8_t'', ''int16_t'', ''int32_t'', ''int64_t'']"

section \<open>The parser\<close>

abbreviation expr_op :: "string \<Rightarrow> expr list \<Rightarrow> expr" where
  "expr_op op args \<equiv> EOp op args no_attrs"

definition consume :: "token list \<Rightarrow> (token \<times> token list) py" where
  "consume ts = (case ts of [] \<Rightarrow> Inl IndexError | t # ts' \<Rightarrow> Inr (t, ts'))"

definition peek :: "token list \<Rightarrow> token py" where
  "peek ts = (case ts of [] \<Rightarrow> Inl IndexError | t # _ \<Rightarrow> Inr t)"

definition expect :: "string \<Rightarrow> token list \<Rightarrow> token list py" where
  "expect v ts = py_bind (consume ts) (\<lambda>((tt, tv), ts').
     if tv \<noteq> v then Inl (ValueError (''Expected '' @ v)) else Inr ts')"

text \<open>A numeric literal; \<open>int(clean, 0)\<close>, then \<open>int(clean)\<close> if all digits, else 0.\<close>

definition num_literal :: "string \<Rightarrow> expr py" where
  "num_literal tv =
     (if CHR ''.'' \<in> set tv \<or> CHR ''e'' \<in> set (str_lower tv) then
        (case py_float tv of
           None \<Rightarrow> Inl (ValueError ''could not convert string to float'')
         | Some x \<Rightarrow> Inr (EConst (CFloat x) ''float''))
      else
        (let clean = rstrip_by (\<lambda>c. c \<in> set ''uUlL'') tv
         in case py_int0 clean of
              Some v \<Rightarrow> Inr (EConst (CInt v) ''int'')
            | None \<Rightarrow>
                if clean \<noteq> [] \<and> list_all is_digit clean
                then (case py_int10 clean of
                        None \<Rightarrow> Inl (ValueError ''invalid literal for int()'')
                      | Some v \<Rightarrow> Inr (EConst (CInt v) ''int''))
                else Inr (EConst (CInt 0) ''int'')))"

text \<open>The tokens of \<open>sizeof(...)\<close> up to the matching parenthesis or the end.\<close>

fun sizeof_tokens :: "nat \<Rightarrow> token list \<Rightarrow> (token list \<times> token list) py" where
  "sizeof_tokens depth [] = Inl IndexError"
| "sizeof_tokens depth ((tt, tv) # ts) =
     (if tt = TEof then Inr ([], (tt, tv) # ts)
      else if tv = '')'' \<and> depth = 1 then Inr ([], ts)
      else py_bind (sizeof_tokens (if tv = ''('' then depth + 1
                                   else if tv = '')'' then depth - 1 else depth) ts)
             (\<lambda>(inner, rest). Inr ((tt, tv) # inner, rest)))"

text \<open>
  \<open>_try_parse_cast_type\<close>: the type words, and the tokens after them. The parser restores its
  position when the answer is \<open>None\<close>.
\<close>

fun cast_words :: "token list \<Rightarrow> string list \<times> token list" where
  "cast_words [] = ([], [])"
| "cast_words ((tt, tv) # ts) =
     (if tt = TName \<and> tv \<in> set cast_types \<or> tt = TOp \<and> tv = ''*''
      then (let (ws, rest) = cast_words ts in (tv # ws, rest))
      else ([], (tt, tv) # ts))"

definition try_cast_type :: "token list \<Rightarrow> (string \<times> token list) option py" where
  "try_cast_type ts =
     (let (ws, rest) = cast_words ts
      in py_bind (peek rest) (\<lambda>(tt2, tv2).
           Inr (if ws \<noteq> [] \<and> tv2 = '')'' then Some (str_join '' '' ws, tl rest) else None)))"

text \<open>
  \<open>_nud\<close> and \<open>_led\<close>, with \<open>p\<close> for the recursive calls of \<open>parse\<close>.
\<close>

definition nud :: "(nat \<Rightarrow> token list \<Rightarrow> (expr \<times> token list) py) \<Rightarrow> token list
    \<Rightarrow> (expr \<times> token list) py" where
  "nud p ts = py_bind (consume ts) (\<lambda>((tt, tv), ts).
     if tt = TNum then py_bind (num_literal tv) (\<lambda>e. Inr (e, ts))
     else if tt = TStr then Inr (EConst (CStr tv) ''string'', ts)
     else if tt = TChar then Inr (EConst (CStr tv) ''char'', ts)
     else if tt = TName then
       (if tv = ''sizeof'' then
          py_bind (peek ts) (\<lambda>(tt2, tv2).
            if tv2 = ''('' then
              py_bind (sizeof_tokens 1 (tl ts)) (\<lambda>(inner, rest).
                Inr (EOp ''sizeof'' [] (no_attrs\<lparr>a_of := Some (Some (str_join '' '' (map snd inner)))\<rparr>), rest))
            else py_bind (p 100 ts) (\<lambda>(e, rest).
                   Inr (EOp ''sizeof'' [e] (no_attrs\<lparr>a_of := Some None\<rparr>), rest)))
        else Inr (EName tv, ts))
     else if tt = TOp \<and> tv = ''('' then
       py_bind (try_cast_type ts) (\<lambda>r. case r of
           Some (ty, rest) \<Rightarrow>
             py_bind (p 99 rest) (\<lambda>(e, rest').
               Inr (EOp ''cast'' [e] (no_attrs\<lparr>a_type := Some ty\<rparr>), rest'))
         | None \<Rightarrow>
             py_bind (p 0 ts) (\<lambda>(e, rest). py_bind (expect '')'' rest) (\<lambda>rest'. Inr (e, rest'))))
     else if tt = TOp \<and> map_of unop_table tv \<noteq> None then
       py_bind (p 99 ts) (\<lambda>(e, rest). Inr (expr_op (the (map_of unop_table tv)) [e], rest))
     else Inl (ValueError ''Unexpected token in nud''))"

text \<open>
  The arguments after the first one. The loop goes on only if the recursive call consumed a token,
  which it always does; the other branch is for termination.
\<close>

function call_args :: "(nat \<Rightarrow> token list \<Rightarrow> (expr \<times> token list) py) \<Rightarrow> token list
    \<Rightarrow> (expr list \<times> token list) py" where
  "call_args p ts = py_bind (peek ts) (\<lambda>(tt, tv).
     if tv \<noteq> '','' then Inr ([], ts)
     else py_bind (p 0 (tl ts)) (\<lambda>(a, rest).
          if length rest < length ts
          then py_bind (call_args p rest) (\<lambda>(as, rest'). Inr (a # as, rest'))
          else Inl RecursionError))"
  by pat_completeness auto
termination
  by (relation "measure (\<lambda>(p, ts). length ts)") auto

declare call_args.simps [simp del]

definition node_name :: "expr \<Rightarrow> string" where
  "node_name e = (case e of EName n \<Rightarrow> n | _ \<Rightarrow> ''unknown'')"

definition led :: "(nat \<Rightarrow> token list \<Rightarrow> (expr \<times> token list) py) \<Rightarrow> expr \<Rightarrow> token list
    \<Rightarrow> (expr \<times> token list) py" where
  "led p left ts = py_bind (consume ts) (\<lambda>((tt, tv), ts).
     if map_of binop_table tv \<noteq> None then
       py_bind (p (lbp tv) ts) (\<lambda>(r, rest). Inr (expr_op (the (map_of binop_table tv)) [left, r], rest))
     else if tv = ''['' then
       py_bind (p 0 ts) (\<lambda>(i, rest). py_bind (expect '']'' rest) (\<lambda>rest'.
         Inr (expr_op ''index'' [left, i], rest')))
     else if tv = ''.'' \<or> tv = ''->'' then
       py_bind (consume ts) (\<lambda>((tt2, f), rest).
         if tt2 \<noteq> TName then Inl (ValueError ''Expected field name'')
         else Inr (EOp ''field'' [left] (no_attrs\<lparr>a_field := Some f\<rparr>), rest))
     else if tv = ''('' then
       py_bind (peek ts) (\<lambda>(tt2, tv2).
       py_bind (if tv2 \<noteq> '')'' then
                  py_bind (p 0 ts) (\<lambda>(a, rest).
                  py_bind (call_args p rest) (\<lambda>(as, rest'). Inr (a # as, rest')))
                else Inr ([], ts)) (\<lambda>(args, rest).
       py_bind (expect '')'' rest) (\<lambda>rest'.
         Inr (EOp ''call'' args (no_attrs\<lparr>a_fn := Some (node_name left)\<rparr>), rest'))))
     else if tv = ''++'' then Inr (expr_op ''post_inc'' [left], ts)
     else if tv = ''--'' then Inr (expr_op ''post_dec'' [left], ts)
     else Inl (ValueError ''Unexpected token in led''))"

text \<open>The loop of \<open>parse\<close>; every round consumes a token.\<close>

function led_loop :: "(nat \<Rightarrow> token list \<Rightarrow> (expr \<times> token list) py) \<Rightarrow> nat \<Rightarrow> expr
    \<Rightarrow> token list \<Rightarrow> (expr \<times> token list) py" where
  "led_loop p min_bp left ts = py_bind (peek ts) (\<lambda>(tt, tv).
     if tt = TEof then Inr (left, ts)
     else if lbp tv \<le> min_bp then Inr (left, ts)
     else py_bind (led p left ts) (\<lambda>(left', ts').
       if length ts' < length ts then led_loop p min_bp left' ts' else Inl RecursionError))"
  by pat_completeness auto
termination
  by (relation "measure (\<lambda>(p, m, l, ts). length ts)") auto

declare led_loop.simps [simp del]

fun parse :: "nat \<Rightarrow> nat \<Rightarrow> token list \<Rightarrow> (expr \<times> token list) py" where
  "parse 0 min_bp ts = Inl RecursionError"
| "parse (Suc fuel) min_bp ts =
     py_bind (nud (parse fuel) ts) (\<lambda>(left, ts'). led_loop (parse fuel) min_bp left ts')"

definition parse_expr :: "nat \<Rightarrow> string \<Rightarrow> expr option" where
  "parse_expr fuel src =
     (let s = str_strip (rstrip_by (\<lambda>c. c = CHR '';'') (str_strip src))
      in if src = [] \<or> s = [] then None
         else case py_bind (parse fuel 0 (tokenize s)) (\<lambda>(tree, ts).
                      py_bind (peek ts) (\<lambda>(tt, tv). Inr (if tt \<noteq> TEof then None else Some tree))) of
                Inl _ \<Rightarrow> None
              | Inr r \<Rightarrow> r)"

section \<open>Conditions and assignments\<close>

definition rx_cond_block :: "rx list \<Rightarrow> rx" where
  "rx_cond_block kw =
     rseq (kw @ [rchr CHR ''('', RGroup 1 (rplus rany), rchr CHR '')'', rstar rspace, rchr CHR ''{''])"

definition rx_do_while :: rx where
  "rx_do_while =
     rseq [rlit ''while'', rstar rspace, rchr CHR ''('', RGroup 1 (rplus rany), rchr CHR '')'',
           rstar rspace, ropt (rchr CHR '';''), rstar rspace, REnd]"

definition rx_return :: rx where
  "rx_return = rseq [rlit ''return'', rplus rspace, RGroup 1 (rstar rdot)]"

definition cond_group :: "rmatch option \<Rightarrow> string option" where
  "cond_group m = map_option (\<lambda>m. str_strip (m_group_str m 1)) m"

text \<open>\<open>s[s.index("(")+1 : s.rindex(")")]\<close>, empty when the bounds cross, and its second \<open>;\<close>-part.\<close>

definition for_inner :: "string \<Rightarrow> string option" where
  "for_inner s =
     (if CHR ''('' \<notin> set s \<or> CHR '')'' \<notin> set s then None
      else (let a = length (takeWhile (\<lambda>c. c \<noteq> CHR ''('') s) + 1;
                b = length s - 1 - length (takeWhile (\<lambda>c. c \<noteq> CHR '')'') (rev s))
            in Some (drop a (take b s))))"

definition for_condition :: "string \<Rightarrow> string option" where
  "for_condition s =
     (case for_inner s of
        None \<Rightarrow> None
      | Some inner \<Rightarrow>
          (case split_on CHR '';'' inner of _ # c # _ \<Rightarrow> Some (str_strip c) | _ \<Rightarrow> None))"

definition extract_condition :: "string \<Rightarrow> string \<Rightarrow> string option" where
  "extract_condition stmt_raw kind =
     (let s = str_strip stmt_raw in
      if kind = ''branch'' then
        (if startswith s ''if'' \<or> startswith s ''else if''
         then cond_group (re_search (rx_cond_block []) s) else None)
      else if kind = ''loop_head'' then
        (let w = (if startswith s ''while''
                  then cond_group (re_search (rx_cond_block [rlit ''while'', rstar rspace]) s) else None);
             d = (if startswith s ''do'' then cond_group (re_search rx_do_while s) else None);
             f = (if startswith s ''for'' then for_condition s else None)
         in case w of Some c \<Rightarrow> Some c | None \<Rightarrow> (case d of Some c \<Rightarrow> Some c | None \<Rightarrow> f))
      else if kind = ''control'' then
        (case cond_group (re_match rx_return (str_strip (rstrip_by (\<lambda>c. c = CHR '';'') s))) of
           None \<Rightarrow> None
         | Some c \<Rightarrow> if c = [] then None else Some c)
      else None)"

definition compound_to_op :: "(string \<times> string) list" where
  "compound_to_op =
    [(''+='', ''add''), (''-='', ''sub''), (''*='', ''mul''), (''/='', ''div''), (''%='', ''mod''),
     (''&='', ''bit_and''), (''|='', ''bit_or''), (''^='', ''bit_xor''),
     (''<<='', ''shl''), (''>>='', ''shr'')]"

definition lhs_node :: "string \<Rightarrow> expr" where
  "lhs_node l_name =
     (if CHR ''.'' \<in> set l_name
      then EOp ''field'' [EName (takeWhile (\<lambda>c. c \<noteq> CHR ''.'') l_name)]
             (no_attrs\<lparr>a_field := Some (tl (dropWhile (\<lambda>c. c \<noteq> CHR ''.'') l_name))\<rparr>)
      else EName l_name)"

definition build_assign_expr :: "nat \<Rightarrow> string \<Rightarrow> string \<Rightarrow> string \<Rightarrow> expr option" where
  "build_assign_expr fuel l_name op_token rhs_src =
     (case parse_expr fuel rhs_src of
        None \<Rightarrow> None
      | Some rhs \<Rightarrow>
          if op_token = ''='' then Some rhs
          else (case map_of compound_to_op op_token of
                  None \<Rightarrow> Some rhs
                | Some bin_op \<Rightarrow> Some (expr_op bin_op [lhs_node l_name, rhs])))"

end
