(* ===== verification/ExprRoundtrip.thy ===== *)
theory ExprRoundtrip
  imports Exprs
begin

text \<open>
  Facts about the expression parser of \<open>Exprs\<close>: a printer that puts parentheses only where the
  binding powers require them, the round trip through tokens and through text, and the parser's
  termination within a budget given by the length of the text.
\<close>

section \<open>Printing a tree\<close>

definition tok :: "string \<Rightarrow> token" where "tok s = (TOp, s)"

definition binop_token :: "string \<Rightarrow> string option" where
  "binop_token op = map_of (map (\<lambda>(t, n). (n, t)) binop_table) op"

definition unop_token :: "string \<Rightarrow> string option" where
  "unop_token op = map_of (map (\<lambda>(t, n). (n, t)) unop_table) op"

text \<open>The binding power below which an operator node stands without parentheses.\<close>

definition op_prec :: "string \<Rightarrow> nat" where
  "op_prec op =
     (case binop_token op of
        Some t \<Rightarrow> lbp t
      | None \<Rightarrow>
          if unop_token op \<noteq> None \<or> op = ''cast'' then 99
          else if op = ''index'' then 110
          else if op = ''field'' \<or> op = ''call'' then 120 else 130)"

definition cast_tokens :: "string \<Rightarrow> token list" where
  "cast_tokens ty = map (\<lambda>w. (if w = ''*'' then TOp else TName, w)) (split_on CHR '' '' ty)"

text \<open>The tokens of an operator node, from those of its arguments (as a function of the level).\<close>

definition body_tokens :: "string \<Rightarrow> (nat \<Rightarrow> token list) list \<Rightarrow> op_attrs \<Rightarrow> token list" where
  "body_tokens op ps a =
     (case ps of
        [l, r] \<Rightarrow>
          (case binop_token op of
             Some t \<Rightarrow> l (lbp t - 1) @ tok t # r (lbp t)
           | None \<Rightarrow> if op = ''index'' then l 109 @ tok ''['' # r 0 @ [tok '']''] else [])
      | [x] \<Rightarrow>
          (case unop_token op of
             Some t \<Rightarrow> tok t # x 99
           | None \<Rightarrow>
               if op = ''cast'' then tok ''('' # cast_tokens (the (a_type a)) @ tok '')'' # x 99
               else if op = ''field'' then x 119 @ [tok ''.'', (TName, the (a_field a))]
               else x 129 @ [tok (if op = ''post_inc'' then ''++'' else ''--'')])
      | _ \<Rightarrow> [])"

definition call_tokens :: "string \<Rightarrow> token list list \<Rightarrow> token list" where
  "call_tokens fn args =
     (TName, fn) # tok ''('' #
       (case args of [] \<Rightarrow> [] | a # as \<Rightarrow> a @ concat (map (\<lambda>b. tok '','' # b) as)) @ [tok '')'']"

fun print_tokens :: "expr \<Rightarrow> nat \<Rightarrow> token list" where
  "print_tokens (EName n) k = [(TName, n)]"
| "print_tokens (ESlot n) k = []"
| "print_tokens (EConst v t) k =
     (case v of
        CInt i \<Rightarrow> [(TNum, nat_digits (nat i))]
      | CFloat x \<Rightarrow> []
      | CStr s \<Rightarrow> [(if t = ''char'' then TChar else TStr, s)])"
| "print_tokens (EOp op args a) k =
     (let body = (if op = ''call'' then call_tokens (the (a_fn a)) (map (\<lambda>e. print_tokens e 0) args)
                  else body_tokens op (map print_tokens args) a)
      in if op_prec op \<le> k then tok ''('' # body @ [tok '')''] else body)"

declare print_tokens.simps(4) [simp del]

definition is_ident :: "string \<Rightarrow> bool" where
  "is_ident n = (case n of [] \<Rightarrow> False | c # s \<Rightarrow> is_id_start c \<and> list_all is_word s)"

fun closed_quoted :: "char \<Rightarrow> string \<Rightarrow> bool" where
  "closed_quoted q [] = False"
| "closed_quoted q [c] = (c = q \<and> c \<noteq> bslash)"
| "closed_quoted q (c # d # s) =
     (if c = bslash then closed_quoted q s else c \<noteq> q \<and> closed_quoted q (d # s))"

definition is_quoted :: "char \<Rightarrow> string \<Rightarrow> bool" where
  "is_quoted q s = (case s of [] \<Rightarrow> False | c # t \<Rightarrow> c = q \<and> closed_quoted q t)"

definition name_ok :: "string \<Rightarrow> bool" where
  "name_ok n \<longleftrightarrow> is_ident n \<and> n \<noteq> ''sizeof'' \<and> n \<notin> set cast_types"

definition type_ok :: "string \<Rightarrow> bool" where
  "type_ok ty \<longleftrightarrow> (\<forall>w\<in>set (split_on CHR '' '' ty). w \<in> set cast_types \<or> w = ''*'')"

text \<open>The trees the printer covers: all node shapes but floats, \<open>sizeof\<close> and resolved slots.\<close>

fun printable :: "expr \<Rightarrow> bool" where
  "printable (EName n) = name_ok n"
| "printable (ESlot n) = False"
| "printable (EConst v t) =
     (case v of
        CInt i \<Rightarrow> 0 \<le> i \<and> t = ''int''
      | CFloat x \<Rightarrow> False
      | CStr s \<Rightarrow> t = ''string'' \<and> is_quoted dquote s \<or> t = ''char'' \<and> is_quoted squote s)"
| "printable (EOp op args a) =
     (list_all printable args \<and>
      (if op = ''call'' then (case a_fn a of None \<Rightarrow> False | Some f \<Rightarrow> name_ok f \<and> a = no_attrs\<lparr>a_fn := Some f\<rparr>)
       else if op = ''cast'' then length args = 1 \<and>
         (case a_type a of None \<Rightarrow> False | Some ty \<Rightarrow> type_ok ty \<and> a = no_attrs\<lparr>a_type := Some ty\<rparr>)
       else if op = ''field'' then length args = 1 \<and>
         (case a_field a of None \<Rightarrow> False | Some f \<Rightarrow> is_ident f \<and> a = no_attrs\<lparr>a_field := Some f\<rparr>)
       else a = no_attrs \<and>
         (length args = 2 \<and> (binop_token op \<noteq> None \<or> op = ''index'')
          \<or> length args = 1 \<and> (unop_token op \<noteq> None \<or> op = ''post_inc'' \<or> op = ''post_dec''))))"

text \<open>A parser budget that is enough for a printed tree.\<close>

fun parse_depth :: "expr \<Rightarrow> nat" where
  "parse_depth (EOp op args a) = 2 + sum_list (map parse_depth args)"
| "parse_depth _ = 1"

section \<open>The tables agree\<close>

lemma binop_table_ok:
  "list_all (\<lambda>(t, op). map_of binop_table t = Some op \<and> 0 < lbp t \<and> lbp t \<le> 100
     \<and> t \<notin> set [''('', '')'', '','', ''['', '']'', ''.'', ''->'', ''++'', ''--''] \<and> unop_token op = None
     \<and> op \<notin> set [''cast'', ''index'', ''field'', ''call'', ''post_inc'', ''post_dec'']) binop_table"
  by code_simp

lemma unop_table_ok:
  "list_all (\<lambda>(t, op). map_of unop_table t = Some op \<and> t \<notin> set [''('', '')'', '','', ''['', '']'', ''.'']
     \<and> t \<notin> set cast_types \<and> binop_token op = None
     \<and> op \<notin> set [''cast'', ''index'', ''field'', ''call'', ''post_inc'', ''post_dec'']) unop_table"
  by code_simp

lemma table_token_mem:
  "map_of (map (\<lambda>(t, n). (n, t)) tbl) op = Some t \<Longrightarrow> (t, op) \<in> set tbl"
  by (auto dest!: map_of_SomeD)

lemma binop_token_cases:
  assumes "binop_token op = Some t"
  shows "map_of binop_table t = Some op" "0 < lbp t" "lbp t \<le> 100" "t \<noteq> '')''" "t \<noteq> '',''"
    "unop_token op = None" "op \<notin> set [''cast'', ''index'', ''field'', ''call'', ''post_inc'', ''post_dec'']"
    "op_prec op = lbp t"
  using binop_table_ok [unfolded list_all_iff, THEN bspec, OF table_token_mem [OF assms [unfolded binop_token_def]]]
    assms
  by (simp_all add: op_prec_def)

lemma unop_token_cases:
  assumes "unop_token op = Some t"
  shows "map_of unop_table t = Some op" "t \<noteq> '')''" "t \<noteq> ''(''" "t \<notin> set cast_types"
    "binop_token op = None" "op \<notin> set [''cast'', ''index'', ''field'', ''call'', ''post_inc'', ''post_dec'']"
    "op_prec op = 99"
  using unop_table_ok [unfolded list_all_iff, THEN bspec, OF table_token_mem [OF assms [unfolded unop_token_def]]]
    assms
  by (simp_all add: op_prec_def)

lemma lbp_values [simp]:
  "lbp '')'' = 0" "lbp '']'' = 0" "lbp '','' = 0" "lbp ''['' = 110" "lbp ''.'' = 120" "lbp ''('' = 120"
  "lbp ''++'' = 130" "lbp ''--'' = 130"
  by (simp_all add: lbp_def lbp_table_def)

lemma not_binop [simp]:
  "map_of binop_table ''['' = None" "map_of binop_table ''.'' = None" "map_of binop_table ''('' = None"
  "map_of binop_table ''++'' = None" "map_of binop_table ''--'' = None"
  by (simp_all add: binop_table_def)

lemma op_prec_values [simp]:
  "op_prec ''cast'' = 99" "op_prec ''index'' = 110" "op_prec ''field'' = 120" "op_prec ''call'' = 120"
  "op_prec ''post_inc'' = 130" "op_prec ''post_dec'' = 130"
  by (simp_all add: op_prec_def binop_token_def binop_table_def unop_token_def unop_table_def)

lemma no_tokens [simp]:
  "binop_token ''index'' = None" "unop_token ''cast'' = None" "unop_token ''field'' = None"
  "unop_token ''post_inc'' = None" "unop_token ''post_dec'' = None"
  by (simp_all add: binop_token_def binop_table_def unop_token_def unop_table_def)

section \<open>Decimal literals\<close>

lemma digit_chars:
  "list_all (\<lambda>d. is_digit (char_of (48 + d)) \<and> digit_val 10 (char_of (48 + d)) = Some (int d)
     \<and> char_of (48 + d) \<noteq> CHR ''_'' \<and> (char_of (48 + d) = CHR ''0'' \<longleftrightarrow> d = 0)) [0..<10]"
  by code_simp

lemma digit_char:
  assumes "d < 10"
  shows "is_digit (char_of (48 + d))" "digit_val 10 (char_of (48 + d)) = Some (int d)"
    "char_of (48 + d) \<noteq> CHR ''_''" "char_of (48 + d) = CHR ''0'' \<longleftrightarrow> d = 0"
  using digit_chars [unfolded list_all_iff, THEN bspec, of d] assms by auto

lemma nat_digits_all: "list_all is_digit (nat_digits n)"
  by (induction n rule: nat_digits.induct) (subst nat_digits.simps, simp add: digit_char)

lemma und_digits_append:
  assumes "list_all is_digit s" "s \<noteq> []" "d < 10"
  shows "und_digits 10 acc b (s @ [char_of (48 + d)]) =
     (case und_digits 10 acc b s of None \<Rightarrow> None | Some v \<Rightarrow> Some (v * 10 + int d))"
proof -
  have nd: "\<not> is_digit CHR ''_''" by code_simp
  have "und_digits 10 acc b (s @ [char_of (48 + d)]) =
     (case und_digits 10 acc b s of None \<Rightarrow> None | Some v \<Rightarrow> Some (v * 10 + int d))"
    if "s \<noteq> [] \<or> b" "list_all is_digit s" for s acc b
    using that
    by (induction s arbitrary: acc b)
       (auto simp: nd digit_char [OF assms(3)] mult.commute split: option.splits)
  with assms show ?thesis by blast
qed

lemma und_digits_nat: "und_digits 10 0 False (nat_digits n) = Some (int n)"
proof (induction n rule: nat_digits.induct)
  case (1 n)
  show ?case
  proof (cases "n < 10")
    case True
    then show ?thesis by (subst nat_digits.simps) (simp add: digit_char)
  next
    case False
    then show ?thesis
      using 1 by (subst nat_digits.simps)
        (simp add: und_digits_append nat_digits_all mult.commute zdiv_int zmod_int)
  qed
qed

lemma nat_digits_hd: "hd (nat_digits n) = CHR ''0'' \<Longrightarrow> n = 0"
proof (induction n rule: nat_digits.induct)
  case (1 n)
  show ?case
  proof (cases "n < 10")
    case True
    with "1.prems" show ?thesis by (simp add: nat_digits.simps [of n] digit_char)
  next
    case False
    with "1.prems" have "hd (nat_digits (n div 10)) = CHR ''0''" by (simp add: nat_digits.simps [of n])
    from "1.IH" [OF False this] False show ?thesis by simp
  qed
qed

lemma nat_digits_single: "nat_digits n = [c] \<Longrightarrow> n < 10"
  by (rule ccontr) (simp add: nat_digits.simps [of n])

lemma rstrip_by_id: "(s \<noteq> [] \<Longrightarrow> \<not> P (last s)) \<Longrightarrow> rstrip_by P s = s"
  by (cases s rule: rev_cases) (simp_all add: rstrip_by_def)

lemma strip_by_id:
  assumes "s \<noteq> [] \<Longrightarrow> \<not> P (hd s)" "s \<noteq> [] \<Longrightarrow> \<not> P (last s)"
  shows "strip_by P s = s"
proof -
  have "lstrip_by P s = s" using assms(1) by (cases s) (simp_all add: lstrip_by_def)
  then show ?thesis using rstrip_by_id [of s P] assms(2) by (simp add: strip_by_def)
qed

lemma digit_classes:
  assumes "is_digit c"
  shows "\<not> is_space c" "c \<noteq> CHR ''-''" "c \<noteq> CHR ''+''" "c \<noteq> CHR ''.''" "lower_char c \<noteq> CHR ''e''"
    "c \<notin> set ''uUlL''" "c \<noteq> CHR ''x''" "c \<noteq> CHR ''X''" "c \<noteq> CHR ''o''" "c \<noteq> CHR ''O''"
    "c \<noteq> CHR ''b''" "c \<noteq> CHR ''B''" "is_num_char c" "\<not> is_blank c" "c \<noteq> dquote" "c \<noteq> squote"
  using assms
  by (auto simp: is_digit_def is_space_def lower_char_def is_upper_def is_num_char_def is_blank_def Let_def)

lemma int0_digits:
  "str_strip (nat_digits n) = nat_digits n" "split_sign (nat_digits n) = (False, nat_digits n)"
  "int0_body (nat_digits n) = Some (int n)"
proof -
  let ?s = "nat_digits n"
  have dig: "\<And>c. c \<in> set ?s \<Longrightarrow> is_digit c" using nat_digits_all [of n] by (simp add: list_all_iff)
  have hd: "is_digit (hd ?s)" and last: "is_digit (last ?s)" using dig by simp_all
  show "str_strip ?s = ?s" using hd last digit_classes(1) by (intro strip_by_id) auto
  obtain a t where at: "?s = a # t" by (cases ?s) auto
  then have a: "is_digit a" using dig by simp
  show "split_sign ?s = (False, ?s)" using digit_classes(2,3) [OF a] by (simp add: at)
  show "int0_body ?s = Some (int n)"
  proof (cases t)
    case Nil
    then show ?thesis using und_digits_nat [of n] by (simp add: int0_body_def at)
  next
    case (Cons b u)
    then have b: "is_digit b" using dig at by simp
    have "a \<noteq> CHR ''0''"
    proof
      assume "a = CHR ''0''"
      then have "n = 0" using nat_digits_hd [of n] at by simp
      then show False using at Cons by (simp add: nat_digits.simps [of 0])
    qed
    then show ?thesis using und_digits_nat [of n] by (simp add: int0_body_def at Cons)
  qed
qed

lemma num_literal_digits: "num_literal (nat_digits n) = Inr (EConst (CInt (int n)) ''int'')"
proof -
  let ?s = "nat_digits n"
  have dig: "\<And>c. c \<in> set ?s \<Longrightarrow> is_digit c" using nat_digits_all [of n] by (simp add: list_all_iff)
  have last: "is_digit (last ?s)" using dig by simp
  have "CHR ''.'' \<notin> set ?s" "CHR ''e'' \<notin> set (str_lower ?s)"
    using dig digit_classes(4,5) by (auto simp: str_lower_def) metis+
  moreover have "rstrip_by (\<lambda>c. c \<in> set ''uUlL'') ?s = ?s"
    using last digit_classes(6) by (intro rstrip_by_id) auto
  ultimately show ?thesis
    by (simp add: num_literal_def Let_def py_int0_def int0_digits)
qed

section \<open>A parenthesis is not taken for a cast\<close>

definition head_ok :: "token list \<Rightarrow> bool" where
  "head_ok ts \<longleftrightarrow> (case snd (cast_words ts) of [] \<Rightarrow> False | t # _ \<Rightarrow> snd t \<noteq> '')'')"

lemma head_ok_Cons:
  "head_ok ((tt, tv) # ts) \<longleftrightarrow>
     (if tt = TName \<and> tv \<in> set cast_types \<or> tt = TOp \<and> tv = ''*'' then head_ok ts else tv \<noteq> '')'')"
  by (simp add: head_ok_def split: prod.split)

lemma try_cast_none: "head_ok ts \<Longrightarrow> try_cast_type ts = Inr None"
  by (auto simp: head_ok_def try_cast_type_def peek_def split: prod.splits list.splits)

lemma cast_types_facts:
  "''*'' \<notin> set cast_types" "''('' \<notin> set cast_types" "'')'' \<notin> set cast_types"
  by (simp_all add: cast_types_def)

lemma quoted_not_paren: "\<not> is_quoted dquote '')''" "\<not> is_quoted squote '')''"
  by (simp_all add: is_quoted_def)

lemma ident_not_paren: "is_ident s \<Longrightarrow> s \<noteq> '')'' \<and> s \<noteq> ''(''"
  by (auto simp: is_ident_def is_id_start_def is_alpha_def Let_def split: list.splits)

lemma digits_not_paren: "nat_digits n \<noteq> '')''"
proof
  assume "nat_digits n = '')''"
  then have "is_digit CHR '')''" using nat_digits_all [of n] by simp
  then show False by code_simp
qed

lemma printable_opE:
  assumes "printable (EOp op args a)"
  obtains (binary) l r t where "args = [l, r]" "binop_token op = Some t" "a = no_attrs"
  | (index) l r where "args = [l, r]" "op = ''index''" "a = no_attrs"
  | (unary) x t where "args = [x]" "unop_token op = Some t" "a = no_attrs"
  | (cast) x ty where "args = [x]" "op = ''cast''" "type_ok ty" "a = no_attrs\<lparr>a_type := Some ty\<rparr>"
  | (field) x f where "args = [x]" "op = ''field''" "is_ident f" "a = no_attrs\<lparr>a_field := Some f\<rparr>"
  | (postfix) x where "args = [x]" "op = ''post_inc'' \<or> op = ''post_dec''" "a = no_attrs"
  | (call) f where "op = ''call''" "name_ok f" "a = no_attrs\<lparr>a_fn := Some f\<rparr>"
proof -
  consider "op = ''call''" | "op = ''cast''" | "op = ''field''"
    | "op \<noteq> ''call''" "op \<noteq> ''cast''" "op \<noteq> ''field''" by blast
  then show ?thesis
  proof cases
    case 1
    with assms show ?thesis by (auto split: option.splits intro: that(7))
  next
    case 2
    with assms show ?thesis by (auto simp: length_Suc_conv split: option.splits intro: that(4))
  next
    case 3
    with assms show ?thesis by (auto simp: length_Suc_conv split: option.splits intro: that(5))
  next
    case 4
    with assms have a: "a = no_attrs" and o: "length args = 2 \<and> (binop_token op \<noteq> None \<or> op = ''index'')
          \<or> length args = 1 \<and> (unop_token op \<noteq> None \<or> op = ''post_inc'' \<or> op = ''post_dec'')"
      by simp_all
    from o show ?thesis
    proof
      assume h: "length args = 2 \<and> (binop_token op \<noteq> None \<or> op = ''index'')"
      then obtain l r where "args = [l, r]" by (auto simp: numeral_2_eq_2 length_Suc_conv)
      with h a that(1,2) show ?thesis by blast
    next
      assume h: "length args = 1 \<and> (unop_token op \<noteq> None \<or> op = ''post_inc'' \<or> op = ''post_dec'')"
      then obtain x where "args = [x]" by (auto simp: length_Suc_conv)
      with h a that(3,6) show ?thesis by blast
    qed
  qed
qed

definition op_body :: "string \<Rightarrow> expr list \<Rightarrow> op_attrs \<Rightarrow> token list" where
  "op_body op args a =
     (if op = ''call'' then call_tokens (the (a_fn a)) (map (\<lambda>e. print_tokens e 0) args)
      else body_tokens op (map print_tokens args) a)"

lemma print_op:
  "print_tokens (EOp op args a) k =
     (if op_prec op \<le> k then tok ''('' # op_body op args a @ [tok '')''] else op_body op args a)"
  by (simp add: print_tokens.simps(4) op_body_def Let_def)

lemma op_body_cases:
  "binop_token op = Some t \<Longrightarrow> op_body op [l, r] a
     = print_tokens l (lbp t - 1) @ tok t # print_tokens r (lbp t)"
  "op_body ''index'' [l, r] a = print_tokens l 109 @ tok ''['' # print_tokens r 0 @ [tok '']'']"
  "unop_token op = Some t \<Longrightarrow> op_body op [x] a = tok t # print_tokens x 99"
  "op_body ''cast'' [x] a
     = tok ''('' # cast_tokens (the (a_type a)) @ tok '')'' # print_tokens x 99"
  "op_body ''field'' [x] a = print_tokens x 119 @ [tok ''.'', (TName, the (a_field a))]"
  "op = ''post_inc'' \<or> op = ''post_dec'' \<Longrightarrow> op_body op [x] a
     = print_tokens x 129 @ [tok (if op = ''post_inc'' then ''++'' else ''--'')]"
  "op_body ''call'' args a = call_tokens (the (a_fn a)) (map (\<lambda>e. print_tokens e 0) args)"
proof -
  show "op_body op [l, r] a = print_tokens l (lbp t - 1) @ tok t # print_tokens r (lbp t)"
    if "binop_token op = Some t"
  proof -
    have "op \<noteq> ''call''" using binop_token_cases(7) [OF that] by simp
    with that show ?thesis by (simp add: op_body_def body_tokens_def)
  qed
  show "op_body op [x] a = tok t # print_tokens x 99" if "unop_token op = Some t"
  proof -
    have "op \<noteq> ''call''" using unop_token_cases(6) [OF that] by simp
    with that show ?thesis by (simp add: op_body_def body_tokens_def)
  qed
  show "op_body op [x] a
     = print_tokens x 129 @ [tok (if op = ''post_inc'' then ''++'' else ''--'')]"
    if "op = ''post_inc'' \<or> op = ''post_dec''"
    using that by (elim disjE) (simp_all add: op_body_def body_tokens_def)
qed (simp_all add: op_body_def body_tokens_def)

lemma head_ok_print: "printable e \<Longrightarrow> head_ok (print_tokens e k @ rest)"
proof (induction e arbitrary: k rest)
  case (EName n)
  then show ?case by (auto simp: head_ok_Cons name_ok_def ident_not_paren)
next
  case (EConst v t)
  then show ?case
    by (auto simp: head_ok_Cons digits_not_paren quoted_not_paren split: const_val.splits)
next
  case (EOp op args a)
  have "head_ok (op_body op args a @ rest)" for rest
    using EOp.prems
  proof (cases rule: printable_opE)
    case (binary l r t)
    with EOp show ?thesis by (simp add: op_body_cases(1))
  next
    case (index l r)
    with EOp show ?thesis by (simp add: op_body_cases(2))
  next
    case (unary x t)
    then show ?thesis using EOp unop_token_cases(2,4) [of op t]
      by (simp add: op_body_cases(3) tok_def head_ok_Cons)
  next
    case (cast x ty)
    then show ?thesis by (simp add: op_body_cases(4) tok_def head_ok_Cons)
  next
    case (field x f)
    with EOp show ?thesis by (simp add: op_body_cases(5))
  next
    case (postfix x)
    with EOp show ?thesis by (simp only: op_body_cases(6)) simp
  next
    case (call f)
    then show ?thesis
      by (simp add: op_body_cases(7) call_tokens_def head_ok_Cons name_ok_def ident_not_paren)
  qed
  then show ?case by (simp add: print_op tok_def head_ok_Cons)
qed simp

section \<open>The parser reads what the printer writes\<close>

lemma led_loop_stop:
  "ts \<noteq> [] \<Longrightarrow> lbp (snd (hd ts)) \<le> m \<Longrightarrow> led_loop p m e ts = Inr (e, ts)"
  by (cases ts) (auto simp: led_loop.simps [of p m e "_ # _"] peek_def)

lemma led_loop_step:
  assumes "m < lbp tv" "led p left ((TOp, tv) # ts) = Inr (left', ts')" "length ts' \<le> length ts"
  shows "led_loop p m left ((TOp, tv) # ts) = led_loop p m left' ts'"
  using assms by (simp add: led_loop.simps [of p m left "(TOp, tv) # ts"] peek_def)

definition reads :: "nat \<Rightarrow> expr \<Rightarrow> bool" where
  "reads f e \<longleftrightarrow> (\<forall>g k m rest. f \<le> Suc g \<longrightarrow> m \<le> k \<longrightarrow> rest \<noteq> [] \<longrightarrow> lbp (snd (hd rest)) \<le> Suc k \<longrightarrow>
     parse (Suc g) m (print_tokens e k @ rest) = led_loop (parse g) m e rest)"

lemma reads_stop:
  assumes "reads f e" "f \<le> g" "0 < f" "rest \<noteq> []" "lbp (snd (hd rest)) \<le> k"
  shows "parse g k (print_tokens e k @ rest) = Inr (e, rest)"
proof -
  obtain g' where "g = Suc g'" using assms(2,3) by (cases g) auto
  with assms led_loop_stop [of rest k] show ?thesis by (simp add: reads_def)
qed

lemma parse_depth_pos: "0 < parse_depth e" by (cases e) auto

lemma cast_words_type:
  "\<forall>w\<in>set ws. w \<in> set cast_types \<or> w = ''*'' \<Longrightarrow>
     cast_words (map (\<lambda>w. (if w = ''*'' then TOp else TName, w)) ws @ (TOp, '')'') # ts)
       = (ws, (TOp, '')'') # ts)"
  using cast_types_facts by (induction ws) auto

lemma try_cast_type_tokens:
  assumes "type_ok ty"
  shows "try_cast_type (cast_tokens ty @ tok '')'' # ts) = Inr (Some (ty, ts))"
  using assms cast_words_type [of "split_on CHR '' '' ty" ts] join_split_on [of "CHR '' ''" ty]
  by (simp add: type_ok_def try_cast_type_def cast_tokens_def tok_def peek_def)

lemma nud_leaf:
  "name_ok n \<Longrightarrow> nud p ((TName, n) # ts) = Inr (EName n, ts)"
  "0 \<le> i \<Longrightarrow> nud p ((TNum, nat_digits (nat i)) # ts) = Inr (EConst (CInt i) ''int'', ts)"
  "nud p ((TStr, s) # ts) = Inr (EConst (CStr s) ''string'', ts)"
  "nud p ((TChar, s) # ts) = Inr (EConst (CStr s) ''char'', ts)"
  by (simp_all add: nud_def consume_def name_ok_def num_literal_digits)

lemma nud_unop:
  assumes "map_of unop_table t = Some op" "t \<noteq> ''(''" "p 99 ts = Inr (x, rest)"
  shows "nud p (tok t # ts) = Inr (expr_op op [x], rest)"
  using assms by (simp add: nud_def tok_def consume_def)

lemma nud_paren:
  assumes "head_ok ts" "p 0 ts = Inr (e, tok '')'' # rest)"
  shows "nud p (tok ''('' # ts) = Inr (e, rest)"
  using assms by (simp add: nud_def tok_def consume_def try_cast_none expect_def)

lemma nud_cast:
  assumes "type_ok ty" "p 99 ts = Inr (x, rest)"
  shows "nud p (tok ''('' # cast_tokens ty @ tok '')'' # ts)
    = Inr (EOp ''cast'' [x] (no_attrs\<lparr>a_type := Some ty\<rparr>), rest)"
  using assms try_cast_type_tokens [OF assms(1), of ts] by (simp add: nud_def tok_def consume_def)

lemma led_binop:
  assumes "map_of binop_table t = Some op" "p (lbp t) ts = Inr (r, rest)"
  shows "led p l (tok t # ts) = Inr (expr_op op [l, r], rest)"
  using assms by (simp add: led_def tok_def consume_def)

lemma led_index:
  assumes "p 0 ts = Inr (i, tok '']'' # rest)"
  shows "led p l (tok ''['' # ts) = Inr (expr_op ''index'' [l, i], rest)"
  using assms by (simp add: led_def tok_def consume_def expect_def)

lemma led_field: "led p l (tok ''.'' # (TName, f) # ts) = Inr (EOp ''field'' [l] (no_attrs\<lparr>a_field := Some f\<rparr>), ts)"
  by (simp add: led_def tok_def consume_def)

lemma led_postfix:
  "led p l (tok ''++'' # ts) = Inr (expr_op ''post_inc'' [l], ts)"
  "led p l (tok ''--'' # ts) = Inr (expr_op ''post_dec'' [l], ts)"
  by (simp_all add: led_def tok_def consume_def)

lemma print_tokens_ne: "printable e \<Longrightarrow> print_tokens e k @ ts \<noteq> []"
  using head_ok_print [of e k "[]"] by (auto simp: head_ok_def)

lemma length_print: "printable e \<Longrightarrow> 0 < length (print_tokens e k)"
  using print_tokens_ne [of e k "[]"] by auto

lemma call_args_print:
  assumes "\<forall>e\<in>set es. printable e \<and> reads (parse_depth e) e \<and> parse_depth e \<le> g"
  shows "call_args (parse g) (concat (map (\<lambda>b. tok '','' # print_tokens b 0) es) @ tok '')'' # rest)
    = Inr (es, tok '')'' # rest)"
  using assms
proof (induction es)
  case Nil
  show ?case by (simp add: call_args.simps [of _ "_ # _"] peek_def tok_def)
next
  case (Cons e es)
  let ?r = "concat (map (\<lambda>b. tok '','' # print_tokens b 0) es) @ tok '')'' # rest"
  have r: "?r \<noteq> []" "lbp (snd (hd ?r)) \<le> 0" by (cases es; simp add: tok_def)+
  have "parse g 0 (print_tokens e 0 @ ?r) = Inr (e, ?r)"
    using Cons.prems parse_depth_pos [of e] r by (intro reads_stop [of "parse_depth e"]) auto
  then show ?case
    using Cons by (simp add: call_args.simps [of _ "_ # _"] peek_def tok_def)
qed

lemma led_call:
  assumes "\<forall>e\<in>set args. printable e \<and> reads (parse_depth e) e \<and> parse_depth e \<le> g"
  shows "led (parse g) (EName f) (tl (call_tokens f (map (\<lambda>e. print_tokens e 0) args)) @ rest)
    = Inr (EOp ''call'' args (no_attrs\<lparr>a_fn := Some f\<rparr>), rest)"
proof (cases args)
  case Nil
  then show ?thesis
    by (simp add: call_tokens_def led_def tok_def consume_def peek_def expect_def node_name_def)
next
  case (Cons e es)
  let ?r = "concat (map (\<lambda>b. tok '','' # print_tokens b 0) es) @ tok '')'' # rest"
  have r: "?r \<noteq> []" "lbp (snd (hd ?r)) \<le> 0" by (cases es; simp add: tok_def)+
  have p: "parse g 0 (print_tokens e 0 @ ?r) = Inr (e, ?r)"
    using assms Cons parse_depth_pos [of e] r by (intro reads_stop [of "parse_depth e"]) auto
  have c: "call_args (parse g) ?r = Inr (es, tok '')'' # rest)"
    using assms Cons by (intro call_args_print) simp
  obtain tt tv ts where ht: "print_tokens e 0 @ ?r = (tt, tv) # ts"
    using print_tokens_ne [of e 0 ?r] assms Cons by (cases "print_tokens e 0 @ ?r") auto
  have tv: "tv \<noteq> '')''"
    using head_ok_print [of e 0 ?r] assms Cons cast_types_facts(3)
    by (auto simp: ht head_ok_Cons split: if_splits)
  have "tl (call_tokens f (map (\<lambda>e. print_tokens e 0) args)) @ rest = tok ''('' # print_tokens e 0 @ ?r"
    by (simp add: call_tokens_def Cons o_def)
  then show ?thesis
    using p c tv unfolding ht
    by (simp add: led_def tok_def consume_def peek_def expect_def node_name_def Cons)
qed

lemma parse_leaf:
  "nud (parse g) (t # rest) = Inr (e, rest) \<Longrightarrow> parse (Suc g) m (t # rest) = led_loop (parse g) m e rest"
  by simp

lemma parse_body:
  assumes "printable (EOp op args a)" "\<forall>e\<in>set args. reads (parse_depth e) e"
    and "sum_list (map parse_depth args) \<le> g" "m < op_prec op"
    and "rest \<noteq> []" "lbp (snd (hd rest)) \<le> op_prec op"
  shows "parse (Suc g) m (op_body op args a @ rest) = led_loop (parse g) m (EOp op args a) rest"
proof -
  have pr: "\<forall>e\<in>set args. printable e" using assms(1) by (simp add: list_all_iff)
  have d: "e \<in> set args \<Longrightarrow> parse_depth e \<le> g" for e
    using member_le_sum_list [of "parse_depth e" "map parse_depth args"] assms(3) by simp
  have step: "parse (Suc g) m (print_tokens l k @ (TOp, t) # ts) = led_loop (parse g) m e rest"
    if "l \<in> set args" "m \<le> k" "lbp t \<le> Suc k" "m < lbp t"
      "led (parse g) l ((TOp, t) # ts) = Inr (e, rest)" "length rest \<le> length ts" for l k t ts e
  proof -
    have "parse (Suc g) m (print_tokens l k @ (TOp, t) # ts) = led_loop (parse g) m l ((TOp, t) # ts)"
      using assms(2) that d [OF that(1)] by (simp add: reads_def)
    then show ?thesis using led_loop_step [OF that(4,5,6)] by simp
  qed
  have arg: "parse g k (print_tokens x k @ ts) = Inr (x, ts)"
    if "x \<in> set args" "ts \<noteq> []" "lbp (snd (hd ts)) \<le> k" for x k ts
    using assms(2) that d [OF that(1)] parse_depth_pos [of x] by (intro reads_stop [of "parse_depth x"]) auto
  from assms(1) show ?thesis
  proof (cases rule: printable_opE)
    case (binary l r t)
    note bt = binop_token_cases [OF binary(2)]
    have "led (parse g) l ((TOp, t) # print_tokens r (lbp t) @ rest) = Inr (expr_op op [l, r], rest)"
      using led_binop [OF bt(1), of "parse g"] arg [of r rest "lbp t"] assms(5,6) bt(8) binary(1)
      by (simp add: tok_def)
    from step [OF _ _ _ _ this, of "lbp t - 1"] show ?thesis
      using assms(4) bt(2,8) by (simp add: op_body_cases(1) [OF binary(2)] binary(1,3) tok_def)
  next
    case (index l r)
    have "parse g 0 (print_tokens r 0 @ tok '']'' # rest) = Inr (r, tok '']'' # rest)"
      by (rule arg) (simp_all add: index(1) tok_def)
    from led_index [where p = "parse g", OF this] have "led (parse g) l ((TOp, ''['') # print_tokens r 0 @ tok '']'' # rest)
        = Inr (expr_op ''index'' [l, r], rest)" by (simp add: tok_def)
    from step [OF _ _ _ _ this, of 109] show ?thesis
      using assms(4) by (simp add: op_body_cases(2) index tok_def)
  next
    case (unary x t)
    note ut = unop_token_cases [OF unary(2)]
    have "parse g 99 (print_tokens x 99 @ rest) = Inr (x, rest)"
      using assms(5,6) ut(7) by (intro arg) (simp_all add: unary(1))
    from nud_unop [where p = "parse g", OF ut(1,3) this] show ?thesis
      by (simp add: op_body_cases(3) [OF unary(2)] unary(1,3))
  next
    case (cast x ty)
    have "parse g 99 (print_tokens x 99 @ rest) = Inr (x, rest)"
      using assms(5,6) cast(2) by (intro arg) (simp_all add: cast(1))
    from nud_cast [where p = "parse g", OF cast(3) this] show ?thesis
      by (simp add: op_body_cases(4) cast(1,2,4))
  next
    case (field x f)
    have "led (parse g) x ((TOp, ''.'') # (TName, f) # rest)
        = Inr (EOp ''field'' [x] (no_attrs\<lparr>a_field := Some f\<rparr>), rest)"
      using led_field [of "parse g" x f rest] by (simp add: tok_def)
    from step [OF _ _ _ _ this, of 119] show ?thesis
      using assms(4) by (simp add: op_body_cases(5) field(1,2,4) tok_def)
  next
    case (postfix x)
    let ?t = "if op = ''post_inc'' then ''++'' else ''--''"
    have "led (parse g) x ((TOp, ?t) # rest) = Inr (expr_op op [x], rest)" "lbp ?t = 130"
      using postfix(2) led_postfix [of "parse g" x rest] by (auto simp: tok_def)
    from step [OF _ _ _ _ this(1), of 129] this(2) show ?thesis
      using assms(4) postfix(2) by (auto simp: op_body_cases(6) postfix(1,3) tok_def)
  next
    case (call f)
    have "led (parse g) (EName f) (tl (call_tokens f (map (\<lambda>e. print_tokens e 0) args)) @ rest)
      = Inr (EOp ''call'' args (no_attrs\<lparr>a_fn := Some f\<rparr>), rest)"
      using led_call pr assms(2) d by blast
    moreover obtain ts where "call_tokens f (map (\<lambda>e. print_tokens e 0) args) @ rest
        = (TName, f) # (TOp, ''('') # ts" "length rest \<le> length ts"
      by (auto simp: call_tokens_def tok_def)
    ultimately show ?thesis
      using assms(4) nud_leaf(1) [OF call(2)] led_loop_step [of m "''(''" "parse g" "EName f" ts _ rest]
      by (simp add: op_body_cases(7) call(1,3) call_tokens_def tok_def)
  qed
qed

lemma reads_printable: "printable e \<Longrightarrow> reads (parse_depth e) e"
proof (induction e)
  case (EName n)
  then show ?case by (auto simp: reads_def nud_leaf)
next
  case (EConst v t)
  then show ?case by (auto simp: reads_def nud_leaf split: const_val.splits)
next
  case (EOp op args a)
  have args: "\<forall>e\<in>set args. reads (parse_depth e) e" using EOp by (simp add: list_all_iff)
  show ?case
    unfolding reads_def
  proof (intro allI impI)
    fix g k m and rest :: "token list"
    assume g: "parse_depth (EOp op args a) \<le> Suc g" and mk: "m \<le> k" "rest \<noteq> []"
      "lbp (snd (hd rest)) \<le> Suc k"
    show "parse (Suc g) m (print_tokens (EOp op args a) k @ rest)
        = led_loop (parse g) m (EOp op args a) rest"
    proof (cases "op_prec op \<le> k")
      case False
      then show ?thesis using parse_body [OF EOp.prems args, of g m rest] g mk by (simp add: print_op)
    next
      case True
      obtain g' where g': "g = Suc g'" "sum_list (map parse_depth args) \<le> g'"
        using g by (cases g) auto
      have pos: "0 < op_prec op"
        using EOp.prems by (cases rule: printable_opE)
          (auto simp: binop_token_cases(2,8) unop_token_cases(7))
      have "parse g 0 (op_body op args a @ tok '')'' # rest) = Inr (EOp op args a, tok '')'' # rest)"
        using parse_body [OF EOp.prems args g'(2), of 0 "tok '')'' # rest"] pos
        by (simp add: g'(1) tok_def led_loop_stop)
      moreover have "head_ok (op_body op args a @ tok '')'' # rest)"
        using head_ok_print [OF EOp.prems, of 0 "tok '')'' # rest"] pos by (simp add: print_op)
      ultimately show ?thesis using True by (simp add: print_op nud_paren)
    qed
  qed
qed simp

lemma parse_print:
  assumes "printable e" "parse_depth e \<le> fuel"
  shows "parse fuel 0 (print_tokens e 0 @ [(TEof, [])]) = Inr (e, [(TEof, [])])"
proof -
  have "lbp [] = 0" by (simp add: lbp_def lbp_table_def)
  then show ?thesis
    using assms reads_printable parse_depth_pos by (intro reads_stop [of "parse_depth e"]) auto
qed

section \<open>Printing to a string\<close>

definition print_expr :: "expr \<Rightarrow> string" where
  "print_expr e = str_join '' '' (map snd (print_tokens e 0))"

definition op_tokens :: "string list" where
  "op_tokens = map fst binop_table @ map fst unop_table
     @ [''('', '')'', ''['', '']'', '','', ''.'', ''*'']"

definition token_ok :: "token \<Rightarrow> bool" where
  "token_ok t = (case t of (tt, s) \<Rightarrow>
     (case tt of
        TNum \<Rightarrow> s \<noteq> [] \<and> list_all is_digit s
      | TStr \<Rightarrow> is_quoted dquote s
      | TChar \<Rightarrow> is_quoted squote s
      | TName \<Rightarrow> is_ident s
      | TOp \<Rightarrow> s \<in> set op_tokens
      | TEof \<Rightarrow> False))"

lemma scan_closed: "closed_quoted q u \<Longrightarrow> scan_quoted q (u @ v) = (u, v)"
  by (induction q u rule: closed_quoted.induct) (auto split: if_splits, (cases v; simp)+)

lemma blank_or_end: "s = [] \<or> hd s = CHR '' '' \<Longrightarrow>
   takeWhile is_num_char s = [] \<and> dropWhile is_num_char s = s \<and>
   takeWhile is_word s = [] \<and> dropWhile is_word s = s"
  by (cases s) (auto simp: is_num_char_def is_digit_def is_word_def is_alnum_def is_alpha_def is_upper_def)

lemma takeWhile_all_append:
  "list_all P u \<Longrightarrow> takeWhile P (u @ v) = u @ takeWhile P v \<and> dropWhile P (u @ v) = dropWhile P v"
  by (simp add: list_all_iff)

lemma op_tokens_start:
  "list_all (\<lambda>t. case t of [] \<Rightarrow> False | c # u \<Rightarrow>
     \<not> is_blank c \<and> c \<noteq> dquote \<and> c \<noteq> squote \<and> \<not> is_digit c \<and> \<not> is_alpha c \<and> c \<noteq> CHR ''_''
     \<and> [c, CHR '' ''] \<notin> set two_char_ops
     \<and> (u = [] \<or> length u = 1 \<and> \<not> is_digit (hd u) \<and> [c, hd u] \<in> set two_char_ops)) op_tokens"
  by code_simp

lemma tokenize_op:
  assumes "t \<in> set op_tokens" "s = [] \<or> hd s = CHR '' ''"
  shows "tokenize (t @ s) = (TOp, t) # tokenize s"
proof -
  have sp: "\<not> is_digit CHR '' ''" by code_simp
  from op_tokens_start [unfolded list_all_iff, THEN bspec, OF assms(1)]
  obtain c u where t: "t = c # u" and c: "\<not> is_blank c" "c \<noteq> dquote" "c \<noteq> squote" "\<not> is_digit c"
      "\<not> is_alpha c" "c \<noteq> CHR ''_''" "[c, CHR '' ''] \<notin> set two_char_ops"
      "u = [] \<or> length u = 1 \<and> \<not> is_digit (hd u) \<and> [c, hd u] \<in> set two_char_ops"
    by (auto split: list.splits)
  from c(8) consider "u = []" | d where "u = [d]" "\<not> is_digit d" "[c, d] \<in> set two_char_ops"
    by (cases u) auto
  then show ?thesis
  proof cases
    case 1
    have "\<not> (s \<noteq> [] \<and> [c, hd s] \<in> set two_char_ops)" using assms(2) c(7) by auto
    moreover have "\<not> (case s of [] \<Rightarrow> False | d # _ \<Rightarrow> is_digit d)"
      using assms(2) sp by (cases s) auto
    ultimately show ?thesis using c by (simp add: t 1 tokenize.simps(2))
  next
    case 2
    then show ?thesis using c by (simp add: t tokenize.simps(2))
  qed
qed

lemma ident_start: "is_ident (c # u) \<Longrightarrow> (is_alpha c \<or> c = CHR ''_'') \<and> list_all is_word u
    \<and> \<not> is_blank c \<and> c \<noteq> dquote \<and> c \<noteq> squote \<and> \<not> is_digit c \<and> c \<noteq> CHR ''.''"
  by (auto simp: is_ident_def is_id_start_def is_blank_def is_alpha_def is_digit_def is_upper_def Let_def)

lemma tokenize_token:
  assumes "token_ok t" "s = [] \<or> hd s = CHR '' ''"
  shows "tokenize (snd t @ s) = t # tokenize s"
proof -
  obtain tt w where t: "t = (tt, w)" by (cases t)
  note be = blank_or_end [OF assms(2)]
  show ?thesis
  proof (cases tt)
    case TNum
    then obtain c u where w: "w = c # u" "is_digit c" "list_all is_digit u"
      using assms(1) by (cases w) (auto simp: token_ok_def t)
    have "list_all is_num_char u" using w(3) digit_classes(13) by (auto simp: list_all_iff)
    from takeWhile_all_append [OF this, of s] be digit_classes [OF w(2)] w(2) show ?thesis
      by (simp add: t TNum w(1) tokenize.simps(2))
  next
    case TStr
    then obtain u where w: "w = dquote # u" "closed_quoted dquote u"
      using assms(1) by (cases w) (auto simp: token_ok_def t is_quoted_def)
    then show ?thesis using scan_closed [OF w(2), of s] by (simp add: t TStr tokenize.simps(2) is_blank_def)
  next
    case TChar
    then obtain u where w: "w = squote # u" "closed_quoted squote u"
      using assms(1) by (cases w) (auto simp: token_ok_def t is_quoted_def)
    then show ?thesis using scan_closed [OF w(2), of s] by (simp add: t TChar tokenize.simps(2) is_blank_def)
  next
    case TName
    then obtain c u where w: "w = c # u" and i: "is_ident (c # u)"
      using assms(1) by (cases w) (auto simp: token_ok_def t is_ident_def)
    note st = ident_start [OF i]
    then have "list_all is_word u" by simp
    from takeWhile_all_append [OF this, of s] be st show ?thesis
      by (auto simp add: t TName w tokenize.simps(2))
  next
    case TOp
    then show ?thesis using assms tokenize_op [of w s] by (simp add: t token_ok_def)
  next
    case TEof
    then show ?thesis using assms(1) by (simp add: t token_ok_def)
  qed
qed

lemma tokenize_join:
  "ts \<noteq> [] \<Longrightarrow> list_all token_ok ts \<Longrightarrow> tokenize (str_join '' '' (map snd ts)) = ts @ [(TEof, [])]"
proof (induction ts rule: induct_list012)
  case (2 t)
  then show ?case using tokenize_token [of t "[]"] by simp
next
  case (3 t t' ts)
  have "tokenize (CHR '' '' # s) = tokenize s" for s by (simp add: tokenize.simps(2) is_blank_def)
  with 3 tokenize_token [of t "CHR '' '' # str_join '' '' (map snd (t' # ts))"] show ?case by simp
qed simp

lemma cast_types_ident: "list_all is_ident cast_types" by code_simp

lemma token_ok_ops [simp]:
  "token_ok (tok ''('')" "token_ok (tok '')'')" "token_ok (tok ''['')" "token_ok (tok '']'')"
  "token_ok (tok '','')" "token_ok (tok ''.'')" "token_ok (tok ''++'')" "token_ok (tok ''--'')"
  by (simp_all add: token_ok_def tok_def op_tokens_def unop_table_def)

lemma token_ok_tables:
  "map_of binop_table t = Some op \<Longrightarrow> token_ok (tok t)"
  "map_of unop_table t = Some op \<Longrightarrow> token_ok (tok t)"
  by (auto simp: token_ok_def tok_def op_tokens_def dest!: map_of_SomeD intro: rev_image_eqI)

lemma print_tokens_ok: "printable e \<Longrightarrow> list_all token_ok (print_tokens e k)"
proof (induction e arbitrary: k)
  case (EName n)
  then show ?case by (simp add: token_ok_def name_ok_def)
next
  case (EConst v t)
  then show ?case by (auto simp: token_ok_def nat_digits_all split: const_val.splits)
next
  case (EOp op args a)
  have args: "\<And>x k. x \<in> set args \<Longrightarrow> list_all token_ok (print_tokens x k)"
    using EOp by (simp add: list_all_iff)
  have "list_all token_ok (op_body op args a)"
    using EOp.prems
  proof (cases rule: printable_opE)
    case (binary l r t)
    then show ?thesis using args token_ok_tables(1) [OF binop_token_cases(1) [OF binary(2)]]
      by (simp add: op_body_cases(1))
  next
    case (index l r)
    then show ?thesis using args by (simp add: op_body_cases(2))
  next
    case (unary x t)
    then show ?thesis using args token_ok_tables(2) [OF unop_token_cases(1) [OF unary(2)]]
      by (simp add: op_body_cases(3))
  next
    case (cast x ty)
    have "token_ok (TOp, ''*'')" by (simp add: token_ok_def op_tokens_def)
    then have "list_all token_ok (cast_tokens ty)"
      using cast(3) cast_types_ident
      by (auto simp: cast_tokens_def list_all_iff type_ok_def token_ok_def)
    then show ?thesis using args cast by (simp add: op_body_cases(4))
  next
    case (field x f)
    have "token_ok (TName, f)" using field(3) by (simp add: token_ok_def)
    then show ?thesis using args field by (simp add: op_body_cases(5))
  next
    case (postfix x)
    then show ?thesis using args by (auto simp: op_body_cases(6))
  next
    case (call f)
    have "token_ok (TName, f)" using call(2) by (simp add: token_ok_def name_ok_def)
    have arg: "token_ok t" if "x \<in> set args" "t \<in> set (print_tokens x 0)" for x t
      using args [OF that(1), of 0] that(2) by (simp add: list_all_iff)
    show ?thesis using call arg \<open>token_ok (TName, f)\<close>
      unfolding list_all_iff by (cases args) (auto simp: op_body_cases(7) call_tokens_def)
  qed
  then show ?case by (simp add: print_op)
qed simp

lemma closed_last: "closed_quoted q u \<Longrightarrow> u \<noteq> [] \<and> last u = q"
  by (induction q u rule: closed_quoted.induct) (auto split: if_splits)

lemma word_ends: "is_word c \<Longrightarrow> \<not> is_space c \<and> c \<noteq> CHR '';''"
  by (auto simp: is_word_def is_alnum_def is_alpha_def is_upper_def is_digit_def is_space_def Let_def)

lemma op_tokens_ends:
  "list_all (\<lambda>t. t \<noteq> [] \<and> \<not> is_space (hd t) \<and> \<not> is_space (last t) \<and> last t \<noteq> CHR '';'') op_tokens"
  by code_simp

lemma quote_ends: "\<not> is_space dquote" "\<not> is_space squote"
  by code_simp+

lemma token_ends:
  assumes "token_ok t"
  shows "snd t \<noteq> [] \<and> \<not> is_space (hd (snd t)) \<and> \<not> is_space (last (snd t)) \<and> last (snd t) \<noteq> CHR '';''"
proof -
  obtain tt w where t: "t = (tt, w)" by (cases t)
  have word: "snd t \<noteq> [] \<and> \<not> is_space (hd (snd t)) \<and> \<not> is_space (last (snd t)) \<and> last (snd t) \<noteq> CHR '';''"
    if "w \<noteq> []" "list_all is_word w"
  proof -
    have "is_word (hd w)" "is_word (last w)" using that by (auto simp: list_all_iff)
    with that(1) word_ends show ?thesis by (simp add: t)
  qed
  show ?thesis
  proof (cases tt)
    case TNum
    then have "w \<noteq> []" "list_all is_digit w" using assms by (simp_all add: token_ok_def t)
    moreover have "is_digit c \<Longrightarrow> is_word c" for c by (simp add: is_word_def is_alnum_def)
    ultimately show ?thesis using word by (simp add: list_all_iff)
  next
    case TName
    then have "is_ident w" using assms by (simp add: token_ok_def t)
    then have "w \<noteq> []" "list_all is_word w"
      by (auto simp: is_ident_def is_id_start_def is_word_def is_alnum_def split: list.splits)
    then show ?thesis by (rule word)
  next
    case TStr
    then obtain u where "w = dquote # u" "closed_quoted dquote u"
      using assms by (cases w) (auto simp: token_ok_def t is_quoted_def)
    with closed_last quote_ends show ?thesis by (auto simp: t)
  next
    case TChar
    then obtain u where "w = squote # u" "closed_quoted squote u"
      using assms by (cases w) (auto simp: token_ok_def t is_quoted_def)
    with closed_last quote_ends show ?thesis by (auto simp: t)
  next
    case TOp
    then show ?thesis
      using assms op_tokens_ends [unfolded list_all_iff, THEN bspec, of w] by (simp add: t token_ok_def)
  next
    case TEof
    then show ?thesis using assms by (simp add: t token_ok_def)
  qed
qed

lemma join_ends:
  "ts \<noteq> [] \<Longrightarrow> list_all token_ok ts \<Longrightarrow>
     str_join '' '' (map snd ts) \<noteq> [] \<and> hd (str_join '' '' (map snd ts)) = hd (snd (hd ts))
     \<and> last (str_join '' '' (map snd ts)) = last (snd (last ts))"
proof (induction ts rule: induct_list012)
  case (2 t)
  then show ?case using token_ends [of t] by simp
next
  case (3 t t' ts)
  then show ?case using token_ends [of t] by simp
qed simp

lemma parse_print_expr:
  assumes "printable e" "parse_depth e \<le> fuel"
  shows "parse_expr fuel (print_expr e) = Some e"
proof -
  let ?ts = "print_tokens e 0" and ?s = "print_expr e"
  have ts: "?ts \<noteq> []" "list_all token_ok ?ts"
    using print_tokens_ne [OF assms(1), of 0 "[]"] print_tokens_ok [OF assms(1)] by simp_all
  then have "token_ok (hd ?ts)" "token_ok (last ?ts)" by (auto simp: list_all_iff)
  note ends = token_ends [OF this(1)] token_ends [OF this(2)] join_ends [OF ts, folded print_expr_def]
  have strip: "str_strip ?s = ?s" using ends by (intro strip_by_id) auto
  have semi: "rstrip_by (\<lambda>c. c = CHR '';'') ?s = ?s" using ends by (intro rstrip_by_id) auto
  have "tokenize ?s = ?ts @ [(TEof, [])]" unfolding print_expr_def by (rule tokenize_join [OF ts])
  with strip semi ends parse_print [OF assms] show ?thesis
    by (simp add: parse_expr_def Let_def peek_def)
qed

section \<open>The parser ends\<close>

text \<open>
  A recursive call always has a shorter token list than its caller, so a budget above the number of
  tokens is never exhausted, and with the end token in place the position never runs off the list.
\<close>

definition eof_last :: "token list \<Rightarrow> bool" where
  "eof_last ts \<longleftrightarrow> ts \<noteq> [] \<and> fst (last ts) = TEof \<and> (\<forall>t\<in>set ts. fst t = TEof \<longrightarrow> snd t = [])
     \<and> (\<forall>t\<in>set (butlast ts). fst t \<noteq> TEof)"

text \<open>What every parser step does to the token list: it leaves a shorter suffix that still has its end.\<close>

definition advances :: "token list \<Rightarrow> ('a \<times> token list) py \<Rightarrow> bool" where
  "advances ts r \<longleftrightarrow> (case r of
      Inl e \<Rightarrow> (\<exists>s. e = ValueError s)
    | Inr (x, ts') \<Rightarrow> eof_last ts' \<and> length ts' < length ts)"

lemma eof_last_Cons: "eof_last (t # ts) \<Longrightarrow> fst t \<noteq> TEof \<Longrightarrow> eof_last ts"
  by (cases ts) (auto simp: eof_last_def)

lemma eof_last_ConsI: "fst t \<noteq> TEof \<Longrightarrow> eof_last ts \<Longrightarrow> eof_last (t # ts)"
  by (auto simp: eof_last_def)

lemma consume_eof:
  assumes "eof_last ts"
  obtains tt tv ts' where "ts = (tt, tv) # ts'" "consume ts = Inr ((tt, tv), ts')"
    "peek ts = Inr (tt, tv)" "tt = TEof \<longrightarrow> tv = []" "tt \<noteq> TEof \<longrightarrow> eof_last ts'"
proof -
  from assms obtain tt tv ts' where ts: "ts = (tt, tv) # ts'" by (cases ts) (auto simp: eof_last_def)
  show ?thesis
  proof (rule that [OF ts])
    show "consume ts = Inr ((tt, tv), ts')" "peek ts = Inr (tt, tv)"
      by (simp_all add: ts consume_def peek_def)
    show "tt = TEof \<longrightarrow> tv = []" using assms by (simp add: ts eof_last_def)
    show "tt \<noteq> TEof \<longrightarrow> eof_last ts'" using eof_last_Cons assms by (simp add: ts)
  qed
qed

definition tail_ok :: "token list \<Rightarrow> token list py \<Rightarrow> bool" where
  "tail_ok ts r \<longleftrightarrow> (case r of Inl e \<Rightarrow> (\<exists>s. e = ValueError s)
     | Inr ts' \<Rightarrow> eof_last ts' \<and> length ts' < length ts)"

lemma expect_tail: "eof_last ts \<Longrightarrow> v \<noteq> [] \<Longrightarrow> tail_ok ts (expect v ts)"
  by (erule consume_eof) (auto simp: expect_def tail_ok_def)

lemma advances_bind:
  assumes "advances ts r" "\<And>x ts'. r = Inr (x, ts') \<Longrightarrow> eof_last ts' \<Longrightarrow> length ts' < length ts
      \<Longrightarrow> advances us (f (x, ts'))"
  shows "advances us (py_bind r f)"
proof (cases r)
  case (Inl e)
  with assms(1) show ?thesis by (auto simp: advances_def)
next
  case (Inr y)
  with assms show ?thesis by (cases y) (auto simp: advances_def)
qed

lemma tail_bind:
  assumes "tail_ok ts r" "\<And>ts'. r = Inr ts' \<Longrightarrow> eof_last ts' \<Longrightarrow> length ts' < length ts
      \<Longrightarrow> advances us (f ts')"
  shows "advances us (py_bind r f)"
  using assms by (cases r) (auto simp: advances_def tail_ok_def)

lemma advances_Inr [simp]: "advances ts (Inr (x, ts')) \<longleftrightarrow> eof_last ts' \<and> length ts' < length ts"
  by (simp add: advances_def)

lemma advances_ValueError [simp]: "advances ts (Inl (ValueError s))"
  by (simp add: advances_def)

lemma sizeof_tokens_tail:
  "eof_last ts \<Longrightarrow> \<exists>inner rest. sizeof_tokens depth ts = Inr (inner, rest) \<and> eof_last rest
     \<and> length rest \<le> length ts"
proof (induction depth ts rule: sizeof_tokens.induct)
  case (1 depth)
  then show ?case by (simp add: eof_last_def)
next
  case (2 depth tt tv ts)
  show ?case
  proof (cases "tt = TEof \<or> tv = '')'' \<and> depth = 1")
    case True
    with "2.prems" eof_last_Cons [of "(tt, tv)" ts] show ?thesis by auto
  next
    case False
    with 2 eof_last_Cons [of "(tt, tv)" ts] show ?thesis by (fastforce intro: le_SucI)
  qed
qed

lemma cast_words_tail:
  "eof_last ts \<Longrightarrow> eof_last (snd (cast_words ts)) \<and> length (snd (cast_words ts)) \<le> length ts"
proof (induction ts rule: cast_words.induct)
  case (2 tt tv ts)
  then show ?case using eof_last_Cons [of "(tt, tv)" ts] by (auto simp: case_prod_beta intro: le_SucI)
qed simp

lemma try_cast_tail:
  assumes "eof_last ts"
  shows "\<exists>r. try_cast_type ts = Inr r \<and> (case r of None \<Rightarrow> True
    | Some (ty, rest) \<Rightarrow> eof_last rest \<and> length rest < length ts)"
proof -
  obtain ws rest where w: "cast_words ts = (ws, rest)" by (cases "cast_words ts")
  then have r: "eof_last rest" "length rest \<le> length ts" using cast_words_tail [OF assms] by simp_all
  from r(1) obtain tt tv us where us: "rest = (tt, tv) # us" "consume rest = Inr ((tt, tv), us)"
      "peek rest = Inr (tt, tv)" "tt = TEof \<longrightarrow> tv = []" "tt \<noteq> TEof \<longrightarrow> eof_last us"
    by (rule consume_eof)
  show ?thesis
  proof (cases "ws \<noteq> [] \<and> tv = '')''")
    case True
    then have "eof_last us" using us(4,5) by auto
    with True us(1,3) r(2) show ?thesis by (auto simp: try_cast_type_def w)
  next
    case False
    with us(1,3) show ?thesis by (auto simp: try_cast_type_def w)
  qed
qed

definition parser_ok :: "nat \<Rightarrow> (nat \<Rightarrow> token list \<Rightarrow> (expr \<times> token list) py) \<Rightarrow> bool" where
  "parser_ok n p \<longleftrightarrow> (\<forall>m ts. eof_last ts \<longrightarrow> length ts \<le> n \<longrightarrow> advances ts (p m ts))"

lemma parser_okD: "parser_ok n p \<Longrightarrow> eof_last ts \<Longrightarrow> length ts \<le> n \<Longrightarrow> advances ts (p m ts)"
  by (simp add: parser_ok_def)

lemma num_literal_result: "(\<exists>e. num_literal tv = Inr e) \<or> (\<exists>s. num_literal tv = Inl (ValueError s))"
  by (auto simp: num_literal_def Let_def split: option.splits)

lemma nud_advances:
  assumes p: "parser_ok n p" and "eof_last ts" "length ts \<le> Suc n"
  shows "advances ts (nud p ts)"
proof -
  from assms(2) obtain tt tv ts' where ts: "ts = (tt, tv) # ts'"
    "consume ts = Inr ((tt, tv), ts')" "peek ts = Inr (tt, tv)" "tt = TEof \<longrightarrow> tv = []"
    and eof: "tt \<noteq> TEof \<longrightarrow> eof_last ts'"
    by (rule consume_eof)
  have len: "length ts' \<le> n" using assms(3) ts by simp
  show ?thesis
  proof (cases tt)
    case TNum
    then show ?thesis using num_literal_result [of tv] eof ts
      by (auto simp: nud_def)
  next
    case TName
    note e = eof [unfolded TName, simplified]
    show ?thesis
    proof (cases "tv = ''sizeof''")
      case True
      from e obtain t2 v2 us where us: "ts' = (t2, v2) # us" "consume ts' = Inr ((t2, v2), us)"
        "peek ts' = Inr (t2, v2)" "t2 = TEof \<longrightarrow> v2 = []" "t2 \<noteq> TEof \<longrightarrow> eof_last us" by (rule consume_eof)
      show ?thesis
      proof (cases "v2 = ''(''")
        case par: True
        then have "eof_last us" using us(4,5) by auto
        from sizeof_tokens_tail [OF this, of 1] show ?thesis
          using True par us TName ts by (auto simp: nud_def)
      next
        case False
        have "advances ts (py_bind (p 100 ts') (\<lambda>(e, rest).
            Inr (EOp ''sizeof'' [e] (no_attrs\<lparr>a_of := Some None\<rparr>), rest)))"
          by (rule advances_bind [OF parser_okD [OF p e len]]) (auto simp: ts)
        then show ?thesis using True False us TName ts by (simp add: nud_def)
      qed
    next
      case False
      then show ?thesis using e ts TName by (auto simp: nud_def)
    qed
  next
    case TOp
    note e = eof [unfolded TOp, simplified]
    show ?thesis
    proof (cases "tv = ''(''")
      case True
      from try_cast_tail [OF e] obtain r where r: "try_cast_type ts' = Inr r"
        "case r of None \<Rightarrow> True | Some (ty, rest) \<Rightarrow> eof_last rest \<and> length rest < length ts'" by blast
      show ?thesis
      proof (cases r)
        case None
        have "advances ts (py_bind (p 0 ts') (\<lambda>(e, rest). py_bind (expect '')'' rest) (\<lambda>rest'. Inr (e, rest'))))"
        proof (rule advances_bind [OF parser_okD [OF p e len]])
          fix x us assume "eof_last us" "length us < length ts'"
          then show "advances ts (case (x, us) of (e, rest) \<Rightarrow> py_bind (expect '')'' rest) (\<lambda>rest'. Inr (e, rest')))"
            unfolding prod.case by (intro tail_bind [OF expect_tail]) (auto simp: ts)
        qed
        then show ?thesis using None r True TOp ts by (simp add: nud_def)
      next
        case (Some q)
        obtain ty rest where q: "q = (ty, rest)" by (cases q)
        with r(2) Some have "eof_last rest" "length rest \<le> n" "length rest < length ts'" using len by auto
        then have "advances ts (py_bind (p 99 rest) (\<lambda>(e, rest').
            Inr (EOp ''cast'' [e] (no_attrs\<lparr>a_type := Some ty\<rparr>), rest')))"
          by (intro advances_bind [OF parser_okD [OF p]]) (auto simp: ts)
        then show ?thesis using Some q r True TOp ts by (simp add: nud_def)
      qed
    next
      case False
      have "advances ts (py_bind (p 99 ts') (\<lambda>(e, rest). Inr (expr_op (the (map_of unop_table tv)) [e], rest)))"
        by (rule advances_bind [OF parser_okD [OF p e len]]) (auto simp: ts)
      then show ?thesis using False TOp ts by (simp add: nud_def)
    qed
  next
    case TEof
    then show ?thesis using ts by (simp add: nud_def)
  qed (use eof ts in \<open>auto simp: nud_def\<close>)
qed

lemma call_args_advances:
  assumes p: "parser_ok n p" and "eof_last ts" "length ts \<le> Suc n"
  shows "(\<exists>s. call_args p ts = Inl (ValueError s))
    \<or> (\<exists>as rest. call_args p ts = Inr (as, rest) \<and> eof_last rest \<and> length rest \<le> length ts)"
  using assms(2,3)
proof (induction "length ts" arbitrary: ts rule: less_induct)
  case less
  from less.prems(1) obtain tt tv us where us: "ts = (tt, tv) # us"
    "consume ts = Inr ((tt, tv), us)" "peek ts = Inr (tt, tv)" "tt = TEof \<longrightarrow> tv = []" "tt \<noteq> TEof \<longrightarrow> eof_last us" by (rule consume_eof)
  note step = call_args.simps [of p ts, unfolded us(3) py_bind_simps prod.case]
  show ?case
  proof (cases "tv = '',''")
    case False
    then show ?thesis using less.prems by (simp add: step)
  next
    case True
    then have e: "eof_last us" "length us \<le> n" using us less.prems by auto
    from parser_okD [OF p e, of 0] consider s where "p 0 us = Inl (ValueError s)"
      | a rest where "p 0 us = Inr (a, rest)" "eof_last rest" "length rest < length us"
      by (cases "p 0 us") (auto simp: advances_def)
    then show ?thesis
    proof cases
      case 1
      then have "call_args p ts = Inl (ValueError s)" unfolding step using us(1) True by simp
      then show ?thesis by blast
    next
      case (2 a rest)
      from less.hyps [of rest] 2 us less.prems
      have "(\<exists>s. call_args p rest = Inl (ValueError s)) \<or> (\<exists>as r. call_args p rest = Inr (as, r)
          \<and> eof_last r \<and> length r \<le> length rest)" by simp
      then show ?thesis using 2 us(1) True step by auto
    qed
  qed
qed

lemma advances_if:
  "(c \<Longrightarrow> advances ts a) \<Longrightarrow> (\<not> c \<Longrightarrow> advances ts b) \<Longrightarrow> advances ts (if c then a else b)"
  by simp

lemma led_advances:
  assumes p: "parser_ok n p" and "eof_last ts" "length ts \<le> Suc n" "fst (hd ts) \<noteq> TEof"
  shows "advances ts (led p left ts)"
proof -
  from assms(2) obtain tt tv ts' where ts: "ts = (tt, tv) # ts'"
    "consume ts = Inr ((tt, tv), ts')" "peek ts = Inr (tt, tv)" "tt = TEof \<longrightarrow> tv = []"
    and eof: "tt \<noteq> TEof \<longrightarrow> eof_last ts'"
    by (rule consume_eof)
  have len: "length ts' \<le> n" using assms(3) ts by simp
  have e: "eof_last ts'" using eof assms(4) by (simp add: ts)
    have bin: "advances ts (py_bind (p b ts') (\<lambda>(r, rest). Inr (f r, rest)))" for b f
      by (rule advances_bind [OF parser_okD [OF p e len]]) (auto simp: ts)
    have idx: "advances ts (py_bind (p 0 ts') (\<lambda>(e, rest). py_bind (expect '']'' rest) (\<lambda>rest'. Inr (f e, rest'))))"
      for f
    proof (rule advances_bind [OF parser_okD [OF p e len]])
      fix x us assume "eof_last us" "length us < length ts'"
      then show "advances ts (case (x, us) of (e, rest) \<Rightarrow> py_bind (expect '']'' rest) (\<lambda>rest'. Inr (f e, rest')))"
        unfolding prod.case by (intro tail_bind [OF expect_tail]) (auto simp: ts)
    qed
    from e obtain t2 v2 us where us: "ts' = (t2, v2) # us" "consume ts' = Inr ((t2, v2), us)"
      "peek ts' = Inr (t2, v2)" "t2 = TEof \<longrightarrow> v2 = []" "t2 \<noteq> TEof \<longrightarrow> eof_last us"
      by (rule consume_eof)
    have close: "advances ts (py_bind (expect '')'' rest) (\<lambda>rest'. Inr (g, rest')))"
      if "eof_last rest" "length rest \<le> length ts'" for rest and g :: expr
      by (rule tail_bind [OF expect_tail [OF that(1)]]) (use that ts in auto)
    have call: "advances ts (py_bind (if v2 \<noteq> '')'' then
                  py_bind (p 0 ts') (\<lambda>(a, rest).
                  py_bind (call_args p rest) (\<lambda>(as, rest'). Inr (a # as, rest')))
                else Inr ([], ts')) (\<lambda>(args, rest). py_bind (expect '')'' rest) (\<lambda>rest'. Inr (f args, rest'))))"
      for f :: "expr list \<Rightarrow> expr"
    proof (cases "v2 = '')''")
      case True
      then show ?thesis using close [OF e] by simp
    next
      case False
      from parser_okD [OF p e len, of 0] consider s where "p 0 ts' = Inl (ValueError s)"
        | a rest where "p 0 ts' = Inr (a, rest)" "eof_last rest" "length rest < length ts'"
        by (cases "p 0 ts'") (auto simp: advances_def)
      then show ?thesis
      proof cases
        case 1
        then show ?thesis using False by simp
      next
        case (2 a rest)
        from call_args_advances [OF p 2(2)] 2(3) len close show ?thesis
          using False 2(1) by fastforce
      qed
    qed
    show ?thesis
      unfolding led_def ts(2) us(2,3) py_bind_simps prod.case
      by (intro advances_if bin idx call advances_ValueError) (use e us ts in auto)
qed

lemma led_loop_advances:
  assumes p: "parser_ok n p" and "eof_last ts" "length ts \<le> Suc n"
  shows "(\<exists>s. led_loop p m left ts = Inl (ValueError s))
    \<or> (\<exists>e rest. led_loop p m left ts = Inr (e, rest) \<and> eof_last rest \<and> length rest \<le> length ts)"
  using assms(2,3)
proof (induction "length ts" arbitrary: ts left rule: less_induct)
  case less
  from less.prems(1) obtain tt tv us where us: "ts = (tt, tv) # us" "consume ts = Inr ((tt, tv), us)"
    "peek ts = Inr (tt, tv)" "tt = TEof \<longrightarrow> tv = []" "tt \<noteq> TEof \<longrightarrow> eof_last us" by (rule consume_eof)
  note step = led_loop.simps [of p m left ts, unfolded us(3) py_bind_simps prod.case]
  show ?case
  proof (cases "tt = TEof \<or> lbp tv \<le> m")
    case True
    then have "led_loop p m left ts = Inr (left, ts)" by (auto simp: step)
    then show ?thesis using less.prems by simp
  next
    case False
    with led_advances [OF p less.prems, of left] us(1)
    consider s where "led p left ts = Inl (ValueError s)"
      | l rest where "led p left ts = Inr (l, rest)" "eof_last rest" "length rest < length ts"
      by (cases "led p left ts") (auto simp: advances_def)
    then show ?thesis
    proof cases
      case 1
      then show ?thesis using False by (simp add: step)
    next
      case (2 l rest)
      from less.hyps [OF 2(3,2), of l] less.prems(2) 2 show ?thesis using False by (auto simp: step)
    qed
  qed
qed

lemma parse_advances: "eof_last ts \<Longrightarrow> length ts \<le> fuel \<Longrightarrow> advances ts (parse fuel m ts)"
proof (induction fuel arbitrary: m ts)
  case 0
  then show ?case by (simp add: eof_last_def)
next
  case (Suc fuel)
  then have p: "parser_ok fuel (parse fuel)" by (simp add: parser_ok_def)
  show ?case
    unfolding parse.simps
  proof (rule advances_bind [OF nud_advances [OF p Suc.prems]])
    fix x us assume us: "eof_last us" "length us < length ts"
    from led_loop_advances [OF p us(1), of m x] us(2) Suc.prems(2)
    show "advances ts (case (x, us) of (left, ts') \<Rightarrow> led_loop (parse fuel) m left ts')"
      by (auto simp: advances_def)
  qed
qed

lemma tokenize_eof: "eof_last (tokenize s)"
proof (induction s rule: tokenize.induct)
  case 1
  show ?case by (simp add: eof_last_def)
next
  case (2 c s)
  have b: "(c \<Longrightarrow> eof_last a) \<Longrightarrow> (\<not> c \<Longrightarrow> eof_last b) \<Longrightarrow> eof_last (if c then a else b)" for c a b
    by simp
  show ?case unfolding tokenize.simps(2)
    by (intro b eof_last_ConsI; (rule 2)?; simp)
qed

lemma length_tokenize: "length (tokenize s) \<le> Suc (length s)"
proof (induction s rule: tokenize.induct)
  case (2 c s)
  have q: "length (snd (scan_quoted q s)) \<le> length s" for q
    using scan_quoted_split [of q s] by (cases "scan_quoted q s") fastforce
  have d: "length (dropWhile P s) \<le> length s" for P :: "char \<Rightarrow> bool"
    by (rule length_dropWhile_le)
  have b: "(c \<Longrightarrow> length a \<le> k) \<Longrightarrow> (\<not> c \<Longrightarrow> length b \<le> k) \<Longrightarrow> length (if c then a else b) \<le> k"
    for c k and a b :: "token list" by simp
  have t: "length (tokenize u) \<le> Suc (length u) \<Longrightarrow> length u \<le> length s
      \<Longrightarrow> length (x # tokenize u) \<le> Suc (length (c # s))" for x u by simp
  show ?case unfolding tokenize.simps(2)
    by (intro b t; (rule 2 q d)?; (rule order_trans [OF 2(1)])?; simp)
qed simp

lemma parse_result:
  "length s < fuel \<Longrightarrow> (\<exists>e rest. parse fuel 0 (tokenize s) = Inr (e, rest) \<and> eof_last rest)
     \<or> (\<exists>m. parse fuel 0 (tokenize s) = Inl (ValueError m))"
  using parse_advances [OF tokenize_eof, of s fuel 0] length_tokenize [of s]
  by (cases "parse fuel 0 (tokenize s)") (auto simp: advances_def)

section \<open>Properties\<close>

definition sample_expr :: expr where
  "sample_expr =
     expr_op ''sub''
       [expr_op ''mul'' [expr_op ''neg'' [EName ''a''], expr_op ''add'' [EName ''b'', EConst (CInt 2) ''int'']],
        EOp ''call'' [expr_op ''index'' [EName ''u'', EName ''i''], EConst (CStr (dquote # ''x)'' @ [dquote])) ''string'']
          (no_attrs\<lparr>a_fn := Some ''f''\<rparr>)]"

text \<open>
  C3. Reading back a printed tree: for every tree of the parser's node shapes (identifiers, decimal
  integers, string and character literals, all binary, prefix and postfix operators, indexing, field
  access, calls and casts), printing it with the parentheses its binding powers require and parsing
  the text gives the tree again; a recursion budget of \<open>parse_depth\<close> is enough.
\<close>
theorem parse_expr_roundtrip:
  assumes "printable e" "parse_depth e \<le> fuel"
  shows "parse_expr fuel (print_expr e) = Some e"
  by (rule parse_print_expr [OF assms])

theorem parse_expr_roundtrip_witness:
  "print_expr sample_expr = ''( - a ) * ( b + 2 ) - f ( u [ i ] , '' @ [dquote] @ ''x)'' @ [dquote] @ '' )''
   \<and> parse_expr 20 (print_expr sample_expr) = Some sample_expr"
proof -
  have "printable sample_expr" by code_simp
  moreover have "parse_depth sample_expr \<le> 20" by code_simp
  moreover have "print_expr sample_expr
      = ''( - a ) * ( b + 2 ) - f ( u [ i ] , '' @ [dquote] @ ''x)'' @ [dquote] @ '' )''" by code_simp
  ultimately show ?thesis using parse_expr_roundtrip [of sample_expr 20] by blast
qed

text \<open>
  C8. The parser terminates on every text: with a recursion budget above the length of the text it
  returns a tree and the tokens that are left, or raises the \<open>ValueError\<close> that \<open>parse_expr\<close> catches;
  it never exhausts the budget and never reads past the end token.
\<close>
theorem parse_terminates:
  assumes "length s < fuel"
  shows "(\<exists>e rest. parse fuel 0 (tokenize s) = Inr (e, rest) \<and> eof_last rest)
    \<or> (\<exists>m. parse fuel 0 (tokenize s) = Inl (ValueError m))"
  by (rule parse_result [OF assms])

theorem parse_terminates_witness:
  "(\<exists>e rest. parse 9 0 (tokenize ''(a + b)'') = Inr (e, rest) \<and> eof_last rest)
    \<or> (\<exists>m. parse 9 0 (tokenize ''(a + b)'') = Inl (ValueError m))"
  using parse_terminates [of "''(a + b)''" 9] by simp

text \<open>
  Prefix operators and casts bind looser than \<open>*\<close>, \<open>/\<close> and \<open>%\<close>, which have binding power 100
  against the prefix level 99: \<open>(double)a / b\<close> is read as a cast of the quotient, \<open>*p * 2\<close> as a
  dereference of the product and \<open>!a * b\<close> as the negation of the product, unlike in C.
\<close>
lemma prefix_binds_looser_than_product:
  "parse_expr 30 ''(double)a / b''
     = Some (EOp ''cast'' [expr_op ''div'' [EName ''a'', EName ''b'']] (no_attrs\<lparr>a_type := Some ''double''\<rparr>))
   \<and> parse_expr 30 ''*p * 2'' = Some (expr_op ''deref'' [expr_op ''mul'' [EName ''p'', EConst (CInt 2) ''int'']])
   \<and> parse_expr 30 ''!a * b'' = Some (expr_op ''log_not'' [expr_op ''mul'' [EName ''a'', EName ''b'']])"
proof (intro conjI)
  show "parse_expr 30 ''(double)a / b''
     = Some (EOp ''cast'' [expr_op ''div'' [EName ''a'', EName ''b'']] (no_attrs\<lparr>a_type := Some ''double''\<rparr>))"
    by code_simp
  show "parse_expr 30 ''*p * 2'' = Some (expr_op ''deref'' [expr_op ''mul'' [EName ''p'', EConst (CInt 2) ''int'']])"
    by code_simp
  show "parse_expr 30 ''!a * b'' = Some (expr_op ''log_not'' [expr_op ''mul'' [EName ''a'', EName ''b'']])"
    by code_simp
qed

text \<open>
  Literals the parser does not read as C does: a hexadecimal literal with the digit \<open>e\<close> goes to
  \<open>float\<close> and the whole expression is given up, so are a float with a suffix and a float with a signed exponent, and an
  octal literal is read in base ten.
\<close>
lemma literal_limits:
  "parse_expr 30 ''0xBEEF'' = None \<and> parse_expr 30 ''x + 1.5f'' = None \<and> parse_expr 30 ''1e-5'' = None
   \<and> parse_expr 30 ''0xBAD'' = Some (EConst (CInt 2989) ''int'')
   \<and> parse_expr 30 ''010'' = Some (EConst (CInt 10) ''int'')"
proof (intro conjI)
  show "parse_expr 30 ''0xBEEF'' = None" by code_simp
  show "parse_expr 30 ''x + 1.5f'' = None" by code_simp
  show "parse_expr 30 ''1e-5'' = None" by code_simp
  show "parse_expr 30 ''0xBAD'' = Some (EConst (CInt 2989) ''int'')" by code_simp
  show "parse_expr 30 ''010'' = Some (EConst (CInt 10) ''int'')" by code_simp
qed

end
