(* ===== verification/PyValue.thy ===== *)
theory PyValue
  imports PyFloat IR "HOL-Library.Word"
begin

text \<open>
  The Python values the evaluator and the virtual machine compute with, and the operators of
  Python on them with the exceptions they raise: unbounded integers, IEEE doubles, strings, lists
  and string-keyed dictionaries. Identity and mutation of lists are not visible at this level.
\<close>

unbundle bit_operations_syntax

section \<open>Values\<close>

datatype pyval =
    VNone
  | VInt int
  | VFloat pyfloat
  | VStr string
  | VList "pyval list"
  | VDict "(string \<times> pyval) list"

abbreviation type_error :: "'a py" where
  "type_error \<equiv> Inl (TypeError ''unsupported operand type'')"

text \<open>\<open>bool(v)\<close>.\<close>

definition py_truth :: "pyval \<Rightarrow> bool" where
  "py_truth v =
     (case v of
        VNone \<Rightarrow> False
      | VInt i \<Rightarrow> i \<noteq> 0
      | VFloat x \<Rightarrow> \<not> fl_is_zero x
      | VStr s \<Rightarrow> s \<noteq> []
      | VList xs \<Rightarrow> xs \<noteq> []
      | VDict d \<Rightarrow> d \<noteq> [])"

definition of_bool :: "bool \<Rightarrow> pyval" where
  "of_bool b = VInt (if b then 1 else 0)"

text \<open>\<open>a == b\<close>; numbers compare by value, other types only among themselves.\<close>

fun py_eq :: "pyval \<Rightarrow> pyval \<Rightarrow> bool"
  and py_eq_list :: "pyval list \<Rightarrow> pyval list \<Rightarrow> bool"
  and py_eq_dict :: "(string \<times> pyval) list \<Rightarrow> (string \<times> pyval) list \<Rightarrow> bool" where
  "py_eq VNone b = (b = VNone)"
| "py_eq (VInt i) b =
     (case b of VInt j \<Rightarrow> i = j | VFloat y \<Rightarrow> fl_cmp_int y i = Some 0 | _ \<Rightarrow> False)"
| "py_eq (VFloat x) b =
     (case b of VInt j \<Rightarrow> fl_cmp_int x j = Some 0 | VFloat y \<Rightarrow> fl_cmp x y = Some 0 | _ \<Rightarrow> False)"
| "py_eq (VStr s) b = (b = VStr s)"
| "py_eq (VList xs) b = (case b of VList ys \<Rightarrow> py_eq_list xs ys | _ \<Rightarrow> False)"
| "py_eq (VDict d) b = (case b of VDict e \<Rightarrow> length d = length e \<and> py_eq_dict d e | _ \<Rightarrow> False)"
| "py_eq_list [] ys = (ys = [])"
| "py_eq_list (x # xs) ys = (case ys of [] \<Rightarrow> False | y # ys' \<Rightarrow> py_eq x y \<and> py_eq_list xs ys')"
| "py_eq_dict [] e = True"
| "py_eq_dict ((k, v) # d) e =
     ((case map_of e k of None \<Rightarrow> False | Some w \<Rightarrow> py_eq v w) \<and> py_eq_dict d e)"

text \<open>The order comparisons: lexicographic on strings and lists, \<open>TypeError\<close> across types.\<close>

datatype cmp_op = CLt | CLe | CGt | CGe

definition cmp_holds :: "cmp_op \<Rightarrow> int option \<Rightarrow> bool" where
  "cmp_holds k r =
     (case r of
        None \<Rightarrow> False
      | Some s \<Rightarrow> (case k of CLt \<Rightarrow> s < 0 | CLe \<Rightarrow> s \<le> 0 | CGt \<Rightarrow> 0 < s | CGe \<Rightarrow> 0 \<le> s))"

fun py_cmp :: "cmp_op \<Rightarrow> pyval \<Rightarrow> pyval \<Rightarrow> bool py"
  and py_cmp_list :: "cmp_op \<Rightarrow> pyval list \<Rightarrow> pyval list \<Rightarrow> bool py" where
  "py_cmp k (VInt i) b =
     (case b of
        VInt j \<Rightarrow> Inr (cmp_holds k (Some (i - j)))
      | VFloat y \<Rightarrow> Inr (cmp_holds k (map_option uminus (fl_cmp_int y i)))
      | _ \<Rightarrow> type_error)"
| "py_cmp k (VFloat x) b =
     (case b of
        VInt j \<Rightarrow> Inr (cmp_holds k (fl_cmp_int x j))
      | VFloat y \<Rightarrow> Inr (cmp_holds k (fl_cmp x y))
      | _ \<Rightarrow> type_error)"
| "py_cmp k (VStr s) b =
     (case b of
        VStr t \<Rightarrow> Inr (cmp_holds k (Some (if s < t then - 1 else if s = t then 0 else 1)))
      | _ \<Rightarrow> type_error)"
| "py_cmp k (VList xs) b = (case b of VList ys \<Rightarrow> py_cmp_list k xs ys | _ \<Rightarrow> type_error)"
| "py_cmp k VNone b = type_error"
| "py_cmp k (VDict d) b = type_error"
| "py_cmp_list k [] ys = Inr (cmp_holds k (Some (if ys = [] then 0 else - 1)))"
| "py_cmp_list k (x # xs) ys =
     (case ys of
        [] \<Rightarrow> Inr (cmp_holds k (Some 1))
      | y # ys' \<Rightarrow> if py_eq x y then py_cmp_list k xs ys' else py_cmp k x y)"

section \<open>Conversions\<close>

definition py_int :: "pyval \<Rightarrow> int py" where
  "py_int v =
     (case v of
        VInt i \<Rightarrow> Inr i
      | VFloat x \<Rightarrow> fl_trunc x
      | VStr s \<Rightarrow>
          (case py_int10 s of
             None \<Rightarrow> Inl (ValueError ''invalid literal for int() with base 10'') | Some i \<Rightarrow> Inr i)
      | _ \<Rightarrow> Inl (TypeError ''int() argument''))"

definition py_to_float :: "pyval \<Rightarrow> pyfloat py" where
  "py_to_float v =
     (case v of
        VInt i \<Rightarrow> fl_of_int i
      | VFloat x \<Rightarrow> Inr x
      | VStr s \<Rightarrow>
          (case py_float s of
             None \<Rightarrow> Inl (ValueError ''could not convert string to float'') | Some x \<Rightarrow> Inr x)
      | _ \<Rightarrow> Inl (TypeError ''float() argument''))"

section \<open>Arithmetic\<close>

text \<open>A binary operator on numbers: exact on two integers, otherwise on the two as floats.\<close>

definition num_op ::
  "(int \<Rightarrow> int \<Rightarrow> pyval py) \<Rightarrow> (pyfloat \<Rightarrow> pyfloat \<Rightarrow> pyval py) \<Rightarrow> pyval \<Rightarrow> pyval \<Rightarrow> pyval py" where
  "num_op fi ff a b =
     (case a of
        VInt i \<Rightarrow>
          (case b of
             VInt j \<Rightarrow> fi i j
           | VFloat y \<Rightarrow> py_bind (fl_of_int i) (\<lambda>x. ff x y)
           | _ \<Rightarrow> type_error)
      | VFloat x \<Rightarrow>
          (case b of
             VInt j \<Rightarrow> py_bind (fl_of_int j) (\<lambda>y. ff x y)
           | VFloat y \<Rightarrow> ff x y
           | _ \<Rightarrow> type_error)
      | _ \<Rightarrow> type_error)"

definition py_add :: "pyval \<Rightarrow> pyval \<Rightarrow> pyval py" where
  "py_add a b =
     (case a of
        VStr s \<Rightarrow> (case b of VStr t \<Rightarrow> Inr (VStr (s @ t)) | _ \<Rightarrow> type_error)
      | VList xs \<Rightarrow> (case b of VList ys \<Rightarrow> Inr (VList (xs @ ys)) | _ \<Rightarrow> type_error)
      | _ \<Rightarrow> num_op (\<lambda>i j. Inr (VInt (i + j))) (\<lambda>x y. Inr (VFloat (fl_add x y))) a b)"

definition py_sub :: "pyval \<Rightarrow> pyval \<Rightarrow> pyval py" where
  "py_sub a b = num_op (\<lambda>i j. Inr (VInt (i - j))) (\<lambda>x y. Inr (VFloat (fl_sub x y))) a b"

definition repeat_seq :: "int \<Rightarrow> 'a list \<Rightarrow> 'a list" where
  "repeat_seq n xs = concat (replicate (nat n) xs)"

definition py_mul :: "pyval \<Rightarrow> pyval \<Rightarrow> pyval py" where
  "py_mul a b =
     (case (a, b) of
        (VStr s, VInt n) \<Rightarrow> Inr (VStr (repeat_seq n s))
      | (VInt n, VStr s) \<Rightarrow> Inr (VStr (repeat_seq n s))
      | (VList xs, VInt n) \<Rightarrow> Inr (VList (repeat_seq n xs))
      | (VInt n, VList xs) \<Rightarrow> Inr (VList (repeat_seq n xs))
      | _ \<Rightarrow> num_op (\<lambda>i j. Inr (VInt (i * j))) (\<lambda>x y. Inr (VFloat (fl_mul x y))) a b)"

text \<open>\<open>a / b\<close>.\<close>

definition py_truediv :: "pyval \<Rightarrow> pyval \<Rightarrow> pyval py" where
  "py_truediv a b =
     num_op (\<lambda>i j. py_bind (int_true_div i j) (\<lambda>x. Inr (VFloat x)))
            (\<lambda>x y. py_bind (fl_div x y) (\<lambda>z. Inr (VFloat z))) a b"

definition py_neg :: "pyval \<Rightarrow> pyval py" where
  "py_neg a =
     (case a of VInt i \<Rightarrow> Inr (VInt (- i)) | VFloat x \<Rightarrow> Inr (VFloat (fl_neg x)) | _ \<Rightarrow> type_error)"

definition py_abs :: "pyval \<Rightarrow> pyval py" where
  "py_abs a =
     (case a of VInt i \<Rightarrow> Inr (VInt \<bar>i\<bar>) | VFloat x \<Rightarrow> Inr (VFloat (fl_abs x)) | _ \<Rightarrow> type_error)"

text \<open>\<open>a % b\<close> for operands that are not negative and a divisor that is not zero.\<close>

definition py_mod_nonneg :: "pyval \<Rightarrow> pyval \<Rightarrow> pyval py" where
  "py_mod_nonneg a b =
     num_op (\<lambda>i j. Inr (VInt (i mod j))) (\<lambda>x y. Inr (VFloat (fl_mod_nonneg x y))) a b"

definition py_shl :: "int \<Rightarrow> int \<Rightarrow> int py" where
  "py_shl a n = (if n < 0 then Inl (ValueError ''negative shift count'') else Inr (push_bit (nat n) a))"

definition py_shr :: "int \<Rightarrow> int \<Rightarrow> int py" where
  "py_shr a n = (if n < 0 then Inl (ValueError ''negative shift count'') else Inr (drop_bit (nat n) a))"

text \<open>\<open>xs[i]\<close> with a possibly negative index.\<close>

definition py_list_get :: "'a list \<Rightarrow> int \<Rightarrow> 'a py" where
  "py_list_get xs i =
     (let n = int (length xs); j = (if i < 0 then i + n else i)
      in if 0 \<le> j \<and> j < n then Inr (xs ! nat j) else Inl IndexError)"

end
