(* ===== verification/Kernel.thy ===== *)
theory Kernel
  imports PyValue
begin

text \<open>
  The expression evaluator of \<open>cdup/src/kernel.py\<close>: \<open>VMKernel.eval\<close> with one definition per
  \<open>op_\<close> method and the table of math functions. The transcendental functions of the C library that
  \<open>math\<close> calls are the parameter \<open>libm\<close>, and \<open>float_repr\<close> is Python's float formatting.
\<close>

unbundle bit_operations_syntax

record libm =
  lm_unary :: "string \<Rightarrow> pyfloat \<Rightarrow> pyfloat py"
  lm_pow :: "pyfloat \<Rightarrow> pyfloat \<Rightarrow> pyfloat py"
  float_repr :: "pyfloat \<Rightarrow> string"

section \<open>Math functions\<close>

definition math_floor :: "pyval \<Rightarrow> pyval py" where
  "math_floor v =
     (case v of
        VInt i \<Rightarrow> Inr (VInt i)
      | VFloat (FFin s m e) \<Rightarrow> Inr (VInt (fl_num s m e div fl_den e))
      | VFloat x \<Rightarrow> py_bind (fl_trunc x) (\<lambda>i. Inr (VInt i))
      | _ \<Rightarrow> Inl (TypeError ''must be real number''))"

definition math_ceil :: "pyval \<Rightarrow> pyval py" where
  "math_ceil v =
     (case v of
        VInt i \<Rightarrow> Inr (VInt i)
      | VFloat (FFin s m e) \<Rightarrow> Inr (VInt (- ((- fl_num s m e) div fl_den e)))
      | VFloat x \<Rightarrow> py_bind (fl_trunc x) (\<lambda>i. Inr (VInt i))
      | _ \<Rightarrow> Inl (TypeError ''must be real number''))"

text \<open>The argument of a \<open>math\<close> function: a number, as a float.\<close>

definition math_arg :: "pyval \<Rightarrow> pyfloat py" where
  "math_arg v =
     (case v of
        VInt i \<Rightarrow> fl_of_int i | VFloat x \<Rightarrow> Inr x | _ \<Rightarrow> Inl (TypeError ''must be real number''))"

definition math_names :: "string list" where
  "math_names =
    [''exp'', ''log'', ''log10'', ''sqrt'', ''fabs'', ''abs'', ''pow'', ''sin'', ''cos'', ''tan'',
     ''floor'', ''ceil'', ''fmin'', ''fmax'']"

definition math_builtin :: "'a libm_scheme \<Rightarrow> string \<Rightarrow> pyval list \<Rightarrow> pyval py" where
  "math_builtin lm fn args =
     (if fn = ''pow'' then
        (case args of
           [x, y] \<Rightarrow> py_bind (math_arg x) (\<lambda>u. py_bind (math_arg y) (\<lambda>v.
                       py_bind (lm_pow lm u v) (\<lambda>r. Inr (VFloat r))))
         | _ \<Rightarrow> Inl (TypeError ''wrong number of arguments''))
      else if fn = ''fmin'' then
        (case args of
           [x, y] \<Rightarrow> py_bind (py_cmp CLt y x) (\<lambda>b. Inr (if b then y else x))
         | _ \<Rightarrow> Inl (TypeError ''wrong number of arguments''))
      else if fn = ''fmax'' then
        (case args of
           [x, y] \<Rightarrow> py_bind (py_cmp CGt y x) (\<lambda>b. Inr (if b then y else x))
         | _ \<Rightarrow> Inl (TypeError ''wrong number of arguments''))
      else
        (case args of
           [x] \<Rightarrow>
             if fn = ''fabs'' \<or> fn = ''abs'' then py_abs x
             else if fn = ''floor'' then math_floor x
             else if fn = ''ceil'' then math_ceil x
             else py_bind (math_arg x) (\<lambda>u. py_bind (lm_unary lm fn u) (\<lambda>r. Inr (VFloat r)))
         | _ \<Rightarrow> Inl (TypeError ''wrong number of arguments'')))"

section \<open>Operators\<close>

definition op_div :: "pyval \<Rightarrow> pyval \<Rightarrow> pyval py" where
  "op_div a b =
     (if py_eq b (VInt 0) then Inl (ZeroDivisionError ''Division by zero in expr evaluation.'')
      else case (a, b) of
        (VInt i, VInt j) \<Rightarrow> py_bind (int_true_div i j) (\<lambda>x. py_bind (fl_trunc x) (\<lambda>q. Inr (VInt q)))
      | _ \<Rightarrow> py_truediv a b)"

definition op_mod :: "pyval \<Rightarrow> pyval \<Rightarrow> pyval py" where
  "op_mod a b =
     (if py_eq b (VInt 0) then Inl (ZeroDivisionError ''Modulo by zero in expr evaluation.'')
      else py_bind (py_abs a) (\<lambda>x. py_bind (py_abs b) (\<lambda>y.
           py_bind (py_mod_nonneg x y) (\<lambda>r.
           py_bind (py_cmp CGe a (VInt 0)) (\<lambda>nonneg.
             if nonneg then Inr r else py_neg r)))))"

definition int_op2 :: "(int \<Rightarrow> int \<Rightarrow> int py) \<Rightarrow> pyval \<Rightarrow> pyval \<Rightarrow> pyval py" where
  "int_op2 f a b =
     py_bind (py_int a) (\<lambda>i. py_bind (py_int b) (\<lambda>j. py_bind (f i j) (\<lambda>r. Inr (VInt r))))"

definition cmp_op2 :: "cmp_op \<Rightarrow> pyval \<Rightarrow> pyval \<Rightarrow> pyval py" where
  "cmp_op2 k a b = py_bind (py_cmp k a b) (\<lambda>r. Inr (of_bool r))"

definition op_index :: "pyval \<Rightarrow> pyval \<Rightarrow> pyval py" where
  "op_index arr idx =
     (case arr of
        VList xs \<Rightarrow> py_bind (py_int idx) (\<lambda>i. py_list_get xs i)
      | VStr s \<Rightarrow> py_bind (py_int idx) (\<lambda>i. py_bind (py_list_get s i) (\<lambda>c. Inr (VStr [c])))
      | VDict d \<Rightarrow> py_bind (py_int idx) (\<lambda>i. Inl (KeyError (int_str i)))
      | _ \<Rightarrow> Inl (TypeError ''Cannot index non-sequence value''))"

definition op_field :: "pyval \<Rightarrow> string option \<Rightarrow> pyval py" where
  "op_field obj f =
     (case obj of
        VDict d \<Rightarrow>
          (case f of
             None \<Rightarrow> Inl (KeyError ''None'')
           | Some k \<Rightarrow> (case map_of d k of None \<Rightarrow> Inl (KeyError k) | Some v \<Rightarrow> Inr v))
      | _ \<Rightarrow> Inl (TypeError ''Cannot access field''))"

definition op_cast :: "pyval \<Rightarrow> string option \<Rightarrow> pyval py" where
  "op_cast a ty =
     (case ty of
        None \<Rightarrow> Inl (TypeError ''argument of type NoneType is not iterable'')
      | Some t \<Rightarrow>
          if str_contains t ''int'' \<or> str_contains t ''long'' \<or> str_contains t ''short''
             \<or> str_contains t ''char'' then py_bind (py_int a) (\<lambda>i. Inr (VInt i))
          else if str_contains t ''float'' \<or> str_contains t ''double''
            then py_bind (py_to_float a) (\<lambda>x. Inr (VFloat x))
          else Inr a)"

definition op_call :: "'a libm_scheme \<Rightarrow> pyval list \<Rightarrow> string option \<Rightarrow> pyval py" where
  "op_call lm args fn =
     (case fn of
        None \<Rightarrow> Inl (NotImplementedError ''External call'')
      | Some f \<Rightarrow>
          if f \<in> set math_names then math_builtin lm f args
          else Inl (NotImplementedError ''External call''))"

text \<open>\<open>eval\<close> passes no keyword to \<open>op_sizeof\<close>, and a positional argument does not fit it.\<close>

definition op_sizeof :: "string option option \<Rightarrow> pyval py" where
  "op_sizeof of_kw =
     (let of_str = (case of_kw of None \<Rightarrow> ''int'' | Some None \<Rightarrow> ''int''
                    | Some (Some s) \<Rightarrow> if s = [] then ''int'' else s);
          t = str_strip (rstrip_by (\<lambda>c. c = CHR ''*'') (str_strip of_str))
      in Inr (VInt (if t = ''char'' then 1 else if t = ''short'' then 2
                    else if t \<in> {''int'', ''unsigned'', ''long'', ''float''} then 4
                    else if t \<in> {''double'', ''long long''} then 8 else 4)))"

section \<open>Dispatch\<close>

definition binary_ops :: "(string \<times> (pyval \<Rightarrow> pyval \<Rightarrow> pyval py)) list" where
  "binary_ops =
    [(''add'', py_add), (''sub'', py_sub), (''mul'', py_mul), (''div'', op_div), (''mod'', op_mod),
     (''bit_and'', int_op2 (\<lambda>i j. Inr (i AND j))), (''bit_or'', int_op2 (\<lambda>i j. Inr (i OR j))),
     (''bit_xor'', int_op2 (\<lambda>i j. Inr (i XOR j))),
     (''shl'', int_op2 py_shl), (''shr'', int_op2 py_shr),
     (''cmp_eq'', \<lambda>a b. Inr (of_bool (py_eq a b))),
     (''cmp_ne'', \<lambda>a b. Inr (of_bool (\<not> py_eq a b))),
     (''cmp_lt'', cmp_op2 CLt), (''cmp_le'', cmp_op2 CLe),
     (''cmp_gt'', cmp_op2 CGt), (''cmp_ge'', cmp_op2 CGe),
     (''log_and'', \<lambda>a b. Inr (of_bool (py_truth a \<and> py_truth b))),
     (''log_or'', \<lambda>a b. Inr (of_bool (py_truth a \<or> py_truth b))),
     (''index'', op_index)]"

definition unary_ops :: "(string \<times> (pyval \<Rightarrow> pyval py)) list" where
  "unary_ops =
    [(''neg'', py_neg),
     (''bit_not'', \<lambda>a. py_bind (py_int a) (\<lambda>i. Inr (VInt (NOT i)))),
     (''log_not'', \<lambda>a. Inr (of_bool (\<not> py_truth a))),
     (''post_inc'', \<lambda>a. Inr a), (''post_dec'', \<lambda>a. Inr a),
     (''pre_inc'', \<lambda>a. py_add a (VInt 1)), (''pre_dec'', \<lambda>a. py_sub a (VInt 1)),
     (''addr_of'', \<lambda>a. Inl (NotImplementedError ''Address-of operator not supported in VMKernel.'')),
     (''deref'', \<lambda>a. Inl (NotImplementedError ''Pointer dereference not supported in VMKernel.''))]"

definition kernel_op :: "'a libm_scheme \<Rightarrow> string \<Rightarrow> op_attrs \<Rightarrow> pyval list \<Rightarrow> pyval py" where
  "kernel_op lm op at vs =
     (case map_of binary_ops op of
        Some f \<Rightarrow>
          (case vs of [a, b] \<Rightarrow> f a b | _ \<Rightarrow> Inl (TypeError ''wrong number of arguments''))
      | None \<Rightarrow>
          (case map_of unary_ops op of
             Some f \<Rightarrow> (case vs of [a] \<Rightarrow> f a | _ \<Rightarrow> Inl (TypeError ''wrong number of arguments''))
           | None \<Rightarrow>
               if op = ''field'' then
                 (case vs of [a] \<Rightarrow> op_field a (a_field at) | _ \<Rightarrow> Inl (TypeError ''wrong number of arguments''))
               else if op = ''cast'' then
                 (case vs of [a] \<Rightarrow> op_cast a (a_type at) | _ \<Rightarrow> Inl (TypeError ''wrong number of arguments''))
               else if op = ''call'' then op_call lm vs (a_fn at)
               else if op = ''sizeof'' then
                 (if vs = [] then op_sizeof None else Inl (TypeError ''wrong number of arguments''))
               else Inl (ValueError ''Unknown op'')))"

definition char_escapes :: "(string \<times> int) list" where
  "char_escapes =
    [([CHR 0x5C, CHR ''n''], 10), ([CHR 0x5C, CHR ''t''], 9), ([CHR 0x5C, CHR ''r''], 13),
     ([CHR 0x5C, CHR ''0''], 0), ([CHR 0x5C, CHR 0x5C], 92), ([CHR 0x5C, CHR 0x27], 39)]"

definition const_str :: "'a libm_scheme \<Rightarrow> const_val \<Rightarrow> string" where
  "const_str lm v = (case v of CInt i \<Rightarrow> int_str i | CFloat x \<Rightarrow> float_repr lm x | CStr s \<Rightarrow> s)"

definition const_pyval :: "const_val \<Rightarrow> pyval" where
  "const_pyval v = (case v of CInt i \<Rightarrow> VInt i | CFloat x \<Rightarrow> VFloat x | CStr s \<Rightarrow> VStr s)"

definition eval_const :: "'a libm_scheme \<Rightarrow> const_val \<Rightarrow> string \<Rightarrow> pyval py" where
  "eval_const lm v t =
     (if t = ''int'' then py_bind (py_int (const_pyval v)) (\<lambda>i. Inr (VInt i))
      else if t = ''float'' then py_bind (py_to_float (const_pyval v)) (\<lambda>x. Inr (VFloat x))
      else if t = ''char'' then
        (let s = strip_by (\<lambda>c. c = CHR 0x27) (const_str lm v)
         in if startswith s [CHR 0x5C]
            then Inr (VInt (case map_of char_escapes s of None \<Rightarrow> 0 | Some n \<Rightarrow> n))
            else Inr (VInt (case s of [c] \<Rightarrow> of_char c | _ \<Rightarrow> 0)))
      else if t = ''string'' then Inr (VStr (strip_by (\<lambda>c. c = CHR 0x22) (const_str lm v)))
      else Inr (const_pyval v))"

fun kernel_eval :: "'a libm_scheme \<Rightarrow> expr \<Rightarrow> (string \<Rightarrow> pyval option) \<Rightarrow> pyval py" where
  "kernel_eval lm (EName n) frame = Inl (NameError n)"
| "kernel_eval lm (ESlot s) frame =
     (case frame s of None \<Rightarrow> Inl (KeyError s) | Some v \<Rightarrow> Inr v)"
| "kernel_eval lm (EConst v t) frame = eval_const lm v t"
| "kernel_eval lm (EOp op args at) frame =
     (if map_of binary_ops op = None \<and> map_of unary_ops op = None
         \<and> op \<notin> {''field'', ''cast'', ''call'', ''sizeof''}
      then Inl (ValueError ''Unknown op'')
      else py_bind (py_seq (map (\<lambda>a. kernel_eval lm a frame) args)) (\<lambda>vs. kernel_op lm op at vs))"

section \<open>Integer division\<close>

lemma trunc_fl_ratio:
  assumes "\<bar>a\<bar> < pow2 53" "b \<noteq> 0"
  shows "fl_trunc (fl_ratio a b) = Inr ((if (a < 0) = (b < 0) then 1 else - 1) * (\<bar>a\<bar> div \<bar>b\<bar>))"
proof (cases "a = 0")
  case True
  then show ?thesis by (simp add: fl_ratio_def round_ratio_def fl_trunc_def)
next
  case False
  then show ?thesis using trunc_round_ratio [of "\<bar>a\<bar>" "\<bar>b\<bar>"] assms by (simp add: fl_ratio_def)
qed

definition c_div :: "int \<Rightarrow> int \<Rightarrow> int" where
  "c_div a b = (if (a < 0) = (b < 0) then 1 else - 1) * (\<bar>a\<bar> div \<bar>b\<bar>)"

definition c_mod :: "int \<Rightarrow> int \<Rightarrow> int" where
  "c_mod a b = (if 0 \<le> a then 1 else - 1) * (\<bar>a\<bar> mod \<bar>b\<bar>)"

lemma c_div_mod: "b \<noteq> 0 \<Longrightarrow> b * c_div a b + c_mod a b = a"
proof -
  assume b: "b \<noteq> 0"
  have m: "\<bar>b\<bar> * (\<bar>a\<bar> div \<bar>b\<bar>) + \<bar>a\<bar> mod \<bar>b\<bar> = \<bar>a\<bar>" by simp
  consider "0 \<le> a" "0 < b" | "0 \<le> a" "b < 0" | "a < 0" "0 < b" | "a < 0" "b < 0" using b by linarith
  then show ?thesis
  proof cases
    case 1 then show ?thesis using m by (simp add: c_div_def c_mod_def)
  next
    case 2
    then have "- b * (a div - b) + a mod - b = a" using m by simp
    with 2 show ?thesis by (simp add: c_div_def c_mod_def)
  next
    case 3
    then have "c_div a b = - (- a div b)" "c_mod a b = - (- a mod b)"
      by (simp_all add: c_div_def c_mod_def)
    then have "b * c_div a b + c_mod a b = - (b * (- a div b) + (- a) mod b)"
      by (simp only: mult_minus_right minus_add_distrib)
    also have "\<dots> = a" by (simp only: mult_div_mod_eq minus_minus)
    finally show ?thesis .
  next
    case 4
    then have "- b * (- a div - b) + (- a) mod - b = - a" using m by simp
    with 4 show ?thesis by (simp add: c_div_def c_mod_def)
  qed
qed

lemma c_mod_bounds:
  assumes "b \<noteq> 0"
  shows "\<bar>c_mod a b\<bar> < \<bar>b\<bar>" "c_mod a b = 0 \<or> sgn (c_mod a b) = sgn a"
proof -
  have m: "0 \<le> \<bar>a\<bar> mod \<bar>b\<bar>" "\<bar>a\<bar> mod \<bar>b\<bar> < \<bar>b\<bar>" using assms by simp_all
  then show "\<bar>c_mod a b\<bar> < \<bar>b\<bar>" unfolding c_mod_def by (simp add: abs_mult)
  show "c_mod a b = 0 \<or> sgn (c_mod a b) = sgn a"
  proof (cases "\<bar>a\<bar> mod \<bar>b\<bar> = 0")
    case False
    with m(1) have "0 < \<bar>a\<bar> mod \<bar>b\<bar>" by linarith
    moreover from False have "a \<noteq> 0" by auto
    ultimately show ?thesis unfolding c_mod_def by (simp only: sgn_if) auto
  qed (simp add: c_mod_def)
qed

lemma op_div_ints:
  assumes "\<bar>a\<bar> < pow2 53" "b \<noteq> 0"
  shows "op_div (VInt a) (VInt b) = Inr (VInt (c_div a b))"
proof -
  have t: "fl_trunc (fl_ratio a b) = Inr (c_div a b)"
    using trunc_fl_ratio [OF assms] by (simp add: c_div_def)
  then have "int_true_div a b = Inr (fl_ratio a b)"
    using assms(2) by (cases "fl_ratio a b") (auto simp: int_true_div_def fl_trunc_def)
  with t assms(2) show ?thesis by (simp add: op_div_def)
qed

lemma op_mod_ints:
  assumes "b \<noteq> 0"
  shows "op_mod (VInt a) (VInt b) = Inr (VInt (c_mod a b))"
  using assms
  by (simp add: op_mod_def py_abs_def py_mod_nonneg_def num_op_def cmp_holds_def py_neg_def c_mod_def)

section \<open>Resolved expressions\<close>

fun expr_slots :: "expr \<Rightarrow> string set" where
  "expr_slots (ESlot s) = {s}"
| "expr_slots (EOp op args at) = \<Union> (set (map expr_slots args))"
| "expr_slots _ = {}"

fun expr_names :: "expr \<Rightarrow> string set" where
  "expr_names (EName n) = {n}"
| "expr_names (EOp op args at) = \<Union> (set (map expr_names args))"
| "expr_names _ = {}"

lemma kernel_eval_cong:
  "(\<And>s. s \<in> expr_slots e \<Longrightarrow> f s = g s) \<Longrightarrow> kernel_eval lm e f = kernel_eval lm e g"
proof (induction e)
  case (EOp op args at)
  then have "map (\<lambda>a. kernel_eval lm a f) args = map (\<lambda>a. kernel_eval lm a g) args" by fastforce
  then show ?case by (simp only: kernel_eval.simps)
qed simp_all

section \<open>Integer expressions\<close>

definition int_binops :: "string list" where
  "int_binops =
    [''add'', ''sub'', ''mul'', ''div'', ''mod'', ''bit_and'', ''bit_or'', ''bit_xor'', ''shl'', ''shr'',
     ''cmp_eq'', ''cmp_ne'', ''cmp_lt'', ''cmp_le'', ''cmp_gt'', ''cmp_ge'', ''log_and'', ''log_or'']"

definition int_unops :: "string list" where
  "int_unops =
    [''neg'', ''bit_not'', ''log_not'', ''post_inc'', ''post_dec'', ''pre_inc'', ''pre_dec'']"

fun int_expr :: "(string \<Rightarrow> pyval option) \<Rightarrow> expr \<Rightarrow> bool" where
  "int_expr frame (EName n) = False"
| "int_expr frame (ESlot s) = (case frame s of Some (VInt i) \<Rightarrow> True | _ \<Rightarrow> False)"
| "int_expr frame (EConst v t) =
     ((t = ''int'' \<and> (case v of CInt i \<Rightarrow> True | _ \<Rightarrow> False)) \<or> t = ''char'')"
| "int_expr frame (EOp op args at) =
     (list_all (int_expr frame) args
      \<and> (op \<in> set int_binops \<and> length args = 2 \<or> op \<in> set int_unops \<and> length args = 1))"

text \<open>An integer, or one of the errors integer arithmetic can raise.\<close>

definition int_result :: "pyval py \<Rightarrow> bool" where
  "int_result r =
     (case r of
        Inr (VInt i) \<Rightarrow> True
      | Inl (ZeroDivisionError s) \<Rightarrow> True
      | Inl (OverflowError s) \<Rightarrow> True
      | Inl (ValueError s) \<Rightarrow> s = ''negative shift count''
      | _ \<Rightarrow> False)"

lemma round_ratio_not_nan: "round_ratio s n d \<noteq> FNaN"
proof -
  have i: "(c \<Longrightarrow> a \<noteq> FNaN) \<Longrightarrow> (\<not> c \<Longrightarrow> b \<noteq> FNaN) \<Longrightarrow> (if c then a else b) \<noteq> FNaN" for c a b
    by simp
  show ?thesis unfolding round_ratio_def Let_def by (intro i pyfloat.distinct)
qed

lemma int_div_result: "int_result (op_div (VInt i) (VInt j))"
proof (cases "j = 0")
  case True
  then show ?thesis by (simp add: op_div_def int_result_def)
next
  case False
  have nn: "fl_ratio i j \<noteq> FNaN" unfolding fl_ratio_def by (rule round_ratio_not_nan)
  then show ?thesis using False
    by (cases "fl_ratio i j") (simp_all add: op_div_def int_true_div_def fl_trunc_def int_result_def)
qed

lemma cmp_op2_result: "int_result (cmp_op2 k (VInt i) (VInt j))"
  by (simp add: cmp_op2_def of_bool_def int_result_def)

lemma int_mod_result: "int_result (op_mod (VInt i) (VInt j))"
  by (cases "j = 0") (simp_all add: op_mod_ints int_result_def, simp add: op_mod_def)

lemma arith_results:
  "int_result (py_add (VInt i) (VInt j))" "int_result (py_sub (VInt i) (VInt j))"
  "int_result (py_mul (VInt i) (VInt j))" "int_result (Inr (of_bool b))"
  "int_result (int_op2 py_shl (VInt i) (VInt j))" "int_result (int_op2 py_shr (VInt i) (VInt j))"
  "int_result (int_op2 (\<lambda>i j. Inr (g i j)) (VInt i) (VInt j))"
  by (simp_all add: int_result_def py_add_def py_sub_def py_mul_def num_op_def of_bool_def
      int_op2_def py_int_def py_shl_def py_shr_def)

lemma binary_ops_int:
  "list_all (\<lambda>(op, f). op = ''index'' \<or> (\<forall>i j. int_result (f (VInt i) (VInt j)))) binary_ops"
  unfolding binary_ops_def list.pred_inject prod.case
  by (simp only: arith_results int_div_result int_mod_result cmp_op2_result simp_thms list.pred_inject)

lemma unary_ops_int:
  "list_all (\<lambda>(op, f). op \<in> {''addr_of'', ''deref''} \<or> (\<forall>i. int_result (f (VInt i)))) unary_ops"
  unfolding unary_ops_def list.pred_inject prod.case
  by (intro conjI TrueI)
     (auto simp: int_result_def py_add_def py_sub_def num_op_def of_bool_def py_int_def py_neg_def)

lemma int_binops_table: "list_all (\<lambda>op. op \<noteq> ''index'' \<and> op \<in> set (map fst binary_ops)) int_binops"
  by code_simp

lemma int_unops_table:
  "list_all (\<lambda>op. op \<notin> {''addr_of'', ''deref''} \<and> op \<in> set (map fst unary_ops)
     \<and> op \<notin> set (map fst binary_ops)) int_unops"
  by code_simp

lemma int_binop:
  assumes "op \<in> set int_binops"
  obtains f where "map_of binary_ops op = Some f" "\<And>i j. int_result (f (VInt i) (VInt j))"
proof -
  note o = int_binops_table [unfolded list_all_iff, THEN bspec, OF assms]
  have "op \<noteq> ''index''" "op \<in> set (map fst binary_ops)" using o by blast+
  then obtain f where f: "map_of binary_ops op = Some f" by (metis map_of_eq_None_iff not_None_eq set_map)
  have "\<And>i j. int_result (f (VInt i) (VInt j))"
    using binary_ops_int [unfolded list_all_iff, THEN bspec, OF map_of_SomeD [OF f]] \<open>op \<noteq> _\<close> by simp
  with f that show ?thesis by blast
qed

lemma int_unop:
  assumes "op \<in> set int_unops"
  obtains f where "map_of binary_ops op = None" "map_of unary_ops op = Some f"
    "\<And>i. int_result (f (VInt i))"
proof -
  note t = int_unops_table [unfolded list_all_iff, THEN bspec, OF assms]
  have o: "op \<notin> {''addr_of'', ''deref''}" "op \<in> set (map fst unary_ops)" "op \<notin> set (map fst binary_ops)"
    using t by blast+
  from o(3) have b: "map_of binary_ops op = None" by (metis map_of_eq_None_iff set_map)
  from o(2) obtain f where f: "map_of unary_ops op = Some f"
    by (metis map_of_eq_None_iff not_None_eq set_map)
  have "\<And>i. int_result (f (VInt i))"
    using unary_ops_int [unfolded list_all_iff, THEN bspec, OF map_of_SomeD [OF f]] o(1) by simp
  with b f that show ?thesis by blast
qed

lemma int_result_bind:
  assumes "list_all (\<lambda>r. int_result r) rs" "\<And>is. length is = length rs \<Longrightarrow> int_result (f (map VInt is))"
  shows "int_result (py_bind (py_seq rs) f)"
proof -
  have "(\<exists>is. py_seq rs = Inr (map VInt is) \<and> length is = length rs)
      \<or> (\<exists>e. py_seq rs = Inl e \<and> int_result (Inl e))"
    using assms(1)
  proof (induction rs)
    case (Cons r rs)
    show ?case
    proof (cases r)
      case (Inl e)
      with Cons.prems show ?thesis by simp
    next
      case (Inr v)
      with Cons.prems obtain i where "v = VInt i" by (cases v) (auto simp: int_result_def)
      with Inr Cons show ?thesis by (auto intro: exI [of _ "i # _"])
    qed
  qed simp
  with assms(2) show ?thesis by auto
qed

lemma kernel_eval_int: "int_expr frame e \<Longrightarrow> int_result (kernel_eval lm e frame)"
proof (induction e)
  case (ESlot s)
  then show ?case by (auto simp: int_result_def split: option.splits pyval.splits)
next
  case (EConst v t)
  then show ?case
    by (auto simp: int_result_def eval_const_def const_pyval_def py_int_def Let_def split: const_val.splits)
next
  case (EOp op args at)
  have all: "list_all (\<lambda>r. int_result r) (map (\<lambda>a. kernel_eval lm a frame) args)"
    using EOp by (auto simp: list_all_iff)
  from EOp.prems consider "op \<in> set int_binops" "length args = 2" | "op \<in> set int_unops" "length args = 1"
    by auto
  then show ?case
  proof cases
    case 1
    from int_binop [OF 1(1)] obtain f
      where f: "map_of binary_ops op = Some f" "\<And>i j. int_result (f (VInt i) (VInt j))" by metis
    have "int_result (py_bind (py_seq (map (\<lambda>a. kernel_eval lm a frame) args)) (kernel_op lm op at))"
    proof (rule int_result_bind [OF all])
      fix "is" :: "int list" assume "length is = length (map (\<lambda>a. kernel_eval lm a frame) args)"
      then obtain i j where "is = [i, j]" using 1(2) by (auto simp: numeral_2_eq_2 length_Suc_conv)
      with f show "int_result (kernel_op lm op at (map VInt is))" by (simp add: kernel_op_def)
    qed
    with f(1) show ?thesis by simp
  next
    case 2
    from int_unop [OF 2(1)] obtain f where f: "map_of binary_ops op = None" "map_of unary_ops op = Some f"
      "\<And>i. int_result (f (VInt i))" by metis
    have "int_result (py_bind (py_seq (map (\<lambda>a. kernel_eval lm a frame) args)) (kernel_op lm op at))"
    proof (rule int_result_bind [OF all])
      fix "is" :: "int list" assume "length is = length (map (\<lambda>a. kernel_eval lm a frame) args)"
      then obtain i where "is = [i]" using 2(2) by (auto simp: length_Suc_conv)
      with f show "int_result (kernel_op lm op at (map VInt is))" by (simp add: kernel_op_def)
    qed
    with f(1,2) show ?thesis by simp
  qed
qed simp

section \<open>Properties\<close>

definition sample_libm :: libm where
  "sample_libm = \<lparr>lm_unary = (\<lambda>f x. Inr x), lm_pow = (\<lambda>x y. Inr x), float_repr = (\<lambda>x. ''0.0'')\<rparr>"

text \<open>
  C4. Integer division and remainder follow C: for a dividend below \<open>2^53\<close> in absolute value and a
  non-zero divisor, \<open>op_div\<close> is the quotient truncated toward zero although it goes through a
  float, \<open>op_mod\<close> has the sign of the dividend, and the two satisfy the division identity.
\<close>
theorem kernel_division_is_c_division:
  assumes "\<bar>a\<bar> < pow2 53" "b \<noteq> 0"
  shows "\<exists>q r. op_div (VInt a) (VInt b) = Inr (VInt q) \<and> op_mod (VInt a) (VInt b) = Inr (VInt r)
    \<and> b * q + r = a \<and> \<bar>r\<bar> < \<bar>b\<bar> \<and> (r = 0 \<or> sgn r = sgn a)"
  using op_div_ints [OF assms] op_mod_ints [OF assms(2)] c_div_mod [OF assms(2)]
    c_mod_bounds [OF assms(2)]
  by blast

theorem kernel_division_is_c_division_witness:
  "\<exists>q r. op_div (VInt (- 7)) (VInt 2) = Inr (VInt q) \<and> op_mod (VInt (- 7)) (VInt 2) = Inr (VInt r)
    \<and> 2 * q + r = - 7 \<and> \<bar>r\<bar> < 2 \<and> (r = 0 \<or> sgn r = - 1)"
  using kernel_division_is_c_division [of "- 7" 2] by (simp add: pow2_def)

text \<open>
  The bound is sharp in kind: beyond \<open>2^53\<close> the detour over a float loses digits, and dividing
  9007199254740993 by 1 gives 9007199254740992.
\<close>
lemma kernel_division_loses_precision:
  "op_div (VInt 9007199254740993) (VInt 1) = Inr (VInt 9007199254740992)"
  by code_simp

text \<open>
  C20. Type safety of integer code: an expression built from integer and character constants, slots
  that hold integers, and the arithmetic, bitwise, comparison and logical operators evaluates to an
  integer, or raises a division by zero, an overflow of the float quotient, or a negative shift
  count; no \<open>NameError\<close>, \<open>KeyError\<close>, \<open>TypeError\<close> or other \<open>ValueError\<close> is possible.
\<close>
theorem kernel_int_type_safety:
  assumes "int_expr frame e"
  shows "int_result (kernel_eval lm e frame)"
  by (rule kernel_eval_int [OF assms])

theorem kernel_int_type_safety_witness:
  "int_result (kernel_eval sample_libm
     (EOp ''shl'' [EOp ''div'' [ESlot ''root.f.x'', EConst (CInt 2) ''int''] no_attrs,
                 EConst (CStr [CHR 0x27, CHR ''a'', CHR 0x27]) ''char''] no_attrs)
     [''root.f.x'' \<mapsto> VInt (- 7)])"
  by (rule kernel_int_type_safety) (simp add: int_binops_def int_unops_def)

text \<open>
  Evaluation reads only the slots of the expression: two frames that agree on them give the same
  result, errors included.
\<close>
lemma kernel_eval_frame_local:
  assumes "\<And>s. s \<in> expr_slots e \<Longrightarrow> f s = g s"
  shows "kernel_eval lm e f = kernel_eval lm e g"
  by (rule kernel_eval_cong [OF assms])

theorem kernel_eval_frame_local_witness:
  "kernel_eval sample_libm (EOp ''neg'' [ESlot ''x''] no_attrs) [''x'' \<mapsto> VInt 3, ''y'' \<mapsto> VNone]
     = kernel_eval sample_libm (EOp ''neg'' [ESlot ''x''] no_attrs) [''x'' \<mapsto> VInt 3]"
  by (rule kernel_eval_frame_local) simp

text \<open>
  The logical operators do not short-circuit, unlike in C: the second operand is evaluated even when the first one
  decides, so \<open>0 && 1 / 0\<close> raises \<open>ZeroDivisionError\<close>.
\<close>
lemma kernel_no_short_circuit:
  "kernel_eval lm (EOp ''log_and'' [EConst (CInt 0) ''int'',
       EOp ''div'' [EConst (CInt 1) ''int'', EConst (CInt 0) ''int''] no_attrs] no_attrs) frame
   = Inl (ZeroDivisionError ''Division by zero in expr evaluation.'')"
  by (simp add: binary_ops_def eval_const_def const_pyval_def py_int_def kernel_op_def op_div_def)

text \<open>
  The kernel's \<open>sizeof\<close> ignores its operand: the node's type is never handed to \<open>op_sizeof\<close>, so
  every \<open>sizeof(T)\<close> is 4, and \<open>sizeof x\<close> without parentheses raises \<open>TypeError\<close>.
\<close>

lemma kernel_sizeof_is_four:
  "kernel_eval lm (EOp ''sizeof'' [] at) frame = Inr (VInt 4)
   \<and> kernel_eval lm (EOp ''sizeof'' [EConst (CInt 1) ''int''] at) frame
       = Inl (TypeError ''wrong number of arguments'')"
proof
  have s: "op_sizeof None = Inr (VInt 4)" by code_simp
  show "kernel_eval lm (EOp ''sizeof'' [] at) frame = Inr (VInt 4)"
    by (simp add: binary_ops_def unary_ops_def kernel_op_def s)
  show "kernel_eval lm (EOp ''sizeof'' [EConst (CInt 1) ''int''] at) frame
       = Inl (TypeError ''wrong number of arguments'')"
    by (simp add: binary_ops_def unary_ops_def kernel_op_def eval_const_def const_pyval_def py_int_def)
qed

end
