(* ===== verification/CloneNorm.thy ===== *)
theory CloneNorm
  imports Literals
begin

text \<open>
  Statement normalisation of \<open>cdup/src/detect.py\<close>: the Type I form (whitespace collapsed, lower case),
  the tokenizer, and the Type II form with positional identifier names. The Type II form is shown to
  identify exactly the token sequences that differ by literals and by a renaming of identifiers, where the
  code takes the Java keywords for identifiers.
\<close>

section \<open>Normal forms\<close>

definition normalize_stmt :: "string \<Rightarrow> string" where
  "normalize_stmt s = str_lower (str_join '' '' (split_ws s))"

text \<open>\<open>"[^"\\]*(?:\\.[^"\\]*)*"|[A-Za-z_]\w*|\d+\.\d+|\d+|[^\s\w]\<close>.\<close>

definition rx_clone_token :: rx where
  "rx_clone_token =
     (let plain = rstar (RChar (\<lambda>c. c \<noteq> dquote \<and> c \<noteq> bslash))
      in ralt [rseq [rchr dquote, plain, rstar (rseq [rchr bslash, rdot, plain]), rchr dquote],
               rident,
               rseq [rplus rdigit, rchr CHR ''.'', rplus rdigit],
               rplus rdigit,
               RChar (\<lambda>c. \<not> is_space c \<and> \<not> is_word c)])"

definition clone_tokenize :: "string \<Rightarrow> string list" where
  "clone_tokenize stmt = re_findall rx_clone_token stmt"

definition clone_keywords :: "string list" where
  "clone_keywords =
    [''auto'', ''break'', ''case'', ''char'', ''const'', ''continue'', ''default'', ''do'',
     ''double'', ''else'', ''enum'', ''extern'', ''float'', ''for'', ''goto'', ''if'', ''inline'',
     ''int'', ''long'', ''register'', ''restrict'', ''return'', ''short'', ''signed'', ''sizeof'',
     ''static'', ''struct'', ''switch'', ''typedef'', ''union'', ''unsigned'', ''void'',
     ''volatile'', ''while'', ''NULL'', ''true'', ''false'']"

text \<open>
  The keywords that the merged table \<open>_KEYWORDS\<close> adds for Java, and the table; no function of the module
  uses it.
\<close>

definition java_keywords :: "string list" where
  "java_keywords =
    [''boolean'', ''byte'', ''class'', ''extends'', ''final'', ''implements'', ''import'',
     ''instanceof'', ''interface'', ''new'', ''package'', ''private'', ''protected'',
     ''public'', ''super'', ''this'', ''throw'', ''throws'', ''try'', ''catch'', ''finally'',
     ''abstract'', ''assert'', ''native'', ''synchronized'', ''transient'', ''strictfp'']"

definition cross_keywords :: "string list" where
  "cross_keywords = clone_keywords @ java_keywords"

definition rx_number :: rx where
  "rx_number = RAlt (rseq [rplus rdigit, rchr CHR ''.'', rplus rdigit]) (rplus rdigit)"

definition var_name :: "nat \<Rightarrow> string" where
  "var_name n = ''VAR_'' @ nat_digits n"

fun norm2_tokens :: "(string, string) dict \<Rightarrow> string list \<Rightarrow> string list" where
  "norm2_tokens identifier_map [] = []"
| "norm2_tokens identifier_map (token # tokens) =
     (if startswith token [dquote] then ''STR_LIT'' # norm2_tokens identifier_map tokens
      else if re_fullmatch rx_number token \<noteq> None then ''NUM_LIT'' # norm2_tokens identifier_map tokens
      else if token \<in> set clone_keywords then token # norm2_tokens identifier_map tokens
      else if re_fullmatch rident token \<noteq> None then
        (case dict_get identifier_map token of
           Some v \<Rightarrow> v # norm2_tokens identifier_map tokens
         | None \<Rightarrow>
             (let v = var_name (length identifier_map)
              in v # norm2_tokens (dict_set token v identifier_map) tokens))
      else token # norm2_tokens identifier_map tokens)"

definition normalize_stmt_type2 :: "string \<Rightarrow> string" where
  "normalize_stmt_type2 stmt = str_join '' '' (norm2_tokens [] (clone_tokenize stmt))"

section \<open>The token classes\<close>

datatype tok_class = CStrLit | CNumLit | CKeyword | CIdent | COther

definition class_in :: "string list \<Rightarrow> string \<Rightarrow> tok_class" where
  "class_in keywords t =
     (if startswith t [dquote] then CStrLit
      else if re_fullmatch rx_number t \<noteq> None then CNumLit
      else if t \<in> set keywords then CKeyword
      else if re_fullmatch rident t \<noteq> None then CIdent
      else COther)"

text \<open>
  Two token lists are Type II equivalent, for a table of keywords, when they agree in the class of each
  token, in the keywords and punctuation, and in which identifier positions carry the same name. Literals
  of one class stand for each other.
\<close>

definition same_shape_in :: "string list \<Rightarrow> string \<Rightarrow> string \<Rightarrow> bool" where
  "same_shape_in keywords t u \<longleftrightarrow> class_in keywords t = class_in keywords u
     \<and> (class_in keywords t \<in> {CKeyword, COther} \<longrightarrow> t = u)"

definition type2_equiv_in :: "string list \<Rightarrow> string list \<Rightarrow> string list \<Rightarrow> bool" where
  "type2_equiv_in keywords ts us \<longleftrightarrow> list_all2 (same_shape_in keywords) ts us \<and>
     (\<forall>i<length ts. \<forall>j<length ts.
        class_in keywords (ts ! i) = CIdent \<and> class_in keywords (ts ! j) = CIdent \<longrightarrow>
        (ts ! i = ts ! j \<longleftrightarrow> us ! i = us ! j))"

abbreviation class_of :: "string \<Rightarrow> tok_class" where
  "class_of \<equiv> class_in clone_keywords"

abbreviation same_shape :: "string \<Rightarrow> string \<Rightarrow> bool" where
  "same_shape \<equiv> same_shape_in clone_keywords"

abbreviation type2_equiv :: "string list \<Rightarrow> string list \<Rightarrow> bool" where
  "type2_equiv \<equiv> type2_equiv_in clone_keywords"

section \<open>Facts\<close>

text \<open>Repetition of one character class, and identifiers as the matcher sees them.\<close>

lemma rx_star_char:
  "rx_match (rstar (RChar P)) (pre, s, cs)
     = map (\<lambda>k. (rev (take k s) @ pre, drop k s, cs)) (rev [0..<Suc (length (takeWhile P s))])"
proof (induction s arbitrary: pre)
  case Nil
  show ?case by (simp add: rx_match.simps(5))
next
  case (Cons c s)
  have sh: "map f (rev [0..<Suc (Suc n)]) = map (\<lambda>k. f (Suc k)) (rev [0..<Suc n]) @ [f 0]"
    for f :: "nat \<Rightarrow> rstate" and n
    by (induction n) simp_all
  show ?case
  proof (cases "P c")
    case True
    then show ?thesis
      using Cons.IH [of "c # pre"]
      by (subst rx_match.simps(5)) (simp add: sh del: upt_Suc)
  next
    case False
    then show ?thesis by (subst rx_match.simps(5)) simp
  qed
qed


lemma rident_fullmatch:
  "re_fullmatch rident t \<noteq> None \<longleftrightarrow> (\<exists>c s. t = c # s \<and> is_id_start c \<and> list_all is_word s)"
proof (cases t)
  case Nil
  then show ?thesis by (simp add: re_fullmatch_def rident_def)
next
  case (Cons c s)
  have take: "length (takeWhile is_word s) = length s \<longleftrightarrow> list_all is_word s"
    by (metis list_all_iff takeWhile_eq_all_conv length_takeWhile_le takeWhile_eq_take take_all_iff
        le_refl)
  have "(\<exists>k<Suc (length (takeWhile is_word s)). length s \<le> k)
          \<longleftrightarrow> length s \<le> length (takeWhile is_word s)"
    by (auto intro: exI [of _ "length (takeWhile is_word s)"])
  also have "\<dots> \<longleftrightarrow> list_all is_word s"
    using take length_takeWhile_le [of is_word s] by linarith
  finally have "(\<exists>k<Suc (length (takeWhile is_word s)). length s \<le> k) \<longleftrightarrow> list_all is_word s" .
  then show ?thesis using Cons
    by (auto simp: re_fullmatch_def rident_def rx_star_char filter_empty_conv split: list.splits
        simp del: upt_Suc)
qed

section \<open>Type II normal forms coincide exactly on Type II equivalent tokens\<close>

text \<open>The name a token gets when the identifiers \<open>ns\<close> have been seen, and the names seen after it.\<close>

definition ident_index :: "string list \<Rightarrow> string \<Rightarrow> nat" where
  "ident_index ns t = length (takeWhile (\<lambda>x. x \<noteq> t) ns)"

definition emit :: "string list \<Rightarrow> string \<Rightarrow> string" where
  "emit ns t =
     (case class_of t of
        CStrLit \<Rightarrow> ''STR_LIT'' | CNumLit \<Rightarrow> ''NUM_LIT''
      | CIdent \<Rightarrow> var_name (ident_index ns t) | _ \<Rightarrow> t)"

definition names_after :: "string list \<Rightarrow> string \<Rightarrow> string list" where
  "names_after ns t = (if class_of t = CIdent \<and> t \<notin> set ns then ns @ [t] else ns)"

definition var_env :: "string list \<Rightarrow> (string, string) dict" where
  "var_env ns = zip ns (map (\<lambda>i. var_name i) [0..<length ns])"

lemma keys_var_env [simp]: "dict_keys (var_env ns) = ns"
  by (simp add: var_env_def)

lemma var_env_snoc: "t \<notin> set ns \<Longrightarrow>
    dict_set t (var_name (length ns)) (var_env ns) = var_env (ns @ [t])"
  by (subst dict_set_fresh) (simp_all add: var_env_def)

lemma ident_index_fresh: "t \<notin> set ns \<Longrightarrow> ident_index ns t = length ns"
  by (induction ns) (auto simp: ident_index_def)

lemma ident_index_nth: "t \<in> set ns \<Longrightarrow> ident_index ns t < length ns \<and> ns ! ident_index ns t = t"
  by (induction ns) (auto simp: ident_index_def)

lemma length_var_env [simp]: "length (var_env ns) = length ns"
  by (simp add: var_env_def)

lemma var_env_get:
  assumes "distinct ns" "t \<in> set ns"
  shows "dict_get (var_env ns) t = Some (var_name (ident_index ns t))"
proof -
  let ?i = "ident_index ns t"
  have i: "?i < length ns" "ns ! ?i = t" using ident_index_nth [OF assms(2)] by auto
  then have "var_env ns ! ?i = (t, var_name ?i)" by (simp add: var_env_def)
  with i have "(t, var_name ?i) \<in> set (var_env ns)" by (metis length_var_env nth_mem)
  with assms(1) show ?thesis by simp
qed

lemma var_env_get_None: "t \<notin> set ns \<Longrightarrow> dict_get (var_env ns) t = None"
  by (metis keys_var_env map_of_eq_None_iff set_map)

lemma norm2_step:
  "distinct ns \<Longrightarrow>
     norm2_tokens (var_env ns) (t # ts) = emit ns t # norm2_tokens (var_env (names_after ns t)) ts"
  by (cases "t \<in> set ns")
     (auto simp: emit_def names_after_def class_in_def var_env_get var_env_get_None var_env_snoc Let_def
       ident_index_fresh)

lemma distinct_names_after: "distinct ns \<Longrightarrow> distinct (names_after ns t)"
  by (simp add: names_after_def)


subsection \<open>The emitted token\<close>

lemma ident_class: "class_of t = CIdent \<Longrightarrow> re_fullmatch rident t \<noteq> None"
  by (simp add: class_in_def split: if_splits)

lemma other_not_ident: "class_of t = COther \<Longrightarrow> re_fullmatch rident t = None"
  by (simp add: class_in_def split: if_splits)

lemma keyword_class: "class_of t = CKeyword \<Longrightarrow> t \<in> set clone_keywords"
  by (simp add: class_in_def split: if_splits)

lemma keywords_plain:
  "list_all (\<lambda>k. k \<noteq> ''STR_LIT'' \<and> k \<noteq> ''NUM_LIT'' \<and> take 4 k \<noteq> ''VAR_'') clone_keywords"
  by code_simp

lemma generated_idents:
  "re_fullmatch rident ''STR_LIT'' \<noteq> None" "re_fullmatch rident ''NUM_LIT'' \<noteq> None"
  "re_fullmatch rident (var_name n) \<noteq> None"
  unfolding rident_fullmatch using nat_digits_word [of n]
  by (auto simp: var_name_def is_id_start_def is_word_def is_alnum_def is_alpha_def is_digit_def)

lemma var_name_inj: "var_name m = var_name n \<longleftrightarrow> m = n"
  by (simp add: var_name_def nat_digits_inj)

lemma generated_distinct:
  "var_name n \<noteq> ''STR_LIT''" "var_name n \<noteq> ''NUM_LIT''"
  by (simp_all add: var_name_def)

lemma keyword_not_generated:
  assumes "k \<in> set clone_keywords"
  shows "k \<noteq> ''STR_LIT''" "k \<noteq> ''NUM_LIT''" "k \<noteq> var_name n"
  using keywords_plain [unfolded list_all_iff, THEN bspec, OF assms] by (auto simp: var_name_def)

lemma emit_eq_iff:
  "emit ns t = emit ms u \<longleftrightarrow>
     same_shape t u \<and> (class_of t = CIdent \<longrightarrow> ident_index ns t = ident_index ms u)"
proof -
  note gen = generated_idents generated_distinct generated_distinct [symmetric] var_name_inj
  have kw: "class_of x = CKeyword \<Longrightarrow>
      x \<noteq> ''STR_LIT'' \<and> x \<noteq> ''NUM_LIT'' \<and> x \<noteq> var_name n \<and> var_name n \<noteq> x" for x n
    using keyword_not_generated [OF keyword_class] by metis
  have oth: "class_of x = COther \<Longrightarrow>
      x \<noteq> ''STR_LIT'' \<and> x \<noteq> ''NUM_LIT'' \<and> x \<noteq> var_name n \<and> var_name n \<noteq> x" for x n
    using other_not_ident generated_idents by metis
  show ?thesis
    by (cases "class_of t"; cases "class_of u")
       (auto simp: emit_def same_shape_in_def gen dest: kw oth)
qed


subsection \<open>The sequence\<close>

text \<open>A list of pairs relates each first component to one second component and back.\<close>

definition one_to_one :: "('a \<times> 'b) list \<Rightarrow> bool" where
  "one_to_one ps \<longleftrightarrow> (\<forall>p \<in> set ps. \<forall>q \<in> set ps. fst p = fst q \<longleftrightarrow> snd p = snd q)"

definition ident_pairs :: "string list \<Rightarrow> string list \<Rightarrow> (string \<times> string) list" where
  "ident_pairs ts us = filter (\<lambda>(t, u). class_of t = CIdent) (zip ts us)"

lemma one_to_one_cong: "set ps = set qs \<Longrightarrow> one_to_one ps = one_to_one qs"
  by (simp add: one_to_one_def)

lemma one_to_one_zip:
  "distinct ns \<Longrightarrow> distinct ms \<Longrightarrow> length ns = length ms \<Longrightarrow> one_to_one (zip ns ms)"
  by (auto simp: one_to_one_def in_set_zip nth_eq_iff_index_eq)

lemma ident_index_eq_iff:
  assumes "distinct ns" "distinct ms" "length ns = length ms"
  shows "ident_index ns t = ident_index ms u \<longleftrightarrow> one_to_one ((t, u) # zip ns ms)"
proof
  assume eq: "ident_index ns t = ident_index ms u"
  have nth: "ns ! i = t \<longleftrightarrow> ms ! i = u" if i: "i < length ns" for i
  proof -
    have "ns ! i = t \<longleftrightarrow> i = ident_index ns t"
      using ident_index_nth [of t ns] i assms(1) ident_index_fresh [of t ns]
      by (metis nat_neq_iff nth_eq_iff_index_eq nth_mem)
    moreover have "ms ! i = u \<longleftrightarrow> i = ident_index ms u"
      using ident_index_nth [of u ms] i assms ident_index_fresh [of u ms]
      by (metis nat_neq_iff nth_eq_iff_index_eq nth_mem)
    ultimately show ?thesis using eq by simp
  qed
  have "\<forall>p \<in> set (zip ns ms). fst p = t \<longleftrightarrow> snd p = u"
  proof
    fix p assume "p \<in> set (zip ns ms)"
    then obtain i where "i < length ns" "p = (ns ! i, ms ! i)" by (auto simp: set_zip)
    with nth show "fst p = t \<longleftrightarrow> snd p = u" by simp
  qed
  then show "one_to_one ((t, u) # zip ns ms)"
    using one_to_one_zip [OF assms] by (fastforce simp: one_to_one_def)
next
  assume oo: "one_to_one ((t, u) # zip ns ms)"
  have nth: "ns ! i = t \<longleftrightarrow> ms ! i = u" if i: "i < length ns" for i
  proof -
    have "(ns ! i, ms ! i) \<in> set (zip ns ms)" using i assms(3) by (auto simp: set_zip)
    with oo show ?thesis by (force simp: one_to_one_def)
  qed
  have tu: "t \<in> set ns \<longleftrightarrow> u \<in> set ms" using nth assms(3) by (metis in_set_conv_nth)
  show "ident_index ns t = ident_index ms u"
  proof (cases "t \<in> set ns")
    case True
    with tu have "u \<in> set ms" by simp
    from ident_index_nth [OF True] ident_index_nth [OF this] nth assms show ?thesis
      by (metis nth_eq_iff_index_eq)
  next
    case False
    with tu assms(3) show ?thesis by (simp add: ident_index_fresh)
  qed
qed

lemma same_shape_class: "same_shape t u \<Longrightarrow> class_of u = class_of t"
  unfolding same_shape_in_def by (elim conjE) (erule sym)

lemma norm2_eq_iff:
  assumes "distinct ns" "distinct ms" "length ns = length ms"
  shows "norm2_tokens (var_env ns) ts = norm2_tokens (var_env ms) us \<longleftrightarrow>
     list_all2 same_shape ts us \<and> one_to_one (zip ns ms @ ident_pairs ts us)"
  using assms
proof (induction ts arbitrary: us ns ms)
  case Nil
  show ?case
  proof (cases us)
    case Nil
    then show ?thesis using one_to_one_zip [OF Nil.prems] by (simp add: ident_pairs_def)
  next
    case (Cons u us')
    then show ?thesis using norm2_step [OF Nil.prems(2), of u us'] by simp
  qed
next
  case (Cons t ts)
  show ?case
  proof (cases us)
    case Nil
    then show ?thesis using norm2_step [OF Cons.prems(1), of t ts] by simp
  next
    case us: (Cons u us')
    let ?ns = "names_after ns t" and ?ms = "names_after ms u"
    have step: "norm2_tokens (var_env ns) (t # ts) = norm2_tokens (var_env ms) us \<longleftrightarrow>
        emit ns t = emit ms u
          \<and> norm2_tokens (var_env ?ns) ts = norm2_tokens (var_env ?ms) us'"
      using norm2_step [OF Cons.prems(1), of t ts] norm2_step [OF Cons.prems(2), of u us'] us by simp
    show ?thesis
    proof (cases "same_shape t u")
      case False
      then show ?thesis using step us emit_eq_iff by simp
    next
      case shape: True
      show ?thesis
      proof (cases "class_of t = CIdent")
        case False
        with same_shape_class [OF shape] have "class_of u \<noteq> CIdent" by simp
        with False have "?ns = ns" "?ms = ms" by (simp_all add: names_after_def)
        with step False shape us Cons.IH [OF Cons.prems] show ?thesis
          by (simp add: emit_eq_iff ident_pairs_def)
      next
        case ident: True
        with same_shape_class [OF shape] have ident': "class_of u = CIdent" by simp
        let ?all = "zip ns ms @ ident_pairs (t # ts) us"
        have all: "set ?all = insert (t, u) (set (zip ns ms) \<union> set (ident_pairs ts us'))"
          using ident us by (auto simp: ident_pairs_def)
        show ?thesis
        proof (cases "ident_index ns t = ident_index ms u")
          case False
          then have "\<not> one_to_one ((t, u) # zip ns ms)"
            using ident_index_eq_iff [OF Cons.prems] by simp
          then have "\<not> one_to_one ?all" using all unfolding one_to_one_def by auto
          with False step us shape ident show ?thesis by (simp add: emit_eq_iff)
        next
          case True
          then have oo: "one_to_one ((t, u) # zip ns ms)"
            using ident_index_eq_iff [OF Cons.prems] by simp
          have mem: "t \<in> set ns \<longleftrightarrow> u \<in> set ms"
            using True ident_index_nth ident_index_fresh Cons.prems(3) by (metis less_irrefl)
          have len: "length ?ns = length ?ms" using mem ident ident' Cons.prems by (simp add: names_after_def)
          have "set (zip ?ns ?ms) = insert (t, u) (set (zip ns ms))"
          proof (cases "t \<in> set ns")
            case True
            then have "(t, u) \<in> set (zip ns ms)"
              using mem \<open>ident_index ns t = ident_index ms u\<close> ident_index_nth [of t ns]
                ident_index_nth [of u ms] Cons.prems(3) by (auto simp: in_set_zip)
            with True mem show ?thesis by (auto simp: names_after_def)
          next
            case False
            with mem ident ident' Cons.prems(3) show ?thesis by (simp add: names_after_def)
          qed
          then have "set (zip ?ns ?ms @ ident_pairs ts us') = set ?all" using all by simp
          then have "one_to_one (zip ?ns ?ms @ ident_pairs ts us') = one_to_one ?all"
            by (rule one_to_one_cong)
          with step True shape ident us
            Cons.IH [OF distinct_names_after [OF Cons.prems(1)] distinct_names_after [OF Cons.prems(2)] len, of us']
          show ?thesis by (simp add: emit_eq_iff)
        qed
      qed
    qed
  qed
qed

lemma one_to_one_image:
  "set ps = {(f i, g i) |i. P i} \<Longrightarrow>
     one_to_one ps \<longleftrightarrow> (\<forall>i j. P i \<longrightarrow> P j \<longrightarrow> (f i = f j \<longleftrightarrow> g i = g j))"
  unfolding one_to_one_def by fastforce

lemma set_ident_pairs:
  "length ts = length us \<Longrightarrow>
     set (ident_pairs ts us) = {(ts ! i, us ! i) |i. i < length ts \<and> class_of (ts ! i) = CIdent}"
  by (auto simp: ident_pairs_def set_zip)

lemma type2_equiv_pairs:
  "type2_equiv ts us \<longleftrightarrow> list_all2 same_shape ts us \<and> one_to_one (ident_pairs ts us)"
proof (cases "list_all2 same_shape ts us")
  case True
  then have len: "length ts = length us" by (rule list_all2_lengthD)
  have "one_to_one (ident_pairs ts us) \<longleftrightarrow>
      (\<forall>i<length ts. \<forall>j<length ts. class_of (ts ! i) = CIdent \<and> class_of (ts ! j) = CIdent \<longrightarrow>
        (ts ! i = ts ! j \<longleftrightarrow> us ! i = us ! j))"
    unfolding one_to_one_image [OF set_ident_pairs [OF len]] by blast
  then show ?thesis by (simp add: type2_equiv_in_def)
qed (simp add: type2_equiv_in_def)

lemma norm2_tokens_iff: "norm2_tokens [] ts = norm2_tokens [] us \<longleftrightarrow> type2_equiv ts us"
  using norm2_eq_iff [of "[]" "[]" ts us] by (simp add: var_env_def type2_equiv_pairs)


subsection \<open>From token lists back to statements\<close>

definition blank_free :: "string \<Rightarrow> bool" where
  "blank_free t \<longleftrightarrow> t \<noteq> [] \<and> list_all (\<lambda>c. \<not> is_space c) t"

definition clone_token_text :: "string \<Rightarrow> bool" where
  "clone_token_text t \<longleftrightarrow> t \<noteq> [] \<and> (startswith t [dquote] \<or> blank_free t)"

lemma word_not_space: "is_word c \<Longrightarrow> \<not> is_space c"
  by (auto simp: is_word_def is_alnum_def is_alpha_def is_digit_def is_space_def Let_def)

lemma id_start_not_space: "is_id_start c \<Longrightarrow> \<not> is_space c"
  by (rule word_not_space) (auto simp: is_word_def is_alnum_def is_id_start_def)

lemma digit_not_space: "is_digit c \<Longrightarrow> \<not> is_space c"
  by (rule word_not_space) (simp add: is_word_def is_alnum_def)

lemma dot_not_space: "\<not> is_space (CHR ''.'')"
  by (simp add: is_space_def)

lemma clone_tokens_text:
  assumes "t \<in> set (clone_tokenize s)"
  shows "clone_token_text t"
  using assms unfolding clone_tokenize_def
proof (rule re_findall_consumed)
  fix st st' assume "st' \<in> set (rx_match rx_clone_token st)"
  then obtain q r where st': "st' \<in> set (rx_match q st) \<or> st' \<in> set (rx_match r st)"
    and q: "rx_first (\<lambda>c. c = dquote) q"
    and r: "rx_over (\<lambda>c. \<not> is_space c) r" "rx_first (\<lambda>c. True) r"
  proof -
    let ?q = "rseq [rchr dquote, rstar (RChar (\<lambda>c. c \<noteq> dquote \<and> c \<noteq> bslash)),
         rstar (rseq [rchr bslash, rdot, rstar (RChar (\<lambda>c. c \<noteq> dquote \<and> c \<noteq> bslash))]), rchr dquote]"
    let ?r = "ralt [rident, rseq [rplus rdigit, rchr CHR ''.'', rplus rdigit], rplus rdigit,
                    RChar (\<lambda>c. \<not> is_space c \<and> \<not> is_word c)]"
    assume *: "\<And>q r. st' \<in> set (rx_match q st) \<or> st' \<in> set (rx_match r st) \<Longrightarrow>
        rx_first (\<lambda>c. c = dquote) q \<Longrightarrow> rx_over (\<lambda>c. \<not> is_space c) r \<Longrightarrow>
        rx_first (\<lambda>c. True) r \<Longrightarrow> thesis"
    assume st': "st' \<in> set (rx_match rx_clone_token st)"
    have "rx_clone_token = RAlt ?q ?r" by (simp add: rx_clone_token_def Let_def)
    with st' have "st' \<in> set (rx_match (RAlt ?q ?r) st)" by simp
    then have "st' \<in> set (rx_match ?q st) \<or> st' \<in> set (rx_match ?r st)"
      unfolding rx_match.simps(4) by (simp only: set_append Un_iff)
    then show thesis
      by (rule *) (simp_all add: rident_def word_not_space id_start_not_space digit_not_space
          dot_not_space)
  qed
  from st' show "\<exists>u. fst (snd st) = u @ fst (snd st') \<and> clone_token_text u"
  proof
    assume m: "st' \<in> set (rx_match q st)"
    from rx_first_consumes [OF q m] obtain u where "fst (snd st) = (dquote # u) @ fst (snd st')"
      by auto
    then show ?thesis
      by (intro exI [of _ "dquote # u"]) (simp add: clone_token_text_def startswith_def)
  next
    assume m: "st' \<in> set (rx_match r st)"
    from rx_first_consumes [OF r(2) m] obtain c u where c: "fst (snd st) = (c # u) @ fst (snd st')"
      by auto
    from rx_over_consumes [OF r(1) m] obtain v
      where v: "fst (snd st) = v @ fst (snd st')" "list_all (\<lambda>c. \<not> is_space c) v"
      by (auto simp: consumes_over_def)
    with c have "v = c # u" by (metis append_same_eq)
    with v show ?thesis by (auto simp: clone_token_text_def blank_free_def)
  qed
qed

lemma emit_blank_free: "clone_token_text t \<Longrightarrow> blank_free (emit ns t)"
proof -
  have var: "blank_free (var_name n)" for n
    using nat_digits_word [of n] word_not_space
    by (auto simp: blank_free_def var_name_def list_all_iff is_space_def)
  have lits: "blank_free ''STR_LIT''" "blank_free ''NUM_LIT''"
    by (simp_all add: blank_free_def is_space_def)
  have quote: "\<not> startswith t [dquote]" if "class_of t \<noteq> CStrLit"
    using that by (auto simp: class_in_def)
  assume "clone_token_text t"
  with var lits quote show ?thesis
    by (cases "class_of t") (simp_all add: emit_def clone_token_text_def)
qed

lemma norm2_blank_free:
  "distinct ns \<Longrightarrow> list_all clone_token_text ts \<Longrightarrow>
     list_all blank_free (norm2_tokens (var_env ns) ts)"
  by (induction ts arbitrary: ns)
     (simp_all add: norm2_step emit_blank_free distinct_names_after del: norm2_tokens.simps(2))

lemma join_blank_free_inj:
  assumes "list_all blank_free xs" "list_all blank_free ys"
  shows "str_join '' '' xs = str_join '' '' ys \<longleftrightarrow> xs = ys"
proof -
  have "split_ws (str_join '' '' zs) = zs" if "list_all blank_free zs" for zs
    using that by (intro split_ws_join) (auto simp: blank_free_def list_all_iff)
  with assms show ?thesis by metis
qed

lemma norm2_statement_blank_free: "list_all blank_free (norm2_tokens [] (clone_tokenize s))"
  using norm2_blank_free [of "[]" "clone_tokenize s"] clone_tokens_text
  by (simp add: var_env_def list_all_iff)

lemma normalize_stmt_type2_iff:
  "normalize_stmt_type2 s = normalize_stmt_type2 t \<longleftrightarrow>
     type2_equiv (clone_tokenize s) (clone_tokenize t)"
  by (simp add: normalize_stmt_type2_def norm2_tokens_iff
      join_blank_free_inj [OF norm2_statement_blank_free norm2_statement_blank_free])

lemma class_in_cross: "t \<notin> set java_keywords \<Longrightarrow> class_in cross_keywords t = class_of t"
  by (simp add: class_in_def cross_keywords_def)

lemma type2_equiv_in_cong:
  assumes "\<forall>t\<in>set ts \<union> set us. class_in ks t = class_in ks' t"
  shows "type2_equiv_in ks ts us = type2_equiv_in ks' ts us"
proof -
  have "list_all2 (same_shape_in ks) ts us = list_all2 (same_shape_in ks') ts us"
    using assms by (intro list.rel_cong refl) (simp add: same_shape_in_def)
  moreover have "class_in ks (ts ! i) = class_in ks' (ts ! i)" if "i < length ts" for i
    using assms that by simp
  ultimately show ?thesis by (simp add: type2_equiv_in_def)
qed

text \<open>
  The Java keywords are not preserved, although the table lists them: a statement keeps its normal form
  when one of them takes the place of a name.
\<close>

lemma java_keywords_are_renamed:
  "normalize_stmt_type2 ''throw x;'' = normalize_stmt_type2 ''total x;''"
  by code_simp

text \<open>
  C15. Take two statements without the Java-only keywords of the table. They have the same Type II normal
  form exactly when their token sequences have the same length, the tokens agree in class (string literal,
  number, keyword of the C and Java table, identifier, other), keywords and punctuation are the same, and
  the identifiers are related by a one-to-one renaming; a literal stands for any literal of its class. The
  Java-only keywords are left out because the code renames them like identifiers, against the
  documentation of the function (\<open>java_keywords_are_renamed\<close>).
\<close>
theorem type2_normal_form:
  assumes "list_all (\<lambda>token. token \<notin> set java_keywords) (clone_tokenize s @ clone_tokenize t)"
  shows "normalize_stmt_type2 s = normalize_stmt_type2 t \<longleftrightarrow>
     type2_equiv_in cross_keywords (clone_tokenize s) (clone_tokenize t)"
proof -
  have "type2_equiv_in cross_keywords (clone_tokenize s) (clone_tokenize t)
      = type2_equiv (clone_tokenize s) (clone_tokenize t)"
    using assms by (intro type2_equiv_in_cong) (auto simp: list_all_iff class_in_cross)
  then show ?thesis by (simp add: normalize_stmt_type2_iff)
qed

theorem type2_normal_form_witness:
  "type2_equiv_in cross_keywords (clone_tokenize ''int x = x + 1;'') (clone_tokenize ''int y = y + 27;'')
   \<and> \<not> type2_equiv_in cross_keywords (clone_tokenize ''int x = x + 1;'') (clone_tokenize ''int y = z + 1;'')"
proof -
  have plain: "list_all (\<lambda>token. token \<notin> set java_keywords)
      (clone_tokenize ''int x = x + 1;'' @ clone_tokenize ''int y = y + 27;'')"
    "list_all (\<lambda>token. token \<notin> set java_keywords)
      (clone_tokenize ''int x = x + 1;'' @ clone_tokenize ''int y = z + 1;'')"
    by code_simp+
  have "normalize_stmt_type2 ''int x = x + 1;'' = normalize_stmt_type2 ''int y = y + 27;''"
    "normalize_stmt_type2 ''int x = x + 1;'' \<noteq> normalize_stmt_type2 ''int y = z + 1;''"
    by code_simp+
  then show ?thesis using type2_normal_form [OF plain(1)] type2_normal_form [OF plain(2)] by blast
qed

end
