(* ===== verification/CloneBase.thy ===== *)
theory CloneBase
  imports IR CloneNorm
begin

text \<open>
  What the detectors of \<open>cdup/src/detect.py\<close> read of the JSON document: segments as records with
  the keys they look up (optional keys are options), statements that are classified dictionaries or
  plain strings, the accessors \<open>_get_raw\<close>, \<open>_get_kind\<close> and \<open>_count_rw\<close>, and the parent-to-children
  dictionary every detector builds. The records are obtained from the IR by \<open>jseg_of\<close>.
\<close>

section \<open>The document\<close>

record dstmt =
  d_raw :: "string option"
  d_kind :: "string option"
  d_l_name :: "string option"
  d_r_names :: "string list option"

datatype jstmt = SDict dstmt | SStr string

record jseg =
  js_id :: nat
  js_parent :: nat
  js_type :: "string option"
  js_name :: "string option"
  js_scope_path :: "string option"
  js_file :: "string option"
  js_language :: "string option"
  js_stmts :: "jstmt list"

definition jstmt_of :: "stmt \<Rightarrow> jstmt" where
  "jstmt_of s = SDict \<lparr>d_raw = Some (st_raw s), d_kind = Some (st_kind s),
                        d_l_name = st_l_name s, d_r_names = Some (st_r_names s)\<rparr>"

definition jseg_of :: "fsegment \<Rightarrow> jseg" where
  "jseg_of s = \<lparr>js_id = sg_id s, js_parent = sg_parent s, js_type = Some (sg_type s),
                 js_name = Some (sg_name s), js_scope_path = Some (sg_scope_path s),
                 js_file = sg_file s, js_language = sg_language s,
                 js_stmts = map jstmt_of (sg_stmts s)\<rparr>"

definition get_opt :: "string option \<Rightarrow> string \<Rightarrow> string" where
  "get_opt v default_value = (case v of None \<Rightarrow> default_value | Some x \<Rightarrow> x)"

definition get_raw :: "jstmt \<Rightarrow> string" where
  "get_raw s = (case s of SDict d \<Rightarrow> get_opt (d_raw d) [] | SStr raw \<Rightarrow> raw)"

definition get_kind :: "jstmt \<Rightarrow> string" where
  "get_kind s = (case s of SDict d \<Rightarrow> get_opt (d_kind d) [] | SStr raw \<Rightarrow> [])"

definition count_rw :: "jstmt \<Rightarrow> nat \<times> nat" where
  "count_rw s =
     (case s of
        SDict d \<Rightarrow> (case d_r_names d of None \<Rightarrow> 0 | Some rs \<Rightarrow> length rs,
                     if truthy_str (d_l_name d) then 1 else 0)
      | SStr raw \<Rightarrow> (0, 0))"

section \<open>Children\<close>

definition children_map :: "jseg list \<Rightarrow> (nat, nat list) dict" where
  "children_map segments =
     (let d = fold (\<lambda>seg d. if js_id seg \<noteq> 0 \<and> js_parent seg \<noteq> js_id seg
                             then dict_append (js_parent seg) (js_id seg) d else d) segments []
      in map (\<lambda>(p, cs). (p, sort cs)) d)"

definition jseg_index :: "jseg list \<Rightarrow> (nat, jseg) dict" where
  "jseg_index segments = dict_by js_id segments"

lemma children_map_get:
  "dict_get_list (children_map segments) p =
     sort (map js_id (filter (\<lambda>s. js_parent s = p \<and> js_id s \<noteq> 0 \<and> js_id s \<noteq> p) segments))"
proof -
  have "dict_get_list (fold (\<lambda>seg d. if js_id seg \<noteq> 0 \<and> js_parent seg \<noteq> js_id seg
            then dict_append (js_parent seg) (js_id seg) d else d) segs d) p
      = dict_get_list d p
        @ map js_id (filter (\<lambda>s. js_parent s = p \<and> js_id s \<noteq> 0 \<and> js_id s \<noteq> p) segs)"
    for segs :: "jseg list" and d
    by (induction segs arbitrary: d) (auto simp: dict_get_list_append)
  moreover have "dict_get_list (map (\<lambda>(p, cs). (p, sort cs)) d) p = sort (dict_get_list d p)"
    for d :: "(nat, nat list) dict"
    by (induction d) (auto simp: dict_get_list_def)
  ultimately show ?thesis by (simp add: children_map_def Let_def)
qed

lemma children_mem:
  "c \<in> set (dict_get_list (children_map segments) p) \<longleftrightarrow>
     (\<exists>s\<in>set segments. js_id s = c \<and> js_parent s = p \<and> c \<noteq> 0 \<and> c \<noteq> p)"
  by (auto simp: children_map_get)

text \<open>
  The documents the front ends write: ids are distinct and every segment has a smaller parent id, or
  is its own parent.
\<close>

definition jsegs_wf :: "jseg list \<Rightarrow> bool" where
  "jsegs_wf segments \<longleftrightarrow> distinct (map js_id segments)
     \<and> list_all (\<lambda>s. js_parent s \<le> js_id s) segments"

lemma children_greater:
  "jsegs_wf segments \<Longrightarrow> c \<in> set (dict_get_list (children_map segments) p) \<Longrightarrow>
     p < c \<and> c \<in> js_id ` set segments"
  by (fastforce simp: children_mem jsegs_wf_def list_all_iff)

end
