(* ===== verification/CloneHash.thy ===== *)
theory CloneHash
  imports CloneBase
begin

text \<open>
  Block type identifiers of \<open>cdup/src/detect.py\<close>: \<open>get_block_type_id\<close>, the memoised recursion that
  gives every segment a number such that segments with the same normalised statements (child blocks
  replaced by their own numbers) share it. The digest function (\<open>sha256(...).hexdigest()\<close>) is a
  parameter; the recursion over child blocks has fuel, and runs out only on a cycle of parents, where
  Python's recursion limit ends it.
\<close>

section \<open>Filling placeholders\<close>

definition block_tag :: "nat \<Rightarrow> string" where
  "block_tag t = ''<BLOCK_TYPE_'' @ nat_digits t @ ''>''"

text \<open>The normal form of a statement and the placeholder the block loop looks for in it.\<close>

definition base_and_target :: "bool \<Rightarrow> string \<Rightarrow> string \<times> string" where
  "base_and_target type_2_norm raw =
     (if type_2_norm
      then let base = normalize_stmt_type2 raw
           in (base, if str_contains base ''{ }'' then ''{ }'' else ''{}'')
      else (normalize_stmt raw, ''{}''))"

text \<open>
  \<open>while target in base_stmt and child_idx < len(child_list)\<close>: the children still to be consumed are
  the list argument; what is left of it is returned.
\<close>

fun fill_blocks ::
  "(nat \<Rightarrow> 's \<Rightarrow> (nat \<times> 's) py) \<Rightarrow> string \<Rightarrow> string \<Rightarrow> nat list \<Rightarrow> 's \<Rightarrow>
     (string \<times> nat list \<times> 's) py" where
  "fill_blocks type_of target base [] st = Inr (base, [], st)"
| "fill_blocks type_of target base (c # cs) st =
     (if str_contains base target
      then py_bind (type_of c st)
             (\<lambda>(t, st). fill_blocks type_of target (replace1 base target (block_tag t)) cs st)
      else Inr (base, c # cs, st))"

fun hash_stmts ::
  "(nat \<Rightarrow> 's \<Rightarrow> (nat \<times> 's) py) \<Rightarrow> bool \<Rightarrow> jstmt list \<Rightarrow> nat list \<Rightarrow> 's \<Rightarrow>
     (string list \<times> 's) py" where
  "hash_stmts type_of type_2_norm [] cs st = Inr ([], st)"
| "hash_stmts type_of type_2_norm (s # ss) cs st =
     (let (base, target) = base_and_target type_2_norm (get_raw s)
      in py_bind (fill_blocks type_of target base cs st) (\<lambda>(base, cs, st).
         py_bind (hash_stmts type_of type_2_norm ss cs st) (\<lambda>(bases, st).
         Inr (base # bases, st))))"

section \<open>The memoised recursion\<close>

record hash_state =
  hs_seg :: "(nat, nat) dict"
  hs_global :: "(string, nat) dict"

definition empty_hashes :: hash_state where
  "empty_hashes = \<lparr>hs_seg = [], hs_global = []\<rparr>"

text \<open>Numbering a digest and recording the number of a segment.\<close>

definition assign_type :: "nat \<Rightarrow> string \<Rightarrow> hash_state \<Rightarrow> nat \<times> hash_state" where
  "assign_type seg_id h_full st =
     (let glob = (case dict_get (hs_global st) h_full of
                    None \<Rightarrow> dict_set h_full (length (hs_global st) + 1) (hs_global st)
                  | Some _ \<Rightarrow> hs_global st);
          t = (case dict_get glob h_full of None \<Rightarrow> 0 | Some t \<Rightarrow> t)
      in (t, \<lparr>hs_seg = dict_set seg_id t (hs_seg st), hs_global = glob\<rparr>))"

fun get_block_type_id ::
  "(string \<Rightarrow> string) \<Rightarrow> bool \<Rightarrow> (nat, jseg) dict \<Rightarrow> (nat, nat list) dict \<Rightarrow> nat \<Rightarrow> nat \<Rightarrow> hash_state \<Rightarrow>
     (nat \<times> hash_state) py" where
  "get_block_type_id digest type_2_norm by_id children 0 seg_id st = Inl RecursionError"
| "get_block_type_id digest type_2_norm by_id children (Suc fuel) seg_id st =
     (case dict_get (hs_seg st) seg_id of
        Some t \<Rightarrow> Inr (t, st)
      | None \<Rightarrow>
          py_bind (py_item by_id seg_id) (\<lambda>seg.
          py_bind (hash_stmts
                     (\<lambda>c st. get_block_type_id digest type_2_norm by_id children fuel c st)
                     type_2_norm (js_stmts seg) (dict_get_list children seg_id) st)
            (\<lambda>(hashed, st).
               let combined = str_join '' '' hashed
               in Inr (assign_type seg_id (digest combined) st))))"

text \<open>The loop that numbers every segment, and its dictionary.\<close>

definition block_type_ids ::
  "(string \<Rightarrow> string) \<Rightarrow> bool \<Rightarrow> jseg list \<Rightarrow> (nat, nat) dict py" where
  "block_type_ids digest type_2_norm segments =
     (let by_id = jseg_index segments; children = children_map segments
      in py_bind
           (py_fold (\<lambda>seg st.
              py_bind (get_block_type_id digest type_2_norm by_id children (Suc (length segments))
                         (js_id seg) st) (\<lambda>(_, st). Inr st))
            segments empty_hashes)
           (\<lambda>st. Inr (hs_seg st)))"

section \<open>What the numbers identify\<close>

text \<open>
  The text a segment is identified by when its children already have numbers: the same statement loop
  over a fixed dictionary.
\<close>

definition type_lookup :: "(nat, nat) dict \<Rightarrow> nat \<Rightarrow> unit \<Rightarrow> (nat \<times> unit) py" where
  "type_lookup T c st = py_bind (py_item T c) (\<lambda>t. Inr (t, st))"

definition seg_text :: "bool \<Rightarrow> jseg list \<Rightarrow> (nat, nat) dict \<Rightarrow> jseg \<Rightarrow> string py" where
  "seg_text type_2_norm segments T seg =
     py_bind (hash_stmts (type_lookup T) type_2_norm (js_stmts seg)
                (dict_get_list (children_map segments) (js_id seg)) ())
       (\<lambda>(hashed, _). Inr (str_join '' '' hashed))"

definition dict_le :: "('k, 'v) dict \<Rightarrow> ('k, 'v) dict \<Rightarrow> bool" where
  "dict_le d e \<longleftrightarrow> (\<forall>k v. dict_get d k = Some v \<longrightarrow> dict_get e k = Some v)"

lemma dict_le_refl [simp, intro]: "dict_le d d"
  by (simp add: dict_le_def)

lemma dict_le_trans: "dict_le d e \<Longrightarrow> dict_le e f \<Longrightarrow> dict_le d f"
  by (simp add: dict_le_def)

lemma dict_le_set: "dict_get d k = None \<Longrightarrow> dict_le d (dict_set k v d)"
  by (simp add: dict_le_def dict_get_set)

text \<open>
  A step function with state is tracked by a dictionary when every number it returns is in the
  dictionary of its final state and dictionaries only grow.
\<close>

definition tracked :: "(nat \<Rightarrow> hash_state \<Rightarrow> (nat \<times> hash_state) py) \<Rightarrow> (hash_state \<Rightarrow> bool) \<Rightarrow> bool" where
  "tracked f I \<longleftrightarrow> (\<forall>c st t st'. I st \<longrightarrow> f c st = Inr (t, st') \<longrightarrow>
     I st' \<and> dict_le (hs_seg st) (hs_seg st') \<and> dict_get (hs_seg st') c = Some t)"

lemma trackedD:
  "tracked f I \<Longrightarrow> I st \<Longrightarrow> f c st = Inr (t, st') \<Longrightarrow>
     I st' \<and> dict_le (hs_seg st) (hs_seg st') \<and> dict_get (hs_seg st') c = Some t"
  by (simp add: tracked_def)

lemma fill_blocks_tracked:
  assumes "tracked f I"
  shows "fill_blocks f target base cs st = Inr (base', cs', st') \<Longrightarrow> I st \<Longrightarrow>
     I st' \<and> dict_le (hs_seg st) (hs_seg st') \<and>
     (\<forall>T. dict_le (hs_seg st') T \<longrightarrow>
        fill_blocks (type_lookup T) target base cs () = Inr (base', cs', ()))"
proof (induction cs arbitrary: base st)
  case (Cons c cs)
  show ?case
  proof (cases "str_contains base target")
    case True
    with Cons.prems obtain t mid where step: "f c st = Inr (t, mid)"
      and rest: "fill_blocks f target (replace1 base target (block_tag t)) cs mid = Inr (base', cs', st')"
      by (auto simp: py_bind_eq_Inr)
    note mid = trackedD [OF assms Cons.prems(2) step]
    note IH = Cons.IH [OF rest conjunct1 [OF mid]]
    from mid IH have "dict_get (hs_seg st') c = Some t" by (simp add: dict_le_def)
    with IH mid True show ?thesis
      by (auto simp: type_lookup_def py_item_def dict_le_def)
  qed (use Cons.prems in auto)
qed simp

lemma hash_stmts_tracked:
  assumes "tracked f I"
  shows "hash_stmts f type_2_norm ss cs st = Inr (hashed, st') \<Longrightarrow> I st \<Longrightarrow>
     I st' \<and> dict_le (hs_seg st) (hs_seg st') \<and>
     (\<forall>T. dict_le (hs_seg st') T \<longrightarrow>
        hash_stmts (type_lookup T) type_2_norm ss cs () = Inr (hashed, ()))"
proof (induction ss arbitrary: cs st hashed)
  case (Cons s ss)
  obtain base target where bt: "base_and_target type_2_norm (get_raw s) = (base, target)"
    by (cases "base_and_target type_2_norm (get_raw s)")
  with Cons.prems obtain b cs' mid bs where
    fill: "fill_blocks f target base cs st = Inr (b, cs', mid)"
    and rest: "hash_stmts f type_2_norm ss cs' mid = Inr (bs, st')" and hashed: "hashed = b # bs"
    by (auto simp: py_bind_eq_Inr)
  note one = fill_blocks_tracked [OF assms fill Cons.prems(2)]
  note IH = Cons.IH [OF rest conjunct1 [OF one]]
  from one IH have "dict_le (hs_seg st) (hs_seg st')" by (blast intro: dict_le_trans)
  moreover have "hash_stmts (type_lookup T) type_2_norm (s # ss) cs () = Inr (hashed, ())"
    if "dict_le (hs_seg st') T" for T
  proof -
    have "dict_le (hs_seg mid) T" using IH that by (blast intro: dict_le_trans)
    with one IH that show ?thesis by (simp add: bt hashed)
  qed
  ultimately show ?case using IH by blast
qed simp


text \<open>
  The state invariant: the digests are numbered from 1 in the order of their first occurrence, and the
  number of a segment is the one of the digest of its text.
\<close>

definition hash_inv :: "(string \<Rightarrow> string) \<Rightarrow> bool \<Rightarrow> jseg list \<Rightarrow> hash_state \<Rightarrow> bool" where
  "hash_inv digest type_2_norm segments st \<longleftrightarrow>
     distinct (dict_keys (hs_global st))
     \<and> map snd (hs_global st) = [1..<Suc (length (hs_global st))]
     \<and> (\<forall>i t. dict_get (hs_seg st) i = Some t \<longrightarrow>
          (\<exists>seg x. dict_get (jseg_index segments) i = Some seg
             \<and> (\<forall>T. dict_le (hs_seg st) T \<longrightarrow> seg_text type_2_norm segments T seg = Inr x)
             \<and> dict_get (hs_global st) (digest x) = Some t))"

lemma empty_hash_inv: "hash_inv digest type_2_norm segments empty_hashes"
  by (simp add: hash_inv_def empty_hashes_def)

lemma assign_type_inv:
  assumes inv: "hash_inv digest t2 segs st" 
    and seg: "dict_get (jseg_index segs) i = Some seg"
    and stable: "\<And>T. dict_le (hs_seg st) T \<Longrightarrow> seg_text t2 segs T seg = Inr x"
    and res: "assign_type i (digest x) st = (t, st')"
  shows "hash_inv digest t2 segs st' \<and> dict_le (hs_seg st) (hs_seg st')
     \<and> dict_get (hs_seg st') i = Some t"
proof -
  let ?g = "hs_global st"
  define glob where "glob = (case dict_get ?g (digest x) of
      None \<Rightarrow> dict_set (digest x) (length ?g + 1) ?g | Some _ \<Rightarrow> ?g)"
  have fresh: "dict_set (digest x) (length ?g + 1) ?g = ?g @ [(digest x, length ?g + 1)]"
    if "dict_get ?g (digest x) = None"
    using that by (intro dict_set_fresh) (auto simp: map_of_eq_None_iff)
  have keys: "distinct (dict_keys glob)"
    using inv by (auto simp: glob_def hash_inv_def split: option.splits)
  have vals: "map snd glob = [1..<Suc (length glob)]"
    using inv fresh by (auto simp: glob_def hash_inv_def split: option.splits)
  have le: "dict_le ?g glob"
    by (auto simp: glob_def intro: dict_le_set split: option.splits)
  obtain t' where t': "dict_get glob (digest x) = Some t'"
    by (cases "dict_get ?g (digest x)") (auto simp: glob_def dict_get_set)
  with res have t: "t = t'" and st': "st' = \<lparr>hs_seg = dict_set i t (hs_seg st), hs_global = glob\<rparr>"
    by (auto simp: assign_type_def Let_def glob_def [symmetric])
  have "u = t" if "dict_get (hs_seg st) i = Some u" for u
  proof -
    from inv that obtain seg' y where "dict_get (jseg_index segs) i = Some seg'"
        "seg_text t2 segs (hs_seg st) seg' = Inr y" "dict_get ?g (digest y) = Some u"
      unfolding hash_inv_def by blast
    with seg stable [OF dict_le_refl] have "dict_get ?g (digest x) = Some u" by simp
    then show ?thesis using t' t by (simp add: glob_def)
  qed
  then have seg_le: "dict_le (hs_seg st) (hs_seg st')" using st' by (simp add: dict_le_def dict_get_set)
  have "\<exists>seg x. dict_get (jseg_index segs) j = Some seg
         \<and> (\<forall>T. dict_le (hs_seg st') T \<longrightarrow> seg_text t2 segs T seg = Inr x)
         \<and> dict_get glob (digest x) = Some u"
    if "dict_get (hs_seg st') j = Some u" for j u
  proof (cases "j = i")
    case True
    with that st' have "u = t" by (simp add: dict_get_set)
    moreover have "\<forall>T. dict_le (hs_seg st') T \<longrightarrow> seg_text t2 segs T seg = Inr x"
      using stable seg_le by (blast intro: dict_le_trans)
    ultimately show ?thesis using True seg t t' by blast
  next
    case False
    with that st' have "dict_get (hs_seg st) j = Some u" by (simp add: dict_get_set)
    with inv obtain seg' y where "dict_get (jseg_index segs) j = Some seg'"
        "\<forall>T. dict_le (hs_seg st) T \<longrightarrow> seg_text t2 segs T seg' = Inr y"
        "dict_get ?g (digest y) = Some u"
      unfolding hash_inv_def by blast
    with le seg_le show ?thesis by (meson dict_le_def dict_le_trans)
  qed
  with keys vals st' have "hash_inv digest t2 segs st'" by (simp add: hash_inv_def)
  with seg_le st' show ?thesis by (simp add: dict_get_set)
qed

lemma get_block_type_id_tracked:
  "tracked (get_block_type_id digest t2 (jseg_index segs) (children_map segs) fuel)
     (hash_inv digest t2 segs)"
proof (induction fuel)
  case 0
  show ?case by (simp add: tracked_def)
next
  case (Suc fuel)
  show ?case unfolding tracked_def
  proof (intro allI impI)
    fix c st t st'
    assume inv: "hash_inv digest t2 segs st"
      and run: "get_block_type_id digest t2 (jseg_index segs) (children_map segs) (Suc fuel) c st
                  = Inr (t, st')"
    show "hash_inv digest t2 segs st' \<and> dict_le (hs_seg st) (hs_seg st')
            \<and> dict_get (hs_seg st') c = Some t"
    proof (cases "dict_get (hs_seg st) c")
      case (Some u)
      with run inv show ?thesis by simp
    next
      case None
      with run obtain seg hashed mid where
        seg: "dict_get (jseg_index segs) c = Some seg"
        and stmts: "hash_stmts (get_block_type_id digest t2 (jseg_index segs) (children_map segs) fuel)
                 t2 (js_stmts seg) (dict_get_list (children_map segs) c) st = Inr (hashed, mid)"
        and res: "assign_type c (digest (str_join '' '' hashed)) mid = (t, st')"
        by (auto simp: py_bind_eq_Inr py_item_Inr)
      have id: "js_id seg = c" using dict_by_mem seg by (metis jseg_index_def)
      note tr = hash_stmts_tracked [OF Suc stmts inv]
      have stable: "seg_text t2 segs T seg = Inr (str_join '' '' hashed)"
        if "dict_le (hs_seg mid) T" for T
        using tr that by (simp add: seg_text_def id)
      from assign_type_inv [OF conjunct1 [OF tr] seg stable res] tr show ?thesis
        by (blast intro: dict_le_trans)
    qed
  qed
qed


section \<open>Every segment gets a number\<close>

definition above :: "jseg list \<Rightarrow> nat \<Rightarrow> nat" where
  "above segments i = length (filter (\<lambda>s. i < js_id s) segments)"

lemma above_less:
  assumes "s \<in> set segments" "i < js_id s"
  shows "above segments (js_id s) < above segments i"
proof -
  have "length (filter P xs) < length (filter Q xs)"
    if "\<And>x. P x \<Longrightarrow> Q x" "y \<in> set xs" "Q y" "\<not> P y" for P Q and y :: jseg and xs
    using that(2-4)
  proof (induction xs)
    case (Cons z zs)
    have "length (filter P zs) \<le> length (filter Q zs)" using that(1) by (induction zs) auto
    with Cons that(1) show ?case by (auto simp: less_Suc_eq_le)
  qed simp
  from this [of "\<lambda>s'. js_id s < js_id s'" "\<lambda>s. i < js_id s" s segments] assms show ?thesis
    by (auto simp: above_def)
qed

lemma fill_blocks_total:
  assumes "\<And>c st. c \<in> set cs \<Longrightarrow> \<exists>r. f c st = Inr r"
  shows "\<exists>b cs' st'. fill_blocks f target base cs st = Inr (b, cs', st') \<and> set cs' \<subseteq> set cs"
  using assms
proof (induction cs arbitrary: base st)
  case (Cons c cs)
  show ?case
  proof (cases "str_contains base target")
    case True
    obtain t mid where "f c st = Inr (t, mid)" using Cons.prems [of c st] by auto
    moreover obtain b cs' st' where
      "fill_blocks f target (replace1 base target (block_tag t)) cs mid = Inr (b, cs', st')"
      "set cs' \<subseteq> set cs"
      using Cons.IH [of "replace1 base target (block_tag t)" mid] Cons.prems by auto
    ultimately show ?thesis using True by auto
  qed auto
qed simp

lemma hash_stmts_total:
  assumes "\<And>c st. c \<in> set cs \<Longrightarrow> \<exists>r. f c st = Inr r"
  shows "\<exists>hashed st'. hash_stmts f type_2_norm ss cs st = Inr (hashed, st')"
  using assms
proof (induction ss arbitrary: cs st)
  case (Cons s ss)
  obtain base target where bt: "base_and_target type_2_norm (get_raw s) = (base, target)"
    by (cases "base_and_target type_2_norm (get_raw s)")
  obtain b cs' mid where fill: "fill_blocks f target base cs st = Inr (b, cs', mid)"
    and sub: "set cs' \<subseteq> set cs"
    using fill_blocks_total [of cs f target base st] Cons.prems by blast
  obtain bs st' where "hash_stmts f type_2_norm ss cs' mid = Inr (bs, st')"
    using Cons.IH [of cs' mid] Cons.prems sub by blast
  with fill bt show ?case by simp
qed simp

lemma get_block_type_id_total:
  assumes wf: "jsegs_wf segments"
  shows "c \<in> js_id ` set segments \<Longrightarrow> above segments c < fuel \<Longrightarrow>
     \<exists>r. get_block_type_id digest t2 (jseg_index segments) (children_map segments) fuel c st = Inr r"
proof (induction fuel arbitrary: c st)
  case (Suc fuel)
  show ?case
  proof (cases "dict_get (hs_seg st) c")
    case None
    obtain s where s: "s \<in> set segments" "c = js_id s" using Suc.prems(1) by auto
    obtain seg where seg: "dict_get (jseg_index segments) c = Some seg"
      using dict_by_in [OF s(1), of js_id] s(2) by (auto simp: jseg_index_def)
    let ?f = "\<lambda>c st. get_block_type_id digest t2 (jseg_index segments) (children_map segments) fuel c st"
    have "\<exists>r. ?f d st' = Inr r" if "d \<in> set (dict_get_list (children_map segments) c)" for d st'
    proof (rule Suc.IH)
      from children_greater [OF wf that] have "c < d" and mem: "d \<in> js_id ` set segments" by auto
      then obtain s where "s \<in> set segments" "c < js_id s" "d = js_id s" by auto
      with above_less Suc.prems(2) show "above segments d < fuel" by fastforce
      show "d \<in> js_id ` set segments" by (rule mem)
    qed
    then obtain hashed mid where "hash_stmts ?f t2 (js_stmts seg)
        (dict_get_list (children_map segments) c) st = Inr (hashed, mid)"
      using hash_stmts_total [of "dict_get_list (children_map segments) c" ?f t2 "js_stmts seg" st]
      by blast
    with None seg show ?thesis by (simp add: py_item_def)
  qed simp
qed simp

lemma block_type_loop:
  assumes wf: "jsegs_wf segments" and "set segs \<subseteq> set segments"
    and "hash_inv digest t2 segments st"
  shows "\<exists>st'. py_fold (\<lambda>seg st.
            py_bind (get_block_type_id digest t2 (jseg_index segments) (children_map segments)
                       (Suc (length segments)) (js_id seg) st) (\<lambda>(_, st). Inr st)) segs st = Inr st'
          \<and> hash_inv digest t2 segments st' \<and> dict_le (hs_seg st) (hs_seg st')
          \<and> (\<forall>s\<in>set segs. \<exists>t. dict_get (hs_seg st') (js_id s) = Some t)"
  using assms(2,3)
proof (induction segs arbitrary: st)
  case (Cons s segs)
  have bound: "above segments (js_id s) < Suc (length segments)"
    unfolding above_def less_Suc_eq_le by (rule length_filter_le)
  have mem: "js_id s \<in> js_id ` set segments" using Cons.prems(1) by simp
  have "\<exists>r. get_block_type_id digest t2 (jseg_index segments)
        (children_map segments) (Suc (length segments)) (js_id s) st = Inr r"
    by (rule get_block_type_id_total [OF wf mem bound])
  then obtain r where "get_block_type_id digest t2 (jseg_index segments)
        (children_map segments) (Suc (length segments)) (js_id s) st = Inr r" ..
  moreover obtain t mid where "r = (t, mid)" by (cases r)
  ultimately have run: "get_block_type_id digest t2 (jseg_index segments)
        (children_map segments) (Suc (length segments)) (js_id s) st = Inr (t, mid)" by simp
  from trackedD [OF get_block_type_id_tracked Cons.prems(2) run]
  have mid: "hash_inv digest t2 segments mid" "dict_le (hs_seg st) (hs_seg mid)"
    "dict_get (hs_seg mid) (js_id s) = Some t" by auto
  obtain st' where "py_fold (\<lambda>seg st.
            py_bind (get_block_type_id digest t2 (jseg_index segments) (children_map segments)
                       (Suc (length segments)) (js_id seg) st) (\<lambda>(_, st). Inr st)) segs mid = Inr st'"
    "hash_inv digest t2 segments st'" "dict_le (hs_seg mid) (hs_seg st')"
    "\<forall>s\<in>set segs. \<exists>t. dict_get (hs_seg st') (js_id s) = Some t"
    using Cons.IH [OF _ mid(1)] Cons.prems(1) by auto
  with run mid show ?case
    by (auto simp del: get_block_type_id.simps intro: dict_le_trans)
       (auto simp: dict_le_def)
qed simp

text \<open>The numbers are defined for every segment and separate exactly the digests of the texts.\<close>

lemma block_type_ids_spec:
  assumes "jsegs_wf segments"
  shows "\<exists>T. block_type_ids digest t2 segments = Inr T
    \<and> (\<forall>s\<in>set segments. \<exists>x t. seg_text t2 segments T s = Inr x \<and> dict_get T (js_id s) = Some t
         \<and> 1 \<le> t
         \<and> (\<forall>s'\<in>set segments. dict_get T (js_id s') = Some t \<longleftrightarrow>
              (\<exists>x'. seg_text t2 segments T s' = Inr x' \<and> digest x' = digest x)))"
proof -
  obtain st where run: "py_fold (\<lambda>seg st.
            py_bind (get_block_type_id digest t2 (jseg_index segments) (children_map segments)
                       (Suc (length segments)) (js_id seg) st) (\<lambda>(_, st). Inr st)) segments empty_hashes
       = Inr st"
    and inv: "hash_inv digest t2 segments st"
    and all: "\<forall>s\<in>set segments. \<exists>t. dict_get (hs_seg st) (js_id s) = Some t"
    using block_type_loop [OF assms subset_refl empty_hash_inv] by blast
  let ?T = "hs_seg st" and ?g = "hs_global st"
  have res: "block_type_ids digest t2 segments = Inr ?T"
    using run by (simp add: block_type_ids_def Let_def del: get_block_type_id.simps)
  have known: "\<exists>x t. seg_text t2 segments ?T s = Inr x \<and> dict_get ?T (js_id s) = Some t
       \<and> dict_get ?g (digest x) = Some t" if "s \<in> set segments" for s
  proof -
    from all that obtain t where t: "dict_get ?T (js_id s) = Some t" by blast
    with inv obtain seg x where "dict_get (jseg_index segments) (js_id s) = Some seg"
        "seg_text t2 segments ?T seg = Inr x" "dict_get ?g (digest x) = Some t"
      unfolding hash_inv_def by blast
    moreover have "dict_get (jseg_index segments) (js_id s) = Some s"
      unfolding jseg_index_def by (rule dict_by_Some) (use assms that in \<open>simp_all add: jsegs_wf_def\<close>)
    ultimately show ?thesis using t by auto
  qed
  have vals: "map snd ?g = [1..<Suc (length ?g)]" and keys: "distinct (dict_keys ?g)"
    using inv unfolding hash_inv_def by blast+
  have inj: "k = k'" if "dict_get ?g k = Some t" "dict_get ?g k' = Some t" for k k' t
  proof -
    have "distinct (map snd ?g)" unfolding vals by simp
    moreover from that have "(k, t) \<in> set ?g" "(k', t) \<in> set ?g" by (auto dest: map_of_SomeD)
    ultimately show ?thesis by (metis distinct_map inj_onD prod.inject snd_conv)
  qed
  have pos: "1 \<le> t" if "dict_get ?g k = Some t" for k t
  proof -
    from that have "t \<in> set (map snd ?g)" by (force dest: map_of_SomeD)
    then show ?thesis unfolding vals by auto
  qed
  show ?thesis
  proof (intro exI [of _ ?T] conjI ballI res)
    fix s assume "s \<in> set segments"
    from known [OF this] obtain x t where x: "seg_text t2 segments ?T s = Inr x"
      "dict_get ?T (js_id s) = Some t" "dict_get ?g (digest x) = Some t" by blast
    have "dict_get ?T (js_id s') = Some t \<longleftrightarrow>
            (\<exists>x'. seg_text t2 segments ?T s' = Inr x' \<and> digest x' = digest x)"
      if "s' \<in> set segments" for s'
      using known [OF that] inj x(3) by fastforce
    with x pos show "\<exists>x t. seg_text t2 segments ?T s = Inr x \<and> dict_get ?T (js_id s) = Some t
         \<and> 1 \<le> t \<and> (\<forall>s'\<in>set segments. dict_get ?T (js_id s') = Some t \<longleftrightarrow>
              (\<exists>x'. seg_text t2 segments ?T s' = Inr x' \<and> digest x' = digest x))"
      by blast
  qed
qed

text \<open>
  On a document with distinct ids and parents that come before their children, every segment gets
  a block type number, and two segments get the same number exactly when the digests of their
  normalised texts, child blocks replaced by their numbers, agree.
\<close>
lemma block_types_identify_texts:
  assumes "jsegs_wf segments"
  shows "\<exists>T. block_type_ids digest t2 segments = Inr T
    \<and> (\<forall>s\<in>set segments. \<exists>x t. seg_text t2 segments T s = Inr x \<and> dict_get T (js_id s) = Some t
         \<and> 1 \<le> t
         \<and> (\<forall>s'\<in>set segments. dict_get T (js_id s') = Some t \<longleftrightarrow>
              (\<exists>x'. seg_text t2 segments T s' = Inr x' \<and> digest x' = digest x)))"
  using assms by (rule block_type_ids_spec)

definition sample_jseg :: "nat \<Rightarrow> nat \<Rightarrow> string list \<Rightarrow> jseg" where
  "sample_jseg i p raws =
     \<lparr>js_id = i, js_parent = p, js_type = Some ''function'', js_name = None, js_scope_path = None,
      js_file = None, js_language = None, js_stmts = map SStr raws\<rparr>"

definition sample_jsegs :: "jseg list" where
  "sample_jsegs =
     [sample_jseg 0 0 [''int f(){}'', ''int g(){}''],
      sample_jseg 1 0 [''while(x){}'', ''return x;''],
      sample_jseg 2 1 [''x--;''],
      sample_jseg 3 0 [''while(y) {}'', ''return x;''],
      sample_jseg 4 3 [''X--;'']]"

theorem block_types_identify_texts_witness:
  "\<exists>T. block_type_ids (\<lambda>s. s) False sample_jsegs = Inr T
    \<and> (\<forall>s\<in>set sample_jsegs. \<exists>x t. seg_text False sample_jsegs T s = Inr x
         \<and> dict_get T (js_id s) = Some t \<and> 1 \<le> t
         \<and> (\<forall>s'\<in>set sample_jsegs. dict_get T (js_id s') = Some t \<longleftrightarrow>
              (\<exists>x'. seg_text False sample_jsegs T s' = Inr x' \<and> x' = x)))"
  by (rule block_types_identify_texts) (simp add: jsegs_wf_def sample_jsegs_def sample_jseg_def)

end
