(* ===== verification/CloneSemantic.thy ===== *)
theory CloneSemantic
  imports CloneHash
begin

text \<open>
  Type IV detection of \<open>cdup/src/detect.py\<close>: statement kinds are abstracted, a recursive fingerprint of
  the block structure is taken, and functions with the same signature are grouped. The digest of a
  signature (\<open>sha256(repr(sig)).hexdigest()\<close>) is a parameter.
\<close>

section \<open>Kinds\<close>

definition kind_map :: "(string \<times> string) list" where
  "kind_map =
    [(''assign'', ''A''), (''decl_assign'', ''A''), (''compound_assign'', ''A''),
     (''increment'', ''A''), (''decrement'', ''A''),
     (''decl'', ''D''),
     (''return'', ''R''), (''break'', ''B''), (''continue'', ''C''),
     (''call'', ''K''), (''method_call'', ''K''),
     (''printf'', ''IO''), (''println'', ''IO''), (''print'', ''IO''), (''scanf'', ''IO''),
     (''if'', ''IF''), (''else'', ''ELSE''), (''else_if'', ''ELIF''),
     (''while'', ''W''), (''for'', ''F''), (''do_while'', ''DW''),
     (''switch'', ''SW''), (''case'', ''CASE''),
     (''try'', ''TRY''), (''catch'', ''CATCH'')]"

definition abstract_kind :: "string \<Rightarrow> string" where
  "abstract_kind kind = (case map_of kind_map kind of None \<Rightarrow> ''X'' | Some a \<Rightarrow> a)"

text \<open>The category of a statement without a kind, from its text.\<close>

definition text_kind :: "string \<Rightarrow> string" where
  "text_kind raw =
     (let raw_lower = str_lower (str_strip raw)
      in if startswith raw_lower ''return'' then ''R''
         else if startswith raw_lower ''if'' \<or> startswith raw_lower ''else if'' then ''IF''
         else if startswith raw_lower ''else'' then ''ELSE''
         else if startswith raw_lower ''for'' then ''F''
         else if startswith raw_lower ''while'' then ''W''
         else if str_contains raw ''='' \<and> \<not> startswith (str_strip raw) ''='' then ''A''
         else ''X'')"

definition stmt_category :: "jstmt \<Rightarrow> string" where
  "stmt_category s =
     (if get_kind s \<noteq> [] then abstract_kind (get_kind s) else text_kind (get_raw s))"

section \<open>Fingerprints and signatures\<close>

text \<open>The tuples \<open>(ak,)\<close> and \<open>(ak, "BLOCK", child_fp)\<close>; a missing child has the empty tuple.\<close>

datatype shape = Leaf string | Block string "shape list"

fun fingerprint_stmts ::
  "(jseg \<Rightarrow> shape list py) \<Rightarrow> (nat, jseg) dict \<Rightarrow> jstmt list \<Rightarrow> nat list \<Rightarrow> shape list py" where
  "fingerprint_stmts child_fp by_id [] cs = Inr []"
| "fingerprint_stmts child_fp by_id (s # ss) cs =
     (let ak = stmt_category s
      in case cs of
           [] \<Rightarrow> py_bind (fingerprint_stmts child_fp by_id ss []) (\<lambda>rest. Inr (Leaf ak # rest))
         | c # cs' \<Rightarrow>
             if str_contains (get_raw s) ''{}''
             then py_bind (case dict_get by_id c of None \<Rightarrow> Inr [] | Some child \<Rightarrow> child_fp child) (\<lambda>fp.
                  py_bind (fingerprint_stmts child_fp by_id ss cs') (\<lambda>rest.
                  Inr (Block ak fp # rest)))
             else py_bind (fingerprint_stmts child_fp by_id ss cs) (\<lambda>rest. Inr (Leaf ak # rest)))"

fun structural_fingerprint ::
  "(nat, jseg) dict \<Rightarrow> (nat, nat list) dict \<Rightarrow> nat \<Rightarrow> jseg \<Rightarrow> shape list py" where
  "structural_fingerprint by_id children 0 seg = Inl RecursionError"
| "structural_fingerprint by_id children (Suc fuel) seg =
     fingerprint_stmts (\<lambda>child. structural_fingerprint by_id children fuel child) by_id (js_stmts seg)
       (dict_get_list children (js_id seg))"

type_synonym signature = "shape list \<times> (nat \<times> nat) list \<times> string list"

definition semantic_signature ::
  "(nat, jseg) dict \<Rightarrow> (nat, nat list) dict \<Rightarrow> nat \<Rightarrow> jseg \<Rightarrow> signature py" where
  "semantic_signature by_id children fuel seg =
     py_bind (structural_fingerprint by_id children fuel seg) (\<lambda>fp.
       let rw_pattern = map count_rw (js_stmts seg);
           child_types = map (\<lambda>s. get_opt (js_type s) ''?'')
             (List.map_filter (dict_get by_id) (dict_get_list children (js_id seg)))
       in Inr (fp, rw_pattern, child_types))"

section \<open>Grouping\<close>

record t4_occ =
  t4_seg :: nat
  t4_start :: int
  t4_end :: int
  t4_scope :: string
  t4_file :: string
  t4_language :: string
  t4_function :: string
  t4_statements :: "string list"

record t4_class =
  t4_id :: nat
  t4_cross :: bool
  t4_count :: nat
  t4_hash :: string
  t4_occs :: "t4_occ list"

definition t4_occ_of :: "jseg \<Rightarrow> t4_occ" where
  "t4_occ_of seg =
     \<lparr>t4_seg = js_id seg, t4_start = 0, t4_end = int (length (js_stmts seg)) - 1,
      t4_scope = get_opt (js_scope_path seg) [], t4_file = get_opt (js_file seg) [],
      t4_language = get_opt (js_language seg) ''c'', t4_function = get_opt (js_name seg) [],
      t4_statements = map get_raw (js_stmts seg)\<rparr>"

definition fn_segments :: "nat \<Rightarrow> jseg list \<Rightarrow> jseg list" where
  "fn_segments min_length segments =
     filter (\<lambda>seg. js_type seg = Some ''function'' \<and> min_length \<le> length (js_stmts seg)) segments"

definition sig_groups ::
  "(signature \<Rightarrow> string) \<Rightarrow> jseg list \<Rightarrow> jseg list \<Rightarrow> (string, jseg list) dict py" where
  "sig_groups digest segments fns =
     py_fold (\<lambda>seg d.
         py_bind (semantic_signature (jseg_index segments) (children_map segments)
                    (Suc (length segments)) seg)
           (\<lambda>sig. Inr (dict_append (digest sig) seg d)))
       fns []"

definition t4_class_of :: "nat \<times> string \<times> jseg list \<Rightarrow> t4_class" where
  "t4_class_of = (\<lambda>(clone_id, sig_hash, group).
     \<lparr>t4_id = clone_id,
      t4_cross = (1 < length (remdups (map (\<lambda>seg. get_opt (js_language seg) ''c'') group))),
      t4_count = length group, t4_hash = take 16 sig_hash, t4_occs = map t4_occ_of group\<rparr>)"

definition detect_type4 :: "(signature \<Rightarrow> string) \<Rightarrow> jseg list \<Rightarrow> nat \<Rightarrow> t4_class list py" where
  "detect_type4 digest segments min_length =
     py_bind (sig_groups digest segments (fn_segments min_length segments)) (\<lambda>groups.
       let ordered = sort_key (\<lambda>(h, group). - int (length group)) groups;
           large = filter (\<lambda>(h, group). 2 \<le> length group) ordered
       in Inr (map t4_class_of (enumerate 1 large)))"


section \<open>Fingerprints exist\<close>

lemma fingerprint_stmts_total:
  assumes "\<And>c s. c \<in> set cs \<Longrightarrow> dict_get by_id c = Some s \<Longrightarrow> \<exists>fp. f s = Inr fp"
  shows "\<exists>fp. fingerprint_stmts f by_id ss cs = Inr fp"
  using assms
proof (induction ss arbitrary: cs)
  case (Cons s ss)
  show ?case
  proof (cases cs)
    case Nil
    with Cons.IH [of "[]"] show ?thesis by (auto simp: Let_def)
  next
    case cs: (Cons c cs')
    obtain rest where rest: "fingerprint_stmts f by_id ss cs = Inr rest"
      using Cons.IH [of cs] Cons.prems by blast
    obtain rest' where rest': "fingerprint_stmts f by_id ss cs' = Inr rest'"
      using Cons.IH [of cs'] Cons.prems cs by (metis list.set_intros(2))
    have "\<exists>fp. (case dict_get by_id c of None \<Rightarrow> Inr [] | Some child \<Rightarrow> f child) = Inr fp"
      using Cons.prems [of c] cs by (cases "dict_get by_id c") auto
    with rest rest' show ?thesis by (auto simp: cs Let_def)
  qed
qed simp

lemma structural_fingerprint_total:
  assumes wf: "jsegs_wf segments"
  shows "s \<in> set segments \<Longrightarrow> above segments (js_id s) < fuel \<Longrightarrow>
     \<exists>fp. structural_fingerprint (jseg_index segments) (children_map segments) fuel s = Inr fp"
proof (induction fuel arbitrary: s)
  case (Suc fuel)
  have "\<exists>fp. structural_fingerprint (jseg_index segments) (children_map segments) fuel c = Inr fp"
    if "i \<in> set (dict_get_list (children_map segments) (js_id s))"
      "dict_get (jseg_index segments) i = Some c" for i c
  proof (rule Suc.IH)
    from dict_by_mem that(2) have c: "c \<in> set segments" "js_id c = i"
      unfolding jseg_index_def by (metis (lifting))+
    show "c \<in> set segments" by (rule c(1))
    from children_greater [OF wf that(1)] c have "js_id s < js_id c" by simp
    from above_less [OF c(1) this] Suc.prems(2) show "above segments (js_id c) < fuel" by simp
  qed
  then show ?case by (simp add: fingerprint_stmts_total)
qed simp

lemma semantic_signature_total:
  assumes "jsegs_wf segments" "s \<in> set segments"
  shows "\<exists>sig. semantic_signature (jseg_index segments) (children_map segments)
                (Suc (length segments)) s = Inr sig"
proof -
  have bound: "above segments (js_id s) < Suc (length segments)"
    unfolding above_def less_Suc_eq_le by (rule length_filter_le)
  from structural_fingerprint_total [OF assms bound] obtain fp where
    "structural_fingerprint (jseg_index segments) (children_map segments) (Suc (length segments)) s = Inr fp"
    by blast
  then show ?thesis by (simp add: semantic_signature_def Let_def del: structural_fingerprint.simps)
qed

section \<open>Classes are the groups of equal signatures\<close>

definition sig_of :: "jseg list \<Rightarrow> jseg \<Rightarrow> signature" where
  "sig_of segments s =
     (case semantic_signature (jseg_index segments) (children_map segments) (Suc (length segments)) s of
        Inl _ \<Rightarrow> ([], [], []) | Inr sig \<Rightarrow> sig)"

lemma sig_of_ok:
  "jsegs_wf segments \<Longrightarrow> s \<in> set segments \<Longrightarrow>
     semantic_signature (jseg_index segments) (children_map segments) (Suc (length segments)) s
       = Inr (sig_of segments s)"
  using semantic_signature_total [of segments s] unfolding sig_of_def
  by (cases "semantic_signature (jseg_index segments) (children_map segments) (Suc (length segments)) s")
     auto

abbreviation with_digest :: "(signature \<Rightarrow> string) \<Rightarrow> jseg list \<Rightarrow> jseg list \<Rightarrow> string \<Rightarrow> jseg list" where
  "with_digest digest segments fns h \<equiv> filter (\<lambda>s. digest (sig_of segments s) = h) fns"

definition groups_inv ::
  "(signature \<Rightarrow> string) \<Rightarrow> jseg list \<Rightarrow> jseg list \<Rightarrow> (string, jseg list) dict \<Rightarrow> bool" where
  "groups_inv digest segments fns d \<longleftrightarrow> distinct (dict_keys d)
     \<and> (\<forall>h. dict_get_list d h = with_digest digest segments fns h)"

lemma sig_groups_spec:
  assumes wf: "jsegs_wf segments" and sub: "set fns \<subseteq> set segments"
  shows "\<exists>d. sig_groups digest segments fns = Inr d \<and> groups_inv digest segments fns d"
  unfolding sig_groups_def
proof (rule py_fold_invariant)
  show "groups_inv digest segments [] []" by (simp add: groups_inv_def)
next
  fix ys s d
  assume "s \<in> set fns" "groups_inv digest segments ys d"
  then show "\<exists>d'. py_bind (semantic_signature (jseg_index segments) (children_map segments)
                    (Suc (length segments)) s)
           (\<lambda>sig. Inr (dict_append (digest sig) s d)) = Inr d' \<and> groups_inv digest segments (ys @ [s]) d'"
    using sub by (auto simp: sig_of_ok [OF wf] groups_inv_def dict_get_list_append dict_keys_append)
qed

lemma groups_inv_mem:
  assumes "groups_inv digest segments fns d" "2 \<le> length g"
  shows "(h, g) \<in> set d \<longleftrightarrow> g = with_digest digest segments fns h"
proof -
  from assms(1) have dist: "distinct (dict_keys d)"
    and get: "dict_get_list d h = with_digest digest segments fns h" by (simp_all add: groups_inv_def)
  show ?thesis
  proof
    assume "(h, g) \<in> set d"
    with dist get show "g = with_digest digest segments fns h" by (simp add: dict_get_list_def)
  next
    assume g: "g = with_digest digest segments fns h"
    with get assms(2) have "dict_get d h = Some g"
      by (cases "dict_get d h") (auto simp: dict_get_list_def)
    then show "(h, g) \<in> set d" by (rule map_of_SomeD)
  qed
qed

lemma t4_occ_inj:
  "distinct (map js_id segments) \<Longrightarrow> s \<in> set segments \<Longrightarrow> s' \<in> set segments \<Longrightarrow>
     t4_occ_of s = t4_occ_of s' \<Longrightarrow> s = s'"
  by (metis distinct_map inj_onD t4_occ.select_convs(1) t4_occ_of_def)

lemma two_in_filter:
  "s \<in> set xs \<Longrightarrow> s' \<in> set xs \<Longrightarrow> s \<noteq> s' \<Longrightarrow> P s \<Longrightarrow> P s' \<Longrightarrow> 2 \<le> length (filter P xs)"
proof -
  assume *: "s \<in> set xs" "s' \<in> set xs" "s \<noteq> s'" "P s" "P s'"
  then have "card {s, s'} \<le> card (set (filter P xs))" by (intro card_mono) auto
  also have "\<dots> \<le> length (filter P xs)" by (rule card_length)
  finally show ?thesis using *(3) by simp
qed

text \<open>The classes, as the groups of at least two functions with one digest.\<close>

lemma detect_type4_spec:
  assumes wf: "jsegs_wf segments"
  shows "\<exists>classes. detect_type4 digest segments m = Inr classes
    \<and> map t4_id classes = [1..<Suc (length classes)]
    \<and> (\<forall>c\<in>set classes. \<exists>h. t4_occs c = map t4_occ_of (with_digest digest segments (fn_segments m segments) h)
          \<and> t4_count c = length (t4_occs c) \<and> 2 \<le> t4_count c)
    \<and> (\<forall>s\<in>set (fn_segments m segments). \<forall>s'\<in>set (fn_segments m segments). s \<noteq> s' \<longrightarrow>
         (digest (sig_of segments s) = digest (sig_of segments s') \<longleftrightarrow>
            (\<exists>c\<in>set classes. t4_occ_of s \<in> set (t4_occs c) \<and> t4_occ_of s' \<in> set (t4_occs c))))"
proof -
  let ?fns = "fn_segments m segments"
  let ?with = "with_digest digest segments ?fns"
  have sub: "set ?fns \<subseteq> set segments" by (auto simp: fn_segments_def)
  have dist: "distinct (map js_id segments)" using wf by (simp add: jsegs_wf_def)
  from sig_groups_spec [OF wf sub] obtain d where
    d: "sig_groups digest segments ?fns = Inr d" "groups_inv digest segments ?fns d" by blast
  define large where
    "large = filter (\<lambda>(h, group). 2 \<le> length group) (sort_key (\<lambda>(h, group). - int (length group)) d)"
  have large: "(h, g) \<in> set large \<longleftrightarrow> 2 \<le> length g \<and> g = ?with h" for h g
    using groups_inv_mem [OF d(2), of g h] by (auto simp: large_def)
  define classes where "classes = map t4_class_of (enumerate 1 large)"
  have res: "detect_type4 digest segments m = Inr classes"
    by (simp add: detect_type4_def d(1) classes_def large_def Let_def)
  have "map t4_id (map t4_class_of (enumerate k xs)) = [k..<k + length xs]" for k xs
    by (induction xs arbitrary: k) (auto simp: t4_class_of_def upt_conv_Cons simp del: upt_Suc)
  from this [of 1 large] have ids: "map t4_id classes = [1..<Suc (length classes)]"
    by (simp add: classes_def)
  have mem: "c \<in> set classes \<longleftrightarrow> (\<exists>i h g. (i, h, g) \<in> set (enumerate 1 large) \<and> c = t4_class_of (i, h, g))" for c
    by (auto simp: classes_def)
  have occs: "t4_occs (t4_class_of (i, h, g)) = map t4_occ_of g"
    "t4_count (t4_class_of (i, h, g)) = length g" for i h g by (simp_all add: t4_class_of_def)
  have enum: "(i, h, g) \<in> set (enumerate 1 large) \<Longrightarrow> (h, g) \<in> set large" for i h g
    by (rule enumerate_memD)
  have shape: "\<exists>h. t4_occs c = map t4_occ_of (?with h) \<and> t4_count c = length (t4_occs c) \<and> 2 \<le> t4_count c"
    if "c \<in> set classes" for c
  proof -
    from that obtain i h g where "(i, h, g) \<in> set (enumerate 1 large)" and c: "c = t4_class_of (i, h, g)"
      unfolding mem by blast
    then have "2 \<le> length g" "g = ?with h" using enum large by blast+
    then show ?thesis unfolding c occs length_map by blast
  qed
  have pair: "digest (sig_of segments s) = digest (sig_of segments s') \<longleftrightarrow>
            (\<exists>c\<in>set classes. t4_occ_of s \<in> set (t4_occs c) \<and> t4_occ_of s' \<in> set (t4_occs c))"
    if s: "s \<in> set ?fns" "s' \<in> set ?fns" "s \<noteq> s'" for s s'
  proof
    assume eq: "digest (sig_of segments s) = digest (sig_of segments s')"
    let ?h = "digest (sig_of segments s')"
    have "2 \<le> length (?with ?h)" by (rule two_in_filter [OF s]) (use eq in simp_all)
    then have "(?h, ?with ?h) \<in> set large" using large by blast
    then obtain i where "(i, ?h, ?with ?h) \<in> set (enumerate 1 large)"
      using enumerate_memI by fast
    then have "t4_class_of (i, ?h, ?with ?h) \<in> set classes" using mem by blast
    moreover have "s \<in> set (?with ?h)" "s' \<in> set (?with ?h)" using s eq by simp_all
    then have "t4_occ_of s \<in> set (t4_occs (t4_class_of (i, ?h, ?with ?h)))"
      "t4_occ_of s' \<in> set (t4_occs (t4_class_of (i, ?h, ?with ?h)))"
      unfolding occs set_map by (fast intro: imageI)+
    ultimately show "\<exists>c\<in>set classes. t4_occ_of s \<in> set (t4_occs c) \<and> t4_occ_of s' \<in> set (t4_occs c)"
      by blast
  next
    assume "\<exists>c\<in>set classes. t4_occ_of s \<in> set (t4_occs c) \<and> t4_occ_of s' \<in> set (t4_occs c)"
    then obtain c where c: "c \<in> set classes" "t4_occ_of s \<in> set (t4_occs c)"
      "t4_occ_of s' \<in> set (t4_occs c)" by blast
    from shape [OF c(1)] obtain h where h: "t4_occs c = map t4_occ_of (?with h)" by blast
    have member: "u \<in> set (?with h)" if "t4_occ_of u \<in> set (t4_occs c)" "u \<in> set ?fns" for u
    proof -
      from that(1) obtain u' where u': "u' \<in> set (?with h)" "t4_occ_of u = t4_occ_of u'"
        unfolding h set_map by blast
      then have "u' \<in> set ?fns" by simp
      with t4_occ_inj [OF dist _ _ u'(2)] that(2) sub have "u = u'" by blast
      with u'(1) show ?thesis by simp
    qed
    have "s \<in> set (?with h)" "s' \<in> set (?with h)" using member c(2,3) s by blast+
    then show "digest (sig_of segments s) = digest (sig_of segments s')" by simp
  qed
  show ?thesis using res ids shape pair by blast
qed

text \<open>
  C18. Type IV detection returns, for a well-formed document, exactly the groups of at least two
  functions of the minimum length whose signature digests agree: two different functions share a class
  if and only if their digests are equal, and the classes are numbered from 1.
\<close>
theorem detect_type4_groups_signatures:
  assumes "jsegs_wf segments"
  shows "\<exists>classes. detect_type4 digest segments min_length = Inr classes
    \<and> map t4_id classes = [1..<Suc (length classes)]
    \<and> (\<forall>c\<in>set classes. \<exists>h. t4_occs c =
            map t4_occ_of (filter (\<lambda>s. digest (sig_of segments s) = h) (fn_segments min_length segments))
          \<and> t4_count c = length (t4_occs c) \<and> 2 \<le> t4_count c)
    \<and> (\<forall>s\<in>set (fn_segments min_length segments). \<forall>s'\<in>set (fn_segments min_length segments). s \<noteq> s' \<longrightarrow>
         (digest (sig_of segments s) = digest (sig_of segments s') \<longleftrightarrow>
            (\<exists>c\<in>set classes. t4_occ_of s \<in> set (t4_occs c) \<and> t4_occ_of s' \<in> set (t4_occs c))))"
  using assms by (rule detect_type4_spec)

definition sample_digest :: "signature \<Rightarrow> string" where
  "sample_digest sig = (case sig of (fp, rw, ts) \<Rightarrow> nat_digits (length fp) @ concat ts)"

theorem detect_type4_groups_signatures_witness:
  "\<exists>classes. detect_type4 sample_digest sample_jsegs 2 = Inr classes
    \<and> map t4_id classes = [1..<Suc (length classes)]
    \<and> (\<forall>c\<in>set classes. \<exists>h. t4_occs c =
            map t4_occ_of (filter (\<lambda>s. sample_digest (sig_of sample_jsegs s) = h) (fn_segments 2 sample_jsegs))
          \<and> t4_count c = length (t4_occs c) \<and> 2 \<le> t4_count c)
    \<and> (\<forall>s\<in>set (fn_segments 2 sample_jsegs). \<forall>s'\<in>set (fn_segments 2 sample_jsegs). s \<noteq> s' \<longrightarrow>
         (sample_digest (sig_of sample_jsegs s) = sample_digest (sig_of sample_jsegs s') \<longleftrightarrow>
            (\<exists>c\<in>set classes. t4_occ_of s \<in> set (t4_occs c) \<and> t4_occ_of s' \<in> set (t4_occs c))))"
  by (rule detect_type4_groups_signatures)
     (simp add: jsegs_wf_def sample_jsegs_def sample_jseg_def)

text \<open>
  The kinds the C front end gives to branches, loop heads and control statements all have the
  category of an unknown kind, so the fingerprint cannot tell an if from a while or a return.
\<close>
lemma parser_kinds_unknown:
  "map abstract_kind [''branch'', ''loop_head'', ''control'', ''expr'', ''func_decl''] =
     replicate 5 ''X''
   \<and> fingerprint_stmts f by_id
       [SDict \<lparr>d_raw = Some ''if(x){}'', d_kind = Some ''branch'', d_l_name = None, d_r_names = Some []\<rparr>] [c]
     = fingerprint_stmts f by_id
       [SDict \<lparr>d_raw = Some ''while(x){}'', d_kind = Some ''loop_head'', d_l_name = None, d_r_names = Some []\<rparr>] [c]"
proof -
  have kinds: "abstract_kind ''branch'' = ''X''" "abstract_kind ''loop_head'' = ''X''"
    "abstract_kind ''control'' = ''X''" "abstract_kind ''expr'' = ''X''" "abstract_kind ''func_decl'' = ''X''"
    by (simp_all add: abstract_kind_def kind_map_def)
  have braces: "str_contains ''if(x){}'' ''{}''" "str_contains ''while(x){}'' ''{}''"
    by code_simp+
  show ?thesis
    using kinds braces
    by (simp add: stmt_category_def get_kind_def get_raw_def get_opt_def Let_def eval_nat_numeral)
qed

end
