(* ===== verification/CloneRuns.thy ===== *)
theory CloneRuns
  imports CloneHash
begin

text \<open>
  The flat statement list of \<open>detect_clones\<close> (\<open>cdup/src/detect.py\<close>), its inverted index and the scan
  that extends runs of equal statements by offset. The scan is shown to complete exactly the maximal
  runs of equal statements that are long enough.
\<close>

section \<open>The flat list\<close>

record flat_entry =
  fe_seg :: nat
  fe_idx :: nat
  fe_norm :: string
  fe_norm1 :: string

text \<open>
  \<open>while "{}" in norm1 and child_idx < len(child_list)\<close>: both normal forms are filled, but the Type I
  form decides how many children are consumed.
\<close>

fun fill_flat :: "bool \<Rightarrow> (nat, nat) dict \<Rightarrow> string \<Rightarrow> string \<Rightarrow> nat list \<Rightarrow>
    (string \<times> string \<times> nat list) py" where
  "fill_flat type_2_norm types norm norm1 [] = Inr (norm, norm1, [])"
| "fill_flat type_2_norm types norm norm1 (c # cs) =
     (if str_contains norm1 ''{}''
      then py_bind (py_item types c) (\<lambda>t.
             let replacement = block_tag t;
                 norm1' = replace1 norm1 ''{}'' replacement;
                 norm' = (if type_2_norm
                          then (if str_contains norm ''{ }'' then replace1 norm ''{ }'' replacement
                                else replace1 norm ''{}'' replacement)
                          else norm1')
             in fill_flat type_2_norm types norm' norm1' cs)
      else Inr (norm, norm1, c # cs))"

fun flat_stmts :: "bool \<Rightarrow> (nat, nat) dict \<Rightarrow> nat \<Rightarrow> nat \<Rightarrow> jstmt list \<Rightarrow> nat list \<Rightarrow>
    flat_entry option list py" where
  "flat_stmts type_2_norm types seg_id stmt_idx [] cs = Inr []"
| "flat_stmts type_2_norm types seg_id stmt_idx (s # ss) cs =
     (let raw = get_raw s; norm1 = normalize_stmt raw;
          norm = (if type_2_norm then normalize_stmt_type2 raw else norm1)
      in py_bind (fill_flat type_2_norm types norm norm1 cs) (\<lambda>(norm, norm1, cs).
         py_bind (flat_stmts type_2_norm types seg_id (Suc stmt_idx) ss cs) (\<lambda>rest.
         Inr (Some \<lparr>fe_seg = seg_id, fe_idx = stmt_idx, fe_norm = norm, fe_norm1 = norm1\<rparr> # rest))))"

definition flat_list :: "bool \<Rightarrow> (nat, nat) dict \<Rightarrow> jseg list \<Rightarrow> flat_entry option list py" where
  "flat_list type_2_norm types segments =
     (let children = children_map segments
      in py_bind (py_seq (map (\<lambda>seg.
             py_bind (flat_stmts type_2_norm types (js_id seg) 0 (js_stmts seg)
                        (dict_get_list children (js_id seg))) (\<lambda>es. Inr (es @ [None]))) segments))
           (\<lambda>ess. Inr (concat ess)))"

section \<open>The inverted index\<close>

definition inverted_index :: "nat \<Rightarrow> flat_entry option list \<Rightarrow> (string, nat list) dict" where
  "inverted_index max_freq flat =
     (let index = fold (\<lambda>(flat_idx, entry) d. case entry of
                          None \<Rightarrow> d | Some e \<Rightarrow> dict_append (fe_norm e) flat_idx d)
                    (enumerate 0 flat) []
      in if 0 < max_freq then filter (\<lambda>(k, v). length v \<le> max_freq) index else index)"

section \<open>The scan\<close>

type_synonym run = "nat \<times> nat \<times> nat"

definition bump :: "nat \<Rightarrow> (nat, nat) dict \<Rightarrow> (nat, nat) dict" where
  "bump offset active =
     (case dict_get active offset of
        Some n \<Rightarrow> dict_set offset (n + 1) active
      | None \<Rightarrow> dict_set offset 1 active)"

definition flush :: "nat \<Rightarrow> nat \<Rightarrow> (nat, nat) dict \<Rightarrow> run list" where
  "flush min_length current_idx active =
     map (\<lambda>(offset, n). (current_idx - n, current_idx - n + offset, n))
       (filter (\<lambda>(offset, n). min_length \<le> n) active)"

definition run_step ::
  "nat \<Rightarrow> flat_entry option list \<Rightarrow> (string, nat list) dict \<Rightarrow> nat \<times> flat_entry option \<Rightarrow>
     (nat, nat) dict \<times> run list \<Rightarrow> (nat, nat) dict \<times> run list" where
  "run_step min_length flat index = (\<lambda>(current_idx, entry) (active, completed).
     case entry of
       None \<Rightarrow> ([], completed @ flush min_length current_idx active)
     | Some e \<Rightarrow>
         (let matches = dict_get_list index (fe_norm e);
              current_offsets = map (\<lambda>m. m - current_idx)
                (filter (\<lambda>m. current_idx < m \<and> flat ! m \<noteq> None) matches);
              active = fold bump current_offsets active;
              ended = filter (\<lambda>(offset, n). offset \<notin> set current_offsets) active
          in (filter (\<lambda>(offset, n). offset \<in> set current_offsets) active,
              completed @ flush min_length current_idx ended)))"

definition completed_clones :: "nat \<Rightarrow> nat \<Rightarrow> flat_entry option list \<Rightarrow> run list" where
  "completed_clones min_length max_freq flat =
     (let (active, completed) =
            fold (run_step min_length flat (inverted_index max_freq flat)) (enumerate 0 flat) ([], [])
      in completed @ flush min_length (length flat) active)"

section \<open>The runs the scan is meant to find\<close>

definition norm_at :: "flat_entry option list \<Rightarrow> nat \<Rightarrow> string option" where
  "norm_at flat i = (if i < length flat then map_option fe_norm (flat ! i) else None)"

definition norm_freq :: "flat_entry option list \<Rightarrow> string \<Rightarrow> nat" where
  "norm_freq flat s = length (filter (\<lambda>e. map_option fe_norm e = Some s) flat)"

text \<open>Positions that hold the same statement, one that is not above the frequency limit.\<close>

definition same_stmt :: "nat \<Rightarrow> flat_entry option list \<Rightarrow> nat \<Rightarrow> nat \<Rightarrow> bool" where
  "same_stmt max_freq flat i j =
     (case norm_at flat i of
        None \<Rightarrow> False
      | Some s \<Rightarrow> norm_at flat j = Some s \<and> (max_freq = 0 \<or> norm_freq flat s \<le> max_freq))"

definition maximal_run :: "nat \<Rightarrow> flat_entry option list \<Rightarrow> run \<Rightarrow> bool" where
  "maximal_run max_freq flat = (\<lambda>(a, b, n).
     a < b \<and> 0 < n
     \<and> list_all (\<lambda>k. same_stmt max_freq flat (a + k) (b + k)) [0..<n]
     \<and> \<not> same_stmt max_freq flat (a + n) (b + n)
     \<and> (a = 0 \<or> \<not> same_stmt max_freq flat (a - 1) (b - 1)))"

section \<open>Facts\<close>

lemma index_fold_get:
  "dict_get_list (fold (\<lambda>(i, entry) d. case entry of
        None \<Rightarrow> d | Some e \<Rightarrow> dict_append (fe_norm e) i d) (enumerate k flat) d) s
     = dict_get_list d s
       @ map fst (filter (\<lambda>(i, e). map_option fe_norm e = Some s) (enumerate k flat))"
  by (induction flat arbitrary: k d) (auto simp: dict_get_list_append split: option.splits)

lemma enumerate_filter_length:
  "length (filter (\<lambda>(i, e). P e) (enumerate k xs)) = length (filter P xs)"
  by (induction xs arbitrary: k) auto

definition positions :: "flat_entry option list \<Rightarrow> string \<Rightarrow> nat list" where
  "positions flat s = map fst (filter (\<lambda>(i, e). map_option fe_norm e = Some s) (enumerate 0 flat))"

lemma set_positions: "m \<in> set (positions flat s) \<longleftrightarrow> norm_at flat m = Some s"
  by (force simp: positions_def norm_at_def in_set_enumerate_eq image_iff)

lemma distinct_positions: "distinct (positions flat s)"
proof -
  have "distinct (map fst (filter P (enumerate k xs)))" for P k and xs :: "'a list"
    by (simp add: distinct_map_filter)
  then show ?thesis by (simp add: positions_def)
qed

lemma length_positions: "length (positions flat s) = norm_freq flat s"
  unfolding positions_def norm_freq_def length_map by (rule enumerate_filter_length)

lemma inverted_index_get:
  "dict_get_list (inverted_index max_freq flat) s =
     (if max_freq = 0 \<or> norm_freq flat s \<le> max_freq then positions flat s else [])"
proof -
  let ?index = "fold (\<lambda>(flat_idx, entry) d. case entry of
                  None \<Rightarrow> d | Some e \<Rightarrow> dict_append (fe_norm e) flat_idx d) (enumerate 0 flat) []"
  have get: "dict_get_list ?index s = positions flat s"
    by (simp add: index_fold_get positions_def)
  have "distinct (dict_keys (fold (\<lambda>(i, entry) d. case entry of
          None \<Rightarrow> d | Some e \<Rightarrow> dict_append (fe_norm e) i d) es d))"
    if "distinct (dict_keys d)"
    for es :: "(nat \<times> flat_entry option) list" and d :: "(string, nat list) dict"
    using that
    by (induction es arbitrary: d) (auto simp: dict_keys_append split: option.splits)
  then have "dict_get_list (filter (\<lambda>(k, v). length v \<le> max_freq) ?index) s
      = (if length (positions flat s) \<le> max_freq then positions flat s else [])"
    using dict_get_list_filter [of ?index "\<lambda>v. length v \<le> max_freq" s] get by simp
  with get show ?thesis by (simp add: inverted_index_def length_positions Let_def)
qed

subsection \<open>One step\<close>

lemma bump_get: "dict_get (bump o' A) p =
    (if p = o' then Some (Suc (case dict_get A p of None \<Rightarrow> 0 | Some n \<Rightarrow> n)) else dict_get A p)"
  by (auto simp: bump_def dict_get_set split: option.splits)

lemma bump_keys: "distinct (dict_keys A) \<Longrightarrow> distinct (dict_keys (bump o' A))"
  by (auto simp: bump_def split: option.splits)

lemma fold_bump_keys: "distinct (dict_keys A) \<Longrightarrow> distinct (dict_keys (fold bump os A))"
  by (induction os arbitrary: A) (auto simp: bump_keys)

lemma fold_bump_get:
  "distinct os \<Longrightarrow> dict_get (fold bump os A) p =
     (if p \<in> set os then Some (Suc (case dict_get A p of None \<Rightarrow> 0 | Some n \<Rightarrow> n)) else dict_get A p)"
  by (induction os arbitrary: A) (auto simp: bump_get)

lemma dict_get_filter_key:
  "dict_get (filter (\<lambda>(k, v). P k) d) k = (if P k then dict_get d k else None)"
  by (induction d) auto

lemma filter_keys_distinct: "distinct (dict_keys d) \<Longrightarrow> distinct (dict_keys (filter P d))"
  by (simp add: distinct_map_filter)

lemma set_flush:
  "distinct (dict_keys A) \<Longrightarrow> set (flush m c A) =
     {(c - n, c - n + p, n) |p n. dict_get A p = Some n \<and> m \<le> n}"
  by (force simp: flush_def)

text \<open>The length of the run of equal statements at an offset that ends before a position.\<close>

primrec run_length :: "nat \<Rightarrow> flat_entry option list \<Rightarrow> nat \<Rightarrow> nat \<Rightarrow> nat" where
  "run_length max_freq flat p 0 = 0"
| "run_length max_freq flat p (Suc c) =
     (if same_stmt max_freq flat c (c + p) then Suc (run_length max_freq flat p c) else 0)"

definition run_dict :: "nat \<Rightarrow> flat_entry option list \<Rightarrow> nat \<Rightarrow> nat \<Rightarrow> nat option" where
  "run_dict mf flat c p =
     (if 0 < p \<and> 0 < run_length mf flat p c then Some (run_length mf flat p c) else None)"

definition ended_runs :: "nat \<Rightarrow> nat \<Rightarrow> flat_entry option list \<Rightarrow> nat \<Rightarrow> run set" where
  "ended_runs m mf flat e =
     {(e - n, e - n + p, n) |p n. run_dict mf flat e p = Some n \<and> m \<le> n
        \<and> \<not> same_stmt mf flat e (e + p)}"

definition scan_inv ::
  "nat \<Rightarrow> nat \<Rightarrow> flat_entry option list \<Rightarrow> nat \<Rightarrow> (nat, nat) dict \<times> run list \<Rightarrow> bool" where
  "scan_inv m mf flat c = (\<lambda>(active, completed).
     distinct (dict_keys active) \<and> (\<forall>p. dict_get active p = run_dict mf flat c p)
     \<and> set completed = (\<Union>e<c. ended_runs m mf flat e))"

lemma same_stmt_entry:
  "c < length flat \<Longrightarrow> flat ! c = Some e \<Longrightarrow> 0 < p \<Longrightarrow>
     same_stmt mf flat c (c + p) \<longleftrightarrow>
       c + p \<in> set (dict_get_list (inverted_index mf flat) (fe_norm e))"
  by (auto simp: same_stmt_def inverted_index_get set_positions norm_at_def)

lemma run_step_inv:
  assumes inv: "scan_inv m mf flat c (active, completed)" and c: "c < length flat"
  shows "scan_inv m mf flat (Suc c)
           (run_step m flat (inverted_index mf flat) (c, flat ! c) (active, completed))"
proof (cases "flat ! c")
  case None
  then have no: "\<not> same_stmt mf flat c (c + p)" for p
    using c by (simp add: same_stmt_def norm_at_def)
  then have "set (flush m c active) = ended_runs m mf flat c"
    using inv by (simp add: scan_inv_def set_flush ended_runs_def)
  moreover have "run_dict mf flat (Suc c) p = None" for p using no by (simp add: run_dict_def)
  ultimately show ?thesis using inv None
    by (auto simp: scan_inv_def run_step_def lessThan_Suc)
next
  case (Some e)
  let ?matches = "dict_get_list (inverted_index mf flat) (fe_norm e)"
  let ?offs = "map (\<lambda>m. m - c) (filter (\<lambda>m. c < m \<and> flat ! m \<noteq> None) ?matches)"
  let ?active = "fold bump ?offs active"
  have mem: "p \<in> set ?offs \<longleftrightarrow> 0 < p \<and> same_stmt mf flat c (c + p)" for p
  proof -
    have "flat ! k \<noteq> None" if "k \<in> set ?matches" for k
      using that by (auto simp: inverted_index_get set_positions norm_at_def split: if_splits)
    then have "p \<in> set ?offs \<longleftrightarrow> 0 < p \<and> c + p \<in> set ?matches"
      by (force simp: image_iff)
    with same_stmt_entry [OF c Some] show ?thesis by auto
  qed
  have dist: "distinct ?offs"
  proof -
    have "distinct ?matches" by (simp add: inverted_index_get distinct_positions)
    then show ?thesis by (auto simp: distinct_map inj_on_def)
  qed
  have keys: "distinct (dict_keys ?active)"
    using inv by (auto simp: scan_inv_def intro: fold_bump_keys)
  have get: "dict_get ?active p =
      (if 0 < p \<and> same_stmt mf flat c (c + p) then Some (Suc (run_length mf flat p c))
       else run_dict mf flat c p)" for p
    using inv fold_bump_get [OF dist, of active p] mem [of p]
    by (auto simp: scan_inv_def run_dict_def split: option.splits)
  have active': "dict_get (filter (\<lambda>(p, n). p \<in> set ?offs) ?active) p = run_dict mf flat (Suc c) p" for p
    unfolding dict_get_filter_key mem get by (simp add: run_dict_def)
  have "set (flush m c (filter (\<lambda>(p, n). p \<notin> set ?offs) ?active)) = ended_runs m mf flat c"
  proof -
    have "dict_get (filter (\<lambda>(p, n). p \<notin> set ?offs) ?active) p = Some n \<longleftrightarrow>
        run_dict mf flat c p = Some n \<and> \<not> same_stmt mf flat c (c + p)" for p n
      unfolding dict_get_filter_key mem get by (auto simp: run_dict_def split: if_splits)
    then show ?thesis
      using keys by (simp add: set_flush filter_keys_distinct ended_runs_def conj_ac)
  qed
  with inv active' keys show ?thesis
    by (simp add: scan_inv_def run_step_def Some Let_def filter_keys_distinct lessThan_Suc Un_commute)
qed


subsection \<open>The whole scan\<close>

lemma scan_fold_inv:
  "flat = ys @ xs \<Longrightarrow> scan_inv m mf flat (length ys) st \<Longrightarrow>
     scan_inv m mf flat (length flat)
       (fold (run_step m flat (inverted_index mf flat)) (enumerate (length ys) xs) st)"
proof (induction xs arbitrary: ys st)
  case (Cons x xs)
  have x: "flat ! length ys = x" "length ys < length flat" using Cons.prems(1) by simp_all
  obtain active completed where st: "st = (active, completed)" by (cases st)
  from run_step_inv [OF Cons.prems(2) [unfolded st] x(2)]
  have "scan_inv m mf flat (length (ys @ [x]))
          (run_step m flat (inverted_index mf flat) (length ys, x) st)"
    by (simp add: x(1) st)
  from Cons.IH [OF _ this] Cons.prems(1) show ?case by simp
qed simp

lemma not_same_stmt_end: "length flat \<le> c \<Longrightarrow> \<not> same_stmt mf flat c d"
  by (simp add: same_stmt_def norm_at_def)

lemma ended_runs_beyond: "length flat < c \<Longrightarrow> ended_runs m mf flat c = {}"
proof -
  assume "length flat < c"
  then obtain c' where "c = Suc c'" "length flat \<le> c'" by (cases c) auto
  then show ?thesis by (simp add: ended_runs_def run_dict_def not_same_stmt_end)
qed

lemma completed_clones_ended:
  "set (completed_clones m mf flat) = (\<Union>e. ended_runs m mf flat e)"
proof -
  let ?res = "fold (run_step m flat (inverted_index mf flat)) (enumerate 0 flat) ([], [])"
  obtain active completed where res: "?res = (active, completed)" by (cases ?res)
  have "scan_inv m mf flat 0 ([], [])" by (simp add: scan_inv_def run_dict_def)
  then have inv: "scan_inv m mf flat (length flat) (active, completed)"
    using scan_fold_inv [of flat "[]" flat m mf "([], [])"] by (simp add: res)
  then have "set (flush m (length flat) active) = ended_runs m mf flat (length flat)"
    by (simp add: scan_inv_def set_flush ended_runs_def not_same_stmt_end)
  with inv res have "set (completed_clones m mf flat) = (\<Union>e\<in>{..length flat}. ended_runs m mf flat e)"
    by (simp add: completed_clones_def scan_inv_def flip: lessThan_Suc_atMost)
       (simp add: lessThan_Suc Un_commute)
  also have "\<dots> = (\<Union>e. ended_runs m mf flat e)"
  proof (intro subset_antisym subsetI)
    fix x assume "x \<in> (\<Union>e. ended_runs m mf flat e)"
    then obtain e where e: "x \<in> ended_runs m mf flat e" by blast
    then have "e \<le> length flat" using ended_runs_beyond [of flat e m mf] by (cases "length flat < e") auto
    with e show "x \<in> (\<Union>e\<in>{..length flat}. ended_runs m mf flat e)" by blast
  qed blast
  finally show ?thesis .
qed

lemma run_length_iff:
  "run_length mf flat p c = n \<longleftrightarrow>
     n \<le> c \<and> (\<forall>k<n. same_stmt mf flat (c - n + k) (c - n + k + p))
     \<and> (c = n \<or> \<not> same_stmt mf flat (c - n - 1) (c - n - 1 + p))"
proof (induction c arbitrary: n)
  case (Suc c)
  show ?case
  proof (cases "same_stmt mf flat c (c + p)")
    case True
    show ?thesis
    proof (cases n)
      case (Suc k)
      have "(\<forall>i<Suc k. same_stmt mf flat (c - k + i) (c - k + i + p)) \<longleftrightarrow>
              (\<forall>i<k. same_stmt mf flat (c - k + i) (c - k + i + p))" if "k \<le> c"
        using that True by (auto simp: less_Suc_eq)
      with Suc True Suc.IH [of k] show ?thesis by auto
    qed (use True in simp)
  next
    case False
    have "n = 0" if "n \<le> Suc c" "\<forall>i<n. same_stmt mf flat (Suc c - n + i) (Suc c - n + i + p)"
    proof (rule ccontr)
      assume "n \<noteq> 0"
      then have "same_stmt mf flat (Suc c - n + (n - 1)) (Suc c - n + (n - 1) + p)"
        using that(2) [rule_format, of "n - 1"] by linarith
      moreover have "Suc c - n + (n - 1) = c" using \<open>n \<noteq> 0\<close> that(1) by linarith
      ultimately show False using False by simp
    qed
    with False show ?thesis by fastforce
  qed
qed auto

lemma ended_runs_maximal:
  "(a, b, n) \<in> (\<Union>e. ended_runs m mf flat e) \<longleftrightarrow> m \<le> n \<and> maximal_run mf flat (a, b, n)"
proof
  assume "(a, b, n) \<in> (\<Union>e. ended_runs m mf flat e)"
  then obtain e p where run: "run_dict mf flat e p = Some n" and a: "a = e - n" "b = a + p"
    and m: "m \<le> n" and e: "\<not> same_stmt mf flat e (e + p)"
    by (auto simp: ended_runs_def)
  from run have len: "run_length mf flat p e = n" and pos: "0 < p" "0 < n"
    by (auto simp: run_dict_def split: if_splits)
  from len [unfolded run_length_iff] a pos m e show "m \<le> n \<and> maximal_run mf flat (a, b, n)"
    by (auto simp: maximal_run_def list_all_iff algebra_simps)
next
  assume r: "m \<le> n \<and> maximal_run mf flat (a, b, n)"
  define p where "p = b - a"
  from r have pos: "0 < n" "0 < p" and b: "b = a + p" by (auto simp: maximal_run_def p_def)
  have "run_length mf flat p (a + n) = n"
    unfolding run_length_iff using r b
    by (auto simp: maximal_run_def list_all_iff algebra_simps)
  then have "run_dict mf flat (a + n) p = Some n" using pos by (simp add: run_dict_def)
  moreover have "\<not> same_stmt mf flat (a + n) (a + n + p)"
    using r b by (auto simp: maximal_run_def algebra_simps)
  ultimately have "(a, b, n) \<in> ended_runs m mf flat (a + n)"
    using r b by (auto simp: ended_runs_def intro!: exI [of _ p])
  then show "(a, b, n) \<in> (\<Union>e. ended_runs m mf flat e)" by blast
qed

lemma completed_clones_iff:
  "(a, b, n) \<in> set (completed_clones m mf flat) \<longleftrightarrow> m \<le> n \<and> maximal_run mf flat (a, b, n)"
  unfolding completed_clones_ended by (rule ended_runs_maximal)

text \<open>
  C12. The scan over the flat list reports a pair of positions and a length exactly when the statements
  there agree over that length, the length reaches the minimum, and the agreement extends in neither
  direction.
\<close>
theorem scan_finds_maximal_runs:
  "(a, b, n) \<in> set (completed_clones min_length max_freq flat) \<longleftrightarrow>
     min_length \<le> n \<and> maximal_run max_freq flat (a, b, n)"
  by (rule completed_clones_iff)

end
