(* ===== verification/Clones.thy ===== *)
theory Clones
  imports CloneRuns "HOL-Library.Product_Lexorder"
begin

text \<open>
  The second half of \<open>detect_clones\<close> (\<open>cdup/src/detect.py\<close>): completed runs are grouped by content into
  clone classes, exact classes are split off in Type II mode, classes are sorted, filtered for
  subsumption and self-overlap, and numbered. A Python set of occurrences is a duplicate-free list;
  where the code iterates over one without sorting, the order is the parameter \<open>iter\<close>.
\<close>

section \<open>Occurrences and classes\<close>

type_synonym occ = "nat \<times> nat \<times> nat"

definition set_add :: "'a \<Rightarrow> 'a list \<Rightarrow> 'a list" where
  "set_add x xs = (if x \<in> set xs then xs else xs @ [x])"

text \<open>\<open>defaultdict(set)[k].add(x)\<close>.\<close>

definition dict_add :: "'k \<Rightarrow> 'a \<Rightarrow> ('k, 'a list) dict \<Rightarrow> ('k, 'a list) dict" where
  "dict_add k x d = dict_set k (set_add x (dict_get_list d k)) d"

definition flat_at :: "flat_entry option list \<Rightarrow> nat \<Rightarrow> flat_entry py" where
  "flat_at flat i =
     py_bind (py_nth flat i) (\<lambda>entry. case entry of
       None \<Rightarrow> Inl (TypeError ''NoneType'') | Some e \<Rightarrow> Inr e)"

definition flat_range_to_occurrence :: "flat_entry option list \<Rightarrow> nat \<Rightarrow> nat \<Rightarrow> occ py" where
  "flat_range_to_occurrence flat start_flat n =
     py_bind (flat_at flat start_flat) (\<lambda>e.
     py_bind (flat_at flat (start_flat + n - 1)) (\<lambda>e'.
     Inr (fe_seg e, fe_idx e, fe_idx e')))"

definition content_tuple :: "flat_entry option list \<Rightarrow> nat \<Rightarrow> nat \<Rightarrow> string list" where
  "content_tuple flat start_a n = map fe_norm (List.map_filter (\<lambda>e. e) (take n (drop start_a flat)))"

definition clone_classes ::
  "flat_entry option list \<Rightarrow> run list \<Rightarrow> (string list, occ list) dict py" where
  "clone_classes flat completed =
     py_fold (\<lambda>(start_a, start_b, n) classes.
       let content = content_tuple flat start_a n
       in py_bind (flat_range_to_occurrence flat start_a n) (\<lambda>oa.
          py_bind (flat_range_to_occurrence flat start_b n) (\<lambda>ob.
          Inr (dict_add content ob (dict_add content oa classes)))))
       completed []"

section \<open>Exact classes inside Type II classes\<close>

text \<open>The normal forms of the statements an occurrence spans, read back from the flat list.\<close>

definition occ_entries :: "flat_entry option list \<Rightarrow> occ \<Rightarrow> flat_entry list" where
  "occ_entries flat = (\<lambda>(seg_id, start_stmt, end_stmt).
     filter (\<lambda>e. fe_seg e = seg_id \<and> start_stmt \<le> fe_idx e \<and> fe_idx e \<le> end_stmt)
       (List.map_filter (\<lambda>e. e) flat))"

definition norm1_groups ::
  "(occ list \<Rightarrow> occ list) \<Rightarrow> flat_entry option list \<Rightarrow> occ list \<Rightarrow> (string list, occ list) dict" where
  "norm1_groups iter flat occurrences =
     fold (\<lambda>occ d. dict_add (map fe_norm1 (occ_entries flat occ)) occ d) (iter occurrences) []"

definition add_type1 ::
  "string list \<times> occ list \<Rightarrow> (string list, occ list) dict \<Rightarrow> (string list, occ list) dict" where
  "add_type1 = (\<lambda>(norm1_tuple, norm1_occs) d.
     if 2 \<le> length norm1_occs
     then dict_set norm1_tuple (fold set_add norm1_occs (dict_get_list d norm1_tuple)) d
     else d)"

definition type1_classes ::
  "(occ list \<Rightarrow> occ list) \<Rightarrow> flat_entry option list \<Rightarrow> (string list, occ list) dict \<Rightarrow>
     (string list, occ list) dict" where
  "type1_classes iter flat classes =
     fold (\<lambda>(content, occurrences) d. fold add_type1 (norm1_groups iter flat occurrences) d) classes []"

definition expanded_classes :: "(string list, occ list) dict \<Rightarrow> (string list, occ list) dict" where
  "expanded_classes classes = filter (\<lambda>(content, occurrences). 2 \<le> length occurrences) classes"

section \<open>The statements of a class\<close>

fun fill_original :: "(nat, nat) dict \<Rightarrow> string \<Rightarrow> nat list \<Rightarrow> (string \<times> nat list) py" where
  "fill_original types s [] = Inr (s, [])"
| "fill_original types s (c # cs) =
     (if str_contains s ''{}''
      then py_bind (py_item types c) (\<lambda>t. fill_original types (replace1 s ''{}'' (block_tag t)) cs)
      else Inr (s, c # cs))"

definition get_hashed_original_stmts ::
  "(nat, nat) dict \<Rightarrow> jseg list \<Rightarrow> nat \<Rightarrow> nat \<Rightarrow> nat \<Rightarrow> string list py" where
  "get_hashed_original_stmts types segments seg_id start_idx end_idx =
     py_bind (py_item (jseg_index segments) seg_id) (\<lambda>seg.
       let original = js_stmts seg;
           child_list = dict_get_list (children_map segments) seg_id
       in py_bind (py_seq (map (py_nth original) [0..<start_idx])) (\<lambda>earlier.
          let child_offset = sum_list (map (\<lambda>s. str_count (get_raw s) ''{}'') earlier)
          in py_bind (py_fold (\<lambda>i (hashed_stmts, cs).
               py_bind (py_nth original i) (\<lambda>s.
               py_bind (fill_original types (get_raw s) cs) (\<lambda>(stmt, cs).
               Inr (hashed_stmts @ [stmt], cs))))
               [start_idx..<Suc end_idx] ([], drop child_offset child_list))
             (\<lambda>(hashed_stmts, _). Inr hashed_stmts)))"

section \<open>The class list\<close>

record clone_class =
  cc_id :: nat
  cc_type :: string
  cc_length :: nat
  cc_statements :: "string list"
  cc_occs :: "occ list"
  cc_normalized :: "string list option"

text \<open>\<open>sorted(d.items(), key=lambda x: len(x[1]), reverse=True)\<close> keeps the order of equal lengths.\<close>

definition by_size :: "(string list, occ list) dict \<Rightarrow> (string list, occ list) dict" where
  "by_size d = sort_key (\<lambda>(k, occs). - int (length occs)) d"

definition class_entry ::
  "(nat, nat) dict \<Rightarrow> jseg list \<Rightarrow> string \<Rightarrow> nat \<Rightarrow> string list \<times> occ list \<Rightarrow> clone_class py" where
  "class_entry types segments clone_type clone_id = (\<lambda>(content, occurrences).
     case sort occurrences of
       [] \<Rightarrow> Inl IndexError
     | (first_seg_id, first_start, first_end) # _ \<Rightarrow>
         py_bind (get_hashed_original_stmts types segments first_seg_id first_start first_end)
           (\<lambda>hashed_stmts.
              Inr \<lparr>cc_id = clone_id, cc_type = clone_type, cc_length = length content,
                   cc_statements = hashed_stmts, cc_occs = sort occurrences,
                   cc_normalized = (if clone_type = ''II'' then Some content else None)\<rparr>))"

definition clone_class_list ::
  "(nat, nat) dict \<Rightarrow> jseg list \<Rightarrow> bool \<Rightarrow> (string list, occ list) dict \<Rightarrow>
     (string list, occ list) dict \<Rightarrow> clone_class list py" where
  "clone_class_list types segments type_2_norm exact classes =
     py_bind (py_seq (map (class_entry types segments ''I'' 0) (by_size exact))) (\<lambda>firsts.
     py_bind (py_seq (map (\<lambda>(clone_id, kv).
                 class_entry types segments (if type_2_norm then ''II'' else ''I'') clone_id kv)
               (enumerate 1 (by_size classes)))) (\<lambda>rest.
     Inr (firsts @ rest)))"

definition renumber :: "clone_class list \<Rightarrow> clone_class list" where
  "renumber cs = map (\<lambda>(i, c). c\<lparr>cc_id := i\<rparr>) (enumerate 1 cs)"

section \<open>The filters\<close>

definition occ_within :: "occ \<Rightarrow> occ \<Rightarrow> bool" where
  "occ_within = (\<lambda>(seg, start, end') (cseg, cs, ce). seg = cseg \<and> cs \<le> start \<and> end' \<le> ce)"

definition covered :: "occ list \<Rightarrow> clone_class \<Rightarrow> bool" where
  "covered eligible c = list_all (\<lambda>occ. list_ex (occ_within occ) eligible) (cc_occs c)"

definition maximal_step ::
  "clone_class \<Rightarrow> occ list \<times> occ list \<times> clone_class list \<Rightarrow> occ list \<times> occ list \<times> clone_class list" where
  "maximal_step c = (\<lambda>(cov1, cov2, final).
     if covered (if cc_type c = ''I'' then cov1 else cov1 @ cov2) c then (cov1, cov2, final)
     else if cc_type c = ''I'' then (cov1 @ cc_occs c, cov2, final @ [c])
     else (cov1, cov2 @ cc_occs c, final @ [c]))"

definition maximal_filter :: "clone_class list \<Rightarrow> clone_class list" where
  "maximal_filter cs =
     (let sorted_by_length = sort_key (\<lambda>c. - int (cc_length c)) cs;
          (_, _, final) = fold maximal_step sorted_by_length ([], [], [])
      in renumber final)"

definition ranges_overlap :: "nat \<Rightarrow> nat \<Rightarrow> nat \<Rightarrow> nat \<Rightarrow> bool" where
  "ranges_overlap a_start a_end b_start b_end = (a_start \<le> b_end \<and> b_start \<le> a_end)"

fun has_overlap :: "occ list \<Rightarrow> bool" where
  "has_overlap [] = False"
| "has_overlap ((_, s1, e1) # occs) =
     (list_ex (\<lambda>(_, s2, e2). ranges_overlap s1 e1 s2 e2) occs \<or> has_overlap occs)"

definition overlap_filter :: "clone_class list \<Rightarrow> clone_class list" where
  "overlap_filter cs =
     renumber (filter (\<lambda>c. \<not> (length (remdups (map fst (cc_occs c))) = 1 \<and> has_overlap (cc_occs c))) cs)"

section \<open>The whole pass\<close>

definition detect_clones ::
  "(string \<Rightarrow> string) \<Rightarrow> (occ list \<Rightarrow> occ list) \<Rightarrow> jseg list \<Rightarrow> bool \<Rightarrow> bool \<Rightarrow> nat \<Rightarrow> nat \<Rightarrow> bool \<Rightarrow>
     clone_class list py" where
  "detect_clones digest iter segments type_2_norm maximal min_length max_freq filter_overlaps =
     py_bind (block_type_ids digest type_2_norm segments) (\<lambda>types.
     py_bind (flat_list type_2_norm types segments) (\<lambda>flat.
     py_bind (clone_classes flat (completed_clones min_length max_freq flat)) (\<lambda>classes.
     py_bind (clone_class_list types segments type_2_norm
                (if type_2_norm then type1_classes iter flat classes else [])
                (if type_2_norm then expanded_classes classes else classes)) (\<lambda>class_list.
       let class_list = (if maximal then maximal_filter class_list else class_list);
           class_list = (if filter_overlaps then overlap_filter class_list else class_list)
       in Inr class_list))))"

definition occ_json :: "occ \<Rightarrow> json" where
  "occ_json = (\<lambda>(s, st, en). JObj [(''seg_id'', JInt (int s)), (''start_stmt_idx'', JInt (int st)),
                                   (''end_stmt_idx'', JInt (int en))])"

definition clone_class_json :: "clone_class \<Rightarrow> json" where
  "clone_class_json c =
     JObj ([(''id'', JInt (int (cc_id c))), (''clone_type'', JStr (cc_type c)),
            (''length'', JInt (int (cc_length c))),
            (''statements'', JList (map JStr (cc_statements c))),
            (''occurrences'', JList (map occ_json (cc_occs c)))]
           @ (case cc_normalized c of None \<Rightarrow> [] | Some ns \<Rightarrow> [(''normalized'', JList (map JStr ns))]))"

end
