(* ===== verification/DiffLib.thy ===== *)
theory DiffLib
  imports PyFloat
begin

text \<open>
  The part of Python's \<open>difflib.SequenceMatcher\<close> the near-miss detector uses (\<open>isjunk=None\<close>, the default
  \<open>autojunk\<close>): the index of the second sequence with its popular elements removed, the longest match,
  the matching blocks, the ratio and the opcodes. The blocks are shown to be a chain of equal,
  disjoint, increasing slices.
\<close>

section \<open>The index\<close>

text \<open>
  \<open>b2j\<close>: the positions of every element. From 200 elements on, those that occur more than
  \<open>len(b) // 100 + 1\<close> times are dropped.
\<close>

definition chain_b :: "'a list \<Rightarrow> ('a, nat list) dict" where
  "chain_b b =
     (let n = length b;
          b2j = fold (\<lambda>(i, x) d. dict_append x i d) (enumerate 0 b) []
      in if 200 \<le> n then filter (\<lambda>(x, idxs). length idxs \<le> n div 100 + 1) b2j else b2j)"

section \<open>The longest match\<close>

type_synonym match = "nat \<times> nat \<times> nat"

text \<open>One row: \<open>k = newj2len[j] = j2lenget(j - 1, 0) + 1\<close> for the positions \<open>j\<close> of \<open>a[i]\<close> in the window.\<close>

definition flm_cell ::
  "(nat, nat) dict \<Rightarrow> nat \<Rightarrow> nat \<Rightarrow> (nat, nat) dict \<times> match \<Rightarrow> (nat, nat) dict \<times> match" where
  "flm_cell j2len i j = (\<lambda>(newj2len, (besti, bestj, bestsize)).
     let k = (if j = 0 then 0 else case dict_get j2len (j - 1) of None \<Rightarrow> 0 | Some n \<Rightarrow> n) + 1
     in (dict_set j k newj2len,
         if bestsize < k then (i + 1 - k, j + 1 - k, k) else (besti, bestj, bestsize)))"

definition flm_row ::
  "('a, nat list) dict \<Rightarrow> 'a list \<Rightarrow> nat \<Rightarrow> nat \<Rightarrow> nat \<Rightarrow> (nat, nat) dict \<times> match \<Rightarrow> (nat, nat) dict \<times> match" where
  "flm_row b2j a blo bhi i = (\<lambda>(j2len, best).
     fold (flm_cell j2len i)
       (filter (\<lambda>j. blo \<le> j) (takeWhile (\<lambda>j. j < blo \<or> j < bhi) (dict_get_list b2j (a ! i))))
       ([], best))"

function extend_back :: "'a list \<Rightarrow> 'a list \<Rightarrow> nat \<Rightarrow> nat \<Rightarrow> match \<Rightarrow> match" where
  "extend_back a b alo blo (i, j, k) =
     (if alo < i \<and> blo < j \<and> a ! (i - 1) = b ! (j - 1)
      then extend_back a b alo blo (i - 1, j - 1, k + 1) else (i, j, k))"
  by pat_completeness auto
termination
  by (relation "measure (\<lambda>(a, b, alo, blo, i, j, k). i)") auto

function extend_forward :: "'a list \<Rightarrow> 'a list \<Rightarrow> nat \<Rightarrow> nat \<Rightarrow> match \<Rightarrow> match" where
  "extend_forward a b ahi bhi (i, j, k) =
     (if i + k < ahi \<and> j + k < bhi \<and> a ! (i + k) = b ! (j + k)
      then extend_forward a b ahi bhi (i, j, k + 1) else (i, j, k))"
  by pat_completeness auto
termination
  by (relation "measure (\<lambda>(a, b, ahi, bhi, i, j, k). ahi - (i + k))") auto

declare extend_back.simps [simp del] extend_forward.simps [simp del]

text \<open>The two extension loops over junk elements find nothing, since nothing is junk.\<close>

definition find_longest_match ::
  "'a list \<Rightarrow> 'a list \<Rightarrow> ('a, nat list) dict \<Rightarrow> nat \<Rightarrow> nat \<Rightarrow> nat \<Rightarrow> nat \<Rightarrow> match" where
  "find_longest_match a b b2j alo ahi blo bhi =
     (let best = snd (fold (flm_row b2j a blo bhi) [alo..<ahi] ([], (alo, blo, 0)))
      in extend_forward a b ahi bhi (extend_back a b alo blo best))"

subsection \<open>Where the match lies\<close>

definition in_window :: "nat \<Rightarrow> nat \<Rightarrow> nat \<Rightarrow> nat \<Rightarrow> match \<Rightarrow> bool" where
  "in_window alo ahi blo bhi = (\<lambda>(i, j, k).
     alo \<le> i \<and> i + k \<le> ahi \<and> blo \<le> j \<and> j + k \<le> bhi)"

definition matched :: "'a list \<Rightarrow> 'a list \<Rightarrow> match \<Rightarrow> bool" where
  "matched a b = (\<lambda>(i, j, k). \<forall>t<k. a ! (i + t) = b ! (j + t))"

text \<open>An entry of a row is the length of a run of equal elements that ends there.\<close>

definition row_inv ::
  "'a list \<Rightarrow> 'a list \<Rightarrow> nat \<Rightarrow> nat \<Rightarrow> nat \<Rightarrow> (nat, nat) dict \<Rightarrow> bool" where
  "row_inv a b alo i blo j2len \<longleftrightarrow>
     (\<forall>j n. dict_get j2len j = Some n \<longrightarrow>
        alo + n \<le> i \<and> blo + n \<le> j + 1 \<and> matched a b (i - n, j + 1 - n, n))"

definition index_ok :: "'a list \<Rightarrow> ('a, nat list) dict \<Rightarrow> bool" where
  "index_ok b d \<longleftrightarrow> (\<forall>x. \<forall>j\<in>set (dict_get_list d x). b ! j = x)"

lemma flm_cell_inv:
  assumes row: "row_inv a b alo i blo j2len" and new: "row_inv a b alo (Suc i) blo new"
    and best: "in_window alo ahi blo bhi best" "matched a b best"
    and ij: "alo \<le> i" "i < ahi" "blo \<le> j" "j < bhi" "b ! j = a ! i"
    and res: "flm_cell j2len i j (new, best) = (new', best')"
  shows "row_inv a b alo (Suc i) blo new' \<and> in_window alo ahi blo bhi best' \<and> matched a b best'"
proof -
  define p where "p = (if j = 0 then 0 else case dict_get j2len (j - 1) of None \<Rightarrow> 0 | Some n \<Rightarrow> n)"
  obtain bi bj bs where bst: "best = (bi, bj, bs)" by (cases best)
  have res': "new' = dict_set j (p + 1) new"
    "best' = (if bs < p + 1 then (i - p, j - p, p + 1) else best)"
    using res by (simp_all add: flm_cell_def bst Let_def p_def split: if_splits)
  have p: "alo + p \<le> i \<and> blo + p \<le> j \<and> matched a b (i - p, j - p, p)"
  proof (cases "p = 0")
    case False
    then have "j \<noteq> 0" "dict_get j2len (j - 1) = Some p"
      by (auto simp: p_def split: if_splits option.splits)
    with row show ?thesis unfolding row_inv_def by fastforce
  qed (use ij in \<open>simp add: matched_def\<close>)
  have m: "matched a b (i - p, j - p, p + 1)"
    using p ij(5) by (auto simp: matched_def less_Suc_eq)
  have "row_inv a b alo (Suc i) blo new'"
    using new p m unfolding res' row_inv_def dict_get_set by auto
  moreover have "in_window alo ahi blo bhi best' \<and> matched a b best'"
    using best p m ij unfolding res' by (auto simp: in_window_def)
  ultimately show ?thesis by simp
qed

lemma flm_row_inv:
  assumes d: "index_ok b d" and row: "row_inv a b alo i blo j2len"
    and best: "in_window alo ahi blo bhi best" "matched a b best" and i: "alo \<le> i" "i < ahi"
    and res: "flm_row d a blo bhi i (j2len, best) = (j2len', best')"
  shows "row_inv a b alo (Suc i) blo j2len' \<and> in_window alo ahi blo bhi best' \<and> matched a b best'"
proof -
  let ?js = "filter (\<lambda>j. blo \<le> j) (takeWhile (\<lambda>j. j < blo \<or> j < bhi) (dict_get_list d (a ! i)))"
  have js: "\<forall>j\<in>set ?js. blo \<le> j \<and> j < bhi \<and> b ! j = a ! i"
    using d by (auto simp: index_ok_def dest: set_takeWhileD)
  have go: "row_inv a b alo (Suc i) blo new' \<and> in_window alo ahi blo bhi m' \<and> matched a b m'"
    if "\<forall>j\<in>set js. blo \<le> j \<and> j < bhi \<and> b ! j = a ! i" "row_inv a b alo (Suc i) blo new"
      "in_window alo ahi blo bhi m" "matched a b m"
      "fold (flm_cell j2len i) js (new, m) = (new', m')" for js new m new' m'
    using that
  proof (induction js arbitrary: new m)
    case (Cons j js)
    obtain n1 m1 where step: "flm_cell j2len i j (new, m) = (n1, m1)"
      by (cases "flm_cell j2len i j (new, m)")
    from Cons.prems(1) have j: "blo \<le> j" "j < bhi" "b ! j = a ! i" by auto
    from flm_cell_inv [OF row Cons.prems(2,3,4) i j step]
    have "row_inv a b alo (Suc i) blo n1" "in_window alo ahi blo bhi m1" "matched a b m1" by auto
    from Cons.IH [OF _ this] Cons.prems(1,5) step show ?case by simp
  qed simp
  have "row_inv a b alo (Suc i) blo []" by (simp add: row_inv_def)
  from go [OF js this best res [unfolded flm_row_def prod.case]] show ?thesis .
qed

lemma flm_scan_inv:
  assumes d: "index_ok b d"
  shows "row_inv a b alo i blo j2len \<Longrightarrow> in_window alo ahi blo bhi best \<Longrightarrow> matched a b best \<Longrightarrow> alo \<le> i \<Longrightarrow>
     in_window alo ahi blo bhi (snd (fold (flm_row d a blo bhi) [i..<ahi] (j2len, best)))
     \<and> matched a b (snd (fold (flm_row d a blo bhi) [i..<ahi] (j2len, best)))"
proof (induction "ahi - i" arbitrary: i j2len best)
  case (Suc n)
  then have lt: "i < ahi" by simp
  obtain j' b' where step: "flm_row d a blo bhi i (j2len, best) = (j', b')"
    by (cases "flm_row d a blo bhi i (j2len, best)")
  from flm_row_inv [OF d Suc.prems(1,2,3,4) lt step]
  have next': "row_inv a b alo (Suc i) blo j'" "in_window alo ahi blo bhi b'" "matched a b b'" by auto
  have "n = ahi - Suc i" "alo \<le> Suc i" using Suc.hyps(2) Suc.prems(4) by simp_all
  from Suc.hyps(1) [OF this(1) next' this(2)] show ?case
    using lt step by (simp add: upt_conv_Cons)
qed simp

lemma extend_back_ok:
  "in_window alo ahi blo bhi m \<Longrightarrow> matched a b m \<Longrightarrow>
     in_window alo ahi blo bhi (extend_back a b alo blo m) \<and> matched a b (extend_back a b alo blo m)"
proof (induction a b alo blo m rule: extend_back.induct)
  case (1 a b alo blo i j k)
  show ?case
  proof (cases "alo < i \<and> blo < j \<and> a ! (i - 1) = b ! (j - 1)")
    case True
    then have w: "in_window alo ahi blo bhi (i - 1, j - 1, k + 1)"
      using 1(2) by (auto simp: in_window_def)
    have "matched a b (i - 1, j - 1, k + 1)" unfolding matched_def prod.case
    proof (intro allI impI)
      fix t assume "t < k + 1"
      show "a ! (i - 1 + t) = b ! (j - 1 + t)"
      proof (cases t)
        case (Suc t')
        with \<open>t < k + 1\<close> True 1(3) show ?thesis by (auto simp: matched_def)
      qed (use True in simp)
    qed
    from 1(1) [OF True w this] True show ?thesis by (simp add: extend_back.simps [of a b alo blo i])
  next
    case False
    then show ?thesis using 1(2,3) by (subst (1 2) extend_back.simps) auto
  qed
qed

lemma extend_forward_ok:
  "in_window alo ahi blo bhi m \<Longrightarrow> matched a b m \<Longrightarrow>
     in_window alo ahi blo bhi (extend_forward a b ahi bhi m) \<and> matched a b (extend_forward a b ahi bhi m)"
proof (induction a b ahi bhi m rule: extend_forward.induct)
  case (1 a b ahi bhi i j k)
  show ?case
  proof (cases "i + k < ahi \<and> j + k < bhi \<and> a ! (i + k) = b ! (j + k)")
    case True
    have "in_window alo ahi blo bhi (i, j, k + 1)" "matched a b (i, j, k + 1)"
      using 1(2,3) True by (auto simp: in_window_def matched_def less_Suc_eq)
    from 1(1) [OF True this] True show ?thesis
      by (simp add: extend_forward.simps [of a b ahi bhi i])
  next
    case False
    then show ?thesis using 1(2,3) by (subst (1 2) extend_forward.simps) auto
  qed
qed

lemma find_longest_match_ok:
  assumes "index_ok b d" "alo \<le> ahi" "blo \<le> bhi"
  shows "in_window alo ahi blo bhi (find_longest_match a b d alo ahi blo bhi)
    \<and> matched a b (find_longest_match a b d alo ahi blo bhi)"
proof -
  have "row_inv a b alo alo blo []" "in_window alo ahi blo bhi (alo, blo, 0)" "matched a b (alo, blo, 0)"
    using assms by (auto simp: row_inv_def in_window_def matched_def)
  note scan = flm_scan_inv [OF assms(1) this order_refl]
  note bk = extend_back_ok [OF conjunct1 [OF scan] conjunct2 [OF scan]]
  from extend_forward_ok [OF conjunct1 [OF bk] conjunct2 [OF bk]] show ?thesis
    unfolding find_longest_match_def Let_def .
qed


lemma index_ok_chain_b: "index_ok b (chain_b b)"
proof -
  let ?d = "fold (\<lambda>(i, x) d. dict_append x i d) (enumerate 0 b) []"
  have get: "dict_get_list (fold (\<lambda>(i, x) d. dict_append x i d) es d) y
      = dict_get_list d y @ map fst (filter (\<lambda>(i, x). x = y) es)" for es :: "(nat \<times> 'a) list" and d y
    by (induction es arbitrary: d) (auto simp: dict_get_list_append)
  have full: "index_ok b ?d"
    by (auto simp: index_ok_def get in_set_enumerate_eq)
  have keys: "distinct (dict_keys (fold (\<lambda>(i, x) d. dict_append x i d) es d))"
    if "distinct (dict_keys d)" for es :: "(nat \<times> 'a) list" and d
    using that by (induction es arbitrary: d) (auto simp: dict_keys_append)
  have "index_ok b (filter (\<lambda>(x, idxs). P idxs) ?d)" for P
    using full dict_get_list_filter [OF keys, of "[]" P "enumerate 0 b"] by (auto simp: index_ok_def)
  with full show ?thesis by (simp add: chain_b_def Let_def)
qed

section \<open>Matching blocks\<close>

lemma find_longest_match_empty:
  assumes "\<not> (alo \<le> ahi \<and> blo \<le> bhi)"
  shows "find_longest_match a b d alo ahi blo bhi = (alo, blo, 0)"
proof -
  have row: "snd (flm_row d a blo bhi i (j2len, best)) = best" if "\<not> blo \<le> bhi" for i j2len best
  proof -
    have "filter (\<lambda>j. blo \<le> j) (takeWhile (\<lambda>j. j < blo \<or> j < bhi) js) = []" for js
      using that by (auto simp: filter_empty_conv dest: set_takeWhileD)
    then show ?thesis by (simp add: flm_row_def)
  qed
  have "snd (fold (flm_row d a blo bhi) is (j2len, best)) = best" if "\<not> blo \<le> bhi" for "is" j2len best
  proof (induction "is" arbitrary: j2len)
    case (Cons i "is")
    obtain j' b' where step: "flm_row d a blo bhi i (j2len, best) = (j', b')"
      by (cases "flm_row d a blo bhi i (j2len, best)")
    then have "b' = best" using row [OF that, of i j2len best] by simp
    with Cons step show ?case by simp
  qed simp
  with assms have "snd (fold (flm_row d a blo bhi) [alo..<ahi] ([], (alo, blo, 0))) = (alo, blo, 0)"
    by (cases "blo \<le> bhi") simp_all
  with assms show ?thesis
    by (auto simp: find_longest_match_def extend_back.simps [of a b alo blo alo blo 0]
        extend_forward.simps [of a b ahi bhi alo blo 0])
qed

lemma find_longest_match_shrinks:
  assumes "(i, j, k) = find_longest_match a b (chain_b b) alo ahi blo bhi" "0 < k"
  shows "i - alo < ahi - alo \<and> ahi - (i + k) < ahi - alo"
proof -
  from assms have "alo \<le> ahi \<and> blo \<le> bhi"
    using find_longest_match_empty [of alo ahi blo bhi a b "chain_b b"] by fastforce
  then have "in_window alo ahi blo bhi (i, j, k)"
    using find_longest_match_ok [OF index_ok_chain_b, where a = a and b = b] assms(1) by metis
  then have "alo \<le> i" "i + k \<le> ahi" by (simp_all add: in_window_def)
  with assms(2) show ?thesis by linarith
qed

text \<open>
  \<open>get_matching_blocks\<close>: the queue splits the window at the longest match; sorting the blocks
  afterwards gives the order of the recursion.
\<close>

function match_blocks :: "'a list \<Rightarrow> 'a list \<Rightarrow> nat \<Rightarrow> nat \<Rightarrow> nat \<Rightarrow> nat \<Rightarrow> match list" where
  "match_blocks a b alo ahi blo bhi =
     (case find_longest_match a b (chain_b b) alo ahi blo bhi of (i, j, k) \<Rightarrow>
        if k = 0 then []
        else (if alo < i \<and> blo < j then match_blocks a b alo i blo j else [])
             @ [(i, j, k)]
             @ (if i + k < ahi \<and> j + k < bhi then match_blocks a b (i + k) ahi (j + k) bhi else []))"
  by pat_completeness auto
termination
  by (relation "measure (\<lambda>(a, b, alo, ahi, blo, bhi). ahi - alo)")
     (auto dest: find_longest_match_shrinks)

declare match_blocks.simps [simp del]

text \<open>Adjacent blocks are collapsed.\<close>

fun collapse :: "match \<Rightarrow> match list \<Rightarrow> match list" where
  "collapse (i1, j1, k1) [] = (if k1 \<noteq> 0 then [(i1, j1, k1)] else [])"
| "collapse (i1, j1, k1) ((i2, j2, k2) # bs) =
     (if i1 + k1 = i2 \<and> j1 + k1 = j2 then collapse (i1, j1, k1 + k2) bs
      else (if k1 \<noteq> 0 then [(i1, j1, k1)] else []) @ collapse (i2, j2, k2) bs)"

definition get_matching_blocks :: "'a list \<Rightarrow> 'a list \<Rightarrow> match list" where
  "get_matching_blocks a b =
     collapse (0, 0, 0) (match_blocks a b 0 (length a) 0 (length b)) @ [(length a, length b, 0)]"

section \<open>Ratio and opcodes\<close>

definition match_count :: "'a list \<Rightarrow> 'a list \<Rightarrow> nat" where
  "match_count a b = sum_list (map (\<lambda>(i, j, k). k) (get_matching_blocks a b))"

text \<open>\<open>2.0 * matches / length\<close>, which is the rounded quotient of the integers below \<open>2^53\<close>.\<close>

definition sm_ratio :: "'a list \<Rightarrow> 'a list \<Rightarrow> pyfloat" where
  "sm_ratio a b =
     (let n = length a + length b
      in if n = 0 then fl_ratio 1 1 else fl_ratio (2 * int (match_count a b)) (int n))"

type_synonym opcode = "string \<times> nat \<times> nat \<times> nat \<times> nat"

fun opcodes_from :: "nat \<Rightarrow> nat \<Rightarrow> match list \<Rightarrow> opcode list" where
  "opcodes_from i j [] = []"
| "opcodes_from i j ((ai, bj, sz) # blocks) =
     (let tag = (if i < ai \<and> j < bj then ''replace'' else if i < ai then ''delete''
                 else if j < bj then ''insert'' else [])
      in (if tag \<noteq> [] then [(tag, i, ai, j, bj)] else [])
         @ (if sz \<noteq> 0 then [(''equal'', ai, ai + sz, bj, bj + sz)] else [])
         @ opcodes_from (ai + sz) (bj + sz) blocks)"

definition get_opcodes :: "'a list \<Rightarrow> 'a list \<Rightarrow> opcode list" where
  "get_opcodes a b = opcodes_from 0 0 (get_matching_blocks a b)"


section \<open>The blocks are a chain\<close>

fun chain :: "'a list \<Rightarrow> 'a list \<Rightarrow> nat \<Rightarrow> nat \<Rightarrow> nat \<Rightarrow> nat \<Rightarrow> match list \<Rightarrow> bool" where
  "chain a b alo ahi blo bhi [] = (alo \<le> ahi \<and> blo \<le> bhi)"
| "chain a b alo ahi blo bhi ((i, j, k) # bs) =
     (alo \<le> i \<and> blo \<le> j \<and> matched a b (i, j, k) \<and> chain a b (i + k) ahi (j + k) bhi bs)"

lemma chain_append:
  "chain a b alo mid blo mid' xs \<Longrightarrow> chain a b mid ahi mid' bhi ys \<Longrightarrow> chain a b alo ahi blo bhi (xs @ ys)"
proof (induction xs arbitrary: alo blo)
  case Nil
  then show ?case by (cases ys rule: list.exhaust) auto
qed auto

lemma match_blocks_chain:
  "alo \<le> ahi \<Longrightarrow> blo \<le> bhi \<Longrightarrow> chain a b alo ahi blo bhi (match_blocks a b alo ahi blo bhi)"
proof (induction a b alo ahi blo bhi rule: match_blocks.induct)
  case (1 a b alo ahi blo bhi)
  obtain i j k where m: "find_longest_match a b (chain_b b) alo ahi blo bhi = (i, j, k)"
    by (cases "find_longest_match a b (chain_b b) alo ahi blo bhi")
  show ?case
  proof (cases "k = 0")
    case True
    with m 1(3,4) show ?thesis by (simp add: match_blocks.simps [of a b alo ahi blo bhi])
  next
    case False
    from find_longest_match_ok [OF index_ok_chain_b 1(3,4), where a = a and b = b] m
    have w: "alo \<le> i" "i + k \<le> ahi" "blo \<le> j" "j + k \<le> bhi" "matched a b (i, j, k)"
      by (auto simp: in_window_def)
    have left: "chain a b alo i blo j (if alo < i \<and> blo < j then match_blocks a b alo i blo j else [])"
      using 1(1) [OF m [symmetric] refl False] w by auto
    have right: "chain a b (i + k) ahi (j + k) bhi
        (if i + k < ahi \<and> j + k < bhi then match_blocks a b (i + k) ahi (j + k) bhi else [])"
      using 1(2) [OF m [symmetric] refl False] w by auto
    have "chain a b i ahi j bhi ([(i, j, k)] @
        (if i + k < ahi \<and> j + k < bhi then match_blocks a b (i + k) ahi (j + k) bhi else []))"
      using right w(5) by simp
    from chain_append [OF left this] m False show ?thesis
      by (simp add: match_blocks.simps [of a b alo ahi blo bhi])
  qed
qed

lemma matched_append:
  "matched a b (i, j, k) \<Longrightarrow> matched a b (i + k, j + k, l) \<Longrightarrow> matched a b (i, j, k + l)"
  unfolding matched_def prod.case
proof (intro allI impI)
  fix t assume *: "\<forall>t<k. a ! (i + t) = b ! (j + t)" "\<forall>t<l. a ! (i + k + t) = b ! (j + k + t)" "t < k + l"
  show "a ! (i + t) = b ! (j + t)"
  proof (cases "t < k")
    case False
    with *(2) [rule_format, of "t - k"] *(3) show ?thesis by simp
  qed (use * in simp)
qed

lemma collapse_chain:
  "chain a b (i1 + k1) ahi (j1 + k1) bhi bs \<Longrightarrow> matched a b (i1, j1, k1) \<Longrightarrow> alo \<le> i1 \<Longrightarrow> blo \<le> j1 \<Longrightarrow>
     chain a b alo ahi blo bhi (collapse (i1, j1, k1) bs)"
proof (induction bs arbitrary: i1 j1 k1 alo blo)
  case Nil
  then show ?case by auto
next
  case (Cons m bs)
  obtain i2 j2 k2 where m: "m = (i2, j2, k2)" by (cases m)
  from Cons.prems(1) have ch: "i1 + k1 \<le> i2" "j1 + k1 \<le> j2" "matched a b (i2, j2, k2)"
    "chain a b (i2 + k2) ahi (j2 + k2) bhi bs" by (simp_all add: m)
  show ?case
  proof (cases "i1 + k1 = i2 \<and> j1 + k1 = j2")
    case True
    with ch Cons.prems(2) have "matched a b (i1, j1, k1 + k2)" by (auto intro: matched_append)
    moreover have "chain a b (i1 + (k1 + k2)) ahi (j1 + (k1 + k2)) bhi bs"
      using ch(4) True by (metis add.assoc)
    ultimately have "chain a b alo ahi blo bhi (collapse (i1, j1, k1 + k2) bs)"
      using Cons.IH Cons.prems(3,4) by blast
    with True show ?thesis by (simp add: m)
  next
    case False
    have "chain a b (i1 + k1) ahi (j1 + k1) bhi (collapse (i2, j2, k2) bs)"
      using Cons.IH [OF ch(4,3,1,2)] .
    moreover have "chain a b alo ahi blo bhi (collapse (i2, j2, k2) bs)" if "k1 = 0"
      using Cons.IH [OF ch(4,3)] ch(1,2) Cons.prems(3,4) that by simp
    ultimately show ?thesis using False Cons.prems(2-4) by (auto simp: m)
  qed
qed

lemma matching_blocks_chain: "chain a b 0 (length a) 0 (length b) (get_matching_blocks a b)"
proof -
  have "matched a b (0, 0, 0)" by (simp add: matched_def)
  from collapse_chain [OF _ this] match_blocks_chain [of 0 "length a" 0 "length b" a b]
  have "chain a b 0 (length a) 0 (length b) (collapse (0, 0, 0) (match_blocks a b 0 (length a) 0 (length b)))"
    by simp
  from chain_append [OF this] show ?thesis
    unfolding get_matching_blocks_def by (simp add: matched_def)
qed

lemma chain_sum:
  "chain a b alo ahi blo bhi bs \<Longrightarrow>
     alo + sum_list (map (\<lambda>(i, j, k). k) bs) \<le> ahi \<and> blo + sum_list (map (\<lambda>(i, j, k). k) bs) \<le> bhi"
  by (induction bs arbitrary: alo blo) fastforce+

text \<open>The matched elements fit into both sequences, so the ratio is at most one.\<close>

lemma match_count_bound: "match_count a b \<le> min (length a) (length b)"
  using chain_sum [OF matching_blocks_chain, of a b] by (simp add: match_count_def)

section \<open>Popular elements\<close>

lemma chain_b_popular:
  assumes "200 \<le> length b" "\<And>x. x \<in> set b \<Longrightarrow> length b div 100 + 1 < count_list b x"
  shows "chain_b b = []"
proof -
  let ?d = "fold (\<lambda>(i, x) d. dict_append x i d) (enumerate 0 b) []"
  have get: "dict_get_list (fold (\<lambda>(i, x) d. dict_append x i d) es d) y
      = dict_get_list d y @ map fst (filter (\<lambda>(i, x). x = y) es)" for es :: "(nat \<times> 'a) list" and d y
    by (induction es arbitrary: d) (auto simp: dict_get_list_append)
  have len: "length (filter (\<lambda>(i, x). x = y) (enumerate k xs)) = count_list xs y" for xs :: "'a list" and k y
    by (induction xs arbitrary: k) auto
  have keys: "distinct (dict_keys (fold (\<lambda>(i, x) d. dict_append x i d) es d))
        \<and> set (dict_keys (fold (\<lambda>(i, x) d. dict_append x i d) es d)) \<subseteq> set (dict_keys d) \<union> snd ` set es"
    if "distinct (dict_keys d)" for es :: "(nat \<times> 'a) list" and d
    using that
  proof (induction es arbitrary: d)
    case (Cons p es)
    obtain i x where p: "p = (i, x)" by (cases p)
    have "distinct (dict_keys (dict_append x i d))" using Cons.prems by (simp add: dict_keys_append)
    from Cons.IH [OF this] show ?case by (auto simp: p dict_keys_append split: if_splits)
  qed simp
  have "length b div 100 + 1 < length v" if "(x, v) \<in> set ?d" for x v
  proof -
    have "x \<in> set (dict_keys ?d)" using that by force
    moreover have "snd ` set (enumerate 0 b) = set b" by (metis map_snd_enumerate set_map)
    ultimately have "x \<in> set b" using keys [of "[]" "enumerate 0 b"] by auto
    moreover have "dict_get_list ?d x = v" using that keys [of "[]" "enumerate 0 b"]
      by (simp add: dict_get_list_def)
    then have "v = map fst (filter (\<lambda>(i, y). y = x) (enumerate 0 b))" by (simp add: get)
    then have "length v = count_list b x" by (simp add: len)
    ultimately show ?thesis using assms(2) by simp
  qed
  then show ?thesis using assms(1) by (fastforce simp: chain_b_def Let_def filter_empty_conv)
qed

lemma find_longest_match_no_index:
  "find_longest_match a b [] 0 ahi 0 bhi = extend_forward a b ahi bhi (0, 0, 0)"
proof -
  have "snd (fold (flm_row [] a 0 bhi) is (j2len, best)) = best" for "is" j2len best
    by (induction "is" arbitrary: j2len) (simp_all add: flm_row_def)
  then show ?thesis by (simp add: find_longest_match_def extend_back.simps [of _ _ 0])
qed

lemma fl_ratio_zero: "0 < d \<Longrightarrow> fl_ratio 0 d = FFin False 0 0"
  by (simp add: fl_ratio_def round_ratio_def)

text \<open>
  With every element popular nothing but a common prefix is matched: two sequences that differ in the
  first element have ratio zero.
\<close>

lemma popular_ratio_zero:
  assumes "200 \<le> length b" "\<And>x. x \<in> set b \<Longrightarrow> length b div 100 + 1 < count_list b x"
    and "a = x # a'" "b = y # b'" "x \<noteq> y"
  shows "sm_ratio a b = FFin False 0 0"
proof -
  have "find_longest_match a b (chain_b b) 0 (length a) 0 (length b) = (0, 0, 0)"
  proof -
    have "chain_b b = []" by (rule chain_b_popular [OF assms(1,2)])
    moreover have "extend_forward a b (length a) (length b) (0, 0, 0) = (0, 0, 0)"
      using assms(3-5) by (simp add: extend_forward.simps [of _ _ _ _ 0 0 0])
    ultimately show ?thesis by (simp add: find_longest_match_no_index)
  qed
  then have "match_blocks a b 0 (length a) 0 (length b) = []"
    by (simp add: match_blocks.simps)
  then have "match_count a b = 0" by (simp add: match_count_def get_matching_blocks_def)
  then show ?thesis using assms(3) by (simp add: sm_ratio_def Let_def fl_ratio_zero)
qed

end
