(* ===== verification/UnionFind.thy ===== *)
theory UnionFind
  imports PyBase
begin

text \<open>
  The union-find structure inside \<open>detect_type3\<close> (\<open>cdup/src/detect.py\<close>): \<open>find\<close> with path halving over
  a dictionary of parents and \<open>union\<close> without ranks. The structure is shown to terminate within a
  budget given by the size of the dictionary and to represent the connected components of the pairs
  it was given; that contract is stated as a locale, which the model interprets.
\<close>

section \<open>The operations\<close>

definition uf_parent :: "(nat, nat) dict \<Rightarrow> nat \<Rightarrow> nat" where
  "uf_parent p x = (case dict_get p x of None \<Rightarrow> x | Some y \<Rightarrow> y)"

fun uf_find :: "nat \<Rightarrow> nat \<Rightarrow> (nat, nat) dict \<Rightarrow> (nat \<times> (nat, nat) dict) option" where
  "uf_find 0 x p = None"
| "uf_find (Suc fuel) x p =
     (if uf_parent p x \<noteq> x
      then (let p' = dict_set x (uf_parent p (uf_parent p x)) p
            in uf_find fuel (uf_parent p' x) p')
      else Some (x, p))"

definition find_root :: "nat \<Rightarrow> (nat, nat) dict \<Rightarrow> (nat \<times> (nat, nat) dict) option" where
  "find_root x p = uf_find (Suc (length p)) x p"

definition uf_union :: "nat \<Rightarrow> nat \<Rightarrow> (nat, nat) dict \<Rightarrow> (nat, nat) dict option" where
  "uf_union a b p =
     (case find_root a p of
        None \<Rightarrow> None
      | Some (ra, p1) \<Rightarrow>
          (case find_root b p1 of
             None \<Rightarrow> None
           | Some (rb, p2) \<Rightarrow> Some (if ra \<noteq> rb then dict_set ra rb p2 else p2)))"

section \<open>Heights\<close>

text \<open>\<open>height f x n r\<close>: the root \<open>r\<close> is reached from \<open>x\<close> in \<open>n\<close> steps to the parent.\<close>

inductive height :: "(nat \<Rightarrow> nat) \<Rightarrow> nat \<Rightarrow> nat \<Rightarrow> nat \<Rightarrow> bool" for f where
  root: "f x = x \<Longrightarrow> height f x 0 x"
| step: "f x \<noteq> x \<Longrightarrow> height f (f x) n r \<Longrightarrow> height f x (Suc n) r"

inductive_cases height_rootE: "height f x 0 r"
inductive_cases height_stepE: "height f x (Suc n) r"
inductive_simps height_iff: "height f x n r"

definition forest :: "(nat \<Rightarrow> nat) \<Rightarrow> bool" where
  "forest f \<longleftrightarrow> (\<forall>x. \<exists>n r. height f x n r)"

definition root_of :: "(nat \<Rightarrow> nat) \<Rightarrow> nat \<Rightarrow> nat" where
  "root_of f x = (THE r. \<exists>n. height f x n r)"

lemma forestD: "forest f \<Longrightarrow> \<exists>n r. height f x n r"
  by (simp add: forest_def)

lemma height_stepD: "height f x n r \<Longrightarrow> f x \<noteq> x \<Longrightarrow> \<exists>k. n = Suc k \<and> height f (f x) k r"
  by (erule height.cases) auto

lemma height_rootD: "height f x n r \<Longrightarrow> f x = x \<Longrightarrow> n = 0 \<and> r = x"
  by (erule height.cases) auto

lemma height_unique: "height f x n r \<Longrightarrow> height f x m s \<Longrightarrow> n = m \<and> r = s"
proof (induction arbitrary: m s rule: height.induct)
  case (root x)
  then show ?case using height_rootD by metis
next
  case (step x n r)
  from height_stepD [OF step.prems step.hyps(1)] obtain m' where "m = Suc m'" "height f (f x) m' s"
    by blast
  with step.IH show ?case by auto
qed

lemma root_of_eq: "height f x n r \<Longrightarrow> root_of f x = r"
  unfolding root_of_def using height_unique by (blast intro: the_equality)

lemma height_root_fix: "height f x n r \<Longrightarrow> f r = r"
  by (induction rule: height.induct) auto

lemma height_of_root: "f r = r \<Longrightarrow> height f r 0 r"
  by (rule height.root)

text \<open>A path visits every height once, so it is no longer than the set of nodes that are not roots.\<close>

lemma height_levels:
  "height f x n r \<Longrightarrow> 1 \<le> k \<Longrightarrow> k \<le> n \<Longrightarrow> \<exists>y. f y \<noteq> y \<and> height f y k r"
proof (induction rule: height.induct)
  case (step x n r)
  show ?case
  proof (cases "k = Suc n")
    case True
    with step.hyps show ?thesis by (auto intro: height.step)
  next
    case False
    with step show ?thesis by auto
  qed
qed simp

lemma height_bound:
  assumes "height f x n r" "finite D" "{y. f y \<noteq> y} \<subseteq> D"
  shows "n \<le> card D"
proof -
  have "\<forall>k\<in>{1..n}. \<exists>y. y \<in> D \<and> height f y k r"
    using height_levels [OF assms(1)] assms(3) by fastforce
  then obtain g where g: "\<forall>k\<in>{1..n}. g k \<in> D \<and> height f (g k) k r" by metis
  have "inj_on g {1..n}"
  proof (rule inj_onI)
    fix k l assume "k \<in> {1..n}" "l \<in> {1..n}" "g k = g l"
    with g height_unique show "k = l" by metis
  qed
  then have "card {1..n} \<le> card D" using g assms(2) by (intro card_inj_on_le) auto
  then show ?thesis by simp
qed

section \<open>Path halving\<close>

lemma halving_height:
  assumes "f x \<noteq> x" "height f x nx rx"
  shows "height f y n r \<Longrightarrow> \<exists>m\<le>n. height (f(x := f (f x))) y m r"
proof (induction n arbitrary: y rule: less_induct)
  case (less n)
  let ?g = "f(x := f (f x))"
  have x_not_below: "f (f x) \<noteq> x"
  proof
    assume cyc: "f (f x) = x"
    from height_stepD [OF assms(2,1)] obtain n1 where n1: "nx = Suc n1" "height f (f x) n1 rx" by blast
    have "f (f x) \<noteq> f x" using cyc assms(1) by metis
    from height_stepD [OF n1(2) this] obtain n2 where "n1 = Suc n2" "height f x n2 rx"
      unfolding cyc by blast
    with n1(1) height_unique [OF assms(2)] show False by fastforce
  qed
  show ?case
  proof (cases n)
    case 0
    with less.prems have y: "f y = y" "r = y" by (auto elim: height_rootE)
    with assms(1) have "y \<noteq> x" by auto
    with y have "height ?g y 0 r" by (auto intro: height.root)
    with 0 show ?thesis by blast
  next
    case (Suc k)
    with less.prems have y: "f y \<noteq> y" "height f (f y) k r" by (auto elim: height_stepE)
    show ?thesis
    proof (cases "y = x")
      case False
      have "k < n" using Suc by simp
      from less.IH [OF this y(2)] obtain m where "m \<le> k" "height ?g (f y) m r" by blast
      with False y(1) have "height ?g y (Suc m) r" by (intro height.step) simp_all
      moreover have "Suc m \<le> n" using \<open>m \<le> k\<close> Suc by simp
      ultimately show ?thesis by blast
    next
      case True
      show ?thesis
      proof (cases k)
        case 0
        with y(2) True have fx: "f (f x) = f x" "r = f x" by (auto elim: height_rootE)
        have "height ?g (f x) 0 (f x)" using fx(1) by (intro height.root) simp
        then have "height ?g x (Suc 0) r" using fx assms(1) by (intro height.step) auto
        moreover have "Suc 0 \<le> n" using Suc by simp
        ultimately show ?thesis using True by blast
      next
        case (Suc l)
        with y(2) True have "height f (f (f x)) l r" by (auto elim: height_stepE)
        moreover have "l < n" using Suc \<open>n = Suc k\<close> by simp
        ultimately obtain m where "m \<le> l" "height ?g (f (f x)) m r" using less.IH by blast
        then have "height ?g x (Suc m) r" using x_not_below by (intro height.step) auto
        moreover have "Suc m \<le> n" using \<open>m \<le> l\<close> Suc \<open>n = Suc k\<close> by simp
        ultimately show ?thesis using True by blast
      qed
    qed
  qed
qed

lemma halving_forest:
  assumes "forest f" "f x \<noteq> x"
  shows "forest (f(x := f (f x)))" "root_of (f(x := f (f x))) = root_of f"
proof -
  obtain nx rx where x: "height f x nx rx" using forestD [OF assms(1)] by blast
  have all: "\<exists>n m r. height f y n r \<and> height (f(x := f (f x))) y m r" for y
  proof -
    obtain n r where h: "height f y n r" using forestD [OF assms(1)] by blast
    from halving_height [OF assms(2) x h] h show ?thesis by blast
  qed
  then show "forest (f(x := f (f x)))" unfolding forest_def by blast
  show "root_of (f(x := f (f x))) = root_of f"
  proof
    fix y
    obtain n m r where "height f y n r" "height (f(x := f (f x))) y m r" using all by blast
    then show "root_of (f(x := f (f x))) y = root_of f y" by (simp only: root_of_eq)
  qed
qed

lemma uf_parent_set: "uf_parent (dict_set x y p) = (uf_parent p)(x := y)"
  by (auto simp: uf_parent_def dict_get_set)

lemma uf_find_spec:
  "forest (uf_parent p) \<Longrightarrow> height (uf_parent p) x n r \<Longrightarrow> n < fuel \<Longrightarrow>
     \<exists>p'. uf_find fuel x p = Some (r, p') \<and> forest (uf_parent p')
        \<and> root_of (uf_parent p') = root_of (uf_parent p)"
proof (induction fuel arbitrary: x n p)
  case (Suc fuel)
  let ?f = "uf_parent p"
  show ?case
  proof (cases "?f x = x")
    case True
    with Suc.prems(2) have "r = x" using height_rootD by blast
    with True Suc.prems(1) show ?thesis by simp
  next
    case False
    let ?p = "dict_set x (?f (?f x)) p"
    let ?g = "?f(x := ?f (?f x))"
    have g: "uf_parent ?p = ?g" by (rule uf_parent_set)
    from height_stepD [OF Suc.prems(2) False] obtain k where k: "n = Suc k" "height ?f (?f x) k r"
      by blast
    have "\<exists>m\<le>k. height ?f (?f (?f x)) m r"
    proof (cases "?f (?f x) = ?f x")
      case False
      from height_stepD [OF k(2) False] obtain l where "k = Suc l" "height ?f (?f (?f x)) l r" by blast
      then show ?thesis by (metis le_SucI order_refl)
    next
      case True
      then show ?thesis using k(2) by (metis order_refl)
    qed
    then obtain m where m: "m \<le> k" "height ?f (?f (?f x)) m r" by blast
    from halving_height [OF False Suc.prems(2) m(2)] obtain m' where
      m': "m' \<le> m" "height ?g (?f (?f x)) m' r" by blast
    have "m' < fuel" using m(1) m'(1) k(1) Suc.prems(3) by simp
    note IH = Suc.IH [of ?p "?f (?f x)" m', unfolded g, OF halving_forest(1) [OF Suc.prems(1) False] m'(2) this]
    have "uf_find (Suc fuel) x p = uf_find fuel (?f (?f x)) ?p"
      using False fun_cong [OF g, of x] by (simp add: Let_def)
    with IH halving_forest(2) [OF Suc.prems(1) False] show ?thesis by metis
  qed
qed simp

lemma non_roots_bounded: "finite (fst ` set p) \<and> {y. uf_parent p y \<noteq> y} \<subseteq> fst ` set p"
  by (auto simp: uf_parent_def image_iff split: option.splits dest!: map_of_SomeD) force

lemma find_root_spec:
  assumes "forest (uf_parent p)"
  shows "\<exists>p'. find_root x p = Some (root_of (uf_parent p) x, p') \<and> forest (uf_parent p')
        \<and> root_of (uf_parent p') = root_of (uf_parent p)"
proof -
  obtain n r where h: "height (uf_parent p) x n r" using forestD [OF assms] by blast
  have "n \<le> card (fst ` set p)"
    using height_bound [OF h] non_roots_bounded by blast
  also have "\<dots> \<le> length p" using card_image_le [of "set p" fst] card_length [of p] by simp
  finally have "n < Suc (length p)" by simp
  from uf_find_spec [OF assms h this] root_of_eq [OF h] show ?thesis by (simp add: find_root_def)
qed


section \<open>Union\<close>

lemma link_height:
  assumes "f ra = ra" "f rb = rb" "ra \<noteq> rb"
  shows "height f y n r \<Longrightarrow> \<exists>m. height (f(ra := rb)) y m (if r = ra then rb else r)"
proof (induction rule: height.induct)
  case (root x)
  show ?case
  proof (cases "x = ra")
    case True
    have "height (f(ra := rb)) rb 0 rb" using assms by (intro height.root) simp
    then have "height (f(ra := rb)) ra (Suc 0) rb" using assms by (intro height.step) simp_all
    with True show ?thesis unfolding True if_True simp_thms by blast
  next
    case False
    with root have "height (f(ra := rb)) x 0 x" by (intro height.root) simp
    with False show ?thesis unfolding if_not_P [OF False] by blast
  qed
next
  case (step x n r)
  from step.IH obtain m where "height (f(ra := rb)) (f x) m (if r = ra then rb else r)" by blast
  moreover have "x \<noteq> ra" using step.hyps(1) assms(1) by auto
  ultimately have "height (f(ra := rb)) x (Suc m) (if r = ra then rb else r)"
    using step.hyps(1) by (intro height.step) simp_all
  then show ?case by blast
qed

lemma link_forest:
  assumes "forest f" "f ra = ra" "f rb = rb" "ra \<noteq> rb"
  shows "forest (f(ra := rb))"
    and "root_of (f(ra := rb)) x = (if root_of f x = ra then rb else root_of f x)"
proof -
  have all: "\<exists>n m r. height f y n r \<and> height (f(ra := rb)) y m (if r = ra then rb else r)" for y
  proof -
    obtain n r where "height f y n r" using forestD [OF assms(1)] by blast
    with link_height [OF assms(2-4) this] show ?thesis by blast
  qed
  then show "forest (f(ra := rb))" unfolding forest_def by blast
  obtain n m r where "height f x n r" "height (f(ra := rb)) x m (if r = ra then rb else r)"
    using all by blast
  then show "root_of (f(ra := rb)) x = (if root_of f x = ra then rb else root_of f x)"
    by (simp only: root_of_eq)
qed

definition same_root :: "(nat, nat) dict \<Rightarrow> nat \<Rightarrow> nat \<Rightarrow> bool" where
  "same_root p x y \<longleftrightarrow> root_of (uf_parent p) x = root_of (uf_parent p) y"

lemma root_of_fix: "forest f \<Longrightarrow> f (root_of f x) = root_of f x"
  using forestD [of f x] height_root_fix root_of_eq by metis

lemma uf_union_spec:
  assumes "forest (uf_parent p)"
  shows "\<exists>p'. uf_union a b p = Some p' \<and> forest (uf_parent p')
    \<and> (\<forall>x y. same_root p' x y \<longleftrightarrow>
         same_root p x y \<or> same_root p x a \<and> same_root p b y \<or> same_root p x b \<and> same_root p a y)"
proof -
  let ?r = "root_of (uf_parent p)"
  obtain p1 where p1: "find_root a p = Some (?r a, p1)" "forest (uf_parent p1)"
    "root_of (uf_parent p1) = ?r"
    using find_root_spec [OF assms] by blast
  obtain p2 where p2: "find_root b p1 = Some (?r b, p2)" "forest (uf_parent p2)"
    "root_of (uf_parent p2) = ?r"
    using find_root_spec [OF p1(2), of b] p1(3) by auto
  show ?thesis
  proof (cases "?r a = ?r b")
    case True
    then have "uf_union a b p = Some p2" by (simp add: uf_union_def p1(1) p2(1))
    with p2 True show ?thesis by (auto simp: same_root_def)
  next
    case False
    let ?p' = "dict_set (?r a) (?r b) p2"
    have fix_roots: "uf_parent p2 (?r a) = ?r a" "uf_parent p2 (?r b) = ?r b"
      using root_of_fix [OF p2(2)] p2(3) by simp_all
    have g: "uf_parent ?p' = (uf_parent p2)(?r a := ?r b)" by (rule uf_parent_set)
    have "uf_union a b p = Some ?p'" using False by (simp add: uf_union_def p1(1) p2(1))
    moreover have "forest (uf_parent ?p')"
      unfolding g by (rule link_forest(1) [OF p2(2) fix_roots False])
    moreover have "root_of (uf_parent ?p') x = (if ?r x = ?r a then ?r b else ?r x)" for x
      unfolding g using link_forest(2) [OF p2(2) fix_roots False] p2(3) by simp
    then have "same_root ?p' x y \<longleftrightarrow>
         same_root p x y \<or> same_root p x a \<and> same_root p b y \<or> same_root p x b \<and> same_root p a y" for x y
      unfolding same_root_def by auto
    ultimately show ?thesis by blast
  qed
qed

section \<open>The contract of a partition structure\<close>

fun opt_fold :: "('a \<Rightarrow> 's \<Rightarrow> 's option) \<Rightarrow> 'a list \<Rightarrow> 's \<Rightarrow> 's option" where
  "opt_fold f [] s = Some s"
| "opt_fold f (x # xs) s = (case f x s of None \<Rightarrow> None | Some s' \<Rightarrow> opt_fold f xs s')"

definition connected :: "(nat \<times> nat) set \<Rightarrow> (nat \<times> nat) set" where
  "connected E = (E \<union> E\<inverse>)\<^sup>*"

lemma connected_sym: "(x, y) \<in> connected E \<Longrightarrow> (y, x) \<in> connected E"
  unfolding connected_def by (metis converse_Un converse_converse rtrancl_converseI sup_commute)

lemma connected_trans: "(x, y) \<in> connected E \<Longrightarrow> (y, z) \<in> connected E \<Longrightarrow> (x, z) \<in> connected E"
  unfolding connected_def by (rule rtrancl_trans)

lemma connected_mono: "(x, y) \<in> connected E \<Longrightarrow> E \<subseteq> F \<Longrightarrow> (x, y) \<in> connected F"
  unfolding connected_def by (metis Un_mono converse_mono rtrancl_mono subsetD)

lemma connected_insert:
  "(x, y) \<in> connected (insert (a, b) E) \<longleftrightarrow>
     (x, y) \<in> connected E \<or> (x, a) \<in> connected E \<and> (b, y) \<in> connected E
       \<or> (x, b) \<in> connected E \<and> (a, y) \<in> connected E" (is "_ \<longleftrightarrow> ?R x y")
proof
  assume "(x, y) \<in> connected (insert (a, b) E)"
  then show "?R x y" unfolding connected_def [of "insert _ _"]
  proof (induction rule: rtrancl_induct)
    case base
    show ?case by (simp add: connected_def)
  next
    case (step y z)
    consider "(y, z) \<in> connected E" | "y = a" "z = b" | "y = b" "z = a"
      using step.hyps(2) by (auto simp: connected_def)
    then show ?case
    proof cases
      case 1
      with step.IH show ?thesis by (blast intro: connected_trans)
    next
      case 2
      have "(b, b) \<in> connected E" by (simp add: connected_def)
      with step.IH 2 show ?thesis by (blast intro: connected_trans connected_sym)
    next
      case 3
      have "(a, a) \<in> connected E" by (simp add: connected_def)
      with step.IH 3 show ?thesis by (blast intro: connected_trans connected_sym)
    qed
  qed
next
  have edge: "(a, b) \<in> connected (insert (a, b) E)" "(b, a) \<in> connected (insert (a, b) E)"
    by (auto simp: connected_def)
  assume "?R x y"
  with edge show "(x, y) \<in> connected (insert (a, b) E)"
    by (meson connected_mono connected_trans subset_insertI)
qed

text \<open>
  What the clustering relies on: an empty structure that separates everything, and a union that never
  fails on a valid structure and merges exactly two classes.
\<close>

locale partition_structure =
  fixes valid :: "'p \<Rightarrow> bool"
    and same :: "'p \<Rightarrow> nat \<Rightarrow> nat \<Rightarrow> bool"
    and start :: "'p"
    and join :: "nat \<Rightarrow> nat \<Rightarrow> 'p \<Rightarrow> 'p option"
  assumes valid_start: "valid start"
    and same_start: "same start x y \<longleftrightarrow> x = y"
    and join_valid: "valid p \<Longrightarrow> \<exists>p'. join a b p = Some p' \<and> valid p'
          \<and> (\<forall>x y. same p' x y \<longleftrightarrow> same p x y \<or> same p x a \<and> same p b y \<or> same p x b \<and> same p a y)"
begin

lemma join_all_from:
  "valid p \<Longrightarrow> \<forall>x y. same p x y \<longleftrightarrow> (x, y) \<in> connected E \<Longrightarrow>
     \<exists>p'. opt_fold (\<lambda>(a, b). join a b) es p = Some p' \<and> valid p'
       \<and> (\<forall>x y. same p' x y \<longleftrightarrow> (x, y) \<in> connected (set es \<union> E))"
proof (induction es arbitrary: p E)
  case (Cons e es)
  obtain a b where e: "e = (a, b)" by (cases e)
  obtain p1 where p1: "join a b p = Some p1" "valid p1"
    "\<forall>x y. same p1 x y \<longleftrightarrow> same p x y \<or> same p x a \<and> same p b y \<or> same p x b \<and> same p a y"
    using join_valid [OF Cons.prems(1), of a b] by blast
  have "\<forall>x y. same p1 x y \<longleftrightarrow> (x, y) \<in> connected (insert e E)"
    using p1(3) Cons.prems(2) unfolding e connected_insert by simp
  from Cons.IH [OF p1(2) this] p1(1) show ?case by (auto simp: e)
qed simp

lemma join_all:
  "\<exists>p. opt_fold (\<lambda>(a, b). join a b) es start = Some p \<and> valid p
     \<and> (\<forall>x y. same p x y \<longleftrightarrow> (x, y) \<in> connected (set es))"
  using join_all_from [OF valid_start, of "{}" es] by (simp add: same_start connected_def)

end

interpretation uf: partition_structure "\<lambda>p. forest (uf_parent p)" same_root "[]" uf_union
proof unfold_locales
  have h: "height (uf_parent []) x 0 x" for x by (intro height.root) (simp add: uf_parent_def)
  then show "forest (uf_parent [])" by (auto simp: forest_def)
  show "same_root [] x y \<longleftrightarrow> x = y" for x y
    by (simp add: same_root_def root_of_eq [OF h])
  show "\<exists>p'. uf_union a b p = Some p' \<and> forest (uf_parent p')
    \<and> (\<forall>x y. same_root p' x y \<longleftrightarrow>
         same_root p x y \<or> same_root p x a \<and> same_root p b y \<or> same_root p x b \<and> same_root p a y)"
    if "forest (uf_parent p)" for p a b
    using that by (rule uf_union_spec)
qed

text \<open>
  C16. Whatever pairs are united, in whatever order, no search runs out of its budget, and two elements
  have the same root exactly when they are connected by the pairs.
\<close>
theorem union_find_components:
  "\<exists>p. opt_fold (\<lambda>(a, b). uf_union a b) pairs [] = Some p
     \<and> (\<forall>x. \<exists>p'. find_root x p = Some (root_of (uf_parent p) x, p'))
     \<and> (\<forall>x y. root_of (uf_parent p) x = root_of (uf_parent p) y \<longleftrightarrow>
          (x, y) \<in> (set pairs \<union> (set pairs)\<inverse>)\<^sup>*)"
  using uf.join_all [of pairs] find_root_spec unfolding same_root_def connected_def by metis

end
