(* ===== verification/NearMiss.thy ===== *)
theory NearMiss
  imports Clones DiffLib UnionFind
begin

text \<open>
  Type III detection of \<open>cdup/src/detect.py\<close>: sliding windows over the Type II sequences of the
  function-level segments are compared by \<open>SequenceMatcher\<close>; the pairs in the similarity band are
  filtered (subsumption, best per segment pair, share of differing statements, symmetry) and clustered
  by union-find.
\<close>

section \<open>Sequences\<close>

type_synonym seq = "(nat \<times> string \<times> string) list"

fun seq_stmts :: "(nat, nat) dict \<Rightarrow> nat \<Rightarrow> jstmt list \<Rightarrow> nat list \<Rightarrow> seq py" where
  "seq_stmts types stmt_idx [] cs = Inr []"
| "seq_stmts types stmt_idx (s # ss) cs =
     (let raw = get_raw s; (norm, target) = base_and_target True raw
      in py_bind (fill_blocks (type_lookup types) target norm cs ()) (\<lambda>(norm, cs, _).
         py_bind (seq_stmts types (Suc stmt_idx) ss cs) (\<lambda>rest.
         Inr ((stmt_idx, norm, raw) # rest))))"

definition build_flat_sequences ::
  "(string \<Rightarrow> string) \<Rightarrow> jseg list \<Rightarrow> ((nat, seq) dict \<times> (nat, nat) dict) py" where
  "build_flat_sequences digest segments =
     py_bind (block_type_ids digest True segments) (\<lambda>types.
     py_bind (py_fold (\<lambda>seg d.
          py_bind (seq_stmts types 0 (js_stmts seg) (dict_get_list (children_map segments) (js_id seg)))
            (\<lambda>seq. Inr (dict_set (js_id seg) seq d))) segments []) (\<lambda>sequences.
     Inr (sequences, types)))"

definition sequence_similarity :: "seq \<Rightarrow> seq \<Rightarrow> pyfloat" where
  "sequence_similarity seq_a seq_b =
     (if seq_a = [] \<or> seq_b = [] then FFin False 0 0
      else sm_ratio (str_join [newline] (map (fst \<circ> snd) seq_a))
                    (str_join [newline] (map (fst \<circ> snd) seq_b)))"

text \<open>\<open>sorted(set(range(n)) - ...)\<close> over the positions the opcodes tag as equal.\<close>

definition get_diff_regions :: "seq \<Rightarrow> seq \<Rightarrow> nat list \<times> nat list" where
  "get_diff_regions seq_a seq_b =
     (let norms_a = map (fst \<circ> snd) seq_a; norms_b = map (fst \<circ> snd) seq_b;
          equal = filter (\<lambda>op. fst op = ''equal'') (get_opcodes norms_a norms_b)
      in (filter (\<lambda>k. \<not> list_ex (\<lambda>(tag, i1, i2, j1, j2). i1 \<le> k \<and> k < i2) equal) [0..<length norms_a],
          filter (\<lambda>k. \<not> list_ex (\<lambda>(tag, i1, i2, j1, j2). j1 \<le> k \<and> k < j2) equal) [0..<length norms_b]))"

section \<open>Floats\<close>

definition fl_lt :: "pyfloat \<Rightarrow> pyfloat \<Rightarrow> bool" where
  "fl_lt x y = (fl_cmp x y = Some (- 1))"

definition fl_le :: "pyfloat \<Rightarrow> pyfloat \<Rightarrow> bool" where
  "fl_le x y = (fl_cmp x y = Some (- 1) \<or> fl_cmp x y = Some 0)"

definition fl_eq :: "pyfloat \<Rightarrow> pyfloat \<Rightarrow> bool" where
  "fl_eq x y = (fl_cmp x y = Some 0)"

text \<open>\<open>round(x, 4)\<close>: the exact value to the nearest multiple of \<open>10^-4\<close>, ties to even, as a double.\<close>

definition fl_round4 :: "pyfloat \<Rightarrow> pyfloat" where
  "fl_round4 x =
     (case x of
        FFin s m e \<Rightarrow>
          (let n = \<bar>fl_num s m e\<bar> * 10000; d = fl_den e; q = n div d; r = n mod d;
               q' = (if d < 2 * r \<or> d = 2 * r \<and> odd q then q + 1 else q)
           in round_ratio s q' 10000)
      | _ \<Rightarrow> x)"

definition fl_min :: "pyfloat \<Rightarrow> pyfloat list \<Rightarrow> pyfloat" where
  "fl_min x xs = fold (\<lambda>y m. if fl_lt y m then y else m) xs x"

definition fl_max :: "pyfloat \<Rightarrow> pyfloat list \<Rightarrow> pyfloat" where
  "fl_max x xs = fold (\<lambda>y m. if fl_lt m y then y else m) xs x"

section \<open>Windows\<close>

record near_miss =
  nm_seg_a :: nat
  nm_start_a :: nat
  nm_end_a :: nat
  nm_seg_b :: nat
  nm_start_b :: nat
  nm_end_b :: nat
  nm_similarity :: pyfloat
  nm_length :: nat
  nm_diffs_a :: "nat list"
  nm_diffs_b :: "nat list"

definition py_flatmap :: "('a \<Rightarrow> 'b list py) \<Rightarrow> 'a list \<Rightarrow> 'b list py" where
  "py_flatmap f xs = py_bind (py_seq (map f xs)) (\<lambda>xss. Inr (concat xss))"

definition py_last :: "'a list \<Rightarrow> 'a py" where
  "py_last xs = (if xs = [] then Inl IndexError else Inr (last xs))"

definition compare_windows ::
  "pyfloat \<Rightarrow> nat \<Rightarrow> seq \<Rightarrow> nat \<Rightarrow> seq \<Rightarrow> nat \<Rightarrow> nat \<Rightarrow> nat \<Rightarrow> near_miss list py" where
  "compare_windows threshold seg_a seq_a seg_b seq_b w start_a start_b =
     (let window_a = take w (drop start_a seq_a); window_b = take w (drop start_b seq_b);
          sim = sequence_similarity window_a window_b
      in if fl_le threshold sim \<and> fl_lt sim (fl_ratio 1 1)
         then (let (diffs_a, diffs_b) = get_diff_regions window_a window_b
               in py_bind (py_nth window_a 0) (\<lambda>a0. py_bind (py_last window_a) (\<lambda>a1.
                  py_bind (py_nth window_b 0) (\<lambda>b0. py_bind (py_last window_b) (\<lambda>b1.
                  Inr [\<lparr>nm_seg_a = seg_a, nm_start_a = fst a0, nm_end_a = fst a1,
                        nm_seg_b = seg_b, nm_start_b = fst b0, nm_end_b = fst b1,
                        nm_similarity = fl_round4 sim, nm_length = w,
                        nm_diffs_a = diffs_a, nm_diffs_b = diffs_b\<rparr>])))))
         else Inr [])"

definition window_pairs ::
  "pyfloat \<Rightarrow> nat \<Rightarrow> seq \<Rightarrow> nat \<Rightarrow> seq \<Rightarrow> nat \<Rightarrow> near_miss list py" where
  "window_pairs threshold seg_a seq_a seg_b seq_b w =
     (if length seq_a < w \<or> length seq_b < w then Inr []
      else py_flatmap (\<lambda>start_a.
             py_flatmap (\<lambda>start_b.
               if seg_a = seg_b \<and> \<not> (start_a + w \<le> start_b \<or> start_b + w \<le> start_a) then Inr []
               else compare_windows threshold seg_a seq_a seg_b seq_b w start_a start_b)
             [(if seg_a = seg_b then start_a + 1 else 0)..<length seq_b - w + 1])
           [0..<length seq_a - w + 1])"

definition fn_level :: "(nat, jseg) dict \<Rightarrow> nat \<Rightarrow> bool" where
  "fn_level by_id i =
     ((case dict_get by_id i of None \<Rightarrow> [] | Some s \<Rightarrow> get_opt (js_type s) [])
        \<in> {''function'', ''root'', ''class''})"

fun segment_pairs :: "nat list \<Rightarrow> (nat \<times> nat) list" where
  "segment_pairs [] = []"
| "segment_pairs (a # ids) = map (\<lambda>b. (a, b)) (a # ids) @ segment_pairs ids"

definition near_miss_pairs ::
  "pyfloat \<Rightarrow> nat \<Rightarrow> nat list \<Rightarrow> (nat \<times> nat) list \<Rightarrow> (nat, jseg) dict \<Rightarrow> (nat, seq) dict \<Rightarrow>
     near_miss list py" where
  "near_miss_pairs threshold min_length window_sizes exclude by_id sequences =
     py_flatmap (\<lambda>(a, b).
       py_bind (py_item sequences a) (\<lambda>seq_a.
       py_bind (py_item sequences b) (\<lambda>seq_b.
         if length seq_a < min_length \<or> \<not> fn_level by_id a
            \<or> length seq_b < min_length \<or> \<not> fn_level by_id b
            \<or> (min a b, max a b) \<in> set exclude
         then Inr []
         else py_flatmap (window_pairs threshold a seq_a b seq_b) window_sizes)))
     (segment_pairs (sort (dict_keys sequences)))"

definition default_windows :: "nat \<Rightarrow> (nat, seq) dict \<Rightarrow> nat list" where
  "default_windows min_length sequences =
     (let lens = filter (\<lambda>n. n \<noteq> 0) (map (length \<circ> snd) sequences);
          max_seq = (if lens = [] then min_length else Max (set lens))
      in [min_length..<min 11 (max_seq + 1)])"

section \<open>Filters\<close>

text \<open>\<open>list.sort(key=...)\<close> is stable; the order is given by its strict comparison.\<close>

fun insert_by :: "('a \<Rightarrow> 'a \<Rightarrow> bool) \<Rightarrow> 'a \<Rightarrow> 'a list \<Rightarrow> 'a list" where
  "insert_by lt x [] = [x]"
| "insert_by lt x (y # ys) = (if lt y x then y # insert_by lt x ys else x # y # ys)"

definition sort_by :: "('a \<Rightarrow> 'a \<Rightarrow> bool) \<Rightarrow> 'a list \<Rightarrow> 'a list" where
  "sort_by lt xs = foldr (insert_by lt) xs []"

text \<open>\<open>(-length, -similarity)\<close> and \<open>(-similarity, -length)\<close>.\<close>

definition longer_first :: "near_miss \<Rightarrow> near_miss \<Rightarrow> bool" where
  "longer_first c d \<longleftrightarrow> nm_length d < nm_length c
     \<or> nm_length c = nm_length d \<and> fl_lt (nm_similarity d) (nm_similarity c)"

definition closer_first :: "near_miss \<Rightarrow> near_miss \<Rightarrow> bool" where
  "closer_first c d \<longleftrightarrow> fl_lt (nm_similarity d) (nm_similarity c)
     \<or> fl_eq (nm_similarity c) (nm_similarity d) \<and> nm_length d < nm_length c"

definition subsumes :: "near_miss \<Rightarrow> near_miss \<Rightarrow> bool" where
  "subsumes big small \<longleftrightarrow>
     nm_seg_a big = nm_seg_a small \<and> nm_seg_b big = nm_seg_b small
     \<and> nm_start_a big \<le> nm_start_a small \<and> nm_end_a small \<le> nm_end_a big
     \<and> nm_start_b big \<le> nm_start_b small \<and> nm_end_b small \<le> nm_end_b big"

definition maximal_pairs :: "near_miss list \<Rightarrow> near_miss list" where
  "maximal_pairs pairs =
     fold (\<lambda>cp maximal. if list_ex (\<lambda>m. subsumes m cp) maximal then maximal else maximal @ [cp])
       (sort_by longer_first pairs) []"

definition pair_key :: "near_miss \<Rightarrow> nat \<times> nat" where
  "pair_key cp = (min (nm_seg_a cp) (nm_seg_b cp), max (nm_seg_a cp) (nm_seg_b cp))"

definition best_step :: "near_miss \<Rightarrow> (nat \<times> nat, near_miss) dict \<Rightarrow> (nat \<times> nat, near_miss) dict" where
  "best_step cp d =
     (case dict_get d (pair_key cp) of
        None \<Rightarrow> dict_set (pair_key cp) cp d
      | Some prev \<Rightarrow> if longer_first cp prev then dict_set (pair_key cp) cp d else d)"

definition best_pairs :: "near_miss list \<Rightarrow> near_miss list" where
  "best_pairs pairs = map snd (fold best_step pairs [])"

definition diff_ratio_ok :: "near_miss \<Rightarrow> bool py" where
  "diff_ratio_ok cp =
     py_bind (int_true_div (int (max (length (nm_diffs_a cp)) (length (nm_diffs_b cp))))
                (int (nm_length cp)))
       (\<lambda>r. Inr (fl_le r (fl_ratio 1 2)))"

fun py_filter :: "('a \<Rightarrow> bool py) \<Rightarrow> 'a list \<Rightarrow> 'a list py" where
  "py_filter f [] = Inr []"
| "py_filter f (x # xs) =
     py_bind (f x) (\<lambda>b. py_bind (py_filter f xs) (\<lambda>ys. Inr (if b then x # ys else ys)))"

section \<open>Symmetric pairs and the data of their segments\<close>

record t3_side =
  sd_seg :: nat
  sd_start :: nat
  sd_end :: nat
  sd_scope :: string
  sd_file :: string
  sd_language :: string
  sd_stmts :: "string list"
  sd_diffs :: "nat list"

record t3_pair =
  tp_a :: t3_side
  tp_b :: t3_side
  tp_similarity :: pyfloat
  tp_length :: nat

definition side_of :: "(nat, jseg) dict \<Rightarrow> nat \<Rightarrow> nat \<Rightarrow> nat \<Rightarrow> nat list \<Rightarrow> t3_side py" where
  "side_of by_id seg_id start stop diffs =
     py_bind (py_item by_id seg_id) (\<lambda>s.
       Inr \<lparr>sd_seg = seg_id, sd_start = start, sd_end = stop,
            sd_scope = get_opt (js_scope_path s) [], sd_file = get_opt (js_file s) [],
            sd_language = get_opt (js_language s) ''c'',
            sd_stmts = map (\<lambda>i. get_raw (js_stmts s ! i))
                         (filter (\<lambda>i. i < length (js_stmts s)) [start..<Suc stop]),
            sd_diffs = diffs\<rparr>)"

definition dedup_step ::
  "(nat, jseg) dict \<Rightarrow> near_miss \<Rightarrow> (nat \<times> nat \<times> nat \<times> nat) list \<times> t3_pair list \<Rightarrow>
     ((nat \<times> nat \<times> nat \<times> nat) list \<times> t3_pair list) py" where
  "dedup_step by_id cp = (\<lambda>(seen_regions, filtered).
     let key = (nm_seg_a cp, nm_start_a cp, nm_seg_b cp, nm_start_b cp);
         rev_key = (nm_seg_b cp, nm_start_b cp, nm_seg_a cp, nm_start_a cp)
     in if key \<notin> set seen_regions \<and> rev_key \<notin> set seen_regions
        then py_bind (side_of by_id (nm_seg_a cp) (nm_start_a cp) (nm_end_a cp) (nm_diffs_a cp)) (\<lambda>sa.
             py_bind (side_of by_id (nm_seg_b cp) (nm_start_b cp) (nm_end_b cp) (nm_diffs_b cp)) (\<lambda>sb.
             Inr (seen_regions @ [key],
                  filtered @ [\<lparr>tp_a = sa, tp_b = sb, tp_similarity = nm_similarity cp,
                               tp_length = nm_length cp\<rparr>])))
        else Inr (seen_regions, filtered))"


definition filter_pairs :: "(nat, jseg) dict \<Rightarrow> near_miss list \<Rightarrow> t3_pair list py" where
  "filter_pairs by_id pairs =
     py_bind (py_filter diff_ratio_ok (best_pairs (maximal_pairs pairs))) (\<lambda>kept.
     py_bind (py_fold (dedup_step by_id) (sort_by closer_first kept) ([], [])) (\<lambda>(_, filtered).
     Inr filtered))"

section \<open>Clusters\<close>

text \<open>The state of the first loop: parents, best similarity and occurrence per segment.\<close>

record cluster_state =
  cl_parent :: "(nat, nat) dict"
  cl_best :: "(nat, pyfloat) dict"
  cl_occ :: "(nat, t3_side) dict"

definition note_side :: "pyfloat \<Rightarrow> t3_side \<Rightarrow> cluster_state \<Rightarrow> cluster_state" where
  "note_side sim side st =
     (if (case dict_get (cl_best st) (sd_seg side) of None \<Rightarrow> True | Some best \<Rightarrow> fl_lt best sim)
      then st\<lparr>cl_best := dict_set (sd_seg side) sim (cl_best st),
              cl_occ := dict_set (sd_seg side) side (cl_occ st)\<rparr>
      else st)"

definition cluster_step :: "t3_pair \<Rightarrow> cluster_state \<Rightarrow> cluster_state option" where
  "cluster_step cp st =
     (case uf_union (sd_seg (tp_a cp)) (sd_seg (tp_b cp)) (cl_parent st) of
        None \<Rightarrow> None
      | Some p \<Rightarrow> Some (note_side (tp_similarity cp) (tp_b cp)
                         (note_side (tp_similarity cp) (tp_a cp) (st\<lparr>cl_parent := p\<rparr>))))"

definition component_step ::
  "t3_pair \<Rightarrow> (nat, nat) dict \<times> (nat, nat list) dict \<Rightarrow> ((nat, nat) dict \<times> (nat, nat list) dict) option" where
  "component_step cp = (\<lambda>(p, components).
     case find_root (sd_seg (tp_a cp)) p of
       None \<Rightarrow> None
     | Some (root, p) \<Rightarrow>
         Some (p, dict_add root (sd_seg (tp_b cp)) (dict_add root (sd_seg (tp_a cp)) components)))"

definition class_pair_step ::
  "t3_pair \<Rightarrow> (nat, nat) dict \<times> (nat, t3_pair list) dict \<Rightarrow>
     ((nat, nat) dict \<times> (nat, t3_pair list) dict) option" where
  "class_pair_step cp = (\<lambda>(p, class_pairs).
     case find_root (sd_seg (tp_a cp)) p of
       None \<Rightarrow> None
     | Some (root, p) \<Rightarrow> Some (p, dict_append root cp class_pairs))"

record t3_class =
  t3_id :: nat
  t3_cross :: bool
  t3_count :: nat
  t3_sim_min :: pyfloat
  t3_sim_max :: pyfloat
  t3_sim :: pyfloat
  t3_length :: nat
  t3_occs :: "t3_side list"

text \<open>\<open>min([])\<close> raises; a component always has a pair.\<close>

definition t3_class_of ::
  "(nat, t3_side) dict \<Rightarrow> (nat, t3_pair list) dict \<Rightarrow> nat \<times> nat list \<Rightarrow> t3_class list py" where
  "t3_class_of seg_occurrence class_pairs = (\<lambda>(root, seg_ids).
     let pairs = dict_get_list class_pairs root;
         sims = map tp_similarity pairs; lengths = map tp_length pairs;
         occs = List.map_filter (dict_get seg_occurrence) (sort seg_ids)
     in if length occs < 2 then Inr []
        else case sims of
          [] \<Rightarrow> Inl (ValueError ''min() iterable argument is empty'')
        | s # ss \<Rightarrow>
            Inr [\<lparr>t3_id = 0, t3_cross = (1 < length (remdups (map sd_language occs))),
                  t3_count = length occs, t3_sim_min = fl_round4 (fl_min s ss),
                  t3_sim_max = fl_round4 (fl_max s ss), t3_sim = fl_round4 (fl_max s ss),
                  t3_length = Max (set lengths), t3_occs = occs\<rparr>])"

definition cluster_pairs :: "t3_pair list \<Rightarrow> t3_class list py" where
  "cluster_pairs filtered =
     (case opt_fold cluster_step filtered \<lparr>cl_parent = [], cl_best = [], cl_occ = []\<rparr> of
        None \<Rightarrow> Inl RecursionError
      | Some st \<Rightarrow>
         (case opt_fold component_step filtered (cl_parent st, []) of
            None \<Rightarrow> Inl RecursionError
          | Some (p, components) \<Rightarrow>
             (case opt_fold class_pair_step filtered (p, []) of
                None \<Rightarrow> Inl RecursionError
              | Some (_, class_pairs) \<Rightarrow>
                  py_bind (py_flatmap (t3_class_of (cl_occ st) class_pairs)
                             (sort_key (\<lambda>(root, ids). - int (length ids)) components)) (\<lambda>classes.
                  Inr (map (\<lambda>(i, c). c\<lparr>t3_id := i\<rparr>) (enumerate 1 classes))))))"

section \<open>The whole pass\<close>

definition detect_type3 ::
  "(string \<Rightarrow> string) \<Rightarrow> jseg list \<Rightarrow> pyfloat \<Rightarrow> nat \<Rightarrow> nat list option \<Rightarrow> (nat \<times> nat) list \<Rightarrow>
     t3_class list py" where
  "detect_type3 digest segments threshold min_length window_sizes exclude =
     (let by_id = jseg_index segments
      in py_bind (build_flat_sequences digest segments) (\<lambda>(sequences, _).
         let sizes = (case window_sizes of None \<Rightarrow> default_windows min_length sequences | Some ws \<Rightarrow> ws)
         in py_bind (near_miss_pairs threshold min_length sizes exclude by_id sequences) (\<lambda>pairs.
            py_bind (filter_pairs by_id pairs) (\<lambda>filtered.
            cluster_pairs filtered))))"

end
