(* ===== verification/CloneFacts.thy ===== *)
theory CloneFacts
  imports Clones "HOL-Library.Multiset"
begin

text \<open>
  What \<open>detect_clones\<close> reports: the layout of the flat list (one block of entries per segment), the
  occurrence of a run, soundness of the clone classes, completeness before the filters, and what the
  subsumption filter may drop.
\<close>

section \<open>The layout of the flat list\<close>

abbreviation entries :: "flat_entry option list \<Rightarrow> flat_entry list" where
  "entries flat \<equiv> List.map_filter (\<lambda>e. e) flat"

lemma entries_append: "entries (xs @ ys) = entries xs @ entries ys"
  by (simp add: List.map_filter_def)

lemma entries_Some [simp]: "entries (map Some es) = es"
  by (induction es) (simp_all add: List.map_filter_def)

type_synonym layout = "(nat \<times> flat_entry list) list"

definition block_flat :: "nat \<times> flat_entry list \<Rightarrow> flat_entry option list" where
  "block_flat = (\<lambda>(i, es). map Some es @ [None])"

definition block_ok :: "nat \<times> flat_entry list \<Rightarrow> bool" where
  "block_ok = (\<lambda>(i, es). \<forall>k<length es. fe_seg (es ! k) = i \<and> fe_idx (es ! k) = k)"

definition laid_out :: "flat_entry option list \<Rightarrow> layout \<Rightarrow> bool" where
  "laid_out flat L \<longleftrightarrow> flat = concat (map block_flat L) \<and> distinct (map fst L) \<and> (\<forall>b\<in>set L. block_ok b)"

lemma laid_out_Cons:
  "laid_out flat ((i, es) # L) \<longleftrightarrow> (\<exists>flat'. flat = map Some es @ None # flat' \<and> laid_out flat' L)
     \<and> i \<notin> fst ` set L \<and> block_ok (i, es)"
  by (auto simp: laid_out_def block_flat_def)

lemma entry_located:
  "laid_out flat L \<Longrightarrow> a < length flat \<Longrightarrow> flat ! a = Some e \<Longrightarrow>
     \<exists>es. (fe_seg e, es) \<in> set L \<and> fe_idx e < length es \<and> es ! fe_idx e = e"
proof (induction L arbitrary: flat a)
  case Nil
  then show ?case by (simp add: laid_out_def)
next
  case (Cons b L)
  obtain i es where b: "b = (i, es)" by (cases b)
  from Cons.prems(1) obtain flat' where flat: "flat = map Some es @ None # flat'"
    and rest: "laid_out flat' L" and ok: "block_ok (i, es)"
    unfolding b laid_out_Cons by blast
  show ?case
  proof (cases "a < length es")
    case True
    with Cons.prems(3) flat have "es ! a = e" by (simp add: nth_append)
    with ok True have "fe_seg e = i" "fe_idx e = a" by (auto simp: block_ok_def)
    with True \<open>es ! a = e\<close> b show ?thesis by auto
  next
    case False
    with Cons.prems(3) flat have "a \<noteq> length es" by (auto simp: nth_append)
    with False obtain k where a: "a = length es + Suc k"
      by (metis add_Suc_right less_imp_Suc_add not_less_iff_gr_or_eq)
    with Cons.prems flat have "flat' ! k = Some e" "k < length flat'" by (simp_all add: nth_append)
    from Cons.IH [OF rest this(2,1)] show ?thesis by auto
  qed
qed

lemma entries_adjacent:
  "laid_out flat L \<Longrightarrow> Suc a < length flat \<Longrightarrow> flat ! a = Some e \<Longrightarrow> flat ! Suc a = Some e' \<Longrightarrow>
     fe_seg e' = fe_seg e \<and> fe_idx e' = Suc (fe_idx e)"
proof (induction L arbitrary: flat a)
  case Nil
  then show ?case by (simp add: laid_out_def)
next
  case (Cons b L)
  obtain i es where b: "b = (i, es)" by (cases b)
  from Cons.prems(1) obtain flat' where flat: "flat = map Some es @ None # flat'"
    and rest: "laid_out flat' L" and ok: "block_ok (i, es)"
    unfolding b laid_out_Cons by blast
  show ?case
  proof (cases "a < length es")
    case True
    with Cons.prems(4) flat have "Suc a \<noteq> length es" by (auto simp: nth_append)
    with True have lt: "Suc a < length es" by simp
    with Cons.prems(3,4) flat have "es ! a = e" "es ! Suc a = e'" by (simp_all add: nth_append)
    with ok lt True show ?thesis by (auto simp: block_ok_def)
  next
    case False
    with Cons.prems(3) flat have "a \<noteq> length es" by (auto simp: nth_append)
    with False obtain k where a: "a = length es + Suc k"
      by (metis add_Suc_right less_imp_Suc_add not_less_iff_gr_or_eq)
    with Cons.prems flat have "flat' ! k = Some e" "Suc k < length flat'" "flat' ! Suc k = Some e'"
      by (simp_all add: nth_append)
    from Cons.IH [OF rest this(2,1,3)] show ?thesis .
  qed
qed

lemma block_entries_seg: "block_ok (i, es) \<Longrightarrow> e \<in> set es \<Longrightarrow> fe_seg e = i"
  by (auto simp: block_ok_def in_set_conv_nth)

lemma entries_of_block:
  "laid_out flat L \<Longrightarrow> (i, es) \<in> set L \<Longrightarrow> filter (\<lambda>e. fe_seg e = i) (entries flat) = es"
proof (induction L arbitrary: flat)
  case (Cons b L)
  obtain j fs where b: "b = (j, fs)" by (cases b)
  from Cons.prems(1) obtain flat' where flat: "flat = map Some fs @ None # flat'"
    and rest: "laid_out flat' L" and ok: "block_ok (j, fs)" and j: "j \<notin> fst ` set L"
    unfolding b laid_out_Cons by blast
  have split: "entries flat = fs @ entries flat'"
  proof -
    have "entries flat = entries (map Some fs) @ entries (None # flat')"
      unfolding flat by (rule entries_append)
    moreover have "entries (None # flat') = entries flat'" by (simp add: List.map_filter_def)
    ultimately show ?thesis by (simp only: entries_Some)
  qed
  have none: "filter (\<lambda>e. fe_seg e = k) (entries flat') = []" if "k \<notin> fst ` set L" for k
  proof -
    have "fe_seg e \<in> fst ` set L" if "e \<in> set (entries flat')" for e
    proof -
      from that obtain a where "a < length flat'" "flat' ! a = Some e"
        by (auto simp: List.map_filter_def in_set_conv_nth)
      from entry_located [OF rest this] show ?thesis by force
    qed
    with that show ?thesis by (auto simp: filter_empty_conv)
  qed
  have all: "filter (\<lambda>e. fe_seg e = j) fs = fs"
    using block_entries_seg [OF ok] by (simp add: filter_id_conv)
  show ?case
  proof (cases "(i, es) = (j, fs)")
    case True
    with split all none j show ?thesis by auto
  next
    case False
    with Cons.prems(2) b have mem: "(i, es) \<in> set L" by auto
    then have "i \<noteq> j" using j by force
    then have "filter (\<lambda>e. fe_seg e = i) fs = []"
      using block_entries_seg [OF ok] by (auto simp: filter_empty_conv)
    with split Cons.IH [OF rest mem] show ?thesis by simp
  qed
qed (simp add: laid_out_def)

lemma entry_position_unique:
  "laid_out flat L \<Longrightarrow> a < length flat \<Longrightarrow> a' < length flat \<Longrightarrow> flat ! a = Some e \<Longrightarrow>
     flat ! a' = Some e' \<Longrightarrow> fe_seg e = fe_seg e' \<Longrightarrow> fe_idx e = fe_idx e' \<Longrightarrow> a = a'"
proof (induction L arbitrary: flat a a')
  case Nil
  then show ?case by (simp add: laid_out_def)
next
  case (Cons b L)
  obtain i es where b: "b = (i, es)" by (cases b)
  from Cons.prems(1) obtain flat' where flat: "flat = map Some es @ None # flat'"
    and rest: "laid_out flat' L" and ok: "block_ok (i, es)" and i: "i \<notin> fst ` set L"
    unfolding b laid_out_Cons by blast
  have here: "fe_seg f = i \<and> fe_idx f = k" if "k < length es" "flat ! k = Some f" for k f
    using that ok flat by (auto simp: block_ok_def nth_append)
  have there: "\<exists>k'. k = length es + Suc k' \<and> k' < length flat' \<and> flat' ! k' = Some f \<and> fe_seg f \<noteq> i"
    if "\<not> k < length es" "k < length flat" "flat ! k = Some f" for k f
  proof -
    from that flat have "k \<noteq> length es" by (auto simp: nth_append)
    with that(1) obtain k' where k: "k = length es + Suc k'"
      by (metis add_Suc_right less_imp_Suc_add not_less_iff_gr_or_eq)
    with that flat have k': "flat' ! k' = Some f" "k' < length flat'" by (simp_all add: nth_append)
    from entry_located [OF rest k'(2,1)] i have "fe_seg f \<noteq> i" by force
    with k k' show ?thesis by blast
  qed
  show ?case
  proof (cases "a < length es")
    case True
    with here [OF True Cons.prems(4)] there [OF _ Cons.prems(3,5)] Cons.prems(6)
    have a': "a' < length es" by fastforce
    from here [OF True Cons.prems(4)] here [OF a' Cons.prems(5)] Cons.prems(7) show ?thesis by simp
  next
    case False
    from there [OF False Cons.prems(2,4)] obtain k where k: "a = length es + Suc k"
      "k < length flat'" "flat' ! k = Some e" "fe_seg e \<noteq> i" by blast
    with here Cons.prems(5,6) have "\<not> a' < length es" by fastforce
    from there [OF this Cons.prems(3,5)] obtain k' where k': "a' = length es + Suc k'"
      "k' < length flat'" "flat' ! k' = Some e'" by blast
    from Cons.IH [OF rest k(2) k'(2) k(3) k'(3) Cons.prems(6,7)] k k' show ?thesis by simp
  qed
qed


section \<open>The occurrence of a run\<close>

definition run_ok :: "flat_entry option list \<Rightarrow> nat \<Rightarrow> nat \<Rightarrow> bool" where
  "run_ok flat a n \<longleftrightarrow> 0 < n \<and> (\<forall>k<n. \<exists>e. a + k < length flat \<and> flat ! (a + k) = Some e)"

definition occ_of :: "flat_entry option list \<Rightarrow> nat \<Rightarrow> nat \<Rightarrow> occ" where
  "occ_of flat a n =
     (case flat ! a of None \<Rightarrow> (0, 0, 0) | Some e \<Rightarrow> (fe_seg e, fe_idx e, fe_idx e + n - 1))"

lemma layout_functional: "laid_out flat L \<Longrightarrow> (i, es) \<in> set L \<Longrightarrow> (i, es') \<in> set L \<Longrightarrow> es = es'"
  unfolding laid_out_def by (meson eq_key_imp_eq_value)

lemma run_entries:
  assumes lay: "laid_out flat L" and run: "run_ok flat a n" and e: "flat ! a = Some e"
    and es: "(fe_seg e, es) \<in> set L"
  shows "k < n \<Longrightarrow> fe_idx e + k < length es \<and> flat ! (a + k) = Some (es ! (fe_idx e + k))"
proof (induction k)
  case 0
  with run have "a < length flat" by (auto simp: run_ok_def)
  from entry_located [OF lay this e] es layout_functional [OF lay] e show ?case by fastforce
next
  case (Suc k)
  then have IH: "fe_idx e + k < length es" "flat ! (a + k) = Some (es ! (fe_idx e + k))" by auto
  have ok: "block_ok (fe_seg e, es)" using lay es by (auto simp: laid_out_def)
  from run Suc.prems obtain e' where e': "Suc (a + k) < length flat" "flat ! Suc (a + k) = Some e'"
    unfolding run_ok_def by fastforce
  from entries_adjacent [OF lay e'(1) IH(2) e'(2)] ok IH(1)
  have "fe_seg e' = fe_seg e" "fe_idx e' = Suc (fe_idx e + k)" by (auto simp: block_ok_def)
  with entry_located [OF lay e'] es layout_functional [OF lay] e'(2) show ?case by fastforce
qed

lemma run_occurrence:
  assumes lay: "laid_out flat L" and run: "run_ok flat a n"
  obtains i es st where "(i, es) \<in> set L" "st + n \<le> length es" "occ_of flat a n = (i, st, st + n - 1)"
    "take n (drop a flat) = map Some (take n (drop st es))"
    "occ_entries flat (occ_of flat a n) = take n (drop st es)"
    "flat_range_to_occurrence flat a n = Inr (occ_of flat a n)"
proof -
  from run obtain e where a: "a < length flat" and e: "flat ! a = Some e" and n: "0 < n"
    unfolding run_ok_def by (metis add_0_right)
  from entry_located [OF lay a e] obtain es where es: "(fe_seg e, es) \<in> set L" by blast
  note ents = run_entries [OF lay run e es]
  let ?st = "fe_idx e"
  have ok: "block_ok (fe_seg e, es)" using lay es by (auto simp: laid_out_def)
  have len: "?st + n \<le> length es" using ents [of "n - 1"] n by auto
  have alen: "a + n \<le> length flat" using run n unfolding run_ok_def
    by (metis Suc_diff_1 Suc_leI add_Suc_right diff_less less_numeral_extra(1))
  have slice: "take n (drop a flat) = map Some (take n (drop ?st es))"
    by (rule nth_equalityI) (use len alen ents in \<open>auto simp: add.commute\<close>)
  have occ: "occ_of flat a n = (fe_seg e, ?st, ?st + n - 1)" by (simp add: occ_of_def e)
  have window: "filter (\<lambda>e. lo \<le> fe_idx e \<and> fe_idx e \<le> lo + n - 1) es = take n (drop lo es)"
    if "lo + n \<le> length es" for lo
  proof -
    let ?P = "\<lambda>e. lo \<le> fe_idx e \<and> fe_idx e \<le> lo + n - 1"
    define A M B where "A = take lo es" and "M = take n (drop lo es)" and "B = drop n (drop lo es)"
    have es: "es = A @ M @ B" unfolding A_def M_def B_def by (metis append_take_drop_id)
    have idx: "k < length es \<Longrightarrow> fe_idx (es ! k) = k" for k using ok by (auto simp: block_ok_def)
    have "x \<in> set A \<Longrightarrow> fe_idx x < lo" for x
      using that idx by (auto simp: A_def in_set_conv_nth)
    moreover have "x \<in> set M \<Longrightarrow> lo \<le> fe_idx x \<and> fe_idx x \<le> lo + n - 1" for x
      using that idx by (auto simp: M_def in_set_conv_nth)
    moreover have "x \<in> set B \<Longrightarrow> lo + n \<le> fe_idx x" for x
      using that idx by (auto simp: B_def in_set_conv_nth)
    ultimately have "filter ?P A = []" "filter ?P M = M" "filter ?P B = []"
      using n by (force simp: filter_empty_conv filter_id_conv)+
    then have "filter ?P (A @ M @ B) = M" by simp
    moreover have "filter ?P es = filter ?P (A @ M @ B)" using es by (rule arg_cong)
    ultimately show ?thesis unfolding M_def by (rule trans [rotated])
  qed
  have "occ_entries flat (occ_of flat a n)
      = filter (\<lambda>e. ?st \<le> fe_idx e \<and> fe_idx e \<le> ?st + n - 1)
          (filter (\<lambda>x. fe_seg x = fe_seg e) (entries flat))"
    unfolding occ by (simp add: occ_entries_def conj_ac)
  also have "\<dots> = take n (drop ?st es)"
    by (simp only: entries_of_block [OF lay es] window [OF len])
  finally have oe: "occ_entries flat (occ_of flat a n) = take n (drop ?st es)" .
  have "flat ! (a + n - 1) = Some (es ! (?st + n - 1))" "?st + n - 1 < length es"
    using ents [of "n - 1"] n by (simp_all add: Nat.add_diff_assoc)
  moreover from this have "fe_idx (es ! (?st + n - 1)) = ?st + n - 1" using ok by (auto simp: block_ok_def)
  moreover have "a + n - 1 < length flat" using alen n by simp
  ultimately have "flat_range_to_occurrence flat a n = Inr (occ_of flat a n)"
    using e a by (simp add: flat_range_to_occurrence_def flat_at_def py_nth_def occ)
  with that [OF es len occ slice oe] show thesis by blast
qed


section \<open>Building the flat list\<close>

lemma fill_flat_total:
  "list_all (\<lambda>c. dict_get types c \<noteq> None) cs \<Longrightarrow>
     \<exists>norm' norm1' cs'. fill_flat t2 types norm norm1 cs = Inr (norm', norm1', cs')
       \<and> list_all (\<lambda>c. dict_get types c \<noteq> None) cs' \<and> (\<not> t2 \<longrightarrow> norm = norm1 \<longrightarrow> norm' = norm1')"
proof (induction cs arbitrary: norm norm1)
  case (Cons c cs)
  show ?case
  proof (cases "str_contains norm1 ''{}''")
    case True
    from Cons.prems obtain t where t: "dict_get types c = Some t" by auto
    let ?n1 = "replace1 norm1 ''{}'' (block_tag t)"
    let ?n = "if t2 then (if str_contains norm ''{ }'' then replace1 norm ''{ }'' (block_tag t)
                          else replace1 norm ''{}'' (block_tag t)) else ?n1"
    have step: "fill_flat t2 types norm norm1 (c # cs) = fill_flat t2 types ?n ?n1 cs"
      using True t by (simp add: py_item_def Let_def)
    obtain n' m' cs' where ih: "fill_flat t2 types ?n ?n1 cs = Inr (n', m', cs')"
      "list_all (\<lambda>c. dict_get types c \<noteq> None) cs'" "\<not> t2 \<longrightarrow> ?n = ?n1 \<longrightarrow> n' = m'"
      using Cons.IH [of ?n ?n1] Cons.prems by auto
    show ?thesis unfolding step ih(1) using ih(2,3) by auto
  qed (use Cons.prems in auto)
qed simp

lemma flat_stmts_spec:
  "list_all (\<lambda>c. dict_get types c \<noteq> None) cs \<Longrightarrow>
     \<exists>es. flat_stmts t2 types i k ss cs = Inr (map Some es) \<and> length es = length ss
       \<and> (\<forall>j<length es. fe_seg (es ! j) = i \<and> fe_idx (es ! j) = k + j)
       \<and> (\<not> t2 \<longrightarrow> list_all (\<lambda>e. fe_norm e = fe_norm1 e) es)"
proof (induction ss arbitrary: k cs)
  case (Cons s ss)
  let ?norm1 = "normalize_stmt (get_raw s)"
  let ?norm = "if t2 then normalize_stmt_type2 (get_raw s) else ?norm1"
  obtain norm' norm1' cs' where fill: "fill_flat t2 types ?norm ?norm1 cs = Inr (norm', norm1', cs')"
    and cs': "list_all (\<lambda>c. dict_get types c \<noteq> None) cs'" and eq: "\<not> t2 \<Longrightarrow> norm' = norm1'"
    using fill_flat_total [OF Cons.prems, of t2 ?norm ?norm1] by auto
  obtain es where es: "flat_stmts t2 types i (Suc k) ss cs' = Inr (map Some es)" "length es = length ss"
    "\<forall>j<length es. fe_seg (es ! j) = i \<and> fe_idx (es ! j) = Suc k + j"
    "\<not> t2 \<longrightarrow> list_all (\<lambda>e. fe_norm e = fe_norm1 e) es"
    using Cons.IH [OF cs'] by blast
  let ?e = "\<lparr>fe_seg = i, fe_idx = k, fe_norm = norm', fe_norm1 = norm1'\<rparr>"
  have "flat_stmts t2 types i k (s # ss) cs = Inr (map Some (?e # es))"
    using fill es(1) by (cases t2) (simp_all add: Let_def)
  moreover have "fe_seg ((?e # es) ! j) = i \<and> fe_idx ((?e # es) ! j) = k + j"
    if "j < length (?e # es)" for j
    using that es(3) by (cases j) auto
  moreover have "\<not> t2 \<longrightarrow> list_all (\<lambda>e. fe_norm e = fe_norm1 e) (?e # es)" using es(4) eq by simp
  ultimately show ?case using es(2) by (metis length_Cons)
qed simp

definition types_known :: "(nat, nat) dict \<Rightarrow> jseg list \<Rightarrow> bool" where
  "types_known types segments \<longleftrightarrow> (\<forall>s\<in>set segments. dict_get types (js_id s) \<noteq> None)"

lemma children_known:
  "types_known types segments \<Longrightarrow>
     list_all (\<lambda>c. dict_get types c \<noteq> None) (dict_get_list (children_map segments) p)"
  by (auto simp: types_known_def list_all_iff children_mem)

lemma flat_list_spec:
  assumes "types_known types segments" "distinct (map js_id segments)"
  shows "\<exists>flat L. flat_list t2 types segments = Inr flat \<and> laid_out flat L
    \<and> map (\<lambda>(i, es). (i, length es)) L = map (\<lambda>s. (js_id s, length (js_stmts s))) segments
    \<and> (\<not> t2 \<longrightarrow> (\<forall>b\<in>set L. list_all (\<lambda>e. fe_norm e = fe_norm1 e) (snd b)))"
proof -
  let ?cs = "\<lambda>s. dict_get_list (children_map segments) (js_id s)"
  have "\<forall>s :: jseg. \<exists>es. flat_stmts t2 types (js_id s) 0 (js_stmts s) (?cs s) = Inr (map Some es)
        \<and> length es = length (js_stmts s) \<and> block_ok (js_id s, es)
        \<and> (\<not> t2 \<longrightarrow> list_all (\<lambda>e. fe_norm e = fe_norm1 e) es)"
    using flat_stmts_spec [OF children_known [OF assms(1)], of t2 "js_id s" 0 "js_stmts s" "js_id s" for s]
    by (auto simp: block_ok_def)
  from choice [OF this] obtain es where es: "\<And>s :: jseg. flat_stmts t2 types (js_id s) 0 (js_stmts s) (?cs s) = Inr (map Some (es s))"
    "\<And>s. length (es s) = length (js_stmts s)" "\<And>s. block_ok (js_id s, es s)"
    "\<And>s. \<not> t2 \<Longrightarrow> list_all (\<lambda>e. fe_norm e = fe_norm1 e) (es s)"
    by auto
  let ?L = "map (\<lambda>s. (js_id s, es s)) segments"
  have "py_seq (map (\<lambda>seg. py_bind (flat_stmts t2 types (js_id seg) 0 (js_stmts seg) (?cs seg))
            (\<lambda>es. Inr (es @ [None]))) segments) = Inr (map block_flat ?L)"
    by (simp add: py_seq_Inr es(1) block_flat_def o_def)
  then have "flat_list t2 types segments = Inr (concat (map block_flat ?L))"
    by (simp add: flat_list_def Let_def)
  moreover have "laid_out (concat (map block_flat ?L)) ?L"
    using assms(2) es(3) by (simp add: laid_out_def o_def)
  moreover have "map (\<lambda>(i, es). (i, length es)) ?L = map (\<lambda>s. (js_id s, length (js_stmts s))) segments"
    by (simp add: es(2))
  ultimately show ?thesis using es(4) by (auto intro!: exI [of _ ?L])
qed

section \<open>Grouping runs into classes\<close>

lemma set_set_add [simp]: "set (set_add x xs) = insert x (set xs)"
  by (auto simp: set_add_def)

lemma distinct_set_add: "distinct xs \<Longrightarrow> distinct (set_add x xs)"
  by (simp add: set_add_def)

lemma dict_add_get:
  "dict_get_list (dict_add k x d) k' = (if k' = k then set_add x (dict_get_list d k) else dict_get_list d k')"
  by (simp add: dict_add_def dict_get_list_def dict_get_set)

lemma dict_add_keys:
  "dict_keys (dict_add k x d) = (if k \<in> set (dict_keys d) then dict_keys d else dict_keys d @ [k])"
  by (simp add: dict_add_def dict_keys_set)

lemma distinct_set_adds: "distinct xs \<Longrightarrow> distinct (fold set_add ys xs)"
  by (induction ys arbitrary: xs) (auto simp: distinct_set_add)

lemma set_set_adds: "set (fold set_add ys xs) = set xs \<union> set ys"
  by (induction ys arbitrary: xs) auto

text \<open>Dictionaries of sets whose members all belong to their key.\<close>

definition grouped :: "('k \<Rightarrow> 'a \<Rightarrow> bool) \<Rightarrow> ('k, 'a list) dict \<Rightarrow> bool" where
  "grouped P d \<longleftrightarrow> distinct (dict_keys d) \<and>
     (\<forall>(k, xs)\<in>set d. distinct xs \<and> (\<forall>x\<in>set xs. P k x))"

lemma grouped_Nil [simp]: "grouped P []"
  by (simp add: grouped_def)

lemma dict_mem_get:
  "distinct (dict_keys d) \<Longrightarrow> (k, v) \<in> set d \<longleftrightarrow> dict_get d k = Some v"
  by simp

lemma grouped_get:
  "grouped P d \<longleftrightarrow> distinct (dict_keys d) \<and>
     (\<forall>k xs. dict_get d k = Some xs \<longrightarrow> distinct xs \<and> (\<forall>x\<in>set xs. P k x))"
  unfolding grouped_def by fastforce

lemma grouped_dict_set:
  "grouped P d \<Longrightarrow> distinct xs \<Longrightarrow> (\<And>x. x \<in> set xs \<Longrightarrow> P k x) \<Longrightarrow> grouped P (dict_set k xs d)"
  unfolding grouped_get by (auto simp: dict_get_set)

lemma grouped_get_list:
  "grouped P d \<Longrightarrow> distinct (dict_get_list d k) \<and> (\<forall>x\<in>set (dict_get_list d k). P k x)"
  by (auto simp: grouped_get dict_get_list_def split: option.splits)

lemma grouped_dict_add: "grouped P d \<Longrightarrow> P k x \<Longrightarrow> grouped P (dict_add k x d)"
  unfolding dict_add_def using grouped_get_list [of P d k]
  by (intro grouped_dict_set) (auto simp: distinct_set_add)

text \<open>An occurrence that lies in a segment and whose statements have a given list of normal forms.\<close>

definition occ_has ::
  "(flat_entry \<Rightarrow> string) \<Rightarrow> flat_entry option list \<Rightarrow> layout \<Rightarrow> string list \<Rightarrow> occ \<Rightarrow> bool" where
  "occ_has f flat L content occ \<longleftrightarrow> map f (occ_entries flat occ) = content
     \<and> (case occ of (i, st, en) \<Rightarrow>
          \<exists>es. (i, es) \<in> set L \<and> st \<le> en \<and> en < length es \<and> length content = Suc en - st)"

lemma occ_has_run:
  assumes lay: "laid_out flat L" and run: "run_ok flat a n"
  shows "occ_has fe_norm flat L (content_tuple flat a n) (occ_of flat a n)"
    and "length (content_tuple flat a n) = n"
    and "flat_range_to_occurrence flat a n = Inr (occ_of flat a n)"
proof -
  from run_occurrence [OF lay run] obtain i es st where r: "(i, es) \<in> set L" "st + n \<le> length es"
    "occ_of flat a n = (i, st, st + n - 1)"
    "take n (drop a flat) = map Some (take n (drop st es))"
    "occ_entries flat (occ_of flat a n) = take n (drop st es)"
    "flat_range_to_occurrence flat a n = Inr (occ_of flat a n)" by blast
  have n: "0 < n" using run by (simp add: run_ok_def)
  have content: "content_tuple flat a n = map fe_norm (take n (drop st es))"
    unfolding content_tuple_def r(4) entries_Some ..
  then show len: "length (content_tuple flat a n) = n" using r(2) by simp
  have "map fe_norm (occ_entries flat (occ_of flat a n)) = content_tuple flat a n"
    unfolding r(5) content ..
  then show "occ_has fe_norm flat L (content_tuple flat a n) (occ_of flat a n)"
    using r(1,2) n len unfolding occ_has_def r(3) by auto
  show "flat_range_to_occurrence flat a n = Inr (occ_of flat a n)" by (rule r(6))
qed

lemma content_tuple_nth:
  assumes lay: "laid_out flat L" and run: "run_ok flat a n" and k: "k < n"
  shows "content_tuple flat a n ! k = fe_norm (the (flat ! (a + k)))"
proof -
  from run_occurrence [OF lay run] obtain i es st where len: "st + n \<le> length es"
    and slice: "take n (drop a flat) = map Some (take n (drop st es))" by blast
  have "take n (drop a flat) ! k = flat ! (a + k)" using run k by (auto simp: run_ok_def)
  moreover have "take n (drop a flat) ! k = Some (es ! (st + k))" unfolding slice using k len by simp
  moreover have "content_tuple flat a n = map fe_norm (take n (drop st es))"
    unfolding content_tuple_def slice entries_Some ..
  ultimately have "content_tuple flat a n ! k = fe_norm (es ! (st + k))"
    and "flat ! (a + k) = Some (es ! (st + k))" using k len by auto
  then show ?thesis by simp
qed

lemma occ_of_inj:
  assumes lay: "laid_out flat L" and "run_ok flat a n" "run_ok flat b n"
    and "occ_of flat a n = occ_of flat b n"
  shows "a = b"
proof -
  from assms(2,3) obtain e e' where "a < length flat" "flat ! a = Some e"
    "b < length flat" "flat ! b = Some e'"
    unfolding run_ok_def by (metis add_0_right)
  with assms(4) entry_position_unique [OF lay] show ?thesis by (auto simp: occ_of_def)
qed

definition pair_ok :: "flat_entry option list \<Rightarrow> nat \<Rightarrow> run \<Rightarrow> bool" where
  "pair_ok flat m = (\<lambda>(a, b, n). a \<noteq> b \<and> m \<le> n \<and> run_ok flat a n \<and> run_ok flat b n
     \<and> content_tuple flat a n = content_tuple flat b n)"

definition two_members :: "'a list \<Rightarrow> bool" where
  "two_members xs \<longleftrightarrow> (\<exists>x\<in>set xs. \<exists>y\<in>set xs. x \<noteq> y)"

lemma two_membersI: "x \<in> set xs \<Longrightarrow> y \<in> set xs \<Longrightarrow> x \<noteq> y \<Longrightarrow> two_members xs"
  unfolding two_members_def by blast

lemma two_members_length: "two_members xs \<Longrightarrow> 2 \<le> length xs"
proof -
  assume "two_members xs"
  then have "card {} < card (set xs) \<and> card (set xs) \<noteq> 1"
    by (auto simp: two_members_def card_gt_0_iff card_1_singleton_iff)
  with card_length [of xs] show ?thesis by simp
qed

definition recorded :: "flat_entry option list \<Rightarrow> (string list, occ list) dict \<Rightarrow> run \<Rightarrow> bool" where
  "recorded flat d = (\<lambda>(a, b, n).
     occ_of flat a n \<in> set (dict_get_list d (content_tuple flat a n))
     \<and> occ_of flat b n \<in> set (dict_get_list d (content_tuple flat a n)))"

definition class_member ::
  "(flat_entry \<Rightarrow> string) \<Rightarrow> flat_entry option list \<Rightarrow> layout \<Rightarrow> nat \<Rightarrow> string list \<Rightarrow> occ \<Rightarrow> bool" where
  "class_member f flat L m k occ \<longleftrightarrow> occ_has f flat L k occ \<and> m \<le> length k \<and> 0 < length k"

definition classes_inv ::
  "flat_entry option list \<Rightarrow> layout \<Rightarrow> nat \<Rightarrow> run list \<Rightarrow> (string list, occ list) dict \<Rightarrow> bool" where
  "classes_inv flat L m runs d \<longleftrightarrow>
     grouped (class_member fe_norm flat L m) d
     \<and> (\<forall>r\<in>set runs. recorded flat d r)
     \<and> (\<forall>k\<in>set (dict_keys d). two_members (dict_get_list d k))"

lemma classes_inv_step:
  assumes lay: "laid_out flat L" and run: "pair_ok flat m (a, b, n)"
    and inv: "classes_inv flat L m runs d"
  shows "classes_inv flat L m (runs @ [(a, b, n)])
           (dict_add (content_tuple flat a n) (occ_of flat b n)
              (dict_add (content_tuple flat a n) (occ_of flat a n) d))"
    (is "classes_inv flat L m _ ?d")
proof -
  let ?k = "content_tuple flat a n"
  from run have ab: "a \<noteq> b" "m \<le> n" and ra: "run_ok flat a n" and rb: "run_ok flat b n"
    and eq: "?k = content_tuple flat b n" by (auto simp: pair_ok_def)
  have n: "0 < n" using ra by (simp add: run_ok_def)
  note A = occ_has_run [OF lay ra] and B = occ_has_run [OF lay rb, folded eq]
  have ne: "occ_of flat a n \<noteq> occ_of flat b n" using occ_of_inj [OF lay ra rb] ab(1) by blast
  have "grouped (class_member fe_norm flat L m) ?d"
    using inv A B ab(2) n by (intro grouped_dict_add) (simp_all add: classes_inv_def class_member_def)
  moreover have "\<forall>r\<in>set (runs @ [(a, b, n)]). recorded flat ?d r"
    using inv by (auto simp: classes_inv_def recorded_def dict_add_get)
  moreover have "two_members (dict_get_list ?d k)" if "k \<in> set (dict_keys ?d)" for k
  proof (cases "k = ?k")
    case True
    show ?thesis by (rule two_membersI [OF _ _ ne]) (simp_all add: dict_add_get True)
  next
    case False
    with that have "k \<in> set (dict_keys d)" by (simp add: dict_add_keys split: if_splits)
    moreover have "\<forall>k\<in>set (dict_keys d). two_members (dict_get_list d k)"
      using inv unfolding classes_inv_def by blast
    ultimately have "two_members (dict_get_list d k)" by blast
    with False show ?thesis by (simp add: dict_add_get)
  qed
  ultimately show ?thesis by (simp add: classes_inv_def)
qed

lemma clone_classes_spec:
  assumes lay: "laid_out flat L" and runs: "\<And>r. r \<in> set runs \<Longrightarrow> pair_ok flat m r"
  shows "\<exists>d. clone_classes flat runs = Inr d \<and> classes_inv flat L m runs d"
  unfolding clone_classes_def
proof (rule py_fold_invariant)
  show "classes_inv flat L m [] []" by (simp add: classes_inv_def)
next
  fix ys and r :: run and d
  assume r: "r \<in> set runs" and inv: "classes_inv flat L m ys d"
  obtain a b n where abn: "r = (a, b, n)" by (cases r)
  note ok = runs [OF r, unfolded abn]
  have "run_ok flat a n" "run_ok flat b n" using ok by (auto simp: pair_ok_def)
  note occ_has_run(3) [OF lay this(1)] occ_has_run(3) [OF lay this(2)]
  with classes_inv_step [OF lay ok inv]
  show "\<exists>d'. (case r of (start_a, start_b, n) \<Rightarrow> \<lambda>classes.
       let content = content_tuple flat start_a n
       in py_bind (flat_range_to_occurrence flat start_a n) (\<lambda>oa.
          py_bind (flat_range_to_occurrence flat start_b n) (\<lambda>ob.
          Inr (dict_add content ob (dict_add content oa classes))))) d = Inr d'
     \<and> classes_inv flat L m (ys @ [r]) d'"
    by (simp add: abn Let_def)
qed

lemma norm_at_Some: "norm_at flat i = Some s \<longleftrightarrow> i < length flat \<and> (\<exists>e. flat ! i = Some e \<and> fe_norm e = s)"
  by (auto simp: norm_at_def)

lemma maximal_run_pair_ok:
  assumes lay: "laid_out flat L" and "maximal_run mf flat (a, b, n)" "m \<le> n"
  shows "pair_ok flat m (a, b, n)"
proof -
  have same: "same_stmt mf flat (a + k) (b + k)" if "k < n" for k
    using assms(2) that by (simp add: maximal_run_def list_all_iff)
  have at: "\<exists>e e'. a + k < length flat \<and> b + k < length flat \<and> flat ! (a + k) = Some e
      \<and> flat ! (b + k) = Some e' \<and> fe_norm e = fe_norm e'" if "k < n" for k
    using same [OF that] by (auto simp: same_stmt_def norm_at_Some split: option.splits)
  have n: "0 < n" and ab: "a \<noteq> b" using assms(2) by (auto simp: maximal_run_def)
  have ra: "run_ok flat a n" and rb: "run_ok flat b n" using at n unfolding run_ok_def by blast+
  have "content_tuple flat a n = content_tuple flat b n"
  proof (rule nth_equalityI)
    show "length (content_tuple flat a n) = length (content_tuple flat b n)"
      using occ_has_run(2) [OF lay] ra rb by simp
    fix k assume "k < length (content_tuple flat a n)"
    then have k: "k < n" using occ_has_run(2) [OF lay ra] by simp
    with at [OF k] show "content_tuple flat a n ! k = content_tuple flat b n ! k"
      by (auto simp: content_tuple_nth [OF lay ra] content_tuple_nth [OF lay rb])
  qed
  with ra rb ab assms(3) show ?thesis by (simp add: pair_ok_def)
qed


section \<open>Exact classes\<close>

definition sized :: "('k, 'a list) dict \<Rightarrow> bool" where
  "sized d \<longleftrightarrow> list_all (\<lambda>kv. 2 \<le> length (snd kv)) d"

lemma occ_has_other:
  "occ_has f flat L k occ \<Longrightarrow> occ_has g flat L (map g (occ_entries flat occ)) occ
     \<and> length (map g (occ_entries flat occ)) = length k"
proof -
  assume has: "occ_has f flat L k occ"
  then have "length (occ_entries flat occ) = length k" unfolding occ_has_def by (metis length_map)
  with has show ?thesis unfolding occ_has_def length_map by (cases occ) simp
qed

lemma class_member_other:
  "class_member f flat L m k occ \<Longrightarrow>
     class_member g flat L m (map g (occ_entries flat occ)) occ"
  unfolding class_member_def using occ_has_other [of f flat L k occ g] by simp

lemma norm1_groups_spec:
  assumes "set (iter occs) = set occs" "\<forall>occ\<in>set occs. class_member fe_norm flat L m k occ"
  shows "grouped (class_member fe_norm1 flat L m) (norm1_groups iter flat occs)"
proof -
  have "grouped (class_member fe_norm1 flat L m)
      (fold (\<lambda>occ d. dict_add (map fe_norm1 (occ_entries flat occ)) occ d) os d)"
    if "grouped (class_member fe_norm1 flat L m) d" "\<forall>occ\<in>set os. class_member fe_norm flat L m k occ"
    for os d
    using that
  proof (induction os arbitrary: d)
    case (Cons occ os)
    from Cons.prems(2)
    have "class_member fe_norm1 flat L m (map fe_norm1 (occ_entries flat occ)) occ"
      using class_member_other [of fe_norm flat L m k occ fe_norm1] by simp
    from Cons.IH [OF grouped_dict_add [OF Cons.prems(1) this]] Cons.prems(2) show ?case by simp
  qed simp
  with assms show ?thesis by (simp add: norm1_groups_def)
qed

lemma sized_dict_set: "sized d \<Longrightarrow> 2 \<le> length v \<Longrightarrow> sized (dict_set k v d)"
  by (induction d) (auto simp: sized_def)

lemma add_type1_spec:
  assumes "grouped P d" "sized d" "distinct occs" "\<forall>occ\<in>set occs. P k occ"
  shows "grouped P (add_type1 (k, occs) d) \<and> sized (add_type1 (k, occs) d)"
proof (cases "2 \<le> length occs")
  case True
  let ?v = "fold set_add occs (dict_get_list d k)"
  note old = grouped_get_list [OF assms(1), of k]
  have "length occs = card (set occs)" using assms(3) by (simp add: distinct_card)
  also have "\<dots> \<le> card (set ?v)" by (rule card_mono) (simp_all add: set_set_adds)
  also have "\<dots> = length ?v" using old by (simp add: distinct_card distinct_set_adds)
  finally have "sized (dict_set k ?v d)" using True assms(2) by (intro sized_dict_set) auto
  moreover have "grouped P (dict_set k ?v d)"
    using old assms by (intro grouped_dict_set) (auto simp: distinct_set_adds set_set_adds)
  ultimately show ?thesis using True by (simp add: add_type1_def)
qed (use assms in \<open>simp add: add_type1_def\<close>)

lemma add_type1_fold:
  "grouped P d \<Longrightarrow> sized d \<Longrightarrow> \<forall>(k, occs)\<in>set g. distinct occs \<and> (\<forall>occ\<in>set occs. P k occ) \<Longrightarrow>
     grouped P (fold add_type1 g d) \<and> sized (fold add_type1 g d)"
proof (induction g arbitrary: d)
  case (Cons kv g)
  obtain k occs where kv: "kv = (k, occs)" by (cases kv)
  from Cons.prems(3) kv have "distinct occs" "\<forall>occ\<in>set occs. P k occ" by auto
  from add_type1_spec [OF Cons.prems(1,2) this] Cons show ?case by (simp add: kv)
qed simp

lemma type1_classes_spec:
  assumes iter: "\<And>xs. set (iter xs) = set xs"
    and d: "grouped (class_member fe_norm flat L m) d"
  shows "grouped (class_member fe_norm1 flat L m) (type1_classes iter flat d)
    \<and> sized (type1_classes iter flat d)"
proof -
  let ?P = "class_member fe_norm1 flat L m"
  have "grouped ?P e' \<and> sized e'"
    if "\<forall>(k, occs)\<in>set kvs. \<forall>occ\<in>set occs. class_member fe_norm flat L m k occ" "grouped ?P e" "sized e"
      "e' = fold (\<lambda>(content, occurrences) d. fold add_type1 (norm1_groups iter flat occurrences) d) kvs e"
    for kvs e e'
    using that
  proof (induction kvs arbitrary: e)
    case (Cons kv kvs)
    obtain k occs where kv: "kv = (k, occs)" by (cases kv)
    from Cons.prems(1) kv have "grouped ?P (norm1_groups iter flat occs)"
      by (intro norm1_groups_spec [where k = k] iter) auto
    then have "\<forall>(k, occs)\<in>set (norm1_groups iter flat occs). distinct occs \<and> (\<forall>occ\<in>set occs. ?P k occ)"
      by (simp add: grouped_def)
    note step = add_type1_fold [OF Cons.prems(2,3) this]
    show ?case by (rule Cons.IH [OF _ conjunct1 [OF step] conjunct2 [OF step]])
      (use Cons.prems kv in auto)
  qed simp
  from this [of d "[]" "type1_classes iter flat d"] d show ?thesis
    by (simp add: type1_classes_def grouped_def sized_def split: prod.splits)
qed

section \<open>Reading the statements of a class\<close>

lemma fill_original_total:
  "list_all (\<lambda>c. dict_get types c \<noteq> None) cs \<Longrightarrow>
     \<exists>s' cs'. fill_original types s cs = Inr (s', cs') \<and> list_all (\<lambda>c. dict_get types c \<noteq> None) cs'"
  by (induction cs arbitrary: s) (auto simp: py_item_def)

lemma hashed_original_total:
  assumes known: "types_known types segments" and dist: "distinct (map js_id segments)"
    and s: "s \<in> set segments" and st: "st \<le> en" "en < length (js_stmts s)"
  shows "\<exists>hashed. get_hashed_original_stmts types segments (js_id s) st en = Inr hashed
    \<and> length hashed = Suc en - st"
proof -
  have item: "py_item (jseg_index segments) (js_id s) = Inr s"
    using dict_by_Some [OF dist s] by (simp add: py_item_def jseg_index_def)
  have earlier: "py_seq (map (py_nth (js_stmts s)) [0..<st]) = Inr (map ((!) (js_stmts s)) [0..<st])"
    unfolding py_seq_Inr using st by (auto simp: py_nth_def)
  let ?cs = "dict_get_list (children_map segments) (js_id s)"
  let ?known = "list_all (\<lambda>c. dict_get types c \<noteq> None)"
  let ?f = "\<lambda>i (hashed_stmts, cs). py_bind (py_nth (js_stmts s) i) (\<lambda>s.
               py_bind (fill_original types (get_raw s) cs) (\<lambda>(stmt, cs).
               Inr (hashed_stmts @ [stmt], cs)))"
  have start: "?known (drop k ?cs)" for k
    using children_known [OF known, of "js_id s"] by (auto simp: list_all_iff dest: in_set_dropD)
  have "\<exists>r. py_fold ?f [st..<Suc en] ([], drop k ?cs) = Inr r
      \<and> (length (fst r) = length [st..<Suc en] \<and> ?known (snd r))" for k
  proof (rule py_fold_invariant)
    show "length (fst ([] :: string list, drop k ?cs)) = length ([] :: nat list) \<and> ?known (snd ([] :: string list, drop k ?cs))"
      using start by simp
  next
    fix ys i and r :: "string list \<times> nat list"
    assume i: "i \<in> set [st..<Suc en]" and r: "length (fst r) = length (ys :: nat list) \<and> ?known (snd r)"
    obtain hs cs where hc: "r = (hs, cs)" by (cases r)
    from i st have nth: "py_nth (js_stmts s) i = Inr (js_stmts s ! i)" by (auto simp: py_nth_def)
    from r hc obtain s' cs' where "fill_original types (get_raw (js_stmts s ! i)) cs = Inr (s', cs')" "?known cs'"
      using fill_original_total [of types cs] by fastforce
    with r hc nth show "\<exists>r'. ?f i r = Inr r' \<and> (length (fst r') = length (ys @ [i]) \<and> ?known (snd r'))"
      by simp
  qed
  then obtain r where r: "py_fold ?f [st..<Suc en]
      ([], drop (sum_list (map (\<lambda>s. str_count (get_raw s) ''{}'') (map ((!) (js_stmts s)) [0..<st]))) ?cs) = Inr r"
    "length (fst r) = Suc en - st" by (metis length_upt)
  then have "get_hashed_original_stmts types segments (js_id s) st en = Inr (fst r)"
    using item earlier by (cases r) (simp add: get_hashed_original_stmts_def Let_def del: upt_Suc)
  with r(2) show ?thesis by blast
qed


section \<open>The reported classes\<close>

text \<open>
  What a reported class promises: at least two distinct occurrences in order, one statement text per
  position, and a common list of normal forms, those of Type I for a class of kind I and those of
  Type II (which it also shows) for a class of kind II.
\<close>

definition class_ok :: "flat_entry option list \<Rightarrow> nat \<Rightarrow> clone_class \<Rightarrow> bool" where
  "class_ok flat m c \<longleftrightarrow>
     2 \<le> length (cc_occs c) \<and> distinct (cc_occs c) \<and> sorted (cc_occs c)
     \<and> m \<le> cc_length c \<and> 0 < cc_length c \<and> length (cc_statements c) = cc_length c
     \<and> (\<exists>content. length content = cc_length c
          \<and> (\<forall>occ\<in>set (cc_occs c).
               map (if cc_type c = ''I'' then fe_norm1 else fe_norm) (occ_entries flat occ) = content)
          \<and> (cc_type c = ''II'' \<longrightarrow> cc_normalized c = Some content))"

lemma class_ok_id [simp]: "class_ok flat m (c\<lparr>cc_id := i\<rparr>) = class_ok flat m c"
  by (simp add: class_ok_def)

definition segs_layout :: "jseg list \<Rightarrow> layout \<Rightarrow> bool" where
  "segs_layout segments L \<longleftrightarrow>
     map (\<lambda>(i, es). (i, length es)) L = map (\<lambda>s. (js_id s, length (js_stmts s))) segments"

lemma layout_segment:
  assumes "segs_layout segments L" "(i, es) \<in> set L"
  obtains s where "s \<in> set segments" "js_id s = i" "length (js_stmts s) = length es"
proof -
  have "(i, length es) \<in> set (map (\<lambda>(i, es). (i, length es)) L)" using assms(2) by force
  then have "(i, length es) \<in> set (map (\<lambda>s. (js_id s, length (js_stmts s))) segments)"
    using assms(1) by (simp only: segs_layout_def)
  with that show thesis by auto
qed

lemma class_entry_ok:
  assumes known: "types_known types segments" and dist: "distinct (map js_id segments)"
    and seg: "segs_layout segments L"
    and occs: "distinct occs" "2 \<le> length occs" "\<forall>occ\<in>set occs. class_member f flat L m k occ"
    and f: "\<And>occ. map f (occ_entries flat occ) =
              map (if ty = ''I'' then fe_norm1 else fe_norm) (occ_entries flat occ)"
  shows "\<exists>c. class_entry types segments ty i (k, occs) = Inr c \<and> class_ok flat m c
     \<and> cc_type c = ty \<and> cc_occs c = sort occs \<and> cc_id c = i"
proof -
  obtain i0 st en rest where sorted: "sort occs = (i0, st, en) # rest"
    using occs(2) by (cases "sort occs") (auto dest: arg_cong [of _ _ length])
  then have "(i0, st, en) \<in> set occs" by (metis list.set_intros(1) set_sort)
  with occs(3) have mem: "occ_has f flat L k (i0, st, en)" "m \<le> length k" "0 < length k"
    by (auto simp: class_member_def)
  then obtain es where es: "(i0, es) \<in> set L" "st \<le> en" "en < length es" "length k = Suc en - st"
    by (auto simp: occ_has_def)
  from layout_segment [OF seg es(1)] obtain s where s: "s \<in> set segments" "js_id s = i0"
    "length (js_stmts s) = length es" by blast
  from hashed_original_total [OF known dist s(1) es(2)] s es obtain hashed where
    hashed: "get_hashed_original_stmts types segments i0 st en = Inr hashed" "length hashed = length k"
    by auto
  let ?c = "\<lparr>cc_id = i, cc_type = ty, cc_length = length k, cc_statements = hashed,
             cc_occs = sort occs, cc_normalized = (if ty = ''II'' then Some k else None)\<rparr>"
  have "class_entry types segments ty i (k, occs) = Inr ?c"
    by (simp add: class_entry_def sorted hashed(1))
  moreover have "\<forall>occ\<in>set occs.
      map (if ty = ''I'' then fe_norm1 else fe_norm) (occ_entries flat occ) = k"
    using occs(3) f by (auto simp: class_member_def occ_has_def)
  then have "class_ok flat m ?c" using mem occs hashed(2) by (auto simp: class_ok_def)
  ultimately show ?thesis by auto
qed

lemma set_by_size: "set (by_size d) = set d"
  by (simp add: by_size_def)

lemma py_seq_each:
  assumes "\<And>x. x \<in> set xs \<Longrightarrow> \<exists>c. f x = Inr c \<and> P x c"
  shows "\<exists>cs. py_seq (map f xs) = Inr cs \<and> list_all2 P xs cs"
proof -
  have "\<exists>cs. map f xs = map Inr cs \<and> list_all2 P xs cs"
    using assms
  proof (induction xs)
    case (Cons x xs)
    obtain c where "f x = Inr c" "P x c" using Cons.prems [of x] by auto
    moreover obtain cs where "map f xs = map Inr cs" "list_all2 P xs cs"
      using Cons by (metis list.set_intros(2))
    ultimately show ?case by (intro exI [of _ "c # cs"]) simp
  qed simp
  then show ?thesis by (auto simp: py_seq_Inr)
qed

text \<open>A dictionary of classes and the part of the class list built from it.\<close>

definition entry_of :: "string \<Rightarrow> flat_entry option list \<Rightarrow> nat \<Rightarrow> string list \<times> occ list \<Rightarrow> clone_class \<Rightarrow> bool" where
  "entry_of ty flat m kv c \<longleftrightarrow> class_ok flat m c \<and> cc_type c = ty \<and> cc_occs c = sort (snd kv)"

lemma class_entries_ok:
  assumes known: "types_known types segments" and dist: "distinct (map js_id segments)"
    and seg: "segs_layout segments L"
    and d: "grouped (class_member f flat L m) d" "sized d"
    and f: "\<And>occ. map f (occ_entries flat occ) =
              map (if ty = ''I'' then fe_norm1 else fe_norm) (occ_entries flat occ)"
  shows "\<And>kv i. kv \<in> set (by_size d) \<Longrightarrow>
     \<exists>c. class_entry types segments ty i kv = Inr c \<and> entry_of ty flat m kv c \<and> cc_id c = i"
proof -
  fix kv :: "string list \<times> occ list" and i
  assume kv: "kv \<in> set (by_size d)"
  obtain k occs where k: "kv = (k, occs)" by (cases kv)
  with kv have mem: "(k, occs) \<in> set d" by (simp add: set_by_size)
  with d have "distinct occs" "2 \<le> length occs" "\<forall>occ\<in>set occs. class_member f flat L m k occ"
    by (auto simp: grouped_def sized_def list_all_iff)
  from class_entry_ok [OF known dist seg this f] show
    "\<exists>c. class_entry types segments ty i kv = Inr c \<and> entry_of ty flat m kv c \<and> cc_id c = i"
    by (auto simp: k entry_of_def)
qed


definition exact_for :: "bool \<Rightarrow> (occ list \<Rightarrow> occ list) \<Rightarrow> flat_entry option list \<Rightarrow>
    (string list, occ list) dict \<Rightarrow> (string list, occ list) dict" where
  "exact_for t2 iter flat d = (if t2 then type1_classes iter flat d else [])"

definition main_for :: "bool \<Rightarrow> (string list, occ list) dict \<Rightarrow> (string list, occ list) dict" where
  "main_for t2 d = (if t2 then expanded_classes d else d)"

lemma classes_inv_sized: "classes_inv flat L m runs d \<Longrightarrow> sized d"
proof -
  assume inv: "classes_inv flat L m runs d"
  have "2 \<le> length v" if "(k, v) \<in> set d" for k v
  proof -
    have "distinct (dict_keys d)" using inv by (simp add: classes_inv_def grouped_def)
    with that have "dict_get_list d k = v" by (simp add: dict_get_list_def)
    moreover have "two_members (dict_get_list d k)" using inv that
      unfolding classes_inv_def by (metis fst_conv image_eqI set_map)
    ultimately show ?thesis using two_members_length by blast
  qed
  then show ?thesis by (auto simp: sized_def list_all_iff)
qed

lemma main_for_id: "sized d \<Longrightarrow> main_for t2 d = d"
  by (auto simp: main_for_def expanded_classes_def sized_def list_all_iff intro!: filter_True)

lemma class_list_ok:
  assumes known: "types_known types segments" and dist: "distinct (map js_id segments)"
    and seg: "segs_layout segments L" and inv: "classes_inv flat L m runs d"
    and iter: "\<And>xs. set (iter xs) = set xs"
    and norm: "\<not> t2 \<Longrightarrow> (\<And>occ. map fe_norm (occ_entries flat occ) = map fe_norm1 (occ_entries flat occ))"
  shows "\<exists>cs. clone_class_list types segments t2 (exact_for t2 iter flat d) (main_for t2 d) = Inr cs
     \<and> (\<forall>c\<in>set cs. class_ok flat m c \<and> (cc_type c = ''I'' \<or> t2 \<and> cc_type c = ''II''))
     \<and> (\<forall>kv\<in>set d. \<exists>c\<in>set cs. cc_occs c = sort (snd kv) \<and> cc_type c = (if t2 then ''II'' else ''I''))"
proof -
  let ?ty = "if t2 then ''II'' else ''I''"
  have d: "grouped (class_member fe_norm flat L m) d" "sized d"
    using inv classes_inv_sized [OF inv] by (simp_all add: classes_inv_def)
  have e: "grouped (class_member fe_norm1 flat L m) (exact_for t2 iter flat d)"
    "sized (exact_for t2 iter flat d)"
    using type1_classes_spec [OF iter d(1)] by (auto simp: exact_for_def sized_def)
  have f1: "map fe_norm1 (occ_entries flat occ) =
      map (if ''I'' = ''I'' then fe_norm1 else fe_norm) (occ_entries flat occ)" for occ by simp
  have f2: "map fe_norm (occ_entries flat occ) =
      map (if ?ty = ''I'' then fe_norm1 else fe_norm) (occ_entries flat occ)" for occ
    using norm by (cases t2) simp_all
  obtain firsts where firsts:
    "py_seq (map (class_entry types segments ''I'' 0) (by_size (exact_for t2 iter flat d))) = Inr firsts"
    "list_all2 (\<lambda>kv c. entry_of ''I'' flat m kv c \<and> cc_id c = 0)
       (by_size (exact_for t2 iter flat d)) firsts"
    using py_seq_each [of "by_size (exact_for t2 iter flat d)" "class_entry types segments ''I'' 0"
        "\<lambda>kv c. entry_of ''I'' flat m kv c \<and> cc_id c = 0"]
      class_entries_ok [OF known dist seg e f1] by blast
  let ?rest = "\<lambda>(clone_id, kv). class_entry types segments ?ty clone_id kv"
  have "\<exists>c. ?rest x = Inr c \<and> entry_of ?ty flat m (snd x) c"
    if "x \<in> set (enumerate 1 (by_size d))" for x
  proof -
    obtain i kv where x: "x = (i, kv)" by (cases x)
    with that have "kv \<in> set (by_size d)" by (auto simp: in_set_enumerate_eq)
    from class_entries_ok [OF known dist seg d f2 this, of i] show ?thesis by (auto simp: x)
  qed
  then obtain rest where rest: "py_seq (map ?rest (enumerate 1 (by_size d))) = Inr rest"
    "list_all2 (\<lambda>x c. entry_of ?ty flat m (snd x) c) (enumerate 1 (by_size d)) rest"
    using py_seq_each [of "enumerate 1 (by_size d)" ?rest "\<lambda>x c. entry_of ?ty flat m (snd x) c"] by blast
  have "clone_class_list types segments t2 (exact_for t2 iter flat d) (main_for t2 d) = Inr (firsts @ rest)"
    using firsts(1) rest(1) by (simp add: clone_class_list_def main_for_id [OF d(2)])
  moreover have "class_ok flat m c \<and> (cc_type c = ''I'' \<or> t2 \<and> cc_type c = ''II'')"
    if "c \<in> set (firsts @ rest)" for c
  proof (cases "c \<in> set firsts")
    case True
    with firsts(2) show ?thesis
      by (auto simp: list_all2_conv_all_nth in_set_conv_nth entry_of_def)
  next
    case False
    with that have "c \<in> set rest" by simp
    with rest(2) have "class_ok flat m c" "cc_type c = ?ty"
      by (auto simp: list_all2_conv_all_nth in_set_conv_nth entry_of_def)
    then show ?thesis by (cases t2) simp_all
  qed
  moreover have "\<exists>c\<in>set (firsts @ rest). cc_occs c = sort (snd kv) \<and> cc_type c = ?ty"
    if "kv \<in> set d" for kv
  proof -
    from that have "kv \<in> set (by_size d)" by (simp add: set_by_size)
    then obtain j where "j < length (by_size d)" "by_size d ! j = kv" by (auto simp: in_set_conv_nth)
    with rest(2) have "rest ! j \<in> set rest" "entry_of ?ty flat m kv (rest ! j)"
      by (auto simp: list_all2_conv_all_nth nth_enumerate_eq)
    then show ?thesis by (auto simp: entry_of_def)
  qed
  ultimately show ?thesis by blast
qed

section \<open>The filters\<close>

lemma renumber_mem:
  assumes "c \<in> set (renumber cs)"
  shows "\<exists>c'\<in>set cs. \<exists>i. c = c'\<lparr>cc_id := i\<rparr>"
proof -
  from assms obtain i c' where "(i, c') \<in> set (enumerate 1 cs)" "c = c'\<lparr>cc_id := i\<rparr>"
    by (auto simp: renumber_def)
  moreover from this(1) have "c' \<in> set cs" by (auto simp: in_set_enumerate_eq)
  ultimately show ?thesis by blast
qed

lemma renumber_mem':
  assumes "c \<in> set cs"
  shows "\<exists>i. c\<lparr>cc_id := i\<rparr> \<in> set (renumber cs)"
proof -
  from assms obtain j where "j < length cs" "cs ! j = c" by (auto simp: in_set_conv_nth)
  then have "(Suc j, c) \<in> set (enumerate 1 cs)" by (simp add: in_set_enumerate_eq)
  then have "c\<lparr>cc_id := Suc j\<rparr> \<in> set (renumber cs)" unfolding renumber_def by force
  then show ?thesis by blast
qed

lemma renumber_ids: "map cc_id (renumber cs) = [1..<Suc (length cs)]"
proof -
  have "map cc_id (map (\<lambda>(i, c). c\<lparr>cc_id := i\<rparr>) (enumerate k cs)) = [k..<k + length cs]" for k
    by (induction cs arbitrary: k) (auto simp: upt_conv_Cons simp del: upt_Suc)
  from this [of 1] show ?thesis by (simp add: renumber_def)
qed

text \<open>What the subsumption filter keeps covers everything it was given.\<close>

definition cover_inv :: "clone_class list \<Rightarrow> occ list \<times> occ list \<times> clone_class list \<Rightarrow> bool" where
  "cover_inv seen = (\<lambda>(cov1, cov2, final).
     set cov1 = (\<Union>c\<in>{c\<in>set final. cc_type c = ''I''}. set (cc_occs c))
     \<and> set cov2 = (\<Union>c\<in>{c\<in>set final. cc_type c \<noteq> ''I''}. set (cc_occs c))
     \<and> set final \<subseteq> set seen
     \<and> (\<forall>c\<in>set seen. \<forall>occ\<in>set (cc_occs c).
          \<exists>c'\<in>set final. (cc_type c = ''I'' \<longrightarrow> cc_type c' = ''I'') \<and>
            (\<exists>occ'\<in>set (cc_occs c'). occ_within occ occ')))"

lemma occ_within_refl: "occ_within occ occ"
  by (cases occ) (simp add: occ_within_def)

lemma maximal_step_inv:
  assumes "cover_inv seen st"
  shows "cover_inv (seen @ [c]) (maximal_step c st)"
proof -
  obtain cov1 cov2 final where st: "st = (cov1, cov2, final)" by (cases st)
  let ?elig = "if cc_type c = ''I'' then cov1 else cov1 @ cov2"
  show ?thesis
  proof (cases "covered ?elig c")
    case True
    have "\<exists>c'\<in>set final. (cc_type c = ''I'' \<longrightarrow> cc_type c' = ''I'') \<and>
            (\<exists>occ'\<in>set (cc_occs c'). occ_within occ occ')" if "occ \<in> set (cc_occs c)" for occ
    proof -
      from True that obtain occ' where occ': "occ' \<in> set ?elig" "occ_within occ occ'"
        unfolding covered_def list_all_iff list_ex_iff by blast
      have "\<exists>c'\<in>set final. (cc_type c = ''I'' \<longrightarrow> cc_type c' = ''I'') \<and> occ' \<in> set (cc_occs c')"
        using assms occ'(1) unfolding cover_inv_def st by (cases "cc_type c = ''I''") auto
      with occ'(2) show ?thesis by blast
    qed
    with assms True show ?thesis by (auto simp: cover_inv_def maximal_step_def st)
  next
    case False
    then have res: "maximal_step c st =
        (if cc_type c = ''I'' then (cov1 @ cc_occs c, cov2, final @ [c])
         else (cov1, cov2 @ cc_occs c, final @ [c]))"
      by (simp add: maximal_step_def st)
    show ?thesis
    proof (cases "cc_type c = ''I''")
      case True
      with assms show ?thesis unfolding res
        by (simp add: cover_inv_def st) (blast intro: occ_within_refl)
    next
      case False
      with assms show ?thesis unfolding res
        by (simp add: cover_inv_def st) (blast intro: occ_within_refl)
    qed
  qed
qed


lemma maximal_filter_spec:
  shows "map cc_id (maximal_filter cs) = [1..<Suc (length (maximal_filter cs))]"
    and "c \<in> set (maximal_filter cs) \<Longrightarrow> \<exists>c'\<in>set cs. \<exists>i. c = c'\<lparr>cc_id := i\<rparr>"
    and "c \<in> set cs \<Longrightarrow> occ \<in> set (cc_occs c) \<Longrightarrow>
      \<exists>c'\<in>set (maximal_filter cs). (cc_type c = ''I'' \<longrightarrow> cc_type c' = ''I'') \<and>
        (\<exists>occ'\<in>set (cc_occs c'). occ_within occ occ')"
proof -
  define sorted where "sorted = sort_key (\<lambda>c. - int (cc_length c)) cs"
  have set_sorted: "set sorted = set cs" by (simp add: sorted_def)
  have "cover_inv (seen @ xs) (fold maximal_step xs st)" if "cover_inv seen st" for seen xs st
    using that
  proof (induction xs arbitrary: seen st)
    case (Cons x xs)
    from Cons.IH [OF maximal_step_inv [OF Cons.prems]] show ?case by simp
  qed simp
  from this [of "[]" "([], [], [])" sorted]
  have inv: "cover_inv sorted (fold maximal_step sorted ([], [], []))" by (simp add: cover_inv_def)
  obtain cov1 cov2 final where res: "fold maximal_step sorted ([], [], []) = (cov1, cov2, final)"
    by (cases "fold maximal_step sorted ([], [], [])")
  have filt: "maximal_filter cs = renumber final"
    by (simp add: maximal_filter_def sorted_def [symmetric] res)
  show "map cc_id (maximal_filter cs) = [1..<Suc (length (maximal_filter cs))]"
    unfolding filt renumber_ids by (simp add: renumber_def)
  show "c \<in> set (maximal_filter cs) \<Longrightarrow> \<exists>c'\<in>set cs. \<exists>i. c = c'\<lparr>cc_id := i\<rparr>"
    using renumber_mem [of c final] inv unfolding filt res cover_inv_def set_sorted by auto
  assume c: "c \<in> set cs" and occ: "occ \<in> set (cc_occs c)"
  have "\<forall>c\<in>set cs. \<forall>occ\<in>set (cc_occs c).
          \<exists>c'\<in>set final. (cc_type c = ''I'' \<longrightarrow> cc_type c' = ''I'') \<and>
            (\<exists>occ'\<in>set (cc_occs c'). occ_within occ occ')"
    using inv unfolding res cover_inv_def set_sorted by auto
  with c occ obtain c' occ' where c': "c' \<in> set final" "cc_type c = ''I'' \<longrightarrow> cc_type c' = ''I''"
    "occ' \<in> set (cc_occs c')" "occ_within occ occ'" by blast
  from renumber_mem' [OF c'(1)] obtain i where "c'\<lparr>cc_id := i\<rparr> \<in> set (maximal_filter cs)"
    unfolding filt by blast
  moreover have "cc_type (c'\<lparr>cc_id := i\<rparr>) = cc_type c'" "cc_occs (c'\<lparr>cc_id := i\<rparr>) = cc_occs c'"
    by simp_all
  ultimately show "\<exists>c'\<in>set (maximal_filter cs). (cc_type c = ''I'' \<longrightarrow> cc_type c' = ''I'') \<and>
        (\<exists>occ'\<in>set (cc_occs c'). occ_within occ occ')"
    using c' by metis
qed

lemma overlap_filter_spec:
  "map cc_id (overlap_filter cs) = [1..<Suc (length (overlap_filter cs))]"
  "c \<in> set (overlap_filter cs) \<Longrightarrow> \<exists>c'\<in>set cs. \<exists>i. c = c'\<lparr>cc_id := i\<rparr>"
proof -
  show "map cc_id (overlap_filter cs) = [1..<Suc (length (overlap_filter cs))]"
    unfolding overlap_filter_def renumber_ids by (simp add: renumber_def)
  show "c \<in> set (overlap_filter cs) \<Longrightarrow> \<exists>c'\<in>set cs. \<exists>i. c = c'\<lparr>cc_id := i\<rparr>"
    unfolding overlap_filter_def by (drule renumber_mem) auto
qed

section \<open>The whole pass\<close>

lemma detect_clones_core:
  assumes wf: "jsegs_wf segments" and iter: "\<And>xs. set (iter xs) = set xs"
  shows "\<exists>types flat L cs. block_type_ids digest t2 segments = Inr types
    \<and> flat_list t2 types segments = Inr flat \<and> laid_out flat L \<and> segs_layout segments L
    \<and> detect_clones digest iter segments t2 maximal m mf overlaps =
        Inr (let cs = (if maximal then maximal_filter cs else cs)
             in if overlaps then overlap_filter cs else cs)
    \<and> (\<forall>c\<in>set cs. class_ok flat m c \<and> (cc_type c = ''I'' \<or> t2 \<and> cc_type c = ''II''))
    \<and> (\<forall>(a, b, n)\<in>set (completed_clones m mf flat). \<exists>c\<in>set cs.
         cc_type c = (if t2 then ''II'' else ''I'')
         \<and> occ_of flat a n \<in> set (cc_occs c) \<and> occ_of flat b n \<in> set (cc_occs c))"
proof -
  have dist: "distinct (map js_id segments)" using wf by (simp add: jsegs_wf_def)
  from block_type_ids_spec [OF wf, of digest t2] obtain types where
    types: "block_type_ids digest t2 segments = Inr types" and known: "types_known types segments"
    unfolding types_known_def by (metis option.distinct(1))
  from flat_list_spec [OF known dist, of t2] obtain flat L where
    flat: "flat_list t2 types segments = Inr flat" and lay: "laid_out flat L"
    and segs: "segs_layout segments L"
    and norms: "\<not> t2 \<longrightarrow> (\<forall>b\<in>set L. list_all (\<lambda>e. fe_norm e = fe_norm1 e) (snd b))"
    unfolding segs_layout_def by blast
  have "pair_ok flat m r" if "r \<in> set (completed_clones m mf flat)" for r
  proof -
    obtain a b n where r: "r = (a, b, n)" by (cases r)
    from that have "m \<le> n" "maximal_run mf flat (a, b, n)"
      unfolding r completed_clones_iff by simp_all
    from maximal_run_pair_ok [OF lay this(2,1)] show ?thesis by (simp only: r)
  qed
  from clone_classes_spec [OF lay this] obtain d where
    d: "clone_classes flat (completed_clones m mf flat) = Inr d"
    and inv: "classes_inv flat L m (completed_clones m mf flat) d" by blast
  have norm_eq: "map fe_norm (occ_entries flat occ) = map fe_norm1 (occ_entries flat occ)"
    if "\<not> t2" for occ
  proof -
    have eq: "fe_norm e = fe_norm1 e" if "e \<in> set (entries flat)" for e
    proof -
      from that obtain a where "a < length flat" "flat ! a = Some e"
        by (auto simp: List.map_filter_def in_set_conv_nth)
      from entry_located [OF lay this] obtain es where es: "(fe_seg e, es) \<in> set L"
        "fe_idx e < length es" "es ! fe_idx e = e" by blast
      from bspec [OF mp [OF norms \<open>\<not> t2\<close>] es(1)]
      have "list_all (\<lambda>e. fe_norm e = fe_norm1 e) es" by simp
      then have "fe_norm (es ! fe_idx e) = fe_norm1 (es ! fe_idx e)"
        using es(2) unfolding list_all_length by blast
      then show ?thesis unfolding es(3) .
    qed
    have "set (occ_entries flat occ) \<subseteq> set (entries flat)"
      by (cases occ) (simp add: occ_entries_def)
    then show ?thesis by (intro map_cong refl eq) blast
  qed
  from class_list_ok [OF known dist segs inv iter norm_eq] obtain cs where
    cs: "clone_class_list types segments t2 (exact_for t2 iter flat d) (main_for t2 d) = Inr cs"
    and ok: "\<forall>c\<in>set cs. class_ok flat m c \<and> (cc_type c = ''I'' \<or> t2 \<and> cc_type c = ''II'')"
    and main: "\<forall>kv\<in>set d. \<exists>c\<in>set cs. cc_occs c = sort (snd kv)
                 \<and> cc_type c = (if t2 then ''II'' else ''I'')" by blast
  have "detect_clones digest iter segments t2 maximal m mf overlaps =
        Inr (let cs = (if maximal then maximal_filter cs else cs)
             in if overlaps then overlap_filter cs else cs)"
    using cs unfolding exact_for_def main_for_def
    by (simp add: detect_clones_def types flat d Let_def)
  moreover have "\<exists>c\<in>set cs. cc_type c = (if t2 then ''II'' else ''I'')
         \<and> occ_of flat a n \<in> set (cc_occs c) \<and> occ_of flat b n \<in> set (cc_occs c)"
    if "(a, b, n) \<in> set (completed_clones m mf flat)" for a b n
  proof -
    let ?k = "content_tuple flat a n"
    have rec: "occ_of flat a n \<in> set (dict_get_list d ?k)" "occ_of flat b n \<in> set (dict_get_list d ?k)"
      using inv that by (auto simp: classes_inv_def recorded_def)
    from rec(1) obtain occs where occs: "dict_get d ?k = Some occs" "dict_get_list d ?k = occs"
      by (cases "dict_get d ?k") (simp_all add: dict_get_list_def)
    then have "(?k, occs) \<in> set d" by (auto dest: map_of_SomeD)
    with main obtain c where c: "c \<in> set cs" "cc_occs c = sort occs"
      "cc_type c = (if t2 then ''II'' else ''I'')" by force
    from rec occs(2) have "occ_of flat a n \<in> set (cc_occs c)" "occ_of flat b n \<in> set (cc_occs c)"
      unfolding c(2) set_sort by simp_all
    with c show ?thesis by blast
  qed
  ultimately show ?thesis using types flat lay segs ok by blast
qed


text \<open>
  C14. On a document with distinct ids and parents before children, \<open>detect_clones\<close> returns a class list;
  every class has at least two distinct occurrences, the requested length, as many statement texts as
  its length, and occurrences whose statements have the same normal forms; after a filter the classes
  are numbered from 1.
\<close>
theorem detect_clones_sound:
  assumes "jsegs_wf segments" and "\<And>xs. set (iter xs) = set xs"
  shows "\<exists>types flat classes. block_type_ids digest type_2_norm segments = Inr types
    \<and> flat_list type_2_norm types segments = Inr flat
    \<and> detect_clones digest iter segments type_2_norm maximal min_length max_freq overlaps = Inr classes
    \<and> (\<forall>c\<in>set classes. class_ok flat min_length c)
    \<and> (maximal \<or> overlaps \<longrightarrow> map cc_id classes = [1..<Suc (length classes)])"
proof -
  from detect_clones_core [OF assms, of digest type_2_norm maximal min_length max_freq overlaps]
  obtain types flat cs where r: "block_type_ids digest type_2_norm segments = Inr types"
    "flat_list type_2_norm types segments = Inr flat"
    "detect_clones digest iter segments type_2_norm maximal min_length max_freq overlaps =
        Inr (let cs = (if maximal then maximal_filter cs else cs)
             in if overlaps then overlap_filter cs else cs)"
    and ok: "\<forall>c\<in>set cs. class_ok flat min_length c" by blast
  have "\<forall>c\<in>set (maximal_filter cs). class_ok flat min_length c"
    using ok maximal_filter_spec(2) by fastforce
  with ok have one: "\<forall>c\<in>set (if maximal then maximal_filter cs else cs). class_ok flat min_length c"
    by simp
  have "\<forall>c\<in>set (overlap_filter ds). class_ok flat min_length c"
    if "\<forall>c\<in>set ds. class_ok flat min_length c" for ds
    using that overlap_filter_spec(2) by fastforce
  with one have "\<forall>c\<in>set (let cs = (if maximal then maximal_filter cs else cs)
             in if overlaps then overlap_filter cs else cs). class_ok flat min_length c"
    by (simp add: Let_def)
  moreover have "maximal \<or> overlaps \<longrightarrow>
      (let ds = (let cs = (if maximal then maximal_filter cs else cs)
                 in if overlaps then overlap_filter cs else cs)
       in map cc_id ds = [1..<Suc (length ds)])"
    by (cases overlaps; cases maximal)
       (simp_all add: Let_def maximal_filter_spec(1) overlap_filter_spec(1) del: upt_Suc)
  ultimately show ?thesis using r unfolding Let_def by blast
qed

theorem detect_clones_sound_witness:
  "(case detect_clones (\<lambda>s. s) (\<lambda>xs. xs) sample_jsegs True True 1 5 False of
      Inr cs \<Rightarrow> map cc_length cs = [2, 1, 1] | Inl _ \<Rightarrow> False)
   \<and> (\<exists>types flat classes. block_type_ids (\<lambda>s. s) True sample_jsegs = Inr types
    \<and> flat_list True types sample_jsegs = Inr flat
    \<and> detect_clones (\<lambda>s. s) (\<lambda>xs. xs) sample_jsegs True True 1 5 False = Inr classes
    \<and> (\<forall>c\<in>set classes. class_ok flat 1 c)
    \<and> (True \<or> False \<longrightarrow> map cc_id classes = [1..<Suc (length classes)]))"
proof (rule conjI)
  show "case detect_clones (\<lambda>s. s) (\<lambda>xs. xs) sample_jsegs True True 1 5 False of
      Inr cs \<Rightarrow> map cc_length cs = [2, 1, 1] | Inl _ \<Rightarrow> False" by code_simp
qed (rule detect_clones_sound, simp_all add: jsegs_wf_def sample_jsegs_def sample_jseg_def)

text \<open>
  C13. No clone is lost: without the filters every maximal run of equal statements of at least the
  minimum length has both of its occurrences in one class, and with the subsumption filter each of
  them lies inside an occurrence of a reported class.
\<close>
theorem detect_clones_complete:
  assumes "jsegs_wf segments" and "\<And>xs. set (iter xs) = set xs"
  shows "\<exists>types flat classes. block_type_ids digest type_2_norm segments = Inr types
    \<and> flat_list type_2_norm types segments = Inr flat
    \<and> detect_clones digest iter segments type_2_norm maximal min_length max_freq False = Inr classes
    \<and> (\<forall>a b n. maximal_run max_freq flat (a, b, n) \<longrightarrow> min_length \<le> n \<longrightarrow>
         (if maximal
          then \<forall>occ\<in>{occ_of flat a n, occ_of flat b n}.
                 \<exists>c\<in>set classes. \<exists>occ'\<in>set (cc_occs c). occ_within occ occ'
          else \<exists>c\<in>set classes. occ_of flat a n \<in> set (cc_occs c) \<and> occ_of flat b n \<in> set (cc_occs c)))"
proof -
  from detect_clones_core [OF assms, of digest type_2_norm maximal min_length max_freq False]
  obtain types flat cs where r: "block_type_ids digest type_2_norm segments = Inr types"
    "flat_list type_2_norm types segments = Inr flat"
    "detect_clones digest iter segments type_2_norm maximal min_length max_freq False =
        Inr (if maximal then maximal_filter cs else cs)"
    and runs: "\<forall>(a, b, n)\<in>set (completed_clones min_length max_freq flat). \<exists>c\<in>set cs.
         cc_type c = (if type_2_norm then ''II'' else ''I'')
         \<and> occ_of flat a n \<in> set (cc_occs c) \<and> occ_of flat b n \<in> set (cc_occs c)"
    unfolding Let_def if_False by blast
  have "if maximal
        then \<forall>occ\<in>{occ_of flat a n, occ_of flat b n}.
               \<exists>c\<in>set (maximal_filter cs). \<exists>occ'\<in>set (cc_occs c). occ_within occ occ'
        else \<exists>c\<in>set cs. occ_of flat a n \<in> set (cc_occs c) \<and> occ_of flat b n \<in> set (cc_occs c)"
    if "maximal_run max_freq flat (a, b, n)" "min_length \<le> n" for a b n
  proof -
    have "(a, b, n) \<in> set (completed_clones min_length max_freq flat)"
      using that by (simp add: completed_clones_iff)
    with runs obtain c where c: "c \<in> set cs" "occ_of flat a n \<in> set (cc_occs c)"
      "occ_of flat b n \<in> set (cc_occs c)" by blast
    then have "\<exists>c'\<in>set (maximal_filter cs). \<exists>occ'\<in>set (cc_occs c'). occ_within occ occ'"
      if "occ \<in> {occ_of flat a n, occ_of flat b n}" for occ
      using that maximal_filter_spec(3) [OF c(1), of occ] by blast
    with c show ?thesis by (cases maximal) auto
  qed
  with r show ?thesis by (cases maximal) auto
qed

theorem detect_clones_complete_witness:
  "\<exists>types flat classes. block_type_ids (\<lambda>s. s) True sample_jsegs = Inr types
    \<and> flat_list True types sample_jsegs = Inr flat
    \<and> detect_clones (\<lambda>s. s) (\<lambda>xs. xs) sample_jsegs True True 1 5 False = Inr classes
    \<and> (\<forall>a b n. maximal_run 5 flat (a, b, n) \<longrightarrow> 1 \<le> n \<longrightarrow>
         (if True
          then \<forall>occ\<in>{occ_of flat a n, occ_of flat b n}.
                 \<exists>c\<in>set classes. \<exists>occ'\<in>set (cc_occs c). occ_within occ occ'
          else \<exists>c\<in>set classes. occ_of flat a n \<in> set (cc_occs c) \<and> occ_of flat b n \<in> set (cc_occs c)))"
  by (rule detect_clones_complete) (simp_all add: jsegs_wf_def sample_jsegs_def sample_jseg_def)

end
