(* ===== verification/NearMissFacts.thy ===== *)
theory NearMissFacts
  imports NearMiss CloneFacts
begin

text \<open>
  What Type III detection reports: the differing statements of a pair, the limits of the similarity
  measure, the clusters as connected components, and that the pass always returns.
\<close>

section \<open>Differing statements\<close>

definition in_block_a :: "match list \<Rightarrow> nat \<Rightarrow> bool" where
  "in_block_a bs k = list_ex (\<lambda>(i, j, n). i \<le> k \<and> k < i + n) bs"

definition in_block_b :: "match list \<Rightarrow> nat \<Rightarrow> bool" where
  "in_block_b bs k = list_ex (\<lambda>(i, j, n). j \<le> k \<and> k < j + n) bs"

lemma opcodes_equal:
  "list_ex (\<lambda>(tag, i1, i2, j1, j2). i1 \<le> k \<and> k < i2)
     (filter (\<lambda>op. fst op = ''equal'') (opcodes_from i j bs)) = in_block_a bs k"
  "list_ex (\<lambda>(tag, i1, i2, j1, j2). j1 \<le> k \<and> k < j2)
     (filter (\<lambda>op. fst op = ''equal'') (opcodes_from i j bs)) = in_block_b bs k"
  by (induction i j bs rule: opcodes_from.induct)
     (auto simp: in_block_a_def in_block_b_def Let_def)

lemma chain_bounds: "chain a b alo ahi blo bhi bs \<Longrightarrow> alo \<le> ahi \<and> blo \<le> bhi"
  by (induction bs arbitrary: alo blo) fastforce+

lemma chain_above:
  "chain a b alo ahi blo bhi bs \<Longrightarrow>
     (in_block_a bs k \<longrightarrow> alo \<le> k) \<and> (in_block_b bs k \<longrightarrow> blo \<le> k)"
  by (induction bs arbitrary: alo blo) (fastforce simp: in_block_a_def in_block_b_def)+

lemma upt_split3: "l \<le> i \<Longrightarrow> i + n \<le> h \<Longrightarrow> [l..<h] = [l..<i] @ [i..<i + n] @ [i + n..<(h::nat)]"
  using upt_add_eq_append [of l i "h - i"] upt_add_eq_append [of i "i + n" "h - (i + n)"] by simp

lemma chain_common:
  "chain a b alo ahi blo bhi bs \<Longrightarrow>
     map ((!) a) (filter (in_block_a bs) [alo..<ahi]) = map ((!) b) (filter (in_block_b bs) [blo..<bhi])"
proof (induction bs arbitrary: alo blo)
  case Nil
  then show ?case by (simp add: in_block_a_def in_block_b_def)
next
  case (Cons m bs)
  obtain i j n where m: "m = (i, j, n)" by (cases m)
  from Cons.prems have c: "alo \<le> i" "blo \<le> j" "matched a b (i, j, n)"
    "chain a b (i + n) ahi (j + n) bhi bs" by (simp_all add: m)
  note hi = chain_bounds [OF c(4)] and above = chain_above [OF c(4)]
  have a: "in_block_a (m # bs) k \<longleftrightarrow> i \<le> k \<and> k < i + n \<or> in_block_a bs k" for k
    by (simp add: in_block_a_def m)
  have b: "in_block_b (m # bs) k \<longleftrightarrow> j \<le> k \<and> k < j + n \<or> in_block_b bs k" for k
    by (simp add: in_block_b_def m)
  have "filter (in_block_a (m # bs)) [alo..<ahi] = [i..<i + n] @ filter (in_block_a bs) [i + n..<ahi]"
  proof -
    have "filter (in_block_a (m # bs)) [alo..<i] = []"
      using above by (fastforce simp: filter_empty_conv a)
    moreover have "filter (in_block_a (m # bs)) [i..<i + n] = [i..<i + n]"
      by (simp add: filter_id_conv a)
    moreover have "filter (in_block_a (m # bs)) [i + n..<ahi] = filter (in_block_a bs) [i + n..<ahi]"
      by (rule filter_cong) (auto simp: a)
    ultimately show ?thesis using upt_split3 [OF c(1), of n ahi] hi by simp
  qed
  moreover have "filter (in_block_b (m # bs)) [blo..<bhi] = [j..<j + n] @ filter (in_block_b bs) [j + n..<bhi]"
  proof -
    have "filter (in_block_b (m # bs)) [blo..<j] = []"
      using above by (fastforce simp: filter_empty_conv b)
    moreover have "filter (in_block_b (m # bs)) [j..<j + n] = [j..<j + n]"
      by (simp add: filter_id_conv b)
    moreover have "filter (in_block_b (m # bs)) [j + n..<bhi] = filter (in_block_b bs) [j + n..<bhi]"
      by (rule filter_cong) (auto simp: b)
    ultimately show ?thesis using upt_split3 [OF c(2), of n bhi] hi by simp
  qed
  moreover have "map ((!) a) [i..<i + n] = map ((!) b) [j..<j + n]"
    by (rule nth_equalityI) (use c(3) in \<open>auto simp: matched_def\<close>)
  ultimately show ?case using Cons.IH [OF c(4)] by simp
qed

lemma diff_regions_common:
  assumes "get_diff_regions seq_a seq_b = (diffs_a, diffs_b)"
  shows "map (\<lambda>k. fst (snd (seq_a ! k))) (filter (\<lambda>k. k \<notin> set diffs_a) [0..<length seq_a])
       = map (\<lambda>k. fst (snd (seq_b ! k))) (filter (\<lambda>k. k \<notin> set diffs_b) [0..<length seq_b])"
proof -
  let ?a = "map (fst \<circ> snd) seq_a" and ?b = "map (fst \<circ> snd) seq_b"
  let ?bs = "get_matching_blocks ?a ?b"
  have d: "diffs_a = filter (\<lambda>k. \<not> in_block_a ?bs k) [0..<length seq_a]"
    "diffs_b = filter (\<lambda>k. \<not> in_block_b ?bs k) [0..<length seq_b]"
    using assms unfolding get_diff_regions_def Let_def get_opcodes_def opcodes_equal by simp_all
  have a: "filter (\<lambda>k. k \<notin> set diffs_a) [0..<length seq_a] = filter (in_block_a ?bs) [0..<length seq_a]"
    and b: "filter (\<lambda>k. k \<notin> set diffs_b) [0..<length seq_b] = filter (in_block_b ?bs) [0..<length seq_b]"
    unfolding d by (rule filter_cong; simp)+
  have eq: "map ((!) ?a) (filter (in_block_a ?bs) [0..<length ?a]) =
        map ((!) ?b) (filter (in_block_b ?bs) [0..<length ?b])"
    by (rule chain_common [OF matching_blocks_chain])
  have norms: "map (\<lambda>k. fst (snd (s ! k))) (filter P [0..<length s]) =
      map ((!) (map (fst \<circ> snd) s)) (filter P [0..<length (map (fst \<circ> snd) s)])"
    for s :: seq and P
    by simp
  show ?thesis unfolding a b norms by (rule eq)
qed

text \<open>
  The statements a near-miss pair does not list as differing are the same statements in the same
  order on both sides: removing the listed positions leaves equal lists of normal forms.
\<close>
lemma diff_regions_leave_common_statements:
  assumes "get_diff_regions seq_a seq_b = (diffs_a, diffs_b)"
  shows "map (\<lambda>k. fst (snd (seq_a ! k))) (filter (\<lambda>k. k \<notin> set diffs_a) [0..<length seq_a])
       = map (\<lambda>k. fst (snd (seq_b ! k))) (filter (\<lambda>k. k \<notin> set diffs_b) [0..<length seq_b])"
  using assms by (rule diff_regions_common)

definition sample_window :: "string list \<Rightarrow> seq" where
  "sample_window norms = map (\<lambda>(i, s). (i, s, s)) (enumerate 0 norms)"

theorem diff_regions_leave_common_statements_witness:
  "map (\<lambda>k. fst (snd (sample_window [''a'', ''b'', ''c''] ! k)))
     (filter (\<lambda>k. k \<notin> set [1]) [0..<length (sample_window [''a'', ''b'', ''c''])])
   = map (\<lambda>k. fst (snd (sample_window [''a'', ''c'', ''d''] ! k)))
     (filter (\<lambda>k. k \<notin> set [2]) [0..<length (sample_window [''a'', ''c'', ''d''])])"
  by (rule diff_regions_leave_common_statements) code_simp

section \<open>The similarity of long windows\<close>

text \<open>
  The similarity of a window whose joined text has at least 200 characters, each of them more often
  than one in a hundred plus one, is zero as soon as the texts start with different characters, however
  similar the rest is: every character is popular and only a common prefix is matched.
\<close>
lemma long_windows_popular_characters:
  assumes "seq_a \<noteq> []" "seq_b \<noteq> []"
    and "str_join [newline] (map (fst \<circ> snd) seq_a) = x # a'"
    and "str_join [newline] (map (fst \<circ> snd) seq_b) = y # b'" and "x \<noteq> y"
    and "200 \<le> length (y # b')"
    and "\<And>c. c \<in> set (y # b') \<Longrightarrow> length (y # b') div 100 + 1 < count_list (y # b') c"
  shows "sequence_similarity seq_a seq_b = FFin False 0 0"
proof -
  have "sequence_similarity seq_a seq_b = sm_ratio (x # a') (y # b')"
    using assms(1-4) by (simp add: sequence_similarity_def)
  also have "\<dots> = FFin False 0 0"
    using assms(5-7) by (intro popular_ratio_zero) auto
  finally show ?thesis .
qed

theorem long_windows_popular_characters_witness:
  "sequence_similarity [(0, ''x'' @ replicate 250 (CHR ''a''), [])]
     [(0, ''bbbb'' @ replicate 250 (CHR ''a''), [])] = FFin False 0 0"
proof (rule long_windows_popular_characters)
  show "[(0, ''x'' @ replicate 250 (CHR ''a''), [])] \<noteq> ([] :: seq)" by simp
  show "[(0, ''bbbb'' @ replicate 250 (CHR ''a''), [])] \<noteq> ([] :: seq)" by simp
  show "str_join [newline] (map (fst \<circ> snd) [(0, ''x'' @ replicate 250 (CHR ''a''), [])])
      = CHR ''x'' # replicate 250 (CHR ''a'')" by simp
  show "str_join [newline] (map (fst \<circ> snd) [(0, ''bbbb'' @ replicate 250 (CHR ''a''), [])])
      = CHR ''b'' # ''bbb'' @ replicate 250 (CHR ''a'')" by simp
  have count: "count_list (replicate n x) y = (if x = y then n else 0)" for n and x y :: char
    by (induction n) auto
  fix c assume "c \<in> set (CHR ''b'' # ''bbb'' @ replicate 250 (CHR ''a''))"
  then show "length (CHR ''b'' # ''bbb'' @ replicate 250 (CHR ''a'')) div 100 + 1
      < count_list (CHR ''b'' # ''bbb'' @ replicate 250 (CHR ''a'')) c"
    by (auto simp: count)
qed simp_all


section \<open>Clusters are connected components\<close>

definition pair_segs :: "t3_pair \<Rightarrow> nat \<times> nat" where
  "pair_segs cp = (sd_seg (tp_a cp), sd_seg (tp_b cp))"

definition mentioned :: "t3_pair list \<Rightarrow> nat set" where
  "mentioned cps = (\<Union>cp\<in>set cps. {sd_seg (tp_a cp), sd_seg (tp_b cp)})"

lemma mentioned_snoc:
  "mentioned (cps @ [cp]) = insert (sd_seg (tp_a cp)) (insert (sd_seg (tp_b cp)) (mentioned cps))"
  by (auto simp: mentioned_def)

lemma opt_fold_snoc: "opt_fold f (xs @ [x]) s = (case opt_fold f xs s of None \<Rightarrow> None | Some s' \<Rightarrow> f x s')"
  by (induction xs arbitrary: s) (auto split: option.splits)

definition occ_inv :: "t3_pair list \<Rightarrow> cluster_state \<Rightarrow> bool" where
  "occ_inv cps st \<longleftrightarrow> dom (map_of (cl_occ st)) = mentioned cps \<and> dom (map_of (cl_best st)) = mentioned cps
     \<and> (\<forall>i side. dict_get (cl_occ st) i = Some side \<longrightarrow> sd_seg side = i)"

lemma note_side_dom:
  assumes "dom (map_of (cl_occ st)) = M" "dom (map_of (cl_best st)) = M"
    "\<forall>i side. dict_get (cl_occ st) i = Some side \<longrightarrow> sd_seg side = i"
  shows "dom (map_of (cl_occ (note_side sim side st))) = insert (sd_seg side) M
    \<and> dom (map_of (cl_best (note_side sim side st))) = insert (sd_seg side) M
    \<and> (\<forall>i side'. dict_get (cl_occ (note_side sim side st)) i = Some side' \<longrightarrow> sd_seg side' = i)
    \<and> cl_parent (note_side sim side st) = cl_parent st"
proof (cases "case dict_get (cl_best st) (sd_seg side) of None \<Rightarrow> True | Some best \<Rightarrow> fl_lt best sim")
  case True
  have dom_set: "dom (map_of (dict_set k v d)) = insert k (dom (map_of d))" for k and v :: 'v and d
    by (auto simp: update_conv' dom_def)
  from True assms show ?thesis
    by (auto simp: note_side_def dict_get_set update_conv')
next
  case False
  then have "sd_seg side \<in> M" using assms(2) by (auto split: option.splits)
  with False assms show ?thesis by (auto simp: note_side_def insert_absorb)
qed

lemma cluster_fold:
  "\<exists>st. opt_fold cluster_step cps \<lparr>cl_parent = [], cl_best = [], cl_occ = []\<rparr> = Some st
     \<and> occ_inv cps st \<and> opt_fold (\<lambda>(a, b). uf_union a b) (map pair_segs cps) [] = Some (cl_parent st)
     \<and> forest (uf_parent (cl_parent st))"
proof (induction cps rule: rev_induct)
  case Nil
  show ?case using uf.valid_start by (simp add: occ_inv_def mentioned_def)
next
  case (snoc cp cps)
  then obtain st where st: "opt_fold cluster_step cps \<lparr>cl_parent = [], cl_best = [], cl_occ = []\<rparr> = Some st"
    "occ_inv cps st" "opt_fold (\<lambda>(a, b). uf_union a b) (map pair_segs cps) [] = Some (cl_parent st)"
    "forest (uf_parent (cl_parent st))" by blast
  from uf.join_valid [OF st(4)] obtain p where
    p: "uf_union (sd_seg (tp_a cp)) (sd_seg (tp_b cp)) (cl_parent st) = Some p" "forest (uf_parent p)"
    by blast
  let ?st1 = "note_side (tp_similarity cp) (tp_a cp) (st\<lparr>cl_parent := p\<rparr>)"
  let ?st2 = "note_side (tp_similarity cp) (tp_b cp) ?st1"
  have s1: "dom (map_of (cl_occ ?st1)) = insert (sd_seg (tp_a cp)) (mentioned cps)
    \<and> dom (map_of (cl_best ?st1)) = insert (sd_seg (tp_a cp)) (mentioned cps)
    \<and> (\<forall>i side'. dict_get (cl_occ ?st1) i = Some side' \<longrightarrow> sd_seg side' = i)
    \<and> cl_parent ?st1 = cl_parent (st\<lparr>cl_parent := p\<rparr>)"
    by (rule note_side_dom) (use st(2) in \<open>auto simp: occ_inv_def\<close>)
  have s2: "dom (map_of (cl_occ ?st2)) = insert (sd_seg (tp_b cp)) (insert (sd_seg (tp_a cp)) (mentioned cps))
    \<and> dom (map_of (cl_best ?st2)) = insert (sd_seg (tp_b cp)) (insert (sd_seg (tp_a cp)) (mentioned cps))
    \<and> (\<forall>i side'. dict_get (cl_occ ?st2) i = Some side' \<longrightarrow> sd_seg side' = i)
    \<and> cl_parent ?st2 = cl_parent ?st1"
    by (rule note_side_dom) (use s1 in auto)
  have "opt_fold cluster_step (cps @ [cp]) \<lparr>cl_parent = [], cl_best = [], cl_occ = []\<rparr> = Some ?st2"
    by (simp add: opt_fold_snoc st(1) cluster_step_def p(1))
  moreover have "occ_inv (cps @ [cp]) ?st2"
    using s2 unfolding occ_inv_def mentioned_snoc by (simp add: insert_commute)
  moreover have "cl_parent ?st2 = p" using s1 s2 by simp
  moreover have "opt_fold (\<lambda>(a, b). uf_union a b) (map pair_segs (cps @ [cp])) [] = Some p"
    by (simp add: opt_fold_snoc st(3)) (simp add: pair_segs_def p(1))
  ultimately show ?case using p(2) by metis
qed

text \<open>The two grouping loops: a search does not change the roots.\<close>

definition comp_inv :: "(nat \<Rightarrow> nat) \<Rightarrow> t3_pair list \<Rightarrow> (nat, nat list) dict \<Rightarrow> bool" where
  "comp_inv rt cps comps \<longleftrightarrow> distinct (dict_keys comps)
     \<and> (\<forall>r. distinct (dict_get_list comps r) \<and> set (dict_get_list comps r) = {x\<in>mentioned cps. rt x = r})
     \<and> set (dict_keys comps) = rt ` mentioned cps"

lemma component_fold:
  assumes "forest (uf_parent p)"
    and "\<forall>cp\<in>set cps. root_of (uf_parent p) (sd_seg (tp_a cp)) = root_of (uf_parent p) (sd_seg (tp_b cp))"
  shows "\<exists>p' comps. opt_fold component_step cps (p, []) = Some (p', comps) \<and> forest (uf_parent p')
     \<and> root_of (uf_parent p') = root_of (uf_parent p) \<and> comp_inv (root_of (uf_parent p)) cps comps"
  using assms(2)
proof (induction cps rule: rev_induct)
  case Nil
  show ?case using assms(1) by (simp add: comp_inv_def mentioned_def)
next
  case (snoc cp cps)
  let ?rt = "root_of (uf_parent p)"
  let ?a = "sd_seg (tp_a cp)" and ?b = "sd_seg (tp_b cp)"
  from snoc obtain p1 comps where p1: "opt_fold component_step cps (p, []) = Some (p1, comps)"
    "forest (uf_parent p1)" "root_of (uf_parent p1) = ?rt" "comp_inv ?rt cps comps" by auto
  obtain p2 where p2: "find_root ?a p1 = Some (?rt ?a, p2)" "forest (uf_parent p2)"
    "root_of (uf_parent p2) = ?rt"
    using find_root_spec [OF p1(2), of ?a] p1(3) by auto
  let ?comps = "dict_add (?rt ?a) ?b (dict_add (?rt ?a) ?a comps)"
  have eq: "?rt ?b = ?rt ?a" using snoc.prems by simp
  have "comp_inv ?rt (cps @ [cp]) ?comps"
    using p1(4) eq unfolding comp_inv_def mentioned_snoc
    by (auto simp: dict_add_get dict_add_keys distinct_set_add)
  moreover have "opt_fold component_step (cps @ [cp]) (p, []) = Some (p2, ?comps)"
    by (simp add: opt_fold_snoc p1(1) component_step_def p2(1))
  ultimately show ?case using p2 by blast
qed

definition pairs_inv :: "(nat \<Rightarrow> nat) \<Rightarrow> t3_pair list \<Rightarrow> (nat, t3_pair list) dict \<Rightarrow> bool" where
  "pairs_inv rt cps d \<longleftrightarrow> (\<forall>r. dict_get_list d r = filter (\<lambda>cp. rt (sd_seg (tp_a cp)) = r) cps)"

lemma class_pair_fold:
  assumes "forest (uf_parent p)"
  shows "\<exists>p' d. opt_fold class_pair_step cps (p, []) = Some (p', d) \<and> forest (uf_parent p')
     \<and> root_of (uf_parent p') = root_of (uf_parent p) \<and> pairs_inv (root_of (uf_parent p)) cps d"
proof (induction cps rule: rev_induct)
  case Nil
  show ?case using assms by (simp add: pairs_inv_def)
next
  case (snoc cp cps)
  let ?rt = "root_of (uf_parent p)"
  from snoc obtain p1 d where p1: "opt_fold class_pair_step cps (p, []) = Some (p1, d)"
    "forest (uf_parent p1)" "root_of (uf_parent p1) = ?rt" "pairs_inv ?rt cps d" by auto
  obtain p2 where p2: "find_root (sd_seg (tp_a cp)) p1 = Some (?rt (sd_seg (tp_a cp)), p2)"
    "forest (uf_parent p2)" "root_of (uf_parent p2) = ?rt"
    using find_root_spec [OF p1(2), of "sd_seg (tp_a cp)"] p1(3) by auto
  have "pairs_inv ?rt (cps @ [cp]) (dict_append (?rt (sd_seg (tp_a cp))) cp d)"
    using p1(4) by (simp add: pairs_inv_def dict_get_list_append)
  moreover have "opt_fold class_pair_step (cps @ [cp]) (p, [])
      = Some (p2, dict_append (?rt (sd_seg (tp_a cp))) cp d)"
    by (simp add: opt_fold_snoc p1(1) class_pair_step_def p2(1))
  ultimately show ?case using p2 by blast
qed


lemma map_filter_total:
  "set xs \<subseteq> dom (map_of d) \<Longrightarrow> \<forall>i v. dict_get d i = Some v \<longrightarrow> f v = i \<Longrightarrow>
     map f (List.map_filter (dict_get d) xs) = xs"
  by (induction xs) (auto simp: List.map_filter_def)

definition class_is :: "t3_pair list \<Rightarrow> (nat \<Rightarrow> nat) \<Rightarrow> nat \<Rightarrow> t3_class \<Rightarrow> bool" where
  "class_is cps rt r c \<longleftrightarrow> 2 \<le> length (t3_occs c) \<and> t3_count c = length (t3_occs c)
     \<and> sorted (map sd_seg (t3_occs c)) \<and> distinct (map sd_seg (t3_occs c))
     \<and> set (map sd_seg (t3_occs c)) = {x\<in>mentioned cps. rt x = r}"

lemma class_is_id [simp]: "class_is cps rt r (c\<lparr>t3_id := i\<rparr>) = class_is cps rt r c"
  by (simp add: class_is_def)

lemma t3_class_of_ok:
  assumes occ: "occ_inv cps st" and pairs: "pairs_inv rt cps d" and comp: "comp_inv rt cps comps"
    and same: "\<forall>cp\<in>set cps. rt (sd_seg (tp_a cp)) = rt (sd_seg (tp_b cp))"
    and mem: "(r, ids) \<in> set comps"
  shows "\<exists>cs. t3_class_of (cl_occ st) d (r, ids) = Inr cs \<and> (\<forall>c\<in>set cs. class_is cps rt r c)
     \<and> (2 \<le> card {x\<in>mentioned cps. rt x = r} \<longrightarrow> cs \<noteq> [])"
proof -
  have ids: "distinct ids" "set ids = {x\<in>mentioned cps. rt x = r}"
    and r: "r \<in> rt ` mentioned cps"
  proof -
    have "distinct (dict_keys comps)" "set (dict_keys comps) = rt ` mentioned cps"
      and get: "distinct (dict_get_list comps r)" "set (dict_get_list comps r) = {x\<in>mentioned cps. rt x = r}"
      using comp unfolding comp_inv_def by blast+
    with mem have "dict_get_list comps r = ids" by (simp add: dict_get_list_def)
    with get show "distinct ids" "set ids = {x\<in>mentioned cps. rt x = r}" by simp_all
    show "r \<in> rt ` mentioned cps" using mem comp unfolding comp_inv_def by force
  qed
  let ?occs = "List.map_filter (dict_get (cl_occ st)) (sort ids)"
  have segs: "map sd_seg ?occs = sort ids"
    by (rule map_filter_total) (use occ ids(2) in \<open>auto simp: occ_inv_def\<close>)
  then have len: "length ?occs = length ids" by (metis length_map length_sort)
  have card: "length ids = card {x\<in>mentioned cps. rt x = r}"
    using ids by (metis distinct_card)
  obtain cp where cp: "cp \<in> set cps" "rt (sd_seg (tp_a cp)) = r"
    using r same unfolding mentioned_def by auto
  then have "dict_get_list d r \<noteq> []" using pairs by (auto simp: pairs_inv_def filter_empty_conv)
  then obtain s ss where sims: "map tp_similarity (dict_get_list d r) = s # ss"
    by (cases "dict_get_list d r") auto
  show ?thesis
  proof (cases "length ids < 2")
    case True
    then have "t3_class_of (cl_occ st) d (r, ids) = Inr []"
      by (simp add: t3_class_of_def len Let_def)
    with True card show ?thesis by simp
  next
    case False
    then obtain c where c: "t3_class_of (cl_occ st) d (r, ids) = Inr [c]" "t3_occs c = ?occs"
      "t3_count c = length ?occs"
      by (simp add: t3_class_of_def len sims Let_def)
    have "class_is cps rt r c"
      unfolding class_is_def c(2,3) segs len using False ids by simp
    with c(1) show ?thesis by simp
  qed
qed

lemma py_flatmap_each:
  assumes "\<And>x. x \<in> set xs \<Longrightarrow> \<exists>ys. f x = Inr ys \<and> P x ys"
  shows "\<exists>yss. py_flatmap f xs = Inr (concat yss) \<and> list_all2 P xs yss"
  using py_seq_each [of xs f P] assms by (auto simp: py_flatmap_def)

lemma cluster_pairs_spec:
  shows "\<exists>classes. cluster_pairs cps = Inr classes \<and> map t3_id classes = [1..<Suc (length classes)]
    \<and> (\<forall>c\<in>set classes. 2 \<le> length (t3_occs c) \<and> t3_count c = length (t3_occs c)
         \<and> sorted (map sd_seg (t3_occs c)) \<and> distinct (map sd_seg (t3_occs c))
         \<and> (\<exists>x\<in>mentioned cps. set (map sd_seg (t3_occs c)) =
              {y\<in>mentioned cps. (x, y) \<in> connected (set (map pair_segs cps))}))
    \<and> (\<forall>cp\<in>set cps. fst (pair_segs cp) \<noteq> snd (pair_segs cp) \<longrightarrow>
         (\<exists>c\<in>set classes. {fst (pair_segs cp), snd (pair_segs cp)} \<subseteq> set (map sd_seg (t3_occs c))))"
proof -
  let ?E = "set (map pair_segs cps)"
  obtain st where st: "opt_fold cluster_step cps \<lparr>cl_parent = [], cl_best = [], cl_occ = []\<rparr> = Some st"
    "occ_inv cps st" "opt_fold (\<lambda>(a, b). uf_union a b) (map pair_segs cps) [] = Some (cl_parent st)"
    "forest (uf_parent (cl_parent st))" using cluster_fold by blast
  define rt where "rt = root_of (uf_parent (cl_parent st))"
  have rt: "rt x = rt y \<longleftrightarrow> (x, y) \<in> connected ?E" for x y
    using uf.join_all [of "map pair_segs cps"] st(3) unfolding rt_def same_root_def [symmetric] by auto
  have same: "rt (sd_seg (tp_a cp)) = rt (sd_seg (tp_b cp))" if "cp \<in> set cps" for cp
    unfolding rt connected_def using that by (force simp: pair_segs_def)
  obtain p1 comps where p1: "opt_fold component_step cps (cl_parent st, []) = Some (p1, comps)"
    "forest (uf_parent p1)" "root_of (uf_parent p1) = rt" "comp_inv rt cps comps"
    using component_fold [OF st(4), of cps] same unfolding rt_def by blast
  obtain p2 d where p2: "opt_fold class_pair_step cps (p1, []) = Some (p2, d)" "pairs_inv rt cps d"
    using class_pair_fold [OF p1(2), of cps] p1(3) by auto
  let ?sorted = "sort_key (\<lambda>(root, ids). - int (length ids)) comps"
  let ?P = "\<lambda>(r, ids) cs. (\<forall>c\<in>set cs. class_is cps rt r c)
      \<and> (2 \<le> card {x\<in>mentioned cps. rt x = r} \<longrightarrow> cs \<noteq> [])"
  have "\<exists>cs. t3_class_of (cl_occ st) d x = Inr cs \<and> ?P x cs" if "x \<in> set ?sorted" for x
  proof -
    obtain r ids where x: "x = (r, ids)" by (cases x)
    with that have "(r, ids) \<in> set comps" by simp
    from t3_class_of_ok [OF st(2) p2(2) p1(4) _ this] same show ?thesis unfolding x by auto
  qed
  from py_flatmap_each [of ?sorted "t3_class_of (cl_occ st) d" ?P, OF this] obtain css where
    css: "py_flatmap (t3_class_of (cl_occ st) d) ?sorted = Inr (concat css)" "list_all2 ?P ?sorted css"
    by blast
  let ?cs = "map (\<lambda>(i, c). c\<lparr>t3_id := i\<rparr>) (enumerate 1 (concat css))"
  have res: "cluster_pairs cps = Inr ?cs"
    by (simp add: cluster_pairs_def st(1) p1(1) p2(1) css(1))
  have "map t3_id (map (\<lambda>(i, c). c\<lparr>t3_id := i\<rparr>) (enumerate k xs)) = [k..<k + length xs]" for k xs
    by (induction xs arbitrary: k) (auto simp: upt_conv_Cons simp del: upt_Suc)
  from this [of 1 "concat css"] have ids: "map t3_id ?cs = [1..<Suc (length ?cs)]" by simp
  have each: "\<exists>r. class_is cps rt r c \<and> r \<in> set (dict_keys comps)" if "c \<in> set (concat css)" for c
  proof -
    from that obtain cs where "cs \<in> set css" "c \<in> set cs" by auto
    then obtain j where j: "j < length css" "css ! j = cs" by (auto simp: in_set_conv_nth)
    from list_all2_nthD2 [OF css(2) j(1)] have "?P (?sorted ! j) cs" unfolding j(2) .
    moreover have "j < length ?sorted" using j(1) list_all2_lengthD [OF css(2)] by simp
    then have "?sorted ! j \<in> set ?sorted" by (rule nth_mem)
    ultimately have pj: "?P (?sorted ! j) cs" "?sorted ! j \<in> set ?sorted" by blast+
    obtain r rids where rj: "?sorted ! j = (r, rids)" by (cases "?sorted ! j")
    with pj \<open>c \<in> set cs\<close> have "class_is cps rt r c" "(r, rids) \<in> set comps" by auto
    then show ?thesis by force
  qed
  have comps_keys: "set (dict_keys comps) = rt ` mentioned cps"
    using p1(4) unfolding comp_inv_def by (elim conjE)
  have good: "2 \<le> length (t3_occs c) \<and> t3_count c = length (t3_occs c)
         \<and> sorted (map sd_seg (t3_occs c)) \<and> distinct (map sd_seg (t3_occs c))
         \<and> (\<exists>x\<in>mentioned cps. set (map sd_seg (t3_occs c)) =
              {y\<in>mentioned cps. (x, y) \<in> connected ?E})" if "c \<in> set ?cs" for c
  proof -
    from that obtain i c0 where c0: "(i, c0) \<in> set (enumerate 1 (concat css))" "c = c0\<lparr>t3_id := i\<rparr>" by auto
    from each [OF enumerate_memD [OF c0(1)]] obtain r where
      r: "class_is cps rt r c" "r \<in> set (dict_keys comps)" by (auto simp: c0(2))
    have "r \<in> rt ` mentioned cps" using r(2) unfolding comps_keys .
    then obtain x where x: "x \<in> mentioned cps" "rt x = r" by (elim imageE) simp
    have "rt y = r \<longleftrightarrow> (x, y) \<in> connected ?E" for y using rt [of x y] x(2) by metis
    then have "{y\<in>mentioned cps. rt y = r} = {y\<in>mentioned cps. (x, y) \<in> connected ?E}" by simp
    with r(1) x(1) show ?thesis unfolding class_is_def by blast
  qed
  have complete: "\<exists>c\<in>set ?cs. {fst (pair_segs cp), snd (pair_segs cp)} \<subseteq> set (map sd_seg (t3_occs c))"
    if cp: "cp \<in> set cps" "fst (pair_segs cp) \<noteq> snd (pair_segs cp)" for cp
  proof -
    let ?a = "sd_seg (tp_a cp)" and ?b = "sd_seg (tp_b cp)"
    let ?r = "rt ?a"
    have ab: "{?a, ?b} \<subseteq> {x\<in>mentioned cps. rt x = ?r}" "?a \<noteq> ?b"
      using cp same [OF cp(1)] by (auto simp: mentioned_def pair_segs_def)
    have "finite {x\<in>mentioned cps. rt x = ?r}" by (simp add: mentioned_def)
    from card_mono [OF this ab(1)] ab(2) have two: "2 \<le> card {x\<in>mentioned cps. rt x = ?r}" by simp
    have "?r \<in> set (dict_keys comps)" unfolding comps_keys using ab(1) by simp
    then obtain rids where "(?r, rids) \<in> set ?sorted" by force
    then obtain j where j: "j < length ?sorted" "?sorted ! j = (?r, rids)"
      unfolding in_set_conv_nth by blast
    have "?P (?r, rids) (css ! j)" using list_all2_nthD [OF css(2) j(1)] unfolding j(2) .
    moreover have "css ! j \<in> set css" using j(1) list_all2_lengthD [OF css(2)] by simp
    ultimately have "css ! j \<noteq> []" "\<forall>c\<in>set (css ! j). class_is cps rt ?r c" "css ! j \<in> set css"
      using two by simp_all
    then obtain c where c: "c \<in> set (concat css)" "class_is cps rt ?r c"
      by (metis UN_I hd_in_set set_concat)
    from enumerate_memI [OF c(1)] obtain i where "(i, c) \<in> set (enumerate 1 (concat css))" by blast
    then have "c\<lparr>t3_id := i\<rparr> \<in> set ?cs" by force
    moreover have "{fst (pair_segs cp), snd (pair_segs cp)} \<subseteq> set (map sd_seg (t3_occs (c\<lparr>t3_id := i\<rparr>)))"
      using c(2) ab(1) unfolding class_is_def by (simp add: pair_segs_def)
    ultimately show ?thesis by blast
  qed
  show ?thesis using res ids good complete by blast
qed


text \<open>
  C17. Clustering near-miss pairs always returns, numbers the classes from 1, and the segments of each
  class are one connected component of the pairs, with one occurrence per segment; every pair of two
  different segments is inside one class.
\<close>
theorem near_miss_classes_are_components:
  "\<exists>classes. cluster_pairs cps = Inr classes \<and> map t3_id classes = [1..<Suc (length classes)]
    \<and> (\<forall>c\<in>set classes. 2 \<le> length (t3_occs c) \<and> t3_count c = length (t3_occs c)
         \<and> sorted (map sd_seg (t3_occs c)) \<and> distinct (map sd_seg (t3_occs c))
         \<and> (\<exists>x\<in>mentioned cps. set (map sd_seg (t3_occs c)) =
              {y\<in>mentioned cps. (x, y) \<in> connected (set (map pair_segs cps))}))
    \<and> (\<forall>cp\<in>set cps. fst (pair_segs cp) \<noteq> snd (pair_segs cp) \<longrightarrow>
         (\<exists>c\<in>set classes. {fst (pair_segs cp), snd (pair_segs cp)} \<subseteq> set (map sd_seg (t3_occs c))))"
  by (rule cluster_pairs_spec)

definition sample_side :: "nat \<Rightarrow> t3_side" where
  "sample_side i = \<lparr>sd_seg = i, sd_start = 0, sd_end = 3, sd_scope = [], sd_file = [],
                    sd_language = ''c'', sd_stmts = [], sd_diffs = [1]\<rparr>"

definition sample_pair :: "nat \<Rightarrow> nat \<Rightarrow> t3_pair" where
  "sample_pair i j = \<lparr>tp_a = sample_side i, tp_b = sample_side j,
                      tp_similarity = fl_ratio 9 10, tp_length = 4\<rparr>"

theorem near_miss_classes_are_components_witness:
  "\<exists>classes. cluster_pairs [sample_pair 1 2, sample_pair 3 4, sample_pair 2 3] = Inr classes
    \<and> map t3_id classes = [1..<Suc (length classes)]
    \<and> (\<forall>c\<in>set classes. 2 \<le> length (t3_occs c) \<and> t3_count c = length (t3_occs c)
         \<and> sorted (map sd_seg (t3_occs c)) \<and> distinct (map sd_seg (t3_occs c))
         \<and> (\<exists>x\<in>mentioned [sample_pair 1 2, sample_pair 3 4, sample_pair 2 3].
              set (map sd_seg (t3_occs c)) =
              {y\<in>mentioned [sample_pair 1 2, sample_pair 3 4, sample_pair 2 3].
                 (x, y) \<in> connected (set (map pair_segs [sample_pair 1 2, sample_pair 3 4, sample_pair 2 3]))}))
    \<and> (\<forall>cp\<in>set [sample_pair 1 2, sample_pair 3 4, sample_pair 2 3].
         fst (pair_segs cp) \<noteq> snd (pair_segs cp) \<longrightarrow>
         (\<exists>c\<in>set classes. {fst (pair_segs cp), snd (pair_segs cp)} \<subseteq> set (map sd_seg (t3_occs c))))"
  by (rule near_miss_classes_are_components)

lemma connected_self: "E \<subseteq> Id \<Longrightarrow> (x, y) \<in> connected E \<Longrightarrow> x = y"
  unfolding connected_def by (erule rtrancl_induct) auto

text \<open>
  A near miss between two windows of one segment is found and filtered like any other pair, but
  clustering drops it: pairs inside single segments produce no class.
\<close>
lemma near_miss_inside_a_segment_is_dropped:
  "cluster_pairs (map (\<lambda>i. \<lparr>tp_a = side_a i, tp_b = side_b i\<lparr>sd_seg := sd_seg (side_a i)\<rparr>,
                            tp_similarity = sim i, tp_length = len i\<rparr>) xs) = Inr []"
proof -
  let ?cps = "map (\<lambda>i. \<lparr>tp_a = side_a i, tp_b = side_b i\<lparr>sd_seg := sd_seg (side_a i)\<rparr>,
                       tp_similarity = sim i, tp_length = len i\<rparr>) xs"
  have self: "set (map pair_segs ?cps) \<subseteq> Id" by (auto simp: pair_segs_def)
  obtain classes where c: "cluster_pairs ?cps = Inr classes"
    "\<forall>c\<in>set classes. 2 \<le> length (t3_occs c) \<and> t3_count c = length (t3_occs c)
         \<and> sorted (map sd_seg (t3_occs c)) \<and> distinct (map sd_seg (t3_occs c))
         \<and> (\<exists>x\<in>mentioned ?cps. set (map sd_seg (t3_occs c)) =
              {y\<in>mentioned ?cps. (x, y) \<in> connected (set (map pair_segs ?cps))})"
    using cluster_pairs_spec [of ?cps] by blast
  have "False" if "c \<in> set classes" for c
  proof -
    from c(2) that obtain x where x: "2 \<le> length (t3_occs c)" "distinct (map sd_seg (t3_occs c))"
      "set (map sd_seg (t3_occs c)) = {y\<in>mentioned ?cps. (x, y) \<in> connected (set (map pair_segs ?cps))}"
      by blast
    then have "set (map sd_seg (t3_occs c)) \<subseteq> {x}" using connected_self [OF self] by blast
    then have "card (set (map sd_seg (t3_occs c))) \<le> card {x}" by (intro card_mono) auto
    with x(1,2) show False by (metis One_nat_def Suc_1 card.empty card_insert_disjoint distinct_card
        empty_iff finite.emptyI length_map not_less_eq_eq)
  qed
  then have "classes = []" by (cases classes) auto
  with c(1) show ?thesis by simp
qed

section \<open>Symmetric pairs\<close>

lemma insert_by_mset: "mset (insert_by lt x ys) = add_mset x (mset ys)"
  by (induction ys) auto

lemma sort_by_mset: "mset (sort_by lt xs) = mset xs"
  by (induction xs) (simp_all add: sort_by_def insert_by_mset)

lemma set_sort_by: "set (sort_by lt xs) = set xs"
  using sort_by_mset [of lt xs] by (metis set_mset_mset)

lemma best_step_keys:
  assumes "distinct (dict_keys d)" "\<forall>(k, cp)\<in>set d. pair_key cp = k"
  shows "distinct (dict_keys (best_step p d)) \<and> (\<forall>(k, cp)\<in>set (best_step p d). pair_key cp = k)"
proof -
  have "set (dict_set (pair_key p) p d) \<subseteq> insert (pair_key p, p) (set d)" by (induction d) auto
  with assms(2) have "\<forall>(k, cp)\<in>set (dict_set (pair_key p) p d). pair_key cp = k" by auto
  with assms show ?thesis by (simp add: best_step_def split: option.splits)
qed

lemma best_fold_keys:
  "distinct (dict_keys d) \<Longrightarrow> \<forall>(k, cp)\<in>set d. pair_key cp = k \<Longrightarrow>
     distinct (dict_keys (fold best_step ps d)) \<and> (\<forall>(k, cp)\<in>set (fold best_step ps d). pair_key cp = k)"
proof (induction ps arbitrary: d)
  case (Cons p ps)
  note step = best_step_keys [OF Cons.prems, of p]
  from Cons.IH [OF conjunct1 [OF step] conjunct2 [OF step]] show ?case by simp
qed simp

lemma best_pairs_distinct: "distinct (map pair_key (best_pairs pairs))"
proof -
  have keys: "map pair_key (map snd d) = dict_keys d" if "\<forall>(k, cp)\<in>set d. pair_key cp = k"
    for d :: "(nat \<times> nat, near_miss) dict"
    using that by (induction d) auto
  have fold: "distinct (dict_keys (fold best_step pairs []))"
    "\<forall>(k, cp)\<in>set (fold best_step pairs []). pair_key cp = k"
    using best_fold_keys [of "[]" pairs] by auto
  show ?thesis unfolding best_pairs_def keys [OF fold(2)] by (rule fold(1))
qed


definition enrich :: "(nat, jseg) dict \<Rightarrow> near_miss \<Rightarrow> t3_pair py" where
  "enrich by_id cp =
     py_bind (side_of by_id (nm_seg_a cp) (nm_start_a cp) (nm_end_a cp) (nm_diffs_a cp)) (\<lambda>sa.
     py_bind (side_of by_id (nm_seg_b cp) (nm_start_b cp) (nm_end_b cp) (nm_diffs_b cp)) (\<lambda>sb.
     Inr \<lparr>tp_a = sa, tp_b = sb, tp_similarity = nm_similarity cp, tp_length = nm_length cp\<rparr>))"

definition region_key :: "nat \<times> nat \<times> nat \<times> nat \<Rightarrow> nat \<times> nat" where
  "region_key = (\<lambda>(a, sa, b, sb). (min a b, max a b))"

lemma dedup_fresh:
  assumes "pair_key cp \<notin> region_key ` set regions"
  shows "dedup_step by_id cp (regions, filtered) =
    py_bind (enrich by_id cp) (\<lambda>p.
      Inr (regions @ [(nm_seg_a cp, nm_start_a cp, nm_seg_b cp, nm_start_b cp)], filtered @ [p]))"
proof -
  have "(nm_seg_a cp, nm_start_a cp, nm_seg_b cp, nm_start_b cp) \<notin> set regions"
    using assms by (force simp: pair_key_def region_key_def)
  moreover have "(nm_seg_b cp, nm_start_b cp, nm_seg_a cp, nm_start_a cp) \<notin> set regions"
    using assms by (force simp: pair_key_def region_key_def min.commute max.commute)
  ultimately show ?thesis
    by (simp add: dedup_step_def enrich_def Let_def py_bind_def split: sum.splits)
qed

lemma dedup_all:
  "distinct (map pair_key cps) \<Longrightarrow> pair_key ` set cps \<inter> region_key ` set regions = {} \<Longrightarrow>
     py_bind (py_fold (dedup_step by_id) cps (regions, filtered)) (\<lambda>(_, f). Inr f) =
     py_bind (py_seq (map (enrich by_id) cps)) (\<lambda>ps. Inr (filtered @ ps))"
proof (induction cps arbitrary: regions filtered)
  case (Cons cp cps)
  let ?q = "(nm_seg_a cp, nm_start_a cp, nm_seg_b cp, nm_start_b cp)"
  have fresh: "pair_key cp \<notin> region_key ` set regions" using Cons.prems(2) by auto
  have "region_key ?q = pair_key cp" by (simp add: region_key_def pair_key_def)
  then have "pair_key ` set cps \<inter> region_key ` set (regions @ [?q]) = {}" using Cons.prems by auto
  note IH = Cons.IH [OF _ this]
  show ?case
  proof (cases "enrich by_id cp")
    case (Inl e)
    then show ?thesis by (simp add: dedup_fresh [OF fresh])
  next
    case (Inr p)
    have "distinct (map pair_key cps)" using Cons.prems(1) by simp
    from IH [OF this, of "filtered @ [p]"] show ?thesis
      using Inr by (simp add: dedup_fresh [OF fresh] py_bind_def split: sum.splits)
  qed
qed simp

lemma py_filter_distinct:
  "py_filter f xs = Inr ys \<Longrightarrow> distinct (map g xs) \<Longrightarrow> distinct (map g ys) \<and> set ys \<subseteq> set xs"
proof (induction xs arbitrary: ys)
  case (Cons x xs)
  from Cons.prems(1) obtain b zs where "f x = Inr b" "py_filter f xs = Inr zs"
    "ys = (if b then x # zs else zs)" by (auto simp: py_bind_eq_Inr)
  with Cons.IH [of zs] Cons.prems(2) show ?case by (auto simp: image_iff)
qed simp

lemma filter_pairs_spec:
  "filter_pairs by_id pairs =
     py_bind (py_filter diff_ratio_ok (best_pairs (maximal_pairs pairs))) (\<lambda>kept.
       py_seq (map (enrich by_id) (sort_by closer_first kept)))"
proof (cases "py_filter diff_ratio_ok (best_pairs (maximal_pairs pairs))")
  case (Inl e)
  then show ?thesis by (simp add: filter_pairs_def)
next
  case (Inr kept)
  from py_filter_distinct [OF Inr best_pairs_distinct] have "distinct (map pair_key kept)" by simp
  moreover have "mset (map pair_key (sort_by closer_first kept)) = mset (map pair_key kept)"
    by (simp add: sort_by_mset)
  ultimately have "distinct (map pair_key (sort_by closer_first kept))"
    by (metis mset_eq_imp_distinct_iff)
  from dedup_all [OF this, of "[]" by_id "[]"] show ?thesis
    using Inr by (simp add: filter_pairs_def py_bind_def split: sum.splits)
qed

text \<open>
  The pass that removes symmetric duplicates never removes anything: since one pair per unordered
  pair of segments is left before it, filtering equals sorting the kept pairs and adding the data of
  their segments.
\<close>
lemma symmetric_dedup_is_redundant:
  "filter_pairs by_id pairs =
     py_bind (py_filter diff_ratio_ok (best_pairs (maximal_pairs pairs))) (\<lambda>kept.
       py_seq (map (enrich by_id) (sort_by closer_first kept)))"
  by (rule filter_pairs_spec)

end
