(* ===== verification/Braces.thy ===== *)
theory Braces
  imports Literals
begin

text \<open>
  The block structure of a C file in \<open>cdup/src/parse.py\<close>: the scanner that finds braces and
  parentheses outside comments and literals (first loop of \<open>parse_c_file\<close>), the pairing of brackets
  (\<open>_pair_opn_cls\<close>), the parent of every block (\<open>_find_nested_pairs\<close>) and the text of every block
  (\<open>_parse_code_segs\<close>).
\<close>

section \<open>The scanner\<close>

text \<open>At most one of the four flags \<open>in_line_comment\<close> ... \<open>in_char_literal\<close> is set.\<close>

datatype scan_mode = InCode | InLineComment | InBlockComment | InString | InCharLiteral

record bracket_scan =
  bk_b_seq :: "nat list"
  bk_open_b :: "nat list"
  bk_cls_b :: "nat list"
  bk_p_seq :: "nat list"
  bk_open_p :: "nat list"
  bk_cls_p :: "nat list"

definition no_brackets :: bracket_scan where
  "no_brackets = \<lparr>bk_b_seq = [], bk_open_b = [], bk_cls_b = [], bk_p_seq = [], bk_open_p = [], bk_cls_p = []\<rparr>"

text \<open>The look-back over blanks: is the brace preceded by an equals sign? The text so far is reversed.\<close>

definition after_equals :: "string \<Rightarrow> bool" where
  "after_equals prev =
     (case dropWhile (\<lambda>c. c \<in> {CHR '' '', CHR 0x09, CHR 0x0A, CHR 0x0D}) prev of
        [] \<Rightarrow> False | c # _ \<Rightarrow> c = CHR ''='')"

text \<open>The last branches of the loop, for the character \<open>c\<close> at position \<open>i\<close> of code.\<close>

definition scan_bracket ::
  "string \<Rightarrow> nat \<Rightarrow> char \<Rightarrow> nat \<times> bracket_scan \<Rightarrow> nat \<times> bracket_scan" where
  "scan_bracket prev i c = (\<lambda>(initializer_depth, st).
     if c = CHR ''{'' then
       (if after_equals prev \<or> 0 < initializer_depth then (initializer_depth + 1, st)
        else (initializer_depth, st\<lparr>bk_b_seq := bk_b_seq st @ [1], bk_open_b := bk_open_b st @ [i + 1]\<rparr>))
     else if c = CHR ''}'' then
       (if 0 < initializer_depth then (initializer_depth - 1, st)
        else (initializer_depth, st\<lparr>bk_b_seq := bk_b_seq st @ [0], bk_cls_b := bk_cls_b st @ [i]\<rparr>))
     else if c = CHR ''('' then
       (initializer_depth, st\<lparr>bk_p_seq := bk_p_seq st @ [1], bk_open_p := bk_open_p st @ [i + 1]\<rparr>)
     else if c = CHR '')'' then
       (initializer_depth, st\<lparr>bk_p_seq := bk_p_seq st @ [0], bk_cls_p := bk_cls_p st @ [i]\<rparr>)
     else (initializer_depth, st))"

text \<open>
  One round of the loop: the mode after it, how many characters it moves on and the new state.
  \<open>i += 2\<close> may move past the end of the text.
\<close>

definition scan_step_at ::
  "string \<Rightarrow> nat \<Rightarrow> scan_mode \<Rightarrow> char \<Rightarrow> string \<Rightarrow> nat \<times> bracket_scan \<Rightarrow>
     scan_mode \<times> nat \<times> nat \<times> bracket_scan" where
  "scan_step_at prev i mode c rest st =
     (case mode of
        InLineComment \<Rightarrow> (if c = newline then InCode else InLineComment, 1, st)
      | InBlockComment \<Rightarrow>
          if startswith (c # rest) ''*/'' then (InCode, 2, st) else (InBlockComment, 1, st)
      | InString \<Rightarrow>
          if c = bslash then (InString, 2, st)
          else if c = dquote then (InCode, 1, st) else (InString, 1, st)
      | InCharLiteral \<Rightarrow>
          if c = bslash then (InCharLiteral, 2, st)
          else if c = squote then (InCode, 1, st) else (InCharLiteral, 1, st)
      | InCode \<Rightarrow>
          if startswith (c # rest) ''//'' then (InLineComment, 2, st)
          else if startswith (c # rest) ''/*'' then (InBlockComment, 2, st)
          else if c = dquote then (InString, 1, st)
          else if c = squote then (InCharLiteral, 1, st)
          else (InCode, 1, scan_bracket prev i c st))"

lemma scan_step_moves: "scan_step_at prev i mode c rest st = (mode', n, st') \<Longrightarrow> 0 < n"
  by (auto simp: scan_step_at_def split: scan_mode.splits if_splits)

function scan_from ::
  "string \<Rightarrow> nat \<Rightarrow> scan_mode \<Rightarrow> string \<Rightarrow> nat \<times> bracket_scan \<Rightarrow> nat \<times> bracket_scan" where
  "scan_from prev i mode [] st = st"
| "scan_from prev i mode (c # rest) st =
     (let (mode', n, st') = scan_step_at prev i mode c rest st
      in scan_from (rev (take n (c # rest)) @ prev) (i + n) mode' (drop n (c # rest)) st')"
  by pat_completeness auto
termination
  by (relation "measure (\<lambda>(prev, i, mode, rest, st). length rest)")
     (auto dest!: scan_step_moves [OF sym])

definition scan_brackets :: "string \<Rightarrow> bracket_scan" where
  "scan_brackets file_str = snd (scan_from [] 0 InCode file_str (0, no_brackets))"

section \<open>Pairs and parents\<close>

text \<open>\<open>_pair_opn_cls\<close>; \<open>stack.pop()\<close> on an empty stack raises \<open>IndexError\<close>.\<close>

fun pair_opn_cls ::
  "nat list \<Rightarrow> nat list \<Rightarrow> nat list \<Rightarrow> nat list \<Rightarrow> (nat \<times> nat) list py" where
  "pair_opn_cls [] open_idx cls_idx stack = Inr []"
| "pair_opn_cls (b # bs) open_idx cls_idx stack =
     (if b = 1
      then (case open_idx of
              [] \<Rightarrow> Inl IndexError
            | o1 # os \<Rightarrow> pair_opn_cls bs os cls_idx (o1 # stack))
      else (case stack of
              [] \<Rightarrow> Inl IndexError
            | o1 # stack' \<Rightarrow>
                (case cls_idx of
                   [] \<Rightarrow> Inl IndexError
                 | c1 # cs \<Rightarrow>
                     py_bind (pair_opn_cls bs open_idx cs stack') (\<lambda>pairs. Inr ((o1, c1) # pairs)))))"

text \<open>
  \<open>_find_nested_pairs\<close>. The entries of \<open>parents\<close> are written in the order of \<open>pair_idx\<close>, so the
  array is built from left to right; a block without an enclosing one is its own parent.
\<close>

fun find_nested_pairs :: "nat list \<Rightarrow> nat list \<Rightarrow> nat \<Rightarrow> nat list py" where
  "find_nested_pairs [] stack pair_idx = Inr []"
| "find_nested_pairs (b # bs) stack pair_idx =
     (if b = 1
      then py_bind (find_nested_pairs bs (pair_idx # stack) (Suc pair_idx)) (\<lambda>parents.
             Inr ((case stack of [] \<Rightarrow> pair_idx | p # _ \<Rightarrow> p) # parents))
      else (case stack of
              [] \<Rightarrow> Inl IndexError
            | _ # stack' \<Rightarrow> find_nested_pairs bs stack' pair_idx))"

section \<open>The text of every block\<close>

text \<open>\<open>s[a:b]\<close> for bounds that are not negative.\<close>

definition slice :: "nat \<Rightarrow> nat \<Rightarrow> 'a list \<Rightarrow> 'a list" where
  "slice a b s = take (b - a) (drop a s)"

definition cut :: "nat \<Rightarrow> nat \<Rightarrow> 'a list \<Rightarrow> 'a list" where
  "cut a b s = take a s @ drop b s"

text \<open>\<open>sorted(range(n), key=..., reverse=True)\<close>: stable, so ties keep their order.\<close>

definition from_last :: "(nat \<times> nat) list \<Rightarrow> nat list" where
  "from_last pairs = sort_key (\<lambda>i. - int (fst (pairs ! i))) [0..<length pairs]"

definition cut_child ::
  "(nat \<times> nat) list \<Rightarrow> nat list \<Rightarrow> nat \<Rightarrow> string list \<Rightarrow> string list py" where
  "cut_child pairs parents i segs =
     py_bind (py_nth parents i) (\<lambda>parent.
       if parent = i then Inr segs
       else py_bind (py_nth pairs parent) (\<lambda>(parent_start, _).
            py_bind (py_nth pairs i) (\<lambda>(open_pos, close_pos).
            py_bind (py_nth segs parent) (\<lambda>seg.
            Inr (segs[parent := cut (open_pos - parent_start) (close_pos - parent_start) seg])))))"

definition cut_root ::
  "(nat \<times> nat) list \<Rightarrow> nat list \<Rightarrow> nat \<Rightarrow> string \<Rightarrow> string py" where
  "cut_root pairs parents i root_seg =
     py_bind (py_nth parents i) (\<lambda>parent.
       if parent \<noteq> i then Inr root_seg
       else py_bind (py_nth pairs i) (\<lambda>(open_pos, close_pos). Inr (cut open_pos close_pos root_seg)))"

definition parse_code_segs ::
  "string \<Rightarrow> (nat \<times> nat) list \<Rightarrow> nat list \<Rightarrow> string list py" where
  "parse_code_segs file_str pairs parents =
     (let raw_segs = map (\<lambda>(a, b). slice a b file_str) pairs
      in py_bind (py_fold (cut_child pairs parents) (from_last pairs) raw_segs) (\<lambda>segs.
         py_bind (py_fold (cut_root pairs parents) (from_last pairs) file_str) (\<lambda>root_seg.
         Inr (root_seg # segs))))"

text \<open>
  The start of \<open>parse_c_file\<close>: the texts of the root and of every block, and the parent ids shifted
  by the root. The parenthesis pairs are computed too, and only for their exceptions.
\<close>

definition sorted_pairs :: "nat list \<Rightarrow> nat list \<Rightarrow> nat list \<Rightarrow> (nat \<times> nat) list py" where
  "sorted_pairs bs open_idx cls_idx =
     py_bind (pair_opn_cls bs open_idx cls_idx []) (\<lambda>pairs. Inr (sort_key fst pairs))"

definition shift_parents :: "nat list \<Rightarrow> nat list" where
  "shift_parents parents =
     0 # map (\<lambda>(i, p). if p = i then 0 else p + 1) (enumerate 0 parents)"

definition code_blocks :: "string \<Rightarrow> (string list \<times> nat list) py" where
  "code_blocks file_str =
     (let st = scan_brackets file_str
      in py_bind (sorted_pairs (bk_b_seq st) (bk_open_b st) (bk_cls_b st)) (\<lambda>bpairs.
         py_bind (sorted_pairs (bk_p_seq st) (bk_open_p st) (bk_cls_p st)) (\<lambda>ppairs.
         py_bind (find_nested_pairs (bk_b_seq st) [] 0) (\<lambda>bparents.
         py_bind (find_nested_pairs (bk_p_seq st) [] 0) (\<lambda>pparents.
         py_bind (parse_code_segs file_str bpairs bparents) (\<lambda>bsegs.
         py_bind (parse_code_segs file_str ppairs pparents) (\<lambda>_.
         Inr (bsegs, shift_parents bparents))))))))"

end
