(* ===== verification/Statements.thy ===== *)
theory Statements
  imports Literals
begin

text \<open>
  \<open>_parse_statements\<close> of \<open>cdup/src/parse.py\<close>: the text of a block, with its child blocks reduced to
  \<open>{}\<close>, is split into raw statements. The loop over the index \<open>i\<close> is a recursion on the rest of the
  text; \<open>current\<close> and \<open>depth\<close> are its state and the statements are returned in order.
\<close>

section \<open>Parts of the loop\<close>

text \<open>The inner loop of a literal, after its opening quote: the text copied and the rest.\<close>

fun take_quoted :: "char \<Rightarrow> string \<Rightarrow> string \<times> string" where
  "take_quoted q [] = ([], [])"
| "take_quoted q (c # s) =
     (if c = bslash
      then (case s of
              [] \<Rightarrow> ([c], [])
            | d # s' \<Rightarrow> (let (u, r) = take_quoted q s' in (c # d # u, r)))
      else if c = q then ([c], s)
      else (let (u, r) = take_quoted q s in (c # u, r)))"

text \<open>The loop of a block comment starts at its opening, so the star of the opening can close it.\<close>

fun take_block_comment :: "string \<Rightarrow> string \<times> string" where
  "take_block_comment [] = ([], [])"
| "take_block_comment (c # s) =
     (if startswith (c # s) ''*/'' then (''*/'', drop 1 s)
      else (let (u, r) = take_block_comment s in (c # u, r)))"

text \<open>The tail of a do loop, up to a semicolon outside parentheses.\<close>

fun do_tail :: "int \<Rightarrow> string \<Rightarrow> string \<times> int \<times> string" where
  "do_tail depth [] = ([], depth, [])"
| "do_tail depth (c # s) =
     (if c = CHR '';'' \<and> depth = 0 then ([c], depth, s)
      else (let (u, depth', r) =
                  do_tail (if c = CHR ''('' then depth + 1 else if c = CHR '')'' then depth - 1 else depth) s
            in (c # u, depth', r)))"

definition is_do :: "string \<Rightarrow> bool" where
  "is_do stripped \<longleftrightarrow> stripped = ''do'' \<or> startswith stripped ''do '' \<or> startswith stripped ''do{''
     \<or> startswith stripped [CHR ''d'', CHR ''o'', newline]"

text \<open>\<open>_add_statement\<close>: the statements it appends, none or one.\<close>

definition keep_directive :: "bool \<Rightarrow> bool \<Rightarrow> string \<Rightarrow> bool" where
  "keep_directive include_includes include_macros stmt =
     (if startswith stmt ''#''
      then (if startswith (lstrip_by is_space (drop 1 stmt)) ''include'' then include_includes
            else include_macros)
      else True)"

definition add_statement :: "bool \<Rightarrow> bool \<Rightarrow> string \<Rightarrow> string list" where
  "add_statement include_includes include_macros stmt =
     (if stmt = [] then []
      else if keep_directive include_includes include_macros stmt then [stmt] else [])"

definition add_comment :: "bool \<Rightarrow> string \<Rightarrow> string list" where
  "add_comment include_comments comment_str =
     (if include_comments \<and> str_strip comment_str \<noteq> [] then [str_strip comment_str] else [])"

definition add_do :: "(string \<Rightarrow> string list) \<Rightarrow> string \<Rightarrow> string \<Rightarrow> string list" where
  "add_do add pending_do tail =
     (let tail = str_strip tail
      in if startswith tail ''while'' then add (pending_do @ '' '' @ tail)
         else add pending_do @ add tail)"

lemma take_quoted_rest: "take_quoted q s = (u, r) \<Longrightarrow> s = u @ r"
  by (induction q s arbitrary: u r rule: take_quoted.induct)
     (auto split: if_splits prod.splits list.splits)

lemma take_block_comment_rest: "take_block_comment s = (u, r) \<Longrightarrow> s = u @ r"
proof (induction s arbitrary: u r rule: take_block_comment.induct)
  case (2 c s)
  then show ?case by (cases s) (auto simp: startswith_def split: if_splits prod.splits)
qed simp

lemma do_tail_rest: "do_tail depth s = (u, d, r) \<Longrightarrow> s = u @ r"
  by (induction depth s arbitrary: u d r rule: do_tail.induct) (auto split: if_splits prod.splits)

lemmas take_rest = take_quoted_rest take_block_comment_rest do_tail_rest

lemma take_length:
  "take_quoted q s = (u, r) \<Longrightarrow> length r \<le> length s"
  "take_block_comment s = (u, r) \<Longrightarrow> length r \<le> length s"
  "do_tail depth s = (u, d, r) \<Longrightarrow> length r \<le> length s"
  by (auto dest: take_rest)

section \<open>The loop\<close>

function split_statements ::
  "bool \<Rightarrow> (string \<Rightarrow> string list) \<Rightarrow> string \<Rightarrow> int \<Rightarrow> string \<Rightarrow> string list" where
  "split_statements com add current depth [] = add (str_strip current)"
| "split_statements com add current depth (c # s) =
     (if (c = dquote \<or> c = squote) \<and> depth = 0 then
        (let (u, r) = take_quoted c s in split_statements com add (current @ c # u) depth r)
      else if startswith (c # s) ''//'' \<and> depth = 0 then
        add (str_strip current) @ add_comment com (takeWhile (\<lambda>x. x \<noteq> newline) (c # s))
        @ split_statements com add [] depth (dropWhile (\<lambda>x. x \<noteq> newline) s)
      else if startswith (c # s) ''/*'' \<and> depth = 0 then
        (let (u, r) = take_block_comment s
         in add (str_strip current) @ add_comment com (c # u) @ split_statements com add [] depth r)
      else if c = CHR ''('' then split_statements com add (current @ [c]) (depth + 1) s
      else if c = CHR '')'' then split_statements com add (current @ [c]) (depth - 1) s
      else if startswith (c # s) ''{}'' \<and> depth = 0 then
        (let pending = str_strip (current @ ''{}'')
         in if is_do pending
            then (let (u, depth', r) = do_tail depth (drop 1 s)
                  in add_do add pending u @ split_statements com add [] depth' r)
            else add pending @ split_statements com add [] depth (drop 1 s))
      else if c = CHR '';'' \<and> depth = 0 then
        add (str_strip (current @ [c])) @ split_statements com add [] depth s
      else if c = newline \<and> depth = 0 \<and> startswith (str_strip current) ''#'' then
        add (str_strip current) @ split_statements com add [] depth s
      else split_statements com add (current @ [c]) depth s)"
  by pat_completeness auto
termination
  by (relation "measure (\<lambda>(com, add, current, depth, s). length s)")
     (auto dest!: take_length [OF sym] simp: le_imp_less_Suc length_dropWhile_le)

definition parse_statements :: "bool \<Rightarrow> bool \<Rightarrow> bool \<Rightarrow> string \<Rightarrow> string list" where
  "parse_statements include_comments include_includes include_macros seg =
     split_statements include_comments (add_statement include_includes include_macros) [] 0 seg"

section \<open>Stripping\<close>

definition despace :: "string \<Rightarrow> string" where
  "despace s = filter (\<lambda>c. \<not> is_space c) s"

definition trimmed :: "string \<Rightarrow> bool" where
  "trimmed s \<longleftrightarrow> s \<noteq> [] \<and> \<not> is_space (hd s) \<and> \<not> is_space (last s)"

lemma despace_append [simp]: "despace (s @ t) = despace s @ despace t"
  by (simp add: despace_def)

lemma despace_Nil [simp]: "despace [] = []"
  by (simp add: despace_def)

lemma despace_Cons: "despace (c # s) = (if is_space c then despace s else c # despace s)"
  by (simp add: despace_def)

lemma space_newline: "is_space newline"
  by (simp add: is_space_def)

lemma filter_dropWhile_none: "filter (\<lambda>c. \<not> P c) (dropWhile P s) = filter (\<lambda>c. \<not> P c) s"
  by (induction s) auto

lemma despace_strip [simp]: "despace (str_strip s) = despace s"
  by (simp add: despace_def strip_by_def rstrip_by_def lstrip_by_def rev_filter [symmetric]
      filter_dropWhile_none del: rev_filter)

lemma strip_cases: "str_strip s = [] \<or> trimmed (str_strip s)"
proof (cases "dropWhile is_space s")
  case Nil
  then show ?thesis unfolding strip_by_def lstrip_by_def rstrip_by_def by (metis dropWhile.simps(1) rev.simps(1))
next
  case (Cons c t)
  let ?d = "dropWhile is_space (rev (c # t))"
  have c: "\<not> is_space c" using hd_dropWhile [of is_space s] Cons by simp
  have "?d = dropWhile is_space (rev t) @ [c] \<or> ?d = [c]"
    using c by (simp add: dropWhile_append3)
  then have "?d \<noteq> []" "last ?d = c" by (elim disjE; simp only: snoc_eq_iff_butlast last_snoc last.simps; simp)+
  moreover from this(1) have "\<not> is_space (hd ?d)" by (rule hd_dropWhile)
  ultimately have "trimmed (rev ?d)" using c by (simp add: trimmed_def hd_rev last_rev)
  with Cons show ?thesis by (simp add: strip_by_def lstrip_by_def rstrip_by_def)
qed

section \<open>No text is lost\<close>

lemma keep_all [simp]: "keep_directive True True stmt"
  by (simp add: keep_directive_def)

lemma add_statement_despace: "despace (concat (add_statement True True stmt)) = despace stmt"
  by (simp add: add_statement_def)

lemma add_comment_despace: "despace (concat (add_comment True c)) = despace c"
proof (cases "str_strip c = []")
  case True
  then have "despace c = []" using despace_strip [of c] by simp
  with True show ?thesis by (simp add: add_comment_def)
qed (simp add: add_comment_def)

lemma add_do_despace: "despace (concat (add_do (add_statement True True) p t)) = despace p @ despace t"
  by (simp add: add_do_def Let_def add_statement_despace despace_Cons)

lemma take_line_despace:
  "despace (takeWhile (\<lambda>x. x \<noteq> newline) s) @ despace (dropWhile (\<lambda>x. x \<noteq> newline) s) = despace s"
  by (simp flip: despace_append)

lemma not_newline_slash: "startswith (c # s) ''//'' \<Longrightarrow> c \<noteq> newline"
  by (auto simp: startswith_def)

lemma braces_rest: "startswith (c # s) ''{}'' \<Longrightarrow> c # s = ''{}'' @ drop 1 s"
  by (cases s) (auto simp: startswith_def)

lemma split_statements_despace:
  "despace (concat (split_statements True (add_statement True True) cur depth s)) = despace cur @ despace s"
proof (induction True "add_statement True True" cur depth s rule: split_statements.induct)
  case (1 current depth)
  show ?case by (simp add: add_statement_despace)
next
  case (2 current depth c s)
  note simps = space_newline despace_Cons add_statement_despace add_comment_despace add_do_despace
  consider (lit) "(c = dquote \<or> c = squote) \<and> depth = 0"
    | (line) "\<not> ((c = dquote \<or> c = squote) \<and> depth = 0)" "startswith (c # s) ''//'' \<and> depth = 0"
    | (block) "\<not> ((c = dquote \<or> c = squote) \<and> depth = 0)" "\<not> (startswith (c # s) ''//'' \<and> depth = 0)"
        "startswith (c # s) ''/*'' \<and> depth = 0"
    | (brace) "\<not> ((c = dquote \<or> c = squote) \<and> depth = 0)" "\<not> (startswith (c # s) ''//'' \<and> depth = 0)"
        "\<not> (startswith (c # s) ''/*'' \<and> depth = 0)" "c \<noteq> CHR ''(''" "c \<noteq> CHR '')''"
        "startswith (c # s) ''{}'' \<and> depth = 0"
    | (other) "\<not> ((c = dquote \<or> c = squote) \<and> depth = 0)" "\<not> (startswith (c # s) ''//'' \<and> depth = 0)"
        "\<not> (startswith (c # s) ''/*'' \<and> depth = 0)"
        "c = CHR ''('' \<or> c = CHR '')'' \<or> \<not> (startswith (c # s) ''{}'' \<and> depth = 0)"
    by blast
  then show ?case
  proof cases
    case lit
    obtain u r where t: "take_quoted c s = (u, r)" by (cases "take_quoted c s")
    with 2(1) [OF lit t [symmetric] refl] lit take_quoted_rest [OF t] show ?thesis
      by (simp add: simps)
  next
    case line
    then have "c \<noteq> newline" by (blast dest: not_newline_slash)
    with 2(2) [OF line] line show ?thesis
      by (simp add: simps take_line_despace)
  next
    case block
    obtain u r where t: "take_block_comment s = (u, r)" by (cases "take_block_comment s")
    with 2(3) [OF block t [symmetric] refl] block take_block_comment_rest [OF t] show ?thesis
      by (simp add: simps)
  next
    case brace
    let ?p = "str_strip (current @ ''{}'')"
    note eq = braces_rest [OF conjunct1 [OF brace(6)]]
    have cs: "despace (c # s) = despace ''{}'' @ despace (drop 1 s)" unfolding eq by (rule despace_append)
    show ?thesis
    proof (cases "is_do ?p")
      case True
      obtain u d r where t: "do_tail depth (drop 1 s) = (u, d, r)" by (cases "do_tail depth (drop 1 s)")
      note IH = 2(6) [OF brace refl True t [symmetric] refl refl]
      have "despace (drop 1 s) = despace u @ despace r" using do_tail_rest [OF t] by simp
      with IH brace True t cs show ?thesis by (simp add: simps)
    next
      case False
      note IH = 2(7) [OF brace refl False]
      with brace False cs show ?thesis by (simp add: simps)
    qed
  next
    case other
    with 2(4,5,8,9,10) show ?thesis by (auto simp: simps)
  qed
qed

section \<open>The switches\<close>

lemmas split_statements_induct =
  split_statements.induct [where P = "\<lambda>_ _. P" and ?a0.0 = True and ?a1.0 = "\<lambda>_. []" for P]

text \<open>Two runs of the loop on the same text make the same calls, so they are related call by call.\<close>

lemma split_statements_rel:
  assumes app: "\<And>xs ys xs' ys'. R xs ys \<Longrightarrow> R xs' ys' \<Longrightarrow> R (xs @ xs') (ys @ ys')"
    and add: "\<And>p. R (add (str_strip p)) (add' (str_strip p))"
    and com: "\<And>p. R (add_comment com (CHR ''/'' # p)) (add_comment com' (CHR ''/'' # p))"
    and do: "\<And>p t. is_do (str_strip p) \<Longrightarrow> R (add_do add (str_strip p) t) (add_do add' (str_strip p) t)"
  shows "R (split_statements com add cur depth s) (split_statements com' add' cur depth s)"
proof (induction cur depth s rule: split_statements_induct)
  case (1 _ _ current depth)
  show ?case by (simp add: add)
next
  case (2 _ _ current depth c s)
  consider (lit) "(c = dquote \<or> c = squote) \<and> depth = 0"
    | (line) "\<not> ((c = dquote \<or> c = squote) \<and> depth = 0)" "startswith (c # s) ''//'' \<and> depth = 0"
    | (block) "\<not> ((c = dquote \<or> c = squote) \<and> depth = 0)" "\<not> (startswith (c # s) ''//'' \<and> depth = 0)"
        "startswith (c # s) ''/*'' \<and> depth = 0"
    | (brace) "\<not> ((c = dquote \<or> c = squote) \<and> depth = 0)" "\<not> (startswith (c # s) ''//'' \<and> depth = 0)"
        "\<not> (startswith (c # s) ''/*'' \<and> depth = 0)" "c \<noteq> CHR ''(''" "c \<noteq> CHR '')''"
        "startswith (c # s) ''{}'' \<and> depth = 0"
    | (other) "\<not> ((c = dquote \<or> c = squote) \<and> depth = 0)" "\<not> (startswith (c # s) ''//'' \<and> depth = 0)"
        "\<not> (startswith (c # s) ''/*'' \<and> depth = 0)"
        "c = CHR ''('' \<or> c = CHR '')'' \<or> \<not> (startswith (c # s) ''{}'' \<and> depth = 0)"
    by blast
  then show ?case
  proof cases
    case lit
    obtain u r where t: "take_quoted c s = (u, r)" by (cases "take_quoted c s")
    with 2(1) [OF lit t [symmetric] refl] lit show ?thesis by simp
  next
    case line
    then have "c = CHR ''/''" by (auto simp: startswith_def)
    with 2(2) [OF line] line show ?thesis by (simp add: app add com)
  next
    case block
    obtain u r where t: "take_block_comment s = (u, r)" by (cases "take_block_comment s")
    have "c = CHR ''/''" using block(3) by (auto simp: startswith_def)
    with 2(3) [OF block t [symmetric] refl] block t show ?thesis by (simp add: app add com)
  next
    case brace
    let ?p = "str_strip (current @ ''{}'')"
    show ?thesis
    proof (cases "is_do ?p")
      case True
      obtain u d r where t: "do_tail depth (drop 1 s) = (u, d, r)" by (cases "do_tail depth (drop 1 s)")
      note IH = 2(6) [OF brace refl True t [symmetric] refl refl]
      with brace True t show ?thesis by (simp add: app do)
    next
      case False
      with 2(7) [OF brace refl False] brace show ?thesis by (simp add: app add)
    qed
  next
    case other
    note no = other(1-3)
    note no_if = if_not_P [OF no(1)] if_not_P [OF no(2)] if_not_P [OF no(3)]
    consider (opn) "c = CHR ''(''" | (cls) "c \<noteq> CHR ''(''" "c = CHR '')''"
      | (rest) "c \<noteq> CHR ''(''" "c \<noteq> CHR '')''" "\<not> (startswith (c # s) ''{}'' \<and> depth = 0)"
      using other(4) by blast
    then show ?thesis
    proof cases
      case opn
      from 2(4) [OF no this] show ?thesis
        unfolding split_statements.simps no_if if_P [OF opn] .
    next
      case cls
      from 2(5) [OF no this] show ?thesis
        unfolding split_statements.simps no_if if_not_P [OF cls(1)] if_P [OF cls(2)] .
    next
      case rest
      note IH = 2(8-10) [OF no rest]
      note no_if = no_if if_not_P [OF rest(1)] if_not_P [OF rest(2)] if_not_P [OF rest(3)]
      consider (semi) "c = CHR '';'' \<and> depth = 0"
        | (line) "\<not> (c = CHR '';'' \<and> depth = 0)"
            "c = newline \<and> depth = 0 \<and> startswith (str_strip current) ''#''"
        | (char) "\<not> (c = CHR '';'' \<and> depth = 0)"
            "\<not> (c = newline \<and> depth = 0 \<and> startswith (str_strip current) ''#'')" by blast
      then show ?thesis
      proof cases
        case semi
        from app [OF add IH(1) [OF semi]] show ?thesis
          unfolding split_statements.simps no_if if_P [OF semi] .
      next
        case line
        from app [OF add IH(2) [OF line]] show ?thesis
          unfolding split_statements.simps no_if if_not_P [OF line(1)] if_P [OF line(2)] .
      next
        case char
        from IH(3) [OF char] show ?thesis
          unfolding split_statements.simps no_if if_not_P [OF char(1)] if_not_P [OF char(2)] .
      qed
    qed
  qed
qed

lemma dropWhile_snoc_keep: "\<not> P c \<Longrightarrow> \<exists>v. dropWhile P (xs @ [c]) = v @ [c]"
  by (induction xs) auto

lemma add_comment_keep:
  "filter (keep_directive i m) (add_comment com (CHR ''/'' # p)) = add_comment com (CHR ''/'' # p)"
proof -
  have "startswith (str_strip (CHR ''/'' # p)) ''#'' \<Longrightarrow> False"
  proof -
    assume "startswith (str_strip (CHR ''/'' # p)) ''#''"
    then obtain t where t: "str_strip (CHR ''/'' # p) = CHR ''#'' # t" by (auto simp: startswith_iff)
    have sl: "\<not> is_space CHR ''/''" by (simp add: is_space_def)
    have "\<exists>v. dropWhile is_space (rev p @ [CHR ''/'']) = v @ [CHR ''/'']"
      using sl by (rule dropWhile_snoc_keep)
    then obtain v where "dropWhile is_space (rev p @ [CHR ''/'']) = v @ [CHR ''/'']" by blast
    then have "str_strip (CHR ''/'' # p) = CHR ''/'' # rev v"
      using sl by (auto simp: strip_by_def lstrip_by_def rstrip_by_def)
    with t show False by auto
  qed
  then show ?thesis by (auto simp: add_comment_def keep_directive_def)
qed

lemma split_statements_directives:
  "split_statements com (add_statement i m) cur depth s
     = filter (keep_directive i m) (split_statements com (add_statement True True) cur depth s)"
proof (rule split_statements_rel [where R = "\<lambda>xs ys. xs = filter (keep_directive i m) ys"])
  show "add_comment com (CHR ''/'' # p) = filter (keep_directive i m) (add_comment com (CHR ''/'' # p))" for p
    by (rule add_comment_keep [symmetric])
qed (auto simp: add_statement_def add_do_def Let_def)

lemma trimmed_add: "list_all trimmed (add_statement i m (str_strip p))"
  using strip_cases [of p] by (auto simp: add_statement_def)

lemma split_statements_trimmed: "list_all trimmed (split_statements com (add_statement i m) cur depth s)"
proof (rule split_statements_rel [where R = "\<lambda>xs ys. list_all trimmed xs"])
  show "list_all trimmed (add_comment com (CHR ''/'' # p))" for p
    using strip_cases [of "CHR ''/'' # p"] by (auto simp: add_comment_def)
next
  fix p t assume "is_do (str_strip p)"
  then have "str_strip p \<noteq> []" by (auto simp: is_do_def startswith_def)
  with strip_cases [of p] have p: "trimmed (str_strip p)" by blast
  have "trimmed (str_strip p @ '' '' @ str_strip t)" if "startswith (str_strip t) ''while''"
    using p strip_cases [of t] that by (auto simp: trimmed_def startswith_def)
  with trimmed_add [of i m p] trimmed_add [of i m t]
  show "list_all trimmed (add_do (add_statement i m) (str_strip p) t)"
    by (auto simp: add_do_def Let_def add_statement_def)
qed (simp_all add: trimmed_add)

text \<open>
  C11. Statement splitting loses no text: with every switch on, the statements contain exactly the
  characters of the block that are not white space, in order. The include and macro switches only
  drop preprocessor lines, and every statement is non-empty without surrounding white space.
\<close>
theorem statements_cover_text:
  "filter (\<lambda>c. \<not> is_space c) (concat (parse_statements True True True seg)) = filter (\<lambda>c. \<not> is_space c) seg
   \<and> parse_statements com i m seg = filter (keep_directive i m) (parse_statements com True True seg)
   \<and> list_all (\<lambda>s. s \<noteq> [] \<and> \<not> is_space (hd s) \<and> \<not> is_space (last s)) (parse_statements com i m seg)"
proof (intro conjI)
  show "filter (\<lambda>c. \<not> is_space c) (concat (parse_statements True True True seg)) = filter (\<lambda>c. \<not> is_space c) seg"
    using split_statements_despace [of "[]" 0 seg] by (simp add: parse_statements_def despace_def)
  show "parse_statements com i m seg = filter (keep_directive i m) (parse_statements com True True seg)"
    unfolding parse_statements_def by (rule split_statements_directives)
  show "list_all (\<lambda>s. s \<noteq> [] \<and> \<not> is_space (hd s) \<and> \<not> is_space (last s)) (parse_statements com i m seg)"
    using split_statements_trimmed [of com i m "[]" 0 seg] unfolding parse_statements_def trimmed_def .
qed

text \<open>
  A closing parenthesis inside a string argument ends the parenthesis depth, so the closing quote is
  taken for an opening one and the statements that follow are swallowed.
\<close>

lemma parenthesis_in_string_swallows_statements:
  "parse_statements False False False
     (''f('' @ [dquote] @ '')'' @ [dquote] @ ''); x = 1; y = 2;'') =
     [''f('' @ [dquote] @ '')'' @ [dquote] @ ''); x = 1; y = 2;'']"
  by code_simp

text \<open>The star that opens a block comment can close it here, but not in the bracket scanner.\<close>

lemma comment_closed_by_its_opening:
  "parse_statements False False False ''/*/ x = 1; */ y = 2;'' = [''x = 1;'', ''*/ y = 2;'']"
  by code_simp

end
