(* ===== verification/Classify.thy ===== *)
theory Classify
  imports Exprs IR
begin

text \<open>
  Statement classification and slot extraction of \<open>cdup/src/parse.py\<close>: \<open>_classify_statement\<close>,
  \<open>_extract_params\<close>, \<open>_extract_memory\<close>, \<open>_extract_constants\<close>, \<open>_get_seg_type\<close> and \<open>_get_seg_name\<close>.
  The sets of known types and of UDT variables are lists that are only tested for membership.
\<close>

section \<open>Pieces of a statement\<close>

definition stmt_core :: "string \<Rightarrow> string" where
  "stmt_core raw = str_strip (rstrip_by (\<lambda>c. c = CHR '';'') (str_strip raw))"

definition first_word :: "string \<Rightarrow> string" where
  "first_word s = (case split_ws s of [] \<Rightarrow> [] | w # _ \<Rightarrow> w)"

definition base_type :: "string \<Rightarrow> string" where
  "base_type w = rstrip_by (\<lambda>c. c = CHR ''*'') w"

text \<open>The name after the first word and the text after the name.\<close>

definition name_after :: "string \<Rightarrow> string \<Rightarrow> (string \<times> string) option" where
  "name_after w s =
     (let rest = str_strip (lstrip_by (\<lambda>c. c = CHR ''*'') (str_strip (drop (length w) s)))
      in map_option (\<lambda>m. (m_text m, m_rest m)) (re_match rident rest))"

definition plain_stmt :: "string \<Rightarrow> string \<Rightarrow> string option \<Rightarrow> string list \<Rightarrow> stmt" where
  "plain_stmt raw kind l_name r_names =
     \<lparr>st_raw = raw, st_kind = kind, st_l_name = l_name, st_r_names = r_names, st_expr = None,
      st_type = None, st_iterator_type = None\<rparr>"

text \<open>The iterator a \<open>for\<close> header declares; a missing parenthesis is the caught \<open>ValueError\<close>.\<close>

definition for_iterator :: "string list \<Rightarrow> string \<Rightarrow> (string \<times> string) option" where
  "for_iterator known_types s =
     (if CHR ''('' \<in> set s \<and> CHR '';'' \<in> set s
      then (case for_inner s of
              None \<Rightarrow> None
            | Some inner \<Rightarrow>
                (let init_clause = str_strip (hd (split_on CHR '';'' inner))
                 in case split_ws init_clause of
                      [] \<Rightarrow> None
                    | w # _ \<Rightarrow>
                        if base_type w \<in> set known_types
                        then map_option (\<lambda>(nm, _). (nm, w)) (name_after w init_clause) else None))
      else None)"

section \<open>Classification\<close>

text \<open>Headers of blocks: statements with a \<open>{}\<close> placeholder.\<close>

definition classify_block ::
  "(string \<Rightarrow> string list) \<Rightarrow> string list \<Rightarrow> string \<Rightarrow> string \<Rightarrow> stmt" where
  "classify_block ids known_types raw s =
     (let w = first_word s in
      if w \<in> set loop_keywords then
        (case (if w = ''for'' then for_iterator known_types s else None) of
           None \<Rightarrow> plain_stmt raw ''loop_head'' None (ids s)
         | Some (nm, ty) \<Rightarrow> (plain_stmt raw ''loop_head'' (Some nm) (ids s))\<lparr>st_iterator_type := Some ty\<rparr>)
      else if w \<in> set branch_keywords then plain_stmt raw ''branch'' None (ids s)
      else case (if base_type w \<in> set known_types then name_after w s else None) of
             Some (nm, rest) \<Rightarrow>
               if startswith (str_strip rest) ''('' then plain_stmt raw ''func_decl'' (Some nm) (ids rest)
               else plain_stmt raw ''expr'' None (ids s)
           | None \<Rightarrow> plain_stmt raw ''expr'' None (ids s))"

text \<open>A statement whose first word is a known type and is followed by a name.\<close>

definition classify_decl ::
  "(string \<Rightarrow> string list) \<Rightarrow> string \<Rightarrow> string \<Rightarrow> string \<Rightarrow> string \<Rightarrow> stmt" where
  "classify_decl ids raw w nm rest =
     (let after_name = str_strip rest in
      if startswith after_name ''('' then plain_stmt raw ''func_decl'' (Some nm) (ids after_name)
      else (let r_names =
                  (if startswith after_name ''=''
                   then (let rhs = str_strip (drop 1 after_name)
                         in ids (if startswith rhs ''{'' \<and> endswith rhs ''}''
                                 then butlast (drop 1 rhs) else rhs))
                   else [])
            in (plain_stmt raw ''decl'' (Some nm) r_names)\<lparr>st_type := Some w\<rparr>))"

text \<open>\<open>([A-Za-z_]\w*)(?:\.|->)([A-Za-z_]\w*)\<close>.\<close>

definition rx_lhs_field :: rx where
  "rx_lhs_field = rseq [RGroup 1 rident, RAlt (rchr CHR ''.'') (rlit ''->''), RGroup 2 rident]"

definition compound_reads :: "string \<Rightarrow> string \<Rightarrow> string list \<Rightarrow> string list" where
  "compound_reads op l r_names =
     (if op \<noteq> ''='' \<and> l \<notin> set r_names then l # r_names else r_names)"

text \<open>One round of the loop over the assignment operators; \<open>None\<close> goes on with the next one.\<close>

definition try_assign ::
  "(string \<Rightarrow> string list) \<Rightarrow> string list option \<Rightarrow> string \<Rightarrow> string \<Rightarrow> string \<Rightarrow> stmt option" where
  "try_assign ids known_udt_vars raw s op =
     (case str_find s op of
        None \<Rightarrow> None
      | Some idx \<Rightarrow>
          if idx = 0 then None
          else (let lhs = str_strip (take idx s); rhs = str_strip (drop (idx + length op) s)
                in case re_fullmatch rx_lhs_field lhs of
                     Some m \<Rightarrow>
                       (let root_var = m_group_str m 1;
                            dotted = (case known_udt_vars of
                                        Some vs \<Rightarrow> if root_var \<in> set vs
                                                   then root_var @ ''.'' @ m_group_str m 2 else root_var
                                      | None \<Rightarrow> root_var)
                        in Some (plain_stmt raw ''assign'' (Some dotted)
                                   (compound_reads op dotted (ids rhs))))
                   | None \<Rightarrow>
                       (case re_match rident lhs of
                          Some m \<Rightarrow>
                            if m_rest m = []
                            then Some (plain_stmt raw ''assign'' (Some (m_text m))
                                         (compound_reads op (m_text m) (ids rhs)))
                            else None
                        | None \<Rightarrow> None)))"

fun first_assign ::
  "(string \<Rightarrow> string list) \<Rightarrow> string list option \<Rightarrow> string \<Rightarrow> string \<Rightarrow> string list \<Rightarrow> stmt option" where
  "first_assign ids udt raw s [] = None"
| "first_assign ids udt raw s (op # ops) =
     (case try_assign ids udt raw s op of
        Some st \<Rightarrow> Some st
      | None \<Rightarrow> first_assign ids udt raw s ops)"

text \<open>\<open>([A-Za-z_]\w*)\s*(\+\+|--)\<close> and \<open>(\+\+|--)\s*([A-Za-z_]\w*)\<close>.\<close>

definition rx_post_incr :: rx where
  "rx_post_incr = rseq [RGroup 1 rident, rstar rspace, RAlt (rlit ''++'') (rlit ''--'')]"

definition rx_pre_incr :: rx where
  "rx_pre_incr = rseq [RAlt (rlit ''++'') (rlit ''--''), rstar rspace, RGroup 2 rident]"

definition incremented :: "string \<Rightarrow> string option" where
  "incremented s =
     (case re_fullmatch rx_post_incr s of
        Some m \<Rightarrow> Some (m_group_str m 1)
      | None \<Rightarrow> map_option (\<lambda>m. m_group_str m 2) (re_fullmatch rx_pre_incr s))"

definition is_call :: "string \<Rightarrow> bool" where
  "is_call s \<longleftrightarrow> CHR ''('' \<in> set s
     \<and> (case re_match rident s of
          None \<Rightarrow> False | Some m \<Rightarrow> startswith (lstrip_by is_space (m_rest m)) ''('')"

definition classify_statement ::
  "string \<Rightarrow> string list \<Rightarrow> string list option \<Rightarrow> stmt" where
  "classify_statement raw known_types known_udt_vars =
     (let ids = (\<lambda>e. extract_identifiers e known_types known_udt_vars);
          s = stmt_core raw; w = first_word s in
      if str_contains raw ''{}'' then classify_block ids known_types raw s
      else if w \<in> set control_keywords then plain_stmt raw ''control'' None (ids (drop (length w) s))
      else if w \<in> set branch_keywords then plain_stmt raw ''branch'' None (ids s)
      else case (if base_type w \<in> set known_types then name_after w s else None) of
        Some (nm, rest) \<Rightarrow> classify_decl ids raw w nm rest
      | None \<Rightarrow>
          (case first_assign ids known_udt_vars raw s assign_ops of
             Some st \<Rightarrow> st
           | None \<Rightarrow>
               if is_call s
               then plain_stmt raw ''call'' None (ids (dropWhile (\<lambda>c. c \<noteq> CHR ''('') s))
               else (case incremented s of
                       Some v \<Rightarrow> plain_stmt raw ''assign'' (Some v) [v]
                     | None \<Rightarrow> plain_stmt raw ''expr'' None (ids s))))"

section \<open>Slots\<close>

definition field_slot :: "string \<Rightarrow> bool \<Rightarrow> string \<Rightarrow> string \<Rightarrow> string \<Rightarrow> slot" where
  "field_slot scope_path param v ty field =
     \<lparr>sl_name = v @ ''.'' @ field, sl_scoped_name = scope_path @ ''.'' @ v @ ''.'' @ field,
      sl_type = ''field'', sl_constant = False, sl_param = param, sl_loop_iterator = False,
      sl_value = None, sl_udt_parent = Some v, sl_udt_type = Some ty\<rparr>"

definition var_slot :: "string \<Rightarrow> bool \<Rightarrow> bool \<Rightarrow> string \<Rightarrow> string \<Rightarrow> slot" where
  "var_slot scope_path param iterator v ty =
     \<lparr>sl_name = v, sl_scoped_name = scope_path @ ''.'' @ v, sl_type = ty, sl_constant = False,
      sl_param = param, sl_loop_iterator = iterator, sl_value = None, sl_udt_parent = None,
      sl_udt_type = None\<rparr>"

definition param_name :: "string \<Rightarrow> string" where
  "param_name w = str_strip (strip_by (\<lambda>c. c = CHR ''*'') (takeWhile (\<lambda>c. c \<noteq> CHR ''['') w))"

definition param_slots ::
  "string \<Rightarrow> string list \<Rightarrow> (string, string list) dict \<Rightarrow> string \<Rightarrow> slot list" where
  "param_slots scope_path known_types struct_fields param =
     (let tokens = split_ws (str_strip param) in
      if length tokens < 2 then []
      else (let ptype = base_type (hd tokens); pname = param_name (last tokens) in
            if ptype \<notin> set known_types then []
            else if pname = [] \<or> pname \<in> set c_keywords \<or> pname \<in> set known_types then []
            else (case dict_get struct_fields ptype of
                    Some fs \<Rightarrow> map (field_slot scope_path True pname ptype) fs
                  | None \<Rightarrow> [var_slot scope_path True False pname (hd tokens)])))"

definition extract_params ::
  "string option \<Rightarrow> string \<Rightarrow> string list \<Rightarrow> (string, string list) dict \<Rightarrow> slot list" where
  "extract_params head scope_path known_types struct_fields =
     (case head of
        None \<Rightarrow> []
      | Some h \<Rightarrow>
          (case for_inner h of
             None \<Rightarrow> []
           | Some inner \<Rightarrow>
               (let inner = str_strip inner in
                if inner = [] \<or> inner = ''void'' then []
                else concat (map (param_slots scope_path known_types struct_fields)
                               (split_on CHR '','' inner)))))"

definition memory_slots ::
  "string \<Rightarrow> (string, string list) dict \<Rightarrow> stmt \<Rightarrow> slot list" where
  "memory_slots scope_path struct_fields op =
     (case st_l_name op of
        Some (c # cs) \<Rightarrow>
          (let vname = c # cs in
           if st_kind op = ''decl'' then
             (let dtype = (if truthy_str (st_type op) then base_type (the (st_type op)) else ''unknown'')
              in case dict_get struct_fields dtype of
                   Some fs \<Rightarrow> map (field_slot scope_path False vname dtype) fs
                 | None \<Rightarrow>
                     [var_slot scope_path False False vname
                        (if truthy_str (st_type op) then the (st_type op) else ''unknown'')])
           else if st_kind op = ''loop_head'' then
             [var_slot scope_path False True vname
                (if truthy_str (st_iterator_type op) then the (st_iterator_type op) else ''unknown'')]
           else [])
      | _ \<Rightarrow> [])"

definition extract_memory ::
  "string list \<Rightarrow> string \<Rightarrow> string list \<Rightarrow> (string, string list) dict \<Rightarrow> slot list" where
  "extract_memory raw_stmts scope_path known_types struct_fields =
     concat (map (\<lambda>st. memory_slots scope_path struct_fields (classify_statement st known_types None))
               raw_stmts)"

section \<open>Constants\<close>

text \<open>The state is the dictionary \<open>seen\<close> and the string counter.\<close>

definition add_constant ::
  "string \<Rightarrow> string \<Rightarrow> string \<Rightarrow> (string, slot) dict \<times> nat \<Rightarrow> (string, slot) dict \<times> nat" where
  "add_constant scope_path kind v = (\<lambda>(found, counter).
     let cname = canonical_constant_name kind v (if kind = ''string'' then counter else 0);
         counter' = (if kind = ''string'' then counter + 1 else counter)
     in if cname \<in> set (dict_keys found) then (found, counter')
        else (dict_set cname
                \<lparr>sl_name = cname, sl_scoped_name = scope_path @ ''.'' @ cname, sl_type = kind,
                 sl_constant = True, sl_param = False, sl_loop_iterator = False,
                 sl_value = Some (JStr v), sl_udt_parent = None, sl_udt_type = None\<rparr> found,
              counter'))"

definition stmt_constants ::
  "string \<Rightarrow> stmt \<Rightarrow> (string, slot) dict \<times> nat \<Rightarrow> (string, slot) dict \<times> nat" where
  "stmt_constants scope_path st acc =
     (if st_kind st = ''func_decl'' then acc
      else (let lits = extract_literals (st_raw st)
            in fold (add_constant scope_path ''char'') (lit_chars lits)
                 (fold (add_constant scope_path ''string'') (lit_strings lits)
                   (fold (add_constant scope_path ''float'') (lit_floats lits)
                     (fold (add_constant scope_path ''int'') (lit_ints lits) acc)))))"

definition extract_constants :: "stmt list \<Rightarrow> string \<Rightarrow> slot list" where
  "extract_constants classified_stmts scope_path =
     map snd (fst (fold (stmt_constants scope_path) classified_stmts ([], 0)))"

section \<open>Segment types and names\<close>

definition get_seg_type :: "string option \<Rightarrow> string" where
  "get_seg_type header =
     (case header of
        None \<Rightarrow> ''root''
      | Some t \<Rightarrow>
          (let h = str_strip t in
           if startswith h ''struct '' \<or> startswith h ''typedef struct'' then ''struct''
           else if list_ex (startswith h) [''for '', ''for('', ''while '', ''while('', ''do '', ''do{''] then ''loop''
           else if list_ex (startswith h) [''if '', ''if('', ''else'', ''switch '', ''switch(''] then ''branch''
           else ''function''))"

definition function_name :: "string \<Rightarrow> string option" where
  "function_name head =
     (case split_ws (str_strip head) of
        w # _ # _ \<Rightarrow>
          if re_fullmatch rident (base_type w) \<noteq> None
          then (case name_after w head of
                  Some (nm, rest) \<Rightarrow> if startswith (str_strip rest) ''('' then Some nm else None
                | None \<Rightarrow> None)
          else None
      | _ \<Rightarrow> None)"

definition struct_name :: "string \<Rightarrow> string option" where
  "struct_name head =
     (if str_contains (str_strip head) ''typedef'' then Some ''__typedef__''
      else case split_ws (str_strip head) of
             _ # w # _ \<Rightarrow> Some (str_strip (rstrip_by (\<lambda>c. c = CHR ''{'') w))
           | _ \<Rightarrow> None)"

definition get_seg_name :: "string \<Rightarrow> string option \<Rightarrow> nat \<Rightarrow> string" where
  "get_seg_name seg_type head child_index =
     (let other = (if seg_type = ''loop'' then ''loop_'' @ nat_digits child_index
                   else if seg_type = ''branch'' then ''branch_'' @ nat_digits child_index
                   else ''seg_'' @ nat_digits child_index)
      in if seg_type = ''root'' then ''root''
         else case head of
           Some (c # cs) \<Rightarrow>
             (case (if seg_type = ''function'' then function_name (c # cs)
                    else if seg_type = ''struct'' then struct_name (c # cs) else None) of
                Some nm \<Rightarrow> nm | None \<Rightarrow> other)
         | _ \<Rightarrow> other)"

section \<open>Behaviour worth knowing\<close>

text \<open>
  A keyword is recognised only as a whole word: without a blank before the parenthesis the header of
  a loop or branch is classified as an expression, although its segment has the type of a loop.
\<close>

lemma keyword_without_blank_is_expression:
  "map (\<lambda>s. (st_kind (classify_statement s c_types None), get_seg_type (Some s)))
     [''while (x) {}'', ''while(x) {}'', ''if (x) {}'', ''if(x) {}''] =
   [(''loop_head'', ''loop''), (''expr'', ''loop''), (''branch'', ''branch''), (''expr'', ''branch'')]"
  by code_simp

text \<open>A write to an array element is not an assignment, and an array initialiser is not read.\<close>

lemma array_writes_are_lost:
  "st_kind (classify_statement ''a[i] = x;'' c_types None) = ''expr''
   \<and> st_l_name (classify_statement ''a[i] = x;'' c_types None) = None
   \<and> st_r_names (classify_statement ''a[i] = x;'' c_types None) = [''a'', ''i'', ''x'']
   \<and> st_r_names (classify_statement ''int a[2] = {p, q};'' c_types None) = []"
  by code_simp

end
