(* ===== verification/FrontEnd.thy ===== *)
theory FrontEnd
  imports Braces Statements Classify Dag
begin

text \<open>
  \<open>parse_c_file\<close> of \<open>cdup/src/parse.py\<close>: blocks, statements, headers, names, scope paths, user types,
  the segments, and the dependency matrix and data-flow graph built from them. Lists indexed by
  segment id stand for the dictionaries \<open>seg_headers\<close>, \<open>seg_names\<close> and \<open>scope_paths\<close>, whose keys are
  all the ids.
\<close>

section \<open>Lines\<close>

text \<open>\<open>str.splitlines\<close> on ASCII: a carriage return and a line feed end one line.\<close>

definition is_line_break :: "char \<Rightarrow> bool" where
  "is_line_break c = (let n = (of_char c :: nat) in (10 \<le> n \<and> n \<le> 13) \<or> (28 \<le> n \<and> n \<le> 30))"

function splitlines_acc :: "string \<Rightarrow> string \<Rightarrow> string list" where
  "splitlines_acc cur [] = (if cur = [] then [] else [rev cur])"
| "splitlines_acc cur (c # s) =
     (if is_line_break c
      then rev cur # splitlines_acc [] (if c = CHR 0x0D \<and> startswith s [newline] then drop 1 s else s)
      else splitlines_acc (c # cur) s)"
  by pat_completeness auto
termination by (relation "measure (length \<circ> snd)") auto

definition clean_seg :: "string \<Rightarrow> string" where
  "clean_seg seg =
     str_join [newline] (map str_strip (filter (\<lambda>line. str_strip line \<noteq> []) (splitlines_acc [] seg)))"

section \<open>Headers and names\<close>

definition children_of :: "nat list \<Rightarrow> nat \<Rightarrow> (nat, nat list) dict py" where
  "children_of bparents n =
     py_fold (\<lambda>seg_id d. py_bind (py_nth bparents seg_id) (\<lambda>p. Inr (dict_append p seg_id d))) [1..<n] []"

definition block_headers :: "string list \<Rightarrow> nat list \<Rightarrow> (nat \<times> string option) list" where
  "block_headers stmnts child_ids =
     (let block_stmts = filter (\<lambda>s. str_contains s ''{}'') stmnts
      in map (\<lambda>(i, child_id). (child_id, if i < length block_stmts then Some (block_stmts ! i) else None))
           (enumerate 0 child_ids))"

definition seg_headers ::
  "string list list \<Rightarrow> (nat, nat list) dict \<Rightarrow> (nat, string option) dict py" where
  "seg_headers bseg_stmnts children =
     py_fold (\<lambda>(parent_id, child_ids) d.
         py_bind (py_nth bseg_stmnts parent_id) (\<lambda>stmnts.
         Inr (fold (\<lambda>(c, h). dict_set c h) (block_headers stmnts child_ids) d))) children [(0, None)]"

definition header_of :: "(nat, string option) dict \<Rightarrow> nat \<Rightarrow> string option" where
  "header_of headers seg_id = (case dict_get headers seg_id of None \<Rightarrow> None | Some h \<Rightarrow> h)"

text \<open>\<open>type_counters\<close>: the loops and the branches seen per parent.\<close>

definition count_child ::
  "string \<Rightarrow> nat \<Rightarrow> (nat, nat \<times> nat) dict \<Rightarrow> nat \<times> (nat, nat \<times> nat) dict" where
  "count_child seg_type parent_id counters =
     (if seg_type = ''loop'' \<or> seg_type = ''branch''
      then (let (l, b) = (case dict_get counters parent_id of None \<Rightarrow> (0, 0) | Some lb \<Rightarrow> lb)
            in if seg_type = ''loop'' then (l + 1, dict_set parent_id (l + 1, b) counters)
               else (b + 1, dict_set parent_id (l, b + 1) counters))
      else (0, counters))"

definition name_step ::
  "(nat, string option) dict \<Rightarrow> nat list \<Rightarrow> nat \<Rightarrow> string list \<times> (nat, nat \<times> nat) dict \<Rightarrow>
     (string list \<times> (nat, nat \<times> nat) dict) py" where
  "name_step headers bparents seg_id = (\<lambda>(names, counters).
     py_bind (py_nth bparents seg_id) (\<lambda>parent_id.
       let head = header_of headers seg_id; seg_type = get_seg_type head;
           (child_index, counters) = count_child seg_type parent_id counters
       in Inr (names @ [get_seg_name seg_type head child_index], counters)))"

text \<open>The first pair of neighbours that names a typedef.\<close>

fun typedef_name :: "string list \<Rightarrow> string option" where
  "typedef_name (s # t # ss) =
     (let next_stmt = stmt_core t in
      if str_contains s ''typedef'' \<and> str_contains s ''{}'' \<and> re_fullmatch rident next_stmt \<noteq> None
      then Some next_stmt else typedef_name (t # ss))"
| "typedef_name _ = None"

definition patch_name ::
  "string list list \<Rightarrow> nat list \<Rightarrow> nat \<times> string \<Rightarrow> string py" where
  "patch_name bseg_stmnts bparents = (\<lambda>(seg_id, name).
     if name = ''__typedef__''
     then py_bind (py_nth bparents seg_id) (\<lambda>parent_id.
          py_bind (py_nth bseg_stmnts parent_id) (\<lambda>parent_stmts.
            case typedef_name parent_stmts of
              Some n \<Rightarrow> Inr (if n = ''__typedef__'' then ''struct_0'' else n)
            | None \<Rightarrow> Inr ''struct_0''))
     else Inr name)"

definition seg_names ::
  "string list list \<Rightarrow> nat list \<Rightarrow> (nat, string option) dict \<Rightarrow> string list py" where
  "seg_names bseg_stmnts bparents headers =
     py_bind (py_fold (name_step headers bparents) [0..<length bseg_stmnts] ([], [])) (\<lambda>(names, _).
     py_seq (map (patch_name bseg_stmnts bparents) (enumerate 0 names)))"

section \<open>Scope paths\<close>

function scope_parts :: "string list \<Rightarrow> nat list \<Rightarrow> nat \<Rightarrow> nat list \<Rightarrow> string list py" where
  "scope_parts names bparents current visited =
     (if current \<in> set visited then Inr []
      else py_bind (py_nth names current) (\<lambda>nm.
           py_bind (py_nth bparents current) (\<lambda>parent.
             if parent = current then Inr [nm]
             else py_bind (scope_parts names bparents parent (current # visited)) (\<lambda>ps.
                  Inr (nm # ps)))))"
  by pat_completeness auto
termination
proof (relation "measure (\<lambda>(names, bparents, current, visited). card ({..<length bparents} - set visited))",
    simp, goal_cases)
  case (1 names bparents current visited nm parent)
  then have "current < length bparents" by (auto simp: py_nth_Inr)
  with 1(1) have "{..<length bparents} - set (current # visited)
      \<subset> {..<length bparents} - set visited" by auto
  from psubset_card_mono [OF _ this] show ?case by simp
qed

declare scope_parts.simps [simp del]

definition build_scope_path :: "nat \<Rightarrow> string list \<Rightarrow> nat list \<Rightarrow> string py" where
  "build_scope_path seg_id names bparents =
     py_bind (scope_parts names bparents seg_id []) (\<lambda>path_parts. Inr (str_join ''.'' (rev path_parts)))"

section \<open>User types\<close>

definition struct_ids :: "string option list \<Rightarrow> nat list" where
  "struct_ids heads = filter (\<lambda>i. get_seg_type (heads ! i) = ''struct'') [0..<length heads]"

definition user_types :: "string option list \<Rightarrow> string list \<Rightarrow> string list" where
  "user_types heads names =
     c_types @ filter (\<lambda>n. n \<noteq> []) (map (\<lambda>i. names ! i) (struct_ids heads))"

definition decl_names :: "string list \<Rightarrow> string list \<Rightarrow> string list" where
  "decl_names types raw_stmts =
     List.map_filter (\<lambda>st. let op = classify_statement st types None
        in if st_kind op = ''decl'' \<and> truthy_str (st_l_name op) then st_l_name op else None) raw_stmts"

definition struct_fields ::
  "string option list \<Rightarrow> string list \<Rightarrow> string list \<Rightarrow> string list list \<Rightarrow> (string, string list) dict" where
  "struct_fields heads names types bseg_stmnts =
     fold (\<lambda>i d. if names ! i = [] then d
                else dict_set (names ! i) (decl_names types (bseg_stmnts ! i)) d)
       (struct_ids heads) []"

section \<open>Descendants that share a scope\<close>

fun owned_descendants ::
  "nat \<Rightarrow> string option list \<Rightarrow> (nat, nat list) dict \<Rightarrow> nat \<Rightarrow> nat list py" where
  "owned_descendants 0 heads children seg_id = Inl RecursionError"
| "owned_descendants (Suc fuel) heads children seg_id =
     py_bind (py_seq (map (\<lambda>child.
         py_bind (py_nth heads child) (\<lambda>head.
           if get_seg_type head \<in> {''function'', ''struct''} then Inr []
           else py_bind (owned_descendants fuel heads children child) (\<lambda>ds. Inr (child # ds))))
       (dict_get_list children seg_id))) (\<lambda>dss. Inr (concat dss))"

section \<open>Segments\<close>

text \<open>The variables of a struct type that a block declares, receives or takes from its parent.\<close>

definition declared_udt_vars ::
  "string list \<Rightarrow> (string, string list) dict \<Rightarrow> string list \<Rightarrow> string list" where
  "declared_udt_vars types sfields raw_stmts =
     List.map_filter (\<lambda>st. let op = classify_statement st types None
        in if st_kind op = ''decl'' \<and> truthy_str (st_l_name op)
              \<and> base_type (case st_type op of None \<Rightarrow> [] | Some t \<Rightarrow> t) \<in> set (dict_keys sfields)
           then st_l_name op else None) raw_stmts"

definition param_udt_vars :: "(string, string list) dict \<Rightarrow> string option \<Rightarrow> string list" where
  "param_udt_vars sfields head =
     (case head of
        Some (c # cs) \<Rightarrow>
          (case for_inner (c # cs) of
             None \<Rightarrow> []
           | Some inner \<Rightarrow>
               List.map_filter (\<lambda>param.
                   let toks = split_ws (str_strip param) in
                   if 2 \<le> length toks \<and> base_type (hd toks) \<in> set (dict_keys sfields)
                   then (let pname = str_strip (strip_by (\<lambda>c. c \<in> {CHR ''*'', CHR ''['', CHR '']''}) (last toks))
                         in if pname = [] then None else Some pname)
                   else None) (split_on CHR '','' inner))
      | _ \<Rightarrow> [])"

definition parent_udt_vars :: "slot list \<Rightarrow> string list" where
  "parent_udt_vars memory =
     List.map_filter (\<lambda>sl. if truthy_str (sl_udt_parent sl) then sl_udt_parent sl else None) memory"

definition udt_expand :: "slot list \<Rightarrow> (string, string list) dict" where
  "udt_expand memory =
     fold (\<lambda>sl d. case sl_udt_parent sl of
                    None \<Rightarrow> d
                  | Some p \<Rightarrow> if p = [] then d else dict_append p (sl_name sl) d) memory []"

definition expand_r_names :: "(string, string list) dict \<Rightarrow> stmt \<Rightarrow> stmt" where
  "expand_r_names expand st =
     st\<lparr>st_r_names := concat (map (\<lambda>rn. case dict_get expand rn of None \<Rightarrow> [rn] | Some ns \<Rightarrow> ns)
                               (st_r_names st))\<rparr>"

section \<open>Expression trees\<close>

definition rx_incr :: rx where
  "rx_incr = RAlt (rlit ''++'') (rlit ''--'')"

definition compound_tokens :: "string list" where
  "compound_tokens = [''+='', ''-='', ''*='', ''/='', ''%='', ''&='', ''|='', ''^='', ''<<='', ''>>='']"

fun find_compound :: "string \<Rightarrow> string list \<Rightarrow> (string \<times> string) option" where
  "find_compound s [] = None"
| "find_compound s (cop # cops) =
     (case str_find s cop of
        Some idx \<Rightarrow> if 0 < idx then Some (cop, str_strip (drop (idx + length cop) s)) else find_compound s cops
      | None \<Rightarrow> find_compound s cops)"

text \<open>The budget of every call to the expression parser is above the length of its text.\<close>

definition parse_text :: "string \<Rightarrow> expr option" where
  "parse_text src = parse_expr (Suc (length src)) src"

definition assign_expr :: "stmt \<Rightarrow> expr option" where
  "assign_expr st =
     (let l_name = (case st_l_name st of None \<Rightarrow> [] | Some l \<Rightarrow> l); s = stmt_core (st_raw st)
      in case find_compound s compound_tokens of
           Some (op_token, rhs_src) \<Rightarrow> build_assign_expr (Suc (length rhs_src)) l_name op_token rhs_src
         | None \<Rightarrow>
             (case str_find s ''='' of
                Some (Suc k) \<Rightarrow>
                  (let rhs_src = str_strip (drop (Suc (Suc k)) s)
                   in build_assign_expr (Suc (length rhs_src)) l_name ''='' rhs_src)
              | _ \<Rightarrow>
                  (case re_search rx_incr s of
                     Some m \<Rightarrow> Some (EOp (if m_text m = ''++'' then ''post_inc'' else ''post_dec'')
                                       [EName l_name] no_attrs)
                   | None \<Rightarrow> st_expr st)))"

definition decl_expr :: "stmt \<Rightarrow> expr option" where
  "decl_expr st =
     (let raw_s = rstrip_by (\<lambda>c. c = CHR '';'') (str_strip (st_raw st))
      in case str_find raw_s ''='' of
           Some (Suc k) \<Rightarrow>
             (let rhs_src = str_strip (drop (Suc (Suc k)) raw_s)
              in parse_text (if startswith rhs_src ''{'' \<and> endswith rhs_src ''}''
                             then str_strip (butlast (drop 1 rhs_src)) else rhs_src))
         | _ \<Rightarrow> st_expr st)"

definition attach_expr :: "stmt \<Rightarrow> stmt" where
  "attach_expr st =
     (if st_kind st = ''assign'' then st\<lparr>st_expr := assign_expr st\<rparr>
      else if st_kind st = ''decl'' then st\<lparr>st_expr := decl_expr st\<rparr>
      else if st_kind st \<in> {''branch'', ''loop_head'', ''control''} then
        (case extract_condition (st_raw st) (st_kind st) of
           Some (c # cs) \<Rightarrow> st\<lparr>st_expr := parse_text (c # cs)\<rparr>
         | _ \<Rightarrow> st)
      else if st_kind st = ''call'' then st\<lparr>st_expr := parse_text (stmt_core (st_raw st))\<rparr>
      else st)"

section \<open>The second pass\<close>

text \<open>What the first passes know about a file, as the record the second pass reads.\<close>

record file_info =
  fi_stmnts :: "string list list"
  fi_parents :: "nat list"
  fi_children :: "(nat, nat list) dict"
  fi_heads :: "string option list"
  fi_names :: "string list"
  fi_paths :: "string list"
  fi_types :: "string list"
  fi_fields :: "(string, string list) dict"

definition udt_vars_of :: "file_info \<Rightarrow> segment list \<Rightarrow> nat \<Rightarrow> nat \<Rightarrow> string list" where
  "udt_vars_of fi segments seg_id parent_id =
     (let head = fi_heads fi ! seg_id; seg_type = get_seg_type head
      in declared_udt_vars (fi_types fi) (fi_fields fi) (fi_stmnts fi ! seg_id)
         @ (if seg_type = ''function'' then param_udt_vars (fi_fields fi) head else [])
         @ (if (seg_type = ''loop'' \<or> seg_type = ''branch'') \<and> parent_id \<noteq> seg_id
               \<and> parent_id < length segments
            then parent_udt_vars (sg_memory (segments ! parent_id)) else []))"

definition seg_constants :: "file_info \<Rightarrow> string list option \<Rightarrow> nat \<Rightarrow> stmt list \<Rightarrow> slot list py" where
  "seg_constants fi udt_vars seg_id classified =
     (if get_seg_type (fi_heads fi ! seg_id) \<in> {''function'', ''root'', ''struct''}
      then py_bind (owned_descendants (Suc (length (fi_stmnts fi))) (fi_heads fi) (fi_children fi) seg_id)
             (\<lambda>desc_ids.
           py_bind (py_seq (map (py_nth (fi_stmnts fi)) desc_ids)) (\<lambda>desc_stmts.
           Inr (extract_constants
                  (classified @ map (\<lambda>s. classify_statement s (fi_types fi) udt_vars) (concat desc_stmts))
                  (fi_paths fi ! seg_id))))
      else Inr [])"

definition segment_step :: "file_info \<Rightarrow> nat \<Rightarrow> segment list \<Rightarrow> segment list py" where
  "segment_step fi seg_id segments =
     py_bind (py_nth (fi_parents fi) seg_id) (\<lambda>parent_id.
       let head = fi_heads fi ! seg_id; seg_type = get_seg_type head;
           scope_path = fi_paths fi ! seg_id; raw_stmts = fi_stmnts fi ! seg_id;
           vars = udt_vars_of fi segments seg_id parent_id;
           udt_vars = (if vars = [] then None else Some vars);
           classified = map (\<lambda>s. classify_statement s (fi_types fi) udt_vars) raw_stmts;
           params = (if seg_type = ''function''
                     then extract_params head scope_path (fi_types fi) (fi_fields fi) else []);
           memory = params @ extract_memory raw_stmts scope_path (fi_types fi) (fi_fields fi);
           classified = map (\<lambda>st. attach_expr (expand_r_names (udt_expand memory) st)) classified
       in py_bind (seg_constants fi udt_vars seg_id classified) (\<lambda>constants.
          Inr (segments @
            [\<lparr>sg_id = seg_id, sg_parent = parent_id, sg_type = seg_type, sg_name = fi_names fi ! seg_id,
              sg_scope_path = scope_path, sg_head = head, sg_memory = memory,
              sg_constants = constants, sg_stmts = classified\<rparr>])))"

definition file_info_of :: "string list list \<Rightarrow> nat list \<Rightarrow> file_info py" where
  "file_info_of bseg_stmnts bparents =
     (let n = length bseg_stmnts
      in py_bind (children_of bparents n) (\<lambda>children.
         py_bind (seg_headers bseg_stmnts children) (\<lambda>headers.
         py_bind (seg_names bseg_stmnts bparents headers) (\<lambda>names.
         py_bind (py_seq (map (\<lambda>i. build_scope_path i names bparents) [0..<n])) (\<lambda>paths.
           let heads = map (header_of headers) [0..<n]; types = user_types heads names
           in Inr \<lparr>fi_stmnts = bseg_stmnts, fi_parents = bparents, fi_children = children,
                   fi_heads = heads, fi_names = names, fi_paths = paths, fi_types = types,
                   fi_fields = struct_fields heads names types bseg_stmnts\<rparr>)))))"

section \<open>The whole front end\<close>

record parsed_file =
  pf_segments :: "segment list"
  pf_matrix :: matrix
  pf_dag :: dag

definition c_segments :: "string \<Rightarrow> bool \<Rightarrow> bool \<Rightarrow> bool \<Rightarrow> segment list py" where
  "c_segments file_str include_comments include_includes include_macros =
     py_bind (code_blocks file_str) (\<lambda>(bsegs, bparents).
     py_bind (file_info_of
        (map (\<lambda>seg. parse_statements include_comments include_includes include_macros (clean_seg seg)) bsegs)
        bparents) (\<lambda>fi.
     py_fold (segment_step fi) [0..<length bsegs] []))"

definition parse_c_file :: "string \<Rightarrow> bool \<Rightarrow> bool \<Rightarrow> bool \<Rightarrow> parsed_file py" where
  "parse_c_file file_str include_comments include_includes include_macros =
     py_bind (c_segments file_str include_comments include_includes include_macros) (\<lambda>segments.
     py_bind (build_matrix (Suc (length segments)) segments) (\<lambda>m.
     py_bind (build_dag segments m) (\<lambda>d.
     Inr \<lparr>pf_segments = segments, pf_matrix = m, pf_dag = d\<rparr>)))"

text \<open>
  The search for the name of an anonymous struct starts at the first typedef of the parent, so every
  later one gets the name of the first.
\<close>

lemma later_typedef_takes_first_name:
  "map (patch_name [[''typedef struct {}'', ''A;'', ''typedef struct {}'', ''B;''], [], []] [0, 0, 0])
     [(1, ''__typedef__''), (2, ''__typedef__'')] = [Inr ''A'', Inr ''A'']"
  by code_simp

end
