(* ===== verification/BraceFacts.thy ===== *)
theory BraceFacts
  imports Braces "HOL-Library.Multiset"
begin

text \<open>
  The block structure that \<open>parse.py\<close> computes is the one of the nesting of braces: the scanner yields
  two event lists, matching fails exactly when a bracket closes that was never opened, and when every
  brace is closed, each character belongs to the text of its innermost block.
\<close>

section \<open>Events\<close>

text \<open>An opening bracket carries the position after it, a closing one its own position.\<close>

type_synonym bracket_event = "bool \<times> nat"

definition event_less :: "bracket_event \<Rightarrow> bracket_event \<Rightarrow> bool" where
  "event_less e f = (if fst e \<and> \<not> fst f then snd e \<le> snd f else snd e < snd f)"

definition events_before :: "nat \<Rightarrow> bracket_event list \<Rightarrow> bool" where
  "events_before n evs \<longleftrightarrow> sorted_wrt event_less evs
     \<and> (\<forall>(b, x)\<in>set evs. if b then 0 < x \<and> x \<le> n else x < n)"

definition event_seq :: "bracket_event list \<Rightarrow> nat list" where
  "event_seq evs = map (\<lambda>(b, _). if b then 1 else 0) evs"

definition event_opens :: "bracket_event list \<Rightarrow> nat list" where
  "event_opens evs = map snd (filter fst evs)"

definition event_closes :: "bracket_event list \<Rightarrow> nat list" where
  "event_closes evs = map snd (filter (\<lambda>e. \<not> fst e) evs)"

lemmas event_lists = event_seq_def event_opens_def event_closes_def

definition scan_events :: "bracket_scan \<Rightarrow> bracket_event list \<Rightarrow> bracket_event list \<Rightarrow> bool" where
  "scan_events st bs ps \<longleftrightarrow>
     bk_b_seq st = event_seq bs \<and> bk_open_b st = event_opens bs \<and> bk_cls_b st = event_closes bs
     \<and> bk_p_seq st = event_seq ps \<and> bk_open_p st = event_opens ps \<and> bk_cls_p st = event_closes ps"

lemma events_before_mono: "events_before n evs \<Longrightarrow> n \<le> m \<Longrightarrow> events_before m evs"
  by (fastforce simp: events_before_def split: if_splits)

lemma events_before_snoc:
  "events_before n evs \<Longrightarrow> events_before (Suc n) (evs @ [(True, Suc n)])"
  "events_before n evs \<Longrightarrow> events_before (Suc n) (evs @ [(False, n)])"
  by (fastforce simp: events_before_def event_less_def sorted_wrt_append split: if_splits)+

lemma scan_bracket_events:
  assumes "scan_events st bs ps" "events_before i bs" "events_before i ps"
    and "scan_bracket prev i c (d, st) = (d', st')"
  shows "\<exists>bs' ps'. scan_events st' bs' ps' \<and> events_before (Suc i) bs' \<and> events_before (Suc i) ps'"
proof -
  note grow = events_before_snoc [OF assms(2)] events_before_snoc [OF assms(3)]
  note same = events_before_mono [OF assms(2) le_SucI [OF order_refl]]
    events_before_mono [OF assms(3) le_SucI [OF order_refl]]
  consider (none) "st' = st"
    | (ob) "st' = st\<lparr>bk_b_seq := bk_b_seq st @ [1], bk_open_b := bk_open_b st @ [i + 1]\<rparr>"
    | (cb) "st' = st\<lparr>bk_b_seq := bk_b_seq st @ [0], bk_cls_b := bk_cls_b st @ [i]\<rparr>"
    | (op) "st' = st\<lparr>bk_p_seq := bk_p_seq st @ [1], bk_open_p := bk_open_p st @ [i + 1]\<rparr>"
    | (cp) "st' = st\<lparr>bk_p_seq := bk_p_seq st @ [0], bk_cls_p := bk_cls_p st @ [i]\<rparr>"
    using assms(4) by (auto simp: scan_bracket_def split: if_splits)
  then show ?thesis
  proof cases
    case none
    with assms(1) same show ?thesis by blast
  next
    case ob
    then have "scan_events st' (bs @ [(True, Suc i)]) ps"
      using assms(1) by (simp add: scan_events_def event_lists)
    with grow same show ?thesis by blast
  next
    case cb
    then have "scan_events st' (bs @ [(False, i)]) ps"
      using assms(1) by (simp add: scan_events_def event_lists)
    with grow same show ?thesis by blast
  next
    case op
    then have "scan_events st' bs (ps @ [(True, Suc i)])"
      using assms(1) by (simp add: scan_events_def event_lists)
    with grow same show ?thesis by blast
  next
    case cp
    then have "scan_events st' bs (ps @ [(False, i)])"
      using assms(1) by (simp add: scan_events_def event_lists)
    with grow same show ?thesis by blast
  qed
qed

lemma scan_step_state:
  "scan_step_at prev i mode c rest st = (mode', n, st') \<Longrightarrow>
     st' = st \<or> st' = scan_bracket prev i c st \<and> n = 1"
  by (auto simp: scan_step_at_def split: scan_mode.splits if_splits)

lemma scan_step_within:
  "scan_step_at prev i mode c rest st = (mode', n, st') \<Longrightarrow> n = 1 \<or> n = 2 \<and> st' = st"
  by (auto simp: scan_step_at_def split: scan_mode.splits if_splits)

text \<open>Positions stay below the end of the text even though an escape may step past it.\<close>

lemma scan_from_events:
  assumes "scan_events (snd st) bs ps" "events_before (min i n) bs" "events_before (min i n) ps"
    and "n = i + length s \<or> s = []"
  shows "\<exists>bs' ps'. scan_events (snd (scan_from prev i mode s st)) bs' ps'
    \<and> events_before n bs' \<and> events_before n ps'"
  using assms
proof (induction prev i mode s st arbitrary: bs ps rule: scan_from.induct)
  case (1 prev i mode st)
  from 1(2,3) have "events_before n bs" "events_before n ps"
    by (blast intro: events_before_mono min.cobounded2)+
  with 1(1) show ?case by auto
next
  case (2 prev i mode c rest st)
  obtain mode' k st' where step: "scan_step_at prev i mode c rest st = (mode', k, st')"
    by (cases "scan_step_at prev i mode c rest st")
  have n: "n = i + length (c # rest)" using 2(5) by simp
  then have i: "min i n = i" by simp
  obtain bs' ps' where ev: "scan_events (snd st') bs' ps'" "events_before (Suc i) bs'" "events_before (Suc i) ps'"
  proof (cases "st' = st")
    case True
    from 2(2-4) i have "events_before (Suc i) bs" "events_before (Suc i) ps"
      by (auto intro: events_before_mono)
    with 2(2) True that show ?thesis by blast
  next
    case False
    with scan_step_state [OF step] have "scan_bracket prev i c (fst st, snd st) = (fst st', snd st')" by simp
    from scan_bracket_events [OF 2(2) _ _ this] 2(3,4) i that show ?thesis by auto
  qed
  have k: "k = 1 \<or> k = 2" using scan_step_within [OF step] by blast
  have "Suc i \<le> min (i + k) n" using k n by auto
  then have "events_before (min (i + k) n) bs'" "events_before (min (i + k) n) ps'"
    using ev(2,3) by (auto intro: events_before_mono)
  moreover have "n = i + k + length (drop k (c # rest)) \<or> drop k (c # rest) = []" using n k by auto
  ultimately show ?case
    using 2(1) [OF step [symmetric] refl refl ev(1)] step by simp
qed

lemma scan_brackets_events:
  "\<exists>bs ps. scan_events (scan_brackets s) bs ps \<and> events_before (length s) bs \<and> events_before (length s) ps"
  unfolding scan_brackets_def
  by (rule scan_from_events [where bs = "[]" and ps = "[]"])
     (simp_all add: scan_events_def no_brackets_def event_lists events_before_def)

section \<open>Matching as a machine on events\<close>

text \<open>
  The state: the stack of open block numbers, the opening positions of all blocks so far, the closed
  blocks with their closing positions in the order they close, and the parents.
\<close>

type_synonym match_state = "nat list \<times> nat list \<times> (nat \<times> nat) list \<times> nat list"

fun match_step :: "bracket_event \<Rightarrow> match_state \<Rightarrow> match_state option" where
  "match_step (True, x) (stack, os, cs, ps) =
     Some (length os # stack, os @ [x], cs,
           ps @ [case stack of [] \<Rightarrow> length os | p # _ \<Rightarrow> p])"
| "match_step (False, x) (stack, os, cs, ps) =
     (case stack of [] \<Rightarrow> None | i # stack' \<Rightarrow> Some (stack', os, cs @ [(i, x)], ps))"

fun match_run :: "bracket_event list \<Rightarrow> match_state \<Rightarrow> match_state option" where
  "match_run [] st = Some st"
| "match_run (e # evs) st =
     (case match_step e st of None \<Rightarrow> None | Some st' \<Rightarrow> match_run evs st')"

lemma match_run_keeps:
  "match_run evs (stack, os, cs, ps) = Some (stack', os', cs', ps') \<Longrightarrow>
     \<exists>ys zs ws. os' = os @ ys \<and> cs' = cs @ zs \<and> ps' = ps @ ws"
proof (induction evs arbitrary: stack os cs ps)
  case (Cons e evs)
  then show ?case
    by (cases e; cases "fst e"; cases stack) fastforce+
qed simp

definition pairs_of :: "nat list \<Rightarrow> (nat \<times> nat) list \<Rightarrow> (nat \<times> nat) list" where
  "pairs_of os cs = map (\<lambda>(i, c). (os ! i, c)) cs"

text \<open>Both source functions are readings of one run of the machine.\<close>

lemma pair_opn_cls_run:
  assumes "list_all (\<lambda>i. i < length os) stack"
  shows "pair_opn_cls (event_seq evs) (event_opens evs) (event_closes evs) (map ((!) os) stack) =
    (case match_run evs (stack, os, cs, ps) of
       None \<Rightarrow> Inl IndexError
     | Some (stack', os', cs', ps') \<Rightarrow> Inr (pairs_of os' (drop (length cs) cs')))"
  using assms
proof (induction evs arbitrary: stack os cs ps)
  case Nil
  show ?case by (simp add: event_lists pairs_of_def)
next
  case (Cons e evs)
  show ?case
  proof (cases e)
    case (Pair b x)
    show ?thesis
    proof (cases b)
      case True
      let ?ps = "ps @ [case stack of [] \<Rightarrow> length os | p # _ \<Rightarrow> p]"
      have st: "list_all (\<lambda>i. i < length (os @ [x])) (length os # stack)"
        using Cons.prems by (auto simp: list_all_iff)
      have m: "map ((!) (os @ [x])) stack = map ((!) os) stack"
        using Cons.prems by (auto simp: list_all_iff nth_append)
      from Cons.IH [OF st, of cs ?ps, unfolded list.map m] Pair True show ?thesis
        by (simp add: event_lists)
    next
      case False
      show ?thesis
      proof (cases stack)
        case Nil
        with Pair False show ?thesis by (simp add: event_lists)
      next
        case (Cons i stack')
        then have st: "list_all (\<lambda>i. i < length os) stack'" and i: "i < length os"
          using Cons.prems by auto
        note IH = Cons.IH [OF st, of "cs @ [(i, x)]" ps]
        show ?thesis
        proof (cases "match_run evs (stack', os, cs @ [(i, x)], ps)")
          case None
          with IH Pair False \<open>stack = i # stack'\<close> show ?thesis by (simp add: event_lists)
        next
          case (Some st)
          obtain s1 o1 c1 p1 where st: "st = (s1, o1, c1, p1)" by (cases st) auto
          with match_run_keeps [OF Some [unfolded st]] obtain ys zs where
            "o1 = os @ ys" "c1 = cs @ (i, x) # zs" by auto
          with IH Some st Pair False \<open>stack = i # stack'\<close> i show ?thesis
            by (simp add: event_lists pairs_of_def nth_append)
        qed
      qed
    qed
  qed
qed

lemma find_nested_pairs_run:
  "find_nested_pairs (event_seq evs) stack (length os) =
    (case match_run evs (stack, os, cs, ps) of
       None \<Rightarrow> Inl IndexError
     | Some (stack', os', cs', ps') \<Rightarrow> Inr (drop (length ps) ps'))"
proof (induction evs arbitrary: stack os cs ps)
  case Nil
  show ?case by (simp add: event_lists)
next
  case (Cons e evs)
  obtain b x where e: "e = (b, x)" by (cases e)
  show ?case
  proof (cases b)
    case True
    let ?p = "case stack of [] \<Rightarrow> length os | p # _ \<Rightarrow> p"
    note IH = Cons.IH [of "length os # stack" "os @ [x]" "ps @ [?p]" cs]
    show ?thesis
    proof (cases "match_run evs (length os # stack, os @ [x], cs, ps @ [?p])")
      case None
      with IH e True show ?thesis by (simp add: event_lists)
    next
      case (Some st)
      obtain s1 o1 c1 p1 where st: "st = (s1, o1, c1, p1)" by (cases st) auto
      with match_run_keeps [OF Some [unfolded st]] obtain ws where "p1 = ps @ ?p # ws" by auto
      with IH Some st e True show ?thesis by (simp add: event_lists)
    qed
  next
    case False
    show ?thesis
    proof (cases stack)
      case (Cons i stack')
      with Cons.IH [of stack' os ps "cs @ [(i, x)]"] e False show ?thesis
        by (simp add: event_lists)
    qed (simp add: event_lists e False)
  qed
qed

section \<open>When matching fails\<close>

definition closes_only_opened :: "nat list \<Rightarrow> bool" where
  "closes_only_opened bs =
     list_all (\<lambda>k. count_list (take k bs) 0 \<le> count_list (take k bs) 1) [0..<Suc (length bs)]"

lemma closes_only_opened_iff:
  "closes_only_opened bs \<longleftrightarrow> (\<forall>k. count_list (take k bs) 0 \<le> count_list (take k bs) 1)"
proof -
  have all: "count_list (take k bs) 0 \<le> count_list (take k bs) 1"
    if "\<forall>k<Suc (length bs). count_list (take k bs) 0 \<le> count_list (take k bs) 1" for k
    using that by (cases "k \<le> length bs") (auto dest: spec [of _ "length bs"])
  show ?thesis
  proof
    assume "closes_only_opened bs"
    then have "\<forall>k<Suc (length bs). count_list (take k bs) 0 \<le> count_list (take k bs) 1"
      unfolding closes_only_opened_def list_all_iff set_upt by simp
    with all show "\<forall>k. count_list (take k bs) 0 \<le> count_list (take k bs) 1" by blast
  next
    assume "\<forall>k. count_list (take k bs) 0 \<le> count_list (take k bs) 1"
    then show "closes_only_opened bs" unfolding closes_only_opened_def list_all_iff by blast
  qed
qed

lemma match_run_defined:
  "match_run evs (stack, os, cs, ps) \<noteq> None \<longleftrightarrow>
     (\<forall>k. count_list (take k (event_seq evs)) 0 \<le> length stack + count_list (take k (event_seq evs)) 1)"
proof (induction evs arbitrary: stack os cs ps)
  case (Cons e evs)
  obtain b x where e: "e = (b, x)" by (cases e)
  have all_Suc: "(\<forall>k. P k) \<longleftrightarrow> P 0 \<and> (\<forall>k. P (Suc k))" for P :: "nat \<Rightarrow> bool"
    by (metis not0_implies_Suc)
  show ?case
  proof (cases b)
    case True
    then have "match_run (e # evs) (stack, os, cs, ps) = match_run evs (length os # stack, os @ [x], cs,
        ps @ [case stack of [] \<Rightarrow> length os | p # _ \<Rightarrow> p])" by (simp add: e)
    with Cons.IH [of "length os # stack"] True show ?thesis
      by (subst all_Suc) (simp add: event_seq_def e)
  next
    case False
    show ?thesis
    proof (cases stack)
      case Nil
      have "\<exists>k. \<not> count_list (take k (0 # event_seq evs)) 0 \<le> count_list (take k (0 # event_seq evs)) 1"
        by (rule exI [of _ 1]) simp
      with Nil False show ?thesis by (simp add: event_seq_def e)
    next
      case (Cons i stack')
      with Cons.IH [of stack'] False show ?thesis
        by (subst all_Suc) (simp add: event_seq_def e)
    qed
  qed
qed (simp add: event_seq_def)

section \<open>The invariant of the machine\<close>

definition encloses :: "match_state \<Rightarrow> nat \<Rightarrow> nat \<Rightarrow> bool" where
  "encloses = (\<lambda>(stack, os, cs, ps) i j.
     i < j \<and> (i \<in> set stack \<or> (\<exists>c. (i, c) \<in> set cs \<and> os ! j \<le> c)))"

definition innermost :: "(nat \<Rightarrow> nat \<Rightarrow> bool) \<Rightarrow> nat \<Rightarrow> nat \<Rightarrow> bool" where
  "innermost encl j p \<longleftrightarrow>
     p = j \<and> (\<forall>i<j. \<not> encl i j) \<or> p < j \<and> encl p j \<and> (\<forall>i. p < i \<longrightarrow> i < j \<longrightarrow> \<not> encl i j)"

definition match_inv :: "bracket_event list \<Rightarrow> match_state \<Rightarrow> bool" where
  "match_inv evs = (\<lambda>(stack, os, cs, ps).
     os = event_opens evs \<and> map snd cs = event_closes evs
     \<and> sorted_wrt (>) stack \<and> distinct (map fst cs)
     \<and> (\<forall>i. i < length os \<longleftrightarrow> i \<in> set stack \<or> i \<in> fst ` set cs)
     \<and> set stack \<inter> fst ` set cs = {}
     \<and> (\<forall>i c. (i, c) \<in> set cs \<longrightarrow> os ! i \<le> c)
     \<and> (\<forall>i c j. (i, c) \<in> set cs \<longrightarrow> i < j \<longrightarrow> j < length os \<longrightarrow>
          c < os ! j \<or> (\<exists>c'. (j, c') \<in> set cs \<and> c' < c))
     \<and> length ps = length os
     \<and> (\<forall>j<length os. innermost (encloses (stack, os, cs, ps)) j (ps ! j)))"

lemma match_invI:
  assumes "os = event_opens evs" "map snd cs = event_closes evs"
    and "sorted_wrt (>) stack" "distinct (map fst cs)"
    and "\<And>i. i < length os \<longleftrightarrow> i \<in> set stack \<or> i \<in> fst ` set cs"
    and "set stack \<inter> fst ` set cs = {}"
    and "\<And>i c. (i, c) \<in> set cs \<Longrightarrow> os ! i \<le> c"
    and "\<And>i c j. (i, c) \<in> set cs \<Longrightarrow> i < j \<Longrightarrow> j < length os \<Longrightarrow>
          c < os ! j \<or> (\<exists>c'. (j, c') \<in> set cs \<and> c' < c)"
    and "length ps = length os"
    and "\<And>j. j < length os \<Longrightarrow> innermost (encloses (stack, os, cs, ps)) j (ps ! j)"
  shows "match_inv evs (stack, os, cs, ps)"
  unfolding match_inv_def split by (intro conjI allI impI; rule assms; assumption)

lemma event_opens_mem: "x \<in> set (event_opens evs) \<longleftrightarrow> (True, x) \<in> set evs"
  by (force simp: event_opens_def)

lemma event_closes_mem: "x \<in> set (event_closes evs) \<longleftrightarrow> (False, x) \<in> set evs"
  by (force simp: event_closes_def)

lemma match_inv_open:
  assumes inv: "match_inv evs (stack, os, cs, ps)" and less: "sorted_wrt event_less (evs @ [(True, x)])"
  shows "match_inv (evs @ [(True, x)]) (length os # stack, os @ [x], cs,
      ps @ [case stack of [] \<Rightarrow> length os | p # _ \<Rightarrow> p])"
proof -
  let ?n = "length os" and ?p = "case stack of [] \<Rightarrow> length os | p # _ \<Rightarrow> p"
  let ?st = "(stack, os, cs, ps)" and ?st' = "(?n # stack, os @ [x], cs, ps @ [?p])"
  note I = inv [unfolded match_inv_def split]
  have basic: "os = event_opens evs" "map snd cs = event_closes evs" "sorted_wrt (>) stack"
    "distinct (map fst cs)" "set stack \<inter> fst ` set cs = {}" "length ps = length os"
    using I by blast+
  have ix: "i < ?n \<longleftrightarrow> i \<in> set stack \<or> i \<in> fst ` set cs" for i using I by blast
  have stk: "i < ?n" if "i \<in> set stack" for i using ix that by blast
  have cls: "i < ?n" if "(i, c) \<in> set cs" for i c using ix [of i] that by force
  have below: "c < x" if "(i, c) \<in> set cs" for i c
  proof -
    from that have "c \<in> set (map snd cs)" by force
    then have "(False, c) \<in> set evs" using I by (simp add: event_closes_mem)
    with less show ?thesis by (auto simp: sorted_wrt_append event_less_def)
  qed
  have lenp: "length ps = ?n" using I by blast
  have old: "encloses ?st' i j \<longleftrightarrow> encloses ?st i j" if "j < ?n" for i j
    using that by (auto simp: encloses_def nth_append)
  have new: "encloses ?st' i ?n \<longleftrightarrow> i \<in> set stack" for i
    using below cls stk by (auto simp: encloses_def dest: leD)
  have inn: "innermost (encloses ?st') j ((ps @ [?p]) ! j)" if "j < Suc ?n" for j
  proof (cases "j < ?n")
    case True
    then have "innermost (encloses ?st) j (ps ! j)" using I by blast
    with True lenp show ?thesis by (simp add: innermost_def old nth_append)
  next
    case False
    with that have j: "j = ?n" by simp
    have "innermost (encloses ?st') ?n ?p"
      using stk basic(3) unfolding innermost_def new by (cases stack) auto
    with j lenp show ?thesis by (simp add: nth_append)
  qed
  have le: "(os @ [x]) ! i \<le> c" if "(i, c) \<in> set cs" for i c
  proof -
    have "os ! i \<le> c" using I that by blast
    with cls [OF that] show ?thesis by (simp add: nth_append)
  qed
  have lam: "c < (os @ [x]) ! j \<or> (\<exists>c'. (j, c') \<in> set cs \<and> c' < c)"
    if "(i, c) \<in> set cs" "i < j" "j < Suc ?n" for i c j
  proof (cases "j < ?n")
    case True
    have "c < os ! j \<or> (\<exists>c'. (j, c') \<in> set cs \<and> c' < c)" using I that(1,2) True by blast
    with True show ?thesis by (simp add: nth_append)
  next
    case False
    with that below [OF that(1)] show ?thesis by (simp add: nth_append less_Suc_eq)
  qed
  show ?thesis
  proof (rule match_invI)
    show "os @ [x] = event_opens (evs @ [(True, x)])" "map snd cs = event_closes (evs @ [(True, x)])"
      by (simp_all add: event_lists basic(1,2) [unfolded event_lists])
    show "sorted_wrt (>) (?n # stack)" "distinct (map fst cs)" "length (ps @ [?p]) = length (os @ [x])"
      using basic(3,4,6) stk by simp_all
    show "i < length (os @ [x]) \<longleftrightarrow> i \<in> set (?n # stack) \<or> i \<in> fst ` set cs" for i
      using ix [of i] by (auto simp: less_Suc_eq)
    have "?n \<notin> fst ` set cs"
    proof
      assume "?n \<in> fst ` set cs"
      then obtain c where "(?n, c) \<in> set cs" by auto
      from cls [OF this] show False by simp
    qed
    with basic(5) show "set (?n # stack) \<inter> fst ` set cs = {}" by simp
    show "innermost (encloses ?st') j ((ps @ [?p]) ! j)" if "j < length (os @ [x])" for j
      using inn [of j] that by simp
    show "c < (os @ [x]) ! j \<or> (\<exists>c'. (j, c') \<in> set cs \<and> c' < c)"
      if "(i, c) \<in> set cs" "i < j" "j < length (os @ [x])" for i c j
      using lam [of i c j] that by simp
  qed (rule le)
qed

lemma match_inv_close:
  assumes inv: "match_inv evs (i0 # stack, os, cs, ps)" and less: "sorted_wrt event_less (evs @ [(False, x)])"
  shows "match_inv (evs @ [(False, x)]) (stack, os, cs @ [(i0, x)], ps)"
proof -
  let ?st = "(i0 # stack, os, cs, ps)" and ?st' = "(stack, os, cs @ [(i0, x)], ps)"
  note I = inv [unfolded match_inv_def split]
  have basic: "os = event_opens evs" "map snd cs = event_closes evs" "sorted_wrt (>) (i0 # stack)"
    "distinct (map fst cs)" "set (i0 # stack) \<inter> fst ` set cs = {}" "length ps = length os"
    using I by blast+
  have ix: "i < length os \<longleftrightarrow> i \<in> set (i0 # stack) \<or> i \<in> fst ` set cs" for i using I by blast
  have i0: "i0 < length os" "i0 \<notin> fst ` set cs" "i0 \<notin> set stack" using basic(3,5) ix [of i0] by auto
  have opens: "os ! j \<le> x" if "j < length os" for j
  proof -
    have "os ! j \<in> set (event_opens evs)" using I that by auto
    then have "(True, os ! j) \<in> set evs" by (simp add: event_opens_mem)
    with less show ?thesis by (auto simp: sorted_wrt_append event_less_def)
  qed
  have closes: "c < x" if "(i, c) \<in> set cs" for i c
  proof -
    from that have "c \<in> set (map snd cs)" by force
    then have "(False, c) \<in> set evs" using I by (simp add: event_closes_mem)
    with less show ?thesis by (auto simp: sorted_wrt_append event_less_def)
  qed
  have encl: "encloses ?st' i j \<longleftrightarrow> encloses ?st i j" if "j < length os" for i j
    using opens [OF that] by (auto simp: encloses_def)
  have inn: "innermost (encloses ?st') j (ps ! j)" if "j < length os" for j
  proof -
    have "innermost (encloses ?st) j (ps ! j)" using I that by blast
    then show ?thesis unfolding innermost_def encl [OF that] .
  qed
  have lam: "c < os ! j \<or> (\<exists>c'. (j, c') \<in> set (cs @ [(i0, x)]) \<and> c' < c)"
    if "(i, c) \<in> set (cs @ [(i0, x)])" "i < j" "j < length os" for i c j
  proof (cases "(i, c) = (i0, x)")
    case True
    have "j \<notin> set (i0 # stack)" using basic(3) True that(2) by auto
    with ix [of j] that(3) obtain c' where "(j, c') \<in> set cs" by force
    with closes True show ?thesis by auto
  next
    case False
    with that(1) have "(i, c) \<in> set cs" by auto
    then have "c < os ! j \<or> (\<exists>c'. (j, c') \<in> set cs \<and> c' < c)" using I that(2,3) by blast
    then show ?thesis by auto
  qed
  show ?thesis
  proof (rule match_invI)
    show "os = event_opens (evs @ [(False, x)])" "map snd (cs @ [(i0, x)]) = event_closes (evs @ [(False, x)])"
      by (simp_all add: event_lists basic(1,2) [unfolded event_lists])
    show "set stack \<inter> fst ` set (cs @ [(i0, x)]) = {}" "distinct (map fst (cs @ [(i0, x)]))"
      "sorted_wrt (>) stack" "length ps = length os"
      using basic(3-6) i0(2,3) by auto
    show "i < length os \<longleftrightarrow> i \<in> set stack \<or> i \<in> fst ` set (cs @ [(i0, x)])" for i
      using ix [of i] by auto
    show "os ! i \<le> c" if "(i, c) \<in> set (cs @ [(i0, x)])" for i c
    proof (cases "(i, c) = (i0, x)")
      case True
      then show ?thesis using opens [OF i0(1)] by simp
    next
      case False
      with that have "(i, c) \<in> set cs" by auto
      with I show ?thesis by blast
    qed
  qed (rule lam inn; assumption)+
qed

lemma match_run_inv:
  assumes "match_run evs' st = Some st'" "match_inv evs st" "sorted_wrt event_less (evs @ evs')"
  shows "match_inv (evs @ evs') st'"
  using assms
proof (induction evs' arbitrary: evs st)
  case (Cons e evs')
  obtain stack os cs ps where st: "st = (stack, os, cs, ps)" by (cases st) auto
  obtain b x where e: "e = (b, x)" by (cases e)
  have less: "sorted_wrt event_less (evs @ [e])" using Cons.prems(3) by (auto simp: sorted_wrt_append)
  obtain st1 where st1: "match_step e st = Some st1" "match_run evs' st1 = Some st'"
    using Cons.prems(1) by (auto split: option.splits)
  have "match_inv (evs @ [e]) st1"
  proof (cases b)
    case True
    with st1(1) st e match_inv_open Cons.prems(2) less show ?thesis by auto
  next
    case False
    then obtain i0 stack' where "stack = i0 # stack'" "st1 = (stack', os, cs @ [(i0, x)], ps)"
      using st1(1) st e by (auto split: list.splits)
    with match_inv_close [of evs i0 stack' os cs ps x] Cons.prems(2) less False st e show ?thesis by simp
  qed
  from Cons.IH [OF st1(2) this] Cons.prems(3) show ?case by simp
qed simp

lemma match_inv_start: "match_inv [] ([], [], [], [])"
  by (simp add: match_inv_def event_lists)

section \<open>Nested blocks\<close>

definition in_block :: "(nat \<times> nat) list \<Rightarrow> nat \<Rightarrow> nat \<Rightarrow> bool" where
  "in_block P i k \<longleftrightarrow> fst (P ! i) \<le> k \<and> k < snd (P ! i)"

definition within_block :: "(nat \<times> nat) list \<Rightarrow> nat \<Rightarrow> nat \<Rightarrow> bool" where
  "within_block P i j \<longleftrightarrow> i < j \<and> fst (P ! j) \<le> snd (P ! i)"

definition nested :: "(nat \<times> nat) list \<Rightarrow> nat list \<Rightarrow> bool" where
  "nested P Q \<longleftrightarrow> sorted_wrt (<) (map fst P)
     \<and> (\<forall>i<length P. fst (P ! i) \<le> snd (P ! i))
     \<and> (\<forall>i j. i < j \<longrightarrow> j < length P \<longrightarrow> snd (P ! i) < fst (P ! j) \<or> snd (P ! j) < snd (P ! i))
     \<and> length Q = length P
     \<and> (\<forall>j<length P. innermost (within_block P) j (Q ! j))"

text \<open>The number of the segment a character belongs to: its innermost block, or the root.\<close>

definition block_of :: "(nat \<times> nat) list \<Rightarrow> nat \<Rightarrow> nat" where
  "block_of P k =
     (let inside = filter (\<lambda>i. fst (P ! i) \<le> k \<and> k < snd (P ! i)) [0..<length P]
      in if inside = [] then 0 else Suc (last inside))"

lemma last_filter_upt:
  assumes "i < n" "Q i"
  shows "filter Q [0..<n] \<noteq> []" "i \<le> last (filter Q [0..<n])"
    "last (filter Q [0..<n]) < n" "Q (last (filter Q [0..<n]))"
proof -
  show ne: "filter Q [0..<n] \<noteq> []" using assms by (auto simp: filter_empty_conv)
  then have "last (filter Q [0..<n]) \<in> set (filter Q [0..<n])" by (rule last_in_set)
  then show "last (filter Q [0..<n]) < n" "Q (last (filter Q [0..<n]))" by auto
  have "sorted (filter Q [0..<n])" using sorted_filter [of "\<lambda>x. x" "[0..<n]" Q] by simp
  moreover have "i \<in> set (filter Q [0..<n])" using assms by simp
  moreover have "x \<le> last xs" if "sorted xs" "x \<in> set xs" for x and xs :: "nat list"
    using that by (induction xs) auto
  ultimately show "i \<le> last (filter Q [0..<n])" by blast
qed

lemma block_of_root: "block_of P k = 0 \<longleftrightarrow> (\<forall>i<length P. \<not> in_block P i k)"
  by (auto simp: block_of_def Let_def in_block_def filter_empty_conv)

lemma block_of_block:
  assumes "i < length P"
  shows "block_of P k = Suc i \<longleftrightarrow> in_block P i k \<and> (\<forall>j<length P. i < j \<longrightarrow> \<not> in_block P j k)"
proof -
  let ?Q = "\<lambda>i. fst (P ! i) \<le> k \<and> k < snd (P ! i)"
  show ?thesis
  proof
    assume b: "block_of P k = Suc i"
    then have ne: "filter ?Q [0..<length P] \<noteq> []" and i: "i = last (filter ?Q [0..<length P])"
      by (auto simp: block_of_def Let_def split: if_splits)
    from last_in_set [OF ne] i have "?Q i" by auto
    moreover have "\<not> ?Q j" if "j < length P" "i < j" for j
      using last_filter_upt(2) [where Q = ?Q, OF that(1)] that(2) i by auto
    ultimately show "in_block P i k \<and> (\<forall>j<length P. i < j \<longrightarrow> \<not> in_block P j k)"
      by (simp add: in_block_def)
  next
    assume r: "in_block P i k \<and> (\<forall>j<length P. i < j \<longrightarrow> \<not> in_block P j k)"
    then have "?Q i" by (simp add: in_block_def)
    note l = last_filter_upt [where Q = ?Q, OF assms this]
    have "\<not> i < last (filter ?Q [0..<length P])" using r l(3,4) by (auto simp: in_block_def)
    with l(1,2) show "block_of P k = Suc i" by (simp add: block_of_def Let_def)
  qed
qed

lemma nested_less:
  assumes "nested P Q" "i < j" "j < length P"
  shows "fst (P ! i) < fst (P ! j)"
  using assms sorted_wrt_nth_less [of "(<)" "map fst P" i j] by (simp add: nested_def)

lemma within_inside:
  assumes "nested P Q" "within_block P i j" "j < length P"
  shows "snd (P ! j) < snd (P ! i)" "in_block P j k \<Longrightarrow> in_block P i k"
proof -
  have ij: "i < j" "fst (P ! j) \<le> snd (P ! i)" using assms(2) by (auto simp: within_block_def)
  then have "snd (P ! i) < fst (P ! j) \<or> snd (P ! j) < snd (P ! i)"
    using assms(1,3) unfolding nested_def by blast
  with ij show le: "snd (P ! j) < snd (P ! i)" by linarith
  show "in_block P j k \<Longrightarrow> in_block P i k"
    using nested_less [OF assms(1) ij(1) assms(3)] le by (simp add: in_block_def)
qed

text \<open>Every block inside \<open>p\<close> lies in a child of \<open>p\<close>; every block lies in a top-level one.\<close>

lemma child_above:
  assumes "nested P Q" "within_block P p j" "j < length P"
  shows "\<exists>i<length P. Q ! i = p \<and> i \<noteq> p \<and> (i = j \<or> within_block P i j)"
  using assms(2,3)
proof (induction j rule: less_induct)
  case (less j)
  have "innermost (within_block P) j (Q ! j)" using assms(1) less.prems(2) by (simp add: nested_def)
  moreover have pj: "p < j" using less.prems(1) by (simp add: within_block_def)
  ultimately have q: "Q ! j < j" "within_block P (Q ! j) j" "\<not> Q ! j < p"
    using less.prems(1) by (auto simp: innermost_def)
  show ?case
  proof (cases "Q ! j = p")
    case True
    with pj less.prems(2) show ?thesis by (intro exI [of _ j]) simp
  next
    case False
    let ?q = "Q ! j"
    have pq: "p < ?q" using q(3) False by simp
    have "fst (P ! ?q) \<le> snd (P ! p)"
      using nested_less [OF assms(1) q(1) less.prems(2)] less.prems(1) by (simp add: within_block_def)
    with pq have "within_block P p ?q" by (simp add: within_block_def)
    from less.IH [OF q(1) this] q(1) less.prems(2) obtain i where
      i: "i < length P" "Q ! i = p" "i \<noteq> p" "i = ?q \<or> within_block P i ?q" by auto
    have "within_block P i j"
    proof (cases "i = ?q")
      case False
      with i(4) have iq: "within_block P i ?q" by blast
      from within_inside(1) [OF assms(1) this] q(1) less.prems(2) have "snd (P ! ?q) < snd (P ! i)" by simp
      with q(1,2) iq show ?thesis by (simp add: within_block_def)
    qed (simp add: q(2))
    with i show ?thesis by (intro exI [of _ i]) simp
  qed
qed

lemma top_above:
  assumes "nested P Q" "j < length P"
  shows "\<exists>i<length P. Q ! i = i \<and> (i = j \<or> within_block P i j)"
  using assms(2)
proof (induction j rule: less_induct)
  case (less j)
  have inn: "innermost (within_block P) j (Q ! j)" using assms(1) less.prems by (simp add: nested_def)
  show ?case
  proof (cases "Q ! j = j")
    case True
    with less.prems show ?thesis by (intro exI [of _ j]) simp
  next
    case False
    with inn have q: "Q ! j < j" "within_block P (Q ! j) j" by (auto simp: innermost_def)
    from less.IH [OF q(1)] q(1) less.prems obtain i where
      i: "i < length P" "Q ! i = i" "i = Q ! j \<or> within_block P i (Q ! j)" by auto
    have "within_block P i j"
    proof (cases "i = Q ! j")
      case False
      with i(3) have iq: "within_block P i (Q ! j)" by blast
      from within_inside(1) [OF assms(1) this] q(1) less.prems have "snd (P ! (Q ! j)) < snd (P ! i)" by simp
      with q(1,2) iq show ?thesis by (simp add: within_block_def)
    qed (simp add: q(2))
    with i show ?thesis by (intro exI [of _ i]) simp
  qed
qed

section \<open>Cutting\<close>

definition chars_at :: "string \<Rightarrow> (nat \<Rightarrow> bool) \<Rightarrow> string" where
  "chars_at s A = map ((!) s) (filter A [0..<length s])"

lemma chars_at_cong: "(\<And>k. k < length s \<Longrightarrow> A k \<longleftrightarrow> B k) \<Longrightarrow> chars_at s A = chars_at s B"
  unfolding chars_at_def by (rule arg_cong [where f = "map ((!) s)"], rule filter_cong) simp_all

lemma upt_split: "i \<le> j \<Longrightarrow> j \<le> k \<Longrightarrow> [i..<k] = [i..<j] @ [j..<k]"
  by (metis le_add_diff_inverse upt_add_eq_append)

lemma map_nth_slice: "b \<le> length s \<Longrightarrow> a \<le> b \<Longrightarrow> map ((!) s) [a..<b] = slice a b s"
  by (rule nth_equalityI) (auto simp: slice_def)

lemma chars_at_slice:
  assumes "a \<le> b" "b \<le> length s"
  shows "chars_at s (\<lambda>k. a \<le> k \<and> k < b) = slice a b s"
proof -
  have split: "[0..<length s] = [0..<a] @ [a..<b] @ [b..<length s]"
    using assms upt_split [of 0 a "length s"] upt_split [of a b "length s"] by simp
  have "filter (\<lambda>k. a \<le> k \<and> k < b) [0..<a] = []" "filter (\<lambda>k. a \<le> k \<and> k < b) [b..<length s] = []"
    by (auto simp: filter_empty_conv)
  moreover have "filter (\<lambda>k. a \<le> k \<and> k < b) [a..<b] = [a..<b]" by (auto simp: filter_id_conv)
  ultimately show ?thesis
    using assms by (simp add: chars_at_def split map_nth_slice)
qed

text \<open>Cutting out an interval that is completely present, counted from the start of the text.\<close>

lemma cut_chars_at:
  assumes "s0 \<le> a" "a \<le> b" "b \<le> length s"
    and "\<And>k. A k \<Longrightarrow> s0 \<le> k" "\<And>k. s0 \<le> k \<Longrightarrow> k < b \<Longrightarrow> A k"
  shows "cut (a - s0) (b - s0) (chars_at s A) = chars_at s (\<lambda>k. A k \<and> \<not> (a \<le> k \<and> k < b))"
proof -
  let ?B = "\<lambda>k. A k \<and> \<not> (a \<le> k \<and> k < b)"
  have split: "[0..<length s] = [0..<s0] @ [s0..<a] @ [a..<b] @ [b..<length s]"
    using assms(1-3) upt_split [of 0 s0 "length s"] upt_split [of s0 a "length s"]
      upt_split [of a b "length s"] by simp
  have A: "filter A [0..<s0] = []" "filter A [s0..<a] = [s0..<a]" "filter A [a..<b] = [a..<b]"
    using assms by (force simp: filter_empty_conv filter_id_conv)+
  have B: "filter ?B [0..<s0] = []" "filter ?B [s0..<a] = [s0..<a]" "filter ?B [a..<b] = []"
    using assms by (force simp: filter_empty_conv filter_id_conv)+
  have B': "filter ?B [b..<length s] = filter A [b..<length s]"
    by (rule filter_cong) auto
  have "chars_at s A = map ((!) s) [s0..<a] @ map ((!) s) [a..<b] @ map ((!) s) (filter A [b..<length s])"
    unfolding chars_at_def split by (simp add: A)
  moreover have "chars_at s ?B = map ((!) s) [s0..<a] @ map ((!) s) (filter A [b..<length s])"
    unfolding chars_at_def split filter_append B B' by simp
  ultimately show ?thesis using assms(1,2) by (simp add: cut_def)
qed

section \<open>The texts of the blocks\<close>

lemma from_last_sorted:
  assumes "sorted_wrt (<) (map fst P)"
  shows "from_last P = rev [0..<length P]"
  unfolding from_last_def
proof (rule sort_key_inj_key_eq)
  have less: "fst (P ! i) < fst (P ! j)" if "i < j" "j < length P" for i j
    using sorted_wrt_nth_less [OF assms, of i j] that by simp
  show "inj_on (\<lambda>i. - int (fst (P ! i))) (set [0..<length P])"
  proof (rule inj_onI)
    fix i j assume "i \<in> set [0..<length P]" "j \<in> set [0..<length P]"
      "- int (fst (P ! i)) = - int (fst (P ! j))"
    then show "i = j" using less [of i j] less [of j i] by (cases i j rule: linorder_cases) auto
  qed
  show "sorted (map (\<lambda>i. - int (fst (P ! i))) (rev [0..<length P]))"
    unfolding sorted_iff_nth_mono_less using less by (auto simp: rev_nth intro!: less_imp_le)
qed simp

definition uncut :: "(nat \<times> nat) list \<Rightarrow> nat list \<Rightarrow> nat \<Rightarrow> nat \<Rightarrow> nat \<Rightarrow> bool" where
  "uncut P Q m p k \<longleftrightarrow> in_block P p k
     \<and> (\<forall>i<length P. m \<le> i \<longrightarrow> Q ! i = p \<longrightarrow> i \<noteq> p \<longrightarrow> \<not> in_block P i k)"

definition uncut_root :: "(nat \<times> nat) list \<Rightarrow> nat list \<Rightarrow> nat \<Rightarrow> nat \<Rightarrow> bool" where
  "uncut_root P Q m k \<longleftrightarrow> (\<forall>i<length P. m \<le> i \<longrightarrow> Q ! i = i \<longrightarrow> \<not> in_block P i k)"

text \<open>A block and a later sibling, or a later top-level block, do not overlap.\<close>

lemma not_within_disjoint:
  assumes "nested P Q" "i < j" "j < length P" "Q ! j < i \<or> Q ! j = j"
  shows "snd (P ! i) < fst (P ! j)"
proof -
  have "innermost (within_block P) j (Q ! j)" using assms(1,3) by (simp add: nested_def)
  with assms(2,4) have "\<not> within_block P i j" by (auto simp: innermost_def)
  with assms(2) show ?thesis by (simp add: within_block_def)
qed

definition segs_cut :: "string \<Rightarrow> (nat \<times> nat) list \<Rightarrow> nat list \<Rightarrow> nat \<Rightarrow> string list \<Rightarrow> bool" where
  "segs_cut s P Q m segs \<longleftrightarrow> length segs = length P
     \<and> (\<forall>p<length P. segs ! p = chars_at s (uncut P Q m p))"

lemma cut_child_step:
  assumes nest: "nested P Q" and ends: "\<forall>i<length P. snd (P ! i) \<le> length s"
    and m: "m < length P" and segs: "segs_cut s P Q (Suc m) segs"
  shows "\<exists>segs'. cut_child P Q m segs = Inr segs' \<and> segs_cut s P Q m segs'"
proof -
  have len: "length segs = length P" "length Q = length P" using segs nest
    by (simp_all add: segs_cut_def nested_def)
  have inn: "innermost (within_block P) m (Q ! m)" using nest m by (simp add: nested_def)
  have grow: "uncut P Q m p k \<longleftrightarrow> uncut P Q (Suc m) p k \<and> (Q ! m = p \<longrightarrow> m \<noteq> p \<longrightarrow> \<not> in_block P m k)"
    for p k
    using m unfolding uncut_def by (auto simp: Suc_le_eq le_less)
  show ?thesis
  proof (cases "Q ! m = m")
    case True
    then have "uncut P Q m p = uncut P Q (Suc m) p" for p using grow by auto
    with segs True m len show ?thesis
      by (simp add: cut_child_def py_nth_def segs_cut_def)
  next
    case False
    let ?p = "Q ! m"
    from False inn have p: "?p < m" "within_block P ?p m" by (auto simp: innermost_def)
    obtain s0 e0 where P0: "P ! ?p = (s0, e0)" by (cases "P ! ?p")
    obtain a b where P1: "P ! m = (a, b)" by (cases "P ! m")
    have "s0 < a" using nested_less [OF nest p(1) m] P0 P1 by simp
    moreover have "a \<le> b" using nest m P1 by (auto simp: nested_def)
    moreover have "b \<le> length s" using ends m P1 by auto
    moreover have "uncut P Q (Suc m) ?p k" if "s0 \<le> k" "k < b" for k
    proof -
      have "b < e0" using within_inside(1) [OF nest p(2) m] P0 P1 by simp
      moreover have "\<not> in_block P i k" if "i < length P" "Suc m \<le> i" "Q ! i = ?p" for i
        using not_within_disjoint [OF nest, of m i] that p(1) P1 \<open>k < b\<close> by (auto simp: in_block_def)
      ultimately show ?thesis using that P0 by (auto simp: uncut_def in_block_def)
    qed
    moreover have "s0 \<le> k" if "uncut P Q (Suc m) ?p k" for k
      using that P0 by (auto simp: uncut_def in_block_def)
    ultimately have "cut (a - s0) (b - s0) (chars_at s (uncut P Q (Suc m) ?p))
        = chars_at s (\<lambda>k. uncut P Q (Suc m) ?p k \<and> \<not> (a \<le> k \<and> k < b))"
      by (intro cut_chars_at) auto
    also have "\<dots> = chars_at s (uncut P Q m ?p)"
      using False by (intro chars_at_cong) (auto simp: grow in_block_def P1)
    finally have cut: "cut (a - s0) (b - s0) (segs ! ?p) = chars_at s (uncut P Q m ?p)"
      using segs p(1) m by (simp add: segs_cut_def)
    have other: "uncut P Q m q = uncut P Q (Suc m) q" if "q \<noteq> ?p" for q
      using grow [of q] that by auto
    have "cut_child P Q m segs = Inr (segs[?p := cut (a - s0) (b - s0) (segs ! ?p)])"
      using False m p(1) len P0 P1 by (simp add: cut_child_def py_nth_def)
    moreover have "segs_cut s P Q m (segs[?p := cut (a - s0) (b - s0) (segs ! ?p)])"
      using segs p(1) m unfolding cut segs_cut_def by (auto simp: nth_list_update other)
    ultimately show ?thesis by blast
  qed
qed

lemma cut_children:
  assumes nest: "nested P Q" and ends: "\<forall>i<length P. snd (P ! i) \<le> length s"
    and "m \<le> length P" "segs_cut s P Q m segs"
  shows "\<exists>segs'. py_fold (cut_child P Q) (rev [0..<m]) segs = Inr segs' \<and> segs_cut s P Q 0 segs'"
  using assms(3,4)
proof (induction m arbitrary: segs)
  case (Suc m)
  from cut_child_step [OF nest ends _ Suc.prems(2)] Suc.prems(1) obtain segs1 where
    1: "cut_child P Q m segs = Inr segs1" "segs_cut s P Q m segs1" by auto
  from Suc.IH [OF _ 1(2)] Suc.prems(1) 1(1) show ?case by simp
qed simp

lemma cut_roots:
  assumes nest: "nested P Q" and ends: "\<forall>i<length P. snd (P ! i) \<le> length s"
    and "m \<le> length P"
  shows "py_fold (cut_root P Q) (rev [0..<m]) (chars_at s (uncut_root P Q m))
    = Inr (chars_at s (uncut_root P Q 0))"
  using assms(3)
proof (induction m)
  case (Suc m)
  then have m: "m < length P" "length Q = length P" using nest by (simp_all add: nested_def)
  have grow: "uncut_root P Q m k \<longleftrightarrow> uncut_root P Q (Suc m) k \<and> (Q ! m = m \<longrightarrow> \<not> in_block P m k)" for k
    using m(1) unfolding uncut_root_def by (auto simp: Suc_le_eq le_less)
  obtain a b where P1: "P ! m = (a, b)" by (cases "P ! m")
  have "cut_root P Q m (chars_at s (uncut_root P Q (Suc m))) = Inr (chars_at s (uncut_root P Q m))"
  proof (cases "Q ! m = m")
    case True
    have "uncut_root P Q (Suc m) k" if "k < b" for k
      unfolding uncut_root_def
    proof (intro allI impI)
      fix i assume "i < length P" "Suc m \<le> i" "Q ! i = i"
      then have "b < fst (P ! i)" using not_within_disjoint [OF nest, of m i] P1 by simp
      with that show "\<not> in_block P i k" by (simp add: in_block_def)
    qed
    moreover have "a \<le> b" "b \<le> length s" using nest ends m P1 by (auto simp: nested_def)
    ultimately have "cut (a - 0) (b - 0) (chars_at s (uncut_root P Q (Suc m)))
        = chars_at s (\<lambda>k. uncut_root P Q (Suc m) k \<and> \<not> (a \<le> k \<and> k < b))"
      by (intro cut_chars_at) auto
    also have "\<dots> = chars_at s (uncut_root P Q m)"
      using True by (intro chars_at_cong) (auto simp: grow in_block_def P1)
    finally show ?thesis using True m P1 by (simp add: cut_root_def py_nth_def)
  next
    case False
    then have "uncut_root P Q m = uncut_root P Q (Suc m)" using grow by auto
    with False m show ?thesis by (simp add: cut_root_def py_nth_def)
  qed
  with Suc show ?case by simp
qed simp

lemma parse_code_segs_nested:
  assumes nest: "nested P Q" and ends: "\<forall>i<length P. snd (P ! i) \<le> length s"
  shows "parse_code_segs s P Q =
    Inr (map (\<lambda>b. chars_at s (\<lambda>k. block_of P k = b)) [0..<Suc (length P)])"
proof -
  let ?n = "length P"
  have order: "from_last P = rev [0..<?n]"
    using nest by (intro from_last_sorted) (simp add: nested_def)
  have "segs_cut s P Q ?n (map (\<lambda>(a, b). slice a b s) P)"
    unfolding segs_cut_def
  proof (intro conjI allI impI)
    fix p assume p: "p < ?n"
    obtain a b where P1: "P ! p = (a, b)" by (cases "P ! p")
    have "a \<le> b" "b \<le> length s" using nest ends p P1 by (auto simp: nested_def)
    moreover have "uncut P Q ?n p = (\<lambda>k. a \<le> k \<and> k < b)"
      by (auto simp: uncut_def in_block_def P1)
    ultimately show "map (\<lambda>(a, b). slice a b s) P ! p = chars_at s (uncut P Q ?n p)"
      using p P1 chars_at_slice by simp
  qed simp
  from cut_children [OF nest ends order_refl this] obtain segs where
    segs: "py_fold (cut_child P Q) (rev [0..<?n]) (map (\<lambda>(a, b). slice a b s) P) = Inr segs"
    "segs_cut s P Q 0 segs" by blast
  have "chars_at s (uncut_root P Q ?n) = s"
    by (simp add: uncut_root_def chars_at_def map_nth)
  with cut_roots [OF nest ends order_refl]
  have root: "py_fold (cut_root P Q) (rev [0..<?n]) s = Inr (chars_at s (uncut_root P Q 0))" by simp
  have "uncut_root P Q 0 k \<longleftrightarrow> block_of P k = 0" for k
  proof
    assume r: "uncut_root P Q 0 k"
    have "\<not> in_block P j k" if j: "j < ?n" for j
    proof
      assume inj: "in_block P j k"
      from top_above [OF nest j] obtain i where i: "i < ?n" "Q ! i = i" "i = j \<or> within_block P i j" by blast
      then have "in_block P i k" using within_inside(2) [OF nest _ j] inj by blast
      with r i show False by (auto simp: uncut_root_def)
    qed
    then show "block_of P k = 0" by (simp add: block_of_root)
  next
    assume "block_of P k = 0"
    then show "uncut_root P Q 0 k" by (auto simp: block_of_root uncut_root_def)
  qed
  then have root_text: "uncut_root P Q 0 = (\<lambda>k. block_of P k = 0)" by auto
  have "uncut P Q 0 p k \<longleftrightarrow> block_of P k = Suc p" if p: "p < ?n" for p k
    unfolding block_of_block [OF p]
  proof
    assume u: "uncut P Q 0 p k"
    then have inp: "in_block P p k" by (simp add: uncut_def)
    have "\<not> in_block P j k" if j: "j < ?n" "p < j" for j
    proof
      assume inj: "in_block P j k"
      have "within_block P p j" using inp inj j(2) by (simp add: within_block_def in_block_def)
      from child_above [OF nest this j(1)] obtain i where
        i: "i < ?n" "Q ! i = p" "i \<noteq> p" "i = j \<or> within_block P i j" by blast
      then have "in_block P i k" using within_inside(2) [OF nest _ j(1)] inj by blast
      with u i show False by (auto simp: uncut_def)
    qed
    with inp show "in_block P p k \<and> (\<forall>j<length P. p < j \<longrightarrow> \<not> in_block P j k)" by blast
  next
    assume r: "in_block P p k \<and> (\<forall>j<length P. p < j \<longrightarrow> \<not> in_block P j k)"
    have "p < i" if "i < ?n" "Q ! i = p" "i \<noteq> p" for i
    proof -
      have "innermost (within_block P) i (Q ! i)" using nest that(1) by (simp add: nested_def)
      with that show ?thesis by (auto simp: innermost_def)
    qed
    with r show "uncut P Q 0 p k" by (auto simp: uncut_def)
  qed
  then have seg_eq: "uncut P Q 0 p = (\<lambda>k. block_of P k = Suc p)" if "p < ?n" for p
    using that by auto
  have "chars_at s (\<lambda>k. block_of P k = 0) # segs
      = map (\<lambda>b. chars_at s (\<lambda>k. block_of P k = b)) [0..<Suc ?n]"
    using segs(2) seg_eq unfolding segs_cut_def
    by (intro nth_equalityI) (auto simp: nth_Cons' nth_append less_Suc_eq simp del: upt_Suc)
  then show ?thesis
    unfolding parse_code_segs_def order Let_def segs(1) root root_text by simp
qed

section \<open>From the machine to nested blocks\<close>

lemma distinct_of_map: "distinct (map f xs) \<Longrightarrow> distinct xs"
  by (simp add: distinct_map)

lemma match_run_nested:
  assumes run: "match_run evs ([], [], [], []) = Some ([], os, cs, ps)"
    and evs: "events_before n evs"
  shows "nested (sort_key fst (pairs_of os cs)) ps" "\<forall>(a, b)\<in>set (pairs_of os cs). 0 < a \<and> b < n"
proof -
  have "match_inv evs ([], os, cs, ps)"
    using match_run_inv [OF run match_inv_start] evs by (simp add: events_before_def)
  note I = this [unfolded match_inv_def split]
  have basic: "os = event_opens evs" "map snd cs = event_closes evs" "distinct (map fst cs)"
    "length ps = length os" using I by blast+
  have ix: "i < length os \<longleftrightarrow> i \<in> fst ` set cs" for i using I by auto
  let ?n = "length os"
  define close where "close i = the (map_of cs i)" for i
  have close: "(i, close i) \<in> set cs" if "i < ?n" for i
  proof -
    from that ix [of i] obtain c where "(i, c) \<in> set cs" by auto
    then show ?thesis using basic(3) by (simp add: close_def)
  qed
  have uniq: "c = close i" if "(i, c) \<in> set cs" for i c
    using that basic(3) by (simp add: close_def)
  have in_range: "i < ?n" if "(i, c) \<in> set cs" for i c using ix [of i] that by force
  let ?P = "map (\<lambda>i. (os ! i, close i)) [0..<?n]"
  have sorted_os: "sorted_wrt (<) os"
  proof -
    have "sorted_wrt event_less (filter fst evs)"
      using evs by (simp add: events_before_def sorted_wrt_filter)
    then have "sorted_wrt (\<lambda>e f. snd e < snd f) (filter fst evs)"
      by (rule sorted_wrt_mono_rel [rotated]) (auto simp: event_less_def)
    then show ?thesis by (simp add: basic(1) event_opens_def sorted_wrt_map)
  qed
  have less: "os ! i < os ! j" if "i < j" "j < ?n" for i j
    using sorted_wrt_nth_less [OF sorted_os that] .
  have sort: "sort_key fst (pairs_of os cs) = ?P"
  proof (rule sort_key_inj_key_eq)
    have "distinct (pairs_of os cs)"
    proof (rule distinct_of_map)
      have "map fst (pairs_of os cs) = map (\<lambda>i. os ! i) (map fst cs)" by (auto simp: pairs_of_def)
      moreover have "inj_on (\<lambda>i. os ! i) (set (map fst cs))"
      proof (rule inj_onI)
        fix i j assume "i \<in> set (map fst cs)" "j \<in> set (map fst cs)" "os ! i = os ! j"
        then show "i = j" using less [of i j] less [of j i] ix [of i] ix [of j]
          by (cases i j rule: linorder_cases) auto
      qed
      ultimately show "distinct (map fst (pairs_of os cs))"
        using basic(3) by (simp only: distinct_map simp_thms)
    qed
    moreover have "distinct ?P"
    proof (rule distinct_of_map)
      have "map fst ?P = os" by (simp add: map_nth o_def)
      then show "distinct (map fst ?P)" using sorted_os strict_sorted_iff by metis
    qed
    moreover have "set (pairs_of os cs) = set ?P"
      using close uniq in_range by (auto simp: pairs_of_def)
    ultimately show "mset (pairs_of os cs) = mset ?P" by (simp only: set_eq_iff_mset_eq_distinct)
    show "inj_on fst (set (pairs_of os cs))"
    proof (rule inj_onI)
      fix x y assume "x \<in> set (pairs_of os cs)" "y \<in> set (pairs_of os cs)" "fst x = fst y"
      then obtain i j c d where xy: "x = (os ! i, c)" "y = (os ! j, d)" "(i, c) \<in> set cs" "(j, d) \<in> set cs"
        "os ! i = os ! j" by (auto simp: pairs_of_def)
      then have "i = j" using less [of i j] less [of j i] in_range
        by (cases i j rule: linorder_cases) fastforce+
      with xy uniq show "x = y" by metis
    qed
    show "sorted (map fst ?P)"
      using sorted_os by (simp add: o_def map_nth strict_sorted_iff)
  qed
  have inn: "innermost (encloses ([], os, cs, ps)) j (ps ! j)" if "j < ?n" for j using I that by blast
  have encl: "encloses ([], os, cs, ps) i j \<longleftrightarrow> within_block ?P i j" if "j < ?n" for i j
    using that close uniq in_range by (auto simp: encloses_def within_block_def) force
  have lam: "close i < os ! j \<or> close j < close i" if "i < j" "j < ?n" for i j
  proof -
    have "close i < os ! j \<or> (\<exists>c'. (j, c') \<in> set cs \<and> c' < close i)"
      using I close [of i] that by (meson less_trans)
    with uniq show ?thesis by blast
  qed
  have "innermost (within_block ?P) j (ps ! j)" if "j < ?n" for j
    using inn [OF that] unfolding innermost_def encl [OF that] .
  moreover have "os ! i \<le> close i" if "i < ?n" for i using I close [OF that] by blast
  moreover have "sorted_wrt (<) (map fst ?P)" using sorted_os by (simp add: o_def map_nth)
  ultimately show "nested (sort_key fst (pairs_of os cs)) ps"
    unfolding sort nested_def using lam basic(4) by simp
  show "\<forall>(a, b)\<in>set (pairs_of os cs). 0 < a \<and> b < n"
  proof (rule ballI, clarify)
    fix a b assume "(a, b) \<in> set (pairs_of os cs)"
    then obtain i where i: "a = os ! i" "(i, b) \<in> set cs" by (auto simp: pairs_of_def)
    have "a \<in> set (event_opens evs)" using in_range [OF i(2)] i(1) basic(1) by auto
    moreover have "b \<in> set (event_closes evs)" using i(2) unfolding basic(2) [symmetric] by force
    ultimately show "0 < a \<and> b < n"
      using evs by (fastforce simp: event_opens_mem event_closes_mem events_before_def)
  qed
qed

section \<open>Texts and parents\<close>

lemma block_of_brace:
  assumes nest: "nested P Q" and pos: "\<forall>(a, b)\<in>set P. 0 < a" and j: "j < length P"
  shows "block_of P (fst (P ! j) - 1) = (if Q ! j = j then 0 else Suc (Q ! j))"
proof -
  have inn: "innermost (within_block P) j (Q ! j)" using nest j by (simp add: nested_def)
  have a: "0 < fst (P ! j)" using bspec [OF pos nth_mem [OF j]] by (simp add: case_prod_beta)
  have "in_block P i (fst (P ! j) - 1) \<longleftrightarrow> within_block P i j" if i: "i < length P" for i
  proof (cases i j rule: linorder_cases)
    case less
    then show ?thesis using nested_less [OF nest less j] a by (auto simp: in_block_def within_block_def)
  next
    case equal
    then show ?thesis using a by (auto simp: in_block_def within_block_def)
  next
    case greater
    then show ?thesis using nested_less [OF nest greater i] by (auto simp: in_block_def within_block_def)
  qed
  note iff = this
  show ?thesis
  proof (cases "Q ! j = j")
    case True
    with inn have "\<not> within_block P i j" for i by (auto simp: innermost_def within_block_def)
    with True iff show ?thesis by (simp add: block_of_root)
  next
    case False
    with inn have q: "Q ! j < j" "within_block P (Q ! j) j"
      "\<forall>i. Q ! j < i \<longrightarrow> i < j \<longrightarrow> \<not> within_block P i j" by (auto simp: innermost_def)
    have "\<not> within_block P i j" if "Q ! j < i" for i
      using q(3) that by (cases "i < j") (auto simp: within_block_def)
    then show ?thesis using False iff q(1,2) j by (simp add: block_of_block)
  qed
qed

lemma shift_parents_nested:
  assumes "nested P Q" "\<forall>(a, b)\<in>set P. 0 < a"
  shows "shift_parents Q = 0 # map (\<lambda>(a, b). block_of P (a - 1)) P"
proof -
  have "length Q = length P" using assms(1) by (simp add: nested_def)
  then show ?thesis
    using block_of_brace [OF assms]
    by (auto simp: shift_parents_def nth_enumerate_eq case_prod_beta intro!: nth_equalityI)
qed

section \<open>When the block structure is found\<close>

lemma from_last_range: "i \<in> set (from_last P) \<longleftrightarrow> i < length P"
  by (simp add: from_last_def)

lemma parse_code_segs_total:
  assumes "length P \<le> length Q" "\<forall>i<length Q. Q ! i \<le> i"
  shows "\<exists>segs. parse_code_segs s P Q = Inr segs \<and> length segs = Suc (length P)"
proof -
  have "\<exists>segs. py_fold (cut_child P Q) (from_last P) raw = Inr segs \<and> length segs = length P"
    if "length raw = length P" for raw :: "string list"
  proof (rule py_fold_invariant [where I = "\<lambda>_ segs. length segs = length P"])
    fix i and segs :: "string list"
    assume i: "i \<in> set (from_last P)" and len: "length segs = length P"
    from i have "i < length P" "i < length Q" using assms(1) by (simp_all add: from_last_range)
    moreover from this have "Q ! i < length P" using assms(2) le_less_trans by blast
    moreover note len
    ultimately show "\<exists>s'. cut_child P Q i segs = Inr s' \<and> length s' = length P"
      by (cases "P ! i"; cases "P ! (Q ! i)") (simp add: cut_child_def py_nth_def)
  qed (simp add: that)
  then obtain segs where segs: "py_fold (cut_child P Q) (from_last P) (map (\<lambda>(a, b). slice a b s) P) = Inr segs"
    "length segs = length P" by (metis length_map)
  have "\<exists>r. py_fold (cut_root P Q) (from_last P) s = Inr r \<and> True"
  proof (rule py_fold_invariant [where I = "\<lambda>_ _. True"])
    fix i and r :: string
    assume "i \<in> set (from_last P)"
    then have "i < length P" "i < length Q" using assms(1) by (simp_all add: from_last_range)
    then show "\<exists>s'. cut_root P Q i r = Inr s' \<and> True"
      by (cases "P ! i") (simp add: cut_root_def py_nth_def)
  qed simp
  with segs show ?thesis by (auto simp: parse_code_segs_def)
qed

text \<open>Pairs, parents and texts of one kind of bracket, given its event list.\<close>

lemma bracket_pass:
  assumes evs: "events_before n evs" and c: "closes_only_opened (event_seq evs)"
  shows "\<exists>P Q. sorted_pairs (event_seq evs) (event_opens evs) (event_closes evs) = Inr P
    \<and> find_nested_pairs (event_seq evs) [] 0 = Inr Q
    \<and> length P \<le> length Q \<and> (\<forall>i<length Q. Q ! i \<le> i)
    \<and> (count_list (event_seq evs) 0 = count_list (event_seq evs) 1 \<longrightarrow>
         nested P Q \<and> (\<forall>(a, b)\<in>set P. 0 < a \<and> b < n))"
proof -
  from c match_run_defined [of evs "[]" "[]" "[]" "[]"] obtain st where
    "match_run evs ([], [], [], []) = Some st"
    unfolding closes_only_opened_iff by auto
  then obtain stack os cs ps where run: "match_run evs ([], [], [], []) = Some (stack, os, cs, ps)"
    by (cases st) auto
  have "match_inv evs (stack, os, cs, ps)"
    using match_run_inv [OF run match_inv_start] evs by (simp add: events_before_def)
  note I = this [unfolded match_inv_def split]
  have basic: "os = event_opens evs" "map snd cs = event_closes evs" "distinct (map fst cs)"
    "length ps = length os" using I by blast+
  have ix: "i < length os \<longleftrightarrow> i \<in> set stack \<or> i \<in> fst ` set cs" for i using I by blast
  have "fst ` set cs \<subseteq> {..<length os}" using ix by auto
  with basic(3) have "length cs \<le> length os"
    by (metis card_lessThan card_mono distinct_card finite_lessThan length_map set_map)
  then have len: "length (sort_key fst (pairs_of os cs)) \<le> length ps"
    by (simp add: pairs_of_def basic(4))
  have le: "ps ! i \<le> i" if "i < length ps" for i
  proof -
    have "innermost (encloses (stack, os, cs, ps)) i (ps ! i)" using I that by metis
    then show ?thesis by (auto simp: innermost_def)
  qed
  have "stack = []" if "count_list (event_seq evs) 0 = count_list (event_seq evs) 1"
  proof (rule ccontr)
    assume "stack \<noteq> []"
    have counts: "count_list (event_seq es) 1 = length (event_opens es)"
      "count_list (event_seq es) 0 = length (event_closes es)" for es
      by (induction es) (auto simp: event_lists split: prod.splits)
    have "length cs = length os"
      using that counts basic(1,2) by (metis length_map)
    then have "fst ` set cs = {..<length os}"
      using \<open>fst ` set cs \<subseteq> {..<length os}\<close> basic(3)
      by (metis card_lessThan card_subset_eq distinct_card finite_lessThan length_map set_map)
    moreover have "set stack \<inter> fst ` set cs = {}" using I by blast
    moreover have "hd stack \<in> set stack" using \<open>stack \<noteq> []\<close> by simp
    ultimately show False using ix [of "hd stack"] by auto
  qed
  then have nest: "nested (sort_key fst (pairs_of os cs)) ps
      \<and> (\<forall>(a, b)\<in>set (sort_key fst (pairs_of os cs)). 0 < a \<and> b < n)"
    if "count_list (event_seq evs) 0 = count_list (event_seq evs) 1"
    using match_run_nested [OF _ evs, of os cs ps] run that by simp
  have "sorted_pairs (event_seq evs) (event_opens evs) (event_closes evs) = Inr (sort_key fst (pairs_of os cs))"
    using pair_opn_cls_run [of "[]" "[]" evs "[]" "[]"] run by (simp add: sorted_pairs_def)
  moreover have "find_nested_pairs (event_seq evs) [] 0 = Inr ps"
    using find_nested_pairs_run [of evs "[]" "[]" "[]" "[]"] run by simp
  ultimately show ?thesis using len le nest by blast
qed

lemma bracket_pass_fails:
  assumes "\<not> closes_only_opened (event_seq evs)"
  shows "sorted_pairs (event_seq evs) (event_opens evs) (event_closes evs) = Inl IndexError"
proof -
  have "match_run evs ([], [], [], []) = None"
    using assms match_run_defined [of evs "[]" "[]" "[]" "[]"] unfolding closes_only_opened_iff by auto
  then show ?thesis
    using pair_opn_cls_run [of "[]" "[]" evs "[]" "[]"] by (simp add: sorted_pairs_def)
qed

lemma shift_parents_props:
  assumes "\<forall>i<length Q. Q ! i \<le> i" "i < Suc (length Q)"
  shows "shift_parents Q ! i \<le> i" "0 < i \<Longrightarrow> shift_parents Q ! i < i" "shift_parents Q ! 0 = 0"
  using assms by (cases i; auto simp: shift_parents_def nth_enumerate_eq le_less)+

lemma code_blocks_total:
  assumes "closes_only_opened (bk_b_seq (scan_brackets s))" "closes_only_opened (bk_p_seq (scan_brackets s))"
  shows "\<exists>segs parents. code_blocks s = Inr (segs, parents) \<and> segs \<noteq> [] \<and> length segs \<le> length parents
    \<and> parents ! 0 = 0 \<and> (\<forall>i<length parents. 0 < i \<longrightarrow> parents ! i < i)"
proof -
  obtain bs ps where ev: "scan_events (scan_brackets s) bs ps"
    "events_before (length s) bs" "events_before (length s) ps" using scan_brackets_events by blast
  note st = ev(1) [unfolded scan_events_def]
  from bracket_pass [OF ev(2)] assms(1) st obtain P Q where
    b: "sorted_pairs (event_seq bs) (event_opens bs) (event_closes bs) = Inr P"
    "find_nested_pairs (event_seq bs) [] 0 = Inr Q" "length P \<le> length Q" "\<forall>i<length Q. Q ! i \<le> i" by auto
  from bracket_pass [OF ev(3)] assms(2) st obtain P' Q' where
    p: "sorted_pairs (event_seq ps) (event_opens ps) (event_closes ps) = Inr P'"
    "find_nested_pairs (event_seq ps) [] 0 = Inr Q'" "length P' \<le> length Q'" "\<forall>i<length Q'. Q' ! i \<le> i" by auto
  obtain segs where segs: "parse_code_segs s P Q = Inr segs" "length segs = Suc (length P)"
    using parse_code_segs_total [OF b(3,4)] by blast
  obtain psegs where psegs: "parse_code_segs s P' Q' = Inr psegs"
    using parse_code_segs_total [OF p(3,4)] by blast
  have len: "length (shift_parents Q) = Suc (length Q)" by (simp add: shift_parents_def)
  have "code_blocks s = Inr (segs, shift_parents Q)"
    using st b(1,2) p(1,2) segs psegs by (simp add: code_blocks_def)
  then show ?thesis
    using segs(2) b(3) shift_parents_props [OF b(4)] len by (intro exI conjI) auto
qed

lemma code_blocks_fails:
  assumes "\<not> (closes_only_opened (bk_b_seq (scan_brackets s)) \<and> closes_only_opened (bk_p_seq (scan_brackets s)))"
  shows "code_blocks s = Inl IndexError"
proof -
  obtain bs ps where ev: "scan_events (scan_brackets s) bs ps"
    "events_before (length s) bs" "events_before (length s) ps" using scan_brackets_events by blast
  note st = ev(1) [unfolded scan_events_def]
  show ?thesis
  proof (cases "closes_only_opened (event_seq bs)")
    case True
    from bracket_pass [OF ev(2) True] obtain P where
      "sorted_pairs (event_seq bs) (event_opens bs) (event_closes bs) = Inr P" by blast
    moreover have "\<not> closes_only_opened (event_seq ps)" using True assms st by simp
    ultimately show ?thesis using st by (simp add: code_blocks_def bracket_pass_fails)
  next
    case False
    then show ?thesis using st by (simp add: code_blocks_def bracket_pass_fails)
  qed
qed

text \<open>
  C10. When every brace of a file is closed, the segments are a partition of its text: segment 0
  consists of the characters outside all blocks and segment \<open>i + 1\<close> of those whose innermost block is
  the \<open>i\<close>-th, in order; the parent of a segment is the segment its opening brace belongs to.
\<close>
theorem segments_partition_the_file:
  assumes "code_blocks s = Inr (segs, parents)"
    and "count_list (bk_b_seq (scan_brackets s)) 0 = count_list (bk_b_seq (scan_brackets s)) 1"
  shows "\<exists>P. sorted_pairs (bk_b_seq (scan_brackets s)) (bk_open_b (scan_brackets s))
               (bk_cls_b (scan_brackets s)) = Inr P
    \<and> (\<forall>(a, b)\<in>set P. 0 < a \<and> a \<le> b \<and> b < length s)
    \<and> segs = map (\<lambda>i. map ((!) s) (filter (\<lambda>k. block_of P k = i) [0..<length s])) [0..<Suc (length P)]
    \<and> parents = 0 # map (\<lambda>(a, b). block_of P (a - 1)) P"
proof -
  obtain bs ps where ev: "scan_events (scan_brackets s) bs ps"
    "events_before (length s) bs" "events_before (length s) ps" using scan_brackets_events by blast
  note st = ev(1) [unfolded scan_events_def]
  have "closes_only_opened (event_seq bs)"
    using code_blocks_fails [of s] assms(1) st by auto
  from bracket_pass [OF ev(2) this] assms(2) st obtain P Q where
    b: "sorted_pairs (event_seq bs) (event_opens bs) (event_closes bs) = Inr P"
    "find_nested_pairs (event_seq bs) [] 0 = Inr Q" "nested P Q"
    "\<forall>(a, b)\<in>set P. 0 < a \<and> b < length s" by auto
  have ends: "\<forall>i<length P. snd (P ! i) \<le> length s"
    using b(4) nth_mem [of _ P] by (fastforce simp: case_prod_beta)
  have le: "\<forall>(a, b)\<in>set P. a \<le> b"
    using b(3) by (force simp: nested_def in_set_conv_nth)
  have pos: "\<forall>(a, b)\<in>set P. 0 < a" using b(4) by auto
  note texts = parse_code_segs_nested [OF b(3) ends, unfolded chars_at_def]
  have "code_blocks s = Inr (segs, parents) \<Longrightarrow>
      parse_code_segs s P Q = Inr segs \<and> parents = shift_parents Q"
    using st b(1,2) by (auto simp: code_blocks_def py_bind_eq_Inr)
  with assms(1) texts shift_parents_nested [OF b(3) pos] have
    "segs = map (\<lambda>i. map ((!) s) (filter (\<lambda>k. block_of P k = i) [0..<length s])) [0..<Suc (length P)]"
    "parents = 0 # map (\<lambda>(a, b). block_of P (a - 1)) P" by auto
  moreover have "\<forall>(a, b)\<in>set P. 0 < a \<and> a \<le> b \<and> b < length s" using b(4) le by fast
  moreover have "sorted_pairs (bk_b_seq (scan_brackets s)) (bk_open_b (scan_brackets s))
               (bk_cls_b (scan_brackets s)) = Inr P" using b(1) st by simp
  ultimately show ?thesis by (intro exI [of _ P] conjI)
qed

theorem segments_partition_the_file_witness:
  "\<exists>P. sorted_pairs (bk_b_seq (scan_brackets ''f(){a{b}c}'')) (bk_open_b (scan_brackets ''f(){a{b}c}''))
         (bk_cls_b (scan_brackets ''f(){a{b}c}'')) = Inr P
    \<and> (\<forall>(a, b)\<in>set P. 0 < a \<and> a \<le> b \<and> b < length ''f(){a{b}c}'')
    \<and> [''f(){}'', ''a{}c'', ''b''] = map (\<lambda>i. map ((!) ''f(){a{b}c}'')
         (filter (\<lambda>k. block_of P k = i) [0..<length ''f(){a{b}c}''])) [0..<Suc (length P)]
    \<and> [0, 0, 1] = 0 # map (\<lambda>(a, b). block_of P (a - 1)) P"
proof (rule segments_partition_the_file)
  show "code_blocks ''f(){a{b}c}'' = Inr ([''f(){}'', ''a{}c'', ''b''], [0, 0, 1])" by code_simp
  show "count_list (bk_b_seq (scan_brackets ''f(){a{b}c}'')) 0 =
      count_list (bk_b_seq (scan_brackets ''f(){a{b}c}'')) 1" by code_simp
qed

text \<open>
  The check for unclosed braces (\<open>_error_handling\<close>) is commented out: with one, the parents no longer
  fit the pairs, and a block after it is filed under a block it is not in.
\<close>

lemma unclosed_brace_misplaces_blocks:
  "code_blocks ''a { b { c } d { e }'' = Inr ([''a { b {} d { e }'', '' c '', '' e ''], [0, 0, 1, 1])"
  by code_simp

end
