(* ===== verification/FrontEndFacts.thy ===== *)
theory FrontEndFacts
  imports FrontEnd BraceFacts
begin

text \<open>
  \<open>parse_c_file\<close> raises exactly when a bracket closes that was never opened; otherwise its segments
  form a well-formed tree, which is what the later passes need to run without an exception.
\<close>

section \<open>Children and headers\<close>

text \<open>The parent array as \<open>code_blocks\<close> returns it: the root is its own parent, others come after theirs.\<close>

definition parents_ok :: "nat list \<Rightarrow> nat \<Rightarrow> bool" where
  "parents_ok bparents n \<longleftrightarrow> 0 < n \<and> n \<le> length bparents \<and> bparents ! 0 = 0
     \<and> (\<forall>i<n. 0 < i \<longrightarrow> bparents ! i < i)"

lemma parents_okD:
  "parents_ok bparents n \<Longrightarrow> i < n \<Longrightarrow> py_nth bparents i = Inr (bparents ! i)"
  "parents_ok bparents n \<Longrightarrow> i < n \<Longrightarrow> bparents ! i < n"
  "parents_ok bparents n \<Longrightarrow> i < n \<Longrightarrow> 0 < i \<Longrightarrow> bparents ! i < i"
  "parents_ok bparents n \<Longrightarrow> bparents ! 0 = 0"
  "parents_ok bparents n \<Longrightarrow> 0 < n"
  by (auto simp: parents_ok_def py_nth_def)

lemma children_of_ok:
  assumes "parents_ok bparents n"
  shows "\<exists>d. children_of bparents n = Inr d
    \<and> (\<forall>p. dict_get_list d p = filter (\<lambda>i. bparents ! i = p) [1..<n])
    \<and> (\<forall>p\<in>set (dict_keys d). p < n)"
proof -
  have "\<exists>d. py_fold (\<lambda>seg_id d. py_bind (py_nth bparents seg_id) (\<lambda>p. Inr (dict_append p seg_id d))) [1..<n] []
      = Inr d \<and> ((\<forall>p. dict_get_list d p = filter (\<lambda>i. bparents ! i = p) [1..<n])
        \<and> (\<forall>p\<in>set (dict_keys d). p < n))"
  proof (rule py_fold_invariant [where I = "\<lambda>ys d. (\<forall>p. dict_get_list d p = filter (\<lambda>i. bparents ! i = p) ys)
        \<and> (\<forall>p\<in>set (dict_keys d). p < n)"], goal_cases)
    case (2 ys i d)
    then have "i < n" by simp
    note p = parents_okD(1,2) [OF assms this]
    have "set (dict_keys (dict_append (bparents ! i) i d)) \<subseteq> insert (bparents ! i) (set (dict_keys d))"
      by (simp only: dict_keys_append) auto
    with 2(3) p(2) have "\<forall>q\<in>set (dict_keys (dict_append (bparents ! i) i d)). q < n" by blast
    moreover have "\<forall>q. dict_get_list (dict_append (bparents ! i) i d) q
        = filter (\<lambda>i. bparents ! i = q) (ys @ [i])" using 2(3) by (simp add: dict_get_list_append)
    ultimately show ?case using p(1) by (simp only: py_bind_simps) blast
  qed simp
  then show ?thesis by (simp add: children_of_def)
qed

lemma seg_headers_ok:
  assumes "\<forall>p\<in>set (dict_keys children). p < length bseg_stmnts"
  shows "\<exists>d. seg_headers bseg_stmnts children = Inr d"
proof -
  have "\<exists>d. seg_headers bseg_stmnts children = Inr d \<and> True"
    unfolding seg_headers_def
  proof (rule py_fold_invariant [where I = "\<lambda>_ _. True"], goal_cases)
    case (2 ys x d)
    then have "fst x < length bseg_stmnts" using assms by auto
    then show ?case by (cases x) (simp add: py_nth_def)
  qed simp
  then show ?thesis by simp
qed

section \<open>Names and scope paths\<close>

lemma seg_names_ok:
  assumes "parents_ok bparents (length bseg_stmnts)"
  shows "\<exists>names. seg_names bseg_stmnts bparents headers = Inr names \<and> length names = length bseg_stmnts"
proof -
  let ?n = "length bseg_stmnts"
  have "\<exists>r. py_fold (name_step headers bparents) [0..<?n] ([], []) = Inr r \<and> length (fst r) = length [0..<?n]"
  proof (rule py_fold_invariant [where I = "\<lambda>ys r. length (fst r) = length ys"], goal_cases)
    case (2 ys i r)
    then have "i < ?n" by simp
    with 2(3) show ?case
      by (cases r) (simp add: name_step_def parents_okD(1) [OF assms] Let_def case_prod_beta)
  qed simp
  then obtain names counters where names:
    "py_fold (name_step headers bparents) [0..<?n] ([], []) = Inr (names, counters)" "length names = ?n"
    by auto
  have "\<exists>nm. patch_name bseg_stmnts bparents x = Inr nm" if "x \<in> set (enumerate 0 names)" for x
  proof -
    obtain i nm where x: "x = (i, nm)" by (cases x)
    with that names(2) have "i < ?n" by (auto simp: enumerate_eq_zip dest: set_zip_leftD)
    with x show ?thesis
      using parents_okD(1,2) [OF assms \<open>i < ?n\<close>]
      by (auto simp: patch_name_def py_nth_def split: option.splits)
  qed
  then obtain f where "\<And>x. x \<in> set (enumerate 0 names) \<Longrightarrow> patch_name bseg_stmnts bparents x = Inr (f x)"
    by metis
  then have "py_seq (map (patch_name bseg_stmnts bparents) (enumerate 0 names))
      = Inr (map f (enumerate 0 names))" by (simp add: py_seq_Inr)
  with names show ?thesis by (simp add: seg_names_def)
qed

text \<open>The names on the way up from a segment.\<close>

lemma scope_parts_step:
  assumes "parents_ok bparents n" "length names = n" "current < n" "\<forall>v\<in>set visited. current < v"
  shows "scope_parts names bparents current visited =
    (if current = 0 then Inr [names ! 0]
     else py_bind (scope_parts names bparents (bparents ! current) (current # visited))
            (\<lambda>ps. Inr (names ! current # ps)))"
proof -
  have "current \<notin> set visited" using assms(4) by auto
  moreover have "bparents ! current = current \<longleftrightarrow> current = 0"
  proof (cases "current = 0")
    case False
    then show ?thesis using parents_okD(3) [OF assms(1,3)] by simp
  qed (simp add: parents_okD(4) [OF assms(1)])
  ultimately show ?thesis
    using parents_okD(1) [OF assms(1,3)] assms(2,3)
    by (subst scope_parts.simps) (simp add: py_nth_def)
qed

lemma scope_parts_visited:
  assumes "parents_ok bparents n" "length names = n" "current < n"
    and "\<forall>v\<in>set visited. current < v" "\<forall>v\<in>set visited'. current < v"
  shows "\<exists>ps. scope_parts names bparents current visited = Inr ps
    \<and> scope_parts names bparents current visited' = Inr ps \<and> ps \<noteq> []"
  using assms(3-5)
proof (induction current arbitrary: visited visited' rule: less_induct)
  case (less current)
  note step = scope_parts_step [OF assms(1,2)]
  show ?case
  proof (cases "current = 0")
    case True
    with step [OF less.prems(1,2)] step [OF less.prems(1,3)] show ?thesis by simp
  next
    case False
    then have p: "bparents ! current < current" using parents_okD(3) [OF assms(1) less.prems(1)] by simp
    have v: "\<forall>v\<in>set (current # visited). bparents ! current < v"
      "\<forall>v\<in>set (current # visited'). bparents ! current < v" using p less.prems(2,3) by auto
    have "bparents ! current < n" using p less.prems(1) by simp
    from less.IH [OF p this v] False step [OF less.prems(1,2)] step [OF less.prems(1,3)]
    show ?thesis by auto
  qed
qed

lemma build_scope_path_step:
  assumes "parents_ok bparents n" "length names = n" "i < n"
  shows "\<exists>path. build_scope_path i names bparents = Inr path
    \<and> (if i = 0 then path = names ! 0
       else \<exists>ppath. build_scope_path (bparents ! i) names bparents = Inr ppath
              \<and> path = ppath @ ''.'' @ names ! i)"
proof (cases "i = 0")
  case True
  with scope_parts_step [OF assms, of "[]"] show ?thesis by (simp add: build_scope_path_def)
next
  case False
  then have p: "bparents ! i < i" using parents_okD(3) [OF assms(1,3)] by simp
  from scope_parts_visited [OF assms(1,2), of "bparents ! i" "[i]" "[]"] p assms(3)
  obtain ps where ps: "scope_parts names bparents (bparents ! i) [i] = Inr ps"
    "scope_parts names bparents (bparents ! i) [] = Inr ps" "ps \<noteq> []" by auto
  have "str_join ''.'' (rev ps @ [names ! i]) = str_join ''.'' (rev ps) @ ''.'' @ names ! i"
    using ps(3) by (simp add: str_join_append)
  with scope_parts_step [OF assms, of "[]"] False ps show ?thesis by (simp add: build_scope_path_def)
qed

section \<open>Descendants\<close>

lemma owned_descendants_ok:
  assumes "\<And>p c. c \<in> set (dict_get_list children p) \<Longrightarrow> p < c \<and> c < length heads"
  shows "length heads - i < fuel \<Longrightarrow> \<exists>ds. owned_descendants fuel heads children i = Inr ds
    \<and> (\<forall>d\<in>set ds. d < length heads)"
proof (induction fuel arbitrary: i)
  case (Suc fuel)
  let ?f = "\<lambda>child. py_bind (py_nth heads child) (\<lambda>head.
           if get_seg_type head \<in> {''function'', ''struct''} then Inr []
           else py_bind (owned_descendants fuel heads children child) (\<lambda>ds. Inr (child # ds)))"
  have "\<exists>ds. ?f c = Inr ds \<and> (\<forall>d\<in>set ds. d < length heads)" if "c \<in> set (dict_get_list children i)" for c
  proof -
    have c: "i < c" "c < length heads" using assms [OF that] by auto
    then have "length heads - c < fuel" using Suc.prems by simp
    from Suc.IH [OF this] obtain ds where
      ds: "owned_descendants fuel heads children c = Inr ds" "\<forall>d\<in>set ds. d < length heads" by blast
    from c(2) have "py_nth heads c = Inr (heads ! c)" by (simp add: py_nth_def)
    with ds c(2) show ?thesis by simp
  qed
  then obtain g where g: "\<And>c. c \<in> set (dict_get_list children i) \<Longrightarrow> ?f c = Inr (g c)"
    "\<And>c. c \<in> set (dict_get_list children i) \<Longrightarrow> \<forall>d\<in>set (g c). d < length heads" by metis
  then have "py_seq (map ?f (dict_get_list children i)) = Inr (map g (dict_get_list children i))"
    by (simp only: py_seq_Inr map_map) (simp cong: map_cong)
  then have "owned_descendants (Suc fuel) heads children i = Inr (concat (map g (dict_get_list children i)))"
    by simp
  moreover have "\<forall>d\<in>set (concat (map g (dict_get_list children i))). d < length heads"
    using g(2) by auto
  ultimately show ?case by blast
qed simp

section \<open>Raw texts survive classification\<close>

lemma try_assign_raw: "try_assign ids udt raw s op = Some st \<Longrightarrow> st_raw st = raw"
  by (auto simp: try_assign_def Let_def plain_stmt_def split: option.splits if_splits)

lemma first_assign_raw: "first_assign ids udt raw s ops = Some st \<Longrightarrow> st_raw st = raw"
  by (induction ids udt raw s ops rule: first_assign.induct)
     (auto dest: try_assign_raw split: option.splits)

lemma classify_raw [simp]: "st_raw (classify_statement raw types udt) = raw"
proof -
  have "st_raw (classify_block ids types raw s) = raw" for ids s
    by (simp add: classify_block_def Let_def plain_stmt_def split: option.splits prod.splits)
  moreover have "st_raw (classify_decl ids raw w nm rest) = raw" for ids w nm rest
    by (simp add: classify_decl_def Let_def plain_stmt_def)
  ultimately show ?thesis
    by (auto simp: classify_statement_def Let_def plain_stmt_def first_assign_raw
        split: option.splits prod.splits)
qed

lemma attach_raw [simp]: "st_raw (attach_expr st) = st_raw st"
  by (simp add: attach_expr_def split: option.splits list.splits)

lemma expand_raw [simp]: "st_raw (expand_r_names d st) = st_raw st"
  by (simp add: expand_r_names_def)

section \<open>What the first passes deliver\<close>

lemma root_name:
  assumes "seg_names bseg_stmnts bparents headers = Inr names" "header_of headers 0 = None"
    and "parents_ok bparents (length bseg_stmnts)"
  shows "names ! 0 = ''root''"
proof -
  let ?n = "length bseg_stmnts"
  have up: "[0..<?n] = 0 # [1..<?n]" using parents_okD(5) [OF assms(3)] by (simp add: upt_rec)
  have grow: "\<exists>ys. fst r = fst st @ ys" if "py_fold (name_step headers bparents) xs st = Inr r" for xs st r
    using that
  proof (induction xs arbitrary: st)
    case (Cons x xs)
    then obtain st1 where "name_step headers bparents x st = Inr st1"
      "py_fold (name_step headers bparents) xs st1 = Inr r" by (auto simp: py_bind_eq_Inr)
    with Cons.IH [OF this(2)] show ?case
      by (cases st) (auto simp: name_step_def py_bind_eq_Inr Let_def case_prod_beta)
  qed simp
  from assms(1) obtain ns counters where ns:
    "py_fold (name_step headers bparents) [0..<?n] ([], []) = Inr (ns, counters)"
    "py_seq (map (patch_name bseg_stmnts bparents) (enumerate 0 ns)) = Inr names"
    by (auto simp: seg_names_def py_bind_eq_Inr)
  have "name_step headers bparents 0 ([], []) = Inr ([''root''], [])"
    using parents_okD(5) [OF assms(3)] assms(2) parents_okD(1) [OF assms(3), of 0]
    by (simp add: name_step_def get_seg_type_def get_seg_name_def count_child_def)
  with ns(1) up have "py_fold (name_step headers bparents) [1..<?n] ([''root''], []) = Inr (ns, counters)"
    by simp
  from grow [OF this] obtain ys where "ns = ''root'' # ys" by auto
  with ns(2) show ?thesis by (auto simp: patch_name_def py_bind_eq_Inr)
qed

definition info_ok :: "string list list \<Rightarrow> nat list \<Rightarrow> file_info \<Rightarrow> bool" where
  "info_ok bseg_stmnts bparents fi \<longleftrightarrow>
     fi_stmnts fi = bseg_stmnts \<and> fi_parents fi = bparents
     \<and> length (fi_heads fi) = length bseg_stmnts \<and> length (fi_names fi) = length bseg_stmnts
     \<and> length (fi_paths fi) = length bseg_stmnts
     \<and> (\<forall>p c. c \<in> set (dict_get_list (fi_children fi) p) \<longrightarrow> p < c \<and> c < length bseg_stmnts)
     \<and> fi_paths fi ! 0 = ''root''
     \<and> (\<forall>i<length bseg_stmnts. 0 < i \<longrightarrow>
          fi_paths fi ! i = fi_paths fi ! (bparents ! i) @ ''.'' @ fi_names fi ! i)"

lemma file_info_ok:
  assumes par: "parents_ok bparents (length bseg_stmnts)"
  shows "\<exists>fi. file_info_of bseg_stmnts bparents = Inr fi \<and> info_ok bseg_stmnts bparents fi"
proof -
  let ?n = "length bseg_stmnts"
  from children_of_ok [OF par] obtain children where ch: "children_of bparents ?n = Inr children"
    "\<And>p. dict_get_list children p = filter (\<lambda>i. bparents ! i = p) [1..<?n]"
    "\<forall>p\<in>set (dict_keys children). p < ?n" by blast
  from seg_headers_ok [OF ch(3)] obtain headers where
    hd: "seg_headers bseg_stmnts children = Inr headers" by blast
  have root: "header_of headers 0 = None"
  proof -
    have inner: "header_of (fold (\<lambda>(c, h). dict_set c h) (block_headers stmnts cs) d) 0 = header_of d 0"
      if "0 \<notin> set cs" for stmnts cs and d :: "(nat, string option) dict"
    proof -
      have "header_of (fold (\<lambda>(c, h). dict_set c h) kvs d) 0 = header_of d 0"
        if "0 \<notin> fst ` set kvs" for kvs :: "(nat \<times> string option) list" and d
        using that by (induction kvs arbitrary: d) (auto simp: header_of_def dict_get_set)
      moreover have "0 \<notin> fst ` set (block_headers stmnts cs)"
        using that by (auto simp: block_headers_def Let_def dest: enumerate_memD)
      ultimately show ?thesis by blast
    qed
    have none: "0 \<notin> set cs" if "(p, cs) \<in> set children" for p cs
    proof
      assume "0 \<in> set cs"
      have dist: "distinct (dict_keys children)"
      proof -
        have "\<exists>d. py_fold (\<lambda>seg_id d. py_bind (py_nth bparents seg_id) (\<lambda>p. Inr (dict_append p seg_id d))) [1..<?n] []
            = Inr d \<and> distinct (dict_keys d)"
        proof (rule py_fold_invariant [where I = "\<lambda>_ d. distinct (dict_keys d)"], goal_cases)
          case (2 ys i d)
          then have "i < ?n" by simp
          from 2(3) have "distinct (dict_keys (dict_append (bparents ! i) i d))"
            unfolding dict_keys_append by simp
          with parents_okD(1) [OF par \<open>i < ?n\<close>] show ?case by simp
        qed simp
        with ch(1) show ?thesis by (auto simp: children_of_def)
      qed
      with that have "dict_get_list children p = cs" by (simp add: dict_get_list_def)
      with ch(2) [of p] \<open>0 \<in> set cs\<close> show False by auto
    qed
    have "header_of headers 0 = None"
      if "py_fold (\<lambda>(parent_id, child_ids) d. py_bind (py_nth bseg_stmnts parent_id) (\<lambda>stmnts.
            Inr (fold (\<lambda>(c, h). dict_set c h) (block_headers stmnts child_ids) d))) kvs d = Inr headers"
        "header_of d 0 = None" "set kvs \<subseteq> set children" for kvs d
      using that
    proof (induction kvs arbitrary: d)
      case (Cons kv kvs)
      obtain p cs where kv: "kv = (p, cs)" by (cases kv)
      from Cons.prems(1) kv obtain stmnts where
        "py_fold (\<lambda>(parent_id, child_ids) d. py_bind (py_nth bseg_stmnts parent_id) (\<lambda>stmnts.
            Inr (fold (\<lambda>(c, h). dict_set c h) (block_headers stmnts child_ids) d))) kvs
          (fold (\<lambda>(c, h). dict_set c h) (block_headers stmnts cs) d) = Inr headers"
        by (auto simp: py_bind_eq_Inr)
      moreover have "header_of (fold (\<lambda>(c, h). dict_set c h) (block_headers stmnts cs) d) 0 = None"
        using inner [OF none [of p cs]] Cons.prems(2,3) kv by auto
      ultimately show ?case using Cons.IH Cons.prems(3) by auto
    qed simp
    from this [OF hd [unfolded seg_headers_def]] show ?thesis by (simp add: header_of_def)
  qed
  from seg_names_ok [OF par] obtain names where
    nm: "seg_names bseg_stmnts bparents headers = Inr names" "length names = ?n" by blast
  note path = build_scope_path_step [OF par nm(2)]
  then obtain f where f: "\<And>i. i < ?n \<Longrightarrow> build_scope_path i names bparents = Inr (f i)" by metis
  then have paths: "py_seq (map (\<lambda>i. build_scope_path i names bparents) [0..<?n]) = Inr (map f [0..<?n])"
    by (simp add: py_seq_Inr)
  have path_step: "f i = f (bparents ! i) @ ''.'' @ names ! i" if "i < ?n" "0 < i" for i
    using path [OF that(1)] f [OF that(1)] f [OF parents_okD(2) [OF par that(1)]] that(2) by auto
  have path_root: "f 0 = ''root''"
    using path [OF parents_okD(5) [OF par]] f [OF parents_okD(5) [OF par]] root_name [OF nm(1) root par] by simp
  have "\<exists>fi. file_info_of bseg_stmnts bparents = Inr fi \<and> fi_stmnts fi = bseg_stmnts
      \<and> fi_parents fi = bparents \<and> length (fi_heads fi) = ?n \<and> fi_names fi = names
      \<and> fi_paths fi = map f [0..<?n] \<and> fi_children fi = children"
    by (simp add: file_info_of_def ch(1) hd nm(1) paths Let_def)
  then obtain fi where fi: "file_info_of bseg_stmnts bparents = Inr fi" "fi_stmnts fi = bseg_stmnts"
    "fi_parents fi = bparents" "length (fi_heads fi) = ?n" "fi_names fi = names"
    "fi_paths fi = map f [0..<?n]" "fi_children fi = children" by blast
  have "p < c \<and> c < ?n" if "c \<in> set (dict_get_list (fi_children fi) p)" for p c
    using that parents_okD(3) [OF par, of c] unfolding fi(7) ch(2) by auto
  moreover have "fi_paths fi ! 0 = ''root''" using path_root parents_okD(5) [OF par] by (simp add: fi(6))
  moreover have "fi_paths fi ! i = fi_paths fi ! (bparents ! i) @ ''.'' @ fi_names fi ! i"
    if "i < ?n" "0 < i" for i
    using path_step [OF that] parents_okD(2) [OF par that(1)] that(1) by (simp add: fi(5,6))
  ultimately have "info_ok bseg_stmnts bparents fi"
    unfolding info_ok_def using fi nm(2) by simp
  with fi(1) show ?thesis by blast
qed

section \<open>The segments\<close>

definition seg_is :: "file_info \<Rightarrow> segment \<Rightarrow> bool" where
  "seg_is fi sg \<longleftrightarrow> sg_parent sg = fi_parents fi ! sg_id sg \<and> sg_name sg = fi_names fi ! sg_id sg
     \<and> sg_scope_path sg = fi_paths fi ! sg_id sg \<and> map st_raw (sg_stmts sg) = fi_stmnts fi ! sg_id sg"

lemma seg_constants_ok:
  assumes "info_ok bseg_stmnts bparents fi"
  shows "\<exists>cs. seg_constants fi udt i classified = Inr cs"
proof -
  note ok = assms [unfolded info_ok_def]
  have "length (fi_heads fi) - i < Suc (length (fi_stmnts fi))" using ok by simp
  from owned_descendants_ok [where children = "fi_children fi" and heads = "fi_heads fi", OF _ this] ok
  obtain ds where ds: "owned_descendants (Suc (length (fi_stmnts fi))) (fi_heads fi) (fi_children fi) i = Inr ds"
    "\<forall>d\<in>set ds. d < length (fi_heads fi)" by metis
  have "py_seq (map (py_nth (fi_stmnts fi)) ds) = Inr (map ((!) (fi_stmnts fi)) ds)"
    using ds(2) ok by (simp add: py_seq_Inr py_nth_def)
  with ds(1) show ?thesis by (simp add: seg_constants_def)
qed

lemma segment_step_ok:
  assumes par: "parents_ok bparents (length bseg_stmnts)" and ok: "info_ok bseg_stmnts bparents fi"
    and i: "i < length bseg_stmnts"
  shows "\<exists>sg. segment_step fi i segments = Inr (segments @ [sg]) \<and> sg_id sg = i \<and> seg_is fi sg"
proof -
  note I = ok [unfolded info_ok_def]
  have p: "py_nth (fi_parents fi) i = Inr (bparents ! i)" using I parents_okD(1) [OF par i] by simp
  obtain U C mem hd ty where step: "segment_step fi i segments =
      py_bind (seg_constants fi U i C) (\<lambda>constants. Inr (segments @
        [\<lparr>sg_id = i, sg_parent = bparents ! i, sg_type = ty, sg_name = fi_names fi ! i,
          sg_scope_path = fi_paths fi ! i, sg_head = hd, sg_memory = mem,
          sg_constants = constants, sg_stmts = C\<rparr>]))" and raw: "map st_raw C = fi_stmnts fi ! i"
    apply (rule that)
     apply (unfold segment_step_def p py_bind_simps Let_def)
     apply (rule refl)
    apply (simp add: o_def)
    done
  from seg_constants_ok [OF ok] obtain cs where "seg_constants fi U i C = Inr cs" by blast
  with step raw I show ?thesis by (simp add: seg_is_def)
qed

lemma c_segments_ok:
  assumes par: "parents_ok bparents (length bseg_stmnts)" and ok: "info_ok bseg_stmnts bparents fi"
  shows "\<exists>segs. py_fold (segment_step fi) [0..<length bseg_stmnts] [] = Inr segs
    \<and> map sg_id segs = [0..<length bseg_stmnts] \<and> list_all (seg_is fi) segs"
proof (rule py_fold_invariant [where I = "\<lambda>ys segs. map sg_id segs = ys \<and> list_all (seg_is fi) segs"],
    goal_cases)
  case (2 ys i segs)
  then have "i < length bseg_stmnts" by simp
  from segment_step_ok [OF par ok this, of segs] obtain sg where
    "segment_step fi i segs = Inr (segs @ [sg])" "sg_id sg = i" "seg_is fi sg" by blast
  with 2(3) show ?case by simp
qed simp

section \<open>The parsed file\<close>

text \<open>What is known of the list of segments that the loop over the blocks builds.\<close>

definition built_from :: "file_info \<Rightarrow> string list list \<Rightarrow> nat list \<Rightarrow> segment list \<Rightarrow> bool" where
  "built_from fi stmnts parents segs \<longleftrightarrow>
     map sg_id segs = [0..<length stmnts] \<and> list_all (seg_is fi) segs \<and> info_ok stmnts parents fi
     \<and> parents_ok parents (length stmnts)"

lemma built_length: "built_from fi stmnts parents segs \<Longrightarrow> length segs = length stmnts"
  unfolding built_from_def by (metis length_map length_upt minus_nat.diff_0)

lemma built_nth:
  assumes "built_from fi stmnts parents segs" "i < length stmnts"
  shows "sg_id (segs ! i) = i" "sg_parent (segs ! i) = parents ! i" "sg_name (segs ! i) = fi_names fi ! i"
    "sg_scope_path (segs ! i) = fi_paths fi ! i" "map st_raw (sg_stmts (segs ! i)) = stmnts ! i"
proof -
  have len: "i < length segs" using built_length [OF assms(1)] assms(2) by simp
  have "map sg_id segs ! i = [0..<length stmnts] ! i" using assms(1) by (simp add: built_from_def)
  then show id: "sg_id (segs ! i) = i" using len assms(2) by simp
  show "sg_parent (segs ! i) = parents ! i" "sg_name (segs ! i) = fi_names fi ! i"
    "sg_scope_path (segs ! i) = fi_paths fi ! i" "map st_raw (sg_stmts (segs ! i)) = stmnts ! i"
    using assms(1) len id by (auto simp: built_from_def info_ok_def list_all_length seg_is_def)
qed

lemma built_wf:
  assumes "built_from fi stmnts parents segs"
  shows "segments_wf segs"
  unfolding segments_wf_def
proof (intro conjI ballI)
  have ids: "map sg_id segs = [0..<length stmnts]" and par: "parents_ok parents (length stmnts)"
    using assms by (simp_all add: built_from_def)
  show "distinct (map sg_id segs)" by (simp add: ids)
  fix sg assume "sg \<in> set segs"
  then obtain i where i: "i < length stmnts" "sg = segs ! i"
    using built_length [OF assms] by (auto simp: in_set_conv_nth)
  have "parents ! i < length stmnts" using parents_okD(2) [OF par] i(1) by simp
  moreover have "sg_id ` set segs = {0..<length stmnts}" using ids by (metis set_map set_upt)
  ultimately show "sg_parent sg = sg_id sg \<or> sg_parent sg < sg_id sg \<and> sg_parent sg \<in> sg_id ` set segs"
    using parents_okD(3,4) [OF par] i built_nth(1,2) [OF assms i(1)] by (cases "i = 0") auto
qed

lemma built_fields:
  assumes "built_from fi stmnts parents segs" "length stmnts \<le> length parents"
  shows "map sg_parent segs = take (length stmnts) parents"
    "map (\<lambda>sg. map st_raw (sg_stmts sg)) segs = stmnts"
    "list_all (\<lambda>sg. sg_scope_path sg = (if sg_id sg = 0 then ''root''
       else sg_scope_path (segs ! sg_parent sg) @ ''.'' @ sg_name sg)) segs"
proof -
  note len = built_length [OF assms(1)] and at = built_nth [OF assms(1)]
  show "map sg_parent segs = take (length stmnts) parents"
    using len at(2) assms(2) by (intro nth_equalityI) auto
  show "map (\<lambda>sg. map st_raw (sg_stmts sg)) segs = stmnts"
    using len at(5) by (intro nth_equalityI) auto
  have par: "parents_ok parents (length stmnts)" and I: "info_ok stmnts parents fi"
    using assms(1) by (simp_all add: built_from_def)
  show "list_all (\<lambda>sg. sg_scope_path sg = (if sg_id sg = 0 then ''root''
       else sg_scope_path (segs ! sg_parent sg) @ ''.'' @ sg_name sg)) segs"
    unfolding list_all_length
  proof (intro allI impI)
    fix i assume "i < length segs"
    then have i: "i < length stmnts" by (simp add: len)
    have p: "parents ! i < length stmnts" using parents_okD(2) [OF par] i by simp
    show "sg_scope_path (segs ! i) = (if sg_id (segs ! i) = 0 then ''root''
           else sg_scope_path (segs ! sg_parent (segs ! i)) @ ''.'' @ sg_name (segs ! i))"
      using I i unfolding info_ok_def at(1-4) [OF i] at(4) [OF p] by auto
  qed
qed

text \<open>A file whose brackets close only what is open has segments, a matrix and a graph.\<close>

lemma parse_c_file_run:
  assumes "closes_only_opened (bk_b_seq (scan_brackets s)) \<and> closes_only_opened (bk_p_seq (scan_brackets s))"
  shows "\<exists>bsegs parents fi segs m d. code_blocks s = Inr (bsegs, parents) \<and> length bsegs \<le> length parents
    \<and> built_from fi (map (\<lambda>seg. parse_statements com inc mac (clean_seg seg)) bsegs) parents segs
    \<and> parse_c_file s com inc mac = Inr \<lparr>pf_segments = segs, pf_matrix = m, pf_dag = d\<rparr>"
proof -
  from assms obtain bsegs parents where cb: "code_blocks s = Inr (bsegs, parents)" "bsegs \<noteq> []"
    "length bsegs \<le> length parents" "parents ! 0 = 0"
    "\<forall>i<length parents. 0 < i \<longrightarrow> parents ! i < i" using code_blocks_total by blast
  let ?stmnts = "map (\<lambda>seg. parse_statements com inc mac (clean_seg seg)) bsegs"
  have par: "parents_ok parents (length ?stmnts)" using cb by (simp add: parents_ok_def)
  from file_info_ok [OF par] obtain fi where
    fi: "file_info_of ?stmnts parents = Inr fi" "info_ok ?stmnts parents fi" by blast
  from c_segments_ok [OF par fi(2)] obtain segs where
    segs: "py_fold (segment_step fi) [0..<length bsegs] [] = Inr segs" "map sg_id segs = [0..<length bsegs]"
    "list_all (seg_is fi) segs" by auto
  have built: "built_from fi ?stmnts parents segs"
    using par fi(2) segs(2,3) by (simp add: built_from_def)
  from matrix_dag_result [OF built_wf [OF built], of "Suc (length segs)"] obtain m d where
    "build_matrix (Suc (length segs)) segs = Inr m" "build_dag segs m = Inr d" by blast
  then have "parse_c_file s com inc mac = Inr \<lparr>pf_segments = segs, pf_matrix = m, pf_dag = d\<rparr>"
    using cb(1) fi(1) segs(1) by (simp add: parse_c_file_def c_segments_def)
  then show ?thesis using cb(1,3) built by blast
qed

text \<open>
  C9. The C front end raises exactly when some prefix of the file closes a brace or a parenthesis that
  is not open (comments and literals aside), and then with \<open>IndexError\<close>. Otherwise it returns: the
  segments are numbered by position, form a well-formed tree, hold the statements of their blocks, and
  the scope path of every segment extends the path of its parent by its name.
\<close>
theorem parse_c_file_total:
  "if closes_only_opened (bk_b_seq (scan_brackets s)) \<and> closes_only_opened (bk_p_seq (scan_brackets s))
   then \<exists>bsegs parents r. code_blocks s = Inr (bsegs, parents) \<and> parse_c_file s com inc mac = Inr r
     \<and> segments_wf (pf_segments r)
     \<and> map sg_id (pf_segments r) = [0..<length bsegs]
     \<and> map sg_parent (pf_segments r) = take (length bsegs) parents
     \<and> map (\<lambda>sg. map st_raw (sg_stmts sg)) (pf_segments r) = map (parse_statements com inc mac \<circ> clean_seg) bsegs
     \<and> list_all (\<lambda>sg. sg_scope_path sg =
          (if sg_id sg = 0 then ''root''
           else sg_scope_path (pf_segments r ! sg_parent sg) @ ''.'' @ sg_name sg)) (pf_segments r)
   else parse_c_file s com inc mac = Inl IndexError"
proof (cases "closes_only_opened (bk_b_seq (scan_brackets s)) \<and> closes_only_opened (bk_p_seq (scan_brackets s))")
  case True
  from parse_c_file_run [OF True] obtain bsegs parents fi segs m d where
    r: "code_blocks s = Inr (bsegs, parents)" "length bsegs \<le> length parents"
    "built_from fi (map (\<lambda>seg. parse_statements com inc mac (clean_seg seg)) bsegs) parents segs"
    "parse_c_file s com inc mac = Inr \<lparr>pf_segments = segs, pf_matrix = m, pf_dag = d\<rparr>" by blast
  have "map sg_id segs = [0..<length bsegs]" using r(3) by (simp add: built_from_def)
  then show ?thesis
    unfolding if_P [OF True]
    using r built_wf [OF r(3)] built_fields [OF r(3)]
    by (intro exI [of _ bsegs] exI [of _ parents] exI [of _ "\<lparr>pf_segments = segs, pf_matrix = m, pf_dag = d\<rparr>"])
      (simp only: parsed_file.simps simp_thms o_def length_map)
next
  case False
  then show ?thesis using code_blocks_fails [OF False] by (simp add: parse_c_file_def c_segments_def)
qed

end
