(* ===== verification/VmText.thy ===== *)
theory VmText
  imports PyValue PyRegex Literals
begin

text \<open>
  The functions of \<open>cdup/src/vm.py\<close> that only look at text: initialisers and brace lists, the right-hand
  side of a declaration, the clauses of a \<open>for\<close> header, scope prefixes and the C types of slots.
\<close>

section \<open>Types\<close>

text \<open>\<open>_sizeof\<close>; the argument may be \<open>None\<close> or empty.\<close>

definition vm_sizeof :: "string option \<Rightarrow> int" where
  "vm_sizeof type_str =
     (let s = (case type_str of None \<Rightarrow> ''int'' | Some s \<Rightarrow> if s = [] then ''int'' else s);
          t = str_strip (rstrip_by (\<lambda>c. c = CHR ''*'') (str_strip s))
      in if t = ''char'' then 1 else if t = ''short'' then 2
         else if t \<in> {''int'', ''unsigned'', ''long'', ''float''} then 4
         else if t \<in> {''double'', ''long long''} then 8 else 4)"

definition pointee_type :: "string \<Rightarrow> string" where
  "pointee_type ptr_type =
     (let s = str_strip ptr_type
      in if endswith s ''*'' then str_strip (butlast s) else ''int'')"

definition is_pointer_type :: "string \<Rightarrow> bool" where
  "is_pointer_type type_str = endswith (str_strip type_str) ''*''"

definition strip_scope :: "string \<Rightarrow> string \<Rightarrow> string" where
  "strip_scope scoped scope_prefix =
     (let p = scope_prefix @ ''.'' in if startswith scoped p then drop (length p) scoped else scoped)"

section \<open>Initialisers\<close>

text \<open>A literal that is no list: \<open>int(s, 0)\<close>, else \<open>float(s)\<close>, else the text given as default.\<close>

definition scalar_literal :: "string \<Rightarrow> string \<Rightarrow> pyval" where
  "scalar_literal s text_value =
     (case py_int0 s of
        Some i \<Rightarrow> VInt i
      | None \<Rightarrow> (case py_float s of Some x \<Rightarrow> VFloat x | None \<Rightarrow> VStr text_value))"

text \<open>The elements of a brace list: the parts between the commas of depth zero, stripped.\<close>

fun brace_elements :: "int \<Rightarrow> string \<Rightarrow> string \<Rightarrow> string list" where
  "brace_elements depth current [] = (if str_strip current \<noteq> [] then [str_strip current] else [])"
| "brace_elements depth current (ch # s) =
     (if ch = CHR ''{'' then brace_elements (depth + 1) (current @ [ch]) s
      else if ch = CHR ''}'' then brace_elements (depth - 1) (current @ [ch]) s
      else if ch = CHR '','' \<and> depth = 0 then str_strip current # brace_elements depth [] s
      else brace_elements depth (current @ [ch]) s)"

lemma length_strip_by: "length (strip_by P s) \<le> length s"
  unfolding strip_by_def rstrip_by_def lstrip_by_def
  by (metis length_dropWhile_le length_rev order_trans)

lemma brace_elements_length:
  "e \<in> set (brace_elements depth current s) \<Longrightarrow> length e \<le> length current + length s"
proof (induction depth current s rule: brace_elements.induct)
  case (1 depth current)
  then show ?case using length_strip_by [of is_space current] by (auto split: if_splits)
next
  case (2 depth current ch s)
  show ?case
  proof (cases "ch \<in> {CHR ''{'', CHR ''}''} \<or> \<not> (ch = CHR '','' \<and> depth = 0)")
    case True
    then show ?thesis using 2 by (auto split: if_splits)
  next
    case False
    then consider "e = str_strip current" | "e \<in> set (brace_elements depth [] s)" using 2(5) by auto
    then show ?thesis
    proof cases
      case 1
      then show ?thesis using length_strip_by [of is_space current] by simp
    next
      case 2
      then show ?thesis using "2.IH"(3) False by fastforce
    qed
  qed
qed

text \<open>
  \<open>_parse_brace\<close> on a text that starts with a brace; the two functions of the source call each other
  only on the other kind of text. \<open>s[1:-1]\<close> drops the last character whatever it is.
\<close>

definition brace_inner :: "string \<Rightarrow> string" where
  "brace_inner s = str_strip (butlast (drop 1 s))"

function parse_brace_list :: "string \<Rightarrow> pyval list" where
  "parse_brace_list s =
     map (\<lambda>e. if startswith e ''{'' then VList (parse_brace_list e) else scalar_literal e e)
       (brace_elements 0 [] (brace_inner s))"
  by pat_completeness auto
termination
proof (relation "measure length", simp_all, goal_cases)
  case (1 s e)
  then have e: "length e \<le> length (brace_inner s)"
    using brace_elements_length [of e 0 "[]" "brace_inner s"] by simp
  have "0 < length e" using 1(2) by (cases e) (auto simp: startswith_def)
  moreover have "length (brace_inner s) \<le> length s - 2"
    unfolding brace_inner_def using length_strip_by [of is_space "butlast (drop 1 s)"] by simp
  ultimately show ?case using e by linarith
qed

declare parse_brace_list.simps [simp del]

definition parse_initializer :: "string \<Rightarrow> pyval" where
  "parse_initializer raw_rhs =
     (let s = str_strip raw_rhs
      in if startswith s ''{'' then VList (parse_brace_list s)
         else scalar_literal s (if startswith s [dquote] then butlast (drop 1 s) else s))"

definition parse_brace :: "string \<Rightarrow> pyval" where
  "parse_brace s =
     (let s = str_strip s
      in if startswith s ''{'' then VList (parse_brace_list s) else parse_initializer s)"

text \<open>\<open>s.replace("{}", "")\<close>.\<close>

fun remove_braces :: "string \<Rightarrow> string" where
  "remove_braces (a # b # s) =
     (if a = CHR ''{'' \<and> b = CHR ''}'' then remove_braces s else a # remove_braces (b # s))"
| "remove_braces s = s"

definition extract_rhs :: "string \<Rightarrow> string option" where
  "extract_rhs raw =
     (let s = str_strip (remove_braces (rstrip_by (\<lambda>c. c = CHR '';'') (str_strip raw)))
      in case str_find s ''='' of None \<Rightarrow> None | Some eq \<Rightarrow> Some (str_strip (drop (eq + 1) s)))"

section \<open>The clauses of a for header\<close>

text \<open>The characters up to the parenthesis that closes the depth, or all of them.\<close>

fun to_closing :: "nat \<Rightarrow> string \<Rightarrow> string" where
  "to_closing 0 s = []"
| "to_closing depth [] = []"
| "to_closing depth (c # s) =
     c # to_closing (if c = CHR ''('' then depth + 1 else if c = CHR '')'' then depth - 1 else depth) s"

text \<open>\<open>s.split(";", 2)[2]\<close> when there are three parts.\<close>

definition third_clause :: "string \<Rightarrow> string option" where
  "third_clause s =
     (case dropWhile (\<lambda>c. c \<noteq> CHR '';'') s of
        [] \<Rightarrow> None
      | _ # s1 \<Rightarrow> (case dropWhile (\<lambda>c. c \<noteq> CHR '';'') s1 of [] \<Rightarrow> None | _ # s2 \<Rightarrow> Some s2))"

definition extract_for_update :: "string \<Rightarrow> string option" where
  "extract_for_update raw =
     (let s = str_strip raw
      in if \<not> startswith s ''for'' then None
         else case str_find s ''('' of
                None \<Rightarrow> None
              | Some i \<Rightarrow> map_option str_strip (third_clause (butlast (to_closing 1 (drop (i + 1) s)))))"

definition parse_for_init :: "string \<Rightarrow> int" where
  "parse_for_init raw =
     (case str_find raw ''('' of
        None \<Rightarrow> 0
      | Some i \<Rightarrow>
          (let init_clause = str_strip (takeWhile (\<lambda>c. c \<noteq> CHR '';'') (drop (i + 1) raw))
           in case str_find init_clause ''='' of
                None \<Rightarrow> 0
              | Some j \<Rightarrow> (case py_int10 (str_strip (drop (j + 1) init_clause)) of
                             None \<Rightarrow> 0 | Some n \<Rightarrow> n)))"

section \<open>Number formatting\<close>

text \<open>\<open>f"{x:.6f}"\<close>: the exact value rounded half to even at the sixth decimal.\<close>

definition div_half_even :: "int \<Rightarrow> int \<Rightarrow> int" where
  "div_half_even a b =
     (let q = a div b; r = a mod b
      in if 2 * r < b \<or> (2 * r = b \<and> even q) then q else q + 1)"

definition fixed6 :: "int \<Rightarrow> string" where
  "fixed6 n = nat_digits (nat (n div 1000000)) @ ''.''
     @ map (\<lambda>k. char_of (48 + nat (n div k mod 10))) [100000, 10000, 1000, 100, 10, 1]"

definition float_fixed6 :: "pyfloat \<Rightarrow> string" where
  "float_fixed6 x =
     (case x of
        FNaN \<Rightarrow> ''nan''
      | FInf s \<Rightarrow> (if s then ''-inf'' else ''inf'')
      | FFin s m e \<Rightarrow>
          (if s then ''-'' else []) @ fixed6 (div_half_even (\<bar>fl_num s m e\<bar> * 1000000) (fl_den e)))"

text \<open>\<open>s.replace("\n", ...)\<close> for an escape of two characters written with a backslash.\<close>

fun unescape :: "char \<Rightarrow> char \<Rightarrow> string \<Rightarrow> string" where
  "unescape k r (a # b # s) = (if a = bslash \<and> b = k then r # unescape k r s else a # unescape k r (b # s))"
| "unescape k r s = s"

end
