(* ===== verification/VmState.thy ===== *)
theory VmState
  imports Kernel VmText
begin

text \<open>
  The state of the virtual machine of \<open>cdup/src/vm.py\<close> and its memory operations. Frames and Python
  lists are objects that several places can hold, so both live in stores and a value names a list by
  its position; frames and lists are never dropped, as references to them stay in \<open>_addr_map\<close> and in the
  trace. An operation is an action: a function from the state to an outcome and a new state, since an
  exception keeps the effects made before it.
\<close>

section \<open>Values and outcomes\<close>

datatype vval = WNone | WInt int | WFloat pyfloat | WStr string | WRef nat

text \<open>
  What can end an action early: an exception of Python, the three control-flow exceptions of the
  source, a spent budget of nested calls and blocks, and a step outside the model (a character above 255).
\<close>

datatype vm_exc =
    Raised py_error
  | Returned vval
  | Broke
  | Continued
  | OutOfFuel
  | Unmodelled

definition is_exception :: "vm_exc \<Rightarrow> bool" where
  "is_exception e = (e \<noteq> OutOfFuel \<and> e \<noteq> Unmodelled)"

record vslot =
  vs_addr :: int
  vs_value :: vval
  vs_type :: string

type_synonym frame = "(string, vslot) dict"
type_synonym snapshot = "(string, vval) dict"

record trace_row =
  tr_kind :: string
  tr_raw :: string
  tr_seg_id :: nat
  tr_scope_path :: string
  tr_fn :: string
  tr_iteration :: "nat option"
  tr_reads :: snapshot
  tr_writes :: snapshot
  tr_branch :: "bool option"
  tr_deref_reads :: "(vval \<times> vval) list"
  tr_deref_writes :: "(vval \<times> vval) list"

record vm =
  vm_output :: "string list"
  vm_trace :: "trace_row list"
  vm_capped :: bool
  vm_stack_counter :: int
  vm_heap_counter :: int
  vm_heap :: "(int, vval \<times> string) dict"
  vm_addr_map :: "(int, nat \<times> string) dict"
  vm_frames :: "frame list"
  vm_lists :: "vval list list"

definition vm_start :: vm where
  "vm_start =
     \<lparr>vm_output = [], vm_trace = [], vm_capped = False, vm_stack_counter = 0x1000,
      vm_heap_counter = 0x80000000, vm_heap = [], vm_addr_map = [], vm_frames = [], vm_lists = []\<rparr>"

section \<open>Actions\<close>

type_synonym 'a act = "vm \<Rightarrow> (vm_exc + 'a) \<times> vm"

definition vret :: "'a \<Rightarrow> 'a act" where
  "vret x st = (Inr x, st)"

definition vthrow :: "vm_exc \<Rightarrow> 'a act" where
  "vthrow e st = (Inl e, st)"

definition vbind :: "'a act \<Rightarrow> ('a \<Rightarrow> 'b act) \<Rightarrow> 'b act" where
  "vbind m f st = (case m st of (Inl e, st') \<Rightarrow> (Inl e, st') | (Inr x, st') \<Rightarrow> f x st')"

abbreviation vthen :: "unit act \<Rightarrow> 'b act \<Rightarrow> 'b act" where
  "vthen m k \<equiv> vbind m (\<lambda>_. k)"

definition vcatch :: "'a act \<Rightarrow> (vm_exc \<Rightarrow> 'a act) \<Rightarrow> 'a act" where
  "vcatch m h st = (case m st of (Inl e, st') \<Rightarrow> h e st' | (Inr x, st') \<Rightarrow> (Inr x, st'))"

definition vasks :: "(vm \<Rightarrow> 'a) \<Rightarrow> 'a act" where
  "vasks f st = (Inr (f st), st)"

definition vmodify :: "(vm \<Rightarrow> vm) \<Rightarrow> unit act" where
  "vmodify f st = (Inr (), f st)"

definition vlift :: "'a py \<Rightarrow> 'a act" where
  "vlift r = (case r of Inl e \<Rightarrow> vthrow (Raised e) | Inr x \<Rightarrow> vret x)"

abbreviation vraise :: "py_error \<Rightarrow> 'a act" where
  "vraise e \<equiv> vthrow (Raised e)"

fun vseq :: "'a act list \<Rightarrow> 'a list act" where
  "vseq [] = vret []"
| "vseq (m # ms) = vbind m (\<lambda>x. vbind (vseq ms) (\<lambda>xs. vret (x # xs)))"

fun vfor :: "('a \<Rightarrow> unit act) \<Rightarrow> 'a list \<Rightarrow> unit act" where
  "vfor f [] = vret ()"
| "vfor f (x # xs) = vthen (f x) (vfor f xs)"

text \<open>\<open>except Exception\<close> catches the control-flow exceptions too.\<close>

definition vcatch_all :: "'a act \<Rightarrow> 'a act \<Rightarrow> 'a act" where
  "vcatch_all m h = vcatch m (\<lambda>e. if is_exception e then h else vthrow e)"

definition vcatch_return :: "vval act \<Rightarrow> vval act" where
  "vcatch_return m = vcatch m (\<lambda>e. case e of Returned v \<Rightarrow> vret v | _ \<Rightarrow> vthrow e)"

lemmas act_defs = vret_def vthrow_def vbind_def vcatch_def vasks_def vmodify_def

section \<open>Values of Python\<close>

definition list_at :: "vval list list \<Rightarrow> nat \<Rightarrow> vval list" where
  "list_at ls r = (if r < length ls then ls ! r else [])"

text \<open>
  The value as a plain Python value, lists read from the store to a depth no acyclic value exceeds;
  below it a list that contains itself is cut off.
\<close>

fun reify :: "nat \<Rightarrow> vval list list \<Rightarrow> vval \<Rightarrow> pyval" where
  "reify d ls WNone = VNone"
| "reify d ls (WInt i) = VInt i"
| "reify d ls (WFloat x) = VFloat x"
| "reify d ls (WStr s) = VStr s"
| "reify 0 ls (WRef r) = VNone"
| "reify (Suc d) ls (WRef r) = VList (map (reify d ls) (list_at ls r))"

definition vm_pyval :: "vm \<Rightarrow> vval \<Rightarrow> pyval" where
  "vm_pyval st v = reify (Suc (length (vm_lists st))) (vm_lists st) v"

definition of_pyval :: "pyval \<Rightarrow> vval act" where
  "of_pyval v =
     (case v of
        VNone \<Rightarrow> vret WNone
      | VInt i \<Rightarrow> vret (WInt i)
      | VFloat x \<Rightarrow> vret (WFloat x)
      | VStr s \<Rightarrow> vret (WStr s)
      | _ \<Rightarrow> vthrow Unmodelled)"

definition vm_int :: "vval \<Rightarrow> int act" where
  "vm_int v = vbind (vasks (\<lambda>st. vm_pyval st v)) (\<lambda>p. vlift (py_int p))"

text \<open>A binary operation of Python on two values that does not yield a list.\<close>

definition vm_apply2 :: "(pyval \<Rightarrow> pyval \<Rightarrow> pyval py) \<Rightarrow> vval \<Rightarrow> vval \<Rightarrow> vval act" where
  "vm_apply2 f a b =
     vbind (vasks (\<lambda>st. f (vm_pyval st a) (vm_pyval st b))) (\<lambda>r. vbind (vlift r) of_pyval)"

definition is_zero_val :: "vval \<Rightarrow> bool" where
  "is_zero_val v = (case v of WInt i \<Rightarrow> i = 0 | WFloat x \<Rightarrow> fl_is_zero x | _ \<Rightarrow> False)"

section \<open>Lists as objects\<close>

definition new_list :: "vval list \<Rightarrow> vval act" where
  "new_list xs =
     vbind (vasks (\<lambda>st. length (vm_lists st))) (\<lambda>r.
     vthen (vmodify (\<lambda>st. st\<lparr>vm_lists := vm_lists st @ [xs]\<rparr>)) (vret (WRef r)))"

text \<open>A value read by \<open>json.loads\<close> or \<open>_parse_brace\<close>: its lists become new objects, the inner ones first.\<close>

fun vm_store :: "pyval \<Rightarrow> vval act" where
  "vm_store (VList xs) = vbind (vseq (map vm_store xs)) new_list"
| "vm_store v = of_pyval v"

text \<open>\<open>xs[i] = v\<close>.\<close>

definition list_assign :: "nat \<Rightarrow> int \<Rightarrow> vval \<Rightarrow> unit act" where
  "list_assign r i v =
     vbind (vasks (\<lambda>st. list_at (vm_lists st) r)) (\<lambda>xs.
       let n = int (length xs); j = (if i < 0 then i + n else i)
       in if 0 \<le> j \<and> j < n
          then vmodify (\<lambda>st. st\<lparr>vm_lists := (vm_lists st)[r := xs[nat j := v]]\<rparr>)
          else vraise IndexError)"

section \<open>Frames\<close>

definition frame_at :: "vm \<Rightarrow> nat \<Rightarrow> frame" where
  "frame_at st f = (if f < length (vm_frames st) then vm_frames st ! f else [])"

definition new_frame :: "nat act" where
  "new_frame =
     vbind (vasks (\<lambda>st. length (vm_frames st))) (\<lambda>f.
     vthen (vmodify (\<lambda>st. st\<lparr>vm_frames := vm_frames st @ [[]]\<rparr>)) (vret f))"

definition in_frame :: "nat \<Rightarrow> string \<Rightarrow> bool act" where
  "in_frame f name = vasks (\<lambda>st. dict_get (frame_at st f) name \<noteq> None)"

definition slot_of :: "nat \<Rightarrow> string \<Rightarrow> vslot act" where
  "slot_of f name =
     vbind (vasks (\<lambda>st. dict_get (frame_at st f) name)) (\<lambda>s.
     case s of None \<Rightarrow> vraise (KeyError name) | Some d \<Rightarrow> vret d)"

definition fget :: "nat \<Rightarrow> string \<Rightarrow> vval act" where
  "fget f name = vbind (slot_of f name) (\<lambda>d. vret (vs_value d))"

definition faddr :: "nat \<Rightarrow> string \<Rightarrow> int act" where
  "faddr f name = vbind (slot_of f name) (\<lambda>d. vret (vs_addr d))"

definition fget_type :: "nat \<Rightarrow> string \<Rightarrow> string act" where
  "fget_type f name =
     vasks (\<lambda>st. case dict_get (frame_at st f) name of None \<Rightarrow> ''int'' | Some d \<Rightarrow> vs_type d)"

definition put_slot :: "nat \<Rightarrow> string \<Rightarrow> vslot \<Rightarrow> vm \<Rightarrow> vm" where
  "put_slot f name d st = st\<lparr>vm_frames := (vm_frames st)[f := dict_set name d (frame_at st f)]\<rparr>"

definition alloc_slot_st :: "nat \<Rightarrow> string \<Rightarrow> vval \<Rightarrow> string \<Rightarrow> vm \<Rightarrow> vm" where
  "alloc_slot_st f name value type_str st =
     (let addr = vm_stack_counter st
      in put_slot f name \<lparr>vs_addr = addr, vs_value = value, vs_type = type_str\<rparr>
           (st\<lparr>vm_stack_counter := addr + 1, vm_addr_map := dict_set addr (f, name) (vm_addr_map st)\<rparr>))"

definition alloc_stack_slot :: "nat \<Rightarrow> string \<Rightarrow> vval \<Rightarrow> string \<Rightarrow> unit act" where
  "alloc_stack_slot f name value type_str = vmodify (alloc_slot_st f name value type_str)"

definition write_slot :: "nat \<Rightarrow> string \<Rightarrow> vval \<Rightarrow> unit act" where
  "write_slot f name value =
     vbind (slot_of f name) (\<lambda>d. vmodify (put_slot f name (d\<lparr>vs_value := value\<rparr>)))"

text \<open>The step the handlers share: write the slot when it exists, allocate it otherwise.\<close>

definition set_slot :: "nat \<Rightarrow> string \<Rightarrow> vval \<Rightarrow> string \<Rightarrow> unit act" where
  "set_slot f name value type_str =
     vbind (in_frame f name) (\<lambda>b.
       if b then write_slot f name value else alloc_stack_slot f name value type_str)"

section \<open>The heap\<close>

definition put_cell :: "int \<Rightarrow> vval \<Rightarrow> string \<Rightarrow> vm \<Rightarrow> vm" where
  "put_cell addr value ty st = st\<lparr>vm_heap := dict_set addr (value, ty) (vm_heap st)\<rparr>"

definition put_cells :: "int \<Rightarrow> (vval \<times> string) list \<Rightarrow> vm \<Rightarrow> vm" where
  "put_cells base cells st =
     st\<lparr>vm_heap := fold (\<lambda>(i, c). dict_set (base + int i) c) (enumerate 0 cells) (vm_heap st)\<rparr>"

text \<open>Cells at the counter, which moves behind them; the base address is the result.\<close>

definition alloc_cells :: "(vval \<times> string) list \<Rightarrow> int act" where
  "alloc_cells cells =
     vbind (vasks vm_heap_counter) (\<lambda>base.
     vthen (vmodify (\<lambda>st. (put_cells base cells st)\<lparr>vm_heap_counter := base + int (length cells)\<rparr>))
       (vret base))"

definition alloc_heap :: "int \<Rightarrow> string \<Rightarrow> int act" where
  "alloc_heap n_bytes elem_type =
     alloc_cells (replicate (nat (max 1 (n_bytes div vm_sizeof (Some elem_type)))) (WInt 0, elem_type))"

definition intern_string :: "string \<Rightarrow> int act" where
  "intern_string s = alloc_cells (map (\<lambda>ch. (WInt (of_char ch), ''char'')) s @ [(WInt 0, ''char'')])"

text \<open>
  \<open>_list_to_heap\<close>. The counter moves only at the end, so a nested list is stored at the address of the
  list it is in. The first argument bounds the nesting of a list that contains itself.
\<close>

fun list_to_heap :: "nat \<Rightarrow> vval \<Rightarrow> string \<Rightarrow> int act" where
  "list_to_heap 0 v elem_type = vraise RecursionError"
| "list_to_heap (Suc d) v elem_type =
     vbind (vasks (\<lambda>st. case v of WRef r \<Rightarrow> list_at (vm_lists st) r | _ \<Rightarrow> [])) (\<lambda>items.
     vbind (vasks vm_heap_counter) (\<lambda>base.
     vthen (vfor (\<lambda>(i, item).
              case item of
                WRef r \<Rightarrow>
                  vbind (list_to_heap d item elem_type) (\<lambda>sub_base.
                    vmodify (put_cell (base + int i) (WInt sub_base) (elem_type @ ''*'')))
              | _ \<Rightarrow> vmodify (put_cell (base + int i) item elem_type)) (enumerate 0 items))
       (vthen (vmodify (\<lambda>st. st\<lparr>vm_heap_counter := base + int (length items)\<rparr>)) (vret base))))"

definition list_to_heap_any :: "vval \<Rightarrow> string \<Rightarrow> int act" where
  "list_to_heap_any v elem_type =
     vbind (vasks (\<lambda>st. Suc (length (vm_lists st)))) (\<lambda>d. list_to_heap d v elem_type)"

text \<open>
  \<open>addr in self._heap\<close> and \<open>addr in self._addr_map\<close>: an integral float finds the integer key, a list is not
  hashable. The messages of a failed access format the address as hexadecimal, which only an integer
  allows.
\<close>

definition addr_key :: "vval \<Rightarrow> int option" where
  "addr_key v =
     (case v of
        WInt i \<Rightarrow> Some i
      | WFloat (FFin s m e) \<Rightarrow>
          (if fl_num s m e mod fl_den e = 0 then Some (fl_num s m e div fl_den e) else None)
      | _ \<Rightarrow> None)"

definition bad_address :: "string \<Rightarrow> vval \<Rightarrow> py_error" where
  "bad_address what v =
     (case v of
        WInt i \<Rightarrow> RuntimeError what
      | WFloat x \<Rightarrow> ValueError ''Unknown format code''
      | WStr s \<Rightarrow> ValueError ''Unknown format code''
      | _ \<Rightarrow> TypeError ''unsupported format string or unhashable type'')"

definition heap_read :: "vval \<Rightarrow> vval act" where
  "heap_read v =
     vbind (case v of WStr s \<Rightarrow> vbind (intern_string s) (\<lambda>a. vret (WInt a)) | _ \<Rightarrow> vret v) (\<lambda>v.
     vbind (vm_int v) (\<lambda>addr.
       if addr = 0 then vraise (RuntimeError ''Null pointer dereference'')
       else vbind (vasks (\<lambda>st. dict_get (vm_heap st) addr)) (\<lambda>cell.
            case cell of
              Some (value, ty) \<Rightarrow> vret value
            | None \<Rightarrow>
                vbind (vasks (\<lambda>st. dict_get (vm_addr_map st) addr)) (\<lambda>slot.
                  case slot of
                    Some (f, name) \<Rightarrow> fget f name
                  | None \<Rightarrow> vraise (RuntimeError ''Invalid read at address'')))))"

definition heap_write :: "vval \<Rightarrow> vval \<Rightarrow> unit act" where
  "heap_write addr value =
     (if is_zero_val addr then vraise (RuntimeError ''Null pointer dereference'')
      else case addr_key addr of
        None \<Rightarrow> vraise (bad_address ''Invalid write at address'' addr)
      | Some a \<Rightarrow>
          vbind (vasks (\<lambda>st. dict_get (vm_heap st) a)) (\<lambda>cell.
            case cell of
              Some (old, ty) \<Rightarrow> vmodify (put_cell a value ty)
            | None \<Rightarrow>
                vbind (vasks (\<lambda>st. dict_get (vm_addr_map st) a)) (\<lambda>slot.
                  case slot of
                    Some (f, name) \<Rightarrow> write_slot f name value
                  | None \<Rightarrow> vraise (bad_address ''Invalid write at address'' addr))))"

section \<open>Snapshots and the trace\<close>

text \<open>\<open>_snap_reads\<close> and \<open>_snap_writes\<close>: a list in the snapshot is a new object with the same elements.\<close>

definition copy_value :: "vval \<Rightarrow> vval act" where
  "copy_value v =
     (case v of
        WRef r \<Rightarrow> vbind (vasks (\<lambda>st. list_at (vm_lists st) r)) new_list
      | _ \<Rightarrow> vret v)"

fun snap_names :: "string list \<Rightarrow> nat \<Rightarrow> snapshot \<Rightarrow> snapshot act" where
  "snap_names [] f acc = vret acc"
| "snap_names (n # ns) f acc =
     vbind (vasks (\<lambda>st. dict_get (frame_at st f) n)) (\<lambda>s.
       case s of
         None \<Rightarrow> snap_names ns f acc
       | Some d \<Rightarrow> vbind (copy_value (vs_value d)) (\<lambda>v. snap_names ns f (dict_set n v acc)))"

definition vm_snap :: "string list \<Rightarrow> nat \<Rightarrow> snapshot act" where
  "vm_snap names f = snap_names names f []"

end
