(* ===== verification/VmEval.thy ===== *)
theory VmEval
  imports VmState Exprs
begin

text \<open>
  Expressions and calls of the virtual machine: \<open>VM._eval\<close> with one definition per kind of node,
  \<open>VM._eval_call\<close> with the library functions it imitates, and \<open>VM._mock_printf\<close>. The addresses read
  through pointers, which the source collects in \<open>_dr\<close>, are part of the result of an evaluation. Running
  a function body is the argument \<open>run\<close>, tied to the statements in VmExec.
\<close>

section \<open>The program\<close>

record vm_prog =
  vp_by_id :: "(nat, segment) dict"
  vp_fns :: "(string, segment) dict"
  vp_struct_fields :: "(string, string list) dict"
  vp_struct_types :: "(string, (string, string) dict) dict"
  vp_children :: "(nat, nat list) dict"
  vp_seg_fn :: "(nat, string) dict"
  vp_max_unroll :: nat
  vp_lib :: libm
  vp_importable :: bool

type_synonym runner = "segment \<Rightarrow> nat \<Rightarrow> nat option \<Rightarrow> unit act"
type_synonym derefs = "(vval \<times> vval) list"
type_synonym eval_act = "(vval \<times> derefs) act"

definition ev_val :: "eval_act \<Rightarrow> vval act" where
  "ev_val e = vbind e (\<lambda>(v, dr). vret v)"

abbreviation ev_ret :: "vval \<Rightarrow> eval_act" where
  "ev_ret v \<equiv> vret (v, [])"

definition ev_of :: "vval act \<Rightarrow> eval_act" where
  "ev_of m = vbind m ev_ret"

text \<open>\<open>node.get("name") or node.get("slot", "")\<close>.\<close>

definition node_ref :: "expr \<Rightarrow> string" where
  "node_ref e = (case e of EName n \<Rightarrow> n | ESlot s \<Rightarrow> s | _ \<Rightarrow> [])"

text \<open>\<open>args[i]\<close> of a node, with the evaluation that belongs to it.\<close>

definition arg_node :: "expr list \<Rightarrow> nat \<Rightarrow> expr act" where
  "arg_node args i = (if i < length args then vret (args ! i) else vraise IndexError)"

definition arg_eval :: "eval_act list \<Rightarrow> nat \<Rightarrow> eval_act" where
  "arg_eval evs i = (if i < length evs then evs ! i else vraise IndexError)"

section \<open>Names and slots\<close>

definition eval_name :: "nat \<Rightarrow> string \<Rightarrow> string \<Rightarrow> vval act" where
  "eval_name f scope name =
     (if name = ''NULL'' then vret (WInt 0)
      else vbind (in_frame f name) (\<lambda>b.
        if b then fget f name
        else let u = strip_scope name scope
             in vbind (in_frame f u) (\<lambda>b. if b then fget f u else vraise (NameError name))))"

text \<open>The proper suffixes of a dotted name, the shortest first.\<close>

definition dotted_suffixes :: "string \<Rightarrow> string list" where
  "dotted_suffixes s =
     (let parts = split_on CHR ''.'' s
      in map (\<lambda>d. str_join ''.'' (drop d parts)) (rev [1..<length parts]))"

fun first_in_frame :: "nat \<Rightarrow> string list \<Rightarrow> string \<Rightarrow> vval act" where
  "first_in_frame f [] slot = vraise (KeyError slot)"
| "first_in_frame f (c # cs) slot =
     vbind (in_frame f c) (\<lambda>b. if b then fget f c else first_in_frame f cs slot)"

definition eval_slot :: "nat \<Rightarrow> string \<Rightarrow> string \<Rightarrow> vval act" where
  "eval_slot f scope slot =
     (let u = strip_scope slot scope
      in vbind (in_frame f u) (\<lambda>b.
           if b then fget f u else first_in_frame f (dotted_suffixes slot) slot))"

section \<open>Operators\<close>

definition eval_addr_of :: "nat \<Rightarrow> string \<Rightarrow> expr list \<Rightarrow> vval act" where
  "eval_addr_of f scope args =
     vbind (arg_node args 0) (\<lambda>a.
       let name = strip_scope (node_ref a) scope
       in vbind (in_frame f name) (\<lambda>b.
            if b then vbind (faddr f name) (\<lambda>a. vret (WInt a)) else vraise (NameError name)))"

definition eval_deref :: "eval_act list \<Rightarrow> eval_act" where
  "eval_deref evs =
     vbind (arg_eval evs 0) (\<lambda>(addr, dr).
     vbind (heap_read addr) (\<lambda>v. vret (v, dr @ [(addr, v)])))"

text \<open>The index is evaluated before the array.\<close>

definition eval_index :: "eval_act list \<Rightarrow> expr list \<Rightarrow> eval_act" where
  "eval_index evs args =
     vbind (arg_node args 0) (\<lambda>_.
     vbind (arg_eval evs 1) (\<lambda>(i, dr1).
     vbind (vm_int i) (\<lambda>idx.
     vbind (arg_eval evs 0) (\<lambda>(arr, dr2).
       case arr of
         WRef r \<Rightarrow>
           vbind (vasks (\<lambda>st. list_at (vm_lists st) r)) (\<lambda>xs.
           vbind (vlift (py_list_get xs idx)) (\<lambda>v. vret (v, dr1 @ dr2)))
       | WInt p \<Rightarrow>
           vbind (heap_read (WInt (p + idx))) (\<lambda>v. vret (v, dr1 @ dr2 @ [(WInt (p + idx), v)]))
       | _ \<Rightarrow> vraise (TypeError ''Cannot index'')))))"

definition eval_field :: "nat \<Rightarrow> string \<Rightarrow> expr list \<Rightarrow> op_attrs \<Rightarrow> vval act" where
  "eval_field f scope args at =
     vbind (arg_node args 0) (\<lambda>obj.
       case a_field at of
         None \<Rightarrow> vraise (KeyError ''field'')
       | Some fld \<Rightarrow>
           (let key = strip_scope (node_ref obj) scope @ ''.'' @ fld
            in vbind (in_frame f key) (\<lambda>b. if b then fget f key else vraise (KeyError key))))"

definition eval_incdec ::
  "nat \<Rightarrow> string \<Rightarrow> string \<Rightarrow> expr list \<Rightarrow> eval_act list \<Rightarrow> eval_act" where
  "eval_incdec f scope op args evs =
     vbind (arg_node args 0) (\<lambda>a.
       let name = (if node_ref a = [] then [] else strip_scope (node_ref a) scope)
       in vbind (in_frame f name) (\<lambda>b.
            if name \<noteq> [] \<and> b then
              vbind (fget f name) (\<lambda>cur.
              vbind (vm_apply2 py_add cur (WInt (if op \<in> {''post_inc'', ''pre_inc''} then 1 else - 1))) (\<lambda>new.
              vthen (write_slot f name new)
                (ev_ret (if op \<in> {''post_inc'', ''post_dec''} then cur else new))))
            else arg_eval evs 0))"

text \<open>
  The kernel on evaluated operands. Lists are concatenated and repeated as objects, whose elements
  stay the same objects.
\<close>

definition kernel_apply :: "libm \<Rightarrow> string \<Rightarrow> op_attrs \<Rightarrow> vval list \<Rightarrow> vval act" where
  "kernel_apply lib op at vs =
     (case (op = ''add'', op = ''mul'', vs) of
        (True, _, [WRef a, WRef b]) \<Rightarrow>
          vbind (vasks (\<lambda>st. list_at (vm_lists st) a @ list_at (vm_lists st) b)) new_list
      | (_, True, [WRef a, WInt n]) \<Rightarrow>
          vbind (vasks (\<lambda>st. repeat_seq n (list_at (vm_lists st) a))) new_list
      | (_, True, [WInt n, WRef a]) \<Rightarrow>
          vbind (vasks (\<lambda>st. repeat_seq n (list_at (vm_lists st) a))) new_list
      | _ \<Rightarrow>
          vbind (vasks (\<lambda>st. kernel_op lib op at (map (vm_pyval st) vs))) (\<lambda>r.
          vbind (vlift r) of_pyval))"

definition eval_kernel :: "libm \<Rightarrow> string \<Rightarrow> op_attrs \<Rightarrow> eval_act list \<Rightarrow> eval_act" where
  "eval_kernel lib op at evs =
     vbind (vseq evs) (\<lambda>rs.
     vbind (kernel_apply lib op at (map fst rs)) (\<lambda>v. vret (v, concat (map snd rs))))"

text \<open>
  Addition and subtraction: both operands are evaluated here, and once more by the kernel (\<open>rest\<close>) when
  neither looks like an address.
\<close>

definition pointer_step :: "string \<Rightarrow> int \<Rightarrow> int \<Rightarrow> int" where
  "pointer_step op left right =
     (let delta = (if 0x1000 \<le> left then right else left);
          base = (if 0x1000 \<le> left then left else right)
      in if op \<in> {''+'', ''add''} then base + delta else base - delta)"

definition is_ref :: "vval \<Rightarrow> bool" where
  "is_ref v = (case v of WRef r \<Rightarrow> True | _ \<Rightarrow> False)"

definition is_int_val :: "vval \<Rightarrow> bool" where
  "is_int_val v = (case v of WInt i \<Rightarrow> True | _ \<Rightarrow> False)"

definition promote :: "vval \<Rightarrow> vval \<Rightarrow> vval act" where
  "promote v other =
     (if is_ref v \<and> is_int_val other
      then vbind (list_to_heap_any v ''int'') (\<lambda>a. vret (WInt a)) else vret v)"

definition eval_pointer_arith :: "string \<Rightarrow> eval_act list \<Rightarrow> eval_act \<Rightarrow> eval_act" where
  "eval_pointer_arith op evs rest =
     vbind (arg_eval evs 0) (\<lambda>(left, dr1).
     vbind (arg_eval evs 1) (\<lambda>(right, dr2).
     vbind (promote left right) (\<lambda>left.
     vbind (promote right left) (\<lambda>right.
       case (left, right) of
         (WInt l, WInt r) \<Rightarrow>
           if 0x1000 \<le> l \<or> 0x1000 \<le> r then vret (WInt (pointer_step op l r), dr1 @ dr2)
           else vbind rest (\<lambda>(v, dr). vret (v, dr1 @ dr2 @ dr))
       | _ \<Rightarrow> vbind rest (\<lambda>(v, dr). vret (v, dr1 @ dr2 @ dr))))))"

definition eval_sizeof :: "op_attrs \<Rightarrow> vval" where
  "eval_sizeof at = WInt (vm_sizeof (case a_of at of None \<Rightarrow> Some ''int'' | Some t \<Rightarrow> t))"

section \<open>Library calls\<close>

text \<open>Every address a loop below visits lies in the heap or in the address map, so this many rounds suffice.\<close>

definition cstr_fuel :: "vm \<Rightarrow> nat" where
  "cstr_fuel st = Suc (length (vm_heap st) + length (vm_addr_map st))"

fun strlen_loop :: "nat \<Rightarrow> int \<Rightarrow> int \<Rightarrow> vval act" where
  "strlen_loop 0 addr len = vthrow OutOfFuel"
| "strlen_loop (Suc k) addr len =
     vbind (heap_read (WInt (addr + len))) (\<lambda>v.
       if is_zero_val v then vret (WInt len)
       else if 100000 < len + 1 then vret (WInt (len + 1))
       else strlen_loop k addr (len + 1))"

fun strcpy_loop :: "nat \<Rightarrow> int \<Rightarrow> int \<Rightarrow> vval act" where
  "strcpy_loop 0 dst src = vthrow OutOfFuel"
| "strcpy_loop (Suc k) dst src =
     vbind (heap_read (WInt src)) (\<lambda>v.
     vthen (heap_write (WInt dst) v)
       (if is_zero_val v then vret WNone else strcpy_loop k (dst + 1) (src + 1)))"

definition vm_eq :: "vm \<Rightarrow> vval \<Rightarrow> vval \<Rightarrow> bool" where
  "vm_eq st a b = py_eq (vm_pyval st a) (vm_pyval st b)"

fun strcmp_loop :: "nat \<Rightarrow> int \<Rightarrow> int \<Rightarrow> vval act" where
  "strcmp_loop 0 a b = vthrow OutOfFuel"
| "strcmp_loop (Suc k) a b =
     vbind (heap_read (WInt a)) (\<lambda>a_c.
     vbind (heap_read (WInt b)) (\<lambda>b_c.
     vbind (vasks (\<lambda>st. vm_eq st a_c b_c)) (\<lambda>same.
       if \<not> same then vm_apply2 py_sub a_c b_c
       else if is_zero_val a_c then vret (WInt 0)
       else strcmp_loop k (a + 1) (b + 1))))"

definition memset_range :: "int \<Rightarrow> int \<Rightarrow> int \<Rightarrow> unit act" where
  "memset_range dst v n = vfor (\<lambda>i. heap_write (WInt (dst + int i)) (WInt v)) [0..<nat n]"

definition memcpy_range :: "int \<Rightarrow> int \<Rightarrow> int \<Rightarrow> unit act" where
  "memcpy_range dst src n =
     vfor (\<lambda>i. vbind (heap_read (WInt (src + int i))) (heap_write (WInt (dst + int i)))) [0..<nat n]"

section \<open>printf\<close>

text \<open>\<open>chr(v)\<close>; the strings of the model hold the characters below 256.\<close>

definition vm_chr :: "vval \<Rightarrow> char act" where
  "vm_chr v =
     (case v of
        WInt i \<Rightarrow>
          if i < 0 \<or> 0x10FFFF < i then vraise (ValueError ''chr() arg not in range'')
          else if 255 < i then vthrow Unmodelled
          else vret (char_of (nat i))
      | _ \<Rightarrow> vraise (TypeError ''an integer is required''))"

text \<open>A string read from the heap; \<open>cap\<close> is the length at which the reader of the format stops.\<close>

fun read_chars :: "nat \<Rightarrow> nat option \<Rightarrow> int \<Rightarrow> nat \<Rightarrow> string act" where
  "read_chars 0 cap addr i = vthrow OutOfFuel"
| "read_chars (Suc k) cap addr i =
     vbind (heap_read (WInt (addr + int i))) (\<lambda>v.
       if is_zero_val v then vret []
       else vbind (vm_chr v) (\<lambda>c.
            if (case cap of None \<Rightarrow> False | Some n \<Rightarrow> n < i + 1) then vret [c]
            else vbind (read_chars k cap addr (i + 1)) (\<lambda>cs. vret (c # cs))))"

definition read_cstr :: "nat option \<Rightarrow> int \<Rightarrow> string act" where
  "read_cstr cap addr = vbind (vasks cstr_fuel) (\<lambda>k. read_chars k cap addr 0)"

text \<open>\<open>str(v)\<close>; the printed form of a list is not modelled.\<close>

definition vm_str :: "libm \<Rightarrow> vval \<Rightarrow> string act" where
  "vm_str lib v =
     (case v of
        WNone \<Rightarrow> vret ''None''
      | WInt i \<Rightarrow> vret (int_str i)
      | WFloat x \<Rightarrow> vret (float_repr lib x)
      | WStr s \<Rightarrow> vret s
      | WRef r \<Rightarrow> vthrow Unmodelled)"

definition is_address :: "vval \<Rightarrow> bool" where
  "is_address v = (case v of WInt i \<Rightarrow> 0x1000 \<le> i | _ \<Rightarrow> False)"

definition the_int :: "vval \<Rightarrow> int" where
  "the_int v = (case v of WInt i \<Rightarrow> i | _ \<Rightarrow> 0)"

definition format_spec :: "libm \<Rightarrow> char \<Rightarrow> vval \<Rightarrow> string act" where
  "format_spec lib spec v =
     (if spec = CHR ''d'' \<or> spec = CHR ''i'' then vbind (vm_int v) (\<lambda>i. vret (int_str i))
      else if spec = CHR ''f'' then
        vbind (vasks (\<lambda>st. py_to_float (vm_pyval st v))) (\<lambda>r.
        vbind (vlift r) (\<lambda>x. vret (float_fixed6 x)))
      else if spec = CHR ''s'' then
        (if is_address v then read_cstr None (the_int v) else vm_str lib v)
      else if spec = CHR ''c'' then
        vbind (vm_int v) (\<lambda>i. vbind (vm_chr (WInt i)) (\<lambda>c. vret [c]))
      else if spec = CHR ''%'' then vret ''%''
      else vret [CHR ''%'', spec])"

fun format_from :: "libm \<Rightarrow> string \<Rightarrow> vval list \<Rightarrow> string act" where
  "format_from lib (p # spec # s) vals =
     (if p = CHR ''%'' then
        vbind (format_spec lib spec (case vals of [] \<Rightarrow> WInt 0 | v # _ \<Rightarrow> v)) (\<lambda>t.
        vbind (format_from lib s (if spec = CHR ''%'' then vals else drop 1 vals)) (\<lambda>u. vret (t @ u)))
      else vbind (format_from lib (spec # s) vals) (\<lambda>u. vret (p # u)))"
| "format_from lib s vals = vret s"

definition mock_printf :: "libm \<Rightarrow> vval list \<Rightarrow> unit act" where
  "mock_printf lib args =
     (case args of
        [] \<Rightarrow> vret ()
      | fmt_arg # vals \<Rightarrow>
          vbind (if is_address fmt_arg then read_cstr (Some 10000) (the_int fmt_arg)
                 else case fmt_arg of
                        WStr s \<Rightarrow> vret (strip_by (\<lambda>c. c = dquote) s)
                      | _ \<Rightarrow> vm_str lib fmt_arg) (\<lambda>fmt.
          vbind (format_from lib (unescape CHR ''t'' CHR 0x09 (unescape CHR ''n'' newline fmt)) vals) (\<lambda>result.
          vmodify (\<lambda>st. st\<lparr>vm_output := vm_output st
            @ filter (\<lambda>line. line \<noteq> []) (split_on newline result)\<rparr>))))"

section \<open>Calls of functions of the program\<close>

datatype lparam = LUdt string "string list" | LPlain string string

definition truthy_parent :: "slot \<Rightarrow> string option" where
  "truthy_parent p = (if truthy_str (sl_udt_parent p) then sl_udt_parent p else None)"

definition logical_params :: "slot list \<Rightarrow> lparam list" where
  "logical_params memory =
     (let params = filter sl_param memory
      in snd (fold (\<lambda>p (seen, lps).
           case truthy_parent p of
             None \<Rightarrow> (seen, lps @ [LPlain (sl_name p) (sl_type p)])
           | Some parent \<Rightarrow>
               if parent \<in> set seen then (seen, lps)
               else (parent # seen,
                     lps @ [LUdt parent (map sl_name (filter (\<lambda>m. truthy_parent m = Some parent) params))]))
         params ([], [])))"

definition bind_plain :: "nat \<Rightarrow> string \<Rightarrow> string \<Rightarrow> eval_act \<Rightarrow> unit act" where
  "bind_plain af param_name param_type ev =
     vbind (vcatch_all (ev_val ev) (vret (WInt 0))) (\<lambda>v.
     vbind (vasks (\<lambda>st. case v of
              WRef r \<Rightarrow> (case list_at (vm_lists st) r of [] \<Rightarrow> False | x # _ \<Rightarrow> \<not> is_ref x) | _ \<Rightarrow> False)) (\<lambda>flat.
     vbind (if flat then vbind (list_to_heap_any v (pointee_type param_type)) (\<lambda>a. vret (WInt a))
            else case v of
                   WStr s \<Rightarrow> vbind (intern_string s) (\<lambda>a. vret (WInt a))
                 | _ \<Rightarrow> vret v) (\<lambda>v.
       alloc_stack_slot af param_name v param_type)))"

text \<open>\<open>fs.split(".", 1)[1]\<close>.\<close>

definition after_dot :: "string \<Rightarrow> string act" where
  "after_dot s =
     (case dropWhile (\<lambda>c. c \<noteq> CHR ''.'') s of [] \<Rightarrow> vraise IndexError | _ # t \<Rightarrow> vret t)"

definition bind_field :: "nat \<Rightarrow> nat \<Rightarrow> string \<Rightarrow> string \<Rightarrow> unit act" where
  "bind_field af f caller_var fs =
     vbind (after_dot fs) (\<lambda>fn_part.
       let src_key = caller_var @ ''.'' @ fn_part
       in vbind (in_frame f src_key) (\<lambda>b.
          vbind (if b then fget f src_key else vret (WInt 0)) (\<lambda>src_val.
          vbind (fget_type f src_key) (\<lambda>src_type.
            alloc_stack_slot af fs src_val src_type))))"

definition bind_param ::
  "nat \<Rightarrow> nat \<Rightarrow> string \<Rightarrow> lparam \<times> expr \<times> eval_act \<Rightarrow> unit act" where
  "bind_param af f scope p =
     (case p of
        (LPlain param_name param_type, a, ev) \<Rightarrow> bind_plain af param_name param_type ev
      | (LUdt parent flds, a, ev) \<Rightarrow>
          vfor (bind_field af f (strip_scope (node_ref a) scope)) flds)"

definition call_user ::
  "runner \<Rightarrow> segment \<Rightarrow> nat \<Rightarrow> string \<Rightarrow> expr list \<Rightarrow> eval_act list \<Rightarrow> vval act" where
  "call_user run target f scope args evs =
     vbind new_frame (\<lambda>af.
     vthen (vfor (bind_param af f scope) (zip (logical_params (sg_memory target)) (zip args evs)))
       (vcatch_return (vthen (run target af None) (vret WNone))))"

definition int_arg :: "eval_act list \<Rightarrow> nat \<Rightarrow> int \<Rightarrow> int act" where
  "int_arg evs i dflt =
     (if i < length evs then vbind (ev_val (evs ! i)) vm_int else vret dflt)"

definition int_arg1 :: "eval_act list \<Rightarrow> nat \<Rightarrow> int act" where
  "int_arg1 evs i = vbind (ev_val (arg_eval evs i)) vm_int"

definition ret_int :: "int act \<Rightarrow> vval act" where
  "ret_int m = vbind m (\<lambda>i. vret (WInt i))"

definition eval_call ::
  "vm_prog \<Rightarrow> runner \<Rightarrow> nat \<Rightarrow> string \<Rightarrow> op_attrs \<Rightarrow> expr list \<Rightarrow> eval_act list \<Rightarrow> vval act" where
  "eval_call P run f scope at args evs =
     (let fn = (case a_fn at of None \<Rightarrow> [] | Some n \<Rightarrow> n)
      in if fn = ''printf'' then
           vbind (vseq (map ev_val evs)) (\<lambda>vs. vthen (mock_printf (vp_lib P) vs) (vret (WInt 0)))
         else if fn = ''malloc'' then
           vbind (int_arg evs 0 0) (\<lambda>n. ret_int (alloc_heap n ''int''))
         else if fn = ''calloc'' then
           vbind (int_arg evs 0 0) (\<lambda>n. vbind (int_arg evs 1 1) (\<lambda>size.
             ret_int (alloc_heap (n * size) ''int'')))
         else if fn = ''realloc'' then
           vbind (int_arg evs 1 0) (\<lambda>n. ret_int (alloc_heap n ''int''))
         else if fn = ''free'' then vret (WInt 0)
         else if fn = ''sizeof'' then vret (eval_sizeof at)
         else if fn = ''strlen'' then
           vbind (int_arg evs 0 0) (\<lambda>addr. vbind (vasks cstr_fuel) (\<lambda>k. strlen_loop k addr 0))
         else if fn = ''strcpy'' then
           vbind (int_arg1 evs 0) (\<lambda>dst. vbind (int_arg1 evs 1) (\<lambda>src.
           vbind (vasks cstr_fuel) (\<lambda>k. vbind (strcpy_loop k dst src) (\<lambda>_. vret (WInt dst)))))
         else if fn = ''strcmp'' then
           vbind (int_arg1 evs 0) (\<lambda>a. vbind (int_arg1 evs 1) (\<lambda>b.
           vbind (vasks cstr_fuel) (\<lambda>k. strcmp_loop k a b)))
         else if fn = ''memset'' then
           vbind (int_arg1 evs 0) (\<lambda>dst. vbind (int_arg1 evs 1) (\<lambda>v. vbind (int_arg1 evs 2) (\<lambda>n.
             vthen (memset_range dst v n) (vret (WInt dst)))))
         else if fn = ''memcpy'' then
           vbind (int_arg1 evs 0) (\<lambda>dst. vbind (int_arg1 evs 1) (\<lambda>src. vbind (int_arg1 evs 2) (\<lambda>n.
             vthen (memcpy_range dst src n) (vret (WInt dst)))))
         else case dict_get (vp_fns P) fn of
                Some target \<Rightarrow> call_user run target f scope args evs
              | None \<Rightarrow>
                  vbind (vseq (map ev_val evs)) (\<lambda>vs.
                  vbind (vasks (\<lambda>st. op_call (vp_lib P) (map (vm_pyval st) vs) (Some fn))) (\<lambda>r.
                  vbind (vlift r) of_pyval)))"

section \<open>Expressions\<close>

definition eval_op ::
  "vm_prog \<Rightarrow> runner \<Rightarrow> nat \<Rightarrow> string \<Rightarrow> string \<Rightarrow> op_attrs \<Rightarrow> expr list \<Rightarrow> eval_act list \<Rightarrow> eval_act" where
  "eval_op P run f scope op at args evs =
     (if op = ''call'' then ev_of (eval_call P run f scope at args evs)
      else if op = ''addr_of'' then ev_of (eval_addr_of f scope args)
      else if op = ''deref'' then eval_deref evs
      else if op = ''index'' then eval_index evs args
      else if op = ''field'' then ev_of (eval_field f scope args at)
      else if op \<in> {''post_inc'', ''post_dec'', ''pre_inc'', ''pre_dec''}
        then eval_incdec f scope op args evs
      else if op \<in> {''+'', ''-'', ''add'', ''sub''} \<and> length args = 2
        then eval_pointer_arith op evs (eval_kernel (vp_lib P) op at evs)
      else if op = ''sizeof'' then ev_ret (eval_sizeof at)
      else if op = ''cast'' then arg_eval evs 0
      else eval_kernel (vp_lib P) op at evs)"

fun vm_eval :: "vm_prog \<Rightarrow> runner \<Rightarrow> nat \<Rightarrow> string \<Rightarrow> expr \<Rightarrow> eval_act" where
  "vm_eval P run f scope (EName n) = ev_of (eval_name f scope n)"
| "vm_eval P run f scope (ESlot s) = ev_of (eval_slot f scope s)"
| "vm_eval P run f scope (EConst c t) =
     ev_of (vbind (vlift (eval_const (vp_lib P) c t)) of_pyval)"
| "vm_eval P run f scope (EOp op args at) =
     eval_op P run f scope op at args (map (vm_eval P run f scope) args)"

text \<open>\<open>self._eval(expr, frame, scope)\<close>, where the expression may be \<open>None\<close>.\<close>

definition eval_expr :: "vm_prog \<Rightarrow> runner \<Rightarrow> nat \<Rightarrow> string \<Rightarrow> expr option \<Rightarrow> vval act" where
  "eval_expr P run f scope e =
     (case e of None \<Rightarrow> vret WNone | Some e \<Rightarrow> ev_val (vm_eval P run f scope e))"

end
