(* ===== verification/VmExec.thy ===== *)
theory VmExec
  imports VmEval
begin

text \<open>
  Statements, blocks and functions of the virtual machine: the handlers \<open>_exec_*\<close> of \<open>VM\<close>, the table
  \<open>__init__\<close> builds, \<open>call_fn\<close>, \<open>run\<close> and \<open>run_file\<close>. The handlers take the interpreter of blocks as
  the argument \<open>run\<close>; \<open>exec_seg\<close> ties the knot with a budget for the nesting of blocks and calls.
\<close>

section \<open>The trace\<close>

definition vm_record ::
  "vm_prog \<Rightarrow> stmt \<Rightarrow> segment \<Rightarrow> nat option \<Rightarrow> snapshot \<Rightarrow> snapshot \<Rightarrow> bool option \<Rightarrow> derefs \<Rightarrow> derefs
    \<Rightarrow> unit act" where
  "vm_record P stm seg iteration reads writes branch dr dw =
     vmodify (\<lambda>st. st\<lparr>vm_trace := vm_trace st @
       [\<lparr>tr_kind = st_kind stm, tr_raw = st_raw stm, tr_seg_id = sg_id seg,
         tr_scope_path = sg_scope_path seg,
         tr_fn = (case dict_get (vp_seg_fn P) (sg_id seg) of None \<Rightarrow> ''unknown'' | Some n \<Rightarrow> n),
         tr_iteration = iteration, tr_reads = reads, tr_writes = writes, tr_branch = branch,
         tr_deref_reads = dr, tr_deref_writes = dw\<rparr>]\<rparr>)"

text \<open>\<open>[n for n in stmt.get("r_names", []) if n in frame]\<close> and its snapshot.\<close>

definition snap_stmt :: "stmt \<Rightarrow> nat \<Rightarrow> snapshot act" where
  "snap_stmt stm f = vm_snap (st_r_names stm) f"

text \<open>\<open>dr[addr] = val\<close>, one read after the other.\<close>

fun deref_put :: "vval \<Rightarrow> vval \<Rightarrow> derefs \<Rightarrow> derefs" where
  "deref_put k v [] = [(k, v)]"
| "deref_put k v ((k', v') # d) =
     (if py_eq (reify 1 [] k) (reify 1 [] k') then (k', v) # d else (k', v') # deref_put k v d)"

definition deref_dict :: "derefs \<Rightarrow> derefs" where
  "deref_dict dr = fold (\<lambda>(k, v). deref_put k v) dr []"

section \<open>Declarations and assignments\<close>

definition stmt_type :: "stmt \<Rightarrow> string" where
  "stmt_type stm = (case st_type stm of None \<Rightarrow> ''int'' | Some t \<Rightarrow> if t = [] then ''int'' else t)"

definition decl_type :: "stmt \<Rightarrow> string" where
  "decl_type stm = (case st_type stm of None \<Rightarrow> [] | Some t \<Rightarrow> t)"

definition brace_rhs :: "string \<Rightarrow> pyval list option" where
  "brace_rhs raw =
     (case extract_rhs raw of
        None \<Rightarrow> None
      | Some rhs \<Rightarrow> if startswith rhs ''{'' then Some (parse_brace_list rhs) else None)"

definition init_field :: "nat \<Rightarrow> string \<Rightarrow> (string, string) dict \<Rightarrow> pyval list \<Rightarrow> nat \<times> string \<Rightarrow> unit act" where
  "init_field f l_name ftypes vals p =
     (case p of (i, field) \<Rightarrow>
        vbind (if i < length vals then vm_store (vals ! i) else vret (WInt 0)) (\<lambda>fval.
          alloc_stack_slot f (l_name @ ''.'' @ field) fval
            (case dict_get ftypes field of None \<Rightarrow> ''int'' | Some t \<Rightarrow> t)))"

definition exec_struct_init ::
  "vm_prog \<Rightarrow> stmt \<Rightarrow> nat \<Rightarrow> segment \<Rightarrow> nat option \<Rightarrow> string \<Rightarrow> snapshot \<Rightarrow> string list \<Rightarrow> pyval list
    \<Rightarrow> unit act" where
  "exec_struct_init P stm f seg iteration l_name reads flds vals =
     (let ftypes = (case dict_get (vp_struct_types P) (decl_type stm) of None \<Rightarrow> [] | Some d \<Rightarrow> d)
      in vthen (vfor (init_field f l_name ftypes vals) (enumerate 0 flds))
          (vbind (vm_snap (map (\<lambda>field. l_name @ ''.'' @ field) flds) f) (\<lambda>writes.
             vm_record P stm seg iteration reads writes None [] [])))"

text \<open>A flat list moves to the heap; a list whose first element is a list stays a Python list.\<close>

definition exec_array_init ::
  "vm_prog \<Rightarrow> stmt \<Rightarrow> nat \<Rightarrow> segment \<Rightarrow> nat option \<Rightarrow> string \<Rightarrow> snapshot \<Rightarrow> pyval list \<Rightarrow> unit act" where
  "exec_array_init P stm f seg iteration l_name reads vals =
     (let base = takeWhile (\<lambda>c. c \<noteq> CHR ''['') l_name; type_str = stmt_type stm;
          is_2d = (case vals of VList _ # _ \<Rightarrow> True | _ \<Rightarrow> False)
      in vbind (vm_store (VList vals)) (\<lambda>v.
         vthen (if is_2d then alloc_stack_slot f base v type_str
                else vbind (list_to_heap_any v (pointee_type type_str)) (\<lambda>a.
                       alloc_stack_slot f base (WInt a) (type_str @ ''*'')))
           (vbind (vm_snap [base] f) (\<lambda>writes. vm_record P stm seg iteration reads writes None [] []))))"

definition is_incdec :: "expr option \<Rightarrow> bool" where
  "is_incdec e =
     (case e of Some (EOp op args at) \<Rightarrow> op \<in> {''post_inc'', ''post_dec'', ''pre_inc'', ''pre_dec''} | _ \<Rightarrow> False)"

definition incdec_delta :: "expr option \<Rightarrow> int" where
  "incdec_delta e =
     (case e of Some (EOp op args at) \<Rightarrow> if op \<in> {''post_inc'', ''pre_inc''} then 1 else - 1 | _ \<Rightarrow> 0)"

definition exec_incdec_name ::
  "vm_prog \<Rightarrow> stmt \<Rightarrow> nat \<Rightarrow> segment \<Rightarrow> nat option \<Rightarrow> string \<Rightarrow> unit act" where
  "exec_incdec_name P stm f seg iteration l_name =
     vbind (in_frame f l_name) (\<lambda>b.
     vbind (if b then fget f l_name else vret (WInt 0)) (\<lambda>cur.
     vbind (vm_apply2 py_add cur (WInt (incdec_delta (st_expr stm)))) (\<lambda>new.
     vthen (set_slot f l_name new ''int'')
       (vm_record P stm seg iteration [(l_name, cur)] [(l_name, new)] None [] []))))"

definition exec_incdec_deref ::
  "vm_prog \<Rightarrow> stmt \<Rightarrow> nat \<Rightarrow> segment \<Rightarrow> nat option \<Rightarrow> string \<Rightarrow> unit act" where
  "exec_incdec_deref P stm f seg iteration inner_name =
     vbind (fget f inner_name) (\<lambda>addr.
     vbind (heap_read addr) (\<lambda>cur.
     vbind (vm_apply2 py_add cur (WInt (incdec_delta (st_expr stm)))) (\<lambda>new.
     vthen (heap_write addr new)
       (vm_record P stm seg iteration [(inner_name, addr)] [] None [] [(addr, new)]))))"

definition exec_incdec ::
  "vm_prog \<Rightarrow> stmt \<Rightarrow> nat \<Rightarrow> segment \<Rightarrow> nat option \<Rightarrow> string \<Rightarrow> unit act" where
  "exec_incdec P stm f seg iteration l_name =
     (if startswith l_name ''*'' then
        (let inner_name = str_strip (drop 1 l_name)
         in vbind (in_frame f inner_name) (\<lambda>b.
              if b then exec_incdec_deref P stm f seg iteration inner_name
              else exec_incdec_name P stm f seg iteration l_name))
      else exec_incdec_name P stm f seg iteration l_name)"

text \<open>
  \<open>*p = e\<close>. The branch for \<open>**pp = e\<close> stands after this one in the source and its test implies this
  one's, so it is never reached.
\<close>

definition exec_deref_write ::
  "vm_prog \<Rightarrow> runner \<Rightarrow> stmt \<Rightarrow> nat \<Rightarrow> string \<Rightarrow> segment \<Rightarrow> nat option \<Rightarrow> string \<Rightarrow> snapshot \<Rightarrow> unit act" where
  "exec_deref_write P run stm f scope seg iteration l_name reads =
     (let inner_name = str_strip (drop 1 l_name)
      in vbind (eval_expr P run f scope (st_expr stm)) (\<lambda>val.
         vbind (in_frame f inner_name) (\<lambda>b.
         vbind (if b then vbind (fget f inner_name) (\<lambda>addr.
                          vthen (heap_write addr val) (vret [(addr, val)]))
                else vret []) (\<lambda>dw.
           vm_record P stm seg iteration reads [] None [] dw))))"

text \<open>The value as it is stored by a declaration of a pointer.\<close>

definition is_ptr_decl :: "string \<Rightarrow> string \<Rightarrow> bool" where
  "is_ptr_decl type_str raw =
     (is_pointer_type type_str \<or> CHR ''*'' \<in> set (takeWhile (\<lambda>c. c \<noteq> CHR ''='') raw))"

definition promote_value :: "bool \<Rightarrow> string \<Rightarrow> vval \<Rightarrow> vval act" where
  "promote_value ptr type_str val =
     (case val of
        WRef r \<Rightarrow> if ptr then vbind (list_to_heap_any val (pointee_type type_str)) (\<lambda>a. vret (WInt a))
                  else vret val
      | WStr s \<Rightarrow> if ptr then vbind (intern_string s) (\<lambda>a. vret (WInt a)) else vret val
      | _ \<Rightarrow> vret val)"

definition exec_assign ::
  "vm_prog \<Rightarrow> runner \<Rightarrow> stmt \<Rightarrow> nat \<Rightarrow> string \<Rightarrow> segment \<Rightarrow> nat option \<Rightarrow> string \<Rightarrow> snapshot \<Rightarrow> expr \<Rightarrow> unit act" where
  "exec_assign P run stm f scope seg iteration l_name reads e =
     vbind (vm_eval P run f scope e) (\<lambda>(val, dr).
     vbind (promote_value (is_ptr_decl (stmt_type stm) (st_raw stm)) (stmt_type stm) val) (\<lambda>val.
     vthen (set_slot f l_name val (stmt_type stm))
       (vbind (vm_snap [l_name] f) (\<lambda>writes.
          vm_record P stm seg iteration reads writes None (deref_dict dr) []))))"

definition exec_decl_only ::
  "vm_prog \<Rightarrow> stmt \<Rightarrow> nat \<Rightarrow> segment \<Rightarrow> nat option \<Rightarrow> string \<Rightarrow> unit act" where
  "exec_decl_only P stm f seg iteration l_name =
     (if st_kind stm = ''decl'' \<and> CHR ''='' \<notin> set (st_raw stm)
      then vthen (alloc_stack_slot f l_name (WInt 0) (stmt_type stm))
             (vbind (fget f l_name) (\<lambda>v. vm_record P stm seg iteration [] [(l_name, v)] None [] []))
      else vret ())"

definition exec_decl_assign ::
  "vm_prog \<Rightarrow> runner \<Rightarrow> stmt \<Rightarrow> nat \<Rightarrow> string \<Rightarrow> segment \<Rightarrow> nat option \<Rightarrow> unit act" where
  "exec_decl_assign P run stm f scope seg iteration =
     (case st_l_name stm of
        None \<Rightarrow> vret ()
      | Some l_name \<Rightarrow>
          vbind (snap_stmt stm f) (\<lambda>reads.
            let raw = st_raw stm; struct_flds = dict_get (vp_struct_fields P) (decl_type stm);
                vals = brace_rhs raw
            in if struct_flds \<noteq> None \<and> CHR ''{'' \<in> set raw \<and> vals \<noteq> None
               then exec_struct_init P stm f seg iteration l_name reads (the struct_flds) (the vals)
               else if CHR ''['' \<in> set raw \<and> CHR ''='' \<in> set raw \<and> CHR ''{'' \<in> set raw
               then (case vals of
                       None \<Rightarrow> vret ()
                     | Some vs \<Rightarrow> exec_array_init P stm f seg iteration l_name reads vs)
               else if is_incdec (st_expr stm) then exec_incdec P stm f seg iteration l_name
               else (case st_expr stm of
                       None \<Rightarrow> exec_decl_only P stm f seg iteration l_name
                     | Some e \<Rightarrow>
                         if startswith l_name ''*''
                         then exec_deref_write P run stm f scope seg iteration l_name reads
                         else exec_assign P run stm f scope seg iteration l_name reads e)))"

section \<open>Control, calls and expression statements\<close>

definition exec_control ::
  "vm_prog \<Rightarrow> runner \<Rightarrow> stmt \<Rightarrow> nat \<Rightarrow> string \<Rightarrow> segment \<Rightarrow> nat option \<Rightarrow> unit act" where
  "exec_control P run stm f scope seg iteration =
     (let raw = str_strip (st_raw stm)
      in vbind (snap_stmt stm f) (\<lambda>reads.
         vthen (vm_record P stm seg iteration reads [] None [] [])
           (if startswith raw ''return''
            then vbind (eval_expr P run f scope (st_expr stm)) (\<lambda>val. vthrow (Returned val))
            else if startswith raw ''break'' then vthrow Broke
            else if startswith raw ''continue'' then vthrow Continued
            else vret ())))"

definition exec_call_stmt ::
  "vm_prog \<Rightarrow> runner \<Rightarrow> stmt \<Rightarrow> nat \<Rightarrow> string \<Rightarrow> segment \<Rightarrow> nat option \<Rightarrow> unit act" where
  "exec_call_stmt P run stm f scope seg iteration =
     vbind (snap_stmt stm f) (\<lambda>reads.
     vthen (case st_expr stm of
              Some (EOp op args at) \<Rightarrow>
                if op = ''call''
                then vbind (eval_call P run f scope at args (map (vm_eval P run f scope) args)) (\<lambda>_. vret ())
                else vret ()
            | _ \<Rightarrow> vret ())
       (vm_record P stm seg iteration reads [] None [] []))"

text \<open>The four patterns of \<open>_exec_expr_stmt\<close>; the text they are matched against has no trailing newline.\<close>

definition rx_eq_rhs :: "nat \<Rightarrow> rx" where
  "rx_eq_rhs n = rseq [rstar rspace, rchr CHR ''='', rstar rspace, RGroup n (rplus rdot), REnd]"

definition rx_double_deref :: rx where
  "rx_double_deref = rseq [rlit ''**'', RGroup 1 rident, rx_eq_rhs 2]"

definition rx_deref_paren :: rx where
  "rx_deref_paren = rseq [rlit ''*('', RGroup 1 (rplus rdot), rchr CHR '')'', rx_eq_rhs 2]"

definition rx_deref_name :: rx where
  "rx_deref_name =
     rseq [rchr CHR ''*'',
           RGroup 1 (RSeq rident (ropt (rseq [rstar rspace, rchr CHR ''+'', rstar rspace, rplus rword]))),
           rx_eq_rhs 2]"

definition rx_index_write :: rx where
  "rx_index_write =
     rseq [RGroup 1 rident, rchr CHR ''['', RGroup 2 (rplus rdot), rchr CHR '']'', rx_eq_rhs 3]"

definition parse_src :: "string \<Rightarrow> expr option" where
  "parse_src src = parse_expr (Suc (length src)) src"

text \<open>
  The body of a \<open>try\<close> whose first statement is \<open>from expr import parse_expr\<close> and whose handler is
  \<open>except Exception: pass\<close>. The import is absolute and fails when the package is run as a package.
\<close>

definition guarded :: "vm_prog \<Rightarrow> unit act \<Rightarrow> unit act" where
  "guarded P body =
     vcatch_all (if vp_importable P then body else vraise (RuntimeError ''No module named expr'')) (vret ())"

definition write_double_deref ::
  "vm_prog \<Rightarrow> runner \<Rightarrow> stmt \<Rightarrow> nat \<Rightarrow> string \<Rightarrow> segment \<Rightarrow> nat option \<Rightarrow> string \<Rightarrow> string \<Rightarrow> unit act" where
  "write_double_deref P run stm f scope seg iteration pp_name rhs_src =
     vbind (eval_expr P run f scope (parse_src rhs_src)) (\<lambda>val.
     vbind (snap_stmt stm f) (\<lambda>reads.
     vbind (in_frame f pp_name) (\<lambda>b.
       if b then
         vbind (fget f pp_name) (\<lambda>pp_addr.
         vbind (heap_read pp_addr) (\<lambda>p_addr.
         vthen (heap_write p_addr val)
           (vm_record P stm seg iteration reads [] None [] [(p_addr, val)])))
       else vret ())))"

definition write_deref ::
  "vm_prog \<Rightarrow> runner \<Rightarrow> stmt \<Rightarrow> nat \<Rightarrow> string \<Rightarrow> segment \<Rightarrow> nat option \<Rightarrow> string \<Rightarrow> string \<Rightarrow> unit act" where
  "write_deref P run stm f scope seg iteration ptr_src rhs_src =
     vbind (eval_expr P run f scope (parse_src ptr_src)) (\<lambda>addr.
     vbind (eval_expr P run f scope (parse_src rhs_src)) (\<lambda>val.
     vbind (snap_stmt stm f) (\<lambda>reads.
     vthen (heap_write addr val)
       (vm_record P stm seg iteration reads [] None [] [(addr, val)]))))"

definition write_index ::
  "vm_prog \<Rightarrow> runner \<Rightarrow> stmt \<Rightarrow> nat \<Rightarrow> string \<Rightarrow> segment \<Rightarrow> nat option \<Rightarrow> string \<Rightarrow> string \<Rightarrow> string \<Rightarrow> unit act" where
  "write_index P run stm f scope seg iteration arr_name idx_src rhs_src =
     vbind (vbind (eval_expr P run f scope (parse_src idx_src)) vm_int) (\<lambda>idx.
     vbind (eval_expr P run f scope (parse_src rhs_src)) (\<lambda>val.
     vbind (snap_stmt stm f) (\<lambda>reads.
     vbind (in_frame f arr_name) (\<lambda>b.
       if \<not> b then vret ()
       else vbind (fget f arr_name) (\<lambda>arr.
         case arr of
           WRef r \<Rightarrow>
             vthen (list_assign r idx val)
               (vbind (copy_value arr) (\<lambda>copy.
                  vm_record P stm seg iteration reads [(arr_name, copy)] None [] []))
         | WInt p \<Rightarrow>
             vthen (heap_write (WInt (p + idx)) val)
               (vm_record P stm seg iteration reads [] None [] [(WInt (p + idx), val)])
         | _ \<Rightarrow> vret ())))))"

definition exec_expr_stmt ::
  "vm_prog \<Rightarrow> runner \<Rightarrow> stmt \<Rightarrow> nat \<Rightarrow> string \<Rightarrow> segment \<Rightarrow> nat option \<Rightarrow> unit act" where
  "exec_expr_stmt P run stm f scope seg iteration =
     (let raw = str_strip (rstrip_by (\<lambda>c. c = CHR '';'') (str_strip (st_raw stm)));
          grp = (\<lambda>m n. str_strip (m_group_str m n))
      in case re_match rx_double_deref raw of
           Some m \<Rightarrow> guarded P (write_double_deref P run stm f scope seg iteration (grp m 1) (grp m 2))
         | None \<Rightarrow>
             (case (case re_match rx_deref_paren raw of Some m \<Rightarrow> Some m | None \<Rightarrow> re_match rx_deref_name raw) of
                Some m \<Rightarrow> guarded P (write_deref P run stm f scope seg iteration (grp m 1) (grp m 2))
              | None \<Rightarrow>
                  (case re_match rx_index_write raw of
                     Some m \<Rightarrow>
                       guarded P (write_index P run stm f scope seg iteration (grp m 1) (grp m 2) (grp m 3))
                   | None \<Rightarrow>
                       vbind (snap_stmt stm f) (\<lambda>reads.
                         vm_record P stm seg iteration reads [] None [] []))))"

section \<open>Branches and loops\<close>

definition seg_of_id :: "vm_prog \<Rightarrow> nat \<Rightarrow> segment act" where
  "seg_of_id P i = vlift (py_item (vp_by_id P) i)"

text \<open>The result is the rest of the iterator over the child segments.\<close>

definition exec_branch ::
  "vm_prog \<Rightarrow> runner \<Rightarrow> stmt \<Rightarrow> nat \<Rightarrow> string \<Rightarrow> segment \<Rightarrow> nat list \<Rightarrow> nat option \<Rightarrow> nat list act" where
  "exec_branch P run stm f scope seg kids iteration =
     (case kids of
        [] \<Rightarrow> vret []
      | c # kids' \<Rightarrow>
          vbind (seg_of_id P c) (\<lambda>child_seg.
          vbind (case st_expr stm of
                   None \<Rightarrow> vret True
                 | e \<Rightarrow> vbind (eval_expr P run f scope e) (\<lambda>v. vasks (\<lambda>st. py_truth (vm_pyval st v)))) (\<lambda>cond.
          vbind (snap_stmt stm f) (\<lambda>reads.
          vthen (vm_record P stm seg iteration reads [] (Some cond) [] [])
            (vthen (if cond then run child_seg f iteration else vret ()) (vret kids'))))))"

definition init_loop :: "stmt \<Rightarrow> nat \<Rightarrow> unit act" where
  "init_loop stm f =
     (if startswith (str_strip (st_raw stm)) ''for''
      then (case st_l_name stm of
              Some (c # cs) \<Rightarrow>
                set_slot f (c # cs) (WInt (parse_for_init (str_strip (st_raw stm)))) (stmt_type stm)
            | _ \<Rightarrow> vret ())
      else vret ())"

text \<open>\<open>([A-Za-z_]\w*)\s*(\+\+|--)\<close> and the prefix form.\<close>

definition rx_step :: rx where
  "rx_step = RAlt (rlit ''++'') (rlit ''--'')"

definition rx_post_step :: rx where
  "rx_post_step = rseq [RGroup 1 rident, rstar rspace, RGroup 2 rx_step]"

definition rx_pre_step :: rx where
  "rx_pre_step = rseq [RGroup 2 rx_step, rstar rspace, RGroup 1 rident]"

definition step_name :: "nat \<Rightarrow> string \<Rightarrow> string \<Rightarrow> unit act" where
  "step_name f name op =
     vbind (in_frame f name) (\<lambda>b.
     vbind (if b then fget f name else vret (WInt 0)) (\<lambda>cur.
     vbind (vm_apply2 py_add cur (WInt (if op = ''++'' then 1 else - 1))) (\<lambda>new.
       set_slot f name new ''int'')))"

fun first_compound :: "string list \<Rightarrow> string \<Rightarrow> (string \<times> string \<times> string) option" where
  "first_compound [] s = None"
| "first_compound (cop # cops) s =
     (case str_find s cop of
        Some (Suc i) \<Rightarrow> Some (str_strip (take (Suc i) s), cop, str_strip (drop (Suc i + length cop) s))
      | _ \<Rightarrow> first_compound cops s)"

definition exec_update :: "vm_prog \<Rightarrow> runner \<Rightarrow> string \<Rightarrow> nat \<Rightarrow> string \<Rightarrow> unit act" where
  "exec_update P run update_src f scope =
     (let s = str_strip update_src
      in case (case re_fullmatch rx_post_step s of Some m \<Rightarrow> Some m | None \<Rightarrow> re_fullmatch rx_pre_step s) of
           Some m \<Rightarrow> step_name f (m_group_str m 1) (m_group_str m 2)
         | None \<Rightarrow>
             (case first_compound [''+='', ''-='', ''*='', ''/='', ''%=''] s of
                None \<Rightarrow> vret ()
              | Some (lhs, cop, rhs) \<Rightarrow>
                  (case build_assign_expr (Suc (length rhs)) lhs cop rhs of
                     None \<Rightarrow> vret ()
                   | Some tree \<Rightarrow>
                       vbind (ev_val (vm_eval P run f scope tree)) (\<lambda>val. set_slot f lhs val ''int''))))"

text \<open>The condition of a loop with its snapshot, in the order of the source; the row is written after it.\<close>

definition loop_cond ::
  "vm_prog \<Rightarrow> runner \<Rightarrow> stmt \<Rightarrow> nat \<Rightarrow> string \<Rightarrow> segment \<Rightarrow> nat \<Rightarrow> bool act" where
  "loop_cond P run stm f scope parent_seg iters =
     vbind (snap_stmt stm f) (\<lambda>reads.
     vbind (case st_expr stm of
              None \<Rightarrow> vret False
            | e \<Rightarrow> vbind (eval_expr P run f scope e) (\<lambda>v. vasks (\<lambda>st. py_truth (vm_pyval st v)))) (\<lambda>cond.
     vthen (vm_record P stm parent_seg (Some iters) reads [] (Some cond) [] []) (vret cond)))"

text \<open>The body of a loop; the result tells whether the loop goes on.\<close>

definition loop_body :: "runner \<Rightarrow> segment \<Rightarrow> nat \<Rightarrow> nat \<Rightarrow> bool act" where
  "loop_body run body_seg f iters =
     vcatch (vthen (run body_seg f (Some iters)) (vret True))
       (\<lambda>e. case e of Broke \<Rightarrow> vret False | Continued \<Rightarrow> vret True | _ \<Rightarrow> vthrow e)"

definition set_capped :: "unit act" where
  "set_capped = vmodify (\<lambda>st. st\<lparr>vm_capped := True\<rparr>)"

text \<open>The \<open>while True\<close> of \<open>_exec_loop\<close>; the first argument is \<open>max_unroll - iters\<close>.\<close>

fun do_rounds ::
  "nat \<Rightarrow> vm_prog \<Rightarrow> runner \<Rightarrow> stmt \<Rightarrow> segment \<Rightarrow> nat \<Rightarrow> string \<Rightarrow> segment \<Rightarrow> nat \<Rightarrow> unit act" where
  "do_rounds 0 P run stm body_seg f scope parent_seg iters = set_capped"
| "do_rounds (Suc n) P run stm body_seg f scope parent_seg iters =
     vbind (loop_body run body_seg f iters) (\<lambda>go.
       if \<not> go then vret ()
       else vbind (loop_cond P run stm f scope parent_seg iters) (\<lambda>cond.
            if cond then do_rounds n P run stm body_seg f scope parent_seg (Suc iters) else vret ()))"

fun while_rounds ::
  "nat \<Rightarrow> vm_prog \<Rightarrow> runner \<Rightarrow> stmt \<Rightarrow> segment \<Rightarrow> string option \<Rightarrow> nat \<Rightarrow> string \<Rightarrow> segment \<Rightarrow> nat \<Rightarrow> unit act" where
  "while_rounds 0 P run stm body_seg update f scope parent_seg iters = set_capped"
| "while_rounds (Suc n) P run stm body_seg update f scope parent_seg iters =
     vbind (loop_cond P run stm f scope parent_seg iters) (\<lambda>cond.
       if \<not> cond then vret ()
       else vbind (loop_body run body_seg f iters) (\<lambda>go.
            if \<not> go then vret ()
            else vthen (case update of Some (c # cs) \<Rightarrow> exec_update P run (c # cs) f scope | _ \<Rightarrow> vret ())
                   (while_rounds n P run stm body_seg update f scope parent_seg (Suc iters))))"

definition exec_loop ::
  "vm_prog \<Rightarrow> runner \<Rightarrow> stmt \<Rightarrow> segment \<Rightarrow> nat \<Rightarrow> string \<Rightarrow> segment \<Rightarrow> unit act" where
  "exec_loop P run stm body_seg f scope parent_seg =
     (let raw = str_strip (st_raw stm)
      in vthen (init_loop stm f)
          (if startswith raw ''do''
           then do_rounds (vp_max_unroll P) P run stm body_seg f scope parent_seg 0
           else while_rounds (vp_max_unroll P) P run stm body_seg
                  (if startswith raw ''for'' then extract_for_update raw else None) f scope parent_seg 0))"

section \<open>Blocks\<close>

text \<open>\<open>_exec_stmt\<close>; a loop without a child segment left lets \<open>StopIteration\<close> escape.\<close>

definition exec_stmt ::
  "vm_prog \<Rightarrow> runner \<Rightarrow> segment \<Rightarrow> nat \<Rightarrow> nat option \<Rightarrow> stmt \<Rightarrow> nat list \<Rightarrow> nat list act" where
  "exec_stmt P run seg f iteration stm kids =
     (let kind = st_kind stm; scope = sg_scope_path seg
      in if kind = ''decl'' \<or> kind = ''assign''
           then vthen (exec_decl_assign P run stm f scope seg iteration) (vret kids)
         else if kind = ''control'' then vthen (exec_control P run stm f scope seg iteration) (vret kids)
         else if kind = ''call'' then vthen (exec_call_stmt P run stm f scope seg iteration) (vret kids)
         else if kind = ''loop_head'' then
           (case kids of
              [] \<Rightarrow> vraise StopIteration
            | c # kids' \<Rightarrow>
                vbind (seg_of_id P c) (\<lambda>child_seg.
                  vthen (exec_loop P run stm child_seg f scope seg) (vret kids')))
         else if kind = ''branch'' then exec_branch P run stm f scope seg kids iteration
         else if kind = ''expr'' then vthen (exec_expr_stmt P run stm f scope seg iteration) (vret kids)
         else vret kids)"

fun exec_stmts ::
  "vm_prog \<Rightarrow> runner \<Rightarrow> segment \<Rightarrow> nat \<Rightarrow> nat option \<Rightarrow> stmt list \<Rightarrow> nat list \<Rightarrow> unit act" where
  "exec_stmts P run seg f iteration [] kids = vret ()"
| "exec_stmts P run seg f iteration (stm # stms) kids =
     vbind (exec_stmt P run seg f iteration stm kids) (exec_stmts P run seg f iteration stms)"

fun exec_seg :: "nat \<Rightarrow> vm_prog \<Rightarrow> runner" where
  "exec_seg 0 P seg f iteration = vthrow OutOfFuel"
| "exec_seg (Suc fuel) P seg f iteration =
     exec_stmts P (exec_seg fuel P) seg f iteration (sg_stmts seg)
       (dict_get_list (vp_children P) (sg_id seg))"

section \<open>Construction and entry points\<close>

text \<open>
  \<open>_owning_fn\<close>: \<open>None\<close> when the walk over the parents does not end, which a chain longer than the number
  of segments shows.
\<close>

fun owning_fn :: "nat \<Rightarrow> (nat, segment) dict \<Rightarrow> segment \<Rightarrow> string py option" where
  "owning_fn 0 by_id s = None"
| "owning_fn (Suc k) by_id s =
     (if sg_type s = ''function'' then Some (Inr (sg_name s))
      else if sg_parent s = sg_id s then Some (Inr ''root'')
      else case py_item by_id (sg_parent s) of
             Inl e \<Rightarrow> Some (Inl e)
           | Inr p \<Rightarrow> owning_fn k by_id p)"

definition vm_children :: "segment list \<Rightarrow> (nat, nat list) dict" where
  "vm_children segments =
     map (\<lambda>(p, cs). (p, sort cs))
       (fold (\<lambda>seg d. if sg_id seg \<noteq> sg_parent seg then dict_append (sg_parent seg) (sg_id seg) d else d)
         segments [])"

fun all_owners :: "nat \<Rightarrow> (nat, segment) dict \<Rightarrow> segment list \<Rightarrow> (nat, string) dict \<Rightarrow> (nat, string) dict py option" where
  "all_owners k by_id [] acc = Some (Inr acc)"
| "all_owners k by_id (s # ss) acc =
     (case owning_fn k by_id s of
        None \<Rightarrow> None
      | Some (Inl e) \<Rightarrow> Some (Inl e)
      | Some (Inr n) \<Rightarrow> all_owners k by_id ss (dict_set (sg_id s) n acc))"

definition vm_init :: "libm \<Rightarrow> bool \<Rightarrow> nat \<Rightarrow> segment list \<Rightarrow> vm_prog py option" where
  "vm_init lib importable max_unroll segments =
     (let by_id = dict_by sg_id segments;
          structs = filter (\<lambda>s. sg_type s = ''struct'') segments
      in map_option (\<lambda>owners. py_bind owners (\<lambda>seg_fn. Inr
           \<lparr>vp_by_id = by_id,
            vp_fns = dict_by sg_name (filter (\<lambda>s. sg_type s = ''function'') segments),
            vp_struct_fields = fold (\<lambda>s. dict_set (sg_name s) (map sl_name (sg_memory s))) structs [],
            vp_struct_types = fold (\<lambda>s. dict_set (sg_name s)
                (fold (\<lambda>m. dict_set (sl_name m) (sl_type m)) (sg_memory s) [])) structs [],
            vp_children = vm_children segments, vp_seg_fn = seg_fn,
            vp_max_unroll = max_unroll, vp_lib = lib, vp_importable = importable\<rparr>))
         (all_owners (Suc (length segments)) by_id segments []))"

definition infer_type :: "pyval \<Rightarrow> string" where
  "infer_type v =
     (case v of VFloat x \<Rightarrow> ''float'' | VList xs \<Rightarrow> ''int*'' | VStr s \<Rightarrow> ''char*'' | _ \<Rightarrow> ''int'')"

definition bind_arg :: "nat \<Rightarrow> string \<times> pyval \<Rightarrow> unit act" where
  "bind_arg f p = (case p of (k, v) \<Rightarrow> vbind (vm_store v) (\<lambda>w. alloc_stack_slot f k w (infer_type v)))"

definition call_fn :: "nat \<Rightarrow> vm_prog \<Rightarrow> string \<Rightarrow> (string \<times> pyval) list \<Rightarrow> vval act" where
  "call_fn fuel P fn_name arg_frame =
     (case dict_get (vp_fns P) fn_name of
        None \<Rightarrow> vraise (NameError fn_name)
      | Some seg \<Rightarrow>
          vbind new_frame (\<lambda>f.
          vthen (vfor (bind_arg f) arg_frame)
            (vcatch_return (vthen (exec_seg fuel P seg f None) (vret WNone)))))"

text \<open>\<open>run\<close> clears the output, the trace and the memory before it calls \<open>main\<close>.\<close>

definition vm_reset :: "vm \<Rightarrow> vm" where
  "vm_reset st =
     st\<lparr>vm_output := [], vm_trace := [], vm_capped := False, vm_stack_counter := 0x1000,
        vm_heap_counter := 0x80000000, vm_heap := [], vm_addr_map := []\<rparr>"

definition vm_run :: "nat \<Rightarrow> vm_prog \<Rightarrow> string list act" where
  "vm_run fuel P =
     vthen (vmodify vm_reset) (vbind (call_fn fuel P ''main'' []) (\<lambda>_. vasks vm_output))"

text \<open>\<open>run_file\<close>: every exception of the run becomes the return value \<open>None\<close>.\<close>

definition run_file :: "nat \<Rightarrow> vm_prog \<Rightarrow> (vm_exc + (string list \<times> vval \<times> trace_row list \<times> bool))" where
  "run_file fuel P =
     fst (vbind (vcatch_all (call_fn fuel P ''main'' []) (vret WNone)) (\<lambda>ret.
          vasks (\<lambda>st. (vm_output st, ret, vm_trace st, vm_capped st))) vm_start)"

end
