(* ===== verification/VmFuel.thy ===== *)
theory VmFuel
  imports VmExec
begin

text \<open>
  Termination of the virtual machine. Two actions are related when the first one runs out of budget or
  both do the same; the handlers carry the relation from the interpreters of blocks they are given to
  themselves. With the flag set the first action also never runs out of budget. From this follow that a
  larger budget never changes an answer, and that a program whose functions do not call each other in
  a cycle has one, whatever its loops do: each is cut off at \<open>max_unroll\<close> rounds.
\<close>

section \<open>Related actions\<close>

definition rel :: "bool \<Rightarrow> 'a act \<Rightarrow> 'a act \<Rightarrow> bool" where
  "rel b m m' \<longleftrightarrow>
     (\<forall>st. (m st = m' st \<and> (b \<longrightarrow> fst (m st) \<noteq> Inl OutOfFuel)) \<or> (\<not> b \<and> fst (m st) = Inl OutOfFuel))"

lemma relD:
  "rel b m m' \<Longrightarrow> (m st = m' st \<and> (b \<longrightarrow> fst (m st) \<noteq> Inl OutOfFuel)) \<or> (\<not> b \<and> fst (m st) = Inl OutOfFuel)"
  by (simp add: rel_def)

named_theorems vrel \<open>related actions\<close>

lemma relI_safe: "(\<And>st. fst (m st) \<noteq> Inl OutOfFuel) \<Longrightarrow> rel b m m"
  by (simp add: rel_def)

lemma rel_pure [vrel]:
  "rel b (vret x) (vret x)" "rel b (vasks g) (vasks g)" "rel b (vlift r) (vlift r)"
  "rel b (vmodify h) (vmodify h)" "e \<noteq> OutOfFuel \<Longrightarrow> rel b (vthrow e) (vthrow e)"
  by (auto simp: rel_def act_defs vlift_def split: sum.splits)

lemma rel_raise [vrel]:
  "rel b (vraise e) (vraise e)" "rel b (vthrow (Returned v)) (vthrow (Returned v))"
  "rel b (vthrow Broke) (vthrow Broke)" "rel b (vthrow Continued) (vthrow Continued)"
  "rel b (vthrow Unmodelled) (vthrow Unmodelled)"
  by (simp_all add: rel_def vthrow_def)

lemma rel_bind_post:
  assumes "rel b m m'" "\<And>st x st'. m st = (Inr x, st') \<Longrightarrow> rel b (k x) (k' x)"
  shows "rel b (vbind m k) (vbind m' k')"
  unfolding rel_def
proof
  fix st
  obtain r st' where m: "m st = (r, st')" by force
  show "(vbind m k st = vbind m' k' st \<and> (b \<longrightarrow> fst (vbind m k st) \<noteq> Inl OutOfFuel))
      \<or> (\<not> b \<and> fst (vbind m k st) = Inl OutOfFuel)"
  proof (cases r)
    case (Inl e)
    with m have "m st = (Inl e, st')" by simp
    then consider "m' st = (Inl e, st')" "b \<longrightarrow> e \<noteq> OutOfFuel" | "\<not> b" "e = OutOfFuel"
      using relD [OF assms(1), of st] by (metis fst_conv sum.inject(1))
    then show ?thesis using m Inl by cases (simp_all add: vbind_def)
  next
    case (Inr x)
    have "m' st = (Inr x, st')" using assms(1) m Inr by (metis rel_def fst_conv sum.distinct(1))
    moreover have "rel b (k x) (k' x)" using assms(2) m Inr by blast
    ultimately show ?thesis using m Inr by (simp add: rel_def vbind_def)
  qed
qed

lemma rel_bind [vrel]: "rel b m m' \<Longrightarrow> (\<And>x. rel b (k x) (k' x)) \<Longrightarrow> rel b (vbind m k) (vbind m' k')"
  by (rule rel_bind_post)

lemma rel_catch:
  assumes "rel b m m'" "\<And>e. e \<noteq> OutOfFuel \<Longrightarrow> rel b (h e) (h' e)" "h OutOfFuel = vthrow OutOfFuel"
  shows "rel b (vcatch m h) (vcatch m' h')"
  unfolding rel_def
proof
  fix st
  obtain r st' where m: "m st = (r, st')" by force
  show "(vcatch m h st = vcatch m' h' st \<and> (b \<longrightarrow> fst (vcatch m h st) \<noteq> Inl OutOfFuel))
      \<or> (\<not> b \<and> fst (vcatch m h st) = Inl OutOfFuel)"
  proof (cases r)
    case (Inl e)
    show ?thesis
    proof (cases "e = OutOfFuel")
      case True
      then have "\<not> b" using relD [OF assms(1), of st] m Inl by auto
      then show ?thesis using m Inl True assms(3) by (simp add: vcatch_def vthrow_def)
    next
      case False
      have "m' st = (Inl e, st')" using assms(1) m Inl False by (metis rel_def fst_conv sum.inject(1))
      then show ?thesis using assms(2) [OF False] m Inl by (simp add: rel_def vcatch_def)
    qed
  next
    case (Inr x)
    have "m' st = (Inr x, st')" using assms(1) m Inr by (metis rel_def fst_conv sum.distinct(1))
    then show ?thesis using m Inr by (simp add: vcatch_def)
  qed
qed

lemma rel_catch_all [vrel]: "rel b m m' \<Longrightarrow> rel b h h' \<Longrightarrow> rel b (vcatch_all m h) (vcatch_all m' h')"
  unfolding vcatch_all_def
  by (rule rel_catch) (auto simp: is_exception_def intro: vrel)

lemma rel_catch_return [vrel]: "rel b m m' \<Longrightarrow> rel b (vcatch_return m) (vcatch_return m')"
  unfolding vcatch_return_def
  by (rule rel_catch) (auto intro: vrel split: vm_exc.splits)

lemma rel_loop_body [vrel]:
  "rel b (run body f (Some i)) (run' body f (Some i)) \<Longrightarrow> rel b (loop_body run body f i) (loop_body run' body f i)"
  unfolding loop_body_def by (rule rel_catch) (auto intro!: vrel split: vm_exc.splits)

lemma rel_cases [vrel]:
  "rel b a a' \<Longrightarrow> rel b c c' \<Longrightarrow> rel b (if p then a else c) (if p then a' else c')"
  "rel b n n' \<Longrightarrow> (\<And>x. rel b (g x) (g' x)) \<Longrightarrow>
     rel b (case v of None \<Rightarrow> n | Some x \<Rightarrow> g x) (case v of None \<Rightarrow> n' | Some x \<Rightarrow> g' x)"
  "(\<And>x y. rel b (h x y) (h' x y)) \<Longrightarrow> rel b (case q of (x, y) \<Rightarrow> h x y) (case q of (x, y) \<Rightarrow> h' x y)"
  "rel b n n' \<Longrightarrow> (\<And>x xs. rel b (l x xs) (l' x xs)) \<Longrightarrow>
     rel b (case ys of [] \<Rightarrow> n | x # xs \<Rightarrow> l x xs) (case ys of [] \<Rightarrow> n' | x # xs \<Rightarrow> l' x xs)"
  "(\<And>x. rel b (i x) (i' x)) \<Longrightarrow> rel b (Let w i) (Let w i')"
  by (auto split: option.splits prod.splits list.splits)

lemma rel_values [vrel]:
  "rel b n n' \<Longrightarrow> (\<And>i. rel b (a i) (a' i)) \<Longrightarrow> (\<And>x. rel b (c x) (c' x)) \<Longrightarrow> (\<And>s. rel b (d s) (d' s)) \<Longrightarrow>
   (\<And>r. rel b (e r) (e' r)) \<Longrightarrow>
   rel b (case v of WNone \<Rightarrow> n | WInt i \<Rightarrow> a i | WFloat x \<Rightarrow> c x | WStr s \<Rightarrow> d s | WRef r \<Rightarrow> e r)
     (case v of WNone \<Rightarrow> n' | WInt i \<Rightarrow> a' i | WFloat x \<Rightarrow> c' x | WStr s \<Rightarrow> d' s | WRef r \<Rightarrow> e' r)"
  by (cases v) auto

lemma rel_pyvalues [vrel]:
  "rel b n n \<Longrightarrow> (\<And>i. rel b (a i) (a i)) \<Longrightarrow> (\<And>x. rel b (c x) (c x)) \<Longrightarrow> (\<And>s. rel b (d s) (d s)) \<Longrightarrow>
   (\<And>r. rel b (e r) (e r)) \<Longrightarrow> (\<And>r. rel b (g r) (g r)) \<Longrightarrow>
   rel b (case v of VNone \<Rightarrow> n | VInt i \<Rightarrow> a i | VFloat x \<Rightarrow> c x | VStr s \<Rightarrow> d s | VList r \<Rightarrow> e r | VDict r \<Rightarrow> g r)
     (case v of VNone \<Rightarrow> n | VInt i \<Rightarrow> a i | VFloat x \<Rightarrow> c x | VStr s \<Rightarrow> d s | VList r \<Rightarrow> e r | VDict r \<Rightarrow> g r)"
  by (cases v) auto

lemma rel_seq [vrel]: "list_all2 (rel b) ms ms' \<Longrightarrow> rel b (vseq ms) (vseq ms')"
  by (induction ms ms' rule: list_all2_induct) (auto intro!: vrel)

lemma rel_for_in:
  "length xs = length ys \<Longrightarrow> (\<And>x y. (x, y) \<in> set (zip xs ys) \<Longrightarrow> rel b (g x) (g' y)) \<Longrightarrow>
   rel b (vfor g xs) (vfor g' ys)"
  by (induction xs ys rule: list_induct2) (auto intro!: vrel)

lemma rel_for [vrel]: "(\<And>x. rel b (g x) (g' x)) \<Longrightarrow> rel b (vfor g xs) (vfor g' xs)"
  by (induction xs) (auto intro!: vrel)

section \<open>The memory never runs out of budget\<close>

lemma rel_memory [vrel]:
  "rel b (of_pyval p) (of_pyval p)" "rel b (vm_int v) (vm_int v)" "rel b (vm_apply2 g u v) (vm_apply2 g u v)"
  "rel b (new_list xs) (new_list xs)" "rel b (in_frame f n) (in_frame f n)" "rel b (slot_of f n) (slot_of f n)"
  "rel b (fget f n) (fget f n)" "rel b (faddr f n) (faddr f n)" "rel b (fget_type f n) (fget_type f n)"
  "rel b new_frame new_frame" "rel b (alloc_stack_slot f n v t) (alloc_stack_slot f n v t)"
  "rel b (list_assign r i v) (list_assign r i v)" "rel b (copy_value v) (copy_value v)"
  "rel b (write_slot f n v) (write_slot f n v)" "rel b (set_slot f n v t) (set_slot f n v t)"
  "rel b (alloc_cells cells) (alloc_cells cells)" "rel b (alloc_heap k t) (alloc_heap k t)"
  "rel b (intern_string s) (intern_string s)" "rel b (heap_read v) (heap_read v)"
  "rel b (heap_write v w) (heap_write v w)"
  unfolding of_pyval_def vm_int_def vm_apply2_def new_list_def in_frame_def slot_of_def fget_def faddr_def
    fget_type_def new_frame_def alloc_stack_slot_def list_assign_def copy_value_def write_slot_def set_slot_def
    alloc_cells_def alloc_heap_def intern_string_def heap_read_def heap_write_def
  by (intro vrel)+

lemma list_all2_map_same: "(\<And>x. x \<in> set xs \<Longrightarrow> Q (g x) (h x)) \<Longrightarrow> list_all2 Q (map g xs) (map h xs)"
  by (induction xs) auto

lemma rel_store [vrel]: "rel b (vm_store v) (vm_store v)"
proof (induction v)
  case (VList xs)
  then have "list_all2 (rel b) (map vm_store xs) (map vm_store xs)" by (intro list_all2_map_same)
  then show ?case by (auto intro!: vrel)
qed (auto intro!: vrel)

lemma rel_list_to_heap [vrel]:
  "rel b (list_to_heap d v t) (list_to_heap d v t)" "rel b (list_to_heap_any v t) (list_to_heap_any v t)"
proof -
  show l: "rel b (list_to_heap d v t) (list_to_heap d v t)" for d v
    by (induction d arbitrary: v) (auto intro!: vrel)
  show "rel b (list_to_heap_any v t) (list_to_heap_any v t)"
    unfolding list_to_heap_any_def by (intro vrel l)
qed

lemma rel_snap [vrel]:
  "rel b (snap_names ns f acc) (snap_names ns f acc)" "rel b (vm_snap ns f) (vm_snap ns f)"
  "rel b (snap_stmt stm f) (snap_stmt stm f)"
proof -
  show s: "rel b (snap_names ns f acc) (snap_names ns f acc)" for ns acc
    by (induction ns arbitrary: acc) (auto intro!: vrel)
  show "rel b (vm_snap ns f) (vm_snap ns f)" "rel b (snap_stmt stm f) (snap_stmt stm f)"
    unfolding vm_snap_def snap_stmt_def by (rule s)+
qed

section \<open>The string functions end\<close>

definition known_addrs :: "vm \<Rightarrow> int set" where
  "known_addrs st = set (dict_keys (vm_heap st)) \<union> set (dict_keys (vm_addr_map st))"

lemma known_addrs_finite: "finite (known_addrs st)" "card (known_addrs st) < cstr_fuel st"
proof -
  show "finite (known_addrs st)" by (simp add: known_addrs_def)
  have "card (known_addrs st) \<le> card (set (dict_keys (vm_heap st))) + card (set (dict_keys (vm_addr_map st)))"
    unfolding known_addrs_def by (rule card_Un_le)
  also have "\<dots> \<le> length (vm_heap st) + length (vm_addr_map st)"
    by (rule add_mono) (metis card_length length_map)+
  finally show "card (known_addrs st) < cstr_fuel st" by (simp add: cstr_fuel_def)
qed

lemma consecutive_addrs:
  assumes "\<And>j. j < k \<Longrightarrow> a + int j \<in> known_addrs st"
  shows "k < cstr_fuel st"
proof -
  have "inj_on (\<lambda>j. a + int j) {..<k}" by (simp add: inj_on_def)
  then have "k = card ((\<lambda>j. a + int j) ` {..<k})" by (simp add: card_image)
  also have "\<dots> \<le> card (known_addrs st)"
    using assms by (intro card_mono known_addrs_finite(1)) auto
  finally show ?thesis using known_addrs_finite(2) [of st] by linarith
qed

lemma heap_read_int:
  assumes "heap_read (WInt a) st = (r, st')"
  shows "r \<noteq> Inl OutOfFuel" "r = Inr v \<Longrightarrow> st' = st \<and> a \<in> known_addrs st"
proof -
  show "r \<noteq> Inl OutOfFuel"
    using rel_memory(19) [of True "WInt a"] assms by (auto simp: rel_def) (metis fst_conv)
  have dom: "dict_get d k = Some w \<Longrightarrow> k \<in> set (dict_keys d)" for d :: "(int, 'x) dict" and k w
    by (metis domI domIff map_of_eq_None_iff list.set_map)
  show "st' = st \<and> a \<in> known_addrs st" if "r = Inr v"
    using assms that
    by (auto simp: heap_read_def act_defs vm_int_def vm_pyval_def vlift_def py_int_def known_addrs_def
        fget_def slot_of_def vthrow_def dest: dom split: option.splits if_splits)
qed

lemma known_addrs_write: "known_addrs (snd (heap_write v w st)) = known_addrs st"
proof -
  have cell: "dict_get (vm_heap st) a = Some c \<Longrightarrow> known_addrs (put_cell a w t st) = known_addrs st" for a c t
    by (auto simp: known_addrs_def put_cell_def dom_update dest: map_of_SomeD intro: rev_image_eqI)
  have slot: "known_addrs (put_slot f n d st) = known_addrs st" for f n d
    by (simp add: known_addrs_def put_slot_def)
  show ?thesis
    by (auto simp: heap_write_def write_slot_def slot_of_def act_defs cell slot split: option.splits prod.splits)
qed

text \<open>A loop over a string that runs out of budget has read as many addresses in a row.\<close>

lemma strlen_loop_budget:
  "fst (strlen_loop k a n st) = Inl OutOfFuel \<Longrightarrow> j < k \<Longrightarrow> a + n + int j \<in> known_addrs st"
proof (induction k arbitrary: n j)
  case (Suc k)
  obtain r st' where r: "heap_read (WInt (a + n)) st = (r, st')" by force
  show ?case
  proof (cases r)
    case (Inl e)
    then show ?thesis using Suc.prems(1) r heap_read_int(1) [OF r] by (simp add: act_defs)
  next
    case (Inr v)
    note h = heap_read_int(2) [OF r Inr]
    show ?thesis
    proof (cases j)
      case 0
      then show ?thesis using h by simp
    next
      case (Suc i)
      have "fst (strlen_loop k a (n + 1) st) = Inl OutOfFuel"
        using Suc.prems(1) r Inr h by (auto simp: act_defs split: if_splits)
      from Suc.IH [OF this, of i] show ?thesis using Suc Suc.prems(2) by (simp add: algebra_simps)
    qed
  qed
qed simp

lemma strcpy_loop_budget:
  "fst (strcpy_loop k d a st) = Inl OutOfFuel \<Longrightarrow> j < k \<Longrightarrow> a + int j \<in> known_addrs st"
proof (induction k arbitrary: d a j st)
  case (Suc k)
  obtain r st' where r: "heap_read (WInt a) st = (r, st')" by force
  show ?case
  proof (cases r)
    case (Inl e)
    then show ?thesis using Suc.prems(1) r heap_read_int(1) [OF r] by (simp add: act_defs)
  next
    case (Inr v)
    note h = heap_read_int(2) [OF r Inr]
    obtain q st2 where q: "heap_write (WInt d) v st = (q, st2)" by force
    have ne: "q \<noteq> Inl OutOfFuel" using relD [OF rel_memory(20) [of True "WInt d" v], of st] q by simp
    have same: "known_addrs st2 = known_addrs st" using known_addrs_write [of "WInt d" v st] q by simp
    show ?thesis
    proof (cases j)
      case 0
      then show ?thesis using h by simp
    next
      case (Suc i)
      have "fst (strcpy_loop k (d + 1) (a + 1) st2) = Inl OutOfFuel"
        using Suc.prems(1) r Inr h q ne by (cases q) (auto simp: act_defs split: if_splits)
      from Suc.IH [OF this, of i] show ?thesis using Suc Suc.prems(2) same by (simp add: algebra_simps)
    qed
  qed
qed simp

lemma strcmp_loop_budget:
  "fst (strcmp_loop k a c st) = Inl OutOfFuel \<Longrightarrow> j < k \<Longrightarrow> a + int j \<in> known_addrs st"
proof (induction k arbitrary: a c j)
  case (Suc k)
  obtain r st' where r: "heap_read (WInt a) st = (r, st')" by force
  obtain q st2 where q: "heap_read (WInt c) st = (q, st2)" by force
  have sub: "fst (vm_apply2 py_sub v w st) \<noteq> Inl OutOfFuel" for v w
    using relD [OF rel_memory(3) [of True py_sub v w], of st] by simp
  show ?case
  proof (cases r)
    case (Inl e)
    then show ?thesis using Suc.prems(1) r heap_read_int(1) [OF r] by (simp add: act_defs)
  next
    case (Inr v)
    note h = heap_read_int(2) [OF r Inr]
    show ?thesis
    proof (cases q)
      case (Inl e)
      then show ?thesis using Suc.prems(1) r q h Inr heap_read_int(1) [OF q] by (simp add: act_defs)
    next
      case q': (Inr w)
      show ?thesis
      proof (cases j)
        case 0
        then show ?thesis using h by simp
      next
        case (Suc i)
        have "fst (strcmp_loop k (a + 1) (c + 1) st) = Inl OutOfFuel"
          using Suc.prems(1) r q Inr q' h heap_read_int(2) [OF q q'] sub
          by (auto simp: act_defs split: if_splits)
        from Suc.IH [OF this, of i] show ?thesis using Suc Suc.prems(2) by (simp add: algebra_simps)
      qed
    qed
  qed
qed simp

lemma vm_chr_state: "vm_chr v st = (r, st') \<Longrightarrow> r \<noteq> Inl OutOfFuel \<and> st' = st"
  by (auto simp: vm_chr_def act_defs split: vval.splits if_splits)

lemma read_chars_budget:
  "fst (read_chars k cap a n st) = Inl OutOfFuel \<Longrightarrow> j < k \<Longrightarrow> a + int n + int j \<in> known_addrs st"
proof (induction k arbitrary: n j)
  case (Suc k)
  obtain r st' where r: "heap_read (WInt (a + int n)) st = (r, st')" by force
  show ?case
  proof (cases r)
    case (Inl e)
    then show ?thesis using Suc.prems(1) r heap_read_int(1) [OF r] by (simp add: act_defs)
  next
    case (Inr v)
    note h = heap_read_int(2) [OF r Inr]
    obtain q st2 where q: "vm_chr v st = (q, st2)" by force
    show ?thesis
    proof (cases j)
      case 0
      then show ?thesis using h by simp
    next
      case (Suc i)
      have "fst (read_chars k cap a (n + 1) st) = Inl OutOfFuel"
        using Suc.prems(1) r Inr h q vm_chr_state [OF q]
        by (cases q) (auto simp: act_defs split: if_splits prod.splits sum.splits option.splits)
      from Suc.IH [OF this, of i] show ?thesis using Suc Suc.prems(2) by (simp add: algebra_simps)
    qed
  qed
qed simp

lemma enough_budget:
  assumes "\<And>k j. fst (g k st) = Inl OutOfFuel \<Longrightarrow> j < k \<Longrightarrow> a + int j \<in> known_addrs st"
  shows "fst (vbind (vasks cstr_fuel) g st) \<noteq> Inl OutOfFuel"
  using consecutive_addrs [of "cstr_fuel st" a st] assms [of "cstr_fuel st"] by (auto simp: act_defs)

lemma rel_string_loops [vrel]:
  "rel b (vbind (vasks cstr_fuel) (\<lambda>k. strlen_loop k a 0)) (vbind (vasks cstr_fuel) (\<lambda>k. strlen_loop k a 0))"
  "rel b (vbind (vasks cstr_fuel) (\<lambda>k. strcmp_loop k a c)) (vbind (vasks cstr_fuel) (\<lambda>k. strcmp_loop k a c))"
  "rel b (vbind (vasks cstr_fuel) (\<lambda>k. vbind (strcpy_loop k d a) (\<lambda>_. vret x)))
     (vbind (vasks cstr_fuel) (\<lambda>k. vbind (strcpy_loop k d a) (\<lambda>_. vret x)))"
  "rel b (read_cstr cap a) (read_cstr cap a)"
proof -
  show "rel b (vbind (vasks cstr_fuel) (\<lambda>k. strlen_loop k a 0)) (vbind (vasks cstr_fuel) (\<lambda>k. strlen_loop k a 0))"
    using strlen_loop_budget [of _ a 0] by (intro relI_safe enough_budget [where a = a]) simp
  show "rel b (vbind (vasks cstr_fuel) (\<lambda>k. strcmp_loop k a c)) (vbind (vasks cstr_fuel) (\<lambda>k. strcmp_loop k a c))"
    using strcmp_loop_budget by (intro relI_safe enough_budget [where a = a]) blast
  show "rel b (vbind (vasks cstr_fuel) (\<lambda>k. vbind (strcpy_loop k d a) (\<lambda>_. vret x)))
     (vbind (vasks cstr_fuel) (\<lambda>k. vbind (strcpy_loop k d a) (\<lambda>_. vret x)))"
  proof (intro relI_safe enough_budget [where a = a])
    fix st k j
    assume "fst (vbind (strcpy_loop k d a) (\<lambda>_. vret x) st) = Inl OutOfFuel" "j < k"
    then show "a + int j \<in> known_addrs st"
      using strcpy_loop_budget [of k d a st j] by (auto simp: act_defs split: prod.splits sum.splits)
  qed
  show "rel b (read_cstr cap a) (read_cstr cap a)"
    unfolding read_cstr_def
    using read_chars_budget [of _ cap a 0] by (intro relI_safe enough_budget [where a = a]) simp
qed

lemma rel_printf [vrel]: "rel b (mock_printf lib vs) (mock_printf lib vs)"
proof -
  have chr: "rel b (vm_chr v) (vm_chr v)" for v
    by (rule relI_safe) (metis vm_chr_state prod.collapse)
  have str: "rel b (vm_str lib v) (vm_str lib v)" for lib v unfolding vm_str_def by (intro vrel)
  have spec: "rel b (format_spec lib c v) (format_spec lib c v)" for lib c v
    unfolding format_spec_def by (intro vrel chr str)
  have fmt: "rel b (format_from lib s vs) (format_from lib s vs)" for s vs
    by (induction lib s vs rule: format_from.induct) (auto intro!: vrel spec)
  show ?thesis unfolding mock_printf_def by (intro vrel str fmt)
qed

lemma rel_ranges [vrel]:
  "rel b (memset_range a v n) (memset_range a v n)" "rel b (memcpy_range a c n) (memcpy_range a c n)"
  unfolding memset_range_def memcpy_range_def by (intro vrel)+

end
