(* ===== verification/VmSteps.thy ===== *)
theory VmSteps
  imports VmExec "HOL-Library.Sublist"
begin

text \<open>
  What every step of the virtual machine keeps. A relation between states that is reflexive and
  transitive and holds across the few primitive updates (allocating and writing slots, cells and lists,
  recording, printing) holds across every handler, every expression and every call: the locale
  \<open>vm_relation\<close> proves it once by following the handlers. It is interpreted for the histories (output and
  trace only grow), for the stores (frames, names and addresses are never dropped) and for the
  consistency of the memory.
\<close>

named_theorems vsteps \<open>actions that respect the relation\<close>

section \<open>Relations that the primitive updates respect\<close>

locale vm_relation =
  fixes R :: "vm \<Rightarrow> vm \<Rightarrow> bool"
  assumes R_refl: "R st st"
    and R_trans: "R st st' \<Longrightarrow> R st' st'' \<Longrightarrow> R st st''"
    and R_lists: "R st (st\<lparr>vm_lists := vm_lists st @ [xs]\<rparr>)"
    and R_list_set: "R st (st\<lparr>vm_lists := (vm_lists st)[r := xs]\<rparr>)"
    and R_frame: "R st (st\<lparr>vm_frames := vm_frames st @ [[]]\<rparr>)"
    and R_alloc_slot: "R st (alloc_slot_st f n v t st)"
    and R_put_slot: "dict_get (frame_at st f) n = Some d \<Longrightarrow> R st (put_slot f n (d\<lparr>vs_value := v\<rparr>) st)"
    and R_put_cell: "dict_get (vm_heap st) a = Some (old, t) \<Longrightarrow> R st (put_cell a v t st)"
    and R_new_cell: "R st st' \<Longrightarrow> R st (put_cell (vm_heap_counter st + int i) v t st')"
    and R_counter: "R st st' \<Longrightarrow> R st (st'\<lparr>vm_heap_counter := vm_heap_counter st + int len\<rparr>)"
    and R_output: "R st (st\<lparr>vm_output := vm_output st @ lines\<rparr>)"
    and R_trace: "R st (st\<lparr>vm_trace := vm_trace st @ [row]\<rparr>)"
    and R_capped: "R st (st\<lparr>vm_capped := True\<rparr>)"
begin

definition steps :: "'a act \<Rightarrow> bool" where
  "steps m \<longleftrightarrow> (\<forall>st. R st (snd (m st)))"

lemma stepsD: "steps m \<Longrightarrow> R st (snd (m st))"
  by (simp add: steps_def)

lemma steps_pure [vsteps]: "steps (vret x)" "steps (vthrow e)" "steps (vasks g)" "steps (vlift r)"
  by (auto simp: steps_def act_defs vlift_def R_refl split: sum.splits)

lemma steps_bind [vsteps]: "steps m \<Longrightarrow> (\<And>x. steps (k x)) \<Longrightarrow> steps (vbind m k)"
  unfolding steps_def vbind_def
  by (auto split: prod.splits sum.splits intro: R_trans) (metis R_trans snd_conv)+

lemma steps_catch [vsteps]: "steps m \<Longrightarrow> (\<And>e. steps (h e)) \<Longrightarrow> steps (vcatch m h)"
  unfolding steps_def vcatch_def
  by (auto split: prod.splits sum.splits intro: R_trans) (metis R_trans snd_conv)+

lemma steps_cases [vsteps]:
  "steps a \<Longrightarrow> steps b \<Longrightarrow> steps (if c then a else b)"
  "steps n \<Longrightarrow> (\<And>x. steps (g x)) \<Longrightarrow> steps (case v of None \<Rightarrow> n | Some x \<Rightarrow> g x)"
  "(\<And>x y. steps (h x y)) \<Longrightarrow> steps (case q of (x, y) \<Rightarrow> h x y)"
  "steps n \<Longrightarrow> (\<And>x xs. steps (l x xs)) \<Longrightarrow> steps (case ys of [] \<Rightarrow> n | x # xs \<Rightarrow> l x xs)"
  by (auto split: option.splits prod.splits list.splits)

lemma steps_values [vsteps]:
  "steps n \<Longrightarrow> (\<And>i. steps (a i)) \<Longrightarrow> (\<And>x. steps (b x)) \<Longrightarrow> (\<And>s. steps (c s)) \<Longrightarrow> (\<And>r. steps (d r)) \<Longrightarrow>
   steps (case v of WNone \<Rightarrow> n | WInt i \<Rightarrow> a i | WFloat x \<Rightarrow> b x | WStr s \<Rightarrow> c s | WRef r \<Rightarrow> d r)"
  by (cases v) auto

lemma steps_pyvalues [vsteps]:
  "steps n \<Longrightarrow> (\<And>i. steps (a i)) \<Longrightarrow> (\<And>x. steps (b x)) \<Longrightarrow> (\<And>s. steps (c s)) \<Longrightarrow> (\<And>r. steps (d r)) \<Longrightarrow>
   (\<And>r. steps (e r)) \<Longrightarrow>
   steps (case v of VNone \<Rightarrow> n | VInt i \<Rightarrow> a i | VFloat x \<Rightarrow> b x | VStr s \<Rightarrow> c s | VList r \<Rightarrow> d r | VDict r \<Rightarrow> e r)"
  by (cases v) auto

lemma steps_exceptions [vsteps]:
  "(\<And>i. steps (a i)) \<Longrightarrow> (\<And>x. steps (b x)) \<Longrightarrow> steps c \<Longrightarrow> steps d \<Longrightarrow> steps n \<Longrightarrow> steps u \<Longrightarrow>
   steps (case v of Raised i \<Rightarrow> a i | Returned x \<Rightarrow> b x | Broke \<Rightarrow> c | Continued \<Rightarrow> d
          | OutOfFuel \<Rightarrow> n | Unmodelled \<Rightarrow> u)"
  by (cases v) auto

lemma steps_exprs [vsteps]:
  "(\<And>i. steps (a i)) \<Longrightarrow> (\<And>x. steps (b x)) \<Longrightarrow> (\<And>x y. steps (c x y)) \<Longrightarrow> (\<And>x y z. steps (d x y z)) \<Longrightarrow>
   steps (case v of EName i \<Rightarrow> a i | ESlot x \<Rightarrow> b x | EConst x y \<Rightarrow> c x y | EOp x y z \<Rightarrow> d x y z)"
  by (cases v) auto

lemma steps_let [vsteps]: "(\<And>x. steps (g x)) \<Longrightarrow> steps (Let v g)"
  by simp

lemma steps_seq [vsteps]: "list_all steps ms \<Longrightarrow> steps (vseq ms)"
  by (induction ms) (auto intro!: vsteps)

lemma steps_for [vsteps]: "(\<And>x. steps (g x)) \<Longrightarrow> steps (vfor g xs)"
  by (induction xs) (auto intro!: vsteps)

lemma steps_modify [vsteps]:
  "steps (vmodify (alloc_slot_st f n v t))"
  "steps (vmodify (\<lambda>st. st\<lparr>vm_lists := vm_lists st @ [xs]\<rparr>))"
  "steps (vmodify (\<lambda>st. st\<lparr>vm_lists := (vm_lists st)[r := xs]\<rparr>))"
  "steps (vmodify (\<lambda>st. st\<lparr>vm_frames := vm_frames st @ [[]]\<rparr>))"
  "steps (vmodify (\<lambda>st. st\<lparr>vm_output := vm_output st @ lines\<rparr>))"
  "steps (vmodify (\<lambda>st. st\<lparr>vm_trace := vm_trace st @ [row]\<rparr>))"
  "steps (vmodify (\<lambda>st. st\<lparr>vm_capped := True\<rparr>))"
  by (simp_all add: steps_def vmodify_def R_alloc_slot R_lists R_list_set R_frame R_output R_trace R_capped)

subsection \<open>The memory\<close>

lemma steps_conversions [vsteps]:
  "steps (of_pyval p)" "steps (vm_int v)" "steps (vm_apply2 g a b)" "steps (new_list xs)"
  unfolding of_pyval_def vm_int_def vm_apply2_def new_list_def by (intro vsteps)+

lemma steps_store [vsteps]: "steps (vm_store v)"
proof (induction v)
  case (VList xs)
  then have "list_all steps (map vm_store xs)" by (simp add: list_all_iff)
  then show ?case by (simp add: vsteps)
qed (auto simp: vsteps)

lemma steps_frames [vsteps]:
  "steps (in_frame f n)" "steps (slot_of f n)" "steps (fget f n)" "steps (faddr f n)"
  "steps (fget_type f n)" "steps new_frame" "steps (alloc_stack_slot f n v t)"
  "steps (list_assign r i v)" "steps (copy_value v)"
  unfolding in_frame_def slot_of_def fget_def faddr_def fget_type_def new_frame_def alloc_stack_slot_def
    list_assign_def copy_value_def
  by (intro vsteps)+

lemma steps_write_slot [vsteps]: "steps (write_slot f n v)"
  unfolding steps_def write_slot_def slot_of_def act_defs
  by (auto simp: R_refl vthrow_def vret_def intro!: R_put_slot split: option.splits)

lemma steps_set_slot [vsteps]: "steps (set_slot f n v t)"
  unfolding set_slot_def by (intro vsteps)

lemma R_put_cells: "R st (put_cells (vm_heap_counter st) cells st)"
proof -
  have "R st (st\<lparr>vm_heap := fold (\<lambda>(i, c). dict_set (vm_heap_counter st + int i) c) ics (vm_heap st)\<rparr>)" for ics
  proof (induction ics rule: rev_induct)
    case Nil
    then show ?case by (simp add: R_refl)
  next
    case (snoc x ics)
    then show ?case using R_new_cell [OF snoc] by (cases x) (auto simp: put_cell_def)
  qed
  then show ?thesis by (simp add: put_cells_def)
qed

lemma steps_alloc_cells [vsteps]: "steps (alloc_cells cells)"
  unfolding steps_def alloc_cells_def act_defs using R_counter [OF R_put_cells] by simp

lemma steps_allocs [vsteps]: "steps (alloc_heap n t)" "steps (intern_string s)"
  unfolding alloc_heap_def intern_string_def by (intro vsteps)+

text \<open>Converting a list starts and ends at the counter of its first state.\<close>

lemma list_to_heap_counter: "fst (list_to_heap d v t st) = Inr a \<Longrightarrow> a = vm_heap_counter st"
proof (cases d)
  case (Suc k)
  assume "fst (list_to_heap d v t st) = Inr a"
  then show ?thesis using Suc by (auto simp: act_defs split: prod.splits sum.splits)
qed (simp add: act_defs)

lemma steps_list_to_heap [vsteps]: "steps (list_to_heap d v t)"
proof (induction d arbitrary: v)
  case 0
  show ?case by (simp add: vsteps)
next
  case (Suc d)
  note IH = stepsD [OF Suc.IH]
  have loop: "R st0 st \<Longrightarrow> R st0 (snd (vfor (\<lambda>(i, item).
       case item of
         WRef r \<Rightarrow> vbind (list_to_heap d item t) (\<lambda>sub_base.
             vmodify (put_cell (vm_heap_counter st0 + int i) (WInt sub_base) (t @ ''*'')))
       | _ \<Rightarrow> vmodify (put_cell (vm_heap_counter st0 + int i) item t)) items st))" for st0 st items
  proof (induction items arbitrary: st)
    case Nil
    then show ?case by (simp add: vret_def)
  next
    case (Cons p items)
    obtain i item where p: "p = (i, item)" by force
    show ?case
    proof (cases "\<exists>r. item = WRef r")
      case True
      then obtain r where r: "item = WRef r" by blast
      obtain res st1 where s: "list_to_heap d item t st = (res, st1)" by force
      have R1: "R st0 st1" using R_trans [OF Cons.prems IH [of st item]] s by simp
      show ?thesis
      proof (cases res)
        case (Inl e)
        then show ?thesis using s p r R1 by (simp add: act_defs)
      next
        case (Inr b)
        have "R st0 (put_cell (vm_heap_counter st0 + int i) (WInt b) (t @ ''*'') st1)"
          by (rule R_new_cell [OF R1])
        from Cons.IH [OF this] show ?thesis using s p r Inr by (simp add: act_defs)
      qed
    next
      case False
      have "R st0 (put_cell (vm_heap_counter st0 + int i) item t st)" by (rule R_new_cell [OF Cons.prems])
      from Cons.IH [OF this] show ?thesis using p False by (cases item) (auto simp: act_defs)
    qed
  qed
  show ?case
    unfolding steps_def
  proof
    fix st
    show "R st (snd (list_to_heap (Suc d) v t st))"
      using loop [OF R_refl, of st "enumerate 0 (case v of WRef r \<Rightarrow> list_at (vm_lists st) r | _ \<Rightarrow> [])"]
      by (auto simp: act_defs split: prod.splits sum.splits intro: R_counter)
  qed
qed

lemma steps_list_to_heap_any [vsteps]: "steps (list_to_heap_any v t)"
  unfolding list_to_heap_any_def by (intro vsteps)

lemma steps_heap_read [vsteps]: "steps (heap_read v)"
  unfolding heap_read_def by (intro vsteps)

lemma steps_heap_write [vsteps]: "steps (heap_write a v)"
proof -
  have cell: "steps (vbind (vasks (\<lambda>st. dict_get (vm_heap st) k)) (\<lambda>cell.
      case cell of Some (old, ty) \<Rightarrow> vmodify (put_cell k v ty) | None \<Rightarrow> m))" if "steps m" for k and m :: "unit act"
    using that unfolding steps_def act_defs
    by (auto simp: vmodify_def intro!: R_put_cell split: option.splits)
  show ?thesis unfolding heap_write_def by (intro vsteps cell)
qed

lemma steps_snap [vsteps]: "steps (snap_names ns f acc)" "steps (vm_snap ns f)" "steps (snap_stmt stm f)"
proof -
  show "steps (snap_names ns f acc)" for ns acc by (induction ns arbitrary: acc) (auto intro!: vsteps)
  then show "steps (vm_snap ns f)" for ns by (simp add: vm_snap_def)
  then show "steps (snap_stmt stm f)" by (simp add: snap_stmt_def)
qed

subsection \<open>Expressions\<close>

lemma steps_arg [vsteps]: "list_all steps evs \<Longrightarrow> steps (arg_eval evs i)" "steps (arg_node args i)"
  unfolding arg_eval_def arg_node_def by (auto simp: list_all_length intro!: vsteps)

lemma steps_ev [vsteps]: "steps e \<Longrightarrow> steps (ev_val e)" "steps m \<Longrightarrow> steps (ev_of m)"
  unfolding ev_val_def ev_of_def by (intro vsteps; assumption)+

lemma steps_names [vsteps]: "steps (eval_name f scope n)" "steps (eval_slot f scope s)"
proof -
  have "steps (first_in_frame f cs s)" for cs by (induction cs) (auto intro!: vsteps)
  then show "steps (eval_slot f scope s)" unfolding eval_slot_def by (intro vsteps)
  show "steps (eval_name f scope n)" unfolding eval_name_def by (intro vsteps)
qed

lemma steps_ops [vsteps]:
  "steps (eval_addr_of f scope args)" "steps (eval_field f scope args at)"
  "steps (kernel_apply lib op at vs)" "steps (promote v w)"
  unfolding eval_addr_of_def eval_field_def promote_def by (intro vsteps)+
    (auto simp: kernel_apply_def intro!: vsteps split: bool.splits)

lemma steps_evs_ops [vsteps]:
  assumes "list_all steps evs"
  shows "steps (eval_deref evs)" "steps (eval_index evs args)" "steps (eval_incdec f scope op args evs)"
    "steps (eval_kernel lib op at evs)" "steps rest \<Longrightarrow> steps (eval_pointer_arith op evs rest)"
    "steps (int_arg evs i k)" "steps (int_arg1 evs i)"
  unfolding eval_deref_def eval_index_def eval_incdec_def eval_kernel_def eval_pointer_arith_def
    int_arg_def int_arg1_def
  using assms by (auto simp: list_all_length intro!: vsteps)

lemma steps_loops [vsteps]:
  "steps (strlen_loop k a n)" "steps (strcpy_loop k a b)" "steps (strcmp_loop k a b)"
  "steps (memset_range a v n)" "steps (memcpy_range a b n)"
proof -
  show "steps (strlen_loop k a n)" by (induction k arbitrary: n) (auto intro!: vsteps)
  show "steps (strcpy_loop k a b)" by (induction k arbitrary: a b) (auto intro!: vsteps)
  show "steps (strcmp_loop k a b)" by (induction k arbitrary: a b) (auto intro!: vsteps)
  show "steps (memset_range a v n)" "steps (memcpy_range a b n)"
    unfolding memset_range_def memcpy_range_def by (intro vsteps)+
qed

lemma steps_printf [vsteps]: "steps (mock_printf lib vs)"
proof -
  have chr: "steps (vm_chr v)" for v unfolding vm_chr_def by (intro vsteps)
  have read: "steps (read_chars k cap a i)" for k cap a i
    by (induction k arbitrary: i) (auto intro!: vsteps chr)
  have str: "steps (vm_str lib v)" for lib v unfolding vm_str_def by (intro vsteps)
  have spec: "steps (format_spec lib c v)" for lib c v
    unfolding format_spec_def read_cstr_def by (intro vsteps chr read str)
  have fmt: "steps (format_from lib s vs)" for s vs
    by (induction lib s vs rule: format_from.induct) (auto intro!: vsteps spec)
  show ?thesis unfolding mock_printf_def read_cstr_def by (intro vsteps read str fmt)
qed

lemma steps_bind_param [vsteps]:
  assumes "case p of (lp, a, ev) \<Rightarrow> steps ev"
  shows "steps (bind_param af f scope p)"
proof -
  obtain lp a ev where p: "p = (lp, a, ev)" by (cases p)
  have fld: "steps (bind_field af f x y)" for x y
    unfolding bind_field_def after_dot_def by (intro vsteps)
  have plain: "steps (bind_plain af x y ev)" for x y
    using assms p unfolding bind_plain_def vcatch_all_def by (auto intro!: vsteps)
  show ?thesis using p unfolding bind_param_def by (cases lp) (auto intro!: vsteps fld plain)
qed

lemma steps_for_in: "(\<And>x. x \<in> set xs \<Longrightarrow> steps (g x)) \<Longrightarrow> steps (vfor g xs)"
  by (induction xs) (auto intro!: vsteps)

lemma steps_call_user:
  assumes "\<And>s f i. steps (run s f i)" "list_all steps evs"
  shows "steps (call_user run target f scope args evs)"
proof -
  have params: "steps (vfor (bind_param af f scope) (zip lps (zip args evs)))" for af lps
    using assms(2) by (intro steps_for_in vsteps) (auto simp: list_all_iff dest!: set_zip_rightD)
  show ?thesis
    unfolding call_user_def vcatch_return_def
    by (rule steps_bind, rule steps_frames, rule steps_bind, rule params, intro vsteps assms(1))
qed

lemma steps_eval_call:
  assumes "\<And>s f i. steps (run s f i)" "list_all steps evs"
  shows "steps (eval_call P run f scope at args evs)"
proof -
  have vals: "list_all steps (map ev_val evs)" using assms(2) by (simp add: list_all_iff vsteps)
  show ?thesis
    unfolding eval_call_def ret_int_def Let_def
    by (intro vsteps vals assms steps_call_user)
qed

lemma steps_eval:
  assumes "\<And>s f i. steps (run s f i)"
  shows "steps (vm_eval P run f scope e)"
proof (induction e)
  case (EOp op args at)
  then have evs: "list_all steps (map (vm_eval P run f scope) args)" by (simp add: list_all_iff)
  show ?case
    unfolding vm_eval.simps eval_op_def by (intro vsteps steps_eval_call assms evs)
qed (simp_all add: vsteps)

lemma steps_eval_expr:
  "(\<And>s f i. steps (run s f i)) \<Longrightarrow> steps (eval_expr P run f scope e)"
  unfolding eval_expr_def by (intro vsteps steps_eval)

subsection \<open>Statements\<close>

lemma steps_record [vsteps]: "steps (vm_record P stm seg it reads writes b dr dw)"
  unfolding vm_record_def by (intro vsteps)

lemma steps_inits [vsteps]:
  "steps (exec_struct_init P stm f seg it l reads flds vals)"
  "steps (exec_array_init P stm f seg it l reads vals)"
  "steps (exec_incdec P stm f seg it l)" "steps (exec_decl_only P stm f seg it l)"
  "steps (promote_value b t v)"
  unfolding exec_struct_init_def init_field_def exec_array_init_def exec_incdec_def exec_incdec_name_def
    exec_incdec_deref_def exec_decl_only_def promote_value_def
  by (intro vsteps)+

lemma steps_decl_assign:
  assumes "\<And>s f i. steps (run s f i)"
  shows "steps (exec_decl_assign P run stm f scope seg it)"
  unfolding exec_decl_assign_def exec_deref_write_def exec_assign_def
  by (intro vsteps steps_eval steps_eval_expr assms)

lemma steps_guarded: "steps m \<Longrightarrow> steps (guarded P m)"
  unfolding guarded_def vcatch_all_def by (intro vsteps)

lemma steps_expr_stmt:
  assumes "\<And>s f i. steps (run s f i)"
  shows "steps (exec_expr_stmt P run stm f scope seg it)"
  unfolding exec_expr_stmt_def write_double_deref_def write_deref_def write_index_def
  by (intro vsteps steps_guarded steps_eval_expr assms)

lemma steps_simple_stmts:
  assumes "\<And>s f i. steps (run s f i)"
  shows "steps (exec_control P run stm f scope seg it)" "steps (exec_call_stmt P run stm f scope seg it)"
proof -
  have evs: "list_all steps (map (vm_eval P run f scope) args)" for args
    by (simp add: list_all_iff steps_eval assms)
  show "steps (exec_control P run stm f scope seg it)" "steps (exec_call_stmt P run stm f scope seg it)"
    unfolding exec_control_def exec_call_stmt_def
    by (intro vsteps steps_eval_expr steps_eval_call evs assms)+
qed

lemma steps_branch:
  assumes "\<And>s f i. steps (run s f i)"
  shows "steps (exec_branch P run stm f scope seg kids it)"
  unfolding exec_branch_def seg_of_id_def by (intro vsteps steps_eval_expr assms)

lemma steps_rounds:
  assumes "\<And>s f i. steps (run s f i)"
  shows "steps (do_rounds n P run stm body f scope parent i)"
    "steps (while_rounds n P run stm body u f scope parent i)"
proof -
  have cond: "steps (loop_cond P run stm f scope parent i)" for i
    unfolding loop_cond_def by (intro vsteps steps_eval_expr assms)
  have body: "steps (loop_body run body f i)" for i
    unfolding loop_body_def by (intro vsteps assms)
  have capped: "steps set_capped" unfolding set_capped_def by (intro vsteps)
  have update: "steps (exec_update P run src f scope)" for src
    unfolding exec_update_def step_name_def by (intro vsteps steps_eval assms)
  show "steps (do_rounds n P run stm body f scope parent i)"
    by (induction n arbitrary: i) (auto intro!: vsteps cond body capped)
  show "steps (while_rounds n P run stm body u f scope parent i)"
    by (induction n arbitrary: i) (auto intro!: vsteps cond body capped update)
qed

lemma steps_stmt:
  assumes "\<And>s f i. steps (run s f i)"
  shows "steps (exec_stmt P run seg f it stm kids)"
  unfolding exec_stmt_def exec_loop_def init_loop_def seg_of_id_def
  by (intro vsteps steps_decl_assign steps_simple_stmts steps_branch steps_expr_stmt steps_rounds assms)

lemma steps_seg: "steps (exec_seg fuel P seg f it)"
proof (induction fuel arbitrary: seg f it)
  case (Suc fuel)
  have "steps (exec_stmts P (exec_seg fuel P) seg f it stms kids)" for stms kids
    by (induction stms arbitrary: kids) (auto intro!: vsteps steps_stmt Suc)
  then show ?case by simp
qed (simp add: vsteps)

lemma steps_call_fn: "steps (call_fn fuel P fn args)"
  unfolding call_fn_def bind_arg_def vcatch_return_def by (intro vsteps steps_seg)

end

end
