(* ===== verification/VmMemory.thy ===== *)
theory VmMemory
  imports VmSteps
begin

text \<open>
  The invariants of the virtual machine: the output and the trace only grow, frames, names and
  addresses are never dropped, and the address map and the frames describe the same slots. The last
  section shows what the consistency is for: a pointer to a variable reads and writes that variable.
\<close>

section \<open>The history\<close>

definition history_grows :: "vm \<Rightarrow> vm \<Rightarrow> bool" where
  "history_grows st st' \<longleftrightarrow>
     prefix (vm_output st) (vm_output st') \<and> prefix (vm_trace st) (vm_trace st')
     \<and> (vm_capped st \<longrightarrow> vm_capped st')"

lemma put_slot_fields [simp]:
  "vm_output (put_slot f n d st) = vm_output st" "vm_trace (put_slot f n d st) = vm_trace st"
  "vm_capped (put_slot f n d st) = vm_capped st" "vm_stack_counter (put_slot f n d st) = vm_stack_counter st"
  "vm_heap_counter (put_slot f n d st) = vm_heap_counter st" "vm_heap (put_slot f n d st) = vm_heap st"
  "vm_addr_map (put_slot f n d st) = vm_addr_map st" "vm_lists (put_slot f n d st) = vm_lists st"
  "length (vm_frames (put_slot f n d st)) = length (vm_frames st)"
  by (simp_all add: put_slot_def)

lemma put_cell_fields [simp]:
  "vm_output (put_cell a v t st) = vm_output st" "vm_trace (put_cell a v t st) = vm_trace st"
  "vm_capped (put_cell a v t st) = vm_capped st" "vm_stack_counter (put_cell a v t st) = vm_stack_counter st"
  "vm_heap_counter (put_cell a v t st) = vm_heap_counter st" "vm_frames (put_cell a v t st) = vm_frames st"
  "vm_addr_map (put_cell a v t st) = vm_addr_map st" "vm_lists (put_cell a v t st) = vm_lists st"
  "vm_heap (put_cell a v t st) = dict_set a (v, t) (vm_heap st)"
  by (simp_all add: put_cell_def)

lemma alloc_slot_fields [simp]:
  "vm_output (alloc_slot_st f n v t st) = vm_output st" "vm_trace (alloc_slot_st f n v t st) = vm_trace st"
  "vm_capped (alloc_slot_st f n v t st) = vm_capped st" "vm_heap (alloc_slot_st f n v t st) = vm_heap st"
  "vm_heap_counter (alloc_slot_st f n v t st) = vm_heap_counter st"
  "vm_stack_counter (alloc_slot_st f n v t st) = vm_stack_counter st + 1"
  "vm_addr_map (alloc_slot_st f n v t st) = dict_set (vm_stack_counter st) (f, n) (vm_addr_map st)"
  "vm_lists (alloc_slot_st f n v t st) = vm_lists st"
  "length (vm_frames (alloc_slot_st f n v t st)) = length (vm_frames st)"
  by (simp_all add: alloc_slot_st_def Let_def)

interpretation hist: vm_relation history_grows
  by unfold_locales (auto simp: history_grows_def)

section \<open>The stores\<close>

lemma frame_at_put_slot:
  "frame_at (put_slot f n d st) g =
     (if g = f \<and> f < length (vm_frames st) then dict_set n d (frame_at st f) else frame_at st g)"
  by (simp add: frame_at_def put_slot_def)

lemma frame_at_other [simp]:
  "frame_at (st\<lparr>vm_stack_counter := c\<rparr>) f = frame_at st f"
  "frame_at (st\<lparr>vm_addr_map := m\<rparr>) f = frame_at st f"
  "frame_at (st\<lparr>vm_lists := ls\<rparr>) f = frame_at st f"
  "frame_at (st\<lparr>vm_heap_counter := c\<rparr>) f = frame_at st f"
  "frame_at (st\<lparr>vm_output := out\<rparr>) f = frame_at st f"
  "frame_at (st\<lparr>vm_trace := tr\<rparr>) f = frame_at st f"
  "frame_at (st\<lparr>vm_capped := b\<rparr>) f = frame_at st f"
  "frame_at (put_cell a v t st) f = frame_at st f"
  "frame_at (st\<lparr>vm_frames := vm_frames st @ [[]]\<rparr>) f = frame_at st f"
  by (auto simp: frame_at_def put_cell_def nth_append)

lemma frame_at_alloc:
  "frame_at (alloc_slot_st f n v t st) g =
     (if g = f \<and> f < length (vm_frames st)
      then dict_set n \<lparr>vs_addr = vm_stack_counter st, vs_value = v, vs_type = t\<rparr> (frame_at st f)
      else frame_at st g)"
  by (simp add: alloc_slot_st_def frame_at_put_slot Let_def)

text \<open>Every name of a frame, every address and every object stays.\<close>

definition stores_grow :: "vm \<Rightarrow> vm \<Rightarrow> bool" where
  "stores_grow st st' \<longleftrightarrow>
     length (vm_frames st) \<le> length (vm_frames st') \<and> length (vm_lists st) \<le> length (vm_lists st')
     \<and> vm_stack_counter st \<le> vm_stack_counter st'
     \<and> (\<forall>f n. dict_get (frame_at st f) n \<noteq> None \<longrightarrow> dict_get (frame_at st' f) n \<noteq> None)
     \<and> (\<forall>a. dict_get (vm_heap st) a \<noteq> None \<longrightarrow> dict_get (vm_heap st') a \<noteq> None)
     \<and> (\<forall>a. dict_get (vm_addr_map st) a \<noteq> None \<longrightarrow> dict_get (vm_addr_map st') a \<noteq> None)"

interpretation stores: vm_relation stores_grow
  by unfold_locales
    (auto simp: stores_grow_def frame_at_alloc frame_at_put_slot pydict.lookup_insert split: if_splits)

section \<open>Consistency of the memory\<close>

text \<open>
  A slot of a frame has an address of the stack that the address map takes back to it, every address of
  the map is in use, and the heap lies above the stack's starting half of the address space.
\<close>

definition slots_mapped :: "vm \<Rightarrow> bool" where
  "slots_mapped st \<longleftrightarrow>
     (\<forall>f n d. dict_get (frame_at st f) n = Some d \<longrightarrow> dict_get (vm_addr_map st) (vs_addr d) = Some (f, n))"

definition addresses_used :: "vm \<Rightarrow> bool" where
  "addresses_used st \<longleftrightarrow>
     0x1000 \<le> vm_stack_counter st
     \<and> (\<forall>a. dict_get (vm_addr_map st) a \<noteq> None \<longrightarrow> 0x1000 \<le> a \<and> a < vm_stack_counter st)"

definition heap_above :: "vm \<Rightarrow> bool" where
  "heap_above st \<longleftrightarrow>
     0x80000000 \<le> vm_heap_counter st \<and> (\<forall>a. dict_get (vm_heap st) a \<noteq> None \<longrightarrow> 0x80000000 \<le> a)"

definition memory_wf :: "vm \<Rightarrow> bool" where
  "memory_wf st \<longleftrightarrow> slots_mapped st \<and> addresses_used st \<and> heap_above st"

definition keeps_memory :: "vm \<Rightarrow> vm \<Rightarrow> bool" where
  "keeps_memory st st' \<longleftrightarrow> (memory_wf st \<longrightarrow> memory_wf st')"

lemma keeps_memoryI:
  assumes "slots_mapped st \<Longrightarrow> addresses_used st \<Longrightarrow> slots_mapped st'"
    "addresses_used st \<Longrightarrow> addresses_used st'" "heap_above st \<Longrightarrow> heap_above st'"
  shows "keeps_memory st st'"
  using assms by (simp add: keeps_memory_def memory_wf_def)

text \<open>Updates of other parts of the state do not matter.\<close>

lemma keeps_memory_other:
  assumes "\<And>f. frame_at st' f = frame_at st f" "vm_stack_counter st' = vm_stack_counter st"
    "vm_addr_map st' = vm_addr_map st" "heap_above st \<Longrightarrow> heap_above st'"
  shows "keeps_memory st st'"
  using assms by (intro keeps_memoryI) (simp_all add: slots_mapped_def addresses_used_def)

lemma keeps_memory_alloc: "keeps_memory st (alloc_slot_st f n v t st)"
proof (rule keeps_memoryI)
  assume s: "slots_mapped st" and u: "addresses_used st"
  show "slots_mapped (alloc_slot_st f n v t st)"
    unfolding slots_mapped_def
  proof (intro allI impI)
    fix g m d
    assume d: "dict_get (frame_at (alloc_slot_st f n v t st) g) m = Some d"
    then consider "vs_addr d = vm_stack_counter st" "g = f" "m = n" | "dict_get (frame_at st g) m = Some d"
      by (auto simp: frame_at_alloc pydict.lookup_insert split: if_splits)
    then show "dict_get (vm_addr_map (alloc_slot_st f n v t st)) (vs_addr d) = Some (g, m)"
    proof cases
      case 2
      then have a: "dict_get (vm_addr_map st) (vs_addr d) = Some (g, m)" using s by (simp add: slots_mapped_def)
      then have "vs_addr d < vm_stack_counter st" using u by (simp add: addresses_used_def)
      with a show ?thesis by (simp add: pydict.lookup_insert)
    qed (simp add: pydict.lookup_insert)
  qed
next
  assume u: "addresses_used st"
  then have "a < vm_stack_counter st + 1" if "dict_get (vm_addr_map st) a \<noteq> None" for a
    using that unfolding addresses_used_def by fastforce
  with u show "addresses_used (alloc_slot_st f n v t st)"
    by (simp add: addresses_used_def pydict.lookup_insert)
qed (simp add: heap_above_def)

lemma keeps_memory_put_slot:
  assumes "dict_get (frame_at st f) n = Some d"
  shows "keeps_memory st (put_slot f n (d\<lparr>vs_value := v\<rparr>) st)"
proof (rule keeps_memoryI)
  assume s: "slots_mapped st"
  show "slots_mapped (put_slot f n (d\<lparr>vs_value := v\<rparr>) st)"
    unfolding slots_mapped_def
  proof (intro allI impI)
    fix g m e
    assume "dict_get (frame_at (put_slot f n (d\<lparr>vs_value := v\<rparr>) st) g) m = Some e"
    then obtain e' where e': "dict_get (frame_at st g) m = Some e'" "vs_addr e' = vs_addr e"
      using assms by (auto simp: frame_at_put_slot pydict.lookup_insert split: if_splits)
    from s e'(1) have "dict_get (vm_addr_map st) (vs_addr e') = Some (g, m)" by (simp add: slots_mapped_def)
    then show "dict_get (vm_addr_map (put_slot f n (d\<lparr>vs_value := v\<rparr>) st)) (vs_addr e) = Some (g, m)"
      using e'(2) by simp
  qed
qed (simp_all add: addresses_used_def heap_above_def)

lemma keeps_memory_trans: "keeps_memory st st' \<Longrightarrow> keeps_memory st' st'' \<Longrightarrow> keeps_memory st st''"
  by (simp add: keeps_memory_def)

lemma heap_above_new_cell:
  "heap_above st \<Longrightarrow> heap_above st' \<Longrightarrow> heap_above (put_cell (vm_heap_counter st + int i) v t st')"
  by (auto simp: heap_above_def pydict.lookup_insert)

lemma keeps_memory_new_cell:
  assumes "keeps_memory st st'"
  shows "keeps_memory st (put_cell (vm_heap_counter st + int i) v t st')"
  unfolding keeps_memory_def
proof
  assume m: "memory_wf st"
  then have m': "memory_wf st'" using assms by (simp add: keeps_memory_def)
  from m m' have "heap_above (put_cell (vm_heap_counter st + int i) v t st')"
    unfolding memory_wf_def by (blast intro: heap_above_new_cell)
  with m' show "memory_wf (put_cell (vm_heap_counter st + int i) v t st')"
    by (simp add: memory_wf_def slots_mapped_def addresses_used_def)
qed

lemma keeps_memory_counter:
  assumes "keeps_memory st st'"
  shows "keeps_memory st (st'\<lparr>vm_heap_counter := vm_heap_counter st + int len\<rparr>)"
  unfolding keeps_memory_def
proof
  assume m: "memory_wf st"
  then have m': "memory_wf st'" using assms by (simp add: keeps_memory_def)
  from m have "0x80000000 \<le> vm_heap_counter st" by (simp add: memory_wf_def heap_above_def)
  with m' show "memory_wf (st'\<lparr>vm_heap_counter := vm_heap_counter st + int len\<rparr>)"
    by (simp add: memory_wf_def slots_mapped_def addresses_used_def heap_above_def)
qed

lemma keeps_memory_put_cell:
  assumes "dict_get (vm_heap st) a = Some (old, t)"
  shows "keeps_memory st (put_cell a v t st)"
proof (rule keeps_memory_other)
  assume "heap_above st"
  then show "heap_above (put_cell a v t st)"
    using assms by (simp add: heap_above_def pydict.lookup_insert)
qed simp_all

lemma keeps_memory_rest:
  "keeps_memory st st"
  "keeps_memory st (st\<lparr>vm_lists := ls\<rparr>)"
  "keeps_memory st (st\<lparr>vm_frames := vm_frames st @ [[]]\<rparr>)"
  "keeps_memory st (st\<lparr>vm_output := out\<rparr>)"
  "keeps_memory st (st\<lparr>vm_trace := tr\<rparr>)"
  "keeps_memory st (st\<lparr>vm_capped := True\<rparr>)"
  by (rule keeps_memory_other; simp add: heap_above_def)+

interpretation mem: vm_relation keeps_memory
  by (unfold_locales; (rule keeps_memory_rest keeps_memory_alloc keeps_memory_put_slot
      keeps_memory_put_cell keeps_memory_new_cell keeps_memory_counter | erule (1) keeps_memory_trans);
      assumption?)

section \<open>What a run keeps\<close>

lemma memory_wf_start: "memory_wf vm_start"
  by (simp add: memory_wf_def slots_mapped_def addresses_used_def heap_above_def vm_start_def frame_at_def)

text \<open>
  C23. Whatever a call does, and also when it ends with an exception: the output and the trace from
  before stay at the front of the new ones, the flag of capped loops stays set, no frame, variable,
  address or list is dropped, and, from the start state, every slot of every frame has its own address
  in the stack range, which the address map takes back to that slot.
\<close>
theorem calls_keep_history_and_memory:
  "history_grows st (snd (call_fn fuel P fn args st)) \<and> stores_grow st (snd (call_fn fuel P fn args st))
   \<and> memory_wf (snd (call_fn fuel P fn args vm_start))"
proof (intro conjI)
  show "history_grows st (snd (call_fn fuel P fn args st))" by (rule hist.stepsD [OF hist.steps_call_fn])
  show "stores_grow st (snd (call_fn fuel P fn args st))" by (rule stores.stepsD [OF stores.steps_call_fn])
  show "memory_wf (snd (call_fn fuel P fn args vm_start))"
    using mem.stepsD [OF mem.steps_call_fn, of vm_start fuel P fn args] memory_wf_start
    by (simp add: keeps_memory_def)
qed

section \<open>Pointers to variables\<close>

text \<open>Below the heap an address of the stack is never taken for one of the heap.\<close>

lemma stack_address:
  assumes "memory_wf st" "vm_stack_counter st \<le> 0x80000000" "dict_get (frame_at st f) n = Some d"
  shows "vs_addr d \<noteq> 0" "dict_get (vm_heap st) (vs_addr d) = None"
    "dict_get (vm_addr_map st) (vs_addr d) = Some (f, n)"
proof -
  show m: "dict_get (vm_addr_map st) (vs_addr d) = Some (f, n)"
    using assms(1,3) by (simp add: memory_wf_def slots_mapped_def)
  then have r: "0x1000 \<le> vs_addr d" "vs_addr d < vm_stack_counter st"
    using assms(1) by (simp_all add: memory_wf_def addresses_used_def)
  then show "vs_addr d \<noteq> 0" by simp
  show "dict_get (vm_heap st) (vs_addr d) = None"
    using r assms(1,2) unfolding memory_wf_def heap_above_def by (meson leD less_le_trans)
qed

lemma vm_int_WInt [simp]: "vm_int (WInt i) st = (Inr i, st)"
  by (simp add: vm_int_def act_defs vm_pyval_def vlift_def py_int_def)

lemma heap_read_slot:
  assumes "memory_wf st" "vm_stack_counter st \<le> 0x80000000" "dict_get (frame_at st f) n = Some d"
  shows "heap_read (WInt (vs_addr d)) st = (Inr (vs_value d), st)"
  using stack_address [OF assms] assms(3)
  by (simp add: heap_read_def act_defs fget_def slot_of_def)

lemma heap_write_slot:
  assumes "memory_wf st" "vm_stack_counter st \<le> 0x80000000" "dict_get (frame_at st f) n = Some d"
  shows "heap_write (WInt (vs_addr d)) v st = write_slot f n v st"
  using stack_address [OF assms]
  by (simp add: heap_write_def act_defs is_zero_val_def addr_key_def)

text \<open>
  C25. Pointers to variables work: in a consistent memory \<open>&x\<close> evaluates to the address of the variable
  \<open>x\<close> of its frame; wherever an expression evaluates to this address, in the same function or in a
  callee, dereferencing it yields the value of \<open>x\<close> and records the access; and a write through the
  address is the assignment to \<open>x\<close>: afterwards \<open>x\<close> has the new value, and every other variable of every
  frame the old one.
\<close>
theorem pointer_to_variable:
  assumes "memory_wf st" "vm_stack_counter st \<le> 0x80000000" "dict_get (frame_at st f) x = Some d"
    "f < length (vm_frames st)" "x \<noteq> ''NULL''" "strip_scope x scope = x"
    "vm_eval P run g scope' e st = (Inr (WInt (vs_addr d), dr), st)"
  shows "vm_eval P run f scope (EOp ''addr_of'' [EName x] a) st = (Inr (WInt (vs_addr d), []), st)
    \<and> vm_eval P run g scope' (EOp ''deref'' [e] a') st
        = (Inr (vs_value d, dr @ [(WInt (vs_addr d), vs_value d)]), st)
    \<and> (\<exists>st'. heap_write (WInt (vs_addr d)) v st = (Inr (), st')
        \<and> fst (vm_eval P run f scope (EName x) st') = Inr (v, [])
        \<and> (\<forall>h y. (h, y) \<noteq> (f, x) \<longrightarrow> dict_get (frame_at st' h) y = dict_get (frame_at st h) y))"
proof (intro conjI)
  show "vm_eval P run f scope (EOp ''addr_of'' [EName x] a) st = (Inr (WInt (vs_addr d), []), st)"
    using assms(3,6)
    by (simp add: eval_op_def eval_addr_of_def arg_node_def node_ref_def ev_of_def in_frame_def faddr_def
        slot_of_def act_defs)
  show "vm_eval P run g scope' (EOp ''deref'' [e] a') st
      = (Inr (vs_value d, dr @ [(WInt (vs_addr d), vs_value d)]), st)"
    using heap_read_slot [OF assms(1-3)] assms(7)
    by (simp add: eval_op_def eval_deref_def arg_eval_def act_defs)
  let ?st' = "put_slot f x (d\<lparr>vs_value := v\<rparr>) st"
  have slot: "dict_get (frame_at ?st' f) x = Some (d\<lparr>vs_value := v\<rparr>)"
    using assms(4) by (simp add: frame_at_put_slot pydict.lookup_insert)
  have "heap_write (WInt (vs_addr d)) v st = (Inr (), ?st')"
    using heap_write_slot [OF assms(1-3)] assms(3) by (simp add: write_slot_def slot_of_def act_defs)
  moreover have "fst (vm_eval P run f scope (EName x) ?st') = Inr (v, [])"
    using slot assms(5) by (simp add: eval_name_def in_frame_def fget_def slot_of_def act_defs ev_of_def)
  moreover have "\<forall>h y. (h, y) \<noteq> (f, x) \<longrightarrow> dict_get (frame_at ?st' h) y = dict_get (frame_at st h) y"
    by (auto simp: frame_at_put_slot pydict.lookup_insert)
  ultimately show "\<exists>st'. heap_write (WInt (vs_addr d)) v st = (Inr (), st')
      \<and> fst (vm_eval P run f scope (EName x) st') = Inr (v, [])
      \<and> (\<forall>h y. (h, y) \<noteq> (f, x) \<longrightarrow> dict_get (frame_at st' h) y = dict_get (frame_at st h) y)"
    by blast
qed

text \<open>A frame 0 with \<open>x = 5\<close> and a frame 1 whose \<open>p\<close> points to it.\<close>

definition pointer_sample :: vm where
  "pointer_sample =
     alloc_slot_st 1 ''p'' (WInt 0x1000) ''int*''
       (alloc_slot_st 0 ''x'' (WInt 5) ''int'' (vm_start\<lparr>vm_frames := [[], []]\<rparr>))"

lemma pointer_sample_wf: "memory_wf pointer_sample"
proof -
  have "frame_at (vm_start\<lparr>vm_frames := [[], []]\<rparr>) f = []" for f
    by (cases f rule: nat.exhaust) (auto simp: frame_at_def less_Suc_eq)
  then have "memory_wf (vm_start\<lparr>vm_frames := [[], []]\<rparr>)"
    by (simp add: memory_wf_def slots_mapped_def addresses_used_def heap_above_def vm_start_def)
  then show ?thesis
    using keeps_memory_alloc unfolding pointer_sample_def keeps_memory_def by blast
qed

lemma pointer_sample_slots:
  "dict_get (frame_at pointer_sample 0) ''x''
      = Some \<lparr>vs_addr = 0x1000, vs_value = WInt 5, vs_type = ''int''\<rparr>"
  "dict_get (frame_at pointer_sample 1) ''p''
      = Some \<lparr>vs_addr = 0x1001, vs_value = WInt 0x1000, vs_type = ''int*''\<rparr>"
  "vm_stack_counter pointer_sample \<le> 0x80000000" "0 < length (vm_frames pointer_sample)"
  by (code_simp, code_simp, code_simp, code_simp)

lemma pointer_sample_p:
  "vm_eval P run 1 scope (EName ''p'') pointer_sample
     = (Inr (WInt (vs_addr \<lparr>vs_addr = 0x1000, vs_value = WInt 5, vs_type = ''int''\<rparr>), []), pointer_sample)"
  using pointer_sample_slots(2)
  by (simp add: eval_name_def in_frame_def fget_def slot_of_def act_defs ev_of_def)

theorem pointer_to_variable_witness:
  "\<forall>P run. vm_eval P run 1 ''root.g'' (EOp ''deref'' [EName ''p''] no_attrs) pointer_sample
      = (Inr (WInt 5, [(WInt 0x1000, WInt 5)]), pointer_sample)"
proof -
  have n: "''x'' \<noteq> ''NULL''" "strip_scope ''x'' ''root.f'' = ''x''" by code_simp+
  show ?thesis
    using pointer_to_variable [OF pointer_sample_wf pointer_sample_slots(3,1,4) n pointer_sample_p,
        where a' = no_attrs] by simp
qed

end
