(* ===== verification/VmPrograms.thy ===== *)
theory VmPrograms
  imports VmExec
begin

text \<open>
  Small programs in the intermediate representation, as the front end leaves them, and what the virtual
  machine does with them: the runs on which the machine leaves the meaning of C.
\<close>

section \<open>Programs by hand\<close>

definition mk_stmt :: "string \<Rightarrow> string \<Rightarrow> string option \<Rightarrow> string list \<Rightarrow> expr option \<Rightarrow> stmt" where
  "mk_stmt raw kind l rs e =
     \<lparr>st_raw = raw, st_kind = kind, st_l_name = l, st_r_names = rs, st_expr = e,
      st_type = (if kind = ''decl'' then Some ''int'' else None), st_iterator_type = None\<rparr>"

definition mk_seg :: "nat \<Rightarrow> nat \<Rightarrow> string \<Rightarrow> string \<Rightarrow> stmt list \<Rightarrow> segment" where
  "mk_seg i p ty nm ss =
     \<lparr>sg_id = i, sg_parent = p, sg_type = ty, sg_name = nm, sg_scope_path = ''root.'' @ nm,
      sg_head = None, sg_memory = [], sg_constants = [], sg_stmts = ss\<rparr>"

definition num :: "int \<Rightarrow> expr" where
  "num i = EConst (CInt i) ''int''"

definition op2 :: "string \<Rightarrow> expr \<Rightarrow> expr \<Rightarrow> expr" where
  "op2 op x y = EOp op [x, y] no_attrs"

definition set_x :: "int \<Rightarrow> stmt" where
  "set_x i = mk_stmt (''x = '' @ int_str i @ '';'') ''assign'' (Some ''x'') [] (Some (num i))"

definition decl_x :: "int \<Rightarrow> stmt" where
  "decl_x i = mk_stmt (''int x = '' @ int_str i @ '';'') ''decl'' (Some ''x'') [] (Some (num i))"

definition return_x :: stmt where
  "return_x = mk_stmt ''return x;'' ''control'' None [''x''] (Some (EName ''x''))"

definition main_segs :: "stmt list \<Rightarrow> segment list \<Rightarrow> segment list" where
  "main_segs ss rest = mk_seg 0 0 ''root'' ''root'' [] # mk_seg 1 0 ''function'' ''main'' ss # rest"

definition run_segs :: "nat \<Rightarrow> nat \<Rightarrow> segment list \<Rightarrow> (vm_exc + vval) \<times> string list \<times> bool" where
  "run_segs fuel unroll segs =
     (case vm_init sample_libm True unroll segs of
        Some (Inr P) \<Rightarrow> (case call_fn fuel P ''main'' [] vm_start of (r, st) \<Rightarrow> (r, vm_output st, vm_capped st))
      | _ \<Rightarrow> (Inl OutOfFuel, [], False))"

definition empty_prog :: vm_prog where
  "empty_prog =
     \<lparr>vp_by_id = [], vp_fns = [], vp_struct_fields = [], vp_struct_types = [], vp_children = [],
      vp_seg_fn = [], vp_max_unroll = 0, vp_lib = sample_libm, vp_importable = True\<rparr>"

section \<open>Branches and loops\<close>

text \<open>\<open>int x = 5; if (x > 3) { x = 1; } else { x = 2; } return x;\<close> returns 2: the \<open>else\<close> block always runs.\<close>

definition if_else_prog :: "segment list" where
  "if_else_prog = main_segs
     [decl_x 5, mk_stmt ''if (x > 3) {}'' ''branch'' None [''x''] (Some (op2 ''cmp_gt'' (EName ''x'') (num 3))),
      mk_stmt ''else {}'' ''branch'' None [] None, return_x]
     [mk_seg 2 1 ''branch'' ''b'' [set_x 1], mk_seg 3 1 ''branch'' ''c'' [set_x 2]]"

lemma else_always_runs: "run_segs 5 10 if_else_prog = (Inr (WInt 2), [], False)"
  by code_simp

text \<open>
  \<open>int x = 0; while (x < 5) { x++; switch (x) { ... break; } } return x;\<close> returns 1: the \<open>break\<close> of the
  \<open>switch\<close>, a block of its own, ends the loop around it.
\<close>

definition switch_prog :: "segment list" where
  "switch_prog = main_segs
     [decl_x 0, mk_stmt ''while (x < 5) {}'' ''loop_head'' None [''x''] (Some (op2 ''cmp_lt'' (EName ''x'') (num 5))),
      return_x]
     [mk_seg 2 1 ''loop'' ''l''
        [mk_stmt ''x++;'' ''assign'' (Some ''x'') [''x''] (Some (EOp ''post_inc'' [EName ''x''] no_attrs)),
         mk_stmt ''switch (x) {}'' ''branch'' None [''x''] (Some (EName ''x''))],
      mk_seg 3 2 ''branch'' ''s'' [mk_stmt ''break;'' ''control'' None [] None]]"

lemma break_leaves_the_loop: "run_segs 6 10 switch_prog = (Inr (WInt 1), [], False)"
  by code_simp

text \<open>A loop is cut off after \<open>max_unroll\<close> rounds, and the run goes on behind it.\<close>

lemma loops_are_capped: "run_segs 6 3 (main_segs
     [decl_x 0, mk_stmt ''while (x < 5) {}'' ''loop_head'' None [''x''] (Some (op2 ''cmp_lt'' (EName ''x'') (num 5))),
      return_x]
     [mk_seg 2 1 ''loop'' ''l'' [set_x 2]]) = (Inr (WInt 2), [], True)"
  by code_simp

section \<open>Calls\<close>

definition call0 :: "string \<Rightarrow> expr list \<Rightarrow> expr" where
  "call0 fn args = EOp ''call'' args (no_attrs\<lparr>a_fn := Some fn\<rparr>)"

text \<open>\<open>return g() + 1;\<close> prints twice what \<open>g\<close> prints: the operands of a sum are evaluated two times.\<close>

definition twice_prog :: "segment list" where
  "twice_prog = main_segs
     [mk_stmt ''return g() + 1;'' ''control'' None [] (Some (op2 ''add'' (call0 ''g'' []) (num 1)))]
     [mk_seg 2 0 ''function'' ''g''
        [mk_stmt ''printf(42);'' ''call'' None [] (Some (call0 ''printf'' [num 42])),
         mk_stmt ''return 7;'' ''control'' None [] (Some (num 7))]]"

lemma sums_call_twice: "run_segs 5 10 twice_prog = (Inr (WInt 8), [''42'', ''42''], False)"
  by code_simp

text \<open>
  \<open>printf\<close> with \<open>%ld\<close> and \<open>%d\<close> and the arguments 1 and 2: the first directive is printed as it stands,
  and it consumes its argument.
\<close>

lemma long_directive:
  "vm_output (snd (mock_printf sample_libm [WStr ''%ld %d'', WInt 1, WInt 2] vm_start)) = [''%ld 2'']"
  by code_simp

text \<open>The length of a literal: the text between the quotes is read as the number of an address.\<close>

lemma strlen_of_literal:
  "case run_segs 5 10 (main_segs
     [mk_stmt ''return strlen(s);'' ''control'' None []
        (Some (call0 ''strlen'' [EConst (CStr [dquote, CHR ''a'', dquote]) ''char*'']))] []) of
     (Inl (Raised (ValueError m)), ls, c) \<Rightarrow> True | _ \<Rightarrow> False"
  by code_simp

text \<open>\<open>malloc(6)\<close> makes one cell: the size in bytes is divided by the size of the element type.\<close>

lemma malloc_cells: "map fst (vm_heap (snd (alloc_heap 6 ''int'' vm_start))) = [0x80000000]"
  by code_simp

section \<open>Writes\<close>

text \<open>The target \<open>m[0][1] = 7\<close> is read as \<open>m\<close> at \<open>0][1\<close>, which does not parse, so 7 is stored at index 0.\<close>

lemma two_dimensional_index: "parse_src ''0][1'' = None"
  by code_simp

end
