(* ===== verification/VmTerm.thy ===== *)
theory VmTerm
  imports VmFuel VmMemory VmPrograms
begin

text \<open>
  The relation of VmFuel carried through expressions, calls, statements and blocks, and what follows for
  \<open>call_fn\<close>: the answer does not depend on the budget, and programs without recursion have one.
\<close>

section \<open>The functions a program can call\<close>

fun calls_expr :: "expr \<Rightarrow> string list" where
  "calls_expr (EOp op args at) =
     (if op = ''call'' then [case a_fn at of None \<Rightarrow> [] | Some n \<Rightarrow> n] else [])
     @ concat (map calls_expr args)"
| "calls_expr _ = []"

definition opt_calls :: "expr option \<Rightarrow> string list" where
  "opt_calls e = (case e of None \<Rightarrow> [] | Some e \<Rightarrow> calls_expr e)"

text \<open>The trees \<open>_exec_expr_stmt\<close> and \<open>_exec_update\<close> parse from the text of a statement while they run it.\<close>

definition text_calls :: "stmt \<Rightarrow> string list" where
  "text_calls stm =
     (let raw = str_strip (rstrip_by (\<lambda>c. c = CHR '';'') (str_strip (st_raw stm)))
      in concat (map (\<lambda>r. case re_match r raw of
             None \<Rightarrow> []
           | Some m \<Rightarrow> concat (map (\<lambda>n. opt_calls (parse_src (str_strip (m_group_str m n)))) [1, 2, 3]))
           [rx_double_deref, rx_deref_paren, rx_deref_name, rx_index_write]))"

definition update_calls :: "stmt \<Rightarrow> string list" where
  "update_calls stm =
     (case extract_for_update (str_strip (st_raw stm)) of
        None \<Rightarrow> []
      | Some u \<Rightarrow>
          (case first_compound [''+='', ''-='', ''*='', ''/='', ''%=''] (str_strip u) of
             None \<Rightarrow> []
           | Some (lhs, cop, rhs) \<Rightarrow> opt_calls (build_assign_expr (Suc (length rhs)) lhs cop rhs)))"

definition stmt_calls :: "stmt \<Rightarrow> string list" where
  "stmt_calls stm = opt_calls (st_expr stm) @ text_calls stm @ update_calls stm"

text \<open>
  A rank that falls from every block to its child blocks and to the functions its statements call. It
  exists exactly when no function reaches itself through calls.
\<close>

definition callees_ok :: "vm_prog \<Rightarrow> (segment \<Rightarrow> bool) \<Rightarrow> string list \<Rightarrow> bool" where
  "callees_ok P ok names \<longleftrightarrow>
     list_all (\<lambda>n. case dict_get (vp_fns P) n of None \<Rightarrow> True | Some t \<Rightarrow> ok t) names"

definition kids_ok :: "vm_prog \<Rightarrow> (segment \<Rightarrow> bool) \<Rightarrow> nat list \<Rightarrow> bool" where
  "kids_ok P ok kids \<longleftrightarrow>
     list_all (\<lambda>c. case dict_get (vp_by_id P) c of None \<Rightarrow> True | Some t \<Rightarrow> ok t) kids"

definition prog_segs :: "vm_prog \<Rightarrow> segment list" where
  "prog_segs P = map snd (vp_by_id P) @ map snd (vp_fns P)"

definition non_recursive :: "vm_prog \<Rightarrow> (segment \<Rightarrow> nat) \<Rightarrow> bool" where
  "non_recursive P rk \<longleftrightarrow>
     list_all (\<lambda>s. kids_ok P (\<lambda>t. rk t < rk s) (dict_get_list (vp_children P) (sg_id s))
        \<and> list_all (\<lambda>stm. callees_ok P (\<lambda>t. rk t < rk s) (stmt_calls stm)) (sg_stmts s)) (prog_segs P)"

section \<open>Expressions\<close>

definition runs :: "bool \<Rightarrow> (segment \<Rightarrow> bool) \<Rightarrow> runner \<Rightarrow> runner \<Rightarrow> bool" where
  "runs b ok run run' \<longleftrightarrow> (\<forall>t f i. ok t \<longrightarrow> rel b (run t f i) (run' t f i))"

lemma runsD: "runs b ok run run' \<Longrightarrow> ok t \<Longrightarrow> rel b (run t f i) (run' t f i)"
  by (simp add: runs_def)

lemma rel_ev [vrel]:
  "rel b e e' \<Longrightarrow> rel b (ev_val e) (ev_val e')" "rel b m m' \<Longrightarrow> rel b (ev_of m) (ev_of m')"
  unfolding ev_val_def ev_of_def by (intro vrel; assumption)+

lemma rel_arg [vrel]:
  "rel b (arg_node args i) (arg_node args i)"
  "list_all2 (rel b) evs evs' \<Longrightarrow> rel b (arg_eval evs i) (arg_eval evs' i)"
proof -
  show "rel b (arg_node args i) (arg_node args i)" unfolding arg_node_def by (intro vrel)
  assume "list_all2 (rel b) evs evs'"
  then show "rel b (arg_eval evs i) (arg_eval evs' i)"
    unfolding arg_eval_def by (auto simp: list_all2_conv_all_nth intro!: vrel)
qed

lemma rel_names [vrel]:
  "rel b (eval_name f scope n) (eval_name f scope n)" "rel b (eval_slot f scope s) (eval_slot f scope s)"
  "rel b (eval_addr_of f scope args) (eval_addr_of f scope args)"
  "rel b (eval_field f scope args at) (eval_field f scope args at)"
  "rel b (promote v w) (promote v w)" "rel b (kernel_apply lib op at vs) (kernel_apply lib op at vs)"
proof -
  have "rel b (first_in_frame f cs s) (first_in_frame f cs s)" for cs by (induction cs) (auto intro!: vrel)
  then show "rel b (eval_slot f scope s) (eval_slot f scope s)" unfolding eval_slot_def by (intro vrel)
  show "rel b (eval_name f scope n) (eval_name f scope n)"
    "rel b (eval_addr_of f scope args) (eval_addr_of f scope args)"
    "rel b (eval_field f scope args at) (eval_field f scope args at)" "rel b (promote v w) (promote v w)"
    unfolding eval_name_def eval_addr_of_def eval_field_def promote_def by (intro vrel)+
  show "rel b (kernel_apply lib op at vs) (kernel_apply lib op at vs)"
    unfolding kernel_apply_def by (auto split: bool.splits intro!: vrel)
qed

lemma rel_operators [vrel]:
  assumes "list_all2 (rel b) evs evs'"
  shows "rel b (eval_deref evs) (eval_deref evs')" "rel b (eval_index evs args) (eval_index evs' args)"
    "rel b (eval_incdec f scope op args evs) (eval_incdec f scope op args evs')"
    "rel b (eval_kernel lib op at evs) (eval_kernel lib op at evs')"
    "rel b rest rest' \<Longrightarrow> rel b (eval_pointer_arith op evs rest) (eval_pointer_arith op evs' rest')"
    "rel b (int_arg evs i k) (int_arg evs' i k)" "rel b (int_arg1 evs i) (int_arg1 evs' i)"
proof -
  show "rel b (eval_deref evs) (eval_deref evs')" "rel b (eval_index evs args) (eval_index evs' args)"
    "rel b (eval_incdec f scope op args evs) (eval_incdec f scope op args evs')"
    "rel b (eval_kernel lib op at evs) (eval_kernel lib op at evs')"
    "rel b rest rest' \<Longrightarrow> rel b (eval_pointer_arith op evs rest) (eval_pointer_arith op evs' rest')"
    "rel b (int_arg1 evs i) (int_arg1 evs' i)"
    unfolding eval_deref_def eval_index_def eval_incdec_def eval_kernel_def eval_pointer_arith_def int_arg1_def
    by (intro vrel assms; assumption?)+
  have "length evs = length evs'" "i < length evs \<Longrightarrow> rel b (evs ! i) (evs' ! i)"
    using assms by (simp_all add: list_all2_conv_all_nth)
  then show "rel b (int_arg evs i k) (int_arg evs' i k)"
    unfolding int_arg_def by (auto intro!: vrel)
qed

lemma rel_ev_vals: "list_all2 (rel b) evs evs' \<Longrightarrow> list_all2 (rel b) (map ev_val evs) (map ev_val evs')"
  by (auto simp: list_all2_conv_all_nth intro: vrel)

lemma rel_bind_param [vrel]:
  assumes "rel b ev ev'"
  shows "rel b (bind_param af f scope (lp, a, ev)) (bind_param af f scope (lp, a, ev'))"
proof -
  have field: "rel b (bind_field af f x y) (bind_field af f x y)" for x y
    unfolding bind_field_def after_dot_def by (intro vrel)
  have plain: "rel b (bind_plain af x y ev) (bind_plain af x y ev')" for x y
    using assms unfolding bind_plain_def by (auto intro!: vrel)
  show ?thesis unfolding bind_param_def by (cases lp) (auto intro!: vrel field plain)
qed

lemma rel_call_user:
  assumes "list_all2 (rel b) evs evs'" "\<And>f i. rel b (run t f i) (run' t f i)"
  shows "rel b (call_user run t f scope args evs) (call_user run' t f scope args evs')"
proof -
  have params: "rel b (vfor (bind_param af f scope) (zip lps (zip args evs)))
      (vfor (bind_param af f scope) (zip lps (zip args evs')))" for af lps
  proof (rule rel_for_in)
    show "length (zip lps (zip args evs)) = length (zip lps (zip args evs'))"
      using assms(1) by (simp add: list_all2_lengthD)
    fix x y
    assume "(x, y) \<in> set (zip (zip lps (zip args evs)) (zip lps (zip args evs')))"
    then obtain i where "x = (lps ! i, args ! i, evs ! i)" "y = (lps ! i, args ! i, evs' ! i)"
      "i < length evs" "i < length evs'"
      by (auto simp: in_set_zip)
    then show "rel b (bind_param af f scope x) (bind_param af f scope y)"
      using assms(1) by (auto simp: list_all2_conv_all_nth intro: vrel)
  qed
  show ?thesis
    unfolding call_user_def by (intro rel_bind rel_memory params rel_catch_return vrel assms(2))
qed

lemma rel_eval_call:
  assumes "list_all2 (rel b) evs evs'" "runs b ok run run'"
    "callees_ok P ok [case a_fn at of None \<Rightarrow> [] | Some n \<Rightarrow> n]"
  shows "rel b (eval_call P run f scope at args evs) (eval_call P run' f scope at args evs')"
proof -
  let ?fn = "case a_fn at of None \<Rightarrow> [] | Some n \<Rightarrow> n"
  have user: "rel b (case dict_get (vp_fns P) ?fn of None \<Rightarrow> m | Some t \<Rightarrow> call_user run t f scope args evs)
     (case dict_get (vp_fns P) ?fn of None \<Rightarrow> m' | Some t \<Rightarrow> call_user run' t f scope args evs')"
    if "rel b m m'" for m m'
    using that assms(2,3)
    by (auto simp: callees_ok_def split: option.splits intro!: rel_call_user assms(1) dest: runsD)
  show ?thesis
    unfolding eval_call_def ret_int_def Let_def
    by (intro user vrel rel_ev_vals assms(1))
qed

lemma callees_ok_append [simp]: "callees_ok P ok (xs @ ys) \<longleftrightarrow> callees_ok P ok xs \<and> callees_ok P ok ys"
  by (simp add: callees_ok_def)

lemma callees_ok_concat [simp]: "callees_ok P ok (concat xss) \<longleftrightarrow> list_all (callees_ok P ok) xss"
  by (induction xss) (simp_all add: callees_ok_def)

lemma rel_eval:
  assumes "runs b ok run run'"
  shows "callees_ok P ok (calls_expr e) \<Longrightarrow> rel b (vm_eval P run f scope e) (vm_eval P run' f scope e)"
proof (induction e)
  case (EOp op args at)
  have evs: "list_all2 (rel b) (map (vm_eval P run f scope) args) (map (vm_eval P run' f scope) args)"
    using EOp by (intro list_all2_map_same) (simp add: list_all_iff)
  have call: "rel b (eval_call P run f scope at args (map (vm_eval P run f scope) args))
      (eval_call P run' f scope at args (map (vm_eval P run' f scope) args))" if "op = ''call''"
    using EOp.prems that by (intro rel_eval_call [OF evs assms]) (simp only: calls_expr.simps callees_ok_append if_True simp_thms)
  show ?case
    unfolding vm_eval.simps eval_op_def
    by (cases "op = ''call''") (simp_all only: if_True if_False simp_thms, (intro vrel evs call; assumption?)+)
qed (auto intro!: vrel)

lemma rel_eval_expr:
  "runs b ok run run' \<Longrightarrow> callees_ok P ok (opt_calls e) \<Longrightarrow>
   rel b (eval_expr P run f scope e) (eval_expr P run' f scope e)"
  unfolding eval_expr_def opt_calls_def by (cases e) (auto intro!: vrel rel_eval)

section \<open>Statements\<close>

lemma rel_record [vrel]:
  "rel b (vm_record P stm seg it reads writes br dr dw) (vm_record P stm seg it reads writes br dr dw)"
  unfolding vm_record_def by (intro vrel)

lemma rel_inits [vrel]:
  "rel b (exec_struct_init P stm f seg it l reads flds vals) (exec_struct_init P stm f seg it l reads flds vals)"
  "rel b (exec_array_init P stm f seg it l reads vals) (exec_array_init P stm f seg it l reads vals)"
  "rel b (exec_incdec P stm f seg it l) (exec_incdec P stm f seg it l)"
  "rel b (exec_decl_only P stm f seg it l) (exec_decl_only P stm f seg it l)"
  "rel b (promote_value p t v) (promote_value p t v)"
  "rel b (init_loop stm f) (init_loop stm f)" "rel b (step_name f n op) (step_name f n op)"
  "rel b set_capped set_capped" "rel b (seg_of_id P i) (seg_of_id P i)"
  unfolding exec_struct_init_def init_field_def exec_array_init_def exec_incdec_def exec_incdec_name_def
    exec_incdec_deref_def exec_decl_only_def promote_value_def init_loop_def step_name_def set_capped_def
    seg_of_id_def
  by (intro vrel)+

lemma rel_decl_assign:
  assumes "runs b ok run run'" "callees_ok P ok (opt_calls (st_expr stm))"
  shows "rel b (exec_decl_assign P run stm f scope seg it) (exec_decl_assign P run' stm f scope seg it)"
proof -
  have e: "rel b (vm_eval P run f scope e) (vm_eval P run' f scope e)" if "st_expr stm = Some e" for e
    using rel_eval [OF assms(1)] assms(2) that by (simp add: opt_calls_def)
  have rest: "rel b (case st_expr stm of None \<Rightarrow> n | Some e \<Rightarrow> g run e) (case st_expr stm of None \<Rightarrow> n | Some e \<Rightarrow> g run' e)"
    if "rel b n n" "\<And>e. st_expr stm = Some e \<Longrightarrow> rel b (g run e) (g run' e)" for n :: "unit act" and g
    using that by (auto split: option.splits)
  have assign: "rel b (exec_assign P run stm f scope seg it l reads e) (exec_assign P run' stm f scope seg it l reads e)"
    if "st_expr stm = Some e" for l reads e
    unfolding exec_assign_def by (intro vrel e that)
  have deref: "rel b (exec_deref_write P run stm f scope seg it l reads) (exec_deref_write P run' stm f scope seg it l reads)"
    for l reads
    unfolding exec_deref_write_def by (intro vrel rel_eval_expr [OF assms])
  show ?thesis
    unfolding exec_decl_assign_def
    by (intro rest [where g = "\<lambda>run e. if p then exec_deref_write P run stm f scope seg it l reads
          else exec_assign P run stm f scope seg it l reads e" for p l reads] vrel assign deref)
qed

lemma rel_simple_stmts:
  assumes "runs b ok run run'" "callees_ok P ok (opt_calls (st_expr stm))"
  shows "rel b (exec_control P run stm f scope seg it) (exec_control P run' stm f scope seg it)"
    "rel b (exec_call_stmt P run stm f scope seg it) (exec_call_stmt P run' stm f scope seg it)"
proof -
  show "rel b (exec_control P run stm f scope seg it) (exec_control P run' stm f scope seg it)"
    unfolding exec_control_def by (intro vrel rel_eval_expr [OF assms])
  have "rel b
      (case st_expr stm of Some (EOp op args at) \<Rightarrow>
         if op = ''call'' then vbind (eval_call P run f scope at args (map (vm_eval P run f scope) args)) (\<lambda>_. vret ())
         else vret () | _ \<Rightarrow> vret ())
      (case st_expr stm of Some (EOp op args at) \<Rightarrow>
         if op = ''call'' then vbind (eval_call P run' f scope at args (map (vm_eval P run' f scope) args)) (\<lambda>_. vret ())
         else vret () | _ \<Rightarrow> vret ())"
  proof (cases "\<exists>args at. st_expr stm = Some (EOp ''call'' args at)")
    case True
    then obtain args at where e: "st_expr stm = Some (EOp ''call'' args at)" by blast
    then have c: "callees_ok P ok [case a_fn at of None \<Rightarrow> [] | Some n \<Rightarrow> n]"
      "callees_ok P ok (concat (map calls_expr args))"
      using assms(2) by (simp_all only: opt_calls_def option.case calls_expr.simps callees_ok_append if_True simp_thms)
    have "list_all2 (rel b) (map (vm_eval P run f scope) args) (map (vm_eval P run' f scope) args)"
      using c(2) by (intro list_all2_map_same rel_eval [OF assms(1)]) (simp add: list_all_iff)
    from rel_eval_call [OF this assms(1) c(1)] show ?thesis using e by (auto intro!: vrel)
  next
    case False
    then show ?thesis by (cases "st_expr stm" rule: option.exhaust; cases "the (st_expr stm)") (auto intro!: vrel)
  qed
  then show "rel b (exec_call_stmt P run stm f scope seg it) (exec_call_stmt P run' stm f scope seg it)"
    unfolding exec_call_stmt_def by (intro rel_bind rel_snap rel_record)
qed

lemma rel_guarded: "rel b m m' \<Longrightarrow> rel b (guarded P m) (guarded P m')"
  unfolding guarded_def by (intro vrel)

lemma text_calls_group:
  assumes "callees_ok P ok (text_calls stm)"
    and "re_match r (str_strip (rstrip_by (\<lambda>c. c = CHR '';'') (str_strip (st_raw stm)))) = Some m"
    and "r \<in> {rx_double_deref, rx_deref_paren, rx_deref_name, rx_index_write}" "n \<in> {1, 2, 3}"
  shows "callees_ok P ok (opt_calls (parse_src (str_strip (m_group_str m n))))"
  using assms unfolding text_calls_def Let_def by (auto simp: list_all_iff)

lemma rel_expr_stmt:
  assumes "runs b ok run run'" "callees_ok P ok (text_calls stm)"
  shows "rel b (exec_expr_stmt P run stm f scope seg it) (exec_expr_stmt P run' stm f scope seg it)"
proof -
  let ?raw = "str_strip (rstrip_by (\<lambda>c. c = CHR '';'') (str_strip (st_raw stm)))"
  have e: "rel b (eval_expr P run f scope (parse_src (str_strip (m_group_str m n))))
      (eval_expr P run' f scope (parse_src (str_strip (m_group_str m n))))"
    if "re_match r ?raw = Some m" "r \<in> {rx_double_deref, rx_deref_paren, rx_deref_name, rx_index_write}"
      "n \<in> {1, 2, 3}" for r m n
    by (rule rel_eval_expr [OF assms(1) text_calls_group [OF assms(2) that]])
  have d1: "rel b (write_double_deref P run stm f scope seg it p (str_strip (m_group_str m 2)))
      (write_double_deref P run' stm f scope seg it p (str_strip (m_group_str m 2)))"
    if "re_match rx_double_deref ?raw = Some m" for m p
    unfolding write_double_deref_def using that by (intro vrel e) auto
  have d2: "rel b (write_deref P run stm f scope seg it (str_strip (m_group_str m 1)) (str_strip (m_group_str m 2)))
      (write_deref P run' stm f scope seg it (str_strip (m_group_str m 1)) (str_strip (m_group_str m 2)))"
    if "re_match rx_deref_paren ?raw = Some m \<or> re_match rx_deref_name ?raw = Some m" for m
    unfolding write_deref_def using that by (intro vrel; elim disjE) (erule e; simp)+
  have d3: "rel b (write_index P run stm f scope seg it a (str_strip (m_group_str m 2)) (str_strip (m_group_str m 3)))
      (write_index P run' stm f scope seg it a (str_strip (m_group_str m 2)) (str_strip (m_group_str m 3)))"
    if "re_match rx_index_write ?raw = Some m" for m a
    unfolding write_index_def using that by (intro vrel e) auto
  show ?thesis
    unfolding exec_expr_stmt_def Let_def
    by (auto simp del: One_nat_def split: option.splits intro!: rel_guarded d1 d2 d3 vrel)
qed

lemma rel_cond:
  assumes "runs b ok run run'" "callees_ok P ok (opt_calls (st_expr stm))" "rel b n n"
  shows "rel b (case st_expr stm of None \<Rightarrow> n
       | e \<Rightarrow> vbind (eval_expr P run f scope e) (\<lambda>v. vasks (\<lambda>st. py_truth (vm_pyval st v))))
     (case st_expr stm of None \<Rightarrow> n
       | e \<Rightarrow> vbind (eval_expr P run' f scope e) (\<lambda>v. vasks (\<lambda>st. py_truth (vm_pyval st v))))"
proof (cases "st_expr stm")
  case (Some e)
  have "rel b (eval_expr P run f scope (Some e)) (eval_expr P run' f scope (Some e))"
    using rel_eval_expr [OF assms(1,2), of f scope] Some by simp
  from rel_bind [OF this rel_pure(2)] Some show ?thesis by simp
qed (simp add: assms(3))

lemma rel_loop:
  assumes "runs b ok run run'" "callees_ok P ok (stmt_calls stm)" "ok body"
  shows "rel b (exec_loop P run stm body f scope parent) (exec_loop P run' stm body f scope parent)"
proof -
  have c: "callees_ok P ok (opt_calls (st_expr stm))" "callees_ok P ok (update_calls stm)"
    using assms(2) by (simp_all add: stmt_calls_def)
  have cond: "rel b (loop_cond P run stm f scope parent i) (loop_cond P run' stm f scope parent i)" for i
    unfolding loop_cond_def
    by (intro rel_bind rel_snap rel_cond [OF assms(1) c(1)] vrel)
  have body: "rel b (loop_body run body f i) (loop_body run' body f i)" for i
    by (intro rel_loop_body runsD [OF assms(1,3)])
  have do: "rel b (do_rounds n P run stm body f scope parent i) (do_rounds n P run' stm body f scope parent i)" for n i
    by (induction n arbitrary: i) (auto intro!: vrel cond body)
  have update: "rel b (exec_update P run u f scope) (exec_update P run' u f scope)"
    if "extract_for_update (str_strip (st_raw stm)) = Some u" for u
  proof -
    have tree: "rel b (vm_eval P run f scope t) (vm_eval P run' f scope t)"
      if "first_compound [''+='', ''-='', ''*='', ''/='', ''%=''] (str_strip u) = Some (lhs, cop, rhs)"
        "build_assign_expr (Suc (length rhs)) lhs cop rhs = Some t" for lhs cop rhs t
      using c(2) \<open>extract_for_update _ = _\<close> that
      by (intro rel_eval [OF assms(1)]) (simp add: update_calls_def opt_calls_def)
    show ?thesis
      unfolding exec_update_def Let_def by (auto split: option.splits intro!: vrel tree)
  qed
  have while: "rel b (while_rounds n P run stm body u f scope parent i) (while_rounds n P run' stm body u f scope parent i)"
    if "u = None \<or> u = extract_for_update (str_strip (st_raw stm))" for n u i
    using that
    by (induction n arbitrary: i) (auto intro!: vrel cond body update split: option.splits list.splits)
  show ?thesis
    unfolding exec_loop_def Let_def by (auto intro!: vrel do while)
qed

lemma kids_okD: "kids_ok P ok kids \<Longrightarrow> c \<in> set kids \<Longrightarrow> dict_get (vp_by_id P) c = Some t \<Longrightarrow> ok t"
  by (auto simp: kids_ok_def list_all_iff split: option.splits)

lemma rel_child:
  assumes "kids_ok P ok kids" "c \<in> set kids" "\<And>t. ok t \<Longrightarrow> rel b (g t) (g' t)"
  shows "rel b (vbind (seg_of_id P c) g) (vbind (seg_of_id P c) g')"
proof (rule rel_bind_post)
  fix st t st'
  assume "seg_of_id P c st = (Inr t, st')"
  then have "dict_get (vp_by_id P) c = Some t"
    by (auto simp: seg_of_id_def vlift_def py_item_def act_defs split: option.splits)
  then show "rel b (g t) (g' t)" using kids_okD [OF assms(1,2)] assms(3) by blast
qed (rule vrel)

lemma rel_branch:
  assumes "runs b ok run run'" "callees_ok P ok (stmt_calls stm)" "kids_ok P ok kids"
  shows "rel b (exec_branch P run stm f scope seg kids it) (exec_branch P run' stm f scope seg kids it)"
proof (cases kids)
  case (Cons c ks)
  have c: "callees_ok P ok (opt_calls (st_expr stm))" using assms(2) by (simp add: stmt_calls_def)
  have "rel b (vbind (seg_of_id P c) (\<lambda>t. vbind (g run) (\<lambda>cond. vbind (snap_stmt stm f) (\<lambda>reads.
            vthen (vm_record P stm seg it reads [] (Some cond) [] [])
              (vthen (if cond then run t f it else vret ()) (vret ks))))))
      (vbind (seg_of_id P c) (\<lambda>t. vbind (g run') (\<lambda>cond. vbind (snap_stmt stm f) (\<lambda>reads.
            vthen (vm_record P stm seg it reads [] (Some cond) [] [])
              (vthen (if cond then run' t f it else vret ()) (vret ks))))))"
    if "rel b (g run) (g run')" for g
    using assms(3) Cons
    by (intro rel_child [OF assms(3)]) (auto intro!: vrel that runsD [OF assms(1)])
  from this [of "\<lambda>run. case st_expr stm of None \<Rightarrow> vret True
       | e \<Rightarrow> vbind (eval_expr P run f scope e) (\<lambda>v. vasks (\<lambda>st. py_truth (vm_pyval st v)))"]
  show ?thesis
    unfolding exec_branch_def using Cons rel_cond [OF assms(1) c rel_pure(1)] by simp
qed (simp add: exec_branch_def vrel)

lemma rel_stmt:
  assumes "runs b ok run run'" "callees_ok P ok (stmt_calls stm)" "kids_ok P ok kids"
  shows "rel b (exec_stmt P run seg f it stm kids) (exec_stmt P run' seg f it stm kids)"
proof -
  have c: "callees_ok P ok (opt_calls (st_expr stm))" "callees_ok P ok (text_calls stm)"
    using assms(2) by (simp_all add: stmt_calls_def)
  have loop: "rel b (case kids of [] \<Rightarrow> vraise StopIteration
        | c # kids' \<Rightarrow> vbind (seg_of_id P c) (\<lambda>child. vthen (exec_loop P run stm child f scope seg) (vret kids')))
      (case kids of [] \<Rightarrow> vraise StopIteration
        | c # kids' \<Rightarrow> vbind (seg_of_id P c) (\<lambda>child. vthen (exec_loop P run' stm child f scope seg) (vret kids')))" for scope
  proof (cases kids)
    case (Cons x xs)
    show ?thesis
      unfolding Cons list.case
      by (rule rel_child [OF assms(3)]) (auto simp: Cons intro!: vrel rel_loop [OF assms(1,2)])
  qed (simp add: vrel)
  show ?thesis
    unfolding exec_stmt_def Let_def
    by (intro loop vrel rel_decl_assign [OF assms(1) c(1)] rel_simple_stmts [OF assms(1) c(1)]
        rel_branch [OF assms] rel_expr_stmt [OF assms(1) c(2)])
qed

text \<open>A statement hands on a part of the child segments it was given.\<close>

lemma vbind_Inr: "vbind m k st = (Inr x, st') \<longleftrightarrow> (\<exists>y st1. m st = (Inr y, st1) \<and> k y st1 = (Inr x, st'))"
  by (auto simp: vbind_def split: prod.splits sum.splits)

lemma exec_stmt_kids:
  "exec_stmt P run seg f it stm kids st = (Inr kids', st') \<Longrightarrow> set kids' \<subseteq> set kids"
  unfolding exec_stmt_def exec_branch_def Let_def
  by (auto simp: vbind_Inr vret_def vthrow_def split: if_splits list.splits)

lemma kids_ok_subset: "kids_ok P ok kids \<Longrightarrow> set kids' \<subseteq> set kids \<Longrightarrow> kids_ok P ok kids'"
  by (auto simp: kids_ok_def list_all_iff)

lemma rel_stmts:
  assumes "runs b ok run run'"
  shows "list_all (\<lambda>stm. callees_ok P ok (stmt_calls stm)) stms \<Longrightarrow> kids_ok P ok kids \<Longrightarrow>
    rel b (exec_stmts P run seg f it stms kids) (exec_stmts P run' seg f it stms kids)"
proof (induction stms arbitrary: kids)
  case (Cons stm stms)
  show ?case
    unfolding exec_stmts.simps
  proof (rule rel_bind_post)
    show "rel b (exec_stmt P run seg f it stm kids) (exec_stmt P run' seg f it stm kids)"
      using Cons.prems by (intro rel_stmt [OF assms]) simp_all
    fix st kids' st'
    assume "exec_stmt P run seg f it stm kids st = (Inr kids', st')"
    then have "kids_ok P ok kids'" using kids_ok_subset [OF Cons.prems(2)] exec_stmt_kids by blast
    then show "rel b (exec_stmts P run seg f it stms kids') (exec_stmts P run' seg f it stms kids')"
      using Cons by simp
  qed
qed (simp add: vrel)

section \<open>Budgets\<close>

lemma exec_seg_mono: "n \<le> m \<Longrightarrow> rel False (exec_seg n P seg f it) (exec_seg m P seg f it)"
proof (induction n arbitrary: m seg f it)
  case (Suc n)
  then obtain k where m: "m = Suc k" "n \<le> k" by (cases m) auto
  have "runs False (\<lambda>_. True) (exec_seg n P) (exec_seg k P)" using Suc.IH m(2) by (simp add: runs_def)
  moreover have "callees_ok P (\<lambda>_. True) names" "kids_ok P (\<lambda>_. True) kids" for names kids
    by (simp_all add: callees_ok_def kids_ok_def list_all_iff split: option.splits)
  ultimately show ?case using rel_stmts m(1) by (simp add: list_all_iff)
qed (simp add: rel_def vthrow_def)

lemma prog_segs_mem:
  "dict_get (vp_by_id P) i = Some t \<Longrightarrow> t \<in> set (prog_segs P)"
  "dict_get (vp_fns P) n = Some t \<Longrightarrow> t \<in> set (prog_segs P)"
  by (force simp: prog_segs_def dest: map_of_SomeD)+

lemma callees_ok_mono:
  "callees_ok P ok names \<Longrightarrow> (\<And>t. t \<in> set (prog_segs P) \<Longrightarrow> ok t \<Longrightarrow> ok' t) \<Longrightarrow> callees_ok P ok' names"
  "kids_ok P ok kids \<Longrightarrow> (\<And>t. t \<in> set (prog_segs P) \<Longrightarrow> ok t \<Longrightarrow> ok' t) \<Longrightarrow> kids_ok P ok' kids"
  using prog_segs_mem unfolding callees_ok_def kids_ok_def list_all_iff
  by (fastforce split: option.splits)+

lemma exec_seg_safe:
  assumes "non_recursive P rk"
  shows "seg \<in> set (prog_segs P) \<Longrightarrow> rk seg < n \<Longrightarrow> rel True (exec_seg n P seg f it) (exec_seg n P seg f it)"
proof (induction n arbitrary: seg f it)
  case (Suc n)
  define ok where "ok t \<longleftrightarrow> t \<in> set (prog_segs P) \<and> rk t < rk seg" for t
  have "runs True ok (exec_seg n P) (exec_seg n P)"
    using Suc.IH Suc.prems(2) by (simp add: runs_def ok_def)
  moreover have "kids_ok P (\<lambda>t. rk t < rk seg) (dict_get_list (vp_children P) (sg_id seg))"
    "list_all (\<lambda>stm. callees_ok P (\<lambda>t. rk t < rk seg) (stmt_calls stm)) (sg_stmts seg)"
    using assms Suc.prems(1) by (simp_all add: non_recursive_def list_all_iff)
  then have "kids_ok P ok (dict_get_list (vp_children P) (sg_id seg))"
    "list_all (\<lambda>stm. callees_ok P ok (stmt_calls stm)) (sg_stmts seg)"
    using callees_ok_mono [where ok' = ok and P = P] by (auto simp: ok_def list_all_iff)
  ultimately show ?case using rel_stmts by simp
qed simp

text \<open>
  C22. The virtual machine ends on every program without recursion, whatever its loops do, since each
  loop is cut off after \<open>max_unroll\<close> rounds and every string function stops at the end of the memory: a
  budget above the rank of the called function is enough, and every larger one gives the same answer
  and the same final state.
\<close>
theorem non_recursive_programs_end:
  assumes "non_recursive P rk" "list_all (\<lambda>s. rk s < fuel) (prog_segs P)" "fuel \<le> fuel'"
  shows "fst (call_fn fuel P fn args st) \<noteq> Inl OutOfFuel
    \<and> call_fn fuel' P fn args st = call_fn fuel P fn args st"
proof -
  have run: "rel b (case dict_get (vp_fns P) fn of None \<Rightarrow> vraise (NameError fn)
        | Some seg \<Rightarrow> vbind new_frame (\<lambda>f. vthen (vfor (bind_arg f) args)
            (vcatch_return (vthen (exec_seg fuel P seg f None) (vret WNone)))))
      (case dict_get (vp_fns P) fn of None \<Rightarrow> vraise (NameError fn)
        | Some seg \<Rightarrow> vbind new_frame (\<lambda>f. vthen (vfor (bind_arg f) args)
            (vcatch_return (vthen (exec_seg m P seg f None) (vret WNone)))))"
    if "\<And>seg f. seg \<in> set (prog_segs P) \<Longrightarrow> rel b (exec_seg fuel P seg f None) (exec_seg m P seg f None)" for b m
    unfolding bind_arg_def using that prog_segs_mem(2)
    by (auto split: option.splits intro!: vrel)
  have "rel True (call_fn fuel P fn args) (call_fn fuel P fn args)"
    unfolding call_fn_def using assms(2) by (intro run exec_seg_safe [OF assms(1)]) (auto simp: list_all_iff)
  then have s: "fst (call_fn fuel P fn args st) \<noteq> Inl OutOfFuel" by (auto dest: relD)
  have "rel False (call_fn fuel P fn args) (call_fn fuel' P fn args)"
    unfolding call_fn_def by (intro run exec_seg_mono assms(3))
  from relD [OF this, of st] s show ?thesis by auto
qed

text \<open>A caller, a callee and an endless loop, ranked by the numbers of their blocks.\<close>

definition endless_prog :: vm_prog where
  "endless_prog =
     (case vm_init sample_libm True 3 (main_segs
        [decl_x 0, mk_stmt ''x = g();'' ''assign'' (Some ''x'') [] (Some (call0 ''g'' [])), return_x]
        [mk_seg 2 0 ''function'' ''g''
           [mk_stmt ''while (1) {}'' ''loop_head'' None [] (Some (num 1)),
            mk_stmt ''return 7;'' ''control'' None [] (Some (num 7))],
         mk_seg 3 2 ''loop'' ''l'' [set_x 2]]) of
        Some (Inr P) \<Rightarrow> P | _ \<Rightarrow> empty_prog)"

theorem non_recursive_programs_end_witness:
  "fst (call_fn 4 endless_prog ''main'' [] vm_start) \<noteq> Inl OutOfFuel
    \<and> call_fn 1000 endless_prog ''main'' [] vm_start = call_fn 4 endless_prog ''main'' [] vm_start"
proof -
  have n: "non_recursive endless_prog (\<lambda>s. 3 - sg_id s)" by code_simp
  have f: "list_all (\<lambda>s. 3 - sg_id s < 4) (prog_segs endless_prog)" by code_simp
  show ?thesis by (rule non_recursive_programs_end [OF n f]) simp
qed

end
