(* ===== verification/VmFacts.thy ===== *)
theory VmFacts
  imports VmMemory VmPrograms
begin

text \<open>
  What the virtual machine computes: its evaluator against the kernel on integer expressions, the
  arithmetic on values that look like addresses, fresh memory, strings in the heap, and the statements
  that behave unlike C.
\<close>

section \<open>Integer expressions\<close>

definition vm_slot :: "vm \<Rightarrow> nat \<Rightarrow> string \<Rightarrow> string \<Rightarrow> pyval option" where
  "vm_slot st f scope s =
     map_option (\<lambda>d. vm_pyval st (vs_value d)) (dict_get (frame_at st f) (strip_scope s scope))"

text \<open>
  Integer expressions without increments whose sums and differences stay away from \<open>0x1000\<close>, where the
  machine takes an operand for an address.
\<close>

definition below_addresses :: "pyval py \<Rightarrow> bool" where
  "below_addresses r = (case r of Inr (VInt i) \<Rightarrow> i < 0x1000 | _ \<Rightarrow> True)"

fun plain_int :: "libm \<Rightarrow> (string \<Rightarrow> pyval option) \<Rightarrow> expr \<Rightarrow> bool" where
  "plain_int lm env (EOp op args at) =
     (list_all (plain_int lm env) args
      \<and> (op \<in> set int_binops \<and> length args = 2 \<or> op \<in> {''neg'', ''bit_not'', ''log_not''} \<and> length args = 1)
      \<and> (op \<in> {''add'', ''sub''} \<longrightarrow> list_all (\<lambda>a. below_addresses (kernel_eval lm a env)) args))"
| "plain_int lm env e = int_expr env e"

lemma int_unops_superset: "{''neg'', ''bit_not'', ''log_not''} \<subseteq> set int_unops"
  by (simp add: int_unops_def)

lemma plain_op:
  assumes "op \<in> set int_binops \<or> op \<in> {''neg'', ''bit_not'', ''log_not''}"
  shows "op \<notin> {''call'', ''addr_of'', ''deref'', ''index'', ''field'', ''post_inc'', ''post_dec'',
      ''pre_inc'', ''pre_dec'', ''+'', ''-'', ''sizeof'', ''cast''}"
proof -
  have "list_all (\<lambda>op. op \<notin> {''call'', ''addr_of'', ''deref'', ''index'', ''field'', ''post_inc'', ''post_dec'',
      ''pre_inc'', ''pre_dec'', ''+'', ''-'', ''sizeof'', ''cast''}) (int_binops @ [''neg'', ''bit_not'', ''log_not''])"
    by code_simp
  then show ?thesis using assms by (auto simp only: list_all_iff set_append Un_iff list.set)
qed

lemma plain_int_expr: "plain_int lm env e \<Longrightarrow> int_expr env e"
proof (induction e)
  case (EOp op args at)
  from EOp int_unops_superset show ?case by (auto simp: list_all_iff)
qed simp_all

lemma vm_pyval_simps [simp]:
  "vm_pyval st WNone = VNone" "vm_pyval st (WInt i) = VInt i" "vm_pyval st (WFloat x) = VFloat x"
  "vm_pyval st (WStr s) = VStr s"
  by (simp_all add: vm_pyval_def)

lemma vm_pyval_int: "vm_pyval st v = VInt i \<Longrightarrow> v = WInt i"
  by (cases v) (simp_all add: vm_pyval_def)

text \<open>What the machine answers when the kernel answers \<open>r\<close>.\<close>

definition vm_answer :: "pyval py \<Rightarrow> vm \<Rightarrow> (vm_exc + vval \<times> derefs) \<times> vm" where
  "vm_answer r st = (case r of Inl e \<Rightarrow> (Inl (Raised e), st) | Inr (VInt i) \<Rightarrow> (Inr (WInt i, []), st)
     | Inr _ \<Rightarrow> (Inl Unmodelled, st))"

lemma vm_answer_int: "int_result r \<Longrightarrow> (\<exists>i. r = Inr (VInt i)) \<or> (\<exists>e. r = Inl e)"
  by (auto simp: int_result_def split: sum.splits pyval.splits)

lemma kernel_apply_ints:
  "kernel_apply lm op at (map WInt is) st =
     (case kernel_op lm op at (map VInt is) of Inl e \<Rightarrow> (Inl (Raised e), st) | Inr v \<Rightarrow> of_pyval v st)"
proof -
  have "kernel_apply lm op at (map WInt is)
      = vbind (vasks (\<lambda>st. kernel_op lm op at (map (vm_pyval st) (map WInt is)))) (\<lambda>r. vbind (vlift r) of_pyval)"
    unfolding kernel_apply_def
    by (cases "is"; cases "tl is"; cases "tl (tl is)"; cases "op = ''add''"; cases "op = ''mul''") simp_all
  moreover have "map (vm_pyval s \<circ> WInt) is = map VInt is" for s by simp
  ultimately show ?thesis
    by (simp add: vbind_def vasks_def vlift_def vthrow_def vret_def split: sum.split)
qed

lemma eval_kernel_ints:
  assumes "\<And>a. a \<in> set args \<Longrightarrow> vm_eval P run f scope a st = vm_answer (kernel_eval lm a env) st"
    "\<And>a. a \<in> set args \<Longrightarrow> int_result (kernel_eval lm a env)"
    "int_result (py_bind (py_seq (map (\<lambda>a. kernel_eval lm a env) args)) (kernel_op lm op at))"
  shows "eval_kernel lm op at (map (vm_eval P run f scope) args) st
     = vm_answer (py_bind (py_seq (map (\<lambda>a. kernel_eval lm a env) args)) (kernel_op lm op at)) st"
proof -
  have seq: "(\<exists>is. py_seq (map (\<lambda>a. kernel_eval lm a env) as) = Inr (map VInt is)
        \<and> vseq (map (vm_eval P run f scope) as) st = (Inr (map (\<lambda>i. (WInt i, [])) is), st))
      \<or> (\<exists>e. py_seq (map (\<lambda>a. kernel_eval lm a env) as) = Inl e
        \<and> vseq (map (vm_eval P run f scope) as) st = (Inl (Raised e), st))"
    if "set as \<subseteq> set args" for as
    using that
  proof (induction as)
    case Nil
    show ?case by (simp add: act_defs)
  next
    case (Cons a as)
    then have a: "vm_eval P run f scope a st = vm_answer (kernel_eval lm a env) st"
      "int_result (kernel_eval lm a env)" using assms(1,2) by simp_all
    from vm_answer_int [OF a(2)] show ?case
    proof (elim disjE exE)
      fix i
      assume i: "kernel_eval lm a env = Inr (VInt i)"
      have "set as \<subseteq> set args" using Cons.prems by simp
      from Cons.IH [OF this] show ?case
      proof (elim disjE exE conjE)
        fix "is"
        assume "py_seq (map (\<lambda>a. kernel_eval lm a env) as) = Inr (map VInt is)"
          "vseq (map (vm_eval P run f scope) as) st = (Inr (map (\<lambda>i. (WInt i, [])) is), st)"
        then have "py_seq (map (\<lambda>a. kernel_eval lm a env) (a # as)) = Inr (map VInt (i # is))
            \<and> vseq (map (vm_eval P run f scope) (a # as)) st = (Inr (map (\<lambda>i. (WInt i, [])) (i # is)), st)"
          using i a by (simp add: act_defs vm_answer_def)
        then show ?case by blast
      qed (use i a in \<open>auto simp: act_defs vm_answer_def\<close>)
    next
      fix e
      assume "kernel_eval lm a env = Inl e"
      then show ?case using a by (simp add: act_defs vm_answer_def)
    qed
  qed
  from seq [OF subset_refl] show ?thesis
  proof (elim disjE exE conjE)
    fix "is"
    assume s: "py_seq (map (\<lambda>a. kernel_eval lm a env) args) = Inr (map VInt is)"
      "vseq (map (vm_eval P run f scope) args) st = (Inr (map (\<lambda>i. (WInt i, [])) is), st)"
    have dr: "concat (map snd (map (\<lambda>i. (WInt i, [])) is)) = ([] :: derefs)" by (induction "is") simp_all
    have vs: "map fst (map (\<lambda>i. (WInt i, [] :: derefs)) is) = map WInt is" by simp
    have py: "map (vm_pyval st) (map WInt is) = map VInt is" by simp
    have r: "int_result (kernel_op lm op at (map VInt is))" using assms(3) s(1) by simp
    show ?thesis
      unfolding eval_kernel_def vbind_def s prod.case sum.case vs kernel_apply_ints
      using vm_answer_int [OF r] by (auto simp: s(1) dr vret_def vm_answer_def of_pyval_def)
  next
    fix e
    assume "py_seq (map (\<lambda>a. kernel_eval lm a env) args) = Inl e"
      "vseq (map (vm_eval P run f scope) args) st = (Inl (Raised e), st)"
    then show ?thesis by (simp add: eval_kernel_def vbind_def vm_answer_def)
  qed
qed

lemma eval_slot_found:
  assumes "dict_get (frame_at st f) (strip_scope s scope) = Some d"
  shows "eval_slot f scope s st = (Inr (vs_value d), st)"
proof -
  have "in_frame f (strip_scope s scope) st = (Inr True, st)" using assms by (simp add: in_frame_def vasks_def)
  moreover have "fget f (strip_scope s scope) st = (Inr (vs_value d), st)"
    using assms by (simp add: fget_def slot_of_def vbind_def vasks_def vret_def)
  ultimately show ?thesis unfolding eval_slot_def Let_def vbind_def by simp
qed

lemma pointer_arith_small:
  assumes "ex st = vm_answer rx st" "ey st = vm_answer ry st" "int_result rx" "int_result ry"
    "below_addresses rx" "below_addresses ry"
    "rest st = vm_answer (py_bind (py_seq [rx, ry]) g) st"
  shows "eval_pointer_arith op [ex, ey] rest st = vm_answer (py_bind (py_seq [rx, ry]) g) st"
  using vm_answer_int [OF assms(3)]
proof (elim disjE exE)
  fix i assume i: "rx = Inr (VInt i)"
  from vm_answer_int [OF assms(4)] show ?thesis
  proof (elim disjE exE)
    fix j assume j: "ry = Inr (VInt j)"
    have ij: "i < 0x1000" "j < 0x1000" using assms(5,6) i j by (simp_all add: below_addresses_def)
    have r: "rest st = vm_answer (g [VInt i, VInt j]) st" using assms(7) i j by simp
    have "eval_pointer_arith op [ex, ey] rest st = (case rest st of (Inl e, st') \<Rightarrow> (Inl e, st')
        | (Inr (v, dr), st') \<Rightarrow> (Inr (v, dr), st'))"
      using assms(1,2) i j ij
      by (simp add: eval_pointer_arith_def arg_eval_def promote_def is_ref_def vbind_def vret_def vm_answer_def
          split: prod.split sum.split)
    then show ?thesis using r i j by (simp split: prod.split sum.split)
  qed (use assms(1,2) i in \<open>simp add: eval_pointer_arith_def arg_eval_def vbind_def vm_answer_def\<close>)
qed (use assms(1) in \<open>simp add: eval_pointer_arith_def arg_eval_def vbind_def vm_answer_def\<close>)

lemma plain_step:
  assumes "plain_int (vp_lib P) (vm_slot st f scope) (EOp op args at)"
    "list_all (\<lambda>a. vm_eval P run f scope a st = vm_answer (kernel_eval (vp_lib P) a (vm_slot st f scope)) st) args"
  shows "vm_eval P run f scope (EOp op args at) st
    = vm_answer (kernel_eval (vp_lib P) (EOp op args at) (vm_slot st f scope)) st"
proof -
  let ?lm = "vp_lib P" and ?env = "vm_slot st f scope"
  let ?evs = "map (vm_eval P run f scope) args"
  let ?r = "py_bind (py_seq (map (\<lambda>a. kernel_eval ?lm a ?env) args)) (kernel_op ?lm op at)"
  have ints: "int_result (kernel_eval ?lm a ?env)" if "a \<in> set args" for a
    using assms(1) that by (intro kernel_eval_int plain_int_expr [of ?lm]) (simp add: list_all_iff)
  have known: "map_of binary_ops op \<noteq> None \<or> map_of unary_ops op \<noteq> None"
  proof (cases "op \<in> set int_binops")
    case True
    from int_binop [OF this] show ?thesis by (metis option.distinct(1))
  next
    case False
    then have "op \<in> set int_unops" using assms(1) int_unops_superset by auto
    from int_unop [OF this] show ?thesis by (metis option.distinct(1))
  qed
  then have eq: "kernel_eval ?lm (EOp op args at) ?env = ?r" by auto
  have r: "int_result ?r"
    using kernel_eval_int [OF plain_int_expr [OF assms(1)], of ?lm] eq by simp
  have IH: "vm_eval P run f scope a st = vm_answer (kernel_eval ?lm a ?env) st" if "a \<in> set args" for a
    using assms(2) that by (simp add: list_all_iff)
  have k: "eval_kernel ?lm op at ?evs st = vm_answer ?r st" by (rule eval_kernel_ints [OF IH ints r])
  have ops: "op \<notin> {''call'', ''addr_of'', ''deref'', ''index'', ''field'', ''post_inc'', ''post_dec'',
      ''pre_inc'', ''pre_dec'', ''+'', ''-'', ''sizeof'', ''cast''}"
    by (rule plain_op) (use assms(1) in auto)
  show ?thesis
  proof (cases "op \<in> {''add'', ''sub''}")
    case False
    then have "vm_eval P run f scope (EOp op args at) = eval_kernel ?lm op at ?evs"
      using ops by (simp add: eval_op_def)
    then show ?thesis using k eq by simp
  next
    case True
    then have "length args = 2" using assms(1) by auto
    then obtain x y where xy: "args = [x, y]" by (auto simp: numeral_2_eq_2 length_Suc_conv)
    have e: "vm_eval P run f scope (EOp op args at) = eval_pointer_arith op ?evs (eval_kernel ?lm op at ?evs)"
      using ops True xy by (simp add: eval_op_def)
    have small: "below_addresses (kernel_eval ?lm x ?env)" "below_addresses (kernel_eval ?lm y ?env)"
      using assms(1) True xy by auto
    have "eval_pointer_arith op [vm_eval P run f scope x, vm_eval P run f scope y] (eval_kernel ?lm op at ?evs) st
        = vm_answer (py_bind (py_seq [kernel_eval ?lm x ?env, kernel_eval ?lm y ?env]) (kernel_op ?lm op at)) st"
      by (rule pointer_arith_small) (use IH ints small k xy in simp_all)
    then have "eval_pointer_arith op ?evs (eval_kernel ?lm op at ?evs) st = vm_answer ?r st" using xy by simp
    then show ?thesis using e eq by simp
  qed
qed

text \<open>
  C24. On integer expressions over the variables of a frame the machine computes what the expression
  kernel computes, value or error, and changes nothing, provided no operand of a sum or difference
  reaches \<open>0x1000\<close>.
\<close>
theorem vm_agrees_with_kernel:
  assumes "plain_int (vp_lib P) (vm_slot st f scope) e"
  shows "vm_eval P run f scope e st = vm_answer (kernel_eval (vp_lib P) e (vm_slot st f scope)) st"
  using assms
proof (induction e)
  case (ESlot s)
  then obtain i where i: "vm_slot st f scope s = Some (VInt i)"
    by (auto split: option.splits pyval.splits)
  then obtain d where d: "dict_get (frame_at st f) (strip_scope s scope) = Some d" "vs_value d = WInt i"
    using vm_pyval_int by (auto simp: vm_slot_def)
  then show ?case
    using i eval_slot_found [OF d(1)] by (simp add: ev_of_def vbind_def vret_def vm_answer_def)
next
  case (EConst c t)
  then have "int_result (eval_const (vp_lib P) c t)"
    using kernel_eval_int [of "vm_slot st f scope" "EConst c t" "vp_lib P"] by simp
  from vm_answer_int [OF this] show ?case
    by (auto simp: ev_of_def vlift_def act_defs of_pyval_def vm_answer_def)
next
  case (EOp op args at)
  then have "list_all (plain_int (vp_lib P) (vm_slot st f scope)) args" by simp
  with EOp show ?case by (intro plain_step) (simp_all add: list_all_iff)
qed simp

theorem vm_agrees_with_kernel_witness:
  "vm_eval empty_prog (\<lambda>_ _ _. vret ()) 0 ''root.f''
      (EOp ''sub'' [EOp ''mul'' [ESlot ''root.f.x'', EConst (CInt 3) ''int''] no_attrs, EConst (CInt 1) ''int''] no_attrs)
      pointer_sample = (Inr (WInt 14, []), pointer_sample)"
proof -
  let ?e = "EOp ''sub'' [EOp ''mul'' [ESlot ''root.f.x'', EConst (CInt 3) ''int''] no_attrs, EConst (CInt 1) ''int''] no_attrs"
  have p: "plain_int (vp_lib empty_prog) (vm_slot pointer_sample 0 ''root.f'') ?e" by code_simp
  have k: "kernel_eval (vp_lib empty_prog) ?e (vm_slot pointer_sample 0 ''root.f'') = Inr (VInt 14)" by code_simp
  show ?thesis using vm_agrees_with_kernel [OF p] k by (simp add: vm_answer_def)
qed

section \<open>Sums and differences\<close>

text \<open>
  Subtraction evaluates its operands and then does one of three things: the difference when the left
  operand is at least \<open>0x1000\<close>; the difference with the operands exchanged when only the right one
  is; and otherwise it evaluates both operands a second time, with all their effects, and subtracts
  the second results.
\<close>
lemma subtraction_cases:
  assumes "vm_eval P run f scope x st = (Inr (WInt a, d1), st1)"
    and "vm_eval P run f scope y st1 = (Inr (WInt b, d2), st2)"
  shows "vm_eval P run f scope (EOp ''sub'' [x, y] at) st =
     (if 0x1000 \<le> a then (Inr (WInt (a - b), d1 @ d2), st2)
      else if 0x1000 \<le> b then (Inr (WInt (b - a), d1 @ d2), st2)
      else case eval_kernel (vp_lib P) ''sub'' at [vm_eval P run f scope x, vm_eval P run f scope y] st2 of
             (Inl e, st3) \<Rightarrow> (Inl e, st3)
           | (Inr (v, dr), st3) \<Rightarrow> (Inr (v, d1 @ d2 @ dr), st3))"
  using assms
  by (auto simp: eval_op_def eval_pointer_arith_def arg_eval_def promote_def is_ref_def pointer_step_def
      vbind_def vret_def split: prod.splits sum.splits)

theorem subtraction_cases_witness:
  "vm_eval empty_prog (\<lambda>_ _ _. vret ()) 0 ''root.f''
      (EOp ''sub'' [EConst (CInt 10) ''int'', EConst (CInt 5000) ''int''] no_attrs) vm_start
    = (Inr (WInt 4990, []), vm_start)"
proof -
  have c: "vm_eval empty_prog (\<lambda>_ _ _. vret ()) 0 ''root.f'' (EConst (CInt i) ''int'') vm_start
      = (Inr (WInt i, []), vm_start)" for i
    by (simp add: ev_of_def vlift_def eval_const_def const_pyval_def py_int_def of_pyval_def act_defs)
  show ?thesis using subtraction_cases [OF c c, of 10 5000 no_attrs] by simp
qed

section \<open>Fresh memory\<close>

text \<open>Nothing is allocated at or above the counter; a nested list can break this.\<close>

definition heap_fresh :: "vm \<Rightarrow> bool" where
  "heap_fresh st \<longleftrightarrow> (\<forall>a. dict_get (vm_heap st) a \<noteq> None \<longrightarrow> a < vm_heap_counter st)"

lemma put_cells_heap:
  "dict_get (vm_heap (put_cells base cells st)) a =
     (if base \<le> a \<and> a < base + int (length cells) then Some (cells ! nat (a - base))
      else dict_get (vm_heap st) a)"
proof (induction cells rule: rev_induct)
  case Nil
  show ?case by (auto simp: put_cells_def)
next
  case (snoc c cells)
  have "put_cells base (cells @ [c]) st
      = put_cells base cells st\<lparr>vm_heap := dict_set (base + int (length cells)) c (vm_heap (put_cells base cells st))\<rparr>"
    by (simp add: put_cells_def enumerate_append_eq)
  then show ?case
    using snoc.IH by (auto simp: pydict.lookup_insert nth_append)
qed

lemma alloc_cells_run:
  "alloc_cells cells st =
     (Inr (vm_heap_counter st),
      (put_cells (vm_heap_counter st) cells st)\<lparr>vm_heap_counter := vm_heap_counter st + int (length cells)\<rparr>)"
  by (simp add: alloc_cells_def act_defs)

text \<open>
  Allocation: in a heap without cells above the counter, allocating cells (\<open>malloc\<close>, a flat array, an
  interned string) returns an address at which exactly these cells lie one after the other, none of
  which was in use; no other cell changes, and the new heap again has no cells above the counter.
\<close>
lemma allocation_is_fresh:
  assumes "heap_fresh st" "alloc_cells cells st = (r, st')"
  shows "r = Inr (vm_heap_counter st) \<and> heap_fresh st'
    \<and> (\<forall>a. dict_get (vm_heap st') a =
          (if vm_heap_counter st \<le> a \<and> a < vm_heap_counter st'
           then Some (cells ! nat (a - vm_heap_counter st)) else dict_get (vm_heap st) a))
    \<and> (\<forall>a. vm_heap_counter st \<le> a \<longrightarrow> dict_get (vm_heap st) a = None)
    \<and> vm_heap_counter st' = vm_heap_counter st + int (length cells)"
proof -
  have none: "\<forall>a. vm_heap_counter st \<le> a \<longrightarrow> dict_get (vm_heap st) a = None"
    using assms(1) unfolding heap_fresh_def by (meson leD not_None_eq)
  have st': "st' = (put_cells (vm_heap_counter st) cells st)\<lparr>vm_heap_counter := vm_heap_counter st + int (length cells)\<rparr>"
    "r = Inr (vm_heap_counter st)" using assms(2) by (simp_all add: alloc_cells_run)
  have "a < vm_heap_counter st" if "dict_get (vm_heap st) a \<noteq> None" for a
    using assms(1) that by (simp add: heap_fresh_def)
  then have "a < vm_heap_counter st + int (length cells)" if "dict_get (vm_heap st) a \<noteq> None" for a
    using that by fastforce
  then have "heap_fresh st'"
    unfolding heap_fresh_def st'(1) by (simp add: put_cells_heap)
  then show ?thesis using st' none by (simp add: put_cells_heap)
qed

theorem allocation_is_fresh_witness:
  "\<exists>st'. alloc_heap 8 ''int'' vm_start = (Inr 0x80000000, st') \<and> heap_fresh st'
     \<and> vm_heap_counter st' = 0x80000002"
proof -
  have f: "heap_fresh vm_start" by (simp add: heap_fresh_def vm_start_def)
  have s: "vm_sizeof (Some ''int'') = 4" by code_simp
  obtain r st' where r: "alloc_cells (replicate 2 (WInt 0, ''int'')) vm_start = (r, st')" by force
  from allocation_is_fresh [OF f r] have "r = Inr 0x80000000" "heap_fresh st'" "vm_heap_counter st' = 0x80000002"
    by (simp_all add: vm_start_def)
  with r s show ?thesis by (simp add: alloc_heap_def)
qed

text \<open>
  A list of lists is stored at the address of its first row, which the pointer to that row overwrites, and
  the counter ends inside the second row.
\<close>

lemma nested_rows_overlap:
  "(case vbind (vm_store (VList [VList [VInt 1, VInt 2], VList [VInt 3, VInt 4]]))
           (\<lambda>v. list_to_heap_any v ''int'') vm_start of
      (r, st) \<Rightarrow> (r, vm_heap_counter st, map fst (map snd (vm_heap st))))
   = (Inr 0x80000000, 0x80000002,
      [WInt 0x80000000, WInt 0x80000002, WInt 3, WInt 4])"
  by code_simp

section \<open>Strings in the heap\<close>

lemma intern_string_run:
  assumes "intern_string s st = (Inr a, st')"
  shows "a = vm_heap_counter st"
    "i < length s \<Longrightarrow> dict_get (vm_heap st') (a + int i) = Some (WInt (of_char (s ! i)), ''char'')"
    "dict_get (vm_heap st') (a + int (length s)) = Some (WInt 0, ''char'')"
    "vm_heap_counter st' = a + int (length s) + 1"
proof -
  note r = assms [unfolded intern_string_def alloc_cells_run]
  show a: "a = vm_heap_counter st" using r by simp
  show "i < length s \<Longrightarrow> dict_get (vm_heap st') (a + int i) = Some (WInt (of_char (s ! i)), ''char'')"
    "dict_get (vm_heap st') (a + int (length s)) = Some (WInt 0, ''char'')"
    using r by (auto simp: put_cells_heap nth_append)
  show "vm_heap_counter st' = a + int (length s) + 1" using r by auto
qed

lemma heap_read_cell:
  assumes "dict_get (vm_heap st) a = Some (v, t)" "a \<noteq> 0"
  shows "heap_read (WInt a) st = (Inr v, st)"
  using assms by (simp add: heap_read_def act_defs)

lemma char_code:
  "(of_char c :: int) = 0 \<longleftrightarrow> c = CHR 0x00" "(of_char c :: int) = of_char d \<longleftrightarrow> c = d"
  "0 \<le> (of_char c :: int)" "(of_char c :: int) \<le> 255"
proof -
  have "of_char (CHR 0x00) = (0 :: int)" by simp
  then show "(of_char c :: int) = 0 \<longleftrightarrow> c = CHR 0x00" by (metis of_char_eq_iff)
  have "(of_char c :: int) = int (of_char c)" by (rule of_nat_of_char [symmetric])
  moreover have "(of_char c :: nat) < 256" by simp
  ultimately show "0 \<le> (of_char c :: int)" "(of_char c :: int) \<le> 255" by linarith+
qed simp

lemma vm_chr_code: "vm_chr (WInt (of_char c)) st = (Inr c, st)"
  using char_code(3,4) [of c] by (simp add: vm_chr_def vret_def)

text \<open>\<open>s\<close> lies at \<open>a\<close> with its terminator.\<close>

definition string_at :: "vm \<Rightarrow> int \<Rightarrow> string \<Rightarrow> bool" where
  "string_at st a s \<longleftrightarrow> 0 < a \<and> CHR 0x00 \<notin> set s
     \<and> (\<forall>i\<le>length s. \<exists>t. dict_get (vm_heap st) (a + int i)
          = Some (WInt (if i < length s then of_char (s ! i) else 0), t))"

lemma string_at_read:
  assumes "string_at st a s" "i \<le> length s"
  shows "heap_read (WInt (a + int i)) st = (Inr (WInt (if i < length s then of_char (s ! i) else 0)), st)"
proof -
  obtain t where "dict_get (vm_heap st) (a + int i)
      = Some (WInt (if i < length s then of_char (s ! i) else 0), t)"
    using assms unfolding string_at_def by blast
  moreover have "a + int i \<noteq> 0" using assms(1) by (simp add: string_at_def)
  ultimately show ?thesis by (rule heap_read_cell)
qed

lemma string_at_code:
  assumes "string_at st a s" "i < length s"
  shows "(of_char (s ! i) :: int) \<noteq> 0"
proof -
  have "s ! i \<noteq> CHR 0x00" using assms nth_mem [OF assms(2)] unfolding string_at_def by metis
  then show ?thesis by (simp add: char_code(1))
qed

lemma string_at_intern:
  assumes "intern_string s st = (Inr a, st')" "CHR 0x00 \<notin> set s" "0 < vm_heap_counter st"
  shows "string_at st' a s"
  using intern_string_run [OF assms(1)] assms(2,3) by (auto simp: string_at_def le_less)

lemma string_at_length:
  assumes "string_at st a s"
  shows "length s < cstr_fuel st"
proof -
  have "(\<lambda>i. a + int i) ` {..length s} \<subseteq> set (dict_keys (vm_heap st))"
    using assms by (fastforce simp: string_at_def dest: map_of_SomeD intro: rev_image_eqI)
  then have "card ((\<lambda>i. a + int i) ` {..length s}) \<le> card (set (dict_keys (vm_heap st)))"
    by (intro card_mono) simp_all
  also have "\<dots> \<le> length (vm_heap st)" by (metis card_length length_map)
  finally show ?thesis by (simp add: card_image inj_on_def cstr_fuel_def)
qed

lemma read_chars_string:
  "string_at st a s \<Longrightarrow> i \<le> length s \<Longrightarrow> length s - i < k \<Longrightarrow>
   read_chars k None a i st = (Inr (drop i s), st)"
proof (induction k arbitrary: i)
  case (Suc k)
  note r = string_at_read [OF Suc.prems(1,2)]
  show ?case
  proof (cases "i < length s")
    case True
    then have "read_chars k None a (Suc i) st = (Inr (drop (Suc i) s), st)" using Suc by simp
    then show ?thesis
      using r True string_at_code [OF Suc.prems(1) True] vm_chr_code
      by (simp add: vbind_def vret_def is_zero_val_def Cons_nth_drop_Suc)
  next
    case False
    then show ?thesis using r Suc.prems(2) by (simp add: vbind_def vret_def is_zero_val_def)
  qed
qed simp

lemma strlen_string:
  "string_at st a s \<Longrightarrow> i \<le> length s \<Longrightarrow> length s - i < k \<Longrightarrow> length s \<le> 100000 \<Longrightarrow>
   strlen_loop k a (int i) st = (Inr (WInt (int (length s))), st)"
proof (induction k arbitrary: i)
  case (Suc k)
  note r = string_at_read [OF Suc.prems(1,2)]
  show ?case
  proof (cases "i < length s")
    case True
    have "strlen_loop k a (int (Suc i)) st = (Inr (WInt (int (length s))), st)"
      by (rule Suc.IH) (use Suc.prems True in simp_all)
    then show ?thesis
      using r True string_at_code [OF Suc.prems(1) True] Suc.prems(4)
      by (simp add: vbind_def is_zero_val_def add.commute)
  next
    case False
    then show ?thesis using r Suc.prems(2) by (simp add: vbind_def vret_def is_zero_val_def)
  qed
qed simp

lemma strcmp_strings:
  "string_at st a s \<Longrightarrow> string_at st b t \<Longrightarrow> i \<le> length s \<Longrightarrow> i \<le> length t \<Longrightarrow> take i s = take i t \<Longrightarrow>
   length s - i < k \<Longrightarrow>
   \<exists>r. strcmp_loop k (a + int i) (b + int i) st = (Inr (WInt r), st) \<and> (r = 0 \<longleftrightarrow> s = t)"
proof (induction k arbitrary: i)
  case (Suc k)
  let ?x = "if i < length s then of_char (s ! i) else 0 :: int"
  let ?y = "if i < length t then of_char (t ! i) else 0 :: int"
  note rx = string_at_read [OF Suc.prems(1,3)] and ry = string_at_read [OF Suc.prems(2,4)]
  have eq: "vm_eq st (WInt ?x) (WInt ?y) = (?x = ?y)" by (simp add: vm_eq_def)
  have sub: "vm_apply2 py_sub (WInt ?x) (WInt ?y) st = (Inr (WInt (?x - ?y)), st)"
    by (simp add: vm_apply2_def act_defs vlift_def of_pyval_def py_sub_def num_op_def)
  have ne: "s \<noteq> t" if "?x \<noteq> ?y" using that by auto
  show ?case
  proof (cases "?x = ?y")
    case False
    have "strcmp_loop (Suc k) (a + int i) (b + int i) st = (Inr (WInt (?x - ?y)), st)"
      using rx ry eq sub False by (simp only: strcmp_loop.simps vbind_def vasks_def prod.case sum.case if_True simp_thms)
    then show ?thesis using ne [OF False] False by auto
  next
    case same: True
    show ?thesis
    proof (cases "i < length s")
      case True
      then have x: "?x \<noteq> 0" using string_at_code [OF Suc.prems(1)] by simp
      then have t: "i < length t" using same by (auto split: if_splits)
      then have "s ! i = t ! i" using same True by simp
      then have "take (Suc i) s = take (Suc i) t" using Suc.prems(5) True t by (simp add: take_Suc_conv_app_nth)
      from Suc.IH [OF Suc.prems(1,2) _ _ this] True t Suc.prems(6)
      have "\<exists>r. strcmp_loop k (a + int i + 1) (b + int i + 1) st = (Inr (WInt r), st) \<and> (r = 0 \<longleftrightarrow> s = t)"
        by (simp add: algebra_simps Suc_le_eq)
      moreover have "strcmp_loop (Suc k) (a + int i) (b + int i) st = strcmp_loop k (a + int i + 1) (b + int i + 1) st"
        using rx ry eq same x
        by (simp only: strcmp_loop.simps vbind_def vasks_def prod.case sum.case is_zero_val_def vval.case
            if_True if_False simp_thms)
      ultimately show ?thesis by simp
    next
      case False
      then have i: "i = length s" "?x = 0" using Suc.prems(3) by simp_all
      then have "i = length t"
        using same Suc.prems(4) string_at_code [OF Suc.prems(2), of i] by (auto split: if_splits)
      then have st: "s = t" using Suc.prems(5) i(1) by simp
      have "strcmp_loop (Suc k) (a + int i) (b + int i) st = (Inr (WInt 0), st)"
        using rx ry eq same i(2)
        by (simp only: strcmp_loop.simps vbind_def vasks_def vret_def prod.case sum.case is_zero_val_def vval.case
            if_True if_False simp_thms)
      then show ?thesis using st by auto
    qed
  qed
qed simp

text \<open>
  Strings survive the heap: a string without a null character that is stored with its terminator
  reads back as itself (this is how \<open>printf\<close> prints a \<open>char*\<close>), \<open>strlen\<close> of its address is its length
  up to the cap of 100000, and \<open>strcmp\<close> of the addresses of two stored strings is 0 exactly when they
  are equal.
\<close>
lemma strings_survive_the_heap:
  assumes "intern_string s st = (Inr a, st1)" "intern_string t st1 = (Inr b, st2)"
    and "CHR 0x00 \<notin> set s" "CHR 0x00 \<notin> set t" "0 < vm_heap_counter st" "length s \<le> 100000"
  shows "read_cstr None a st2 = (Inr s, st2) \<and> read_cstr None b st2 = (Inr t, st2)
    \<and> vbind (vasks cstr_fuel) (\<lambda>k. strlen_loop k a 0) st2 = (Inr (WInt (int (length s))), st2)
    \<and> (\<exists>r. vbind (vasks cstr_fuel) (\<lambda>k. strcmp_loop k a b) st2 = (Inr (WInt r), st2) \<and> (r = 0 \<longleftrightarrow> s = t))"
proof -
  have s1: "string_at st1 a s" by (rule string_at_intern [OF assms(1,3,5)])
  have c1: "vm_heap_counter st1 = a + int (length s) + 1" "a = vm_heap_counter st"
    using intern_string_run [OF assms(1)] by simp_all
  have "dict_get (vm_heap st2) (a + int i) = dict_get (vm_heap st1) (a + int i)" if "i \<le> length s" for i
    using assms(2) [unfolded intern_string_def alloc_cells_run] c1 that by (auto simp: put_cells_heap)
  then have s: "string_at st2 a s" using s1 by (simp add: string_at_def)
  have t: "string_at st2 b t" using string_at_intern [OF assms(2,4)] c1 assms(5) by simp
  note fuel = string_at_length [OF s] string_at_length [OF t]
  have "read_cstr None a st2 = (Inr s, st2)" "read_cstr None b st2 = (Inr t, st2)"
    using read_chars_string [OF s, of 0] read_chars_string [OF t, of 0] fuel
    by (simp_all add: read_cstr_def vbind_def vasks_def)
  moreover have "vbind (vasks cstr_fuel) (\<lambda>k. strlen_loop k a 0) st2 = (Inr (WInt (int (length s))), st2)"
    using strlen_string [OF s, of 0] fuel assms(6) by (simp add: vbind_def vasks_def)
  moreover have "\<exists>r. vbind (vasks cstr_fuel) (\<lambda>k. strcmp_loop k a b) st2 = (Inr (WInt r), st2) \<and> (r = 0 \<longleftrightarrow> s = t)"
    using strcmp_strings [OF s t, of 0] fuel by (simp add: vbind_def vasks_def)
  ultimately show ?thesis by blast
qed

theorem strings_survive_the_heap_witness:
  "\<exists>a b st2 r. read_cstr None a st2 = (Inr ''ab'', st2) \<and> read_cstr None b st2 = (Inr ''ac'', st2)
     \<and> vbind (vasks cstr_fuel) (\<lambda>k. strcmp_loop k a b) st2 = (Inr (WInt r), st2) \<and> r \<noteq> 0"
proof -
  obtain a st1 where a: "intern_string ''ab'' vm_start = (Inr a, st1)" by (simp add: intern_string_def alloc_cells_run)
  obtain b st2 where b: "intern_string ''ac'' st1 = (Inr b, st2)" by (simp add: intern_string_def alloc_cells_run)
  have c: "0 < vm_heap_counter vm_start" by (simp add: vm_start_def)
  from strings_survive_the_heap [OF a b _ _ c] show ?thesis by auto
qed

section \<open>Writes through arrays and pointers\<close>

text \<open>The statements \<open>_exec_expr_stmt\<close> takes for a write: \<open>**pp = e\<close>, \<open>*(e) = e\<close>, \<open>*p = e\<close> and \<open>a[e] = e\<close>.\<close>

definition is_write :: "stmt \<Rightarrow> bool" where
  "is_write stm \<longleftrightarrow>
     (let raw = str_strip (rstrip_by (\<lambda>c. c = CHR '';'') (str_strip (st_raw stm)))
      in list_ex (\<lambda>r. re_match r raw \<noteq> None) [rx_double_deref, rx_deref_paren, rx_deref_name, rx_index_write])"

lemma guarded_outcome:
  "fst (guarded P m st) = Inl e \<Longrightarrow> \<not> is_exception e"
  "\<not> vp_importable P \<Longrightarrow> guarded P m st = (Inr (), st)"
  by (auto simp: guarded_def vcatch_all_def vcatch_def vret_def vthrow_def is_exception_def
      split: prod.splits sum.splits if_splits)

lemma write_is_guarded:
  assumes "is_write stm"
  shows "\<exists>m. exec_expr_stmt P run stm f scope seg iteration = guarded P m"
  using assms unfolding is_write_def exec_expr_stmt_def Let_def
  by (auto split: option.splits)

text \<open>
  A write through an array or a pointer never fails: an exception of any kind raised while it is
  parsed, evaluated or stored ends the statement silently. When the absolute import at its head fails,
  as it does under \<open>python -m cdup\<close>, the write does nothing at all: no store, no trace row.
\<close>
lemma writes_fail_silently:
  assumes "is_write stm"
  shows "(\<forall>e. fst (exec_expr_stmt P run stm f scope seg iteration st) = Inl e \<longrightarrow> \<not> is_exception e)
    \<and> (\<not> vp_importable P \<longrightarrow> exec_expr_stmt P run stm f scope seg iteration st = (Inr (), st))"
  using write_is_guarded [OF assms] guarded_outcome by metis

theorem writes_fail_silently_witness:
  "\<forall>st. exec_expr_stmt (empty_prog\<lparr>vp_importable := False\<rparr>) (\<lambda>_ _ _. vret ())
     (mk_stmt ''a[1] = 7;'' ''expr'' None [] None) 0 ''root.main'' (mk_seg 1 0 ''function'' ''main'' []) None st
     = (Inr (), st)"
proof -
  have w: "is_write (mk_stmt ''a[1] = 7;'' ''expr'' None [] None)" by code_simp
  from writes_fail_silently [OF w, of "empty_prog\<lparr>vp_importable := False\<rparr>"] show ?thesis by simp
qed

end
