(* ===== verification/VmBrace.thy ===== *)
theory VmBrace
  imports VmText ExprRoundtrip
begin

text \<open>
  Initialisers round-trip: printing an integer or a nested list of integers as C writes it and parsing
  the text with \<open>_parse_initializer\<close> gives the value back.
\<close>

fun show_init :: "pyval \<Rightarrow> string" where
  "show_init (VInt i) = int_str i"
| "show_init (VList xs) = CHR ''{'' # str_join '', '' (map show_init xs) @ ''}''"
| "show_init _ = []"

fun int_tree :: "pyval \<Rightarrow> bool" where
  "int_tree (VInt i) = True"
| "int_tree (VList xs) = list_all int_tree xs"
| "int_tree _ = False"

section \<open>Integers\<close>

lemma py_int0_int_str: "py_int0 (int_str i) = Some i"
proof (cases "i < 0")
  case True
  have "is_digit (last (nat_digits (nat (- i))))"
    using nat_digits_all [of "nat (- i)"] last_in_set by (simp add: list_all_iff)
  then have "str_strip (''-'' @ nat_digits (nat (- i))) = ''-'' @ nat_digits (nat (- i))"
    using digit_classes(1) by (intro strip_by_id) (auto simp: is_space_def)
  with True show ?thesis by (simp add: py_int0_def int_str_def int0_digits)
next
  case False
  then show ?thesis by (simp add: py_int0_def int_str_def int0_digits)
qed

lemma int_str_chars:
  "int_str i \<noteq> []" "c \<in> set (int_str i) \<Longrightarrow> is_digit c \<or> c = CHR ''-''"
  using nat_digits_all by (auto simp: int_str_def list_all_iff split: if_splits)

section \<open>Elements\<close>

text \<open>A text the scan of the elements passes over as a whole, at any depth.\<close>

definition solid :: "string \<Rightarrow> bool" where
  "solid p \<longleftrightarrow> (\<forall>d\<ge>0. \<forall>cur rest. brace_elements d cur (p @ rest) = brace_elements d (cur @ p) rest)"

lemma solid_int: "solid (int_str i)"
proof -
  have plain: "brace_elements d cur (p @ rest) = brace_elements d (cur @ p) rest"
    if "\<forall>c\<in>set p. c \<notin> {CHR ''{'', CHR ''}'', CHR '',''}" for p d cur rest
    using that by (induction p arbitrary: cur) auto
  have "c \<notin> {CHR ''{'', CHR ''}'', CHR '',''}" if "c \<in> set (int_str i)" for c
    using int_str_chars(2) [OF that] by (auto simp: is_digit_def)
  then show ?thesis unfolding solid_def using plain by blast
qed

lemma inside_braces:
  assumes "list_all solid ps" "0 < d"
  shows "brace_elements d cur (str_join '', '' ps @ rest) = brace_elements d (cur @ str_join '', '' ps) rest"
  using assms
proof (induction ps arbitrary: cur rule: induct_list012)
  case (3 p q ps)
  have "brace_elements d cur (str_join '', '' (p # q # ps) @ rest)
      = brace_elements d (cur @ p) ('', '' @ str_join '', '' (q # ps) @ rest)"
    using 3 by (simp add: solid_def)
  also have "\<dots> = brace_elements d (cur @ p @ '', '') (str_join '', '' (q # ps) @ rest)"
    using 3(4) by simp
  also have "\<dots> = brace_elements d (cur @ p @ '', '' @ str_join '', '' (q # ps)) rest"
    using 3 by simp
  finally show ?case by simp
qed (simp_all add: solid_def)

lemma solid_braces:
  assumes "list_all solid ps"
  shows "solid (CHR ''{'' # str_join '', '' ps @ ''}'')"
  unfolding solid_def
proof (intro allI impI)
  fix d :: int and cur rest :: string
  assume "0 \<le> d"
  then have "brace_elements (d + 1) (cur @ ''{'') (str_join '', '' ps @ ''}'' @ rest)
      = brace_elements (d + 1) ((cur @ ''{'') @ str_join '', '' ps) (''}'' @ rest)"
    by (intro inside_braces [OF assms]) simp
  then show "brace_elements d cur ((CHR ''{'' # str_join '', '' ps @ ''}'') @ rest)
      = brace_elements d (cur @ CHR ''{'' # str_join '', '' ps @ ''}'') rest"
    by simp
qed

text \<open>A solid text that is not empty and neither starts nor ends with a space is one element.\<close>

definition element_text :: "string \<Rightarrow> bool" where
  "element_text p \<longleftrightarrow> solid p \<and> p \<noteq> [] \<and> \<not> is_space (hd p) \<and> \<not> is_space (last p)"

lemma strip_element: "element_text p \<Longrightarrow> str_strip ('' '' @ p) = p" "element_text p \<Longrightarrow> str_strip p = p"
proof -
  assume e: "element_text p"
  have "lstrip_by is_space ('' '' @ p) = lstrip_by is_space p"
    by (simp add: lstrip_by_def is_space_def)
  then have s: "str_strip ('' '' @ p) = str_strip p" by (simp add: strip_by_def)
  show p: "str_strip p = p" using e by (intro strip_by_id) (simp_all add: element_text_def)
  show "str_strip ('' '' @ p) = p" using s p by simp
qed

lemma elements_of_join:
  assumes "list_all element_text ps" "ps \<noteq> []"
  shows "brace_elements 0 '' '' (str_join '', '' ps) = ps" "brace_elements 0 [] (str_join '', '' ps) = ps"
proof -
  have "brace_elements 0 sp (str_join '', '' ps) = ps" if "sp = [] \<or> sp = '' ''" for sp
    using assms that
  proof (induction ps arbitrary: sp rule: induct_list012)
    case (2 p)
    then have e: "element_text p" by simp
    then have "brace_elements 0 sp (p @ []) = brace_elements 0 (sp @ p) []"
      unfolding element_text_def solid_def by blast
    then show ?case using strip_element [OF e] e 2(3) by (auto simp: element_text_def)
  next
    case (3 p q ps)
    then have e: "element_text p" by simp
    then have "brace_elements 0 sp (p @ '', '' @ str_join '', '' (q # ps))
        = brace_elements 0 (sp @ p) ('', '' @ str_join '', '' (q # ps))"
      unfolding element_text_def solid_def by blast
    also have "\<dots> = str_strip (sp @ p) # brace_elements 0 '' '' (str_join '', '' (q # ps))" by simp
    also have "str_strip (sp @ p) = p" using strip_element [OF e] 3(5) by auto
    also have "brace_elements 0 '' '' (str_join '', '' (q # ps)) = q # ps" using 3 by simp
    finally show ?case by simp
  qed simp
  then show "brace_elements 0 '' '' (str_join '', '' ps) = ps" "brace_elements 0 [] (str_join '', '' ps) = ps"
    by simp_all
qed

lemma element_show: "int_tree v \<Longrightarrow> element_text (show_init v)"
proof (induction v)
  case (VInt i)
  have "\<not> is_space c" if "c \<in> set (int_str i)" for c
    using int_str_chars(2) [OF that] digit_classes(1) by (auto simp: is_space_def)
  then show ?case using solid_int int_str_chars(1) by (simp add: element_text_def)
next
  case (VList xs)
  then have "list_all solid (map show_init xs)" by (simp add: list_all_iff element_text_def)
  from solid_braces [OF this] show ?case by (simp add: element_text_def is_space_def)
qed simp_all

section \<open>The round trip\<close>

lemma joined_ends:
  assumes "list_all element_text ps" "ps \<noteq> []"
  shows "str_join '', '' ps \<noteq> []" "\<not> is_space (hd (str_join '', '' ps))" "\<not> is_space (last (str_join '', '' ps))"
proof -
  show ne: "str_join '', '' ps \<noteq> []"
    using assms by (cases ps rule: remdups_adj.cases) (auto simp: element_text_def)
  show "\<not> is_space (hd (str_join '', '' ps))"
    using assms by (cases ps rule: remdups_adj.cases) (auto simp: element_text_def)
  show "\<not> is_space (last (str_join '', '' ps))"
    using assms
  proof (induction ps rule: induct_list012)
    case (3 p q ps)
    then have "str_join '', '' (q # ps) \<noteq> []" by (cases ps) (auto simp: element_text_def)
    then show ?case using 3 by simp
  qed (simp_all add: element_text_def)
qed

lemma inner_of_show:
  assumes "list_all element_text ps"
  shows "brace_elements 0 [] (brace_inner (CHR ''{'' # str_join '', '' ps @ ''}'')) = ps"
proof -
  have i: "brace_inner (CHR ''{'' # str_join '', '' ps @ ''}'') = str_join '', '' ps"
  proof (cases "ps = []")
    case True
    then show ?thesis by (simp add: brace_inner_def strip_by_def lstrip_by_def rstrip_by_def)
  next
    case False
    then show ?thesis
      using joined_ends [OF assms False] by (auto simp: brace_inner_def intro!: strip_by_id)
  qed
  show ?thesis
  proof (cases "ps = []")
    case True
    then show ?thesis using i by (simp add: strip_by_def lstrip_by_def rstrip_by_def)
  next
    case False
    then show ?thesis using i elements_of_join(2) [OF assms False] by simp
  qed
qed

lemma show_brace: "int_tree v \<Longrightarrow> startswith (show_init v) ''{'' \<longleftrightarrow> (\<exists>xs. v = VList xs)"
proof (cases v)
  case (VInt i)
  have "hd (int_str i) \<noteq> CHR ''{''"
    using int_str_chars(2) [OF hd_in_set [OF int_str_chars(1)], of i] by (auto simp: is_digit_def)
  then show ?thesis using VInt int_str_chars(1) [of i] by (cases "int_str i") (auto simp: startswith_def)
qed (auto simp: startswith_def)

lemma parse_brace_show:
  "int_tree w \<Longrightarrow> w = VList xs \<Longrightarrow> parse_brace_list (show_init w) = xs"
proof (induction w arbitrary: xs)
  case (VList ws)
  note IH = VList(1)
  have ws: "ws = xs" using VList(3) by simp
  have t: "int_tree (VList xs)" using VList(2) ws by simp
  have els: "list_all element_text (map show_init xs)" using t element_show by (simp add: list_all_iff)
  have "parse_brace_list (show_init (VList xs))
      = map (\<lambda>e. if startswith e ''{'' then VList (parse_brace_list e) else scalar_literal e e) (map show_init xs)"
    using inner_of_show [OF els] by (subst parse_brace_list.simps) simp
  also have "\<dots> = map (\<lambda>v. v) xs"
    unfolding map_map o_def
  proof (rule map_cong [OF refl])
    fix v assume v: "v \<in> set xs"
    with t have iv: "int_tree v" by (simp add: list_all_iff)
    show "(if startswith (show_init v) ''{'' then VList (parse_brace_list (show_init v))
        else scalar_literal (show_init v) (show_init v)) = v"
    proof (cases v)
      case (VList ys)
      then show ?thesis using IH [of v ys] v iv ws show_brace [OF iv] by simp
    next
      case (VInt i)
      then show ?thesis using show_brace [OF iv] by (simp add: scalar_literal_def py_int0_int_str)
    qed (use iv in simp_all)
  qed
  finally show ?case using ws by simp
qed simp_all

text \<open>
  C26. Printing an integer, or a list of integers and such lists, as a C initialiser and parsing it with
  \<open>_parse_initializer\<close> gives the same value: negative numbers, empty lists and any nesting included.
\<close>
theorem initializer_roundtrip:
  assumes "int_tree v"
  shows "parse_initializer (show_init v) = v"
proof -
  have s: "str_strip (show_init v) = show_init v" using strip_element(2) [OF element_show [OF assms]] .
  show ?thesis
  proof (cases v)
    case (VList xs)
    then show ?thesis
      using parse_brace_show [of v xs] assms show_brace [OF assms] s by (simp add: parse_initializer_def Let_def)
  next
    case (VInt i)
    then show ?thesis
      using show_brace [OF assms] s by (simp add: parse_initializer_def Let_def scalar_literal_def py_int0_int_str)
  qed (use assms in simp_all)
qed

theorem initializer_roundtrip_witness:
  "parse_initializer ''{{1, -2}, {}, 30}'' = VList [VList [VInt 1, VInt (- 2)], VList [], VInt 30]"
proof -
  have "show_init (VList [VList [VInt 1, VInt (- 2)], VList [], VInt 30]) = ''{{1, -2}, {}, 30}''" by code_simp
  then show ?thesis using initializer_roundtrip [of "VList [VList [VInt 1, VInt (- 2)], VList [], VInt 30]"] by simp
qed

end
