(* ===== verification/JavaText.thy ===== *)
theory JavaText
  imports FrontEnd
begin

text \<open>
  The Java preprocessor \<open>cdup/src/java_preprocess.py\<close>: one definition per pass over the text, with its
  patterns, and \<open>preprocess_java\<close>, which applies them in order. The set of modifiers is iterated in an
  order Python does not fix; it is the argument \<open>mods\<close>.
\<close>

section \<open>Tables\<close>

definition java_modifiers :: "string list" where
  "java_modifiers =
     [''public'', ''private'', ''protected'', ''static'', ''final'', ''abstract'', ''volatile'', ''transient'',
      ''synchronized'', ''native'', ''strictfp'', ''default'', ''sealed'', ''non-sealed'', ''open'']"

definition java_type_map :: "(string \<times> string) list" where
  "java_type_map =
     [(''boolean'', ''int''), (''byte'', ''char''), (''short'', ''short''), (''String'', ''char*''),
      (''Object'', ''void*''), (''Integer'', ''int''), (''Long'', ''long''), (''Double'', ''double''),
      (''Float'', ''float''), (''Boolean'', ''int''), (''Character'', ''char''), (''Byte'', ''char''),
      (''Short'', ''short'')]"

text \<open>A name between word boundaries.\<close>

definition rx_whole :: "string \<Rightarrow> rx" where
  "rx_whole w = rseq [RWordB, rlit w, RWordB]"

definition stdlib_map :: "(rx \<times> string) list" where
  "stdlib_map =
     map (\<lambda>(p, t). (rx_whole p, t))
       [(''System.out.println'', ''printf''), (''System.out.print'', ''printf''),
        (''System.err.println'', ''fprintf''), (''System.out.printf'', ''printf''),
        (''Math.abs'', ''abs''), (''Math.max'', ''fmax''), (''Math.min'', ''fmin''), (''Math.sqrt'', ''sqrt''),
        (''Math.pow'', ''pow''), (''Math.floor'', ''floor''), (''Math.ceil'', ''ceil''),
        (''Math.round'', ''round''), (''Math.log'', ''log''), (''Math.exp'', ''exp''), (''Math.PI'', ''M_PI''),
        (''Math.E'', ''M_E''), (''String.valueOf'', ''__str_of''), (''Integer.parseInt'', ''atoi''),
        (''Double.parseDouble'', ''atof''), (''Arrays.fill'', ''memset_fill''),
        (''Arrays.copyOf'', ''__arrays_copyOf''), (''Arrays.sort'', ''qsort'')]
     @ map (\<lambda>(p, t). (rlit p, t))
       [(''.length()'', ''_length()''), (''.size()'', ''_size()''), (''.charAt('', ''_charAt(''),
        (''.substring('', ''_substring(''), (''.equals('', ''_str_equals(''),
        (''.compareTo('', ''_str_compare(''), (''.toCharArray()'', ''_toCharArray()''),
        (''.toString()'', ''_toString()''), (''.indexOf('', ''_indexOf(''), (''.contains('', ''_contains(''),
        (''.toLowerCase()'', ''_toLowerCase()''), (''.toUpperCase()'', ''_toUpperCase()''),
        (''.trim()'', ''_trim()'')]
     @ map (\<lambda>(p, t). (rx_whole p, t)) [(''null'', ''NULL''), (''instanceof'', ''__instanceof__'')]"

section \<open>Annotations, imports, modifiers, types\<close>

text \<open>\<open>@\w+(?:\s*\(.*?\))?\<close>.\<close>

definition rx_annotation :: rx where
  "rx_annotation =
     rseq [rchr CHR ''@'', rplus rword,
           ropt (rseq [rstar rspace, rchr CHR ''('', rstar_lazy rdot, rchr CHR '')''])]"

definition strip_annotations :: "string \<Rightarrow> string" where
  "strip_annotations src =
     re_sub (RSeq rx_annotation (rstar rspace)) (\<lambda>m. [])
       (re_sub (rseq [RBeginLine, rstar rspace, rx_annotation, rstar rspace, REndLine]) (\<lambda>m. []) src)"

definition rx_directive :: "string \<Rightarrow> rx" where
  "rx_directive w =
     rseq [RBeginLine, rstar rspace, rlit w, rplus rspace, rstar_lazy rdot, rchr CHR '';'', rstar rspace, REndLine]"

definition strip_imports_packages :: "string \<Rightarrow> string" where
  "strip_imports_packages src =
     re_sub (rx_directive ''package'') (\<lambda>m. []) (re_sub (rx_directive ''import'') (\<lambda>m. []) src)"

definition strip_modifier :: "string \<Rightarrow> string \<Rightarrow> string" where
  "strip_modifier w = re_sub (RSeq (rx_whole w) (rstar rspace)) (\<lambda>m. [])"

definition map_lines :: "(string \<Rightarrow> string) \<Rightarrow> string \<Rightarrow> string" where
  "map_lines f src = str_join [newline] (map f (splitlines_acc [] src))"

definition strip_modifiers :: "string list \<Rightarrow> string \<Rightarrow> string" where
  "strip_modifiers mods = map_lines (fold strip_modifier mods)"

definition map_types :: "string \<Rightarrow> string" where
  "map_types = fold (\<lambda>(j, c). re_sub (rx_whole j) (\<lambda>m. c)) java_type_map"

section \<open>Generics\<close>

text \<open>The text behind the \<open>>\<close> that closes \<open>depth\<close> angle brackets; \<open>None\<close> where the scan gives up.\<close>

fun close_angle :: "nat \<Rightarrow> string \<Rightarrow> string option" where
  "close_angle 0 s = Some s"
| "close_angle (Suc depth) [] = None"
| "close_angle (Suc depth) (c # s) =
     (if c = CHR ''<'' then close_angle (Suc (Suc depth)) s
      else if c = CHR ''>'' then close_angle depth s
      else if c \<in> {CHR '';'', newline, CHR ''='', CHR ''{''} then None
      else close_angle (Suc depth) s)"

lemma close_angle_length: "close_angle d s = Some t \<Longrightarrow> length t \<le> length s"
  by (induction d s rule: close_angle.induct) (auto split: if_splits)

text \<open>The base name and the rest behind a generic type that starts here.\<close>

definition generic_at :: "string \<Rightarrow> (string \<times> string) option" where
  "generic_at s =
     (case re_match rident s of
        None \<Rightarrow> None
      | Some m \<Rightarrow>
          (case m_rest m of
             [] \<Rightarrow> None
           | c # t \<Rightarrow> if c = CHR ''<'' then map_option (\<lambda>rest. (m_text m, rest)) (close_angle 1 t) else None))"

lemma generic_at_length: "generic_at s = Some (name, rest) \<Longrightarrow> length rest < length s"
  by (auto simp: generic_at_def re_match_def split: option.splits list.splits if_splits
      dest!: close_angle_length re_match_at_split(1))

function strip_generics :: "string \<Rightarrow> string" where
  "strip_generics s =
     (case generic_at s of
        Some (name, rest) \<Rightarrow> name @ strip_generics rest
      | None \<Rightarrow> (case s of [] \<Rightarrow> [] | c # t \<Rightarrow> c # strip_generics t))"
  by pat_completeness auto
termination
  by (relation "measure length") (auto dest: generic_at_length)

declare strip_generics.simps [simp del]

section \<open>Fields, library names, allocation\<close>

text \<open>
  \<open>([A-Za-z_]\w*)\.length(?!\s*[(])\<close>: behind the blanks stands another character or the end of the text.
\<close>

definition rx_length :: rx where
  "rx_length =
     rseq [RGroup 1 rident, rlit ''.length'',
           RLook (RSeq (rstar rspace) (RAlt (RChar (\<lambda>c. \<not> is_space c \<and> c \<noteq> CHR ''('')) REnd))]"

definition desugar_length_field :: "string \<Rightarrow> string" where
  "desugar_length_field = re_sub rx_length (\<lambda>m. ''_arrlen('' @ m_group_str m 1 @ '')'')"

definition map_stdlib :: "string \<Rightarrow> string" where
  "map_stdlib = fold (\<lambda>(r, t). re_sub r (\<lambda>m. t)) stdlib_map"

text \<open>\<open>\[([^\]]+)\]\<close> and \<open>\bnew\s+([A-Za-z_]\w*)(\s*\[[^\]]*\](?:\s*\[[^\]]*\])*)\<close>.\<close>

definition rx_dim :: rx where
  "rx_dim = rseq [rchr CHR ''['', RGroup 1 (rplus (RChar (\<lambda>c. c \<noteq> CHR '']''))), rchr CHR '']'']"

definition rx_new_array :: rx where
  "rx_new_array =
     (let dim = rseq [rstar rspace, rchr CHR ''['', rstar (RChar (\<lambda>c. c \<noteq> CHR '']'')), rchr CHR '']'']
      in rseq [RWordB, rlit ''new'', rplus rspace, RGroup 1 rident, RGroup 2 (RSeq dim (rstar dim))])"

definition sizeof_text :: "string \<Rightarrow> string" where
  "sizeof_text t = ''sizeof('' @ t @ '')''"

definition replace_array_new :: "rmatch \<Rightarrow> string" where
  "replace_array_new m =
     (let t = sizeof_text (m_group_str m 1)
      in case map (\<lambda>d. m_group_str d 1) (re_finditer rx_dim (m_group_str m 2)) of
           [d] \<Rightarrow> ''malloc('' @ d @ '' * '' @ t @ '')''
         | [d, e] \<Rightarrow> ''malloc('' @ d @ '' * '' @ e @ '' * '' @ t @ '')''
         | _ \<Rightarrow> ''malloc('' @ t @ '')'')"

definition rx_new_object :: rx where
  "rx_new_object = rseq [RWordB, rlit ''new'', rplus rspace, RGroup 1 rident, rstar rspace, rchr CHR ''('']"

text \<open>The text behind the parenthesis that closes \<open>depth\<close> open ones.\<close>

fun close_round :: "nat \<Rightarrow> string \<Rightarrow> string option" where
  "close_round 0 s = Some s"
| "close_round (Suc depth) [] = None"
| "close_round (Suc depth) (c # s) =
     (if c = CHR ''('' then close_round (Suc (Suc depth)) s
      else if c = CHR '')'' then close_round depth s
      else close_round (Suc depth) s)"

lemma close_round_length: "close_round d s = Some t \<Longrightarrow> length t \<le> length s"
  by (induction d s rule: close_round.induct) (auto split: if_splits)

definition new_object_at :: "string \<Rightarrow> (string \<times> string) option" where
  "new_object_at s =
     (case re_match rx_new_object s of
        None \<Rightarrow> None
      | Some m \<Rightarrow> map_option (\<lambda>rest. (m_group_str m 1, rest)) (close_round 1 (m_rest m)))"

lemma boundary_match_shorter:
  assumes "re_match_at (RSeq RWordB r) pre s = Some m" "rx_first P r"
  shows "length (m_rest m) < length s"
proof -
  from assms(1) obtain st where st: "st \<in> set (rx_match r (pre, s, []))" "m = mk_match pre s st"
    by (auto simp: re_match_at_def split: list.splits if_splits)
  from rx_first_consumes [OF assms(2) st(1)] st(2) show ?thesis
    by (cases st) (auto simp: mk_match_def)
qed

lemma new_object_at_length: "new_object_at s = Some (t, rest) \<Longrightarrow> length rest < length s"
proof -
  assume "new_object_at s = Some (t, rest)"
  then obtain m where m: "re_match rx_new_object s = Some m" "close_round 1 (m_rest m) = Some rest"
    by (auto simp: new_object_at_def split: option.splits)
  have "length (m_rest m) < length s"
    using m(1) unfolding rx_new_object_def rseq.simps re_match_def
    by (rule boundary_match_shorter [where P = "\<lambda>c. True"]) (simp add: rlit_def)
  then show "length rest < length s" using close_round_length [OF m(2)] by simp
qed

function desugar_new_objects :: "string \<Rightarrow> string" where
  "desugar_new_objects s =
     (case new_object_at s of
        Some (t, rest) \<Rightarrow> ''malloc('' @ sizeof_text t @ '')'' @ desugar_new_objects rest
      | None \<Rightarrow> (case s of [] \<Rightarrow> [] | c # t \<Rightarrow> c # desugar_new_objects t))"
  by pat_completeness auto
termination
  by (relation "measure length") (auto dest: new_object_at_length)

declare desugar_new_objects.simps [simp del]

definition desugar_new :: "string \<Rightarrow> string" where
  "desugar_new src = desugar_new_objects (re_sub rx_new_array replace_array_new src)"

section \<open>The main method, this, loops over collections, exceptions, classes\<close>

text \<open>\<open>\bvoid\s+(main)\s*\([^)]*\)\<close>.\<close>

definition normalise_main :: "string \<Rightarrow> string" where
  "normalise_main =
     re_sub (rseq [RWordB, rlit ''void'', rplus rspace, RGroup 1 (rlit ''main''), rstar rspace, rchr CHR ''('',
                   rstar (RChar (\<lambda>c. c \<noteq> CHR '')'')), rchr CHR '')''])
       (\<lambda>m. ''int '' @ m_group_str m 1 @ ''()'')"

definition desugar_this :: "string \<Rightarrow> string" where
  "desugar_this = re_sub (rseq [RWordB, rlit ''this.'', RGroup 1 rident]) (\<lambda>m. m_group_str m 1)"

text \<open>\<open>\bfor\s*\(\s*([A-Za-z_]\w*(?:\[\])*)\s+([A-Za-z_]\w*)\s*:\s*([^)]+)\)\<close>.\<close>

definition rx_enhanced_for :: rx where
  "rx_enhanced_for =
     rseq [RWordB, rlit ''for'', rstar rspace, rchr CHR ''('', rstar rspace,
           RGroup 1 (RSeq rident (rstar (rlit ''[]''))), rplus rspace, RGroup 2 rident, rstar rspace,
           rchr CHR '':'', rstar rspace, RGroup 3 (rplus (RChar (\<lambda>c. c \<noteq> CHR '')''))), rchr CHR '')'']"

text \<open>The replacement of the match with number \<open>n\<close>; the comment names the variable for the fix-up.\<close>

definition replace_enhanced_for :: "nat \<Rightarrow> rmatch \<Rightarrow> string" where
  "replace_enhanced_for n m =
     (let typ = str_strip (m_group_str m 1); var = str_strip (m_group_str m 2);
          coll = str_strip (m_group_str m 3); idx = ''_efi'' @ nat_digits n
      in ''/* __efor_var__ '' @ typ @ '' '' @ var @ '' '' @ coll @ '' */'' @ [newline]
         @ ''for (int '' @ idx @ '' = 0; '' @ idx @ '' < _length('' @ coll @ ''); '' @ idx @ ''++)'')"

fun pieces_sub_numbered :: "(nat \<Rightarrow> rmatch \<Rightarrow> string) \<Rightarrow> nat \<Rightarrow> piece list \<Rightarrow> string" where
  "pieces_sub_numbered f n [] = []"
| "pieces_sub_numbered f n (PChar c # ps) = c # pieces_sub_numbered f n ps"
| "pieces_sub_numbered f n (PMatch m # ps) = f n m @ pieces_sub_numbered f (Suc n) ps"

definition desugar_enhanced_for :: "string \<Rightarrow> string" where
  "desugar_enhanced_for src = pieces_sub_numbered replace_enhanced_for 0 (re_pieces rx_enhanced_for [] src)"

text \<open>\<open>\bcatch\s*\(\s*(ID(?:\s*\|\s*ID)*)\s+(ID)\s*\)\<close> and \<open>\bfinally\s*(?=\{)\<close>.\<close>

definition rx_catch :: rx where
  "rx_catch =
     rseq [RWordB, rlit ''catch'', rstar rspace, rchr CHR ''('', rstar rspace,
           RGroup 1 (RSeq rident (rstar (rseq [rstar rspace, rchr CHR ''|'', rstar rspace, rident]))),
           rplus rspace, RGroup 2 rident, rstar rspace, rchr CHR '')'']"

definition rx_finally :: rx where
  "rx_finally = rseq [RWordB, rlit ''finally'', rstar rspace, RLook (rchr CHR ''{'')]"

definition desugar_try_catch :: "string \<Rightarrow> string" where
  "desugar_try_catch src =
     re_sub rx_finally (\<lambda>m. ''else /* finally */'')
       (re_sub rx_catch (\<lambda>m. ''catch (void* '' @ str_strip (m_group_str m 2) @ '')'') src)"

definition rx_name_list :: "bool \<Rightarrow> rx" where
  "rx_name_list greedy =
     RSeq (RChar (\<lambda>c. is_id_start c \<or> c = CHR ''$''))
       (RStar greedy (RChar (\<lambda>c. is_word c \<or> c = CHR ''$'' \<or> c = CHR '','' \<or> is_space c)))"

text \<open>
  \<open>\bclass\s+(ID)(?:\s+extends\s+ID)?(?:\s+implements\s+[A-Za-z_$][\w$,\s]*?)?\s*(?=\{)\<close>, and the same
  for \<open>interface\<close> with a greedy list behind \<open>extends\<close>.
\<close>

definition rx_class :: rx where
  "rx_class =
     rseq [RWordB, rlit ''class'', rplus rspace, RGroup 1 rident,
           ropt (rseq [rplus rspace, rlit ''extends'', rplus rspace, rident]),
           ropt (rseq [rplus rspace, rlit ''implements'', rplus rspace, rx_name_list False]),
           rstar rspace, RLook (rchr CHR ''{'')]"

definition rx_interface :: rx where
  "rx_interface =
     rseq [RWordB, rlit ''interface'', rplus rspace, RGroup 1 rident,
           ropt (rseq [rplus rspace, rlit ''extends'', rplus rspace, rx_name_list True]),
           rstar rspace, RLook (rchr CHR ''{'')]"

definition struct_header :: "rmatch \<Rightarrow> string" where
  "struct_header m = ''struct '' @ m_group_str m 1 @ '' ''"

definition desugar_class_header :: "string \<Rightarrow> string" where
  "desugar_class_header src = re_sub rx_interface struct_header (re_sub rx_class struct_header src)"

definition desugar_varargs :: "string \<Rightarrow> string" where
  "desugar_varargs =
     re_sub (rseq [RWordB, RGroup 1 (rplus rword), rlit ''...'', rstar rspace, RGroup 2 (rplus rword)])
       (\<lambda>m. m_group_str m 1 @ ''* '' @ m_group_str m 2)"

section \<open>Arrays\<close>

text \<open>\<open>^(\s*)(ID)(\**)(\[\](?:\[\])?)\s+(ID)\s*=\s*\{([^}]*)\}\s*;?\s*$\<close>.\<close>

definition rx_brace_decl :: rx where
  "rx_brace_decl =
     rseq [RBegin, RGroup 1 (rstar rspace), RGroup 2 rident, RGroup 3 (rstar (rchr CHR ''*'')),
           RGroup 4 (RSeq (rlit ''[]'') (ropt (rlit ''[]''))), rplus rspace, RGroup 5 rident, rstar rspace,
           rchr CHR ''='', rstar rspace, rchr CHR ''{'', RGroup 6 (rstar (RChar (\<lambda>c. c \<noteq> CHR ''}''))),
           rchr CHR ''}'', rstar rspace, ropt (rchr CHR '';''), rstar rspace, REnd]"

fun top_commas :: "int \<Rightarrow> string \<Rightarrow> nat" where
  "top_commas depth [] = 0"
| "top_commas depth (ch # s) =
     (if ch = CHR ''{'' then top_commas (depth + 1) s
      else if ch = CHR ''}'' then top_commas (depth - 1) s
      else if ch = CHR '','' \<and> depth = 0 then Suc (top_commas depth s)
      else top_commas depth s)"

definition sized_decl :: "rmatch \<Rightarrow> string" where
  "sized_decl m =
     (let contents = str_strip (m_group_str m 6);
          count = (if contents = [] then 0 else 1) + top_commas 0 contents
      in m_group_str m 1 @ m_group_str m 2 @ m_group_str m 3
         @ (if str_contains (m_group_str m 4) ''[][]'' then ''* '' else '' '')
         @ m_group_str m 5 @ ''['' @ nat_digits count @ ''] = {'' @ contents @ ''};'')"

definition array_line :: "string \<Rightarrow> string" where
  "array_line line =
     (case re_match rx_brace_decl line of
        Some m \<Rightarrow> sized_decl m
      | None \<Rightarrow>
          re_sub (rseq [RWordB, RGroup 1 rident, rlit ''[]'']) (\<lambda>m. m_group_str m 1 @ ''*'')
            (re_sub (rseq [RWordB, RGroup 1 rident, rlit ''[][]'']) (\<lambda>m. m_group_str m 1 @ ''**'') line))"

definition desugar_array_types :: "string \<Rightarrow> string" where
  "desugar_array_types = map_lines array_line"

text \<open>
  \<open>ord(ast.literal_eval("'" + inner + "'"))\<close> for an \<open>inner\<close> that starts with two backslashes: the first
  two characters are one backslash, and there must be nothing else in the literal but escaped line ends.
\<close>

fun only_continuations :: "string \<Rightarrow> bool" where
  "only_continuations [] = True"
| "only_continuations (a # b # s) = (a = bslash \<and> b = newline \<and> only_continuations s)"
| "only_continuations _ = False"

definition char_code_text :: "string \<Rightarrow> string" where
  "char_code_text p =
     (if startswith p [squote] \<and> endswith p [squote] then
        (let inner = drop 1 (butlast p)
         in if inner = [bslash, CHR ''0''] \<or> inner = [bslash, bslash, CHR ''0''] then ''0''
            else if startswith inner [bslash, bslash]
              then (if only_continuations (drop 2 inner) then ''92'' else ''0'')
            else (case inner of [c] \<Rightarrow> nat_digits (of_char c) | _ \<Rightarrow> ''0''))
      else p)"

text \<open>\<open>((?:char|int)\s+\w+\s*(?:\[[^\]]*\])?\s*=\s*)\{([^}]*)\}\<close>.\<close>

definition rx_char_init :: rx where
  "rx_char_init =
     rseq [RGroup 1 (rseq [RAlt (rlit ''char'') (rlit ''int''), rplus rspace, rplus rword, rstar rspace,
             ropt (rseq [rchr CHR ''['', rstar (RChar (\<lambda>c. c \<noteq> CHR '']'')), rchr CHR '']'']),
             rstar rspace, rchr CHR ''='', rstar rspace]),
           rchr CHR ''{'', RGroup 2 (rstar (RChar (\<lambda>c. c \<noteq> CHR ''}''))), rchr CHR ''}'']"

definition convert_init :: "rmatch \<Rightarrow> string" where
  "convert_init m =
     (let content = m_group_str m 2
      in if squote \<notin> set content then m_text m
         else re_sub (rx_whole ''char'') (\<lambda>_. ''int'') (m_group_str m 1) @ ''{''
              @ str_join '', '' (map (char_code_text \<circ> str_strip) (split_on CHR '','' content)) @ ''}'')"

definition desugar_char_array_init :: "string \<Rightarrow> string" where
  "desugar_char_array_init = re_sub rx_char_init convert_init"

text \<open>\<open>\b(ID)\[(\d+)\]\[(\d+)\]\s*=\s*([^;\n]+);\<close> and \<open>(ID)\*\s+(ID)\[1\]\s*=\s*\{(ID)\}\<close>.\<close>

definition rx_double_index :: rx where
  "rx_double_index =
     rseq [RWordB, RGroup 1 rident, rchr CHR ''['', RGroup 2 (rplus rdigit), rlit '']['', RGroup 3 (rplus rdigit),
           rchr CHR '']'', rstar rspace, rchr CHR ''='', rstar rspace,
           RGroup 4 (rplus (RChar (\<lambda>c. c \<noteq> CHR '';'' \<and> c \<noteq> newline))), rchr CHR '';'']"

definition rx_pointer_cell :: rx where
  "rx_pointer_cell =
     rseq [RGroup 1 rident, rchr CHR ''*'', rplus rspace, RGroup 2 rident, rlit ''[1]'', rstar rspace,
           rchr CHR ''='', rstar rspace, rchr CHR ''{'', RGroup 3 rident, rchr CHR ''}'']"

definition desugar_double_index :: "string \<Rightarrow> string" where
  "desugar_double_index src =
     re_sub rx_pointer_cell (\<lambda>m. m_group_str m 1 @ ''** '' @ m_group_str m 2 @ '' = &'' @ m_group_str m 3)
       (re_sub rx_double_index
          (\<lambda>m. ''*(('' @ m_group_str m 1 @ '')['' @ m_group_str m 2 @ '']) = '' @ str_strip (m_group_str m 4) @ '';'')
          src)"

section \<open>Printing\<close>

text \<open>The operands of a concatenation: a \<open>+\<close> outside literals and brackets separates.\<close>

fun split_concat :: "bool \<Rightarrow> int \<Rightarrow> string \<Rightarrow> string \<Rightarrow> string list" where
  "split_concat in_str depth current [] = (if str_strip current \<noteq> [] then [str_strip current] else [])"
| "split_concat in_str depth current (c # s) =
     (if in_str then
        (if c = dquote then split_concat False depth (current @ [c]) s
         else if c = bslash
           then (case s of [] \<Rightarrow> split_concat in_str depth (current @ [c]) []
                 | d # s' \<Rightarrow> split_concat in_str depth (current @ [c, d]) s')
         else split_concat in_str depth (current @ [c]) s)
      else if c = dquote then split_concat True depth (current @ [c]) s
      else if c = CHR ''('' \<or> c = CHR ''['' then split_concat in_str (depth + 1) (current @ [c]) s
      else if c = CHR '')'' \<or> c = CHR '']'' then split_concat in_str (depth - 1) (current @ [c]) s
      else if c = CHR ''+'' \<and> depth = 0
        then (if str_strip current \<noteq> [] then [str_strip current] else []) @ split_concat in_str depth [] s
      else split_concat in_str depth (current @ [c]) s)"

text \<open>\<open>\bSystem\.out\.(print(?:ln)?)\s*\((.+?)\)(?=\s*;)\<close>, where the dot is any character.\<close>

definition rx_print :: rx where
  "rx_print =
     rseq [RWordB, rlit ''System.out.'', RGroup 1 (RSeq (rlit ''print'') (ropt (rlit ''ln''))), rstar rspace,
           rchr CHR ''('', RGroup 2 (rplus_lazy rany), rchr CHR '')'', RLook (RSeq (rstar rspace) (rchr CHR '';''))]"

definition is_literal :: "string \<Rightarrow> bool" where
  "is_literal p \<longleftrightarrow> startswith p [dquote] \<and> endswith p [dquote]"

definition convert_print :: "rmatch \<Rightarrow> string" where
  "convert_print m =
     (let parts = split_concat False 0 [] (str_strip (m_group_str m 2));
          varargs = filter (\<lambda>p. \<not> is_literal p) parts;
          fmt = concat (map (\<lambda>p. if is_literal p then drop 1 (butlast p) else ''%s'') parts)
                @ (if str_contains (m_group_str m 1) ''println'' then [bslash, CHR ''n''] else [])
      in ''printf('' @ [dquote] @ fmt @ [dquote]
         @ (if varargs \<noteq> [] then '', '' @ str_join '', '' varargs else []) @ '')'')"

definition desugar_string_concat :: "string \<Rightarrow> string" where
  "desugar_string_concat = re_sub rx_print convert_print"

section \<open>Constructors\<close>

text \<open>\<open>[A-Z][A-Za-z_]\w*\<close>.\<close>

definition rx_capital :: rx where
  "rx_capital = rseq [RChar is_upper, RChar is_id_start, rstar rword]"

text \<open>\<open>^(\s*)([A-Z][A-Za-z_]\w*)\s*(\([^{;]*\)\s*(?:\{|$))\<close>.\<close>

definition rx_constructor :: rx where
  "rx_constructor =
     rseq [RBeginLine, RGroup 1 (rstar rspace), RGroup 2 rx_capital, rstar rspace,
           RGroup 3 (rseq [rchr CHR ''('', rstar (RChar (\<lambda>c. c \<noteq> CHR ''{'' \<and> c \<noteq> CHR '';'')), rchr CHR '')'',
             rstar rspace, RAlt (rchr CHR ''{'') REndLine])]"

text \<open>\<open>_fix_line\<close> on the match of \<open>([A-Z][A-Za-z_]\w*)(.*)\<close>: what follows a line break is not in it.\<close>

definition fix_line :: "string list \<Rightarrow> string \<Rightarrow> string" where
  "fix_line class_names s =
     (case re_match (RSeq (RGroup 1 rx_capital) (RGroup 2 (rstar rdot))) s of
        None \<Rightarrow> []
      | Some m \<Rightarrow>
          if m_group_str m 1 \<in> set class_names then ''void '' @ m_group_str m 1 @ m_group_str m 2 else m_text m)"

definition fixup_constructor :: "string \<Rightarrow> string" where
  "fixup_constructor src =
     (let class_names = map (\<lambda>m. m_group_str m 1)
            (re_finditer (rseq [RWordB, rlit ''struct'', rplus rspace, RGroup 1 rident]) src)
      in if class_names = [] then src
         else re_sub rx_constructor
                (\<lambda>m. m_group_str m 1 @ fix_line class_names (m_group_str m 2 @ m_group_str m 3)) src)"

section \<open>The preprocessor\<close>

definition preprocess_java :: "string list \<Rightarrow> string \<Rightarrow> string" where
  "preprocess_java mods =
     fixup_constructor \<circ> desugar_varargs \<circ> desugar_double_index \<circ> desugar_char_array_init
     \<circ> desugar_array_types \<circ> desugar_try_catch \<circ> desugar_enhanced_for \<circ> desugar_this \<circ> normalise_main
     \<circ> desugar_new \<circ> map_stdlib \<circ> desugar_length_field \<circ> desugar_string_concat \<circ> map_types
     \<circ> strip_modifiers mods \<circ> desugar_class_header \<circ> strip_generics \<circ> strip_imports_packages
     \<circ> strip_annotations"

end
