(* ===== verification/JavaFront.thy ===== *)
theory JavaFront
  imports JavaText
begin

text \<open>
  \<open>cdup/src/java_parse.py\<close>: the fix-ups on the segments that \<open>parse_c_file\<close> makes of the preprocessed text,
  and \<open>parse_java_file\<close>. A Java segment has two more fields: the language tag, and for each slot that stands
  for the variable of a loop over a collection the name of the collection.
\<close>

record java_segment = segment +
  jg_language :: string
  jg_collections :: "(string, string) dict"

section \<open>Fix-ups\<close>

definition fixup_language_tag :: "segment \<Rightarrow> java_segment" where
  "fixup_language_tag s = segment.extend s (java_segment.fields ''java'' [])"

text \<open>The parents of functions are classes.\<close>

definition fn_parents :: "('a segment_scheme) list \<Rightarrow> nat list" where
  "fn_parents segs = map sg_parent (filter (\<lambda>s. sg_type s = ''function'') segs)"

definition fixup_seg_types :: "java_segment list \<Rightarrow> java_segment list" where
  "fixup_seg_types segs =
     map (\<lambda>s. if sg_type s = ''struct'' \<and> sg_id s \<in> set (fn_parents segs) then s\<lparr>sg_type := ''class''\<rparr> else s) segs"

text \<open>\<open>/\*\s*__efor_var__\s+(\S+)\s+(\S+)\s+(\S+)\s*\*/\<close>.\<close>

definition rx_efor :: rx where
  "rx_efor =
     (let solid = rplus (RChar (\<lambda>c. \<not> is_space c))
      in rseq [rlit ''/*'', rstar rspace, rlit ''__efor_var__'', rplus rspace, RGroup 1 solid, rplus rspace,
               RGroup 2 solid, rplus rspace, RGroup 3 solid, rstar rspace, rlit ''*/''])"

record efor =
  ef_parent :: nat
  ef_type :: string
  ef_name :: string
  ef_collection :: string

definition efor_of :: "nat \<Rightarrow> stmt \<Rightarrow> efor option" where
  "efor_of i st =
     map_option (\<lambda>m. \<lparr>ef_parent = i, ef_type = m_group_str m 1, ef_name = m_group_str m 2,
                      ef_collection = m_group_str m 3\<rparr>)
       (re_search rx_efor (st_raw st))"

definition efor_queue :: "java_segment list \<Rightarrow> efor list" where
  "efor_queue segs = concat (map (\<lambda>s. List.map_filter (efor_of (sg_id s)) (sg_stmts s)) segs)"

definition drop_sentinels :: "java_segment \<Rightarrow> java_segment" where
  "drop_sentinels s = s\<lparr>sg_stmts := filter (\<lambda>st. efor_of (sg_id s) st = None) (sg_stmts s)\<rparr>"

definition efor_slot :: "java_segment \<Rightarrow> efor \<Rightarrow> slot" where
  "efor_slot s e =
     \<lparr>sl_name = ef_name e, sl_scoped_name = sg_scope_path s @ ''.'' @ ef_name e, sl_type = ef_type e,
      sl_constant = False, sl_param = False, sl_loop_iterator = False, sl_value = None, sl_udt_parent = None,
      sl_udt_type = None\<rparr>"

definition add_efor_slot :: "efor \<Rightarrow> java_segment \<Rightarrow> java_segment" where
  "add_efor_slot e s =
     (if list_ex (\<lambda>m. sl_name m = ef_name e) (sg_memory s) then s
      else s\<lparr>sg_memory := efor_slot s e # sg_memory s,
             jg_collections := dict_set (ef_name e) (ef_collection e) (jg_collections s)\<rparr>)"

text \<open>
  \<open>seg_by_id\<close> holds the last segment of an id; the segments are objects, so the update is seen in the
  list, at the position of that last segment.
\<close>

fun update_last :: "('a \<Rightarrow> bool) \<Rightarrow> ('a \<Rightarrow> 'a) \<Rightarrow> 'a list \<Rightarrow> 'a list" where
  "update_last P f [] = []"
| "update_last P f (x # xs) = (if P x \<and> \<not> list_ex P xs then f x # xs else x # update_last P f xs)"

definition loop_children :: "java_segment list \<Rightarrow> nat \<Rightarrow> nat list" where
  "loop_children segs p =
     filter (\<lambda>c. case dict_get (dict_by sg_id segs) c of None \<Rightarrow> False | Some s \<Rightarrow> sg_type s = ''loop'')
       (map sg_id (filter (\<lambda>s. sg_parent s = p \<and> sg_parent s \<noteq> sg_id s) segs))"

text \<open>Every annotation goes to the first loop among the children of its segment.\<close>

definition place_efor :: "efor \<Rightarrow> java_segment list \<Rightarrow> java_segment list" where
  "place_efor e segs =
     (case loop_children segs (ef_parent e) of
        [] \<Rightarrow> segs
      | c # _ \<Rightarrow> update_last (\<lambda>s. sg_id s = c) (add_efor_slot e) segs)"

definition fixup_enhanced_for_vars :: "java_segment list \<Rightarrow> java_segment list" where
  "fixup_enhanced_for_vars segs = fold place_efor (efor_queue segs) (map drop_sentinels segs)"

definition exception_slot :: "slot \<Rightarrow> slot" where
  "exception_slot m = (if sl_type m = ''void*'' then m\<lparr>sl_type := ''exception''\<rparr> else m)"

definition fixup_remove_catch_void :: "java_segment \<Rightarrow> java_segment" where
  "fixup_remove_catch_void s =
     (if sg_type s = ''branch'' then s\<lparr>sg_memory := map exception_slot (sg_memory s)\<rparr> else s)"

definition java_fixup :: "segment list \<Rightarrow> java_segment list" where
  "java_fixup segs =
     map fixup_remove_catch_void
       (fixup_enhanced_for_vars (fixup_seg_types (map fixup_language_tag segs)))"

section \<open>The Java front end\<close>

record java_file =
  jf_segments :: "java_segment list"
  jf_matrix :: matrix
  jf_dag :: dag

text \<open>The matrix and the graph stay those of the text before the fix-ups.\<close>

definition parse_java_file :: "string list \<Rightarrow> string \<Rightarrow> java_file py" where
  "parse_java_file mods file_str =
     py_bind (parse_c_file (preprocess_java mods file_str) False False False) (\<lambda>ir.
       Inr \<lparr>jf_segments = java_fixup (pf_segments ir), jf_matrix = pf_matrix ir, jf_dag = pf_dag ir\<rparr>)"

end
