(* ===== verification/JavaFrontFacts.thy ===== *)
theory JavaFrontFacts
  imports JavaFront FrontEndFacts
begin

text \<open>
  What the Java front end adds to the segments of \<open>parse_c_file\<close>: the fix-ups rename, retype and annotate,
  but ids, parents, names, scope paths and constants stay, and the statements stay apart from sentinels.
\<close>

section \<open>The relation between a segment and its fixed-up form\<close>

text \<open>The slots added for loops over collections stand first; nothing else changes in the memory.\<close>

definition memory_grown :: "segment \<Rightarrow> java_segment \<Rightarrow> bool" where
  "memory_grown c j \<longleftrightarrow>
     (\<exists>new. sg_memory j = new @ sg_memory c
        \<and> distinct (map sl_name new) \<and> set (map sl_name new) \<inter> set (map sl_name (sg_memory c)) = {}
        \<and> map fst (jg_collections j) = rev (map sl_name new)
        \<and> list_all (\<lambda>m. sl_scoped_name m = sg_scope_path c @ ''.'' @ sl_name m) new
        \<and> (new \<noteq> [] \<longrightarrow> sg_type c = ''loop''))"

definition java_type :: "nat list \<Rightarrow> segment \<Rightarrow> string" where
  "java_type parents c = (if sg_type c = ''struct'' \<and> sg_id c \<in> set parents then ''class'' else sg_type c)"

definition frame_kept :: "nat list \<Rightarrow> segment \<Rightarrow> java_segment \<Rightarrow> bool" where
  "frame_kept parents c j \<longleftrightarrow>
     sg_id j = sg_id c \<and> sg_parent j = sg_parent c \<and> sg_name j = sg_name c \<and> sg_scope_path j = sg_scope_path c
     \<and> sg_head j = sg_head c \<and> sg_constants j = sg_constants c \<and> jg_language j = ''java''
     \<and> sg_type j = java_type parents c"

definition java_of :: "nat list \<Rightarrow> segment \<Rightarrow> java_segment \<Rightarrow> bool" where
  "java_of parents c j \<longleftrightarrow> frame_kept parents c j \<and> memory_grown c j
     \<and> sg_stmts j = filter (\<lambda>st. re_search rx_efor (st_raw st) = None) (sg_stmts c)"

lemma start_of:
  assumes "parents = fn_parents cs"
  shows "list_all2 (java_of parents) cs (map drop_sentinels (fixup_seg_types (map fixup_language_tag cs)))"
proof -
  have "fn_parents (map fixup_language_tag cs) = parents"
    by (simp add: assms fn_parents_def fixup_language_tag_def filter_map o_def segment.defs)
  then show ?thesis
    by (auto simp: fixup_seg_types_def list_all2_conv_all_nth java_of_def frame_kept_def memory_grown_def
        java_type_def drop_sentinels_def efor_of_def fixup_language_tag_def segment.defs java_segment.defs)
qed

lemma ids_kept: "list_all2 (java_of parents) cs js \<Longrightarrow> map sg_id js = map sg_id cs"
  by (induction rule: list_all2_induct) (auto simp: java_of_def frame_kept_def)

lemma add_slot_of:
  assumes "java_of parents c j" "sg_type j = ''loop''"
  shows "java_of parents c (add_efor_slot e j)"
proof -
  have l: "sg_type c = ''loop''"
    using assms by (auto simp: java_of_def frame_kept_def java_type_def split: if_splits)
  from assms(1) obtain new where new: "sg_memory j = new @ sg_memory c" "distinct (map sl_name new)"
      "set (map sl_name new) \<inter> set (map sl_name (sg_memory c)) = {}" "map fst (jg_collections j) = rev (map sl_name new)"
      "list_all (\<lambda>m. sl_scoped_name m = sg_scope_path c @ ''.'' @ sl_name m) new"
    by (auto simp: java_of_def memory_grown_def)
  show ?thesis
  proof (cases "list_ex (\<lambda>m. sl_name m = ef_name e) (sg_memory j)")
    case False
    then have fresh: "ef_name e \<notin> set (map sl_name new)" "ef_name e \<notin> set (map sl_name (sg_memory c))"
      using new(1) by (auto simp: list_ex_iff)
    have sc: "sg_scope_path j = sg_scope_path c" using assms(1) by (simp add: java_of_def frame_kept_def)
    have "ef_name e \<notin> set (map fst (jg_collections j))" using fresh(1) new(4) by simp
    then have "map fst (dict_set (ef_name e) (ef_collection e) (jg_collections j))
        = rev (map sl_name (efor_slot j e # new))"
      using new(4) by (simp add: dict_set_fresh efor_slot_def)
    then have "memory_grown c (add_efor_slot e j)"
      unfolding memory_grown_def
      by (intro exI [of _ "efor_slot j e # new"])
        (use False new fresh l sc in \<open>auto simp: add_efor_slot_def efor_slot_def\<close>)
    then show ?thesis using assms(1) False by (auto simp: java_of_def frame_kept_def add_efor_slot_def)
  qed (use assms(1) in \<open>simp add: add_efor_slot_def\<close>)
qed

lemma update_last_of:
  assumes "list_all2 R cs js" "\<And>c j. R c j \<Longrightarrow> j \<in> set js \<Longrightarrow> P j \<Longrightarrow> R c (f j)"
  shows "list_all2 R cs (update_last P f js)"
  using assms by (induction rule: list_all2_induct) auto

lemma place_of:
  assumes "list_all2 (java_of parents) cs js" "distinct (map sg_id cs)"
  shows "list_all2 (java_of parents) cs (place_efor e js)"
proof (cases "loop_children js (ef_parent e)")
  case (Cons i rest)
  then have "i \<in> set (loop_children js (ef_parent e))" by simp
  then obtain s where s: "dict_get (dict_by sg_id js) i = Some s" "sg_type s = ''loop''"
    by (auto simp: loop_children_def split: option.splits)
  have d: "distinct (map sg_id js)" using assms ids_kept by metis
  have "list_all2 (java_of parents) cs (update_last (\<lambda>s. sg_id s = i) (add_efor_slot e) js)"
  proof (rule update_last_of [OF assms(1)])
    fix c j assume j: "java_of parents c j" "j \<in> set js" "sg_id j = i"
    have "j = s" using dict_by_Some [OF d j(2)] j(3) s(1) by simp
    then show "java_of parents c (add_efor_slot e j)" using add_slot_of [OF j(1)] s(2) by simp
  qed
  then show ?thesis using Cons by (simp add: place_efor_def)
qed (use assms in \<open>simp add: place_efor_def\<close>)

lemma enhanced_for_of:
  assumes "parents = fn_parents cs" "distinct (map sg_id cs)"
  shows "list_all2 (java_of parents) cs (fixup_enhanced_for_vars (fixup_seg_types (map fixup_language_tag cs)))"
proof -
  have "list_all2 (java_of parents) cs (fold place_efor q js)" if "list_all2 (java_of parents) cs js" for q js
    using that assms(2) by (induction q arbitrary: js) (simp_all add: place_of)
  then show ?thesis unfolding fixup_enhanced_for_vars_def using start_of [OF assms(1)] by blast
qed

text \<open>The last pass: in a branch the \<open>void*\<close> slots become exceptions.\<close>

definition java_segment_of :: "nat list \<Rightarrow> segment \<Rightarrow> java_segment \<Rightarrow> bool" where
  "java_segment_of parents c j \<longleftrightarrow> frame_kept parents c j
     \<and> sg_stmts j = filter (\<lambda>st. re_search rx_efor (st_raw st) = None) (sg_stmts c)
     \<and> (if sg_type c = ''branch'' then sg_memory j = map exception_slot (sg_memory c) else memory_grown c j)"

lemma java_fixup_of:
  assumes "distinct (map sg_id cs)"
  shows "list_all2 (java_segment_of (fn_parents cs)) cs (java_fixup cs)"
proof -
  have step: "java_segment_of ps c (fixup_remove_catch_void j)" if "java_of ps c j" for ps c j
    using that by (auto simp: java_segment_of_def java_of_def fixup_remove_catch_void_def frame_kept_def
        memory_grown_def java_type_def split: if_splits)
  show ?thesis
    using enhanced_for_of [OF refl assms]
    by (auto simp: java_fixup_def list_all2_conv_all_nth intro!: step)
qed

lemma segments_wf_cong:
  assumes "map sg_id xs = map sg_id ys" "map sg_parent xs = map sg_parent ys" "segments_wf ys"
  shows "segments_wf xs"
proof -
  have len: "length xs = length ys" using assms(1) by (metis length_map)
  have at: "sg_id (xs ! i) = sg_id (ys ! i)" "sg_parent (xs ! i) = sg_parent (ys ! i)" if "i < length ys" for i
    using that len arg_cong [OF assms(1), of "\<lambda>l. l ! i"] arg_cong [OF assms(2), of "\<lambda>l. l ! i"] by simp_all
  have ids: "sg_id ` set xs = sg_id ` set ys" using assms(1) by (metis set_map)
  show ?thesis
    using assms(3) assms(1) len at unfolding segments_wf_def ids by (auto simp: all_set_conv_all_nth)
qed

section \<open>The Java front end\<close>

lemma java_front_run:
  assumes "closes_only_opened (bk_b_seq (scan_brackets (preprocess_java mods s)))
    \<and> closes_only_opened (bk_p_seq (scan_brackets (preprocess_java mods s)))"
  shows "\<exists>r jf. parse_c_file (preprocess_java mods s) False False False = Inr r \<and> parse_java_file mods s = Inr jf
    \<and> list_all2 (java_segment_of (fn_parents (pf_segments r))) (pf_segments r) (jf_segments jf)
    \<and> jf_matrix jf = pf_matrix r \<and> jf_dag jf = pf_dag r \<and> segments_wf (jf_segments jf)
    \<and> map sg_id (jf_segments jf) = [0..<length (jf_segments jf)]"
proof -
  let ?n = "preprocess_java mods s"
  from parse_c_file_run [OF assms] obtain segs m d fi stmnts parents where
    r: "built_from fi stmnts parents segs"
      "parse_c_file ?n False False False = Inr \<lparr>pf_segments = segs, pf_matrix = m, pf_dag = d\<rparr>" by blast
  have wf: "segments_wf segs" by (rule built_wf [OF r(1)])
  then have j: "list_all2 (java_segment_of (fn_parents segs)) segs (java_fixup segs)"
    by (intro java_fixup_of) (simp add: segments_wf_def)
  have ids: "map sg_id (java_fixup segs) = map sg_id segs" "map sg_parent (java_fixup segs) = map sg_parent segs"
    using j by (induction rule: list_all2_induct) (auto simp: java_segment_of_def frame_kept_def)
  then have "segments_wf (java_fixup segs)" using wf by (rule segments_wf_cong)
  moreover have "map sg_id (java_fixup segs) = [0..<length (java_fixup segs)]"
    using ids(1) r(1) built_length [OF r(1)] list_all2_lengthD [OF j] by (simp add: built_from_def)
  ultimately show ?thesis using j r(2) by (simp add: parse_java_file_def)
qed

lemma java_front_fails:
  "\<not> (closes_only_opened (bk_b_seq (scan_brackets (preprocess_java mods s)))
    \<and> closes_only_opened (bk_p_seq (scan_brackets (preprocess_java mods s)))) \<Longrightarrow> parse_java_file mods s = Inl IndexError"
  using code_blocks_fails by (auto simp: parse_java_file_def parse_c_file_def c_segments_def)

text \<open>
  C27. The Java front end raises exactly when the preprocessed text closes a bracket that is not open, and
  then with \<open>IndexError\<close>. Otherwise its segments are those of the C front end on that text, one by one:
  ids, parents, names, scope paths, heads and constants are kept, the structs that hold functions
  become classes, the sentinel comments are gone from the statements and nothing else is, and the memory
  is kept except for exception slots in branches and new slots, in loops only, for variables that run
  over a collection. So every pass that is correct on a well-formed list of segments also accepts the
  segments of a Java file.
\<close>
theorem parse_java_file_segments:
  "let near_c = preprocess_java mods s; brackets = scan_brackets near_c
   in if closes_only_opened (bk_b_seq brackets) \<and> closes_only_opened (bk_p_seq brackets)
      then \<exists>r jf. parse_c_file near_c False False False = Inr r \<and> parse_java_file mods s = Inr jf
        \<and> list_all2 (java_segment_of (fn_parents (pf_segments r))) (pf_segments r) (jf_segments jf)
        \<and> jf_matrix jf = pf_matrix r \<and> jf_dag jf = pf_dag r \<and> segments_wf (jf_segments jf)
      else parse_java_file mods s = Inl IndexError"
  using java_front_run [of mods s] java_front_fails [of mods s] unfolding Let_def by (auto split: if_splits)

text \<open>
  The annotation for a loop over a collection is a comment, and \<open>parse_java_file\<close> leaves comments out, so the
  fix-up never sees one and the variable of the loop gets no slot.
\<close>

lemma sentinel_is_dropped:
  "parse_statements False False False (''/* __efor_var__ int v xs */'' @ [newline] @ ''for (int i = 0; i < n; i++) {}'')
    = [''for (int i = 0; i < n; i++) {}'']"
  "efor_of 0 (classify_statement ''/* __efor_var__ int v xs */'' [] None)
    = Some \<lparr>ef_parent = 0, ef_type = ''int'', ef_name = ''v'', ef_collection = ''xs''\<rparr>"
  by code_simp+

end
