(* ===== verification/JavaTextFacts.thy ===== *)
theory JavaTextFacts
  imports JavaText
begin

text \<open>
  What the passes of the Java preprocessor keep: those whose patterns cannot match a brace leave the braces
  of the file as they are, so the block structure of the source is the one the C front end sees. The
  last section runs single passes on the inputs they get wrong.
\<close>

section \<open>Braces\<close>

definition is_brace :: "char \<Rightarrow> bool" where
  "is_brace c \<longleftrightarrow> c = CHR ''{'' \<or> c = CHR ''}''"

abbreviation braces :: "string \<Rightarrow> string" where
  "braces \<equiv> filter is_brace"

abbreviation plain :: "string \<Rightarrow> bool" where
  "plain \<equiv> list_all (\<lambda>c. \<not> is_brace c)"

lemma plain_braces: "plain s \<longleftrightarrow> braces s = []"
  by (simp add: filter_empty_conv list_all_iff)

text \<open>A character class without braces.\<close>

lemma class_no_brace:
  "is_word c \<Longrightarrow> \<not> is_brace c" "is_space c \<Longrightarrow> \<not> is_brace c" "is_id_start c \<Longrightarrow> \<not> is_brace c"
  by (auto simp: is_brace_def is_word_def is_space_def is_id_start_def is_alnum_def is_alpha_def is_digit_def is_upper_def)

lemma rx_over_seq: "rx_over P (rseq rs) \<longleftrightarrow> list_all (rx_over P) rs"
  by (induction rs rule: rseq.induct) auto

lemma rx_over_lit: "rx_over P (rlit s) \<longleftrightarrow> list_all P s"
  by (simp add: rlit_def rx_over_seq list_all_iff)

text \<open>A pattern that cannot match a brace: neither the match nor its groups hold one.\<close>

abbreviation brace_free :: "rx \<Rightarrow> bool" where
  "brace_free \<equiv> rx_over (\<lambda>c. \<not> is_brace c)"

lemma rx_over_groups:
  "rx_over P r \<Longrightarrow> st' \<in> set (rx_match r st) \<Longrightarrow> list_all (\<lambda>(n, t). list_all P t) (snd (snd st))
     \<Longrightarrow> list_all (\<lambda>(n, t). list_all P t) (snd (snd st'))"
proof (induction r st arbitrary: st' rule: rx_match.induct)
  case (1 Q pre s cs)
  then show ?case by (auto split: list.splits if_splits)
next
  case (3 a b st)
  then obtain mid where mid: "mid \<in> set (rx_match a st)" "st' \<in> set (rx_match b mid)" by auto
  have "list_all (\<lambda>(n, t). list_all P t) (snd (snd mid))" using 3(1) [OF _ mid(1)] 3(3,5) by simp
  then show ?case using 3(2) [OF mid(1) _ mid(2)] 3(3) by simp
next
  case (5 greedy a st)
  from "5.prems"(2) consider "st' = st"
    | mid where "mid \<in> set (rx_match a st)" "length (fst (snd mid)) < length (fst (snd st))"
        "st' \<in> set (rx_match (RStar greedy a) mid)"
    by (subst (asm) rx_match.simps) (auto simp: Let_def split: if_splits)
  then show ?case
  proof cases
    case 1
    then show ?thesis using "5.prems"(3) by simp
  next
    case 2
    have "list_all (\<lambda>(n, t). list_all P t) (snd (snd mid))" using "5.IH"(1) 2(1) "5.prems"(1,3) by simp
    then show ?thesis using "5.IH"(2) [OF 2(1,2) "5.prems"(1) 2(3)] by simp
  qed
next
  case (6 n a pre s cs)
  then obtain pre' s' cs' where m: "(pre', s', cs') \<in> set (rx_match a (pre, s, cs))"
    "st' = (pre', s', (n, take (length s - length s') s) # cs')" by auto
  have "list_all (\<lambda>(n, t). list_all P t) cs'" using 6(1) [OF _ m(1)] 6(2,4) by simp
  moreover obtain u where "s = u @ s'" "list_all P u"
    using rx_over_consumes [OF _ m(1)] 6(2) by (auto simp: consumes_over_def)
  ultimately show ?case using m(2) by simp
qed (auto split: if_splits list.splits)

lemma brace_free_match:
  assumes "re_match_at r pre s = Some m" "brace_free r"
  shows "plain (m_text m)" "plain (m_group_str m n)"
proof -
  from assms(1) obtain pre' s' cs where st: "(pre', s', cs) \<in> set (rx_match r (pre, s, []))"
    and m: "m = mk_match pre s (pre', s', cs)"
    by (auto simp: re_match_at_def split: list.splits)
  obtain u where "s = u @ s'" "plain u" using rx_over_consumes [OF assms(2) st] by (auto simp: consumes_over_def)
  then show "plain (m_text m)" using m by (simp add: mk_match_def)
  have "list_all (\<lambda>(n, t). plain t) cs" using rx_over_groups [OF assms(2) st] by simp
  then show "plain (m_group_str m n)"
  proof (cases "map_of cs n")
    case (Some t)
    then have "plain t" using map_of_SomeD [OF Some] \<open>list_all (\<lambda>(n, t). plain t) cs\<close> by (auto simp: list_all_iff)
    then show ?thesis using m Some by (simp add: m_group_str_def m_group_def mk_match_def)
  qed (simp add: m m_group_str_def m_group_def mk_match_def)
qed

lemma re_sub_braces:
  assumes "brace_free r"
    and "\<And>m. plain (m_text m) \<Longrightarrow> (\<And>n. plain (m_group_str m n)) \<Longrightarrow> plain (f m)"
  shows "braces (re_sub r f s) = braces s"
proof -
  have "braces (pieces_sub f ps) = braces (pieces_sub m_text ps)"
    if "\<forall>m\<in>set (pieces_matches ps). plain (m_text m) \<and> plain (f m)" for ps
    using that by (induction ps rule: pieces_matches.induct) (auto simp: plain_braces)
  moreover have "plain (m_text m) \<and> plain (f m)" if "m \<in> set (pieces_matches (re_pieces r [] s))" for m
    using re_pieces_match [OF that] brace_free_match [OF _ assms(1)] assms(2) by blast
  ultimately show ?thesis using pieces_sub_id [of r "[]" s] by (simp add: re_sub_def)
qed

section \<open>Lines\<close>

lemma join_braces: "braces (str_join [newline] xs) = concat (map braces xs)"
  by (induction xs rule: induct_list012) (auto simp: is_brace_def)

lemma line_break_plain: "is_line_break c \<Longrightarrow> \<not> is_brace c"
  by (auto simp: is_line_break_def is_brace_def)

lemma lines_braces: "concat (map braces (splitlines_acc cur s)) = braces (rev cur @ s)"
proof (induction cur s rule: splitlines_acc.induct)
  case (2 cur c s)
  show ?case
  proof (cases "is_line_break c")
    case True
    have "braces (if c = CHR 0x0D \<and> startswith s [newline] then drop 1 s else s) = braces s"
      by (cases s) (auto simp: startswith_def is_brace_def)
    then show ?thesis using 2(1) [OF True] True line_break_plain [OF True] by simp
  qed (use 2(2) in simp)
qed simp

lemma map_lines_braces:
  assumes "\<And>l. braces (f l) = braces l"
  shows "braces (map_lines f s) = braces s"
  using lines_braces [of "[]" s] by (simp add: map_lines_def join_braces o_def assms)

lemma fold_braces:
  assumes "\<And>x s. x \<in> set xs \<Longrightarrow> braces (f x s) = braces s"
  shows "braces (fold f xs s) = braces s"
  using assms by (induction xs arbitrary: s) auto

section \<open>Passes that keep the braces\<close>

text \<open>The texts of the tables, and the characters the patterns are made of.\<close>

lemma no_brace [simp]:
  "is_brace CHR ''{''" "is_brace CHR ''}''" "\<not> is_brace CHR ''(''" "\<not> is_brace CHR '')''" "\<not> is_brace CHR ''|''"
  "\<not> is_brace CHR ''$''" "\<not> is_brace CHR '',''" "\<not> is_brace CHR ''*''" "\<not> is_brace CHR ''.''"
  "\<not> is_brace CHR '' ''" "\<not> is_brace CHR ''/''"
  by (simp_all add: is_brace_def)

lemma plain_append: "plain (s @ t) \<longleftrightarrow> plain s \<and> plain t"
  by simp

lemma tables_plain:
  "list_all plain java_modifiers" "list_all (\<lambda>(j, c). plain j \<and> plain c) java_type_map"
  by (simp_all add: java_modifiers_def java_type_map_def is_brace_def)

lemma stdlib_plain: "list_all (\<lambda>(r, t). brace_free r \<and> plain t) stdlib_map"
  by (simp add: stdlib_map_def rx_whole_def rlit_def is_brace_def)

lemma whole_free: "plain w \<Longrightarrow> brace_free (rx_whole w)"
  by (simp add: rx_whole_def rx_over_lit)

lemma strip_by_plain: "plain s \<Longrightarrow> plain (strip_by P s)"
  using set_dropWhileD [of _ P]
  by (auto simp: strip_by_def lstrip_by_def rstrip_by_def list_all_iff dest: set_dropWhileD)

lemma strip_modifiers_braces:
  assumes "set mods = set java_modifiers"
  shows "braces (strip_modifiers mods s) = braces s"
proof -
  have "braces (strip_modifier w l) = braces l" if "w \<in> set mods" for w l
  proof -
    have "plain w" using that assms tables_plain(1) by (simp add: list_all_iff)
    then show ?thesis
      unfolding strip_modifier_def by (intro re_sub_braces) (simp_all add: whole_free class_no_brace)
  qed
  then show ?thesis unfolding strip_modifiers_def by (intro map_lines_braces fold_braces)
qed

lemma table_braces:
  assumes "list_all (\<lambda>(r, t). brace_free r \<and> plain t) xs"
  shows "braces (fold (\<lambda>(r, t). re_sub r (\<lambda>m. t)) xs s) = braces s"
  using assms by (intro fold_braces) (auto simp: list_all_iff intro!: re_sub_braces)

lemma map_types_braces: "braces (map_types s) = braces s"
proof -
  have "map_types = fold (\<lambda>(r, t). re_sub r (\<lambda>m. t)) (map (\<lambda>(j, c). (rx_whole j, c)) java_type_map)"
    by (simp add: map_types_def java_type_map_def)
  moreover have "list_all (\<lambda>(r, t). brace_free r \<and> plain t) (map (\<lambda>(j, c). (rx_whole j, c)) java_type_map)"
    using tables_plain(2) by (auto simp: list_all_iff whole_free)
  ultimately show ?thesis using table_braces by metis
qed

lemma pattern_braces:
  "braces (desugar_length_field s) = braces s" "braces (desugar_this s) = braces s"
  "braces (desugar_varargs s) = braces s"
  unfolding desugar_length_field_def desugar_this_def desugar_varargs_def
  by (intro re_sub_braces;
      simp add: rx_length_def rident_def rx_over_seq rx_over_lit class_no_brace; simp add: is_brace_def)+

lemma header_braces:
  "braces (desugar_try_catch s) = braces s" "braces (desugar_class_header s) = braces s"
proof -
  have plain_header: "plain (struct_header m)" if "\<And>n. plain (m_group_str m n)" for m
    using that by (simp add: struct_header_def is_brace_def)
  have free: "brace_free rx_catch" "brace_free rx_finally" "brace_free rx_class" "brace_free rx_interface"
    by (auto simp: rx_catch_def rx_finally_def rx_class_def rx_interface_def rx_name_list_def rident_def
        rx_over_seq rx_over_lit class_no_brace) (simp_all add: is_brace_def)
  show "braces (desugar_class_header s) = braces s"
    unfolding desugar_class_header_def using re_sub_braces [OF free(3)] re_sub_braces [OF free(4)] plain_header
    by simp
  have "braces (re_sub rx_catch (\<lambda>m. ''catch (void* '' @ str_strip (m_group_str m 2) @ '')'') s) = braces s"
    by (rule re_sub_braces [OF free(1)]) (simp add: strip_by_plain, simp add: is_brace_def)
  moreover have "braces (re_sub rx_finally (\<lambda>m. ''else /* finally */'') t) = braces t" for t
    by (rule re_sub_braces [OF free(2)]) (simp add: is_brace_def)
  ultimately show "braces (desugar_try_catch s) = braces s" by (simp add: desugar_try_catch_def)
qed

text \<open>
  C28. The passes over modifiers, types, library names, \<open>length\<close> fields, \<open>this\<close>, variable arguments,
  exceptions and class headers leave the braces of a file as they are, number and order, in whatever
  order the set of modifiers is iterated; so the blocks the C front end finds afterwards are those of the
  Java source.
\<close>
theorem java_passes_keep_braces:
  assumes "set mods = set java_modifiers"
  shows "filter is_brace (strip_modifiers mods s) = filter is_brace s
    \<and> filter is_brace (map_types s) = filter is_brace s
    \<and> filter is_brace (map_stdlib s) = filter is_brace s
    \<and> filter is_brace (desugar_length_field s) = filter is_brace s
    \<and> filter is_brace (desugar_this s) = filter is_brace s
    \<and> filter is_brace (desugar_varargs s) = filter is_brace s
    \<and> filter is_brace (desugar_try_catch s) = filter is_brace s
    \<and> filter is_brace (desugar_class_header s) = filter is_brace s"
  using strip_modifiers_braces [OF assms] map_types_braces pattern_braces header_braces
    table_braces [OF stdlib_plain] by (simp add: map_stdlib_def)

theorem java_passes_keep_braces_witness:
  "filter is_brace (strip_modifiers (rev java_modifiers) ''public class A { static int f() { } }'') = ''{{}}''"
proof -
  have "set (rev java_modifiers) = set java_modifiers" by simp
  from java_passes_keep_braces [OF this, of "''public class A { static int f() { } }''"]
  show ?thesis by (simp add: is_brace_def)
qed

section \<open>Where the passes go wrong\<close>

text \<open>The order of the set of modifiers is not fixed, and it matters for \<open>non-sealed\<close>.\<close>

lemma modifier_order_matters:
  "strip_modifiers java_modifiers ''non-sealed class A'' = ''non-class A''"
  "strip_modifiers (rev java_modifiers) ''non-sealed class A'' = ''class A''"
  by code_simp+

text \<open>The label of a \<open>switch\<close> and a call of a method named like a modifier are stripped too.\<close>

lemma modifiers_are_stripped_anywhere:
  "strip_modifiers java_modifiers ''default: open(f);'' = '': (f);''"
  by code_simp

text \<open>Two comparisons without blanks are taken for type arguments.\<close>

lemma comparisons_are_generics: "strip_generics ''if (a<b && c>d) {}'' = ''if (ad) {}''"
  by code_simp

text \<open>The annotation ends at the first closing parenthesis; the second one closes nothing.\<close>

lemma nested_annotation: "strip_annotations ''@A(f(1)) int x;'' = '') int x;''"
  by code_simp

text \<open>The second index of a write is dropped, and a comparison is taken for a write.\<close>

lemma second_index_is_lost:
  "desugar_double_index ''p[0][1] = v;'' = ''*((p)[0]) = v;''"
  "desugar_double_index ''return a[0][1] == 2;'' = ''return *((a)[0]) = = 2;''"
  by code_simp+

text \<open>A constructor with its opening brace on the next line loses the brace.\<close>

lemma constructor_brace_is_lost:
  "filter is_brace (fixup_constructor (''struct Fo { Fo(int a)'' @ [newline] @ ''{ } }'')) = ''{{}}''"
  "filter is_brace (fixup_constructor (''struct Fo {'' @ [newline] @ ''Fo(int a)'' @ [newline] @ ''{ } }'')) = ''{}}''"
  by code_simp+

text \<open>Escapes in the character list of an array become 0.\<close>

lemma newline_becomes_zero: "char_code_text [squote, bslash, CHR ''n'', squote] = ''0''"
  by code_simp

end
