(* ===== verification/Files.thy ===== *)
theory Files
  imports PyBase
begin

text \<open>
  Paths as \<open>os.path\<close> treats them on POSIX, directories as the list of their entries in the order the system
  lists them (links are left out), and the order in which \<open>os.walk\<close> visits files: those of a directory
  before those below it. The law of the walk is \<open>walk_visits\<close>.
\<close>

section \<open>Paths\<close>

definition path_name :: "string \<Rightarrow> string" where
  "path_name path = rev (takeWhile (\<lambda>c. c \<noteq> CHR ''/'') (rev path))"

text \<open>\<open>os.path.dirname\<close>: the text up to the last slash, without the slashes at its end unless it has no other.\<close>

definition dir_name :: "string \<Rightarrow> string" where
  "dir_name path =
     (let head = rev (dropWhile (\<lambda>c. c \<noteq> CHR ''/'') (rev path))
      in if list_all (\<lambda>c. c = CHR ''/'') head then head else rstrip_by (\<lambda>c. c = CHR ''/'') head)"

text \<open>The extension of \<open>os.path.splitext\<close>.\<close>

definition split_ext :: "string \<Rightarrow> string" where
  "split_ext path =
     (let name = path_name path; ext = rev (takeWhile (\<lambda>c. c \<noteq> CHR ''.'') (rev name))
      in if CHR ''.'' \<in> set name \<and> list_ex (\<lambda>c. c \<noteq> CHR ''.'') (take (length name - length ext) name)
         then CHR ''.'' # ext else [])"

definition path_join :: "string \<Rightarrow> string \<Rightarrow> string" where
  "path_join a b =
     (if startswith b ''/'' then b else if a = [] \<or> last a = CHR ''/'' then a @ b else a @ ''/'' @ b)"

definition path_root :: "string \<Rightarrow> string" where
  "path_root p =
     (if startswith p ''//'' \<and> \<not> startswith p ''///'' then ''//'' else if startswith p ''/'' then ''/'' else [])"

text \<open>\<open>os.path.abspath\<close> for an absolute current directory, and \<open>os.path.relpath\<close> between absolute paths.\<close>

fun norm_parts :: "string list \<Rightarrow> string list \<Rightarrow> string list" where
  "norm_parts acc [] = rev acc"
| "norm_parts acc (p # ps) =
     (if p = [] \<or> p = ''.'' then norm_parts acc ps
      else if p = ''..'' then norm_parts (tl acc) ps
      else norm_parts (p # acc) ps)"

definition abs_path :: "string \<Rightarrow> string \<Rightarrow> string" where
  "abs_path cwd p =
     (let full = path_join cwd p
      in path_root full @ str_join ''/'' (norm_parts [] (split_on (CHR ''/'') full)))"

fun common_prefix :: "string list \<Rightarrow> string list \<Rightarrow> nat" where
  "common_prefix (a # as) (b # bs) = (if a = b then Suc (common_prefix as bs) else 0)"
| "common_prefix _ _ = 0"

definition rel_path :: "string \<Rightarrow> string \<Rightarrow> string" where
  "rel_path full start =
     (let ps = filter (\<lambda>x. x \<noteq> []) (split_on (CHR ''/'') full);
          ss = filter (\<lambda>x. x \<noteq> []) (split_on (CHR ''/'') start);
          i = common_prefix ss ps;
          rel = replicate (length ss - i) ''..'' @ drop i ps
      in if rel = [] then ''.'' else str_join ''/'' rel)"

section \<open>Directories\<close>

datatype entry = FileEntry string "string option" | DirEntry string "entry list"

text \<open>\<open>keep\<close> selects files by name; \<open>skip root d\<close> prunes the directory \<open>d\<close> of \<open>root\<close>.\<close>

function walk_files ::
  "(string \<Rightarrow> bool) \<Rightarrow> (string \<Rightarrow> string \<Rightarrow> bool) \<Rightarrow> string \<Rightarrow> entry list \<Rightarrow> (string \<times> string option) list" where
  "walk_files keep skip root es =
     List.map_filter (\<lambda>e. case e of FileEntry f content \<Rightarrow> if keep f then Some (path_join root f, content) else None
                                  | DirEntry d sub \<Rightarrow> None) es
     @ concat (map (\<lambda>e. case e of FileEntry f content \<Rightarrow> []
                                 | DirEntry d sub \<Rightarrow> if skip root d then [] else walk_files keep skip (path_join root d) sub) es)"
  by pat_completeness auto
termination
proof (relation "measure (\<lambda>(keep, skip, root, es). size_list size es)")
  fix es :: "entry list" and e d sub and keep :: "string \<Rightarrow> bool" and skip :: "string \<Rightarrow> string \<Rightarrow> bool" and root
  assume "e \<in> set es" "e = DirEntry d sub"
  then show "((keep, skip, path_join root d, sub), keep, skip, root, es) \<in> measure (\<lambda>(keep, skip, root, es). size_list size es)"
    using size_list_estimation [of "DirEntry d sub" es "size_list size sub" size] by simp
qed simp

declare walk_files.simps [simp del]

inductive visits ::
  "(string \<Rightarrow> bool) \<Rightarrow> (string \<Rightarrow> string \<Rightarrow> bool) \<Rightarrow> string \<Rightarrow> entry list \<Rightarrow> string \<times> string option \<Rightarrow> bool"
  for keep :: "string \<Rightarrow> bool" and skip :: "string \<Rightarrow> string \<Rightarrow> bool" where
  here: "FileEntry f content \<in> set es \<Longrightarrow> keep f \<Longrightarrow> visits keep skip root es (path_join root f, content)"
| below: "DirEntry d sub \<in> set es \<Longrightarrow> \<not> skip root d \<Longrightarrow> visits keep skip (path_join root d) sub e \<Longrightarrow> visits keep skip root es e"

lemma entries_split:
  "e \<in> set (List.map_filter (case_entry F (\<lambda>d sub. None)) es @ concat (map (case_entry (\<lambda>f c. []) G) es)) \<longleftrightarrow>
     (\<exists>f content. FileEntry f content \<in> set es \<and> F f content = Some e)
     \<or> (\<exists>d sub. DirEntry d sub \<in> set es \<and> e \<in> set (G d sub))"
proof (induction es)
  case (Cons x es)
  show ?case
  proof (cases x)
    case (FileEntry f c)
    then show ?thesis using Cons by (cases "F f c") (auto simp: List.map_filter_simps)
  next
    case (DirEntry d sub)
    then show ?thesis using Cons by (auto simp: List.map_filter_simps)
  qed
qed (simp add: List.map_filter_simps)

lemma walk_unfold:
  "e \<in> set (walk_files keep skip root es) \<longleftrightarrow>
     (\<exists>f content. FileEntry f content \<in> set es \<and> keep f \<and> e = (path_join root f, content))
     \<or> (\<exists>d sub. DirEntry d sub \<in> set es \<and> \<not> skip root d \<and> e \<in> set (walk_files keep skip (path_join root d) sub))"
  unfolding walk_files.simps [of keep skip root es] entries_split by (simp split: if_splits) blast

lemma walk_visits: "set (walk_files keep skip root es) = {e. visits keep skip root es e}"
proof (intro set_eqI iffI)
  fix e
  show "e \<in> {e. visits keep skip root es e}" if "e \<in> set (walk_files keep skip root es)"
    using that
  proof (induction keep skip root es rule: walk_files.induct)
    case (1 keep skip root es)
    then show ?case by (subst (asm) walk_unfold) (auto intro: visits.intros)
  qed
  show "e \<in> set (walk_files keep skip root es)" if "e \<in> {e. visits keep skip root es e}"
  proof -
    from that have "visits keep skip root es e" by simp
    then show ?thesis by induction (subst walk_unfold, blast)+
  qed
qed

end
