(* ===== verification/Comments.thy ===== *)
theory Comments
  imports VmText Files
begin

text \<open>
  The comment service \<open>src/comments/app\<close>: \<open>extract_comments\<close> (\<open>utils/extractor.py\<close>) cuts the comments out of
  a source text, \<open>file\<close> (\<open>api/analyze.py\<close>) counts lines, \<open>score_file\<close> (\<open>utils/scoring.py\<close>) turns the answer of a
  language model (\<open>utils/llm.py\<close>) and the coverage of the file into tags.
\<close>

section \<open>Comments and languages\<close>

datatype comment_type = LineComment | BlockComment | MarkdownText

record comment =
  cm_text :: string
  cm_line :: nat
  cm_column :: nat
  cm_type :: comment_type

record lang_tokens =
  lt_line :: "string list"
  lt_block :: "(string \<times> string) list"

definition c_like :: lang_tokens where
  "c_like = \<lparr>lt_line = [''//''], lt_block = [(''/*'', ''*/'')]\<rparr>"

definition hash_like :: lang_tokens where
  "hash_like = \<lparr>lt_line = [''#''], lt_block = []\<rparr>"

definition lang_to_comment_tokens :: "(string, lang_tokens) dict" where
  "lang_to_comment_tokens =
     [(''.py'', hash_like), (''.js'', c_like), (''.java'', c_like), (''.c'', c_like), (''.cpp'', c_like),
      (''.h'', c_like), (''.rs'', c_like\<lparr>lt_line := [''///'', ''//!'', ''//'']\<rparr>), (''.go'', c_like),
      (''.sh'', hash_like), (''.bash'', hash_like), (''.ts'', c_like)]"

definition default_tokens :: lang_tokens where
  "default_tokens = \<lparr>lt_line = [''#'', ''//''], lt_block = [(''/*'', ''*/'')]\<rparr>"

definition quote_tokens :: "string list" where
  "quote_tokens = [[dquote, dquote, dquote], [squote, squote, squote], [dquote], [squote], ''`'']"

text \<open>\<open>Path(p).suffix\<close>.\<close>

definition path_suffix :: "string \<Rightarrow> string" where
  "path_suffix path =
     (let name = path_name path; ext = rev (takeWhile (\<lambda>c. c \<noteq> CHR ''.'') (rev name))
      in if CHR ''.'' \<in> set name \<and> ext \<noteq> [] \<and> Suc (length ext) < length name then CHR ''.'' # ext else [])"

section \<open>The scanner\<close>

text \<open>\<open>advance\<close>: the line and the column behind a piece of text.\<close>

definition newlines :: "string \<Rightarrow> nat" where
  "newlines s = length (filter (\<lambda>c. c = newline) s)"

definition advance_pos :: "nat \<times> nat \<Rightarrow> string \<Rightarrow> nat \<times> nat" where
  "advance_pos p seg =
     (let nl = newlines seg
      in if nl \<noteq> 0 then (fst p + nl, length (takeWhile (\<lambda>c. c \<noteq> newline) (rev seg)))
         else (fst p, snd p + length seg))"

text \<open>The text between two tokens, and the length of all three; without a second token it is the rest.\<close>

definition token_content :: "string \<Rightarrow> string \<Rightarrow> string \<Rightarrow> string" where
  "token_content opn cls s =
     (let t = drop (length opn) s in case str_find t cls of None \<Rightarrow> t | Some k \<Rightarrow> take k t)"

definition token_span :: "string \<Rightarrow> string \<Rightarrow> string \<Rightarrow> nat" where
  "token_span opn cls s =
     (case str_find (drop (length opn) s) cls of
        None \<Rightarrow> length s | Some k \<Rightarrow> length opn + k + length cls)"

text \<open>
  One round of the loop: the comment found, if any, and how far the position moves. Behind a line comment
  the loop goes on to its last step, which also passes the line end.
\<close>

definition scan_step :: "lang_tokens \<Rightarrow> nat \<times> nat \<Rightarrow> string \<Rightarrow> comment option \<times> nat" where
  "scan_step tk p s =
     (case find (startswith s) quote_tokens of
        Some q \<Rightarrow> (None, token_span q q s)
      | None \<Rightarrow>
          (case find (\<lambda>b. startswith s (fst b)) (lt_block tk) of
             Some b \<Rightarrow>
               (Some \<lparr>cm_text = str_strip (token_content (fst b) (snd b) s), cm_line = fst p, cm_column = snd p,
                      cm_type = BlockComment\<rparr>, token_span (fst b) (snd b) s)
           | None \<Rightarrow>
               (case find (startswith s) (lt_line tk) of
                  Some t \<Rightarrow>
                    (let l = takeWhile (\<lambda>c. c \<noteq> newline) s
                     in (Some \<lparr>cm_text = str_strip (drop (length t) l), cm_line = fst p, cm_column = snd p,
                               cm_type = LineComment\<rparr>, Suc (length l)))
                | None \<Rightarrow> (None, 1))))"

text \<open>A round that does not move the position, for an empty token, would repeat for ever; no table has one.\<close>

function scan_comments :: "lang_tokens \<Rightarrow> nat \<times> nat \<Rightarrow> string \<Rightarrow> comment list" where
  "scan_comments tk p s =
     (let r = scan_step tk p s
      in if s = [] \<or> snd r = 0 then []
         else (case fst r of None \<Rightarrow> [] | Some c \<Rightarrow> [c])
              @ scan_comments tk (advance_pos p (take (snd r) s)) (drop (snd r) s))"
  by pat_completeness auto
termination by (relation "measure (\<lambda>(tk, p, s). length s)") auto

declare scan_comments.simps [simp del]

section \<open>Merging and normalising\<close>

text \<open>The accumulator is the list built so far, the last comment first; a merged comment keeps its line.\<close>

definition continues :: "comment \<Rightarrow> comment \<Rightarrow> bool" where
  "continues m c \<longleftrightarrow> cm_type c = LineComment \<and> cm_type m = LineComment \<and> cm_line c = cm_line m + 1
     \<and> cm_column c = cm_column m"

fun merge_step :: "comment \<Rightarrow> comment list \<Rightarrow> comment list" where
  "merge_step c [] = [c]"
| "merge_step c (m # ms) =
     (if continues m c then m\<lparr>cm_text := cm_text m @ [newline] @ cm_text c\<rparr> # ms else c # m # ms)"

definition merge_comments :: "comment list \<Rightarrow> comment list" where
  "merge_comments cs = rev (fold merge_step cs [])"

definition normalise_comment :: "comment \<Rightarrow> comment" where
  "normalise_comment c = c\<lparr>cm_text := str_join '' '' (split_ws (cm_text c))\<rparr>"

definition is_shebang :: "comment \<Rightarrow> bool" where
  "is_shebang c \<longleftrightarrow> cm_type c = LineComment \<and> cm_line c = 1"

definition markdown_suffixes :: "string list" where
  "markdown_suffixes = [''.md'', ''.markdown'']"

definition extract_comments :: "string \<Rightarrow> string \<Rightarrow> comment list" where
  "extract_comments path src =
     (let suffix = str_lower (path_suffix path); text = str_strip src
      in if suffix \<in> set markdown_suffixes
         then (if text = [] then [] else [\<lparr>cm_text = text, cm_line = 1, cm_column = 0, cm_type = MarkdownText\<rparr>])
         else
           let tk = (case dict_get lang_to_comment_tokens suffix of None \<Rightarrow> default_tokens | Some tk \<Rightarrow> tk);
               found = scan_comments tk (1, 0) src;
               kept = (if startswith src ''#!'' \<and> suffix \<in> {''.sh'', ''.bash''}
                       then filter (\<lambda>c. \<not> is_shebang c) found else found)
           in map normalise_comment (merge_comments kept))"

section \<open>Files and the language model\<close>

record file_data =
  fd_path :: string
  fd_lines :: nat
  fd_comment_lines :: nat
  fd_comments :: "comment list"
  fd_error :: bool
  fd_tags :: "string list"

text \<open>
  The language model: the text it answers to a prompt, \<open>None\<close> when the call raises; the flag selects the
  instructions, those for code or those for documentation. The answer should be a JSON object;
  \<open>json.loads\<close> enters through the value of its key \<open>tags\<close>: \<open>None\<close> for a text that is not JSON, \<open>Some None\<close> for
  an object without the key.
\<close>

record llm =
  llm_chat :: "bool \<Rightarrow> string \<Rightarrow> string option"
  llm_loads :: "string \<Rightarrow> string list option option"

definition type_name :: "comment_type \<Rightarrow> string" where
  "type_name t = (case t of LineComment \<Rightarrow> ''line'' | BlockComment \<Rightarrow> ''block'' | MarkdownText \<Rightarrow> ''markdown'')"

definition build_prompt :: "string \<Rightarrow> comment list \<Rightarrow> string" where
  "build_prompt path cs =
     str_join [newline] ((''File: '' @ path @ [newline])
       # map (\<lambda>(idx, c). ''['' @ nat_digits idx @ ''] (line '' @ nat_digits (cm_line c) @ '', ''
                @ type_name (cm_type c) @ '') '' @ str_strip (cm_text c)) (enumerate 0 cs))"

text \<open>The pattern of a fenced block, with or without the word \<open>json\<close> behind the fence.\<close>

definition json_re :: rx where
  "json_re = rseq [rlit ''```'', ropt (rlit ''json''), rstar rspace, RGroup 1 (rstar_lazy rany), rlit ''```'']"

definition str_rfind :: "string \<Rightarrow> char \<Rightarrow> nat option" where
  "str_rfind s c = (if c \<in> set s then Some (length s - Suc (length (takeWhile (\<lambda>x. x \<noteq> c) (rev s)))) else None)"

text \<open>Three attempts: the whole text, the first fenced block, from the first brace to the last.\<close>

definition parse_llm_json :: "(string \<Rightarrow> 'j option) \<Rightarrow> string \<Rightarrow> 'j option" where
  "parse_llm_json loads reply =
     (let raw = str_strip reply
      in case loads raw of
           Some j \<Rightarrow> Some j
         | None \<Rightarrow>
             (case Option.bind (re_search json_re raw) (\<lambda>m. loads (m_group_str m 1)) of
                Some j \<Rightarrow> Some j
              | None \<Rightarrow>
                  (case (str_find raw ''{'', str_rfind raw (CHR ''}'')) of
                     (Some start, Some stop) \<Rightarrow>
                       if start < stop then loads (drop start (take (Suc stop) raw)) else None
                   | _ \<Rightarrow> None)))"

definition analyze_comments :: "llm \<Rightarrow> string \<Rightarrow> comment list \<Rightarrow> string list option" where
  "analyze_comments ask path cs =
     (if cs = [] then None
      else case llm_chat ask False (build_prompt path cs) of
             None \<Rightarrow> None
           | Some raw \<Rightarrow>
               (case parse_llm_json (llm_loads ask) raw of None \<Rightarrow> None | Some tags \<Rightarrow> tags))"

definition analyze_markdown :: "llm \<Rightarrow> string \<Rightarrow> string \<Rightarrow> string list option option" where
  "analyze_markdown ask path text =
     (if text = [] \<or> str_strip text = [] then None
      else if length (str_strip text) < 10 then None
      else Option.bind (llm_chat ask True (''File: '' @ path @ [newline, newline] @ text))
             (parse_llm_json (llm_loads ask)))"

section \<open>Tags\<close>

definition static_score_markdown :: "file_data \<Rightarrow> string \<Rightarrow> file_data" where
  "static_score_markdown f text =
     f\<lparr>fd_tags := [''documentation'', if str_strip text = [] then ''text_empty'' else ''text_present'']\<rparr>"

definition static_score_code :: "file_data \<Rightarrow> file_data" where
  "static_score_code f = f\<lparr>fd_tags := [if fd_comments f = [] then ''no_comments'' else ''has_comments'']\<rparr>"

definition score_markdown :: "llm \<Rightarrow> file_data \<Rightarrow> file_data" where
  "score_markdown ask f =
     (let text = (case fd_comments f of [] \<Rightarrow> [] | c # _ \<Rightarrow> cm_text c)
      in if str_strip text = [] then static_score_markdown f text
         else case analyze_markdown ask (fd_path f) text of
                None \<Rightarrow> static_score_markdown f text
              | Some tags \<Rightarrow>
                  f\<lparr>fd_tags := uniq (''documentation'' # (case tags of None \<Rightarrow> [] | Some ts \<Rightarrow> ts))\<rparr>)"

definition comment_span :: "comment \<Rightarrow> nat list" where
  "comment_span c = [cm_line c..<cm_line c + Suc (newlines (cm_text c))]"

definition zone_size :: nat where
  "zone_size = 15"

definition zones_covered :: "comment list \<Rightarrow> nat list" where
  "zones_covered cs = uniq (map (\<lambda>ln. (ln - 1) div zone_size) (filter (\<lambda>ln. 0 < ln) (concat (map comment_span cs))))"

definition num_zones :: "file_data \<Rightarrow> nat" where
  "num_zones f =
     (let code_lines = max 1 (fd_lines f - fd_comment_lines f)
      in max 1 ((code_lines + zone_size - 1) div zone_size))"

definition coverage_tag :: "file_data \<Rightarrow> string" where
  "coverage_tag f =
     (let covered = length (zones_covered (fd_comments f))
      in if num_zones f \<le> covered then ''good_coverage''
         else if 0 < covered then ''partial_coverage'' else ''low_coverage'')"

definition score_code :: "llm \<Rightarrow> file_data \<Rightarrow> file_data" where
  "score_code ask f =
     (if fd_comments f = [] then static_score_code f
      else case analyze_comments ask (fd_path f) (fd_comments f) of
             None \<Rightarrow> static_score_code f
           | Some tags \<Rightarrow> f\<lparr>fd_tags := uniq (''has_comments'' # tags @ [coverage_tag f])\<rparr>)"

definition score_file :: "llm \<Rightarrow> file_data \<Rightarrow> file_data" where
  "score_file ask f =
     (if str_lower (split_ext (fd_path f)) \<in> set markdown_suffixes then score_markdown ask f else score_code ask f)"

text \<open>\<open>file\<close> on a text that can be read; \<open>None\<close> stands for a file that cannot.\<close>

definition count_lines :: "string \<Rightarrow> nat" where
  "count_lines src = newlines src + (if src \<noteq> [] \<and> last src \<noteq> newline then 1 else 0)"

definition count_comment_lines :: "comment list \<Rightarrow> nat" where
  "count_comment_lines cs =
     sum_list (map (\<lambda>c. if cm_text c = [] then 0 else Suc (newlines (cm_text c))) cs)"

definition analyze_file :: "llm \<Rightarrow> string \<Rightarrow> string option \<Rightarrow> file_data" where
  "analyze_file ask path content =
     (case content of
        None \<Rightarrow> \<lparr>fd_path = path, fd_lines = 0, fd_comment_lines = 0, fd_comments = [], fd_error = True, fd_tags = []\<rparr>
      | Some src \<Rightarrow>
          let cs = extract_comments path src
          in score_file ask \<lparr>fd_path = path, fd_lines = count_lines src, fd_comment_lines = count_comment_lines cs,
               fd_comments = cs, fd_error = False, fd_tags = []\<rparr>)"

end
