(* ===== verification/CommentsReport.thy ===== *)
theory CommentsReport
  imports Comments
begin

text \<open>
  The report of the comment service: \<open>submission\<close> (\<open>api/analyze.py\<close>) walks a directory, and
  \<open>submission_student_feedback\<close> (\<open>utils/reporting.py\<close>) turns the tags of its files into messages. The percentages
  are kept in tenths.
\<close>

section \<open>Messages\<close>

definition positive_messages :: "(string, string) dict" where
  "positive_messages =
     [(''all_meaningful'', ''Comments consistently explain intent and design decisions.''),
      (''mostly_meaningful'', ''Most comments add useful context for readers.''),
      (''professional_language'', ''Language is appropriate for an academic setting.''),
      (''good_length'', ''Comment length is generally clear and useful.''),
      (''good_coverage'', ''Comments are distributed across the file well.''),
      (''has_comments'', ''The file includes comments.''),
      (''documentation'', ''Documentation file detected and evaluated.''),
      (''text_present'', ''The document contains written content.''),
      (''thorough'', ''The document is comprehensive and insightful.''),
      (''adequate'', ''The document covers expected topics with reasonable detail.''),
      (''well_structured'', ''The document is clearly organized.''),
      (''references_code'', ''The write-up references implementation details.''),
      (''includes_diagrams'', ''The write-up includes visual aids.'')]"

definition improvement_messages :: "(string, string) dict" where
  "improvement_messages =
     [(''mixed_quality'', ''Some comments are useful, but others are too superficial.''),
      (''mostly_trivial'', ''Most comments restate code rather than explain reasoning.''),
      (''all_trivial'', ''Comments do not provide meaningful insight yet.''),
      (''short_comments'', ''Many comments are very short; add more context where needed.''),
      (''long_comments'', ''Some comments are too long; tighten wording for clarity.''),
      (''partial_coverage'', ''Comment coverage is uneven; add notes in un-commented areas.''),
      (''low_coverage'', ''Very little of the file is documented; add explanatory comments.''),
      (''no_comments'', ''No comments were found in this file.''),
      (''text_empty'', ''The markdown file appears empty or contains placeholder content.''),
      (''superficial'', ''The document is present but lacks depth.''),
      (''minimal'', ''The document has minimal substantive content.''),
      (''some_structure'', ''The document has some structure but can be organized more clearly.''),
      (''unstructured'', ''The document needs stronger headings and organization.''),
      (''todos_present'', ''Resolve TODO/FIXME placeholders before submission.'')]"

definition alert_messages :: "(string, string) dict" where
  "alert_messages =
     [(''unprofessional_language'', ''One or more comments use language that is not course-appropriate.''),
      (''warning_hopelessness_language'', ''Possible hopelessness language detected in comments.''),
      (''warning_severe_distress_language'', ''Possible severe distress language detected in comments.''),
      (''warning_burnout_language'', ''Possible burnout language detected in comments.'')]"

definition summary_priority :: "(string, string) dict" where
  "summary_priority =
     [(''no_comments'', ''This file currently has no comments, so your implementation intent is hard to follow.''),
      (''all_trivial'', ''Comments are present but mostly do not explain meaningful reasoning.''),
      (''mostly_trivial'', ''Many comments are too literal and should explain why decisions were made.''),
      (''mixed_quality'', ''Comment quality is mixed: some notes help, others need more depth.''),
      (''partial_coverage'', ''You have some documentation, but coverage is inconsistent across the file.''),
      (''low_coverage'', ''Comment coverage is low and should be expanded to improve readability.''),
      (''all_meaningful'', ''Comments are strong and consistently helpful for understanding the code.''),
      (''mostly_meaningful'', ''Comments are mostly helpful and communicate intent in key areas.'')]"

definition primary_summary :: "string list \<Rightarrow> string" where
  "primary_summary tags =
     (case find (\<lambda>e. fst e \<in> set tags) summary_priority of
        Some e \<Rightarrow> snd e
      | None \<Rightarrow>
          if ''thorough'' \<in> set tags then ''This document is detailed and demonstrates strong understanding.''
          else if ''adequate'' \<in> set tags then ''This document addresses core expectations with reasonable detail.''
          else if ''minimal'' \<in> set tags \<or> ''text_empty'' \<in> set tags
          then ''This document needs substantially more content before submission.''
          else ''Feedback generated from available scoring tags.'')"

section \<open>Percentages\<close>

text \<open>
  \<open>fl_ratio\<close> is the division of two integers; line counts are far below the largest double, so it does not
  raise. \<open>round(x, 1)\<close> and the format \<open>.1f\<close> both round the exact value of the double, ties to even.
\<close>

definition comment_density :: "nat \<Rightarrow> nat \<Rightarrow> pyfloat" where
  "comment_density lines comment_lines =
     (if lines = 0 then FFin False 0 0
      else fl_mul (fl_ratio (int comment_lines) (int lines)) (fl_ratio 100 1))"

definition round_tenth :: "pyfloat \<Rightarrow> int" where
  "round_tenth x =
     (case x of
        FFin s m e \<Rightarrow>
          let n = 10 * fl_num s m e; d = fl_den e; q = n div d; r = n mod d
          in if d < 2 * r \<or> (d = 2 * r \<and> odd q) then q + 1 else q
      | _ \<Rightarrow> 0)"

definition tenth_str :: "int \<Rightarrow> string" where
  "tenth_str t = int_str (t div 10) @ ''.'' @ int_str (t mod 10)"

section \<open>Paths\<close>

text \<open>\<open>PurePath(p).parts\<close>, and the text of a path made of parts.\<close>

definition path_parts :: "string \<Rightarrow> string list" where
  "path_parts p =
     (if path_root p = [] then [] else [path_root p])
     @ filter (\<lambda>x. x \<noteq> [] \<and> x \<noteq> ''.'') (split_on (CHR ''/'') p)"

definition parts_path :: "string list \<Rightarrow> string" where
  "parts_path ps =
     (case ps of
        [] \<Rightarrow> ''.''
      | r # qs \<Rightarrow> if r = ''/'' \<or> r = ''//'' then r @ str_join ''/'' qs else str_join ''/'' ps)"

definition display_path :: "string \<Rightarrow> string \<Rightarrow> string" where
  "display_path path target =
     (if path = [] then ''unknown''
      else if target = [] then path
      else
        let ps = path_parts path; ts = path_parts target
        in if length ts \<le> length ps \<and> take (length ts) ps = ts \<and> drop (length ts) ps \<noteq> []
           then parts_path (drop (length ts) ps) else path)"

section \<open>Feedback on a file\<close>

record feedback =
  fb_path :: string
  fb_display :: string
  fb_lines :: nat
  fb_comment_lines :: nat
  fb_density :: int
  fb_summary :: string
  fb_strengths :: "string list"
  fb_improvements :: "string list"
  fb_alerts :: "string list"

definition messages_of :: "(string, string) dict \<Rightarrow> string list \<Rightarrow> string list" where
  "messages_of table tags = uniq (List.map_filter (dict_get table) tags)"

definition file_student_feedback :: "string \<Rightarrow> file_data \<Rightarrow> feedback" where
  "file_student_feedback target f =
     (let tags = uniq (fd_tags f)
      in \<lparr>fb_path = fd_path f, fb_display = display_path (fd_path f) target, fb_lines = fd_lines f,
          fb_comment_lines = fd_comment_lines f,
          fb_density = round_tenth (comment_density (fd_lines f) (fd_comment_lines f)),
          fb_summary = primary_summary tags, fb_strengths = messages_of positive_messages tags,
          fb_improvements = messages_of improvement_messages tags, fb_alerts = messages_of alert_messages tags\<rparr>)"

section \<open>Feedback on a submission\<close>

definition join_messages :: "string list \<Rightarrow> string" where
  "join_messages ms = (if uniq ms = [] then ''None noted.'' else str_join ''; '' (uniq ms))"

definition rollup :: "(feedback \<Rightarrow> string list) \<Rightarrow> feedback list \<Rightarrow> string list" where
  "rollup key items = uniq (concat (map key items))"

definition note_line :: "string \<Rightarrow> string list \<Rightarrow> string list" where
  "note_line label ms = (if ms = [] then [] else [''   '' @ label @ '': '' @ join_messages ms])"

definition file_notes :: "nat \<times> feedback \<Rightarrow> string list" where
  "file_notes e =
     (case e of (idx, item) \<Rightarrow>
        [nat_digits idx @ ''. '' @ fb_display item @ '' ('' @ tenth_str (fb_density item) @ ''% comment density)'',
         ''   Summary: '' @ fb_summary item]
        @ note_line ''Strengths'' (fb_strengths item) @ note_line ''Improvements'' (fb_improvements item)
        @ note_line ''Alerts'' (fb_alerts item))"

record report =
  rp_files :: nat
  rp_lines :: nat
  rp_comment_lines :: nat
  rp_density :: int
  rp_strengths :: "string list"
  rp_improvements :: "string list"
  rp_alerts :: "string list"
  rp_feedback :: "feedback list"
  rp_text :: string

definition submission_student_feedback :: "string \<Rightarrow> file_data list \<Rightarrow> report" where
  "submission_student_feedback target files =
     (let fbs = map (file_student_feedback target) files;
          strengths = rollup fb_strengths fbs; improvements = rollup fb_improvements fbs;
          alerts = rollup fb_alerts fbs;
          total_lines = sum_list (map fd_lines files);
          total_comment_lines = sum_list (map fd_comment_lines files);
          density = round_tenth (comment_density total_lines total_comment_lines);
          text = [''Student Feedback Report'',
                  ''Submission target: '' @ (if target = [] then ''unknown'' else target),
                  ''Files analyzed: '' @ nat_digits (length files),
                  ''Total lines: '' @ nat_digits total_lines,
                  ''Comment lines: '' @ nat_digits total_comment_lines @ '' ('' @ tenth_str density @ ''% density)'',
                  [], ''Overall strengths:'', ''- '' @ join_messages strengths,
                  ''Overall improvements:'', ''- '' @ join_messages improvements,
                  ''Alerts:'', ''- '' @ join_messages alerts, [], ''File-by-file notes:'']
                 @ (if fbs = [] then [''- No analyzable files were found.'']
                    else concat (map file_notes (enumerate 1 fbs)))
      in \<lparr>rp_files = length files, rp_lines = total_lines, rp_comment_lines = total_comment_lines,
          rp_density = density, rp_strengths = strengths, rp_improvements = improvements, rp_alerts = alerts,
          rp_feedback = fbs, rp_text = str_join [newline] text\<rparr>)"

section \<open>The walk\<close>

definition analyzable :: "string \<Rightarrow> bool" where
  "analyzable name \<longleftrightarrow> str_lower (split_ext name) \<in> set (map fst lang_to_comment_tokens) \<union> set markdown_suffixes"

record ignores =
  ig_set :: "string list"
  ig_abs :: "string list"

definition ignores_of :: "string \<Rightarrow> string list \<Rightarrow> ignores" where
  "ignores_of cwd ds =
     \<lparr>ig_set = map (strip_by (\<lambda>c. c = CHR ''/'')) (filter (\<lambda>d. \<not> startswith d ''/'') ds),
      ig_abs = map (abs_path cwd) (filter (\<lambda>d. startswith d ''/'') ds)\<rparr>"

definition pruned :: "string \<Rightarrow> ignores \<Rightarrow> string \<Rightarrow> string \<Rightarrow> string \<Rightarrow> bool" where
  "pruned cwd ig target root d \<longleftrightarrow>
     (let full = abs_path cwd (path_join root d)
      in d \<in> set (ig_set ig) \<or> rel_path full (abs_path cwd target) \<in> set (ig_set ig) \<or> full \<in> set (ig_abs ig))"

definition submission :: "llm \<Rightarrow> string \<Rightarrow> string \<Rightarrow> string list \<Rightarrow> entry list \<Rightarrow> file_data list \<times> report" where
  "submission ask cwd target ignored tree =
     (let skip = pruned cwd (ignores_of cwd ignored) target;
          scored = map (\<lambda>(path, content). analyze_file ask path content) (walk_files analyzable skip target tree)
      in (map (\<lambda>f. f\<lparr>fd_tags := []\<rparr>) scored, submission_student_feedback (abs_path cwd target) scored))"

section \<open>The two requests\<close>

text \<open>
  \<open>main.py\<close>: the environment variable with the root of the submissions may be unset; the file system is a
  function from paths. Every request that is answered gives a report, every other one a status and a message.
\<close>

datatype http_error = HttpError nat string

definition no_path :: string where
  "no_path = ''expected str, bytes or os.PathLike object, not NoneType''"

definition score_submission ::
  "llm \<Rightarrow> string \<Rightarrow> string option \<Rightarrow> (string \<Rightarrow> entry list) \<Rightarrow> string option \<Rightarrow> string list option
     \<Rightarrow> http_error + file_data list \<times> report" where
  "score_submission ask cwd root_var fs submission_id ignore =
     (case submission_id of
        None \<Rightarrow> Inl (HttpError 400 ''provide submission_id'')
      | Some sid \<Rightarrow>
          if sid = [] then Inl (HttpError 400 ''provide submission_id'')
          else case root_var of
                 None \<Rightarrow> Inl (HttpError 500 no_path)
               | Some root \<Rightarrow>
                   let target = path_join root sid
                   in Inr (submission ask cwd target (case ignore of None \<Rightarrow> [] | Some ds \<Rightarrow> ds) (fs target)))"

definition scored_file :: "llm \<Rightarrow> (string \<Rightarrow> string option) \<Rightarrow> string \<Rightarrow> string \<Rightarrow> file_data \<times> feedback" where
  "scored_file ask fs target root =
     (let scored = analyze_file ask target (fs target)
      in (scored\<lparr>fd_tags := []\<rparr>, file_student_feedback root scored))"

definition score_single_file ::
  "llm \<Rightarrow> string option \<Rightarrow> (string \<Rightarrow> string option) \<Rightarrow> string option \<Rightarrow> string \<Rightarrow> http_error + file_data \<times> feedback" where
  "score_single_file ask root_var fs submission_id name =
     (let sid = (case submission_id of None \<Rightarrow> [] | Some sid \<Rightarrow> sid)
      in if sid = [] then Inr (scored_file ask fs name [])
         else case root_var of
                None \<Rightarrow> Inl (HttpError 500 ''SUBMISSIONS_ROOT not configured'')
              | Some root \<Rightarrow>
                  if root = [] then Inl (HttpError 500 ''SUBMISSIONS_ROOT not configured'')
                  else Inr (scored_file ask fs (path_join (path_join root sid) name) (path_join root sid)))"

end
