(* ===== verification/CommentsFacts.thy ===== *)
theory CommentsFacts
  imports Comments
begin

text \<open>
  Every comment the scanner reports stands in the source where it says; how far consecutive line comments
  are merged; and what the coverage of a file can be.
\<close>

section \<open>Positions\<close>

definition pos_of :: "string \<Rightarrow> nat \<times> nat" where
  "pos_of pre = (Suc (newlines pre), length (takeWhile (\<lambda>c. c \<noteq> newline) (rev pre)))"

lemma newlines_simps [simp]:
  "newlines [] = 0" "newlines (s @ t) = newlines s + newlines t"
  by (simp_all add: newlines_def)

lemma newlines_zero: "newlines s = 0 \<longleftrightarrow> newline \<notin> set s"
  by (auto simp: newlines_def filter_empty_conv)

lemma advance_pos_of: "advance_pos (pos_of pre) seg = pos_of (pre @ seg)"
proof (cases "newlines seg = 0")
  case True
  then have "takeWhile (\<lambda>c. c \<noteq> newline) (rev seg @ rev pre) = rev seg @ takeWhile (\<lambda>c. c \<noteq> newline) (rev pre)"
    by (intro takeWhile_append2) (auto simp: newlines_zero)
  then show ?thesis using True by (simp add: advance_pos_def pos_of_def)
next
  case False
  then have "newline \<in> set (rev seg)" by (simp add: newlines_zero)
  then show ?thesis using False by (simp add: advance_pos_def pos_of_def takeWhile_append1)
qed

lemma pos_of_Nil: "pos_of [] = (1, 0)"
  by (simp add: pos_of_def)

text \<open>A comment with the tokens and the text it was cut from.\<close>

definition located :: "lang_tokens \<Rightarrow> string \<Rightarrow> comment \<Rightarrow> bool" where
  "located tk src c \<longleftrightarrow>
     (\<exists>pre tok body rest. src = pre @ tok @ body @ rest \<and> cm_text c = str_strip body
        \<and> (cm_line c, cm_column c) = pos_of pre
        \<and> (case cm_type c of
             LineComment \<Rightarrow> tok \<in> set (lt_line tk) \<and> newline \<notin> set body \<and> (rest = [] \<or> hd rest = newline)
           | BlockComment \<Rightarrow> \<exists>cls. (tok, cls) \<in> set (lt_block tk) \<and> (rest = [] \<or> startswith rest cls)
           | MarkdownText \<Rightarrow> False))"

lemma locatedI:
  assumes "src = pre @ tok @ body @ rest" "c = \<lparr>cm_text = str_strip body, cm_line = fst (pos_of pre),
      cm_column = snd (pos_of pre), cm_type = t\<rparr>"
    "t = LineComment \<Longrightarrow> tok \<in> set (lt_line tk) \<and> newline \<notin> set body \<and> (rest = [] \<or> hd rest = newline)"
    "t = BlockComment \<Longrightarrow> \<exists>cls. (tok, cls) \<in> set (lt_block tk) \<and> (rest = [] \<or> startswith rest cls)"
    "t \<noteq> MarkdownText"
  shows "located tk src c"
proof -
  have c: "cm_text c = str_strip body" "(cm_line c, cm_column c) = pos_of pre" "cm_type c = t"
    by (simp_all add: assms(2))
  have "case t of LineComment \<Rightarrow> tok \<in> set (lt_line tk) \<and> newline \<notin> set body \<and> (rest = [] \<or> hd rest = newline)
      | BlockComment \<Rightarrow> \<exists>cls. (tok, cls) \<in> set (lt_block tk) \<and> (rest = [] \<or> startswith rest cls)
      | MarkdownText \<Rightarrow> False"
    using assms(3-5) by (cases t) simp_all
  then show ?thesis
    unfolding located_def c(3) using assms(1) c(1,2)
    by (intro exI [of _ pre] exI [of _ tok] exI [of _ body] exI [of _ rest] conjI)
qed

lemma startswith_split: "startswith s p \<Longrightarrow> s = p @ drop (length p) s"
  by (metis append_take_drop_id startswith_def)

lemma find_member: "find P xs = Some x \<Longrightarrow> x \<in> set xs \<and> P x"
  by (auto simp: find_Some_iff)

lemma token_content_split:
  assumes "startswith s opn"
  shows "\<exists>rest. s = opn @ token_content opn cls s @ rest \<and> (rest = [] \<or> startswith rest cls)"
proof -
  obtain t where s: "s = opn @ t" using startswith_split [OF assms] by blast
  show ?thesis
  proof (cases "str_find t cls")
    case None
    then show ?thesis by (simp add: s token_content_def)
  next
    case (Some k)
    have "startswith (drop k t) cls" using str_find_Some [OF Some] by (simp add: startswith_def)
    then have "s = opn @ take k t @ drop k t \<and> (drop k t = [] \<or> startswith (drop k t) cls)" by (simp add: s)
    moreover have "token_content opn cls s = take k t" by (simp add: s token_content_def Some)
    ultimately show ?thesis by metis
  qed
qed

lemma line_content_split:
  assumes "startswith s t" "newline \<notin> set t"
  shows "\<exists>rest. s = t @ drop (length t) (takeWhile (\<lambda>c. c \<noteq> newline) s) @ rest \<and> (rest = [] \<or> hd rest = newline)"
proof -
  let ?P = "\<lambda>c. c \<noteq> newline"
  obtain u where s: "s = t @ u" using startswith_split [OF assms(1)] by blast
  have "takeWhile ?P (t @ u) = t @ takeWhile ?P u"
    by (rule takeWhile_append2) (use assms(2) in auto)
  then have "s = t @ drop (length t) (takeWhile ?P s) @ dropWhile ?P u" by (simp add: s)
  moreover have "dropWhile ?P u = [] \<or> hd (dropWhile ?P u) = newline"
    using hd_dropWhile [of ?P u] by (cases "dropWhile ?P u = []") simp_all
  ultimately show ?thesis by blast
qed

lemma scan_step_located:
  assumes "fst (scan_step tk (pos_of pre) s) = Some c" "\<forall>t\<in>set (lt_line tk). newline \<notin> set t"
  shows "located tk (pre @ s) c" "cm_line c = fst (pos_of pre)"
proof -
  have q: "find (startswith s) quote_tokens = None"
    using assms(1) by (auto simp: scan_step_def split: option.splits)
  show "cm_line c = fst (pos_of pre)"
    using assms(1) by (auto simp: scan_step_def Let_def split: option.splits)
  show "located tk (pre @ s) c"
  proof (cases "find (\<lambda>b. startswith s (fst b)) (lt_block tk)")
    case (Some b)
    have b: "b \<in> set (lt_block tk)" "startswith s (fst b)" using find_member [OF Some] by simp_all
    obtain rest where "s = fst b @ token_content (fst b) (snd b) s @ rest" "rest = [] \<or> startswith rest (snd b)"
      using token_content_split [OF b(2)] by blast
    moreover have "c = \<lparr>cm_text = str_strip (token_content (fst b) (snd b) s), cm_line = fst (pos_of pre),
        cm_column = snd (pos_of pre), cm_type = BlockComment\<rparr>"
      using assms(1) q Some by (simp add: scan_step_def)
    ultimately show ?thesis
      using b(1) by (intro locatedI [where pre = pre and rest = rest]) (auto intro: exI [of _ "snd b"])
  next
    case None
    then obtain t where t: "find (startswith s) (lt_line tk) = Some t"
      using assms(1) q by (auto simp: scan_step_def split: option.splits)
    let ?body = "drop (length t) (takeWhile (\<lambda>c. c \<noteq> newline) s)"
    obtain rest where "s = t @ ?body @ rest" "rest = [] \<or> hd rest = newline"
      using line_content_split find_member [OF t] assms(2) by blast
    moreover have "newline \<notin> set ?body" by (auto dest!: in_set_dropD set_takeWhileD)
    moreover have "c = \<lparr>cm_text = str_strip ?body, cm_line = fst (pos_of pre),
        cm_column = snd (pos_of pre), cm_type = LineComment\<rparr>"
      using assms(1) q None t by (simp add: scan_step_def Let_def)
    ultimately show ?thesis
      using find_member [OF t] by (intro locatedI [where pre = pre and rest = rest]) auto
  qed
qed

lemma scan_located:
  assumes "\<forall>t\<in>set (lt_line tk). newline \<notin> set t"
  shows "list_all (located tk (pre @ s)) (scan_comments tk (pos_of pre) s)
    \<and> sorted (fst (pos_of pre) # map cm_line (scan_comments tk (pos_of pre) s))"
proof (induction s arbitrary: pre rule: measure_induct_rule [where f = length])
  case (less s)
  let ?r = "scan_step tk (pos_of pre) s"
  show ?case
  proof (cases "s = [] \<or> snd ?r = 0")
    case True
    then show ?thesis by (subst (1 2) scan_comments.simps) (auto simp: Let_def)
  next
    case False
    let ?pre = "pre @ take (snd ?r) s" and ?s = "drop (snd ?r) s"
    have scan: "scan_comments tk (pos_of pre) s = (case fst ?r of None \<Rightarrow> [] | Some c \<Rightarrow> [c])
        @ scan_comments tk (pos_of ?pre) ?s"
      using False by (subst scan_comments.simps) (simp add: Let_def advance_pos_of)
    have IH: "list_all (located tk (pre @ s)) (scan_comments tk (pos_of ?pre) ?s)"
      "sorted (fst (pos_of ?pre) # map cm_line (scan_comments tk (pos_of ?pre) ?s))"
      using less [of ?s ?pre] False by auto
    have "fst (pos_of pre) \<le> fst (pos_of ?pre)" by (simp add: pos_of_def)
    then have "sorted (fst (pos_of pre) # map cm_line (scan_comments tk (pos_of ?pre) ?s))"
      using IH(2) by auto
    then show ?thesis
      using IH(1) scan_step_located [OF _ assms, of pre s] scan by (auto split: option.splits)
  qed
qed

text \<open>
  C29. Every comment the scanner reports stands in the source at the line and column it gives, between a
  comment token of the language and the line end or the closing token, and the reported text is what
  stands there without the blanks around it; the comments come in the order of the file.
\<close>
theorem comments_are_located:
  assumes "\<forall>t\<in>set (lt_line tk). newline \<notin> set t"
  shows "list_all (located tk src) (scan_comments tk (1, 0) src) \<and> sorted (map cm_line (scan_comments tk (1, 0) src))"
  using scan_located [OF assms, of "[]" src] by (simp add: pos_of_Nil del: One_nat_def)

theorem comments_are_located_witness:
  "let src = ''x; /* a */'' @ [newline] @ ''y; // b''
   in list_all (located c_like src) (scan_comments c_like (1, 0) src) \<and> map cm_line (scan_comments c_like (1, 0) src) = [1, 2]"
proof -
  have "\<forall>t\<in>set (lt_line c_like). newline \<notin> set t" by (simp add: c_like_def)
  moreover have "map cm_line (scan_comments c_like (1, 0) (''x; /* a */'' @ [newline] @ ''y; // b'')) = [1, 2]"
    by code_simp
  ultimately show ?thesis
    using comments_are_located [of c_like "''x; /* a */'' @ [newline] @ ''y; // b''"] unfolding Let_def by blast
qed

section \<open>Merging\<close>

fun line_run :: "nat \<Rightarrow> nat \<Rightarrow> string list \<Rightarrow> comment list" where
  "line_run l k [] = []"
| "line_run l k (t # ts) = \<lparr>cm_text = t, cm_line = l, cm_column = k, cm_type = LineComment\<rparr> # line_run (Suc l) k ts"

fun comment_pairs :: "nat \<Rightarrow> nat \<Rightarrow> string list \<Rightarrow> comment list" where
  "comment_pairs l k (t # u # ts) =
     \<lparr>cm_text = t @ [newline] @ u, cm_line = l, cm_column = k, cm_type = LineComment\<rparr> # comment_pairs (l + 2) k ts"
| "comment_pairs l k ts = line_run l k ts"

lemma merge_run:
  "(\<forall>m ms. acc = m # ms \<longrightarrow> cm_line m + 1 \<noteq> l) \<Longrightarrow> fold merge_step (line_run l k ts) acc = rev (comment_pairs l k ts) @ acc"
proof (induction l k ts arbitrary: acc rule: comment_pairs.induct, goal_cases)
  case (1 l k t u ts acc)
  let ?m = "\<lparr>cm_text = t @ [newline] @ u, cm_line = l, cm_column = k, cm_type = LineComment\<rparr>"
  have "fold merge_step (line_run l k (t # u # ts)) acc = fold merge_step (line_run (l + 2) k ts) (?m # acc)"
    using 1(2) by (cases acc) (simp_all add: continues_def)
  also have "\<dots> = rev (comment_pairs (l + 2) k ts) @ ?m # acc" by (rule 1(1)) simp
  finally show ?case by simp
next
  case (3 l k t acc)
  then show ?case by (cases acc) (simp_all add: continues_def)
qed simp

lemma length_pairs: "length (comment_pairs l k ts) = (length ts + 1) div 2"
  by (induction l k ts rule: comment_pairs.induct) auto

text \<open>
  A block of line comments on consecutive lines, all in one column, is not merged into one comment but
  into pairs: a merged comment keeps the line of its first part, so the third line does not continue it.
  Of \<open>n\<close> lines \<open>n / 2\<close> comments remain, rounded up.
\<close>
lemma merging_stops_at_pairs:
  "merge_comments (line_run l k ts) = comment_pairs l k ts \<and> length (merge_comments (line_run l k ts)) = (length ts + 1) div 2"
  using merge_run [of "[]" l k ts] by (simp add: merge_comments_def length_pairs)

section \<open>Coverage\<close>

lemma words_solid: "w \<in> set (split_ws_acc cur s) \<Longrightarrow> list_all (\<lambda>c. \<not> is_space c) cur \<Longrightarrow> list_all (\<lambda>c. \<not> is_space c) w"
  by (induction cur s rule: split_ws_acc.induct) (auto split: if_splits)

lemma join_chars: "c \<in> set (str_join sep ws) \<Longrightarrow> c \<in> set sep \<or> (\<exists>w\<in>set ws. c \<in> set w)"
  by (induction sep ws rule: str_join.induct) auto

lemma normalised_one_line: "newlines (cm_text (normalise_comment c)) = 0"
proof -
  have nl: "is_space newline" by code_simp
  have "newline \<notin> set w" if "w \<in> set (split_ws (cm_text c))" for w
    using words_solid [of w "[]" "cm_text c"] that nl by (auto simp: split_ws_def list_all_iff)
  then show ?thesis by (auto simp: newlines_zero normalise_comment_def dest!: join_chars)
qed

lemma zones_bound: "length (zones_covered cs) \<le> length (concat (map comment_span cs))"
proof -
  let ?ls = "concat (map comment_span cs)"
  have "length (zones_covered cs) \<le> length (filter (\<lambda>ln. 0 < ln) ?ls)"
    unfolding zones_covered_def using length_uniq_le [of "map _ (filter (\<lambda>ln. 0 < ln) ?ls)"] by simp
  also have "\<dots> \<le> length ?ls" by (rule length_filter_le)
  finally show ?thesis .
qed

text \<open>
  C30. The comments of a source file count for one line each, however long they are: their text has been put
  on one line before the lines are counted. So a file covers at most as many zones of fifteen lines as it
  has comments, and a file with more zones than comments never gets the tag for good coverage, not even
  when a block comment runs through all of it.
\<close>
theorem coverage_counts_comments:
  assumes "str_lower (path_suffix path) \<notin> set markdown_suffixes"
  shows "count_comment_lines (extract_comments path src)
      = length (filter (\<lambda>c. cm_text c \<noteq> []) (extract_comments path src))
    \<and> length (zones_covered (extract_comments path src)) \<le> length (extract_comments path src)
    \<and> (length (extract_comments path src) < num_zones f
        \<longrightarrow> coverage_tag (f\<lparr>fd_comments := extract_comments path src\<rparr>) \<noteq> ''good_coverage'')"
proof -
  let ?cs = "extract_comments path src"
  have "\<exists>cs. ?cs = map normalise_comment cs" using assms by (auto simp: extract_comments_def Let_def)
  then have one: "\<forall>c\<in>set ?cs. newlines (cm_text c) = 0" using normalised_one_line by auto
  have count: "count_comment_lines cs = length (filter (\<lambda>c. cm_text c \<noteq> []) cs)"
    "length (concat (map comment_span cs)) = length cs"
    if "\<forall>c\<in>set cs. newlines (cm_text c) = 0" for cs
    using that by (induction cs) (simp_all add: count_comment_lines_def comment_span_def)
  have z: "length (zones_covered ?cs) \<le> length ?cs" using zones_bound [of ?cs] count(2) [OF one] by simp
  have "num_zones (f\<lparr>fd_comments := ?cs\<rparr>) = num_zones f" by (simp add: num_zones_def)
  then show ?thesis using count(1) [OF one] z by (simp add: coverage_tag_def Let_def)
qed

theorem coverage_counts_comments_witness:
  "coverage_tag \<lparr>fd_path = ''a.c'', fd_lines = 40, fd_comment_lines = 1, fd_comments = extract_comments ''a.c'' ''x /* a */'',
     fd_error = False, fd_tags = []\<rparr> \<noteq> ''good_coverage''"
proof -
  let ?f = "\<lparr>fd_path = ''a.c'', fd_lines = 40, fd_comment_lines = 1, fd_comments = [], fd_error = False, fd_tags = []\<rparr>"
  have s: "str_lower (path_suffix ''a.c'') \<notin> set markdown_suffixes" by code_simp
  have "length (extract_comments ''a.c'' ''x /* a */'') < num_zones ?f" by code_simp
  then show ?thesis using coverage_counts_comments [OF s, of "''x /* a */''" ?f] by simp
qed

section \<open>Strings with escapes\<close>

text \<open>The literal \<open>"\"// x"\<close>: the escaped quote ends it, and a comment is found inside.\<close>

lemma escaped_quote_ends_string:
  "map cm_text (scan_comments c_like (1, 0) [dquote, bslash, dquote, CHR ''/'', CHR ''/'', CHR '' '', CHR ''x'', dquote])
     = [[CHR ''x'', dquote]]"
  by code_simp

end
