(* ===== verification/CommentsReportFacts.thy ===== *)
theory CommentsReportFacts
  imports CommentsReport CommentsFacts
begin

text \<open>
  What the report of the comment service says: which files the walk reaches, which messages the report
  carries, and where the totals come from.
\<close>

section \<open>Messages\<close>

lemma set_messages_of: "set (messages_of table tags) = {m. \<exists>t\<in>set tags. dict_get table t = Some m}"
  by (force simp: messages_of_def List.map_filter_def image_def)

lemma scored_path: "fd_path (analyze_file ask p c) = p"
  by (cases c) (simp_all add: analyze_file_def score_file_def score_markdown_def score_code_def static_score_markdown_def
      static_score_code_def Let_def split: option.splits list.splits)

lemma set_rollup: "set (rollup key items) = (\<Union>x\<in>set items. set (key x))"
  by (simp add: rollup_def)

lemma distinct_rollup: "distinct (rollup key items)"
  by (simp add: rollup_def)

text \<open>
  C31. The report of a submission is about the files with a known extension that the walk reaches without
  entering an ignored directory, each once per visit and in the same order as the raw data; its totals are
  their sums; and no alert is lost or made up: a message stands among the alerts of the submission, once,
  exactly when some file has the tag it belongs to.
\<close>
theorem submission_report:
  "let skip = pruned cwd (ignores_of cwd ignored) target; (raw, rep) = submission ask cwd target ignored tree
   in set (map fd_path raw) = {p. \<exists>c. visits analyzable skip target tree (p, c)}
      \<and> map fb_path (rp_feedback rep) = map fd_path raw
      \<and> rp_files rep = length raw \<and> rp_lines rep = sum_list (map fd_lines raw)
      \<and> rp_comment_lines rep = sum_list (map fd_comment_lines raw)
      \<and> distinct (rp_alerts rep)
      \<and> set (rp_alerts rep)
          = {m. \<exists>p c t. visits analyzable skip target tree (p, c) \<and> t \<in> set (fd_tags (analyze_file ask p c))
                 \<and> dict_get alert_messages t = Some m}"
proof -
  let ?skip = "pruned cwd (ignores_of cwd ignored) target"
  let ?es = "walk_files analyzable ?skip target tree"
  let ?scored = "map (\<lambda>(p, c). analyze_file ask p c) ?es"
  have vis: "set ?es = {e. visits analyzable ?skip target tree e}" by (rule walk_visits)
  have paths: "map fd_path ?scored = map fst ?es" by (simp add: scored_path split_def o_def)
  have reached: "set (map fst ?es) = {p. \<exists>c. visits analyzable ?skip target tree (p, c)}" using vis by force
  have alerts: "set (rollup fb_alerts (map (file_student_feedback T) ?scored))
      = {m. \<exists>p c t. visits analyzable ?skip target tree (p, c) \<and> t \<in> set (fd_tags (analyze_file ask p c))
               \<and> dict_get alert_messages t = Some m}" for T
    by (auto simp: set_rollup file_student_feedback_def Let_def set_messages_of vis)
  have raw: "map fd_path (map (\<lambda>f. f\<lparr>fd_tags := []\<rparr>) ?scored) = map fst ?es"
    "map fd_lines (map (\<lambda>f. f\<lparr>fd_tags := []\<rparr>) ?scored) = map fd_lines ?scored"
    "map fd_comment_lines (map (\<lambda>f. f\<lparr>fd_tags := []\<rparr>) ?scored) = map fd_comment_lines ?scored"
    using paths by simp_all
  have fb: "map fb_path (map (file_student_feedback T) ?scored) = map fst ?es" for T
    using paths by (simp add: file_student_feedback_def Let_def o_def)
  show ?thesis
    by (simp only: submission_def submission_student_feedback_def Let_def prod.case snd_conv report.simps
        raw reached fb alerts distinct_rollup length_map simp_thms)
qed

section \<open>Percentages and paths\<close>

text \<open>The percentage of comment lines can pass one hundred: two comments on one line count as two lines.\<close>

lemma density_above_hundred:
  "fb_density (file_student_feedback [] (analyze_file \<lparr>llm_chat = \<lambda>_ _. None, llm_loads = \<lambda>_. None\<rparr> ''a.c'' (Some ''/* a */ /* b */''))) = 2000"
  by code_simp

text \<open>Exact ties are rounded to the even tenth: one comment line out of sixteen is 6.2 percent.\<close>

lemma density_ties: "round_tenth (comment_density 16 1) = 62"
  by code_simp

text \<open>
  A submission that does not exist is answered with an empty report, and an identifier with \<open>..\<close> in it leaves
  the root of the submissions.
\<close>

lemma missing_submission:
  "fs (path_join root sid) = [] \<Longrightarrow> sid \<noteq> [] \<Longrightarrow>
     \<exists>rep. score_submission ask cwd (Some root) fs (Some sid) ignore = Inr ([], rep) \<and> rp_files rep = 0"
  by (cases ignore) (simp_all add: score_submission_def Let_def submission_def submission_student_feedback_def
      walk_files.simps [of _ _ _ "[]"] List.map_filter_simps)

lemma submission_outside_root:
  "score_submission ask ''/srv'' (Some ''/data/submissions'') fs (Some ''../keys'') None
     = Inr (submission ask ''/srv'' ''/data/submissions/../keys'' [] (fs ''/data/submissions/../keys''))
   \<and> abs_path ''/srv'' ''/data/submissions/../keys'' = ''/data/keys''"
proof
  have "path_join ''/data/submissions'' ''../keys'' = ''/data/submissions/../keys''" by code_simp
  then show "score_submission ask ''/srv'' (Some ''/data/submissions'') fs (Some ''../keys'') None
     = Inr (submission ask ''/srv'' ''/data/submissions/../keys'' [] (fs ''/data/submissions/../keys''))"
    by (simp add: score_submission_def Let_def)
  show "abs_path ''/srv'' ''/data/submissions/../keys'' = ''/data/keys''" by code_simp
qed

end
