(* ===== verification/Pipeline.thy ===== *)
theory Pipeline
  imports JavaFront Files
begin

text \<open>
  From source files to the document on disk: \<open>cdup/src/cli/utils.py\<close> and the subcommand \<open>parse\<close> of
  \<open>cdup/src/cli/cmds.py\<close>. Files are read, parsed one by one, tagged with their file, module and language,
  and merged: ids are shifted and the matrix and the graph are built again. The documents pass through JSON
  between these steps; here they are records.
\<close>

section \<open>Collecting files\<close>

datatype source = SrcFile "string option" | SrcDir "entry list" | SrcNone

definition is_source :: "string \<Rightarrow> bool" where
  "is_source path \<longleftrightarrow> endswith path ''.c'' \<or> endswith path ''.java''"

text \<open>The left summand is the message printed before \<open>sys.exit(1)\<close>.\<close>

definition collect_source_files :: "string \<Rightarrow> source \<Rightarrow> string + (string \<times> string option) list" where
  "collect_source_files src entry =
     (case entry of
        SrcFile content \<Rightarrow>
          if is_source src then Inr [(src, content)]
          else Inl (''Error: '' @ [squote] @ src @ [squote] @ '' is not a .c/.java file or directory.'')
      | SrcDir es \<Rightarrow>
          let files = walk_files is_source (\<lambda>_ _. False) src es
          in if files = [] then Inl (''Error: No .c or .java files found in '' @ [squote] @ src @ [squote] @ ''.'')
             else Inr files
      | SrcNone \<Rightarrow> Inl (''Error: '' @ [squote] @ src @ [squote] @ '' is not a valid file or directory.''))"

section \<open>Documents\<close>

text \<open>A segment of the document: a slot of a Java loop over a collection also has the name of the collection.\<close>

record doc_segment = fsegment +
  ds_collections :: "(string, string) dict"

record parse_meta =
  pm_files :: "string list"
  pm_total_files :: nat
  pm_skipped :: "string list"
  pm_total_skipped :: nat
  pm_total_modules :: nat
  pm_modules :: "string list"
  pm_total_segments :: nat
  pm_by_type :: "(string, nat) dict"
  pm_total_statements :: nat
  pm_language :: "string option"

record ir_doc =
  ir_meta :: parse_meta
  ir_segments :: "doc_segment list"
  ir_matrix :: matrix
  ir_dag :: dag

definition tag_segment ::
  "string \<Rightarrow> string \<Rightarrow> string \<Rightarrow> (string, string) dict \<Rightarrow> 'a segment_scheme \<Rightarrow> doc_segment" where
  "tag_segment file module language collections s =
     \<lparr>sg_id = sg_id s, sg_parent = sg_parent s, sg_type = sg_type s, sg_name = sg_name s,
      sg_scope_path = sg_scope_path s, sg_head = sg_head s, sg_memory = sg_memory s, sg_constants = sg_constants s,
      sg_stmts = sg_stmts s, sg_file = Some file, sg_module = Some module, sg_language = Some language,
      ds_collections = collections\<rparr>"

text \<open>The counters of both functions that build the metadata.\<close>

definition no_types :: "(string, nat) dict" where
  "no_types = [(''root'', 0), (''function'', 0), (''loop'', 0), (''branch'', 0), (''struct'', 0), (''class'', 0)]"

definition count_type :: "('a segment_scheme) \<Rightarrow> (string, nat) dict \<Rightarrow> (string, nat) dict" where
  "count_type s d = dict_set (sg_type s) ((case dict_get d (sg_type s) of None \<Rightarrow> 0 | Some n \<Rightarrow> n) + 1) d"

definition dict_total :: "(string, nat) dict \<Rightarrow> nat" where
  "dict_total d = sum_list (map snd d)"

definition total_stmts :: "('a segment_scheme) list \<Rightarrow> nat" where
  "total_stmts segs = sum_list (map (\<lambda>s. length (sg_stmts s)) segs)"

section \<open>One file\<close>

definition module_of :: "string \<Rightarrow> string \<Rightarrow> string" where
  "module_of cwd path = path_name (dir_name (abs_path cwd path))"

definition file_meta :: "string \<Rightarrow> string \<Rightarrow> string \<Rightarrow> doc_segment list \<Rightarrow> parse_meta" where
  "file_meta file module language segs =
     (let by_type = fold count_type segs no_types
      in \<lparr>pm_files = [file], pm_total_files = 1, pm_skipped = [], pm_total_skipped = 0, pm_total_modules = 1,
          pm_modules = [module], pm_total_segments = dict_total by_type, pm_by_type = by_type,
          pm_total_statements = total_stmts segs, pm_language = Some language\<rparr>)"

record parse_options =
  po_comments :: bool
  po_includes :: bool
  po_macros :: bool

text \<open>The front end of the file, by its extension: the segments it returns, tagged.\<close>

definition front_end :: "string list \<Rightarrow> parse_options \<Rightarrow> string \<Rightarrow> string \<Rightarrow> string \<Rightarrow> doc_segment list py" where
  "front_end mods opts cwd path content =
     (let file = path_name path; module = module_of cwd path
      in if endswith path ''.java''
         then py_bind (parse_java_file mods content) (\<lambda>p.
                Inr (map (\<lambda>s. tag_segment file module ''java'' (jg_collections s) s) (jf_segments p)))
         else py_bind (parse_c_file content (po_comments opts) (po_includes opts) (po_macros opts)) (\<lambda>p.
                Inr (map (tag_segment file module ''c'' []) (pf_segments p))))"

definition matrix_and_dag :: "('a segment_scheme) list \<Rightarrow> (matrix \<times> dag) py" where
  "matrix_and_dag segs =
     py_bind (build_matrix (Suc (length segs)) segs) (\<lambda>m. py_bind (build_dag segs m) (\<lambda>d. Inr (m, d)))"

text \<open>
  The left summand of the result is the path of a file that is skipped: every exception of the front end is
  caught. The matrix and the graph are built outside of the handler.
\<close>

definition parse_file ::
  "string list \<Rightarrow> parse_options \<Rightarrow> string \<Rightarrow> string \<times> string option \<Rightarrow> (string + ir_doc) py" where
  "parse_file mods opts cwd = (\<lambda>(path, content).
     case content of
       None \<Rightarrow> Inr (Inl path)
     | Some text \<Rightarrow>
         (case front_end mods opts cwd path text of
            Inl _ \<Rightarrow> Inr (Inl path)
          | Inr segs \<Rightarrow>
              py_bind (matrix_and_dag segs) (\<lambda>(m, d).
                Inr (Inr \<lparr>ir_meta = file_meta (path_name path) (module_of cwd path)
                            (if endswith path ''.java'' then ''java'' else ''c'') segs,
                          ir_segments = segs, ir_matrix = m, ir_dag = d\<rparr>))))"

definition parse_files ::
  "string list \<Rightarrow> parse_options \<Rightarrow> string \<Rightarrow> (string \<times> string option) list \<Rightarrow> (ir_doc list \<times> string list) py" where
  "parse_files mods opts cwd files =
     py_bind (py_seq (map (parse_file mods opts cwd) files)) (\<lambda>results.
       Inr (List.map_filter (\<lambda>r. case r of Inl _ \<Rightarrow> None | Inr d \<Rightarrow> Some d) results,
            List.map_filter (\<lambda>r. case r of Inl p \<Rightarrow> Some p | Inr _ \<Rightarrow> None) results))"

section \<open>Merging\<close>

text \<open>\<open>sorted\<close> of the set of modules orders strings by their characters.\<close>

definition build_parse_meta :: "ir_doc list \<Rightarrow> string list \<Rightarrow> parse_meta" where
  "build_parse_meta parsed skipped =
     (let files = concat (map (\<lambda>d. pm_files (ir_meta d)) parsed);
          segs = concat (map ir_segments parsed);
          modules = uniq (List.map_filter sg_module segs);
          by_type = fold count_type segs no_types
      in \<lparr>pm_files = files, pm_total_files = length files, pm_skipped = skipped, pm_total_skipped = length skipped,
          pm_total_modules = length modules, pm_modules = sort modules, pm_total_segments = dict_total by_type,
          pm_by_type = by_type, pm_total_statements = total_stmts segs, pm_language = None\<rparr>)"

definition shift_segment :: "nat \<Rightarrow> doc_segment \<Rightarrow> doc_segment" where
  "shift_segment off s = s\<lparr>sg_id := sg_id s + off, sg_parent := sg_parent s + off\<rparr>"

fun shift_segments :: "nat \<Rightarrow> ir_doc list \<Rightarrow> doc_segment list" where
  "shift_segments off [] = []"
| "shift_segments off (d # ds) =
     map (shift_segment off) (ir_segments d) @ shift_segments (off + length (ir_segments d)) ds"

definition merge_parsed_jsons :: "ir_doc list \<Rightarrow> string list \<Rightarrow> ir_doc py" where
  "merge_parsed_jsons parsed skipped =
     (let segs = shift_segments 0 parsed
      in py_bind (matrix_and_dag segs) (\<lambda>(m, d).
           Inr \<lparr>ir_meta = build_parse_meta parsed skipped, ir_segments = segs, ir_matrix = m, ir_dag = d\<rparr>))"

definition build_parsed_str :: "ir_doc list \<Rightarrow> string list \<Rightarrow> ir_doc py" where
  "build_parsed_str parsed skipped =
     (case parsed of
        [d] \<Rightarrow> Inr (d\<lparr>ir_meta := (ir_meta d)\<lparr>pm_skipped := skipped, pm_total_skipped := length skipped\<rparr>\<rparr>)
      | _ \<Rightarrow> merge_parsed_jsons parsed skipped)"

text \<open>The subcommand: a message and exit status 1, or the document.\<close>

definition parse_source ::
  "string list \<Rightarrow> parse_options \<Rightarrow> string \<Rightarrow> string \<Rightarrow> source \<Rightarrow> (string + ir_doc) py" where
  "parse_source mods opts cwd src entry =
     (case collect_source_files src entry of
        Inl msg \<Rightarrow> Inr (Inl msg)
      | Inr files \<Rightarrow>
          py_bind (parse_files mods opts cwd files) (\<lambda>(parsed, skipped).
            if parsed = [] then Inr (Inl ''Error: No files could be parsed successfully.'')
            else py_bind (build_parsed_str parsed skipped) (\<lambda>d. Inr (Inr d))))"

section \<open>Exports\<close>

text \<open>The cells of the matrix as a table; \<open>csv\<close> quotes them.\<close>

definition csv_cell :: "row \<Rightarrow> string \<Rightarrow> string" where
  "csv_cell r col =
     str_join ''+'' ((if col \<in> set (rw_decls r) then [''D''] else [])
                     @ (if col \<in> set (rw_writes r) then [''W''] else [])
                     @ (if col \<in> set (rw_reads r) then [''R''] else []))"

definition csv_none :: "string option \<Rightarrow> string" where
  "csv_none s = (case s of None \<Rightarrow> [] | Some x \<Rightarrow> x)"

definition matrix_csv :: "matrix \<Rightarrow> string list list" where
  "matrix_csv m =
     ([''seg_id'', ''scope_path'', ''kind'', ''raw''] @ mx_slots m)
     # map (\<lambda>r. [case rw_seg_id r of None \<Rightarrow> [] | Some i \<Rightarrow> nat_digits i, csv_none (rw_scope_path r), rw_kind r, rw_raw r]
                @ map (csv_cell r) (mx_slots m)) (mx_rows m)"

definition node_scope :: "'a row_scheme \<Rightarrow> string" where
  "node_scope n = (case rw_scope_path n of None \<Rightarrow> ''root'' | Some s \<Rightarrow> s)"

definition nodes_by_scope :: "dag_node list \<Rightarrow> (string, dag_node list) dict" where
  "nodes_by_scope nodes = fold (\<lambda>n d. dict_append (node_scope n) n d) nodes []"

definition dot_escape :: "string \<Rightarrow> string" where
  "dot_escape raw =
     concat (map (\<lambda>c. if c = dquote then [bslash, dquote] else if c = newline then [bslash, CHR ''n''] else [c]) raw)"

definition quoted :: "string \<Rightarrow> string" where
  "quoted s = [dquote] @ s @ [dquote]"

definition dot_node :: "dag_node option \<Rightarrow> dag_node \<Rightarrow> string list" where
  "dot_node prev n =
     (let nid = nat_digits (nd_id n);
          label = nid @ '': ['' @ rw_kind n @ '']'' @ [bslash, CHR ''n''] @ dot_escape (rw_raw n)
      in [''    n'' @ nid @ '' [label='' @ quoted label @ ''];'']
         @ (case prev of
              None \<Rightarrow> []
            | Some p \<Rightarrow> [''    n'' @ nat_digits (nd_id p) @ '' -> n'' @ nid @ '' [style=invis, weight=10];'']))"

fun dot_nodes :: "dag_node option \<Rightarrow> dag_node list \<Rightarrow> string list" where
  "dot_nodes prev [] = []"
| "dot_nodes prev (n # ns) = dot_node prev n @ dot_nodes (Some n) ns"

definition dot_cluster :: "nat \<times> string \<times> dag_node list \<Rightarrow> string list" where
  "dot_cluster = (\<lambda>(i, scope, nodes).
     [''  subgraph cluster_'' @ nat_digits i @ '' {'', ''    label='' @ quoted scope @ '';'', ''    style=filled;'',
      ''    fillcolor='' @ quoted ''#e8e8e8'' @ '';'', ''    color=black;'']
     @ dot_nodes None (sort_key nd_id nodes) @ [''  }''])"

definition edge_color :: "string \<Rightarrow> string" where
  "edge_color kind =
     (if kind = ''data_flow'' then ''#4cc9f0'' else if kind = ''phi_loop'' then ''#f72585'' else ''#7209b7'')"

definition dot_edge :: "edge \<Rightarrow> string" where
  "dot_edge e =
     (let kind = ed_kind e; color = quoted (edge_color kind);
          label = ed_slot e @ (if kind \<noteq> ''data_flow'' then '' ('' @ kind @ '')'' else [])
      in ''  n'' @ nat_digits (ed_from e) @ '' -> n'' @ nat_digits (ed_to e) @ '' [label='' @ quoted label @ '', color=''
         @ color @ '', fontcolor='' @ color @ '', style=''
         @ quoted (if kind = ''data_flow'' then ''solid'' else ''dashed'') @ ''];'')"

definition dag_dot :: "dag \<Rightarrow> string list" where
  "dag_dot d =
     [''digraph G {'', ''  rankdir=TB;'', ''  nodesep=0.5;'', ''  ranksep=0.8;'', ''  splines=polyline;'',
      ''  node [shape=box, style=filled, fillcolor='' @ quoted ''#f0f0f0'' @ '', fontname='' @ quoted ''Courier''
        @ '', fontsize=10];'']
     @ concat (map dot_cluster (enumerate 0 (nodes_by_scope (dg_nodes d))))
     @ map dot_edge (dg_edges d) @ [''}'']"

text \<open>The data of the three-dimensional view: scopes get colours in the order they first occur.\<close>

definition color_palette :: "string list" where
  "color_palette =
     [''#e6194b'', ''#3cb44b'', ''#ffe119'', ''#4363d8'', ''#f58231'', ''#911eb4'', ''#46f0f0'', ''#f032e6'',
      ''#bcf60c'', ''#fabebe'', ''#008080'', ''#e6beff'', ''#9a6324'', ''#fffac8'', ''#800000'', ''#aaffc3'',
      ''#808000'', ''#ffd8b1'', ''#000075'', ''#808080'', ''#ffffff'', ''#000000'']"

definition color_scope :: "string \<Rightarrow> (string, string) dict \<Rightarrow> (string, string) dict" where
  "color_scope scope colors =
     (if dict_get colors scope = None
      then dict_set scope (color_palette ! (length colors mod length color_palette)) colors else colors)"

definition scope_colors :: "dag_node list \<Rightarrow> (string, string) dict" where
  "scope_colors nodes = fold (\<lambda>n. color_scope (node_scope n)) nodes []"

end
