(* ===== verification/DetectRun.thy ===== *)
theory DetectRun
  imports Pipeline NearMiss CloneSemantic
begin

text \<open>
  The subcommand \<open>detect\<close> of \<open>cdup/src/cli/cmds.py\<close>: Types I, II and IV run first, the pairs of segments
  they report are excluded from Type III, Type II classes that Type I has found are dropped, and the
  metadata sums up the rest. The digests and the iteration order of sets are parameters.
\<close>

section \<open>Classes of all types\<close>

datatype found = FText clone_class | FNear t3_class | FSemantic t4_class

definition found_type :: "found \<Rightarrow> string" where
  "found_type c = (case c of FText k \<Rightarrow> cc_type k | FNear k \<Rightarrow> ''III'' | FSemantic k \<Rightarrow> ''IV'')"

definition found_id :: "found \<Rightarrow> nat" where
  "found_id c = (case c of FText k \<Rightarrow> cc_id k | FNear k \<Rightarrow> t3_id k | FSemantic k \<Rightarrow> t4_id k)"

definition set_found_id :: "nat \<Rightarrow> found \<Rightarrow> found" where
  "set_found_id i c =
     (case c of FText k \<Rightarrow> FText (k\<lparr>cc_id := i\<rparr>) | FNear k \<Rightarrow> FNear (k\<lparr>t3_id := i\<rparr>)
      | FSemantic k \<Rightarrow> FSemantic (k\<lparr>t4_id := i\<rparr>))"

text \<open>The occurrences: segment, first and last statement. A function without statements ends at \<open>-1\<close>.\<close>

definition found_occs :: "found \<Rightarrow> (nat \<times> int \<times> int) list" where
  "found_occs c =
     (case c of
        FText k \<Rightarrow> map (\<lambda>(s, st, en). (s, int st, int en)) (cc_occs k)
      | FNear k \<Rightarrow> map (\<lambda>o'. (sd_seg o', int (sd_start o'), int (sd_end o'))) (t3_occs k)
      | FSemantic k \<Rightarrow> map (\<lambda>o'. (t4_seg o', t4_start o', t4_end o')) (t4_occs k))"

definition found_segs :: "found \<Rightarrow> nat list" where
  "found_segs c = map fst (found_occs c)"

definition found_cross :: "found \<Rightarrow> bool" where
  "found_cross c = (case c of FText k \<Rightarrow> False | FNear k \<Rightarrow> t3_cross k | FSemantic k \<Rightarrow> t4_cross k)"

text \<open>A Type IV class has no length; the statements of its first occurrence are counted.\<close>

definition found_length :: "found \<Rightarrow> nat" where
  "found_length c =
     (case c of
        FText k \<Rightarrow> cc_length k
      | FNear k \<Rightarrow> t3_length k
      | FSemantic k \<Rightarrow> (case t4_occs k of [] \<Rightarrow> 0 | o' # _ \<Rightarrow> length (t4_statements o')))"

section \<open>The passes\<close>

record detect_options =
  do_types :: "nat list"
  do_min_length :: nat
  do_max_freq :: nat
  do_maximal :: bool
  do_filter_overlaps :: bool
  do_threshold :: pyfloat
  do_min_length3 :: nat

record detect_env =
  de_digest :: "string \<Rightarrow> string"
  de_sig_digest :: "signature \<Rightarrow> string"
  de_iter :: "occ list \<Rightarrow> occ list"

type_synonym results = "(nat, found list) dict"

definition run_pass :: "detect_env \<Rightarrow> detect_options \<Rightarrow> jseg list \<Rightarrow> nat \<Rightarrow> results \<Rightarrow> results py" where
  "run_pass env opts segs t results =
     (if t = 1 \<or> t = 2 then
        py_bind (detect_clones (de_digest env) (de_iter env) segs (t = 2) (do_maximal opts) (do_min_length opts)
                   (do_max_freq opts) (do_filter_overlaps opts)) (\<lambda>cs.
          Inr (dict_set t (map FText cs) results))
      else if t = 4 then
        py_bind (detect_type4 (de_sig_digest env) segs (do_min_length opts)) (\<lambda>cs.
          Inr (dict_set t (map FSemantic cs) results))
      else Inr results)"

text \<open>All pairs of two positions of a list, the smaller segment first.\<close>

fun seg_pairs :: "nat list \<Rightarrow> (nat \<times> nat) list" where
  "seg_pairs [] = []"
| "seg_pairs (a # bs) = map (\<lambda>b. (min a b, max a b)) bs @ seg_pairs bs"

definition exclude_pairs :: "results \<Rightarrow> (nat \<times> nat) list" where
  "exclude_pairs results =
     concat (map (\<lambda>t. concat (map (\<lambda>c. seg_pairs (found_segs c)) (dict_get_list results t))) [1, 2, 4])"

definition run_type3 :: "detect_env \<Rightarrow> detect_options \<Rightarrow> jseg list \<Rightarrow> results \<Rightarrow> results py" where
  "run_type3 env opts segs results =
     (if 3 \<in> set (do_types opts) then
        py_bind (detect_type3 (de_digest env) segs (do_threshold opts) (do_min_length3 opts) None
                   (exclude_pairs results)) (\<lambda>cs. Inr (dict_set 3 (map FNear cs) results))
      else Inr results)"

section \<open>The list of classes\<close>

definition fingerprint :: "found \<Rightarrow> (nat \<times> int \<times> int) set" where
  "fingerprint c = set (found_occs c)"

text \<open>An entry remembers which object it is: the type and the position among the results of the type.\<close>

definition type_entries :: "results \<Rightarrow> nat \<Rightarrow> ((nat \<times> nat) \<times> found) list py" where
  "type_entries results t =
     py_bind (py_item results t) (\<lambda>cs.
       let known = (case dict_get results 1 of None \<Rightarrow> [] | Some c1 \<Rightarrow> c1)
       in Inr (filter (\<lambda>(key, c). \<not> (t = 2 \<and> list_ex (\<lambda>c1. fingerprint c1 = fingerprint c) known))
                 (map (\<lambda>(i, c). ((t, i), c)) (enumerate 0 cs))))"

text \<open>The loop writes the number of every position into its object; the last position of an object counts.\<close>

definition number_entries :: "((nat \<times> nat) \<times> found) list \<Rightarrow> found list" where
  "number_entries entries =
     (let ids = fold (\<lambda>(i, key, c) d. dict_set key i d) (enumerate 1 entries) []
      in map (\<lambda>(key, c). set_found_id (case dict_get ids key of None \<Rightarrow> 0 | Some i \<Rightarrow> i) c) entries)"

definition all_classes :: "detect_env \<Rightarrow> detect_options \<Rightarrow> jseg list \<Rightarrow> found list py" where
  "all_classes env opts segs =
     py_bind (py_fold (run_pass env opts segs) (sort (do_types opts)) []) (\<lambda>base.
     py_bind (run_type3 env opts segs base) (\<lambda>results.
     py_bind (py_seq (map (type_entries results) (sort (do_types opts)))) (\<lambda>ess.
     Inr (number_entries (concat ess)))))"

section \<open>Metadata\<close>

record detect_meta =
  dm_types :: "nat list"
  dm_files_scanned :: nat
  dm_skipped :: "string list"
  dm_modules :: nat
  dm_segments :: nat
  dm_statements :: nat
  dm_classes :: nat
  dm_by_type :: "(string, nat) dict"
  dm_cross :: nat
  dm_occurrences :: nat
  dm_cloned_stmts :: nat
  dm_largest :: nat
  dm_most :: nat
  dm_files :: "string list"
  dm_cloned_modules :: "string list"
  dm_most_cloned :: "nat option"
  dm_most_cloned_file :: "string option"
  dm_cloned_segments :: nat

definition bump_count :: "'k \<Rightarrow> ('k, nat) dict \<Rightarrow> ('k, nat) dict" where
  "bump_count k d = dict_set k ((case dict_get d k of None \<Rightarrow> 0 | Some n \<Rightarrow> n) + 1) d"

definition max_or_zero :: "nat list \<Rightarrow> nat" where
  "max_or_zero ns = fold max ns 0"

text \<open>\<open>max(d, key=d.get)\<close>: the first key with the greatest value.\<close>

fun first_max :: "'k \<Rightarrow> nat \<Rightarrow> ('k, nat) dict \<Rightarrow> 'k" where
  "first_max k n [] = k"
| "first_max k n ((k', n') # d) = (if n < n' then first_max k' n' d else first_max k n d)"

definition detect_meta_of :: "detect_options \<Rightarrow> ir_doc \<Rightarrow> string list \<Rightarrow> found list \<Rightarrow> detect_meta" where
  "detect_meta_of opts doc skipped classes =
     (let by_id = seg_by_id (ir_segments doc);
          sids = concat (map found_segs classes);
          cloned = List.map_filter (dict_get by_id) (uniq sids);
          files = uniq (List.map_filter sg_file cloned); modules = uniq (List.map_filter sg_module cloned);
          seg_count = fold bump_count sids [];
          most = (case seg_count of [] \<Rightarrow> None | (k, n) # d \<Rightarrow> Some (first_max k n d))
      in \<lparr>dm_types = sort (do_types opts), dm_files_scanned = pm_total_files (ir_meta doc), dm_skipped = skipped,
          dm_modules = pm_total_modules (ir_meta doc), dm_segments = pm_total_segments (ir_meta doc),
          dm_statements = pm_total_statements (ir_meta doc), dm_classes = length classes,
          dm_by_type = fold (\<lambda>c. bump_count (found_type c)) classes [],
          dm_cross = length (filter found_cross classes),
          dm_occurrences = sum_list (map (length \<circ> found_occs) classes),
          dm_cloned_stmts = sum_list (map (\<lambda>c. found_length c * length (found_occs c)) classes),
          dm_largest = max_or_zero (map found_length classes),
          dm_most = max_or_zero (map (length \<circ> found_occs) classes),
          dm_files = sort files, dm_cloned_modules = sort modules, dm_most_cloned = most,
          dm_most_cloned_file = Option.bind (Option.bind most (dict_get by_id)) sg_file,
          dm_cloned_segments = length seg_count\<rparr>)"

definition doc_jsegs :: "ir_doc \<Rightarrow> jseg list" where
  "doc_jsegs doc = map (\<lambda>s. jseg_of (fsegment.truncate s)) (ir_segments doc)"

definition detect_document ::
  "detect_env \<Rightarrow> detect_options \<Rightarrow> ir_doc \<Rightarrow> string list \<Rightarrow> (detect_meta \<times> found list) py" where
  "detect_document env opts doc skipped =
     py_bind (all_classes env opts (doc_jsegs doc)) (\<lambda>classes.
       Inr (detect_meta_of opts doc skipped classes, classes))"

text \<open>On sources the document is made first; the left summand is the message before \<open>exit(1)\<close>.\<close>

definition detect_source ::
  "detect_env \<Rightarrow> detect_options \<Rightarrow> string list \<Rightarrow> parse_options \<Rightarrow> string \<Rightarrow> string \<Rightarrow> source \<Rightarrow>
     (string + detect_meta \<times> found list) py" where
  "detect_source env opts mods popts cwd src entry =
     py_bind (parse_source mods popts cwd src entry) (\<lambda>r.
       case r of
         Inl msg \<Rightarrow> Inr (Inl msg)
       | Inr doc \<Rightarrow>
           py_bind (detect_document env opts doc (pm_skipped (ir_meta doc))) (\<lambda>res. Inr (Inr res)))"

section \<open>Clones in the graph\<close>

text \<open>\<open>_build_seg_stmt_to_dag_map\<close>: nodes that stand for a statement are counted per segment.\<close>

definition stands_for_stmt :: "dag_node \<Rightarrow> bool" where
  "stands_for_stmt n \<longleftrightarrow>
     rw_note n \<notin> {Some ''synthetic'', Some ''loop_entry'', Some ''branch_reconvergence''}
     \<and> rw_kind n \<notin> {''func_entry'', ''file_entry'', ''struct_def'', ''phi''}"

definition map_node ::
  "dag_node \<Rightarrow> (nat, nat) dict \<times> (nat \<times> nat, nat) dict \<Rightarrow> (nat, nat) dict \<times> (nat \<times> nat, nat) dict" where
  "map_node n = (\<lambda>(counter, mapping).
     case rw_seg_id n of
       None \<Rightarrow> (counter, mapping)
     | Some sid \<Rightarrow>
         if stands_for_stmt n then
           (let idx = (case dict_get counter sid of None \<Rightarrow> 0 | Some k \<Rightarrow> k)
            in (dict_set sid (idx + 1) counter, dict_set (sid, idx) (nd_id n) mapping))
         else (counter, mapping))"

definition build_seg_stmt_to_dag_map :: "dag_node list \<Rightarrow> (nat \<times> nat, nat) dict" where
  "build_seg_stmt_to_dag_map nodes = snd (fold map_node nodes ([], []))"

text \<open>The graph nodes of an occurrence; statements without a node are left out.\<close>

definition occ_dag_ids :: "(nat \<times> nat, nat) dict \<Rightarrow> nat \<times> int \<times> int \<Rightarrow> nat list" where
  "occ_dag_ids stmt_map = (\<lambda>(sid, start, stop).
     List.map_filter (\<lambda>i. dict_get stmt_map (sid, i)) [nat start..<nat (stop + 1)])"

end
