(* ===== verification/PipelineFacts.thy ===== *)
theory PipelineFacts
  imports Pipeline JavaFrontFacts CloneBase
begin

text \<open>
  What the subcommand \<open>parse\<close> guarantees for any list of files: which files are skipped, that merging keeps
  the segments apart from their ids, and that the metadata counts what the document contains.
\<close>

section \<open>Blocks of segments\<close>

text \<open>The ids of a block of segments run from an offset, and parents stay inside the block.\<close>

definition wf_from :: "nat \<Rightarrow> ('a segment_scheme) list \<Rightarrow> bool" where
  "wf_from off segs \<longleftrightarrow> map sg_id segs = [off..<off + length segs]
     \<and> list_all (\<lambda>s. sg_parent s = sg_id s \<or> off \<le> sg_parent s \<and> sg_parent s < sg_id s) segs"

lemma wf_from_append: "wf_from off xs \<Longrightarrow> wf_from (off + length xs) ys \<Longrightarrow> wf_from off (xs @ ys)"
proof -
  assume wf: "wf_from off xs" "wf_from (off + length xs) ys"
  have "[off..<off + length (xs @ ys)] = [off..<off + length xs] @ [off + length xs..<off + length xs + length ys]"
    using upt_add_eq_append [of off "off + length xs" "length ys"] by (simp add: add.assoc)
  then show ?thesis using wf by (fastforce simp: wf_from_def list_all_iff)
qed

lemma wf_from_ids: "wf_from off segs \<Longrightarrow> sg_id ` set segs = {off..<off + length segs}"
  unfolding wf_from_def by (metis set_map set_upt)

lemma wf_from_segments: "wf_from off segs \<Longrightarrow> segments_wf segs"
proof -
  assume wf: "wf_from off segs"
  then have "distinct (map sg_id segs)" by (simp add: wf_from_def)
  moreover have "sg_parent s \<in> sg_id ` set segs" if "s \<in> set segs" "off \<le> sg_parent s" "sg_parent s < sg_id s" for s
    using that wf_from_ids [OF wf] by (auto simp: image_iff) (metis atLeastLessThan_iff imageE image_eqI less_trans)
  ultimately show ?thesis using wf by (auto simp: segments_wf_def wf_from_def list_all_iff)
qed

lemma segments_wf_from: "segments_wf segs \<Longrightarrow> map sg_id segs = [0..<length segs] \<Longrightarrow> wf_from 0 segs"
  by (auto simp: wf_from_def segments_wf_def list_all_iff)

lemma wf_from_jsegs:
  "wf_from off segs \<Longrightarrow> jsegs_wf (map (\<lambda>s. jseg_of (fsegment.truncate s)) (segs :: doc_segment list))"
  by (auto simp: jsegs_wf_def wf_from_def list_all_iff o_def jseg_of_def fsegment.defs)

lemma shift_block: "wf_from 0 segs \<Longrightarrow> wf_from off (map (shift_segment off) segs)"
proof -
  assume wf: "wf_from 0 segs"
  then have "map sg_id (map (shift_segment off) segs) = map (\<lambda>i. i + off) (map sg_id segs)"
    by (simp add: shift_segment_def)
  also have "\<dots> = [off..<off + length segs]" using wf by (simp add: wf_from_def map_add_upt add.commute)
  finally show ?thesis using wf by (auto simp: wf_from_def list_all_iff shift_segment_def)
qed

lemma shift_segments_wf: "list_all (\<lambda>d. wf_from 0 (ir_segments d)) ds \<Longrightarrow> wf_from off (shift_segments off ds)"
proof (induction ds arbitrary: off)
  case Nil
  show ?case by (simp add: wf_from_def)
next
  case (Cons d ds)
  then have "wf_from (off + length (ir_segments d)) (shift_segments (off + length (ir_segments d)) ds)" by simp
  then show ?case using wf_from_append [OF shift_block [of "ir_segments d" off]] Cons.prems
    by (simp add: shift_segment_def)
qed

definition placeless :: "doc_segment \<Rightarrow> doc_segment" where
  "placeless s = s\<lparr>sg_id := 0, sg_parent := 0\<rparr>"

lemma shift_segments_placeless:
  "map placeless (shift_segments off ds) = concat (map (\<lambda>d. map placeless (ir_segments d)) ds)"
  by (induction ds arbitrary: off) (auto simp: placeless_def shift_segment_def)

lemma matrix_and_dag_total: "segments_wf segs \<Longrightarrow> \<exists>m d. matrix_and_dag segs = Inr (m, d)"
  using matrix_dag_result [of segs "Suc (length segs)"] by (auto simp: matrix_and_dag_def)

section \<open>Counters\<close>

definition dict_count :: "(string, nat) dict \<Rightarrow> string \<Rightarrow> nat" where
  "dict_count d t = (case dict_get d t of None \<Rightarrow> 0 | Some n \<Rightarrow> n)"

lemma count_type_get: "dict_count (count_type s d) t = dict_count d t + (if sg_type s = t then 1 else 0)"
  by (simp add: dict_count_def count_type_def update_conv')

lemma count_types_get:
  "dict_count (fold count_type segs d) t = dict_count d t + length (filter (\<lambda>s. sg_type s = t) segs)"
  by (induction segs arbitrary: d) (auto simp: count_type_get)

lemma dict_total_bump: "dict_total (dict_set k ((case dict_get d k of None \<Rightarrow> 0 | Some n \<Rightarrow> n) + 1) d) = dict_total d + 1"
  by (induction d) (auto simp: dict_total_def)

lemma count_type_total: "dict_total (count_type s d) = Suc (dict_total d)"
  using dict_total_bump [of "sg_type s" d] by (simp add: count_type_def)

lemma count_types_total: "dict_total (fold count_type segs d) = dict_total d + length segs"
  by (induction segs arbitrary: d) (simp_all add: count_type_total)

lemma count_types_start:
  "dict_total (fold count_type segs no_types) = length segs"
  "dict_count (fold count_type segs no_types) t = length (filter (\<lambda>s. sg_type s = t) segs)"
proof -
  have "dict_total no_types = 0" "dict_count no_types t = 0"
    by (simp_all add: dict_total_def dict_count_def no_types_def)
  then show "dict_total (fold count_type segs no_types) = length segs"
    "dict_count (fold count_type segs no_types) t = length (filter (\<lambda>s. sg_type s = t) segs)"
    by (simp_all add: count_types_total count_types_get)
qed

section \<open>Files\<close>

definition brackets_ok :: "string \<Rightarrow> bool" where
  "brackets_ok text \<longleftrightarrow> closes_only_opened (bk_b_seq (scan_brackets text)) \<and> closes_only_opened (bk_p_seq (scan_brackets text))"

text \<open>A file that is parsed: it can be read and closes no bracket, brace or parenthesis, that is not open.\<close>

definition parsable :: "string list \<Rightarrow> string \<times> string option \<Rightarrow> bool" where
  "parsable mods = (\<lambda>(path, content).
     case content of None \<Rightarrow> False
     | Some text \<Rightarrow> brackets_ok (if endswith path ''.java'' then preprocess_java mods text else text))"

definition file_segments :: "string list \<Rightarrow> parse_options \<Rightarrow> string \<Rightarrow> string \<times> string option \<Rightarrow> doc_segment list" where
  "file_segments mods opts cwd = (\<lambda>(path, content).
     case content of None \<Rightarrow> [] | Some text \<Rightarrow>
       (case front_end mods opts cwd path text of Inl _ \<Rightarrow> [] | Inr segs \<Rightarrow> segs))"

lemma tag_keeps:
  "wf_from 0 segs \<Longrightarrow> wf_from 0 (map (\<lambda>s. tag_segment file module language (f s) s) segs)"
  by (auto simp: wf_from_def list_all_iff tag_segment_def o_def)

lemma front_end_run:
  assumes "parsable mods (path, Some text)"
  shows "\<exists>segs. front_end mods opts cwd path text = Inr segs \<and> wf_from 0 segs"
proof (cases "endswith path ''.java''")
  case True
  then have "brackets_ok (preprocess_java mods text)" using assms by (simp add: parsable_def)
  from java_front_run [OF this [unfolded brackets_ok_def]] obtain jf where
    "parse_java_file mods text = Inr jf" "segments_wf (jf_segments jf)"
    "map sg_id (jf_segments jf) = [0..<length (jf_segments jf)]" by blast
  then show ?thesis using True tag_keeps [OF segments_wf_from] by (simp add: front_end_def Let_def)
next
  case False
  then have "brackets_ok text" using assms by (simp add: parsable_def)
  from parse_c_file_run [OF this [unfolded brackets_ok_def], of "po_comments opts" "po_includes opts" "po_macros opts"]
  obtain fi stmnts parents segs m d where
    r: "built_from fi stmnts parents segs"
      "parse_c_file text (po_comments opts) (po_includes opts) (po_macros opts)
         = Inr \<lparr>pf_segments = segs, pf_matrix = m, pf_dag = d\<rparr>" by blast
  have "wf_from 0 segs"
    using segments_wf_from [OF built_wf [OF r(1)]] r(1) built_length [OF r(1)] by (simp add: built_from_def)
  from tag_keeps [OF this] show ?thesis using False r(2) by (auto simp: front_end_def Let_def)
qed

lemma front_end_fails:
  assumes "\<not> parsable mods (path, Some text)"
  shows "front_end mods opts cwd path text = Inl IndexError"
proof (cases "endswith path ''.java''")
  case True
  then show ?thesis using assms java_front_fails [of mods "text"]
    by (simp add: parsable_def brackets_ok_def front_end_def Let_def)
next
  case False
  then have "parse_c_file text c i m = Inl IndexError" for c i m
    using assms code_blocks_fails [of "text"]
    by (auto simp: parsable_def brackets_ok_def parse_c_file_def c_segments_def)
  then show ?thesis using False by (simp add: front_end_def Let_def)
qed

section \<open>The document of a project\<close>

lemma parse_file_run:
  assumes "parsable mods (path, Some text)"
  shows "\<exists>segs m d. front_end mods opts cwd path text = Inr segs \<and> wf_from 0 segs \<and> matrix_and_dag segs = Inr (m, d)
    \<and> parse_file mods opts cwd (path, Some text) =
        Inr (Inr \<lparr>ir_meta = file_meta (path_name path) (module_of cwd path)
                    (if endswith path ''.java'' then ''java'' else ''c'') segs,
                  ir_segments = segs, ir_matrix = m, ir_dag = d\<rparr>)"
proof -
  obtain segs where segs: "front_end mods opts cwd path text = Inr segs" "wf_from 0 segs"
    using front_end_run [OF assms] by blast
  then show ?thesis using matrix_and_dag_total [OF wf_from_segments [OF segs(2)]] by (auto simp: parse_file_def)
qed

lemma parse_file_skips: "\<not> parsable mods (path, content) \<Longrightarrow> parse_file mods opts cwd (path, content) = Inr (Inl path)"
  by (cases content) (auto simp: parse_file_def front_end_fails parsable_def)

text \<open>What is known of the document of one file.\<close>

definition file_doc :: "string list \<Rightarrow> parse_options \<Rightarrow> string \<Rightarrow> string \<times> string option \<Rightarrow> ir_doc \<Rightarrow> bool" where
  "file_doc mods opts cwd e d \<longleftrightarrow>
     ir_segments d = file_segments mods opts cwd e \<and> wf_from 0 (ir_segments d)
     \<and> matrix_and_dag (ir_segments d) = Inr (ir_matrix d, ir_dag d) \<and> pm_files (ir_meta d) = [path_name (fst e)]
     \<and> pm_total_segments (ir_meta d) = length (ir_segments d)
     \<and> pm_total_statements (ir_meta d) = total_stmts (ir_segments d)
     \<and> pm_by_type (ir_meta d) = fold count_type (ir_segments d) no_types"

lemma parse_file_doc:
  assumes "parsable mods e"
  shows "\<exists>d. parse_file mods opts cwd e = Inr (Inr d) \<and> file_doc mods opts cwd e d"
proof -
  obtain path where "\<exists>text. e = (path, Some text)"
    using assms by (cases e) (auto simp: parsable_def split: option.splits)
  then obtain source where e: "e = (path, Some source)" by blast
  from parse_file_run [OF assms [unfolded e], of opts cwd] obtain segs m d where
    r: "front_end mods opts cwd path source = Inr segs" "wf_from 0 segs" "matrix_and_dag segs = Inr (m, d)"
      "parse_file mods opts cwd (path, Some source) =
        Inr (Inr \<lparr>ir_meta = file_meta (path_name path) (module_of cwd path)
                    (if endswith path ''.java'' then ''java'' else ''c'') segs,
                  ir_segments = segs, ir_matrix = m, ir_dag = d\<rparr>)" by blast
  then show ?thesis
    by (simp add: e file_doc_def file_segments_def file_meta_def Let_def count_types_start(1))
qed

lemma parse_files_run:
  "\<exists>docs. parse_files mods opts cwd files = Inr (docs, map fst (filter (\<lambda>e. \<not> parsable mods e) files))
    \<and> list_all2 (file_doc mods opts cwd) (filter (parsable mods) files) docs"
proof -
  have "\<exists>rs. map (parse_file mods opts cwd) files = map Inr rs
      \<and> List.map_filter (\<lambda>r. case r of Inl p \<Rightarrow> Some p | Inr _ \<Rightarrow> None) rs = map fst (filter (\<lambda>e. \<not> parsable mods e) files)
      \<and> list_all2 (file_doc mods opts cwd) (filter (parsable mods) files)
          (List.map_filter (\<lambda>r. case r of Inl _ \<Rightarrow> None | Inr d \<Rightarrow> Some d) rs)"
  proof (induction files)
    case Nil
    show ?case by (intro exI [of _ "[]"]) (simp add: List.map_filter_simps)
  next
    case (Cons e files)
    then obtain rs where rs: "map (parse_file mods opts cwd) files = map Inr rs"
      "List.map_filter (\<lambda>r. case r of Inl p \<Rightarrow> Some p | Inr _ \<Rightarrow> None) rs = map fst (filter (\<lambda>e. \<not> parsable mods e) files)"
      "list_all2 (file_doc mods opts cwd) (filter (parsable mods) files)
          (List.map_filter (\<lambda>r. case r of Inl _ \<Rightarrow> None | Inr d \<Rightarrow> Some d) rs)" by blast
    show ?case
    proof (cases "parsable mods e")
      case True
      from parse_file_doc [OF True, of opts cwd] obtain d where
        "parse_file mods opts cwd e = Inr (Inr d)" "file_doc mods opts cwd e d" by blast
      with rs True show ?thesis by (intro exI [of _ "Inr d # rs"]) (simp add: List.map_filter_simps)
    next
      case False
      then have "parse_file mods opts cwd e = Inr (Inl (fst e))" by (cases e) (simp add: parse_file_skips)
      with rs False show ?thesis by (intro exI [of _ "Inl (fst e) # rs"]) (simp add: List.map_filter_simps)
    qed
  qed
  then obtain rs where rs: "py_seq (map (parse_file mods opts cwd) files) = Inr rs"
    "List.map_filter (\<lambda>r. case r of Inl p \<Rightarrow> Some p | Inr _ \<Rightarrow> None) rs = map fst (filter (\<lambda>e. \<not> parsable mods e) files)"
    "list_all2 (file_doc mods opts cwd) (filter (parsable mods) files)
        (List.map_filter (\<lambda>r. case r of Inl _ \<Rightarrow> None | Inr d \<Rightarrow> Some d) rs)"
    by (auto simp only: py_seq_Inr)
  then show ?thesis by (simp add: parse_files_def)
qed

text \<open>The document of a list of files: \<open>good\<close> are the files that are parsed, \<open>bad\<close> the paths that are skipped.\<close>

definition project_doc ::
  "string list \<Rightarrow> parse_options \<Rightarrow> string \<Rightarrow> (string \<times> string option) list \<Rightarrow> string list \<Rightarrow> ir_doc \<Rightarrow> bool" where
  "project_doc mods opts cwd good bad doc \<longleftrightarrow>
     wf_from 0 (ir_segments doc)
     \<and> map placeless (ir_segments doc) = concat (map (\<lambda>e. map placeless (file_segments mods opts cwd e)) good)
     \<and> matrix_and_dag (ir_segments doc) = Inr (ir_matrix doc, ir_dag doc)
     \<and> pm_files (ir_meta doc) = map (path_name \<circ> fst) good \<and> pm_skipped (ir_meta doc) = bad
     \<and> pm_total_skipped (ir_meta doc) = length bad
     \<and> pm_total_segments (ir_meta doc) = length (ir_segments doc)
     \<and> pm_total_statements (ir_meta doc) = total_stmts (ir_segments doc)
     \<and> (\<forall>t. dict_count (pm_by_type (ir_meta doc)) t = length (filter (\<lambda>s. sg_type s = t) (ir_segments doc)))"

lemma placeless_eq:
  assumes "map placeless xs = map placeless ys"
  shows "length xs = length ys" "total_stmts xs = total_stmts ys" "map sg_type xs = map sg_type ys"
proof -
  show "length xs = length ys" using assms by (metis length_map)
  have "map f xs = map f ys" if "\<And>s. f (placeless s) = f s" for f :: "doc_segment \<Rightarrow> 'b"
    using arg_cong [OF assms, of "map f"] that by (simp add: o_def)
  from this [of "\<lambda>s. length (sg_stmts s)"] this [of sg_type]
  show "total_stmts xs = total_stmts ys" "map sg_type xs = map sg_type ys"
    by (simp_all add: placeless_def total_stmts_def)
qed

lemma filter_types: "map sg_type xs = map sg_type ys \<Longrightarrow> length (filter (\<lambda>s. sg_type s = t) xs) = length (filter (\<lambda>s. sg_type s = t) ys)"
proof (induction xs arbitrary: ys)
  case (Cons x xs)
  then show ?case by (cases ys) auto
qed simp

lemma merged_doc:
  assumes "list_all2 (file_doc mods opts cwd) good docs"
  shows "\<exists>doc. merge_parsed_jsons docs bad = Inr doc \<and> project_doc mods opts cwd good bad doc"
proof -
  let ?segs = "shift_segments 0 docs" and ?plain = "concat (map ir_segments docs)"
  have each: "list_all (\<lambda>d. wf_from 0 (ir_segments d)) docs"
    "concat (map (\<lambda>d. map placeless (ir_segments d)) docs)
      = concat (map (\<lambda>e. map placeless (file_segments mods opts cwd e)) good)"
    "concat (map (\<lambda>d. pm_files (ir_meta d)) docs) = map (path_name \<circ> fst) good"
    using assms by (induction rule: list_all2_induct) (auto simp: file_doc_def)
  have wf: "wf_from 0 ?segs" by (rule shift_segments_wf [OF each(1)])
  from matrix_and_dag_total [OF wf_from_segments [OF wf]] obtain m d where md: "matrix_and_dag ?segs = Inr (m, d)" by blast
  have "map placeless ?plain = map placeless ?segs" by (simp add: shift_segments_placeless map_concat o_def)
  from placeless_eq [OF this] have plain: "length ?plain = length ?segs" "total_stmts ?plain = total_stmts ?segs"
    "\<And>t. length (filter (\<lambda>s. sg_type s = t) ?plain) = length (filter (\<lambda>s. sg_type s = t) ?segs)"
    using filter_types [of ?plain ?segs] by blast+
  show ?thesis
    using wf md each(2,3) plain
    by (simp add: merge_parsed_jsons_def project_doc_def build_parse_meta_def Let_def count_types_start
        shift_segments_placeless)
qed

lemma built_doc:
  assumes "list_all2 (file_doc mods opts cwd) good docs"
  shows "\<exists>doc. build_parsed_str docs bad = Inr doc \<and> project_doc mods opts cwd good bad doc"
proof (cases "\<exists>d. docs = [d]")
  case True
  then obtain d e where "docs = [d]" "good = [e]" "file_doc mods opts cwd e d"
    using assms by (auto simp: list_all2_Cons2)
  then show ?thesis by (auto simp: build_parsed_str_def project_doc_def file_doc_def count_types_start)
next
  case False
  then have "build_parsed_str docs bad = merge_parsed_jsons docs bad"
    by (auto simp: build_parsed_str_def split: list.splits)
  then show ?thesis using merged_doc [OF assms] by simp
qed

lemma parse_source_spec:
  "case collect_source_files src entry of
     Inl msg \<Rightarrow> parse_source mods opts cwd src entry = Inr (Inl msg)
   | Inr files \<Rightarrow>
       (let good = filter (parsable mods) files; bad = map fst (filter (\<lambda>e. \<not> parsable mods e) files)
        in if good = []
           then parse_source mods opts cwd src entry = Inr (Inl ''Error: No files could be parsed successfully.'')
           else \<exists>doc. parse_source mods opts cwd src entry = Inr (Inr doc) \<and> project_doc mods opts cwd good bad doc
             \<and> segments_wf (ir_segments doc)
             \<and> jsegs_wf (map (\<lambda>s. jseg_of (fsegment.truncate s)) (ir_segments doc)))"
proof (cases "collect_source_files src entry")
  case (Inl msg)
  then show ?thesis by (simp add: parse_source_def)
next
  case (Inr files)
  let ?good = "filter (parsable mods) files" and ?bad = "map fst (filter (\<lambda>e. \<not> parsable mods e) files)"
  obtain docs where docs: "parse_files mods opts cwd files = Inr (docs, ?bad)"
    "list_all2 (file_doc mods opts cwd) ?good docs" using parse_files_run by blast
  from built_doc [OF docs(2), of ?bad] obtain doc where
    doc: "build_parsed_str docs ?bad = Inr doc" "project_doc mods opts cwd ?good ?bad doc" by blast
  have "docs = [] \<longleftrightarrow> ?good = []" using docs(2) list_all2_lengthD by force
  moreover have "wf_from 0 (ir_segments doc)" using doc(2) by (simp add: project_doc_def)
  note wf_from_segments [OF this] wf_from_jsegs [OF this]
  ultimately show ?thesis using Inr docs(1) doc by (simp add: parse_source_def Let_def)
qed

text \<open>
  C32. The subcommand \<open>parse\<close> never fails on the files it collected: it skips exactly those that cannot be
  read or that close a bracket that is not open, in order, and stops with a message only when nothing is
  left. Otherwise the document has the segments of the remaining files in order, changed in ids and
  parents only; the ids run from 0 and parents stand before their children, so every later pass accepts
  it; the matrix and the graph are those of the merged segments; and the metadata lists the files and
  counts the segments, by type as well, and the statements that are there.
\<close>
theorem parse_source_result:
  "case collect_source_files src entry of
     Inl msg \<Rightarrow> parse_source mods opts cwd src entry = Inr (Inl msg)
   | Inr files \<Rightarrow>
       (let good = filter (parsable mods) files; bad = map fst (filter (\<lambda>e. \<not> parsable mods e) files)
        in if good = []
           then parse_source mods opts cwd src entry = Inr (Inl ''Error: No files could be parsed successfully.'')
           else \<exists>doc. parse_source mods opts cwd src entry = Inr (Inr doc) \<and> project_doc mods opts cwd good bad doc
             \<and> segments_wf (ir_segments doc)
             \<and> jsegs_wf (map (\<lambda>s. jseg_of (fsegment.truncate s)) (ir_segments doc)))"
  by (rule parse_source_spec)

section \<open>Files that share names\<close>

text \<open>
  Scope paths do not contain the file. After merging, two functions of the same name in different files
  share their variables: the name \<open>t\<close> of the second file is resolved to the variable of the first, and the
  graph has an edge from one file to the other.
\<close>

definition file_x :: ir_doc where
  "file_x =
     \<lparr>ir_meta = file_meta ''x.c'' ''m'' ''c'' [],
      ir_segments = map (tag_segment ''x.c'' ''m'' ''c'' [])
        [sample_seg 0 0 ''root'' ''root'' ''root'' [] [] [sample_stmt ''int f() {}'' ''function_block'' None []],
         sample_seg 1 0 ''function'' ''f'' ''root.f'' [sample_slot ''t'' ''root.f.t'' False False] []
           [sample_stmt ''int t = 1;'' ''decl'' (Some ''t'') []]],
      ir_matrix = \<lparr>mx_slots = [], mx_rows = []\<rparr>, ir_dag = \<lparr>dg_nodes = [], dg_edges = []\<rparr>\<rparr>"

definition file_y :: ir_doc where
  "file_y =
     \<lparr>ir_meta = file_meta ''y.c'' ''m'' ''c'' [],
      ir_segments = map (tag_segment ''y.c'' ''m'' ''c'' [])
        [sample_seg 0 0 ''root'' ''root'' ''root'' [] [] [sample_stmt ''int f() {}'' ''function_block'' None []],
         sample_seg 1 0 ''function'' ''f'' ''root.f'' [] [] [sample_stmt ''return t;'' ''return'' None [''t'']]],
      ir_matrix = \<lparr>mx_slots = [], mx_rows = []\<rparr>, ir_dag = \<lparr>dg_nodes = [], dg_edges = []\<rparr>\<rparr>"

lemma edges_between_files:
  "case merge_parsed_jsons [file_x, file_y] [] of
     Inr d \<Rightarrow> map (\<lambda>e. (rw_raw (dg_nodes (ir_dag d) ! ed_from e), rw_raw (dg_nodes (ir_dag d) ! ed_to e))) (dg_edges (ir_dag d))
         = [(''int t = 1;'', ''return t;'')]
       \<and> map sg_file (ir_segments d) = map Some [''x.c'', ''x.c'', ''y.c'', ''y.c'']
   | Inl _ \<Rightarrow> False"
  by code_simp

text \<open>Backslashes are not escaped in the labels of the DOT file, so an escaped quote of the source ends the label.\<close>

lemma dot_escape_backslash: "dot_escape [bslash, dquote] = [bslash, bslash, dquote]"
  by code_simp

end
