(* ===== verification/Type3Facts.thy ===== *)
theory Type3Facts
  imports NearMissFacts
begin

text \<open>
  Type III detection as a whole: on a well-formed document it returns, every class is made of near misses
  that the parameters allow, and a pair of segments that is excluded never makes a class of its own.
\<close>

section \<open>Sequences\<close>

lemma seq_stmts_total:
  assumes "\<And>c st. c \<in> set cs \<Longrightarrow> \<exists>r. type_lookup types c st = Inr r"
  shows "\<exists>q. seq_stmts types i ss cs = Inr q \<and> length q = length ss"
  using assms
proof (induction ss arbitrary: i cs)
  case (Cons s ss)
  obtain norm target where bt: "base_and_target True (get_raw s) = (norm, target)" by fastforce
  have "\<exists>b cs' st'. fill_blocks (type_lookup types) target norm cs () = Inr (b, cs', st') \<and> set cs' \<subseteq> set cs"
    by (rule fill_blocks_total) (rule Cons.prems)
  then obtain b cs' st where
    b: "fill_blocks (type_lookup types) target norm cs () = Inr (b, cs', st)" "set cs' \<subseteq> set cs" by blast
  have "\<exists>r. type_lookup types c st = Inr r" if "c \<in> set cs'" for c st using that b(2) Cons.prems by blast
  from Cons.IH [of cs' "Suc i", OF this] obtain q where "seq_stmts types (Suc i) ss cs' = Inr q" "length q = length ss" by blast
  then show ?case using bt b by simp
qed simp

lemma sequences_fold:
  assumes "\<And>s. s \<in> set segs \<Longrightarrow> \<exists>q. f s = Inr q \<and> length q = length (js_stmts s)"
    and "distinct (map js_id segs)" and "set (map js_id segs) \<inter> set (dict_keys d) = {}"
  shows "\<exists>d'. py_fold (\<lambda>seg d. py_bind (f seg) (\<lambda>q. Inr (dict_set (js_id seg) q d))) segs d = Inr d'
    \<and> dict_keys d' = dict_keys d @ map js_id segs
    \<and> (\<forall>k q. dict_get d' k = Some q \<longrightarrow> dict_get d k = Some q \<or> (\<exists>s\<in>set segs. js_id s = k \<and> length q = length (js_stmts s)))"
  using assms
proof (induction segs arbitrary: d)
  case (Cons s segs)
  obtain q where q: "f s = Inr q" "length q = length (js_stmts s)" using Cons.prems(1) [of s] by auto
  have fresh: "js_id s \<notin> set (dict_keys d)" using Cons.prems(3) by auto
  then have keys: "dict_keys (dict_set (js_id s) q d) = dict_keys d @ [js_id s]" by (simp add: dict_set_fresh)
  have "set (map js_id segs) \<inter> set (dict_keys (dict_set (js_id s) q d)) = {}"
    using Cons.prems(2,3) unfolding keys by auto
  from Cons.IH [OF _ _ this] Cons.prems(1,2) obtain d' where
    d': "py_fold (\<lambda>seg d. py_bind (f seg) (\<lambda>q. Inr (dict_set (js_id seg) q d))) segs (dict_set (js_id s) q d) = Inr d'"
    "dict_keys d' = dict_keys (dict_set (js_id s) q d) @ map js_id segs"
    "\<forall>k q'. dict_get d' k = Some q' \<longrightarrow> dict_get (dict_set (js_id s) q d) k = Some q'
       \<or> (\<exists>s\<in>set segs. js_id s = k \<and> length q' = length (js_stmts s))" by auto
  then show ?case using q keys by (auto simp: update_conv' split: if_splits)
qed simp

lemma sequences_total:
  assumes "jsegs_wf segments"
  shows "\<exists>seqs types. build_flat_sequences digest segments = Inr (seqs, types) \<and> dict_keys seqs = map js_id segments
    \<and> (\<forall>k q. dict_get seqs k = Some q \<longrightarrow> (\<exists>s\<in>set segments. js_id s = k \<and> length q = length (js_stmts s)))"
proof -
  from block_type_ids_spec [OF assms, of digest True] obtain types where
    types: "block_type_ids digest True segments = Inr types"
    "\<forall>s\<in>set segments. \<exists>t. dict_get types (js_id s) = Some t" by blast
  let ?f = "\<lambda>seg. seq_stmts types 0 (js_stmts seg) (dict_get_list (children_map segments) (js_id seg))"
  have "\<exists>q. ?f s = Inr q \<and> length q = length (js_stmts s)" if "s \<in> set segments" for s
  proof (rule seq_stmts_total)
    fix c st
    assume "c \<in> set (dict_get_list (children_map segments) (js_id s))"
    then obtain s' where "s' \<in> set segments" "js_id s' = c" by (auto simp: children_mem)
    then show "\<exists>r. type_lookup types c st = Inr r" using types(2) by (force simp: type_lookup_def py_item_def)
  qed
  moreover have "distinct (map js_id segments)" using assms by (simp add: jsegs_wf_def)
  ultimately obtain d where d: "py_fold (\<lambda>seg d. py_bind (?f seg) (\<lambda>q. Inr (dict_set (js_id seg) q d))) segments [] = Inr d"
    "dict_keys d = map js_id segments"
    "\<forall>k q. dict_get d k = Some q \<longrightarrow> (\<exists>s\<in>set segments. js_id s = k \<and> length q = length (js_stmts s))"
    using sequences_fold [of segments ?f "[]"] by auto
  then show ?thesis using types(1) by (simp add: build_flat_sequences_def)
qed

section \<open>Near misses\<close>

text \<open>What the parameters allow: a similar pair of windows of two segments at the level of functions.\<close>

definition allowed :: "nat \<Rightarrow> (nat, jseg) dict \<Rightarrow> (nat, seq) dict \<Rightarrow> nat \<Rightarrow> bool" where
  "allowed min_length by_id sequences a \<longleftrightarrow>
     fn_level by_id a \<and> (\<exists>q. dict_get sequences a = Some q \<and> min_length \<le> length q)"

definition near_miss_ok ::
  "nat \<Rightarrow> (nat \<times> nat) list \<Rightarrow> (nat, jseg) dict \<Rightarrow> (nat, seq) dict \<Rightarrow> near_miss \<Rightarrow> bool" where
  "near_miss_ok min_length exclude by_id sequences p \<longleftrightarrow>
     allowed min_length by_id sequences (nm_seg_a p) \<and> allowed min_length by_id sequences (nm_seg_b p)
     \<and> pair_key p \<notin> set exclude \<and> 1 \<le> nm_length p
     \<and> length (nm_diffs_a p) \<le> nm_length p \<and> length (nm_diffs_b p) \<le> nm_length p"

lemma diff_regions_length:
  "get_diff_regions a b = (da, db) \<Longrightarrow> length da \<le> length a \<and> length db \<le> length b"
  by (auto simp: get_diff_regions_def Let_def intro: order_trans [OF length_filter_le])

lemma compare_windows_total:
  assumes "1 \<le> w" "sa + w \<le> length qa" "sb + w \<le> length qb"
  shows "\<exists>ps. compare_windows threshold a qa b qb w sa sb = Inr ps
    \<and> (\<forall>p\<in>set ps. nm_seg_a p = a \<and> nm_seg_b p = b \<and> nm_length p = w
         \<and> length (nm_diffs_a p) \<le> w \<and> length (nm_diffs_b p) \<le> w)"
proof -
  let ?a = "take w (drop sa qa)" and ?b = "take w (drop sb qb)"
  obtain da db where diffs: "get_diff_regions ?a ?b = (da, db)" by fastforce
  have len: "length ?a = w" "length ?b = w" using assms by simp_all
  then have "?a \<noteq> []" "?b \<noteq> []" using assms(1) by auto
  then have "py_nth ?a 0 = Inr (?a ! 0)" "py_nth ?b 0 = Inr (?b ! 0)"
    "py_last ?a = Inr (last ?a)" "py_last ?b = Inr (last ?b)"
    using len assms(1) by (simp_all only: py_nth_def py_last_def) simp_all
  then show ?thesis using diff_regions_length [OF diffs] len diffs
    by (simp add: compare_windows_def Let_def)
qed

lemma py_flatmap_all:
  assumes "\<And>x. x \<in> set xs \<Longrightarrow> \<exists>ys. f x = Inr ys \<and> (\<forall>y\<in>set ys. Q y)"
  shows "\<exists>zs. py_flatmap f xs = Inr zs \<and> (\<forall>z\<in>set zs. Q z)"
proof -
  from py_flatmap_each [of xs f "\<lambda>x ys. \<forall>y\<in>set ys. Q y", OF assms] obtain yss where
    yss: "py_flatmap f xs = Inr (concat yss)" "list_all2 (\<lambda>x ys. \<forall>y\<in>set ys. Q y) xs yss" by blast
  from yss(2) have "\<forall>ys\<in>set yss. \<forall>y\<in>set ys. Q y" by (induction rule: list_all2_induct) auto
  with yss(1) show ?thesis by auto
qed

lemma window_pairs_total:
  assumes "1 \<le> w"
  shows "\<exists>ps. window_pairs threshold a qa b qb w = Inr ps
    \<and> (\<forall>p\<in>set ps. nm_seg_a p = a \<and> nm_seg_b p = b \<and> nm_length p = w
         \<and> length (nm_diffs_a p) \<le> w \<and> length (nm_diffs_b p) \<le> w)"
proof (cases "length qa < w \<or> length qb < w")
  case True
  then show ?thesis by (auto simp: window_pairs_def)
next
  case False
  show ?thesis unfolding window_pairs_def if_not_P [OF False]
  proof (intro py_flatmap_all, goal_cases)
    case (1 sa sb)
    then have "sa + w \<le> length qa" "sb + w \<le> length qb" using False by auto
    then show ?case using compare_windows_total [OF assms, of sa qa sb qb threshold a b] by simp
  qed
qed

lemma near_miss_pairs_total:
  assumes "\<forall>w\<in>set sizes. 1 \<le> w"
  shows "\<exists>ps. near_miss_pairs threshold min_length sizes exclude by_id sequences = Inr ps
    \<and> (\<forall>p\<in>set ps. near_miss_ok min_length exclude by_id sequences p)"
  unfolding near_miss_pairs_def
proof (intro py_flatmap_all, clarify)
  fix a b assume "(a, b) \<in> set (segment_pairs (sort (dict_keys sequences)))"
  moreover have "(a, b) \<in> set (segment_pairs xs) \<Longrightarrow> a \<in> set xs \<and> b \<in> set xs" for xs
    by (induction xs rule: segment_pairs.induct) auto
  ultimately have "a \<in> set (dict_keys sequences)" "b \<in> set (dict_keys sequences)" by (metis set_sort)+
  then obtain qa qb where q: "dict_get sequences a = Some qa" "dict_get sequences b = Some qb"
    by (metis map_of_eq_None_iff not_Some_eq set_map)
  let ?out = "length qa < min_length \<or> \<not> fn_level by_id a \<or> length qb < min_length \<or> \<not> fn_level by_id b
            \<or> (min a b, max a b) \<in> set exclude"
  show "\<exists>ys. py_bind (py_item sequences a) (\<lambda>seq_a. py_bind (py_item sequences b) (\<lambda>seq_b.
         if length seq_a < min_length \<or> \<not> fn_level by_id a \<or> length seq_b < min_length \<or> \<not> fn_level by_id b
            \<or> (min a b, max a b) \<in> set exclude
         then Inr [] else py_flatmap (window_pairs threshold a seq_a b seq_b) sizes)) = Inr ys
      \<and> (\<forall>p\<in>set ys. near_miss_ok min_length exclude by_id sequences p)"
  proof (cases ?out)
    case True
    then show ?thesis using q by (simp add: py_item_def)
  next
    case False
    have "\<exists>ys. py_flatmap (window_pairs threshold a qa b qb) sizes = Inr ys
      \<and> (\<forall>p\<in>set ys. near_miss_ok min_length exclude by_id sequences p)"
    proof (intro py_flatmap_all)
      fix w assume "w \<in> set sizes"
      then have w: "1 \<le> w" using assms by simp
      from window_pairs_total [OF w, of threshold a qa b qb] show
        "\<exists>ys. window_pairs threshold a qa b qb w = Inr ys \<and> (\<forall>p\<in>set ys. near_miss_ok min_length exclude by_id sequences p)"
        using w q False by (auto simp: near_miss_ok_def allowed_def pair_key_def not_less)
    qed
    then show ?thesis using q False by (simp add: py_item_def)
  qed
qed

section \<open>Filters\<close>

lemma small_ratio_finite: "0 \<le> n \<Longrightarrow> n \<le> d \<Longrightarrow> 0 < d \<Longrightarrow> \<exists>r. int_true_div n d = Inr r"
proof -
  assume nd: "0 \<le> n" "n \<le> d" "0 < d"
  have "round_ratio False n d \<noteq> FInf t" for t
  proof (cases "n = 0")
    case False
    with nd have n: "0 < n" by simp
    have "flog2 n d \<le> 0"
    proof (rule ccontr)
      assume k: "\<not> flog2 n d \<le> 0"
      then have "d * pow2 (flog2 n d) \<le> n" using flog2_lower [OF n nd(3)] by (simp add: le_scaled_def)
      moreover have "pow2 1 \<le> pow2 (flog2 n d)" using k by (intro pow2_mono) simp
      then have "d * 2 \<le> d * pow2 (flog2 n d)" using nd(3) by (simp add: pow2_def)
      ultimately show False using nd by linarith
    qed
    then have "max (flog2 n d - 52) (- 1074) \<le> - 52" by simp
    then show ?thesis using False by (simp add: round_ratio_def Let_def)
  qed (simp add: round_ratio_def)
  then show ?thesis using nd by (auto simp: int_true_div_def fl_ratio_def split: pyfloat.splits)
qed

lemma diff_ratio_total: "near_miss_ok min_length exclude by_id sequences p \<Longrightarrow> \<exists>b. diff_ratio_ok p = Inr b"
  using small_ratio_finite [of "int (max (length (nm_diffs_a p)) (length (nm_diffs_b p)))" "int (nm_length p)"]
  by (auto simp: near_miss_ok_def diff_ratio_ok_def)

lemma py_filter_total: "(\<And>x. x \<in> set xs \<Longrightarrow> \<exists>b. f x = Inr b) \<Longrightarrow> \<exists>ys. py_filter f xs = Inr ys \<and> set ys \<subseteq> set xs"
proof (induction xs)
  case (Cons x xs)
  then obtain b ys where "f x = Inr b" "py_filter f xs = Inr ys" "set ys \<subseteq> set xs" by (metis list.set_intros)
  then show ?case by auto
qed simp

lemma maximal_pairs_subset: "set (maximal_pairs pairs) \<subseteq> set pairs"
proof -
  have "set (fold (\<lambda>cp maximal. if list_ex (\<lambda>m. subsumes m cp) maximal then maximal else maximal @ [cp]) xs ys)
      \<subseteq> set ys \<union> set xs" for xs ys
  proof (induction xs arbitrary: ys)
    case (Cons x xs)
    show ?case using Cons [of ys] Cons [of "ys @ [x]"] by auto
  qed simp
  from this [of "sort_by longer_first pairs" "[]"] show ?thesis by (simp add: maximal_pairs_def set_sort_by)
qed

lemma best_pairs_subset: "set (best_pairs pairs) \<subseteq> set pairs"
proof -
  have step: "snd ` set (best_step p d) \<subseteq> insert p (snd ` set d)" for p d
  proof -
    have "snd ` set (dict_set k p d) \<subseteq> insert p (snd ` set d)" for k by (induction d) auto
    then show ?thesis by (auto simp: best_step_def split: option.splits)
  qed
  have "snd ` set (fold best_step xs d) \<subseteq> snd ` set d \<union> set xs" for xs d
  proof (induction xs arbitrary: d)
    case (Cons x xs)
    show ?case using Cons [of "best_step x d"] step [of x d] by auto
  qed simp
  from this [of pairs "[]"] show ?thesis by (simp add: best_pairs_def)
qed

lemma filter_pairs_total:
  assumes "\<forall>p\<in>set pairs. near_miss_ok min_length exclude by_id sequences p"
    and "\<And>k q. dict_get sequences k = Some q \<Longrightarrow> \<exists>s. dict_get by_id k = Some s"
  shows "\<exists>cps. filter_pairs by_id pairs = Inr cps
    \<and> (\<forall>cp\<in>set cps. \<exists>p. near_miss_ok min_length exclude by_id sequences p \<and> pair_segs cp = (nm_seg_a p, nm_seg_b p))"
proof -
  let ?best = "best_pairs (maximal_pairs pairs)"
  have best: "\<forall>p\<in>set ?best. near_miss_ok min_length exclude by_id sequences p"
    using best_pairs_subset maximal_pairs_subset assms(1) by blast
  then obtain kept where kept: "py_filter diff_ratio_ok ?best = Inr kept" "set kept \<subseteq> set ?best"
    using py_filter_total [of ?best diff_ratio_ok] diff_ratio_total by blast
  let ?P = "\<lambda>p cp. near_miss_ok min_length exclude by_id sequences p \<and> pair_segs cp = (nm_seg_a p, nm_seg_b p)"
  have "\<exists>cp. enrich by_id p = Inr cp \<and> ?P p cp" if "p \<in> set (sort_by closer_first kept)" for p
  proof -
    have ok: "near_miss_ok min_length exclude by_id sequences p" using that kept(2) best by (auto simp: set_sort_by)
    then obtain s s' where "dict_get by_id (nm_seg_a p) = Some s" "dict_get by_id (nm_seg_b p) = Some s'"
      using assms(2) by (auto simp: near_miss_ok_def allowed_def) metis
    then show ?thesis using ok by (simp add: enrich_def side_of_def py_item_def pair_segs_def)
  qed
  from py_seq_each [of "sort_by closer_first kept" "enrich by_id" ?P, OF this] obtain cps where
    cps: "py_seq (map (enrich by_id) (sort_by closer_first kept)) = Inr cps" "list_all2 ?P (sort_by closer_first kept) cps"
    by blast
  from cps(2) have "\<forall>cp\<in>set cps. \<exists>p. ?P p cp" by (induction rule: list_all2_induct) auto
  then show ?thesis using kept(1) cps(1) by (simp add: filter_pairs_spec)
qed

section \<open>The whole pass\<close>

lemma two_connected:
  assumes "x \<in> M" "{y\<in>M. (x, y) \<in> connected E} = {a, b}" "a \<noteq> b" "E \<subseteq> M \<times> M"
  shows "(a, b) \<in> E \<or> (b, a) \<in> E"
proof (rule ccontr)
  assume no: "\<not> ((a, b) \<in> E \<or> (b, a) \<in> E)"
  have x: "x = a \<or> x = b" using assms(1,2) by (auto simp: connected_def)
  have closed: "z = u" if "(u, z) \<in> connected E" "u = x" for u z
    using that(1) unfolding connected_def
  proof (induction rule: rtrancl_induct)
    case (step y z)
    have "(x, z) \<in> connected E" using step.hyps that(2) unfolding connected_def by (metis rtrancl.rtrancl_into_rtrancl)
    moreover have "z \<in> M" using step.hyps(2) assms(4) by auto
    ultimately have "z = a \<or> z = b" using assms(2) by auto
    moreover have "(x, z) \<in> E \<or> (z, x) \<in> E" using step.hyps(2) step.IH that(2) by auto
    ultimately show ?case using x no that(2) by auto
  qed simp
  have "(x, a) \<in> connected E" "(x, b) \<in> connected E" using assms(2) by auto
  then show False using closed [of x a] closed [of x b] assms(3) by auto
qed

text \<open>What holds of every class of Type III.\<close>

definition class3_ok :: "jseg list \<Rightarrow> nat \<Rightarrow> (nat \<times> nat) list \<Rightarrow> t3_class \<Rightarrow> bool" where
  "class3_ok segments min_length exclude c \<longleftrightarrow>
     2 \<le> length (t3_occs c) \<and> sorted (map sd_seg (t3_occs c)) \<and> distinct (map sd_seg (t3_occs c))
         \<and> (\<forall>i\<in>set (map sd_seg (t3_occs c)). \<exists>s\<in>set segments. js_id s = i \<and> min_length \<le> length (js_stmts s)
              \<and> fn_level (jseg_index segments) i)
         \<and> (\<forall>a b. map sd_seg (t3_occs c) = [a, b] \<longrightarrow> (a, b) \<notin> set exclude)"

lemma detect_type3_spec:
  assumes wf: "jsegs_wf segments" and "1 \<le> min_length"
  shows "\<exists>classes. detect_type3 digest segments threshold min_length None exclude = Inr classes
    \<and> map t3_id classes = [1..<Suc (length classes)]
    \<and> (\<forall>c\<in>set classes. class3_ok segments min_length exclude c)"
proof -
  let ?by = "jseg_index segments"
  from sequences_total [OF wf, of digest] obtain seqs types where
    seqs: "build_flat_sequences digest segments = Inr (seqs, types)" "dict_keys seqs = map js_id segments"
    "\<forall>k q. dict_get seqs k = Some q \<longrightarrow> (\<exists>s\<in>set segments. js_id s = k \<and> length q = length (js_stmts s))" by blast
  have "\<forall>w\<in>set (default_windows min_length seqs). 1 \<le> w" using assms(2) by (auto simp: default_windows_def Let_def)
  from near_miss_pairs_total [OF this, of threshold min_length exclude ?by seqs] obtain ps where
    ps: "near_miss_pairs threshold min_length (default_windows min_length seqs) exclude ?by seqs = Inr ps"
    "\<forall>p\<in>set ps. near_miss_ok min_length exclude ?by seqs p" by blast
  have known: "\<exists>s. dict_get ?by k = Some s" if "dict_get seqs k = Some q" for k q
    using that seqs(3) dict_by_mem [of _ segments js_id] unfolding jseg_index_def by (metis dict_by_in)
  have "\<exists>cps. filter_pairs ?by ps = Inr cps
    \<and> (\<forall>cp\<in>set cps. \<exists>p. near_miss_ok min_length exclude ?by seqs p \<and> pair_segs cp = (nm_seg_a p, nm_seg_b p))"
    by (rule filter_pairs_total [OF ps(2)]) (rule known)
  then obtain cps where
    cps: "filter_pairs ?by ps = Inr cps"
    "\<forall>cp\<in>set cps. \<exists>p. near_miss_ok min_length exclude ?by seqs p \<and> pair_segs cp = (nm_seg_a p, nm_seg_b p)" by blast
  from cluster_pairs_spec [of cps] obtain classes where
    cl: "cluster_pairs cps = Inr classes" "map t3_id classes = [1..<Suc (length classes)]"
    "\<forall>c\<in>set classes. 2 \<le> length (t3_occs c) \<and> t3_count c = length (t3_occs c)
         \<and> sorted (map sd_seg (t3_occs c)) \<and> distinct (map sd_seg (t3_occs c))
         \<and> (\<exists>x\<in>mentioned cps. set (map sd_seg (t3_occs c)) =
              {y\<in>mentioned cps. (x, y) \<in> connected (set (map pair_segs cps))})" by blast
  have res: "detect_type3 digest segments threshold min_length None exclude = Inr classes"
    using seqs(1) ps(1) cps(1) cl(1) by (simp add: detect_type3_def Let_def)
  have ment: "allowed min_length ?by seqs i" if "i \<in> mentioned cps" for i
    using that cps(2) by (fastforce simp: mentioned_def pair_segs_def near_miss_ok_def)
  have each: "(\<forall>i\<in>set (map sd_seg (t3_occs c)). \<exists>s\<in>set segments. js_id s = i \<and> min_length \<le> length (js_stmts s) \<and> fn_level ?by i)
      \<and> (\<forall>a b. map sd_seg (t3_occs c) = [a, b] \<longrightarrow> (a, b) \<notin> set exclude)" if c: "c \<in> set classes" for c
  proof
    from cl(3) c obtain x where x: "x \<in> mentioned cps" "sorted (map sd_seg (t3_occs c))" "distinct (map sd_seg (t3_occs c))"
      "set (map sd_seg (t3_occs c)) = {y\<in>mentioned cps. (x, y) \<in> connected (set (map pair_segs cps))}" by blast
    show "\<forall>i\<in>set (map sd_seg (t3_occs c)). \<exists>s\<in>set segments. js_id s = i \<and> min_length \<le> length (js_stmts s) \<and> fn_level ?by i"
    proof
      fix i assume "i \<in> set (map sd_seg (t3_occs c))"
      then have "allowed min_length ?by seqs i" using x(4) ment by blast
      then show "\<exists>s\<in>set segments. js_id s = i \<and> min_length \<le> length (js_stmts s) \<and> fn_level ?by i"
        using seqs(3) unfolding allowed_def by metis
    qed
    show "\<forall>a b. map sd_seg (t3_occs c) = [a, b] \<longrightarrow> (a, b) \<notin> set exclude"
    proof (intro allI impI)
      fix a b assume ab: "map sd_seg (t3_occs c) = [a, b]"
      have sub: "set (map pair_segs cps) \<subseteq> mentioned cps \<times> mentioned cps"
        by (auto simp: mentioned_def pair_segs_def)
      have "a \<noteq> b" "a \<le> b" using x(2,3) unfolding ab by auto
      from two_connected [OF x(1) _ this(1) sub] x(4) have "(a, b) \<in> set (map pair_segs cps) \<or> (b, a) \<in> set (map pair_segs cps)"
        unfolding ab by auto
      then obtain p where "near_miss_ok min_length exclude ?by seqs p" "(nm_seg_a p, nm_seg_b p) \<in> {(a, b), (b, a)}"
        using cps(2) by fastforce
      moreover from this(2) have "pair_key p = (a, b)" using \<open>a \<le> b\<close> by (auto simp: pair_key_def)
      ultimately show "(a, b) \<notin> set exclude" by (simp add: near_miss_ok_def)
    qed
  qed
  have "\<forall>c\<in>set classes. class3_ok segments min_length exclude c"
  proof
    fix c assume c: "c \<in> set classes"
    then have "2 \<le> length (t3_occs c) \<and> sorted (map sd_seg (t3_occs c)) \<and> distinct (map sd_seg (t3_occs c))"
      using cl(3) by blast
    then show "class3_ok segments min_length exclude c" unfolding class3_ok_def using each [OF c] by (elim conjE) (intro conjI)
  qed
  with res cl(2) show ?thesis by blast
qed

text \<open>
  C34. Type III detection returns on every well-formed document when windows have at least one statement:
  its classes are numbered from 1, each has at least two different segments, all functions, classes or
  files with enough statements, and two segments that another detector has already paired are never a
  class by themselves.
\<close>
theorem detect_type3_result:
  assumes "jsegs_wf segments" and "1 \<le> min_length"
  shows "\<exists>classes. detect_type3 digest segments threshold min_length None exclude = Inr classes
    \<and> map t3_id classes = [1..<Suc (length classes)]
    \<and> (\<forall>c\<in>set classes. 2 \<le> length (t3_occs c) \<and> sorted (map sd_seg (t3_occs c)) \<and> distinct (map sd_seg (t3_occs c))
         \<and> (\<forall>i\<in>set (map sd_seg (t3_occs c)). \<exists>s\<in>set segments. js_id s = i \<and> min_length \<le> length (js_stmts s)
              \<and> fn_level (jseg_index segments) i)
         \<and> (\<forall>a b. map sd_seg (t3_occs c) = [a, b] \<longrightarrow> (a, b) \<notin> set exclude))"
  using detect_type3_spec [OF assms] unfolding class3_ok_def .

theorem detect_type3_result_witness:
  "\<exists>classes. detect_type3 (\<lambda>s. s) sample_jsegs (fl_ratio 7 10) 1 None [(0, 1)] = Inr classes
    \<and> map t3_id classes = [1..<Suc (length classes)]
    \<and> (\<forall>c\<in>set classes. 2 \<le> length (t3_occs c) \<and> sorted (map sd_seg (t3_occs c)) \<and> distinct (map sd_seg (t3_occs c))
         \<and> (\<forall>i\<in>set (map sd_seg (t3_occs c)). \<exists>s\<in>set sample_jsegs. js_id s = i \<and> 1 \<le> length (js_stmts s)
              \<and> fn_level (jseg_index sample_jsegs) i)
         \<and> (\<forall>a b. map sd_seg (t3_occs c) = [a, b] \<longrightarrow> (a, b) \<notin> set [(0, 1)]))"
  by (rule detect_type3_result) (simp_all add: jsegs_wf_def sample_jsegs_def sample_jseg_def)

text \<open>
  Windows without statements: with a minimum length and a threshold of 0 two empty windows compare as
  similar, and taking their first statement raises \<open>IndexError\<close>.
\<close>

lemma empty_windows_raise:
  "compare_windows (FFin False 0 0) a [] b [] 0 0 0 = Inl IndexError"
proof -
  have "fl_le (FFin False 0 0) (FFin False 0 0) \<and> fl_lt (FFin False 0 0) (fl_ratio 1 1)" by code_simp
  then show ?thesis
    by (simp add: compare_windows_def sequence_similarity_def py_nth_def Let_def split: prod.split)
qed

end
