(* ===== verification/DetectRunFacts.thy ===== *)
theory DetectRunFacts
  imports DetectRun PipelineFacts Type3Facts
begin

text \<open>
  What the subcommand \<open>detect\<close> reports for any sources: it never fails, its numbers agree with its classes,
  and the exclusions between the types hold. The last section maps the statements of a clone to the nodes
  of the graph.
\<close>

section \<open>The passes return\<close>

lemma detect_clones_types:
  assumes "jsegs_wf segments" "\<And>xs. set (iter xs) = set xs"
  shows "\<exists>cs. detect_clones digest iter segments t2 maximal m mf overlaps = Inr cs
    \<and> (\<forall>c\<in>set cs. cc_type c = ''I'' \<or> t2 \<and> cc_type c = ''II'')"
proof -
  from detect_clones_core [OF assms, of digest t2 maximal m mf overlaps] obtain cs where
    cs: "detect_clones digest iter segments t2 maximal m mf overlaps =
        Inr (let cs = (if maximal then maximal_filter cs else cs) in if overlaps then overlap_filter cs else cs)"
    "\<forall>c\<in>set cs. cc_type c = ''I'' \<or> t2 \<and> cc_type c = ''II''" by blast
  let ?ok = "\<lambda>cs. \<forall>c\<in>set cs. cc_type c = ''I'' \<or> t2 \<and> cc_type c = ''II''"
  have "?ok (maximal_filter cs)"
  proof
    fix c assume "c \<in> set (maximal_filter cs)"
    from maximal_filter_spec(2) [OF this] cs(2) show "cc_type c = ''I'' \<or> t2 \<and> cc_type c = ''II''" by auto
  qed
  then have "?ok (if maximal then maximal_filter cs else cs)" using cs(2) by simp
  moreover have "?ok (overlap_filter ds)" if "?ok ds" for ds
  proof
    fix c assume "c \<in> set (overlap_filter ds)"
    from overlap_filter_spec(2) [OF this] that show "cc_type c = ''I'' \<or> t2 \<and> cc_type c = ''II''" by auto
  qed
  ultimately show ?thesis using cs(1) by (auto simp: Let_def)
qed

definition type1_run :: "detect_env \<Rightarrow> detect_options \<Rightarrow> jseg list \<Rightarrow> clone_class list py" where
  "type1_run env opts segs =
     detect_clones (de_digest env) (de_iter env) segs False (do_maximal opts) (do_min_length opts)
       (do_max_freq opts) (do_filter_overlaps opts)"

definition pass_ok :: "detect_env \<Rightarrow> detect_options \<Rightarrow> jseg list \<Rightarrow> nat \<Rightarrow> found list \<Rightarrow> bool" where
  "pass_ok env opts segs t cs \<longleftrightarrow>
     (t = 1 \<longrightarrow> (\<exists>ks. type1_run env opts segs = Inr ks \<and> cs = map FText ks \<and> (\<forall>k\<in>set ks. cc_type k = ''I'')))
     \<and> (t = 2 \<longrightarrow> (\<exists>ks. cs = map FText ks)) \<and> (t = 3 \<longrightarrow> (\<exists>ks. cs = map FNear ks))
     \<and> (t = 4 \<longrightarrow> (\<exists>ks. cs = map FSemantic ks))"

lemma pass_ok_mem:
  assumes "pass_ok env opts segs t cs" "t \<in> {1, 2, 3, 4}" "c \<in> set cs"
  shows "case c of FText k \<Rightarrow> t = 1 \<and> cc_type k = ''I'' \<or> t = 2 | FNear _ \<Rightarrow> t = 3 | FSemantic _ \<Rightarrow> t = 4"
proof -
  consider "t = 1" | "t = 2" | "t = 3" | "t = 4" using assms(2) by auto
  then show ?thesis using assms(1,3) by cases (auto simp: pass_ok_def)
qed

lemma run_pass_total:
  assumes "jsegs_wf segs" "\<And>xs. set (de_iter env xs) = set xs"
  shows "\<exists>cs. run_pass env opts segs t d = Inr (if t \<in> {1, 2, 4} then dict_set t cs d else d) \<and> pass_ok env opts segs t cs"
proof (cases "t = 1 \<or> t = 2")
  case True
  from detect_clones_types [OF assms, of "de_digest env" "t = 2" "do_maximal opts" "do_min_length opts"
      "do_max_freq opts" "do_filter_overlaps opts"]
  obtain cs where cs: "detect_clones (de_digest env) (de_iter env) segs (t = 2) (do_maximal opts) (do_min_length opts)
       (do_max_freq opts) (do_filter_overlaps opts) = Inr cs" "\<forall>c\<in>set cs. cc_type c = ''I'' \<or> t = 2 \<and> cc_type c = ''II''"
    by blast
  have "pass_ok env opts segs t (map FText cs)" using True cs by (auto simp: pass_ok_def type1_run_def)
  then show ?thesis using True cs(1) by (intro exI [of _ "map FText cs"]) (auto simp: run_pass_def)
next
  case False
  show ?thesis
  proof (cases "t = 4")
    case True
    from detect_type4_spec [OF assms(1), of "de_sig_digest env" "do_min_length opts"] obtain cs where
      "detect_type4 (de_sig_digest env) segs (do_min_length opts) = Inr cs" by blast
    then show ?thesis using True
      by (intro exI [of _ "map FSemantic cs"]) (auto simp: run_pass_def pass_ok_def)
  next
    case no: False
    then show ?thesis using False
      by (intro exI [of _ "[]"]) (auto simp: run_pass_def pass_ok_def)
  qed
qed

lemma base_passes:
  assumes "jsegs_wf segs" "\<And>xs. set (de_iter env xs) = set xs" "\<forall>(t, cs)\<in>set d. pass_ok env opts segs t cs"
  shows "\<exists>d'. py_fold (run_pass env opts segs) ts d = Inr d' \<and> (\<forall>(t, cs)\<in>set d'. pass_ok env opts segs t cs)
    \<and> set (dict_keys d') = set (dict_keys d) \<union> (set ts \<inter> {1, 2, 4})"
  using assms(3)
proof (induction ts arbitrary: d)
  case (Cons t ts)
  have "\<exists>cs. run_pass env opts segs t d = Inr (if t \<in> {1, 2, 4} then dict_set t cs d else d) \<and> pass_ok env opts segs t cs"
    by (rule run_pass_total [OF assms(1,2)])
  then obtain cs where
    cs: "run_pass env opts segs t d = Inr (if t \<in> {1, 2, 4} then dict_set t cs d else d)" "pass_ok env opts segs t cs" by blast
  let ?d = "if t \<in> {1, 2, 4} then dict_set t cs d else d"
  have "\<forall>(t, cs)\<in>set (dict_set t cs d). pass_ok env opts segs t cs"
    using Cons.prems cs(2) by (induction d) auto
  then have "\<forall>(t, cs)\<in>set ?d. pass_ok env opts segs t cs" using Cons.prems by simp
  from Cons.IH [OF this] obtain d' where d': "py_fold (run_pass env opts segs) ts ?d = Inr d'"
    "\<forall>(t, cs)\<in>set d'. pass_ok env opts segs t cs" "set (dict_keys d') = set (dict_keys ?d) \<union> (set ts \<inter> {1, 2, 4})" by blast
  have "set (dict_keys ?d) = set (dict_keys d) \<union> ({t} \<inter> {1, 2, 4})"
    using dict_keys_set [of t cs d] by (cases "t \<in> {1, 2, 4}") (simp_all add: insert_absorb)
  then have "set (dict_keys d') = set (dict_keys d) \<union> (set (t # ts) \<inter> {1, 2, 4})"
    unfolding d'(3) by auto
  then show ?case using cs(1) d'(1,2) by (intro exI [of _ d']) simp
qed simp

lemma seg_pairs_mem: "a \<in> set xs \<Longrightarrow> b \<in> set xs \<Longrightarrow> a \<noteq> b \<Longrightarrow> (min a b, max a b) \<in> set (seg_pairs xs)"
  by (induction xs rule: seg_pairs.induct) (auto simp: min.commute max.commute)

lemma type3_pass:
  assumes "jsegs_wf segs" "1 \<le> do_min_length3 opts" "\<forall>(t, cs)\<in>set d. pass_ok env opts segs t cs"
    "set (dict_keys d) = set (do_types opts) \<inter> {1, 2, 4}" "set (do_types opts) \<subseteq> {1, 2, 3, 4}"
  shows "\<exists>d'. run_type3 env opts segs d = Inr d' \<and> (\<forall>(t, cs)\<in>set d'. pass_ok env opts segs t cs)
    \<and> set (dict_keys d') = set (do_types opts) \<and> (\<forall>t. t \<noteq> 3 \<longrightarrow> dict_get d' t = dict_get d t)
    \<and> (\<forall>k a b. FNear k \<in> set (dict_get_list d' 3) \<longrightarrow> map sd_seg (t3_occs k) = [a, b] \<longrightarrow>
         a \<noteq> b \<and> (min a b, max a b) \<notin> set (exclude_pairs d))"
proof (cases "3 \<in> set (do_types opts)")
  case True
  from detect_type3_spec [OF assms(1,2), of "de_digest env" "do_threshold opts" "exclude_pairs d"] obtain cs where
    cs: "detect_type3 (de_digest env) segs (do_threshold opts) (do_min_length3 opts) None (exclude_pairs d) = Inr cs"
    "\<forall>c\<in>set cs. class3_ok segs (do_min_length3 opts) (exclude_pairs d) c" by blast
  let ?d = "dict_set 3 (map FNear cs) d"
  have "\<forall>(t, cs)\<in>set ?d. pass_ok env opts segs t cs"
    using assms(3) by (induction d) (auto simp: pass_ok_def)
  moreover have "set (dict_keys ?d) = set (do_types opts)"
    using assms(4,5) True dict_keys_set [of 3 "map FNear cs" d] by auto
  moreover have "a \<noteq> b \<and> (min a b, max a b) \<notin> set (exclude_pairs d)"
    if "FNear k \<in> set (dict_get_list ?d 3)" "map sd_seg (t3_occs k) = [a, b]" for k a b
  proof -
    have "class3_ok segs (do_min_length3 opts) (exclude_pairs d) k"
      using that(1) cs(2) by (auto simp: dict_get_list_def update_conv')
    then have k: "sorted (map sd_seg (t3_occs k))" "distinct (map sd_seg (t3_occs k))"
      "\<forall>a b. map sd_seg (t3_occs k) = [a, b] \<longrightarrow> (a, b) \<notin> set (exclude_pairs d)"
      unfolding class3_ok_def by - (elim conjE, assumption)+
    have "a < b" using k(1,2) unfolding that(2) by simp
    then show ?thesis using k(3) that(2) by simp
  qed
  ultimately show ?thesis using True cs(1)
    by (intro exI [of _ ?d]) (simp add: run_type3_def update_conv')
next
  case False
  then have "set (do_types opts) = set (do_types opts) \<inter> {1, 2, 4}" using assms(5) by auto
  moreover have "3 \<notin> set (dict_keys d)" using False assms(4) by auto
  then have "dict_get d 3 = None" by (simp add: map_of_eq_None_iff)
  then have "dict_get_list d 3 = []" by (simp add: dict_get_list_def)
  ultimately show ?thesis using False assms(3,4) by (auto simp: run_type3_def)
qed

section \<open>The list of classes\<close>

lemma found_occs_id [simp]: "found_occs (set_found_id i c) = found_occs c" "found_segs (set_found_id i c) = found_segs c"
  "found_type (set_found_id i c) = found_type c" "found_id (set_found_id i c) = i"
  by (cases c; simp add: found_occs_def found_segs_def found_type_def found_id_def set_found_id_def)+

lemma fold_ids:
  assumes "distinct (map fst es)" "set (map fst es) \<inter> set (dict_keys d) = {}"
  shows "fold (\<lambda>(i, key, c) d. dict_set key i d) (enumerate n es) d = d @ map (\<lambda>(i, key, c). (key, i)) (enumerate n es)"
  using assms
proof (induction es arbitrary: n d)
  case (Cons e es)
  obtain key c where e: "e = (key, c)" by (cases e)
  have "dict_set key n d = d @ [(key, n)]" using Cons.prems(2) e by (intro dict_set_fresh) auto
  moreover have "set (map fst es) \<inter> set (dict_keys (d @ [(key, n)])) = {}" using Cons.prems e by auto
  ultimately show ?case using Cons.IH [of "d @ [(key, n)]" "Suc n"] Cons.prems(1) e by simp
qed simp

lemma number_entries_distinct:
  assumes "distinct (map fst es)"
  shows "number_entries es = map (\<lambda>(i, key, c). set_found_id i c) (enumerate 1 es)"
proof -
  let ?ids = "map (\<lambda>(i, key, c). (key, i)) (enumerate 1 es)"
  have keys: "map fst ?ids = map fst es"
    by (rule nth_equalityI) (simp_all add: nth_enumerate_eq split: prod.split)
  have get: "dict_get ?ids (fst (es ! j)) = Some (Suc j)" if "j < length es" for j
  proof -
    have "(fst (es ! j), Suc j) \<in> set ?ids"
      using that by (force simp: in_set_enumerate_eq image_iff split: prod.split intro: bexI [of _ "(Suc j, es ! j)"])
    then show ?thesis using assms keys by (simp add: map_of_eq_Some_iff)
  qed
  have "fold (\<lambda>(i, key, c) d. dict_set key i d) (enumerate 1 es) [] = ?ids" using fold_ids [OF assms, of "[]" 1] by simp
  then have "number_entries es
      = map (\<lambda>(key, c). set_found_id (case dict_get ?ids key of None \<Rightarrow> 0 | Some i \<Rightarrow> i) c) es"
    by (simp only: number_entries_def Let_def)
  also have "\<dots> = map (\<lambda>(i, key, c). set_found_id i c) (enumerate 1 es)"
  proof (rule nth_equalityI)
    fix j assume "j < length (map (\<lambda>(key, c). set_found_id (case dict_get ?ids key of None \<Rightarrow> 0 | Some i \<Rightarrow> i) c) es)"
    then have j: "j < length es" by simp
    obtain key c where e: "es ! j = (key, c)" by (cases "es ! j")
    then have "dict_get ?ids key = Some (Suc j)" using get [OF j] by simp
    then show "map (\<lambda>(key, c). set_found_id (case dict_get ?ids key of None \<Rightarrow> 0 | Some i \<Rightarrow> i) c) es ! j
      = map (\<lambda>(i, key, c). set_found_id i c) (enumerate 1 es) ! j"
      using j e by (simp add: nth_enumerate_eq)
  qed simp
  finally show ?thesis .
qed

text \<open>What holds of an entry of the list of classes.\<close>

definition entry_ok :: "results \<Rightarrow> (nat \<times> nat) \<times> found \<Rightarrow> bool" where
  "entry_ok results e \<longleftrightarrow>
     snd e \<in> set (dict_get_list results (fst (fst e)))
     \<and> (fst (fst e) = 2 \<longrightarrow> (\<forall>c1\<in>set (dict_get_list results 1). fingerprint (snd e) \<noteq> fingerprint c1))"

lemma type_entries_run:
  assumes "t \<in> set (dict_keys results)"
  shows "\<exists>es. type_entries results t = Inr es \<and> distinct (map fst es) \<and> (\<forall>e\<in>set es. fst (fst e) = t \<and> entry_ok results e)"
proof -
  from assms have "dict_get results t \<noteq> None" by (simp add: map_of_eq_None_iff)
  then obtain cs where cs: "dict_get results t = Some cs" by blast
  let ?all = "map (\<lambda>(i, c). ((t, i), c)) (enumerate 0 cs)"
  have "map fst ?all = map (\<lambda>i. (t, i)) [0..<length cs]"
    by (rule nth_equalityI) (simp_all add: nth_enumerate_eq)
  then have "distinct (map fst ?all)" by (simp add: distinct_map inj_on_def)
  then have "distinct (map fst (filter P ?all))" for P by (rule distinct_map_filter)
  moreover have "fst (fst e) = t \<and> snd e \<in> set cs" if "e \<in> set ?all" for e using that by (auto simp: in_set_enumerate_eq)
  ultimately show ?thesis
    using cs by (fastforce simp: type_entries_def py_item_def entry_ok_def dict_get_list_def list_ex_iff split: option.splits)
qed

lemma entries_run:
  assumes "distinct ts" "set ts \<subseteq> set (dict_keys results)"
  shows "\<exists>ess. py_seq (map (type_entries results) ts) = Inr ess \<and> distinct (map fst (concat ess))
    \<and> (\<forall>e\<in>set (concat ess). fst (fst e) \<in> set ts \<and> entry_ok results e)"
  using assms
proof (induction ts)
  case (Cons t ts)
  then obtain ess where ess: "py_seq (map (type_entries results) ts) = Inr ess" "distinct (map fst (concat ess))"
    "\<forall>e\<in>set (concat ess). fst (fst e) \<in> set ts \<and> entry_ok results e" by auto
  from type_entries_run [of t results] Cons.prems obtain es where
    es: "type_entries results t = Inr es" "distinct (map fst es)" "\<forall>e\<in>set es. fst (fst e) = t \<and> entry_ok results e" by auto
  have "fst ` set es \<inter> fst ` set (concat ess) = {}" using es(3) ess(3) Cons.prems(1) by fastforce
  then show ?case using es ess by (intro exI [of _ "es # ess"]) auto
qed simp

section \<open>The result\<close>

lemma by_type_total: "dict_total (fold (\<lambda>c. bump_count (f c)) cs d) = dict_total d + length cs"
proof (induction cs arbitrary: d)
  case (Cons c cs)
  have "dict_total (bump_count (f c) d) = Suc (dict_total d)" using dict_total_bump [of "f c" d] by (simp add: bump_count_def)
  then show ?case using Cons [of "bump_count (f c) d"] by simp
qed simp

text \<open>The relation between the classes of a result and the runs of the single detectors.\<close>

definition classes_ok :: "detect_env \<Rightarrow> detect_options \<Rightarrow> jseg list \<Rightarrow> found list \<Rightarrow> bool" where
  "classes_ok env opts segs classes \<longleftrightarrow>
     map found_id classes = [1..<Suc (length classes)]
     \<and> (\<forall>ks k k1. 1 \<in> set (do_types opts) \<longrightarrow> type1_run env opts segs = Inr ks \<longrightarrow> FText k \<in> set classes \<longrightarrow>
          cc_type k = ''II'' \<longrightarrow> k1 \<in> set ks \<longrightarrow> set (cc_occs k) \<noteq> set (cc_occs k1))
     \<and> (\<forall>k a b c. FNear k \<in> set classes \<longrightarrow> map sd_seg (t3_occs k) = [a, b] \<longrightarrow> c \<in> set classes \<longrightarrow>
          (\<forall>k'. c \<noteq> FNear k') \<longrightarrow> \<not> {a, b} \<subseteq> set (found_segs c))"

lemma set_found_cases:
  "FText k = set_found_id i c \<Longrightarrow> \<exists>k'. c = FText k' \<and> cc_type k = cc_type k' \<and> cc_occs k = cc_occs k'"
  "FNear l = set_found_id i c \<Longrightarrow> \<exists>l'. c = FNear l' \<and> t3_occs l = t3_occs l'"
  by (cases c; simp add: set_found_id_def)+

lemma fingerprint_text: "fingerprint (FText k) = (\<lambda>(s, st, en). (s, int st, int en)) ` set (cc_occs k)"
  by (simp add: fingerprint_def found_occs_def)

lemma fingerprint_text_inj: "fingerprint (FText k) = fingerprint (FText k') \<longleftrightarrow> set (cc_occs k) = set (cc_occs k')"
proof -
  have "inj (\<lambda>(s, st, en). (s, int st, int en))" by (auto simp: inj_def)
  then show ?thesis unfolding fingerprint_text by (rule inj_image_eq_iff)
qed

lemma all_classes_run:
  assumes "jsegs_wf segs" "\<And>xs. set (de_iter env xs) = set xs" "1 \<le> do_min_length3 opts"
    and "distinct (do_types opts)" "set (do_types opts) \<subseteq> {1, 2, 3, 4}"
  shows "\<exists>classes. all_classes env opts segs = Inr classes \<and> classes_ok env opts segs classes"
proof -
  let ?ts = "sort (do_types opts)"
  have "\<exists>d'. py_fold (run_pass env opts segs) ?ts [] = Inr d' \<and> (\<forall>(t, cs)\<in>set d'. pass_ok env opts segs t cs)
    \<and> set (dict_keys d') = set (dict_keys ([] :: results)) \<union> (set ?ts \<inter> {1, 2, 4})"
    by (rule base_passes [OF assms(1,2)]) simp
  then obtain base where base: "py_fold (run_pass env opts segs) ?ts [] = Inr base"
    "\<forall>(t, cs)\<in>set base. pass_ok env opts segs t cs" "set (dict_keys base) = set (do_types opts) \<inter> {1, 2, 4}" by auto
  from type3_pass [OF assms(1,3) base(2,3) assms(5)] obtain results where
    res: "run_type3 env opts segs base = Inr results" "\<forall>(t, cs)\<in>set results. pass_ok env opts segs t cs"
      "set (dict_keys results) = set (do_types opts)" "\<forall>t. t \<noteq> 3 \<longrightarrow> dict_get results t = dict_get base t"
      "\<forall>k a b. FNear k \<in> set (dict_get_list results 3) \<longrightarrow> map sd_seg (t3_occs k) = [a, b] \<longrightarrow>
         a \<noteq> b \<and> (min a b, max a b) \<notin> set (exclude_pairs base)" by blast
  from entries_run [of ?ts results] assms(4) res(3) obtain ess where
    ess: "py_seq (map (type_entries results) ?ts) = Inr ess" "distinct (map fst (concat ess))"
      "\<forall>e\<in>set (concat ess). fst (fst e) \<in> set (do_types opts) \<and> entry_ok results e" by auto
  let ?classes = "map (\<lambda>(i, key, c). set_found_id i c) (enumerate 1 (concat ess))"
  have run: "all_classes env opts segs = Inr ?classes"
    using base(1) res(1) ess(1) by (simp add: all_classes_def number_entries_distinct [OF ess(2)])
  have pass: "pass_ok env opts segs t (dict_get_list results t)" if "t \<in> set (do_types opts)" for t
  proof -
    have "dict_get results t \<noteq> None" using that res(3) by (simp add: map_of_eq_None_iff)
    then obtain cs where cs: "dict_get results t = Some cs" by blast
    from map_of_SomeD [OF this] res(2) have "pass_ok env opts segs t cs" by blast
    then show ?thesis by (simp add: dict_get_list_def cs)
  qed
  have origin: "\<exists>t i c'. t \<in> set (do_types opts) \<and> c = set_found_id i c' \<and> c' \<in> set (dict_get_list results t)
      \<and> (t = 2 \<longrightarrow> (\<forall>c1\<in>set (dict_get_list results 1). fingerprint c' \<noteq> fingerprint c1))"
    if "c \<in> set ?classes" for c
  proof -
    from that obtain i e where e: "(i, e) \<in> set (enumerate 1 (concat ess))" "c = set_found_id i (snd e)" by auto
    from enumerate_memD [OF e(1)] have "e \<in> set (concat ess)" .
    with e(2) show ?thesis using ess(3) unfolding entry_ok_def by metis
  qed
  have "map found_id ?classes = [1..<Suc (length ?classes)]"
    by (rule nth_equalityI) (simp_all add: nth_enumerate_eq split: prod.split del: upt_Suc)
  moreover have "set (cc_occs k) \<noteq> set (cc_occs k1)"
    if "1 \<in> set (do_types opts)" "type1_run env opts segs = Inr ks" "FText k \<in> set ?classes" "cc_type k = ''II''" "k1 \<in> set ks"
    for ks k k1
  proof -
    from origin [OF that(3)] obtain t i c' where t: "t \<in> set (do_types opts)" "FText k = set_found_id i c'"
      "c' \<in> set (dict_get_list results t)" "t = 2 \<longrightarrow> (\<forall>c1\<in>set (dict_get_list results 1). fingerprint c' \<noteq> fingerprint c1)" by blast
    from set_found_cases(1) [OF t(2)] that(4) obtain k' where
      k': "c' = FText k'" "cc_type k' = ''II''" "cc_occs k = cc_occs k'" by auto
    have one: "dict_get_list results 1 = map FText ks" using pass [OF that(1)] that(2) by (auto simp: pass_ok_def)
    have "t = 2" using pass_ok_mem [OF pass [OF t(1)] set_mp [OF assms(5) t(1)] t(3)] k'(1,2) by simp
    then have "fingerprint (FText k') \<noteq> fingerprint (FText k1)" using t(4) k'(1) one that(5) by simp
    then show ?thesis by (simp add: fingerprint_text_inj k'(3))
  qed
  moreover have "\<not> {a, b} \<subseteq> set (found_segs c)"
    if "FNear k \<in> set ?classes" "map sd_seg (t3_occs k) = [a, b]" "c \<in> set ?classes" "\<forall>k'. c \<noteq> FNear k'" for k a b c
  proof
    assume ab: "{a, b} \<subseteq> set (found_segs c)"
    from origin [OF that(1)] obtain t i c' where t: "t \<in> set (do_types opts)" "FNear k = set_found_id i c'"
      "c' \<in> set (dict_get_list results t)" by blast
    from set_found_cases(2) [OF t(2)] obtain k' where k': "c' = FNear k'" "t3_occs k = t3_occs k'" by blast
    have "t = 3" using pass_ok_mem [OF pass [OF t(1)] set_mp [OF assms(5) t(1)] t(3)] k'(1) by simp
    then have ex: "a \<noteq> b" "(min a b, max a b) \<notin> set (exclude_pairs base)" using res(5) t(3) k' that(2) by auto
    from origin [OF that(3)] obtain u j d where u: "u \<in> set (do_types opts)" "c = set_found_id j d"
      "d \<in> set (dict_get_list results u)" by blast
    have "u \<noteq> 3"
      using pass_ok_mem [OF pass [OF u(1)] set_mp [OF assms(5) u(1)] u(3)] u(2) that(4)
      by (cases d) (auto simp: set_found_id_def)
    then have "u \<in> {1, 2, 4}" "d \<in> set (dict_get_list base u)" using u(1,3) assms(5) res(4) by (auto simp: dict_get_list_def)
    moreover have "(min a b, max a b) \<in> set (seg_pairs (found_segs d))" using ab ex(1) u(2) by (intro seg_pairs_mem) auto
    ultimately have "(min a b, max a b) \<in> set (exclude_pairs base)" by (auto simp: exclude_pairs_def)
    with ex(2) show False by simp
  qed
  ultimately have "classes_ok env opts segs ?classes" unfolding classes_ok_def by blast
  with run show ?thesis by blast
qed

text \<open>
  C33. For clone types among 1 to 4, each named once, and a minimum length for Type III of at least 1, the
  subcommand \<open>detect\<close> never fails on sources: when \<open>parse\<close> stops with a message so does it, otherwise
  it returns classes numbered from 1 and metadata that counts them, by type as well; no class of Type II
  has the occurrences of a class that the Type I run found; and no class of Type III consists of two
  segments that stand together in a reported class of another type.
\<close>
theorem detect_source_result:
  assumes "\<And>xs. set (de_iter env xs) = set xs" "1 \<le> do_min_length3 opts"
    and "distinct (do_types opts)" "set (do_types opts) \<subseteq> {1, 2, 3, 4}"
  shows "\<exists>r. parse_source mods popts cwd src entry = Inr r \<and>
    (case r of
       Inl msg \<Rightarrow> detect_source env opts mods popts cwd src entry = Inr (Inl msg)
     | Inr doc \<Rightarrow>
         \<exists>meta classes. detect_source env opts mods popts cwd src entry = Inr (Inr (meta, classes))
           \<and> classes_ok env opts (doc_jsegs doc) classes
           \<and> dm_classes meta = length classes \<and> dict_total (dm_by_type meta) = length classes
           \<and> dm_skipped meta = pm_skipped (ir_meta doc) \<and> dm_segments meta = length (ir_segments doc))"
proof -
  consider msg where "parse_source mods popts cwd src entry = Inr (Inl msg)"
    | doc good bad where "parse_source mods popts cwd src entry = Inr (Inr doc)" "project_doc mods popts cwd good bad doc"
        "jsegs_wf (doc_jsegs doc)"
    using parse_source_spec [where src = src and entry = entry and mods = mods and opts = popts and cwd = cwd] unfolding doc_jsegs_def
    by (auto simp: Let_def split: sum.splits if_splits)
  then show ?thesis
  proof cases
    case 1
    then show ?thesis by (simp add: detect_source_def)
  next
    case 2
    have "\<exists>classes. all_classes env opts (doc_jsegs doc) = Inr classes \<and> classes_ok env opts (doc_jsegs doc) classes"
      by (rule all_classes_run [OF 2(3) assms])
    then obtain classes where "all_classes env opts (doc_jsegs doc) = Inr classes" "classes_ok env opts (doc_jsegs doc) classes"
      by blast
    then show ?thesis using 2(1,2) by_type_total [of found_type classes "[]"]
      by (simp add: detect_source_def detect_document_def detect_meta_of_def Let_def project_doc_def dict_total_def)
  qed
qed

definition sample_env :: detect_env where
  "sample_env = \<lparr>de_digest = (\<lambda>s. s), de_sig_digest = sample_digest, de_iter = (\<lambda>xs. xs)\<rparr>"

definition sample_options :: detect_options where
  "sample_options =
     \<lparr>do_types = [3, 1, 2, 4], do_min_length = 2, do_max_freq = 0, do_maximal = True, do_filter_overlaps = True,
      do_threshold = fl_ratio 7 10, do_min_length3 = 3\<rparr>"

theorem detect_source_result_witness:
  "\<exists>r. parse_source [] \<lparr>po_comments = False, po_includes = False, po_macros = False\<rparr> ''/w'' ''p''
        (SrcDir [FileEntry ''a.c'' (Some ''int f() { return 1; }'')]) = Inr r \<and>
    (case r of
       Inl msg \<Rightarrow> detect_source sample_env sample_options [] \<lparr>po_comments = False, po_includes = False, po_macros = False\<rparr>
           ''/w'' ''p'' (SrcDir [FileEntry ''a.c'' (Some ''int f() { return 1; }'')]) = Inr (Inl msg)
     | Inr doc \<Rightarrow>
         \<exists>meta classes. detect_source sample_env sample_options [] \<lparr>po_comments = False, po_includes = False, po_macros = False\<rparr>
             ''/w'' ''p'' (SrcDir [FileEntry ''a.c'' (Some ''int f() { return 1; }'')]) = Inr (Inr (meta, classes))
           \<and> classes_ok sample_env sample_options (doc_jsegs doc) classes
           \<and> dm_classes meta = length classes \<and> dict_total (dm_by_type meta) = length classes
           \<and> dm_skipped meta = pm_skipped (ir_meta doc) \<and> dm_segments meta = length (ir_segments doc))"
  by (rule detect_source_result) (simp_all add: sample_env_def sample_options_def)

text \<open>A type named twice on the command line is reported twice, both times under the number of the second copy.\<close>

lemma repeated_type:
  "number_entries [((1, 0), c), ((1, 0), c)] = [set_found_id 2 c, set_found_id 2 c]"
  by (simp add: number_entries_def Let_def numeral_2_eq_2)

section \<open>Clones in the graph\<close>

text \<open>The nodes that stand for the statements of a segment.\<close>

definition stmt_nodes :: "nat \<Rightarrow> dag_node list \<Rightarrow> dag_node list" where
  "stmt_nodes sid ns = filter (\<lambda>n. rw_seg_id n = Some sid \<and> stands_for_stmt n) ns"

lemma map_fold:
  "dict_get (fst (fold map_node ns ([], []))) sid
      = (if stmt_nodes sid ns = [] then None else Some (length (stmt_nodes sid ns)))
   \<and> dict_get (snd (fold map_node ns ([], []))) (sid, i)
      = (if i < length (stmt_nodes sid ns) then Some (nd_id (stmt_nodes sid ns ! i)) else None)"
proof (induction ns arbitrary: sid i rule: rev_induct)
  case (snoc n ns)
  obtain counter mapping where st: "fold map_node ns ([], []) = (counter, mapping)" by fastforce
  have IH: "dict_get counter sid = (if stmt_nodes sid ns = [] then None else Some (length (stmt_nodes sid ns)))"
    "dict_get mapping (sid, i) = (if i < length (stmt_nodes sid ns) then Some (nd_id (stmt_nodes sid ns ! i)) else None)" for sid i
    using snoc.IH [of sid i] by (simp_all add: st)
  have run: "fold map_node (ns @ [n]) ([], []) = map_node n (counter, mapping)" by (simp add: st)
  show ?case
  proof (cases "\<exists>s. rw_seg_id n = Some s \<and> stands_for_stmt n")
    case True
    then obtain s where s: "rw_seg_id n = Some s" "stands_for_stmt n" by blast
    have idx: "(case dict_get counter s of None \<Rightarrow> 0 | Some k \<Rightarrow> k) = length (stmt_nodes s ns)" by (simp add: IH(1))
    have split: "stmt_nodes sid (ns @ [n]) = (if sid = s then stmt_nodes s ns @ [n] else stmt_nodes sid ns)"
      using s by (simp add: stmt_nodes_def)
    show ?thesis unfolding run split using s idx
      by (auto simp: map_node_def Let_def update_conv' IH nth_append)
  next
    case False
    then have "map_node n (counter, mapping) = (counter, mapping)" "stmt_nodes sid (ns @ [n]) = stmt_nodes sid ns"
      by (auto simp: map_node_def stmt_nodes_def split: option.splits)
    then show ?thesis unfolding run by (simp add: IH)
  qed
qed (simp add: stmt_nodes_def)

lemma filter_insert_entries:
  assumes "\<And>seg. seg \<in> set (entry_segs segments) \<Longrightarrow> \<not> P (make_entry_node seg)"
  shows "filter P (insert_entries segments raw) = filter P raw"
proof -
  have "filter P (fold (\<lambda>(i, node) ns. list_insert i node ns) ps xs) = filter P xs"
    if "\<forall>p\<in>set ps. \<not> P (snd p)" for ps xs
    using that
  proof (induction ps arbitrary: xs)
    case (Cons p ps)
    have "filter P (list_insert (fst p) (snd p) xs) = filter P (take (fst p) xs @ drop (fst p) xs)"
      using Cons.prems unfolding list_insert_def filter_append by simp
    then show ?case using Cons by (simp add: case_prod_beta)
  qed simp
  moreover have "\<forall>p\<in>set (entry_insertions segments raw). \<not> P (snd p)"
    using assms by (auto simp: entry_insertions_def Let_def)
  ultimately show ?thesis by (simp add: insert_entries_def)
qed

lemma clone_nodes:
  assumes "segments_wf segments" "length segments < fuel" "build_matrix fuel segments = Inr m"
    "build_dag segments m = Inr d" "seg \<in> set segments"
    "list_all (\<lambda>st. st_kind st \<notin> {''func_entry'', ''file_entry'', ''struct_def'', ''phi''}) (sg_stmts seg)"
  shows "map row.truncate (stmt_nodes (sg_id seg) (dg_nodes d))
    = map (\<lambda>st. stmt_to_row st (sg_id seg) (sg_scope_path seg) (mx_slots m)) (sg_stmts seg)"
proof -
  let ?P = "\<lambda>r :: row. rw_seg_id r = Some (sg_id seg)
      \<and> rw_note r \<notin> {Some ''synthetic'', Some ''loop_entry'', Some ''branch_reconvergence''}
      \<and> rw_kind r \<notin> {''func_entry'', ''file_entry'', ''struct_def'', ''phi''}"
  let ?rows = "map (\<lambda>st. stmt_to_row st (sg_id seg) (sg_scope_path seg) (mx_slots m)) (sg_stmts seg)"
  have nodes: "dg_nodes d = number_nodes (insert_entries segments (mx_rows m))"
    by (rule build_dag_cases(1) [OF assms(4) matrix_rows_node_ok [OF assms(3)]])
  have "map row.truncate (stmt_nodes (sg_id seg) (dg_nodes d)) = filter ?P (map row.truncate (dg_nodes d))"
    unfolding stmt_nodes_def filter_map o_def stands_for_stmt_def by (simp add: row.defs)
  also have "\<dots> = filter ?P (insert_entries segments (mx_rows m))" unfolding nodes truncate_number_nodes ..
  also have "\<dots> = filter ?P (mx_rows m)" by (rule filter_insert_entries) (simp add: make_entry_node_def Let_def)
  also have "\<dots> = filter ?P (filter (\<lambda>r. rw_seg_id r = Some (sg_id seg) \<and> rw_note r = None) (mx_rows m))"
  proof -
    have "\<forall>r\<in>set (mx_rows m). row_wf (mx_slots m) r" using matrix_rows_wf [OF assms(3)] by blast
    then have "rw_note r = None" if "r \<in> set (mx_rows m)" "?P r" for r
      using that unfolding row_wf_def by (cases "rw_note r") auto
    then show ?thesis by (auto intro: filter_cong simp: filter_filter)
  qed
  also have "\<dots> = filter ?P ?rows" by (simp only: matrix_statement_rows [OF assms(1,2,3,5)])
  also have "\<dots> = ?rows"
  proof (rule filter_True)
    have "rw_seg_id (stmt_to_row st i sc idx) = Some i \<and> rw_note (stmt_to_row st i sc idx) = None
        \<and> rw_kind (stmt_to_row st i sc idx) = st_kind st" for st i sc idx
      by (simp add: stmt_to_row_sel)
    then show "\<forall>r\<in>set ?rows. ?P r" using assms(6) by (auto simp: list_all_iff)
  qed
  finally show ?thesis .
qed

text \<open>
  The keys of the map are the numbers of the statements in their segment, not their texts, as the first of
  the two docstrings of the function says: two statements of a segment have two entries, equal texts or not.
\<close>

lemma statements_are_keyed_by_number:
  assumes "rw_seg_id n = Some sid" "rw_seg_id n' = Some sid" "stands_for_stmt n" "stands_for_stmt n'"
  shows "build_seg_stmt_to_dag_map [n, n'] = [((sid, 0), nd_id n), ((sid, 1), nd_id n')]"
  using assms by (simp add: build_seg_stmt_to_dag_map_def map_node_def)

text \<open>
  C35. The map behind the clone view, keyed by segment and number of the statement in it (the second
  docstring of the function; the first one, which gives the text of the statement, does not describe the
  code), sends the statement number \<open>i\<close> of every segment to the graph node of that statement, as long as
  no statement has one of the kinds that the map takes for entry nodes.
\<close>
theorem clone_statements_in_graph:
  assumes "segments_wf segments" "length segments < fuel" "build_matrix fuel segments = Inr m"
    "build_dag segments m = Inr d" "seg \<in> set segments"
    "list_all (\<lambda>st. st_kind st \<notin> {''func_entry'', ''file_entry'', ''struct_def'', ''phi''}) (sg_stmts seg)"
    "i < length (sg_stmts seg)"
  shows "\<exists>n<length (dg_nodes d). dict_get (build_seg_stmt_to_dag_map (dg_nodes d)) (sg_id seg, i) = Some n
    \<and> row.truncate (dg_nodes d ! n) = stmt_to_row (sg_stmts seg ! i) (sg_id seg) (sg_scope_path seg) (mx_slots m)"
proof -
  let ?ns = "stmt_nodes (sg_id seg) (dg_nodes d)"
  note eq = clone_nodes [OF assms(1-6)]
  have len: "i < length ?ns" using assms(7) arg_cong [OF eq, of length] by simp
  then have "?ns ! i \<in> set (dg_nodes d)" using nth_mem [OF len] by (simp add: stmt_nodes_def)
  then obtain n where n: "n < length (dg_nodes d)" "dg_nodes d ! n = ?ns ! i" by (auto simp: in_set_conv_nth)
  have "nd_id (dg_nodes d ! n) = n"
    using n(1) build_dag_cases(1) [OF assms(4) matrix_rows_node_ok [OF assms(3)]] by (simp add: number_nodes_nth)
  then have "dict_get (build_seg_stmt_to_dag_map (dg_nodes d)) (sg_id seg, i) = Some n"
    using len n(2) map_fold [of "dg_nodes d" "sg_id seg" i] by (simp add: build_seg_stmt_to_dag_map_def)
  moreover have "row.truncate (?ns ! i) = stmt_to_row (sg_stmts seg ! i) (sg_id seg) (sg_scope_path seg) (mx_slots m)"
    using arg_cong [OF eq, of "\<lambda>l. l ! i"] len assms(7) by simp
  ultimately show ?thesis using n by auto
qed

theorem clone_statements_in_graph_witness:
  "\<exists>m d n. build_matrix 5 sample_segments = Inr m \<and> build_dag sample_segments m = Inr d
     \<and> dict_get (build_seg_stmt_to_dag_map (dg_nodes d)) (1, 3) = Some n \<and> rw_raw (dg_nodes d ! n) = ''return x;''"
proof -
  obtain m d where md: "build_matrix 5 sample_segments = Inr m" "build_dag sample_segments m = Inr d"
    using matrix_dag_result [OF sample_wf, of 5] by (auto simp: sample_segments_def)
  let ?seg = "sample_segments ! 1"
  have "length sample_segments < 5" "?seg \<in> set sample_segments"
    "list_all (\<lambda>st. st_kind st \<notin> {''func_entry'', ''file_entry'', ''struct_def'', ''phi''}) (sg_stmts ?seg)"
    "3 < length (sg_stmts ?seg)" "sg_id ?seg = 1" "st_raw (sg_stmts ?seg ! 3) = ''return x;''"
    by (simp_all add: sample_segments_def sample_seg_def sample_stmt_def)
  from clone_statements_in_graph [OF sample_wf this(1) md this(2,3,4)] this(5,6) obtain n where
    "dict_get (build_seg_stmt_to_dag_map (dg_nodes d)) (1, 3) = Some n"
    "row.truncate (dg_nodes d ! n) = stmt_to_row (sg_stmts ?seg ! 3) 1 (sg_scope_path ?seg) (mx_slots m)" by auto
  moreover from arg_cong [OF this(2), of rw_raw] have "rw_raw (dg_nodes d ! n) = ''return x;''"
    using \<open>st_raw (sg_stmts ?seg ! 3) = ''return x;''\<close> by (simp add: row.truncate_def stmt_to_row_sel)
  ultimately show ?thesis using md by blast
qed

end
