(* ===== verification/Security.thy ===== *)
theory Security
  imports IR Comments
begin

text \<open>
  The core of the security toolkit (\<open>security_toolkit/src/core\<close>): severities, findings with their fingerprint
  and the report of a scan (\<open>models.py\<close>), the registry of plugins (\<open>plugin.py\<close>) and the engine that selects the
  plugins, runs them in a pool of threads and gathers what they return (\<open>engine.py\<close>). The hexadecimal digest of
  sha256 is the argument \<open>sha\<close>, a plugin the record of what the engine calls on it, and the order in which the
  threads complete the argument \<open>order\<close>.
\<close>

section \<open>Severities\<close>

datatype severity = INFO | LOW | MEDIUM | HIGH | CRITICAL

primrec severity_value :: "severity \<Rightarrow> nat" where
  "severity_value INFO = 1"
| "severity_value LOW = 2"
| "severity_value MEDIUM = 3"
| "severity_value HIGH = 4"
| "severity_value CRITICAL = 5"

primrec severity_name :: "severity \<Rightarrow> string" where
  "severity_name INFO = ''INFO''"
| "severity_name LOW = ''LOW''"
| "severity_name MEDIUM = ''MEDIUM''"
| "severity_name HIGH = ''HIGH''"
| "severity_name CRITICAL = ''CRITICAL''"

text \<open>The members of the enumeration in their order.\<close>

definition severities :: "severity list" where
  "severities = [INFO, LOW, MEDIUM, HIGH, CRITICAL]"

instantiation severity :: linorder
begin

definition less_eq_severity :: "severity \<Rightarrow> severity \<Rightarrow> bool" where
  "less_eq_severity a b \<longleftrightarrow> severity_value a \<le> severity_value b"

definition less_severity :: "severity \<Rightarrow> severity \<Rightarrow> bool" where
  "less_severity a b \<longleftrightarrow> severity_value a < severity_value b"

instance
proof
  fix a b :: severity
  show "a \<le> b \<Longrightarrow> b \<le> a \<Longrightarrow> a = b"
    by (cases a; cases b) (simp_all add: less_eq_severity_def)
qed (auto simp: less_eq_severity_def less_severity_def)

end

definition severity_map :: "(string, severity) dict" where
  "severity_map =
     [(''unknown'', INFO), (''negligible'', INFO), (''low'', LOW), (''medium'', MEDIUM), (''high'', HIGH),
      (''critical'', CRITICAL), (''info'', INFO), (''warning'', MEDIUM), (''error'', HIGH),
      (''informative'', INFO), (''moderate'', MEDIUM), (''important'', HIGH)]"

definition normalize_severity :: "string \<Rightarrow> severity" where
  "normalize_severity raw =
     (case dict_get severity_map (str_lower (str_strip raw)) of None \<Rightarrow> MEDIUM | Some s \<Rightarrow> s)"

section \<open>Findings\<close>

record finding =
  fn_tool :: string
  fn_rule_id :: string
  fn_title :: string
  fn_description :: string
  fn_severity :: severity
  fn_file_path :: "string option"
  fn_line :: int
  fn_category :: string
  fn_raw :: json
  fn_fingerprint :: string

definition compute_fingerprint :: "(string \<Rightarrow> string) \<Rightarrow> finding \<Rightarrow> string" where
  "compute_fingerprint sha f =
     take 16 (sha (fn_rule_id f @ ''|'' @ (case fn_file_path f of None \<Rightarrow> ''None'' | Some p \<Rightarrow> p) @ ''|''
                   @ int_str (fn_line f) @ ''|'' @ fn_title f))"

text \<open>The constructor, with the fingerprint left to \<open>__post_init__\<close>.\<close>

definition post_init :: "(string \<Rightarrow> string) \<Rightarrow> finding \<Rightarrow> finding" where
  "post_init sha f =
     (if fn_fingerprint f = [] then f\<lparr>fn_fingerprint := compute_fingerprint sha f\<rparr> else f)"

definition new_finding ::
  "(string \<Rightarrow> string) \<Rightarrow> string \<Rightarrow> string \<Rightarrow> string \<Rightarrow> string \<Rightarrow> severity \<Rightarrow> string option \<Rightarrow> int \<Rightarrow> string \<Rightarrow> json \<Rightarrow> finding" where
  "new_finding sha tool rule_id title description severity file_path line category raw =
     post_init sha
       \<lparr>fn_tool = tool, fn_rule_id = rule_id, fn_title = title, fn_description = description,
        fn_severity = severity, fn_file_path = file_path, fn_line = line, fn_category = category, fn_raw = raw,
        fn_fingerprint = []\<rparr>"

definition location_of :: "finding \<Rightarrow> string" where
  "location_of f =
     (case fn_file_path f of None \<Rightarrow> [] | Some p \<Rightarrow> p)
     @ (if fn_line f \<noteq> 0 then '':'' @ int_str (fn_line f) else [])"

definition finding_to_dict :: "bool \<Rightarrow> finding \<Rightarrow> json" where
  "finding_to_dict include_raw f =
     JObj
       ([(''severity'', JStr (severity_name (fn_severity f))), (''tool'', JStr (fn_tool f)),
         (''rule_id'', JStr (fn_rule_id f)), (''category'', JStr (fn_category f)),
         (''title'', JStr (fn_title f)), (''description'', JStr (fn_description f)),
         (''location'', JStr (location_of f)), (''fingerprint'', JStr (fn_fingerprint f))]
        @ (if include_raw \<and> fn_raw f \<noteq> JObj [] then [(''raw'', fn_raw f)] else []))"

section \<open>Reports\<close>

text \<open>
  What the engine records of a plugin: the dictionary it fills is \<open>{status, findings_count, error}\<close> for one that
  was started and \<open>{status, reason, findings_count}\<close> for one that was not.
\<close>

datatype plugin_status =
    PluginRunning
  | PluginSuccess nat
  | PluginFailed string
  | PluginSkipped string

record scan_report =
  sr_target :: string
  sr_mode :: string
  sr_started_at :: string
  sr_finished_at :: string
  sr_findings :: "finding list"
  sr_errors :: "string list"
  sr_plugin_execution :: "(string, plugin_status) dict"

definition keep_finding :: "finding \<Rightarrow> (string, finding) dict \<Rightarrow> (string, finding) dict" where
  "keep_finding f seen =
     (case dict_get seen (fn_fingerprint f) of
        None \<Rightarrow> dict_set (fn_fingerprint f) f seen
      | Some existing \<Rightarrow>
          if fn_severity existing < fn_severity f then dict_set (fn_fingerprint f) f seen else seen)"

definition deduplicated :: "finding list \<Rightarrow> finding list" where
  "deduplicated fs = map snd (fold keep_finding fs [])"

definition deduplicate :: "scan_report \<Rightarrow> scan_report" where
  "deduplicate r = r\<lparr>sr_findings := deduplicated (sr_findings r)\<rparr>"

text \<open>\<open>list.sort(reverse=True)\<close> keeps the order of equal elements.\<close>

definition sort_by_severity :: "scan_report \<Rightarrow> scan_report" where
  "sort_by_severity r =
     r\<lparr>sr_findings := sort_key (\<lambda>f. - int (severity_value (fn_severity f))) (sr_findings r)\<rparr>"

definition count_severity :: "finding \<Rightarrow> (string, nat) dict \<Rightarrow> (string, nat) dict" where
  "count_severity f counts =
     (let name = severity_name (fn_severity f)
      in dict_set name ((case dict_get counts name of None \<Rightarrow> 0 | Some n \<Rightarrow> n) + 1) counts)"

definition severity_counts :: "scan_report \<Rightarrow> (string, nat) dict" where
  "severity_counts r = fold count_severity (sr_findings r) (map (\<lambda>s. (severity_name s, 0)) severities)"

definition scan_verdict :: "scan_report \<Rightarrow> string" where
  "scan_verdict r =
     (if list_ex (\<lambda>f. HIGH \<le> fn_severity f) (sr_findings r) then ''FAIL''
      else if sr_findings r \<noteq> [] then ''WARN''
      else ''PASS'')"

text \<open>The document \<open>to_json\<close> prints.\<close>

definition grouped_findings :: "bool \<Rightarrow> finding list \<Rightarrow> (string, json list) dict" where
  "grouped_findings include_raw fs =
     fold (\<lambda>f. dict_append (if fn_category f = [] then ''other'' else fn_category f) (finding_to_dict include_raw f))
       fs []"

definition executed_entry :: "string \<times> plugin_status \<Rightarrow> json option" where
  "executed_entry e =
     (case e of
        (name, PluginSuccess n) \<Rightarrow> Some (JObj [(''plugin'', JStr name), (''findings_count'', JInt (int n))])
      | _ \<Rightarrow> None)"

definition failed_entry :: "string \<times> plugin_status \<Rightarrow> json option" where
  "failed_entry e =
     (case e of
        (name, PluginFailed err) \<Rightarrow> Some (JObj [(''plugin'', JStr name), (''error'', JStr err)])
      | _ \<Rightarrow> None)"

definition skipped_entry :: "string \<times> plugin_status \<Rightarrow> json option" where
  "skipped_entry e =
     (case e of
        (name, PluginSkipped reason) \<Rightarrow> Some (JObj [(''plugin'', JStr name), (''reason'', JStr reason)])
      | _ \<Rightarrow> None)"

definition plugin_list :: "json list \<Rightarrow> json" where
  "plugin_list entries = JObj [(''count'', JInt (int (length entries))), (''plugins'', JList entries)]"

definition report_document :: "bool \<Rightarrow> scan_report \<Rightarrow> json" where
  "report_document include_raw r =
     JObj
       [(''report'',
         JObj [(''target'', JStr (sr_target r)), (''mode'', JStr (sr_mode r)),
               (''started_at'', JStr (sr_started_at r)), (''finished_at'', JStr (sr_finished_at r)),
               (''verdict'', JStr (scan_verdict r))]),
        (''summary'',
         JObj [(''total_findings'', JInt (int (length (sr_findings r)))),
               (''by_severity'', JObj (map (\<lambda>(s, n). (s, JInt (int n))) (severity_counts r)))]),
        (''plugins'',
         JObj [(''total_registered'', JInt (int (length (sr_plugin_execution r)))),
               (''executed'', plugin_list (List.map_filter executed_entry (sr_plugin_execution r))),
               (''failed'', plugin_list (List.map_filter failed_entry (sr_plugin_execution r))),
               (''skipped'', plugin_list (List.map_filter skipped_entry (sr_plugin_execution r)))]),
        (''findings_by_category'',
         JObj (map (\<lambda>(c, fs). (c, JList fs)) (grouped_findings include_raw (sr_findings r)))),
        (''errors'', JList (map JStr (sr_errors r)))]"

section \<open>Targets and plugins\<close>

record target_profile =
  tp_mode :: string
  tp_path :: "string option"
  tp_image :: "string option"
  tp_pid :: "int option"
  tp_service_url :: "string option"
  tp_languages :: "string list"
  tp_has_docker :: bool
  tp_has_k8s :: bool
  tp_has_terraform :: bool
  tp_exposed_ports :: "int list"

text \<open>
  The calls the engine makes on a plugin: \<open>can_handle\<close> (\<open>None\<close> when it raises) and \<open>execute\<close> (the text of the
  exception when it raises).
\<close>

record plugin =
  pl_name :: string
  pl_scan_modes :: "string list"
  pl_can_handle :: "target_profile \<Rightarrow> bool option"
  pl_execute :: "target_profile \<Rightarrow> string + finding list"

text \<open>A class as the metaclass sees it, and its instance unless the constructor raises.\<close>

record plugin_class =
  pc_has_bases :: bool
  pc_is_abstract :: bool
  pc_name :: string
  pc_new :: "plugin option"

definition register_class :: "plugin_class \<Rightarrow> (string, plugin_class) dict \<Rightarrow> (string, plugin_class) dict" where
  "register_class c registry =
     (if pc_has_bases c \<and> \<not> pc_is_abstract c then dict_set (pc_name c) c registry else registry)"

definition instantiate_plugins :: "(string, plugin_class) dict \<Rightarrow> plugin list" where
  "instantiate_plugins registry = List.map_filter (\<lambda>(name, c). pc_new c) registry"

text \<open>The plugins of an engine, for the classes of the scanner modules in the order they are defined.\<close>

definition engine_plugins :: "plugin_class list \<Rightarrow> plugin list" where
  "engine_plugins classes = instantiate_plugins (fold register_class classes [])"

section \<open>The engine\<close>

definition str_or :: "string option \<Rightarrow> string option" where
  "str_or s = (case s of Some x \<Rightarrow> if x = [] then None else Some x | None \<Rightarrow> None)"

text \<open>\<open>str(profile.path or profile.image or profile.pid or profile.service_url)\<close>; a \<open>Path\<close> is always true.\<close>

definition url_text :: "target_profile \<Rightarrow> string" where
  "url_text p = (case tp_service_url p of Some u \<Rightarrow> u | None \<Rightarrow> ''None'')"

definition target_text :: "target_profile \<Rightarrow> string" where
  "target_text p =
     (case tp_path p of Some path \<Rightarrow> path
      | None \<Rightarrow> (case str_or (tp_image p) of Some img \<Rightarrow> img
      | None \<Rightarrow> (case tp_pid p of Some n \<Rightarrow> if n \<noteq> 0 then int_str n else url_text p
      | None \<Rightarrow> url_text p)))"

definition is_applicable :: "target_profile \<Rightarrow> plugin \<Rightarrow> bool" where
  "is_applicable p pl \<longleftrightarrow> tp_mode p \<in> set (pl_scan_modes pl) \<and> pl_can_handle pl p = Some True"

definition select_plugins :: "plugin list \<Rightarrow> target_profile \<Rightarrow> plugin list" where
  "select_plugins plugins p = filter (is_applicable p) plugins"

definition mode_reason :: "target_profile \<Rightarrow> string" where
  "mode_reason p = ''Plugin not applicable for '' @ tp_mode p @ '' mode''"

definition target_reason :: string where
  "target_reason = ''Plugin.can_handle() returned False for target''"

definition skipped_status :: "target_profile \<Rightarrow> plugin \<Rightarrow> (string, plugin_status) dict \<Rightarrow> (string, plugin_status) dict" where
  "skipped_status p pl d =
     (if tp_mode p \<notin> set (pl_scan_modes pl) then dict_set (pl_name pl) (PluginSkipped (mode_reason p)) d
      else if \<not> is_applicable p pl then dict_set (pl_name pl) (PluginSkipped target_reason) d
      else d)"

definition skipped_statuses :: "plugin list \<Rightarrow> target_profile \<Rightarrow> (string, plugin_status) dict" where
  "skipped_statuses plugins p = fold (skipped_status p) plugins []"

text \<open>One round of the loop over the completed futures.\<close>

definition collect ::
  "target_profile \<Rightarrow> plugin \<Rightarrow> finding list \<times> string list \<times> (string, plugin_status) dict
     \<Rightarrow> finding list \<times> string list \<times> (string, plugin_status) dict" where
  "collect p pl st =
     (case st of (findings, errors, status) \<Rightarrow>
        (case pl_execute pl p of
           Inr fs \<Rightarrow> (findings @ fs, errors, dict_set (pl_name pl) (PluginSuccess (length fs)) status)
         | Inl e \<Rightarrow> (findings, errors @ [''Plugin '' @ pl_name pl @ '' failed: '' @ e],
                    dict_set (pl_name pl) (PluginFailed e) status)))"

definition execute_parallel ::
  "(plugin list \<Rightarrow> plugin list) \<Rightarrow> plugin list \<Rightarrow> target_profile \<Rightarrow> scan_report \<Rightarrow> scan_report" where
  "execute_parallel order plugins p r =
     (case fold (collect p) (order plugins)
             (sr_findings r, sr_errors r, fold (\<lambda>pl. dict_set (pl_name pl) PluginRunning) plugins []) of
        (findings, errors, status) \<Rightarrow>
          r\<lparr>sr_findings := findings, sr_errors := errors, sr_plugin_execution := status\<rparr>)"

definition add_skipped :: "(string, plugin_status) dict \<Rightarrow> (string, plugin_status) dict \<Rightarrow> (string, plugin_status) dict" where
  "add_skipped skipped status =
     fold (\<lambda>(name, s) d. if name \<in> set (dict_keys d) then d else dict_set name s d) skipped status"

definition new_report :: "string \<Rightarrow> string \<Rightarrow> string \<Rightarrow> scan_report" where
  "new_report target mode started =
     \<lparr>sr_target = target, sr_mode = mode, sr_started_at = started, sr_finished_at = [], sr_findings = [],
      sr_errors = [], sr_plugin_execution = []\<rparr>"

text \<open>
  \<open>ScanEngine.run\<close>; the pool raises when it is asked for less than one worker, and \<open>started\<close> and \<open>finished\<close> are
  what the clock shows.
\<close>

definition engine_run ::
  "(plugin list \<Rightarrow> plugin list) \<Rightarrow> int \<Rightarrow> string \<Rightarrow> string \<Rightarrow> plugin list \<Rightarrow> target_profile \<Rightarrow> scan_report py" where
  "engine_run order max_workers started finished plugins p =
     (let report = new_report (target_text p) (tp_mode p) started;
          applicable = select_plugins plugins p;
          skipped = skipped_statuses plugins p
      in if applicable = [] then
           Inr (report\<lparr>sr_errors := [''No applicable plugins found for this target.''],
                       sr_plugin_execution := skipped, sr_finished_at := finished\<rparr>)
         else if max_workers \<le> 0 then Inl (ValueError ''max_workers must be greater than 0'')
         else
           let r = execute_parallel order applicable p report;
               r = r\<lparr>sr_plugin_execution := add_skipped skipped (sr_plugin_execution r)\<rparr>
           in Inr ((sort_by_severity (deduplicate r))\<lparr>sr_finished_at := finished\<rparr>))"

end
