(* ===== verification/SecurityCli.thy ===== *)
theory SecurityCli
  imports Security CommentsReport
begin

text \<open>
  The security toolkit from its arguments to its exit code: the profile of a target (\<open>core/profiler.py\<close>), the
  three commands and the merge of their reports (\<open>cli.py\<close>), and where the two report files go
  (\<open>reporting/json_report.py\<close>, \<open>reporting/markdown_report.py\<close>). Directories are trees without links whose entries
  can all be listed; Docker answers through an argument.
\<close>

section \<open>Languages and marker files\<close>

definition language_indicators :: "(string, string list) dict" where
  "language_indicators =
     [(''python'', [''pyproject.toml'', ''setup.py'', ''setup.cfg'', ''Pipfile'', ''Pipfile.lock'', ''requirements.txt'', ''poetry.lock'', ''*.py'']),
      (''javascript'', [''package.json'', ''package-lock.json'', ''yarn.lock'', ''*.js'', ''*.jsx'', ''*.mjs'', ''*.cjs'']),
      (''typescript'', [''tsconfig.json'', ''*.ts'', ''*.tsx'']),
      (''go'', [''go.mod'', ''go.sum'', ''*.go'']),
      (''rust'', [''Cargo.toml'', ''Cargo.lock'', ''*.rs'']),
      (''c'', [''*.c'', ''*.h'', ''Makefile'', ''CMakeLists.txt'']),
      (''cpp'', [''*.cpp'', ''*.cc'', ''*.cxx'', ''*.hpp'']),
      (''java'', [''pom.xml'', ''build.gradle'', ''build.gradle.kts'', ''*.java'']),
      (''ruby'', [''Gemfile'', ''Gemfile.lock'', ''*.rb'']),
      (''php'', [''composer.json'', ''composer.lock'', ''*.php'']),
      (''csharp'', [''*.csproj'', ''*.sln'', ''*.cs'']),
      (''kotlin'', [''*.kt'', ''*.kts'']),
      (''scala'', [''*.scala'', ''build.sbt'']),
      (''swift'', [''*.swift'', ''Package.swift'']),
      (''bash'', [''*.sh'', ''*.bash'']),
      (''dart'', [''*.dart'', ''pubspec.yaml'']),
      (''elixir'', [''*.ex'', ''*.exs'', ''mix.exs'']),
      (''haskell'', [''*.hs'', ''stack.yaml'', ''*.cabal'']),
      (''lua'', [''*.lua'']),
      (''perl'', [''*.pl'', ''*.pm'']),
      (''r'', [''*.R'', ''*.r'', ''DESCRIPTION'']),
      (''objective-c'', [''*.m'', ''*.mm'']),
      (''powershell'', [''*.ps1'', ''*.psm1'']),
      (''groovy'', [''*.groovy'', ''Jenkinsfile'']),
      (''terraform'', [''*.tf'', ''*.tfvars''])]"

definition entry_name :: "entry \<Rightarrow> string" where
  "entry_name e = (case e of FileEntry n c \<Rightarrow> n | DirEntry n sub \<Rightarrow> n)"

definition matches_pattern :: "string \<Rightarrow> string \<Rightarrow> bool" where
  "matches_pattern name pattern =
     (if startswith pattern ''*'' then endswith name (tl pattern) else name = pattern)"

definition add_languages :: "string \<Rightarrow> string list \<Rightarrow> string list" where
  "add_languages name detected =
     fold (\<lambda>(lang, indicators) d.
             if lang \<in> set d then d
             else if list_ex (matches_pattern name) indicators then d @ [lang] else d)
       language_indicators detected"

text \<open>\<open>_scan\<close>; the first argument is the number of levels left, \<open>max_depth + 1 - depth\<close>.\<close>

primrec scan_languages :: "nat \<Rightarrow> entry list \<Rightarrow> string list \<Rightarrow> string list" where
  "scan_languages 0 es d = d"
| "scan_languages (Suc n) es d =
     fold (\<lambda>e d.
             let d = add_languages (entry_name e) d
             in case e of
                  FileEntry f c \<Rightarrow> d
                | DirEntry f sub \<Rightarrow> if startswith f ''.'' then d else scan_languages n sub d)
       es d"

definition max_depth :: nat where
  "max_depth = 3"

definition detect_languages :: "entry list \<Rightarrow> string list" where
  "detect_languages es = scan_languages (Suc max_depth) es []"

primrec scan_file :: "string list \<Rightarrow> nat \<Rightarrow> entry list \<Rightarrow> bool" where
  "scan_file names 0 es = False"
| "scan_file names (Suc n) es =
     list_ex (\<lambda>e. entry_name e \<in> set names
                  \<or> (case e of FileEntry f c \<Rightarrow> False
                              | DirEntry f sub \<Rightarrow> \<not> startswith f ''.'' \<and> scan_file names n sub))
       es"

definition has_file :: "string list \<Rightarrow> entry list \<Rightarrow> bool" where
  "has_file names es = scan_file names (Suc max_depth) es"

section \<open>Ports\<close>

text \<open>
  \<open>_detect_exposed_ports\<close>, for what Docker printed (\<open>None\<close> when the call fails), and the port of a URL as
  \<open>urllib.parse\<close> reads it on ASCII text; \<open>ip_ok\<close> is its check of a host in brackets.
\<close>

definition token_port :: "string \<Rightarrow> int option" where
  "token_port token =
     (let ds = takeWhile is_digit token in if ds = [] then None else py_int10 ds)"

definition exposed_ports :: "string option \<Rightarrow> int list" where
  "exposed_ports out =
     (case out of None \<Rightarrow> [] | Some text \<Rightarrow> sort (List.map_filter token_port (split_ws (str_strip text))))"

definition clean_url :: "string \<Rightarrow> string" where
  "clean_url url =
     filter (\<lambda>c. c \<notin> {CHR 0x09, CHR 0x0A, CHR 0x0D}) (dropWhile (\<lambda>c. (of_char c :: nat) \<le> 32) url)"

definition split_scheme :: "string \<Rightarrow> string \<times> string" where
  "split_scheme url =
     (let head = takeWhile (\<lambda>c. c \<noteq> CHR '':'') url
      in if CHR '':'' \<in> set url \<and> head \<noteq> [] \<and> is_alpha (hd head)
            \<and> list_all (\<lambda>c. is_alnum c \<or> c \<in> {CHR ''+'', CHR ''-'', CHR ''.''}) head
         then (str_lower head, drop (Suc (length head)) url) else ([], url))"

definition url_netloc :: "string \<Rightarrow> string" where
  "url_netloc rest =
     (if startswith rest ''//''
      then takeWhile (\<lambda>c. c \<notin> {CHR ''/'', CHR ''?'', CHR ''#''}) (drop 2 rest) else [])"

definition after_char :: "char \<Rightarrow> string \<Rightarrow> string" where
  "after_char c s = tl (dropWhile (\<lambda>x. x \<noteq> c) s)"

definition before_char :: "char \<Rightarrow> string \<Rightarrow> string" where
  "before_char c s = takeWhile (\<lambda>x. x \<noteq> c) s"

definition port_text :: "string \<Rightarrow> string" where
  "port_text netloc =
     (let hostinfo = rev (before_char (CHR ''@'') (rev netloc))
      in if CHR 0x5B \<in> set hostinfo
         then after_char (CHR '':'') (after_char (CHR 0x5D) (after_char (CHR 0x5B) hostinfo))
         else after_char (CHR '':'') hostinfo)"

definition netloc_ok :: "(string \<Rightarrow> bool) \<Rightarrow> string \<Rightarrow> bool" where
  "netloc_ok ip_ok netloc \<longleftrightarrow>
     (CHR 0x5B \<in> set netloc \<longleftrightarrow> CHR 0x5D \<in> set netloc)
     \<and> (CHR 0x5B \<in> set netloc \<longrightarrow> ip_ok (before_char (CHR 0x5D) (after_char (CHR 0x5B) netloc)))"

definition parsed_port :: "string \<Rightarrow> int option py" where
  "parsed_port netloc =
     (let t = port_text netloc
      in if t = [] then Inr None
         else if \<not> list_all is_digit t then Inl (ValueError ''Port could not be cast to integer value'')
         else case py_int10 t of
                None \<Rightarrow> Inl (ValueError ''Port could not be cast to integer value'')
              | Some n \<Rightarrow> if n \<le> 65535 then Inr (Some n) else Inl (ValueError ''Port out of range 0-65535''))"

definition port_from_url :: "(string \<Rightarrow> bool) \<Rightarrow> string \<Rightarrow> int py" where
  "port_from_url ip_ok url =
     (case split_scheme (clean_url url) of (scheme, rest) \<Rightarrow>
        let netloc = url_netloc rest
        in if \<not> netloc_ok ip_ok netloc then Inl (ValueError ''Invalid IPv6 URL'')
           else py_bind (parsed_port netloc) (\<lambda>port.
             Inr (case port of
                    Some n \<Rightarrow> if n \<noteq> 0 then n else if scheme = ''https'' then 443 else 80
                  | None \<Rightarrow> if scheme = ''https'' then 443 else 80)))"

section \<open>Profiles\<close>

text \<open>The directory at an absolute path, what exists there, and what Docker prints for an image.\<close>

record world =
  w_cwd :: string
  w_dir :: "string \<Rightarrow> entry list option"
  w_exists :: "string \<Rightarrow> bool"
  w_docker_ports :: "string \<Rightarrow> string option"
  w_ip_ok :: "string \<Rightarrow> bool"

definition runtime_profile :: "string option \<Rightarrow> int option \<Rightarrow> string option \<Rightarrow> int list \<Rightarrow> target_profile" where
  "runtime_profile img pid url ports =
     \<lparr>tp_mode = ''runtime'', tp_path = None, tp_image = img, tp_pid = pid, tp_service_url = url,
      tp_languages = [], tp_has_docker = False, tp_has_k8s = False, tp_has_terraform = False,
      tp_exposed_ports = ports\<rparr>"

definition source_profile :: "string \<Rightarrow> entry list \<Rightarrow> target_profile" where
  "source_profile path es =
     \<lparr>tp_mode = ''source'', tp_path = Some path, tp_image = None, tp_pid = None, tp_service_url = None,
      tp_languages = detect_languages es,
      tp_has_docker = has_file [''Dockerfile'', ''dockerfile'', ''Containerfile''] es,
      tp_has_k8s = has_file [''deployment.yaml'', ''deployment.yml'', ''service.yaml'', ''service.yml'',
                             ''kustomization.yaml'', ''kustomization.yml'', ''Chart.yaml''] es,
      tp_has_terraform = has_file [''main.tf'', ''variables.tf'', ''terraform.tf''] es, tp_exposed_ports = []\<rparr>"

definition profile_target ::
  "world \<Rightarrow> string option \<Rightarrow> string option \<Rightarrow> int option \<Rightarrow> string option \<Rightarrow> target_profile py" where
  "profile_target w target img pid url =
     (if target = None \<and> img = None \<and> pid = None \<and> url = None
      then Inl (ValueError ''At least one of target (path), image, pid, or url must be provided.'')
      else case (target, img, pid, url) of
        (Some t, None, None, None) \<Rightarrow>
          let path = abs_path (w_cwd w) t
          in (case w_dir w path of
                None \<Rightarrow> Inl (ValueError (''Target path is not a directory: '' @ path))
              | Some es \<Rightarrow> Inr (source_profile path es))
      | (None, Some i, None, u) \<Rightarrow> Inr (runtime_profile (Some i) None u (exposed_ports (w_docker_ports w i)))
      | (None, None, None, Some u) \<Rightarrow>
          py_bind (port_from_url (w_ip_ok w) u) (\<lambda>port.
            Inr (runtime_profile None None (Some u) (if port \<noteq> 0 then [port] else [])))
      | (None, None, Some n, None) \<Rightarrow> Inr (runtime_profile None (Some n) None [])
      | _ \<Rightarrow> Inl (ValueError ''Unsupported target combination.''))"

section \<open>Commands\<close>

datatype command =
    Scan string
  | Inspect "string option" "int option" "string option"
  | FullScan string "string option" "string option"

text \<open>
  The ways \<open>main\<close> ends before the report is printed: a usage error, a \<open>ValueError\<close>, or a report. The argument
  \<open>clock\<close> gives the time of each call of \<open>now\<close>, \<open>order\<close> the completion order of the threads of a run.
\<close>

datatype cli_outcome = UsageError | ProfilingFailed py_error | Reported scan_report

definition outcome_of :: "scan_report py \<Rightarrow> cli_outcome" where
  "outcome_of r = (case r of Inl e \<Rightarrow> ProfilingFailed e | Inr rep \<Rightarrow> Reported rep)"

definition merge_execution :: "(string, plugin_status) dict \<Rightarrow> (string, plugin_status) dict \<Rightarrow> (string, plugin_status) dict" where
  "merge_execution src runtime =
     fold (\<lambda>(name, info) d.
             case dict_get d name of
               None \<Rightarrow> dict_set name info d
             | Some (PluginSkipped reason) \<Rightarrow> dict_set name info d
             | Some s \<Rightarrow> d)
       runtime src"

definition merge_reports :: "string \<Rightarrow> string \<Rightarrow> string \<Rightarrow> scan_report \<Rightarrow> scan_report \<Rightarrow> scan_report" where
  "merge_reports target label finished a b =
     sort_by_severity (deduplicate
       \<lparr>sr_target = target @ '' + '' @ label, sr_mode = ''full'', sr_started_at = sr_started_at a,
        sr_finished_at = finished, sr_findings = sr_findings a @ sr_findings b,
        sr_errors = sr_errors a @ sr_errors b,
        sr_plugin_execution = merge_execution (sr_plugin_execution a) (sr_plugin_execution b)\<rparr>)"

definition no_text :: "string option \<Rightarrow> bool" where
  "no_text s \<longleftrightarrow> str_or s = None"

definition run_command ::
  "world \<Rightarrow> (target_profile \<Rightarrow> plugin list \<Rightarrow> plugin list) \<Rightarrow> (nat \<Rightarrow> string) \<Rightarrow> int \<Rightarrow> plugin list \<Rightarrow> command
     \<Rightarrow> cli_outcome" where
  "run_command w order clock workers plugins cmd =
     (let run = (\<lambda>i p. engine_run (order p) workers (clock i) (clock (Suc i)) plugins p)
      in case cmd of
        Scan t \<Rightarrow> outcome_of (py_bind (profile_target w (Some t) None None None) (run 0))
      | Inspect img pid url \<Rightarrow>
          if no_text img \<and> (pid = None \<or> pid = Some 0) \<and> no_text url then UsageError
          else outcome_of (py_bind (profile_target w None img pid url) (run 0))
      | FullScan t img url \<Rightarrow>
          if no_text img \<and> no_text url then UsageError
          else outcome_of
            (py_bind (profile_target w (Some t) None None None) (\<lambda>sp.
             py_bind (run 0 sp) (\<lambda>a.
             py_bind (profile_target w None img None url) (\<lambda>rp.
             py_bind (run 2 rp) (\<lambda>b.
               let label = (case str_or img of Some i \<Rightarrow> i | None \<Rightarrow> (case url of Some u \<Rightarrow> u | None \<Rightarrow> ''None''))
               in Inr (merge_reports t label (clock 4) a b)))))))"

definition fail_on_map :: "(string, severity) dict" where
  "fail_on_map = [(''critical'', CRITICAL), (''high'', HIGH), (''medium'', MEDIUM), (''low'', LOW), (''info'', INFO)]"

definition fail_threshold :: "string \<Rightarrow> severity" where
  "fail_threshold fail_on = (case dict_get fail_on_map fail_on of None \<Rightarrow> HIGH | Some s \<Rightarrow> s)"

definition exit_code :: "string \<Rightarrow> cli_outcome \<Rightarrow> nat" where
  "exit_code fail_on out =
     (case out of
        Reported r \<Rightarrow> if list_ex (\<lambda>f. fail_threshold fail_on \<le> fn_severity f) (sr_findings r) then 1 else 0
      | _ \<Rightarrow> 2)"

section \<open>Report files\<close>

definition is_dir :: "world \<Rightarrow> string \<Rightarrow> bool" where
  "is_dir w p \<longleftrightarrow> w_dir w (abs_path (w_cwd w) p) \<noteq> None"

definition path_stem :: "string \<Rightarrow> string" where
  "path_stem p = (let name = path_name p in take (length name - length (path_suffix p)) name)"

text \<open>\<open>p.with_suffix(s)\<close>, and \<open>p.parent / name\<close>, for a path with a name.\<close>

definition with_name :: "string \<Rightarrow> string \<Rightarrow> string" where
  "with_name p name = take (length p - length (path_name p)) p @ name"

definition with_suffix :: "string \<Rightarrow> string \<Rightarrow> string" where
  "with_suffix p s = with_name p (path_stem p @ s)"

text \<open>The two paths \<open>main\<close> derives from \<open>--output\<close>.\<close>

definition report_paths :: "world \<Rightarrow> string \<Rightarrow> string \<times> string" where
  "report_paths w output =
     (let p = parts_path (path_parts output);
          json_path = (if is_dir w p then path_join p ''report.json''
                       else if path_suffix p = [] then with_suffix p ''.json'' else p)
      in (json_path, with_name json_path (path_stem json_path @ ''.md'')))"

text \<open>Where a report is written, for the default name and the suffix of its format.\<close>

definition report_target :: "world \<Rightarrow> string \<Rightarrow> string \<Rightarrow> string \<Rightarrow> string" where
  "report_target w name suffix output =
     (let p = abs_path (w_cwd w) output
      in if w_dir w p \<noteq> None \<or> (path_suffix p = [] \<and> \<not> w_exists w p) then path_join p name
         else if path_suffix p = [] then with_suffix p suffix
         else p)"

definition report_files :: "world \<Rightarrow> string \<Rightarrow> string \<times> string" where
  "report_files w output =
     (case report_paths w output of (json_path, md_path) \<Rightarrow>
        (report_target w ''report.json'' ''.json'' json_path, report_target w ''report.md'' ''.md'' md_path))"

end
