(* ===== verification/SecurityFacts.thy ===== *)
theory SecurityFacts
  imports SecurityCli "HOL-Library.Multiset"
begin

text \<open>
  The engine of the security toolkit: deduplication keeps one finding per fingerprint, of the highest severity
  (\<open>deduplicated_*\<close>); a report accounts for every plugin; and nothing a reader acts on depends on the order in
  which the threads complete.
\<close>

section \<open>Deduplication\<close>

lemma dict_dom_set: "fst ` set (dict_set k v d) = insert k (fst ` set d)"
  using arg_cong [OF dict_keys_set [of k v d], of set] by (auto split: if_splits)

definition seen_ok :: "finding list \<Rightarrow> (string, finding) dict \<Rightarrow> bool" where
  "seen_ok fs d \<longleftrightarrow>
     distinct (dict_keys d) \<and> set (dict_keys d) = fn_fingerprint ` set fs
     \<and> (\<forall>k f. dict_get d k = Some f \<longrightarrow>
          f \<in> set fs \<and> fn_fingerprint f = k \<and> (\<forall>g \<in> set fs. fn_fingerprint g = k \<longrightarrow> fn_severity g \<le> fn_severity f))"

lemma seen_okI:
  assumes "distinct (dict_keys d)" "fst ` set d = fn_fingerprint ` set fs"
    and "\<And>k f. dict_get d k = Some f \<Longrightarrow> f \<in> set fs"
    and "\<And>k f. dict_get d k = Some f \<Longrightarrow> fn_fingerprint f = k"
    and "\<And>k f g. dict_get d k = Some f \<Longrightarrow> g \<in> set fs \<Longrightarrow> fn_fingerprint g = k \<Longrightarrow> fn_severity g \<le> fn_severity f"
  shows "seen_ok fs d"
  using assms unfolding seen_ok_def by (metis list.set_map)

lemma seen_okD:
  assumes "seen_ok fs d"
  shows "distinct (dict_keys d)" "fst ` set d = fn_fingerprint ` set fs"
    and "dict_get d k = Some f \<Longrightarrow> f \<in> set fs"
    and "dict_get d k = Some f \<Longrightarrow> fn_fingerprint f = k"
    and "dict_get d k = Some f \<Longrightarrow> g \<in> set fs \<Longrightarrow> fn_fingerprint g = k \<Longrightarrow> fn_severity g \<le> fn_severity f"
  using assms unfolding seen_ok_def by (metis list.set_map)+

lemma keep_finding_ok:
  assumes ok: "seen_ok fs d"
  shows "seen_ok (fs @ [f]) (keep_finding f d)"
proof (cases "dict_get d (fn_fingerprint f)")
  case None
  then have fresh: "fn_fingerprint f \<notin> fn_fingerprint ` set fs"
    using seen_okD(2) [OF ok] by (simp add: map_of_eq_None_iff)
  have kf: "keep_finding f d = dict_set (fn_fingerprint f) f d" using None by (simp add: keep_finding_def)
  show ?thesis
  proof (rule seen_okI)
    show "distinct (dict_keys (keep_finding f d))" using seen_okD(1) [OF ok] by (simp add: kf)
    show "fst ` set (keep_finding f d) = fn_fingerprint ` set (fs @ [f])"
      using seen_okD(2) [OF ok] by (simp add: kf dict_dom_set)
    fix k h assume h: "dict_get (keep_finding f d) k = Some h"
    show "h \<in> set (fs @ [f])" and "fn_fingerprint h = k"
      using h seen_okD(3,4) [OF ok, of k h] by (auto simp: kf dict_get_set simp del: map_of_eq_Some_iff split: if_splits)
    fix g assume "g \<in> set (fs @ [f])" "fn_fingerprint g = k"
    then show "fn_severity g \<le> fn_severity h"
      using h fresh seen_okD(5) [OF ok, of k h g]
      by (cases "k = fn_fingerprint f") (auto simp: kf dict_get_set image_iff simp del: map_of_eq_Some_iff split: if_splits)
  qed
next
  case (Some e)
  note e = seen_okD(3-5) [OF ok Some]
  have kf: "keep_finding f d = (if fn_severity e < fn_severity f then dict_set (fn_fingerprint f) f d else d)"
    using Some by (simp add: keep_finding_def)
  have dom: "fn_fingerprint f \<in> fst ` set d" using Some by (metis map_of_eq_None_iff option.distinct(1))
  show ?thesis
  proof (rule seen_okI)
    show "distinct (dict_keys (keep_finding f d))" using seen_okD(1) [OF ok] by (simp add: kf)
    show "fst ` set (keep_finding f d) = fn_fingerprint ` set (fs @ [f])"
      using seen_okD(2) [OF ok] dom by (simp add: kf dict_dom_set insert_absorb)
    fix k h assume h: "dict_get (keep_finding f d) k = Some h"
    show "h \<in> set (fs @ [f])" and "fn_fingerprint h = k"
      using h seen_okD(3,4) [OF ok, of k h] by (auto simp: kf dict_get_set simp del: map_of_eq_Some_iff split: if_splits)
    fix g assume g: "g \<in> set (fs @ [f])" "fn_fingerprint g = k"
    show "fn_severity g \<le> fn_severity h"
    proof (cases "k = fn_fingerprint f")
      case True
      have "h = (if fn_severity e < fn_severity f then f else e)"
        using h Some True by (simp add: kf dict_get_set del: map_of_eq_Some_iff split: if_splits)
      then show ?thesis using g True e(3) [of g] by (auto simp: not_less)
    next
      case False
      then have "dict_get d k = Some h"
        using h by (simp add: kf dict_get_set del: map_of_eq_Some_iff split: if_splits)
      then show ?thesis using g False seen_okD(5) [OF ok, of k h g] by auto
    qed
  qed
qed

lemma keep_findings_ok: "seen_ok fs (fold keep_finding fs [])"
proof (induction fs rule: rev_induct)
  case Nil
  show ?case by (simp add: seen_ok_def)
next
  case (snoc f fs)
  then show ?case by (simp add: keep_finding_ok)
qed

lemma deduplicated_entry:
  "f \<in> set (deduplicated fs) \<longleftrightarrow> dict_get (fold keep_finding fs []) (fn_fingerprint f) = Some f"
proof -
  let ?d = "fold keep_finding fs []"
  note ok = keep_findings_ok [of fs]
  have get: "dict_get ?d k = Some g \<longleftrightarrow> (k, g) \<in> set ?d" for k g
    using seen_okD(1) [OF ok] by (rule map_of_eq_Some_iff)
  show ?thesis
  proof
    assume "f \<in> set (deduplicated fs)"
    then obtain k where "(k, f) \<in> set ?d" by (auto simp: deduplicated_def)
    then have "dict_get ?d k = Some f" unfolding get .
    with seen_okD(4) [OF ok this] show "dict_get ?d (fn_fingerprint f) = Some f" by simp
  next
    assume "dict_get ?d (fn_fingerprint f) = Some f"
    then show "f \<in> set (deduplicated fs)" unfolding get deduplicated_def by force
  qed
qed

lemma deduplicated_subset: "f \<in> set (deduplicated fs) \<Longrightarrow> f \<in> set fs"
  unfolding deduplicated_entry by (rule seen_okD(3) [OF keep_findings_ok])

lemma deduplicated_worst:
  "f \<in> set (deduplicated fs) \<Longrightarrow> g \<in> set fs \<Longrightarrow> fn_fingerprint g = fn_fingerprint f
     \<Longrightarrow> fn_severity g \<le> fn_severity f"
  unfolding deduplicated_entry by (rule seen_okD(5) [OF keep_findings_ok])

lemma deduplicated_fingerprints:
  "map fn_fingerprint (deduplicated fs) = dict_keys (fold keep_finding fs [])"
proof -
  let ?d = "fold keep_finding fs []"
  note ok = keep_findings_ok [of fs]
  have "fn_fingerprint (snd e) = fst e" if "e \<in> set ?d" for e
    using seen_okD(4) [OF ok, of "fst e" "snd e"] seen_okD(1) [OF ok] that by (metis map_of_is_SomeI prod.collapse)
  then show ?thesis by (simp add: deduplicated_def)
qed

lemma deduplicated_distinct: "distinct (map fn_fingerprint (deduplicated fs))"
  unfolding deduplicated_fingerprints by (rule seen_okD(1) [OF keep_findings_ok])

lemma deduplicated_all: "fn_fingerprint ` set (deduplicated fs) = fn_fingerprint ` set fs"
  using arg_cong [OF deduplicated_fingerprints [of fs], of set] seen_okD(2) [OF keep_findings_ok [of fs]] by simp

text \<open>What a reader sees of a finding when only its fingerprint and its severity count.\<close>

definition mark :: "finding \<Rightarrow> string \<times> severity" where
  "mark f = (fn_fingerprint f, fn_severity f)"

section \<open>Counts and verdict\<close>

lemma count_severity_fold:
  "fold count_severity fs (map (\<lambda>s. (severity_name s, n s)) severities)
     = map (\<lambda>s. (severity_name s, n s + length (filter (\<lambda>f. fn_severity f = s) fs))) severities"
proof (induction fs arbitrary: n)
  case (Cons f fs)
  have "count_severity f (map (\<lambda>s. (severity_name s, n s)) severities)
      = map (\<lambda>s. (severity_name s, n s + (if fn_severity f = s then 1 else 0))) severities"
    by (cases "fn_severity f") (simp_all add: count_severity_def severities_def)
  then show ?case by (simp add: Cons)
qed (simp add: severities_def)

lemma severity_counts_table:
  "severity_counts r =
     map (\<lambda>s. (severity_name s, length (filter (\<lambda>f. fn_severity f = s) (sr_findings r)))) severities"
  unfolding severity_counts_def using count_severity_fold [of "sr_findings r" "\<lambda>_. 0"] by simp

lemma count_by_marks:
  "length (filter (\<lambda>f. fn_severity f = s) fs) = size (filter_mset (\<lambda>m. snd m = s) (image_mset mark (mset fs)))"
  by (simp add: filter_mset_image_mset mark_def flip: mset_filter size_mset)

lemma worst_by_marks: "list_ex (\<lambda>f. t \<le> fn_severity f) fs \<longleftrightarrow> (\<exists>m \<in># image_mset mark (mset fs). t \<le> snd m)"
  by (auto simp: list_ex_iff mark_def)

lemma report_by_marks:
  assumes "image_mset mark (mset (sr_findings r)) = image_mset mark (mset (sr_findings r'))"
  shows "severity_counts r = severity_counts r'" and "scan_verdict r = scan_verdict r'"
proof -
  show "severity_counts r = severity_counts r'"
    unfolding severity_counts_table count_by_marks assms ..
  have "sr_findings r = [] \<longleftrightarrow> sr_findings r' = []"
    using arg_cong [OF assms, of size] by (metis length_0_conv size_image_mset size_mset)
  then show "scan_verdict r = scan_verdict r'"
    unfolding scan_verdict_def worst_by_marks assms by simp
qed

section \<open>The engine\<close>

text \<open>What a plugin contributes to a scan, and the entry a report owes it.\<close>

definition found_by :: "target_profile \<Rightarrow> plugin \<Rightarrow> finding list" where
  "found_by p pl = (case pl_execute pl p of Inr fs \<Rightarrow> fs | Inl e \<Rightarrow> [])"

definition error_of :: "target_profile \<Rightarrow> plugin \<Rightarrow> string list" where
  "error_of p pl =
     (case pl_execute pl p of Inr fs \<Rightarrow> [] | Inl e \<Rightarrow> [''Plugin '' @ pl_name pl @ '' failed: '' @ e])"

definition run_status :: "target_profile \<Rightarrow> plugin \<Rightarrow> plugin_status" where
  "run_status p pl = (case pl_execute pl p of Inr fs \<Rightarrow> PluginSuccess (length fs) | Inl e \<Rightarrow> PluginFailed e)"

definition status_due :: "target_profile \<Rightarrow> plugin \<Rightarrow> plugin_status" where
  "status_due p pl =
     (if tp_mode p \<notin> set (pl_scan_modes pl) then PluginSkipped (mode_reason p)
      else if pl_can_handle pl p \<noteq> Some True then PluginSkipped target_reason
      else run_status p pl)"

definition findings_due :: "target_profile \<Rightarrow> plugin list \<Rightarrow> finding set" where
  "findings_due p plugins = (\<Union>pl \<in> {pl \<in> set plugins. is_applicable p pl}. set (found_by p pl))"

lemma collect_fold:
  "fold (collect p) pls (fs, es, st) =
     (fs @ concat (map (found_by p) pls), es @ concat (map (error_of p) pls),
      fold (\<lambda>pl. dict_set (pl_name pl) (run_status p pl)) pls st)"
  by (induction pls arbitrary: fs es st)
     (simp_all add: collect_def found_by_def error_of_def run_status_def split: sum.splits)

lemma status_fold_get:
  "distinct (map pl_name pls) \<Longrightarrow>
     dict_get (fold (\<lambda>pl. dict_set (pl_name pl) (g pl)) pls d) k =
       (case find (\<lambda>pl. pl_name pl = k) pls of Some pl \<Rightarrow> Some (g pl) | None \<Rightarrow> dict_get d k)"
proof (induction pls arbitrary: d)
  case (Cons pl pls)
  have "find (\<lambda>pl. pl_name pl = k) pls = None" if "pl_name pl = k"
    using Cons.prems that by (auto simp: find_None_iff image_iff)
  with Cons show ?case by (auto simp: dict_get_set split: option.splits)
qed simp

lemma status_fold_keys:
  "set (dict_keys (fold (\<lambda>pl. dict_set (pl_name pl) (g pl)) pls d)) = set (dict_keys d) \<union> pl_name ` set pls"
  by (induction pls arbitrary: d) (auto simp: dict_dom_set)

lemma status_fold_distinct:
  "distinct (dict_keys d) \<Longrightarrow> distinct (dict_keys (fold (\<lambda>pl. dict_set (pl_name pl) (g pl)) pls d))"
  by (induction pls arbitrary: d) auto

lemma find_by_name:
  "distinct (map pl_name pls) \<Longrightarrow> pl \<in> set pls \<Longrightarrow> find (\<lambda>q. pl_name q = pl_name pl) pls = Some pl"
  by (induction pls) (auto simp: image_iff)

lemma skipped_statuses_fold:
  "skipped_statuses plugins p =
     fold (\<lambda>pl. dict_set (pl_name pl) (status_due p pl)) (filter (\<lambda>pl. \<not> is_applicable p pl) plugins) []"
proof -
  have "fold (skipped_status p) plugins d =
      fold (\<lambda>pl. dict_set (pl_name pl) (status_due p pl)) (filter (\<lambda>pl. \<not> is_applicable p pl) plugins) d" for d
    by (induction plugins arbitrary: d) (auto simp: skipped_status_def status_due_def is_applicable_def)
  then show ?thesis by (simp add: skipped_statuses_def)
qed

lemma add_skipped_get:
  "dict_get (add_skipped kvs d) k = (case dict_get d k of Some s \<Rightarrow> Some s | None \<Rightarrow> dict_get kvs k)"
proof (induction kvs arbitrary: d)
  case (Cons e kvs)
  obtain name s where e: "e = (name, s)" by force
  have step: "add_skipped (e # kvs) d = add_skipped kvs (if name \<in> fst ` set d then d else dict_set name s d)"
    by (simp add: add_skipped_def e)
  show ?case
  proof (cases "name \<in> fst ` set d")
    case True
    then have "dict_get d name \<noteq> None" by (simp add: map_of_eq_None_iff)
    then show ?thesis using True unfolding step by (auto simp: Cons e split: option.splits)
  next
    case False
    then have "dict_get d name = None" by (simp add: map_of_eq_None_iff)
    then show ?thesis using False unfolding step by (auto simp: Cons e dict_get_set split: option.splits)
  qed
qed (simp add: add_skipped_def split: option.splits)

lemma add_skipped_keys: "fst ` set (add_skipped kvs d) = fst ` set d \<union> fst ` set kvs"
proof (induction kvs arbitrary: d)
  case (Cons e kvs)
  obtain name s where e: "e = (name, s)" by force
  have step: "add_skipped (e # kvs) d = add_skipped kvs (if name \<in> fst ` set d then d else dict_set name s d)"
    by (simp add: add_skipped_def e)
  show ?case unfolding step Cons by (auto simp: e dict_dom_set)
qed (simp add: add_skipped_def)

lemma add_skipped_distinct: "distinct (dict_keys d) \<Longrightarrow> distinct (dict_keys (add_skipped kvs d))"
  unfolding add_skipped_def by (induction kvs arbitrary: d) auto


text \<open>The report of a scan that runs, in one equation.\<close>

definition run_statuses :: "target_profile \<Rightarrow> plugin list \<Rightarrow> plugin list \<Rightarrow> (string, plugin_status) dict" where
  "run_statuses p applicable completed =
     fold (\<lambda>pl. dict_set (pl_name pl) (run_status p pl)) completed
       (fold (\<lambda>pl. dict_set (pl_name pl) PluginRunning) applicable [])"

lemma engine_run_eq:
  assumes "select_plugins plugins p \<noteq> []" "0 < workers"
  shows "engine_run order workers t0 t1 plugins p =
    Inr \<lparr>sr_target = target_text p, sr_mode = tp_mode p, sr_started_at = t0, sr_finished_at = t1,
         sr_findings = sort_key (\<lambda>f. - int (severity_value (fn_severity f)))
           (deduplicated (concat (map (found_by p) (order (select_plugins plugins p))))),
         sr_errors = concat (map (error_of p) (order (select_plugins plugins p))),
         sr_plugin_execution = add_skipped (skipped_statuses plugins p)
           (run_statuses p (select_plugins plugins p) (order (select_plugins plugins p)))\<rparr>"
  using assms
  by (simp add: engine_run_def execute_parallel_def collect_fold new_report_def deduplicate_def
      sort_by_severity_def run_statuses_def Let_def)

lemma engine_run_idle:
  assumes "select_plugins plugins p = []"
  shows "engine_run order workers t0 t1 plugins p =
    Inr \<lparr>sr_target = target_text p, sr_mode = tp_mode p, sr_started_at = t0, sr_finished_at = t1,
         sr_findings = [], sr_errors = [''No applicable plugins found for this target.''],
         sr_plugin_execution = skipped_statuses plugins p\<rparr>"
  using assms by (simp add: engine_run_def new_report_def)

text \<open>A pool without workers: the scan ends in the same exception as a wrong target.\<close>

lemma no_workers:
  assumes "select_plugins plugins p \<noteq> []" "workers \<le> 0"
  shows "engine_run order workers t0 t1 plugins p = Inl (ValueError ''max_workers must be greater than 0'')"
  using assms by (simp add: engine_run_def)

lemma statuses_due:
  assumes names: "distinct (map pl_name plugins)" and pl: "pl \<in> set plugins"
    and order: "set completed = set (select_plugins plugins p)" "distinct completed"
  shows "dict_get (add_skipped (skipped_statuses plugins p)
            (run_statuses p (select_plugins plugins p) completed)) (pl_name pl) = Some (status_due p pl)"
proof -
  have inj: "inj_on pl_name (set plugins)" using names by (simp add: distinct_map)
  have sub: "set completed \<subseteq> set plugins" using order(1) by (auto simp: select_plugins_def)
  have dist: "distinct (map pl_name completed)"
    using inj_on_subset [OF inj sub] order(2) by (simp add: distinct_map)
  have dist_s: "distinct (map pl_name (filter P plugins))" for P
    using names by (rule distinct_map_filter)
  show ?thesis
  proof (cases "is_applicable p pl")
    case True
    with pl have "pl \<in> set completed" by (simp add: order(1) select_plugins_def)
    then have "dict_get (run_statuses p (select_plugins plugins p) completed) (pl_name pl) = Some (run_status p pl)"
      using dist by (simp add: run_statuses_def status_fold_get find_by_name)
    then show ?thesis using True by (simp add: add_skipped_get status_due_def is_applicable_def)
  next
    case False
    have out: "find (\<lambda>q. pl_name q = pl_name pl) pls = None" if "set pls \<subseteq> {q \<in> set plugins. is_applicable p q}" for pls
      using that False pl inj by (fastforce simp: find_None_iff dest: inj_onD)
    have "dict_get (run_statuses p (select_plugins plugins p) completed) (pl_name pl) = None"
      using out [of completed] out [of "select_plugins plugins p"] dist dist_s [of "is_applicable p"] order(1)
      by (simp add: run_statuses_def status_fold_get select_plugins_def)
    moreover have "dict_get (skipped_statuses plugins p) (pl_name pl) = Some (status_due p pl)"
      using False pl dist_s [of "\<lambda>q. \<not> is_applicable p q"]
      by (simp add: skipped_statuses_fold status_fold_get find_by_name)
    ultimately show ?thesis by (simp add: add_skipped_get)
  qed
qed


lemma statuses_due_idle:
  assumes "distinct (map pl_name plugins)" "pl \<in> set plugins" "select_plugins plugins p = []"
  shows "dict_get (skipped_statuses plugins p) (pl_name pl) = Some (status_due p pl)"
proof -
  have "filter (\<lambda>pl. \<not> is_applicable p pl) plugins = plugins"
    using assms(3) by (simp add: select_plugins_def filter_empty_conv)
  then show ?thesis using assms(1,2) by (simp add: skipped_statuses_fold status_fold_get find_by_name)
qed

lemma skipped_names: "fst ` set (skipped_statuses plugins p) = pl_name ` {pl \<in> set plugins. \<not> is_applicable p pl}"
  using status_fold_keys [of "status_due p" "filter (\<lambda>pl. \<not> is_applicable p pl) plugins" "[]"]
  by (simp add: skipped_statuses_fold)

lemma run_names:
  "set completed = set applicable \<Longrightarrow> fst ` set (run_statuses p applicable completed) = pl_name ` set applicable"
  using status_fold_keys [of "run_status p" completed] status_fold_keys [of "\<lambda>_. PluginRunning" applicable "[]"]
  by (simp add: run_statuses_def)

lemma run_statuses_distinct: "distinct (dict_keys (run_statuses p applicable completed))"
  by (simp add: run_statuses_def status_fold_distinct)

lemma permuted:
  assumes "mset xs = mset ys" "distinct ys"
  shows "set xs = set ys" "distinct xs"
  using assms by (metis mset_eq_setD, metis mset_eq_imp_distinct_iff)

text \<open>A registry has one class for each name.\<close>

lemma registry_distinct: "distinct (dict_keys d) \<Longrightarrow> distinct (dict_keys (fold register_class classes d))"
  by (induction classes arbitrary: d) (auto simp: register_class_def)

lemma registry_entry:
  assumes "e \<in> set (fold register_class classes d)"
  shows "e \<in> set d \<or> (\<exists>c \<in> set classes. e = (pc_name c, c))"
  using assms
proof (induction classes arbitrary: d)
  case (Cons c classes)
  have "set (dict_set k v d) \<subseteq> insert (k, v) (set d)" for k v and d :: "(string, plugin_class) dict"
    by (induction d) auto
  then have "set (register_class c d) \<subseteq> insert (pc_name c, c) (set d)" by (auto simp: register_class_def)
  with Cons.IH [of "register_class c d"] Cons.prems show ?case by auto
qed simp

definition names_agree :: "plugin_class list \<Rightarrow> bool" where
  "names_agree classes \<longleftrightarrow> (\<forall>c \<in> set classes. \<forall>pl. pc_new c = Some pl \<longrightarrow> pl_name pl = pc_name c)"

lemma engine_plugins_distinct:
  assumes "names_agree classes"
  shows "distinct (map pl_name (engine_plugins classes))"
proof -
  let ?reg = "fold register_class classes []"
  have "distinct (dict_keys ?reg)" by (rule registry_distinct) simp
  moreover have "\<forall>e \<in> set ?reg. \<forall>pl. pc_new (snd e) = Some pl \<longrightarrow> pl_name pl = fst e"
    using registry_entry [of _ classes "[]"] assms by (force simp: names_agree_def)
  moreover have "distinct (map pl_name (instantiate_plugins reg))
      \<and> pl_name ` set (instantiate_plugins reg) \<subseteq> fst ` set reg"
    if "distinct (dict_keys reg)" "\<forall>e \<in> set reg. \<forall>pl. pc_new (snd e) = Some pl \<longrightarrow> pl_name pl = fst e" for reg
    using that
  proof (induction reg)
    case (Cons e reg)
    then show ?case
      by (cases e; cases "pc_new (snd e)") (auto simp: instantiate_plugins_def List.map_filter_simps image_iff)
  qed (simp add: instantiate_plugins_def List.map_filter_simps)
  ultimately show ?thesis unfolding engine_plugins_def by blast
qed

lemma engine_distinct: "names_agree classes \<Longrightarrow> distinct (select_plugins (engine_plugins classes) p)"
  using engine_plugins_distinct [of classes] by (simp add: select_plugins_def distinct_map)


section \<open>What a report holds\<close>

lemma engine_statuses:
  assumes "names_agree classes" "plugins = engine_plugins classes"
    and "mset (order (select_plugins plugins p)) = mset (select_plugins plugins p)" "0 < workers"
  shows "\<exists>r. engine_run order workers t0 t1 plugins p = Inr r
      \<and> distinct (dict_keys (sr_plugin_execution r))
      \<and> fst ` set (sr_plugin_execution r) = pl_name ` set plugins
      \<and> (\<forall>pl \<in> set plugins. dict_get (sr_plugin_execution r) (pl_name pl) = Some (status_due p pl))"
proof -
  have names: "distinct (map pl_name plugins)" using assms(1,2) by (simp add: engine_plugins_distinct)
  show ?thesis
  proof (cases "select_plugins plugins p = []")
    case True
    then have all: "{pl \<in> set plugins. \<not> is_applicable p pl} = set plugins"
      by (auto simp: select_plugins_def filter_empty_conv)
    show ?thesis
      using statuses_due_idle [OF names _ True] skipped_names [of plugins p]
      unfolding engine_run_idle [OF True] all
      by (simp add: skipped_statuses_fold status_fold_distinct)
  next
    case False
    have perm: "set (order (select_plugins plugins p)) = set (select_plugins plugins p)"
      "distinct (order (select_plugins plugins p))"
      using permuted [OF assms(3)] engine_distinct [OF assms(1)] assms(2) by simp_all
    have "{pl \<in> set plugins. is_applicable p pl} \<union> {pl \<in> set plugins. \<not> is_applicable p pl} = set plugins" by auto
    then have "pl_name ` {pl \<in> set plugins. is_applicable p pl} \<union> pl_name ` {pl \<in> set plugins. \<not> is_applicable p pl}
        = pl_name ` set plugins" by (metis image_Un)
    then show ?thesis
      using statuses_due [OF names _ perm] run_names [OF perm(1), of p] skipped_names [of plugins p]
      by (simp add: engine_run_eq [OF False assms(4)] add_skipped_keys add_skipped_distinct run_statuses_distinct
          select_plugins_def)
  qed
qed

lemma found_by_permuted:
  assumes "mset pls = mset (select_plugins plugins p)"
  shows "set (concat (map (found_by p) pls)) = findings_due p plugins"
  using mset_eq_setD [OF assms] by (auto simp: findings_due_def select_plugins_def)

text \<open>Each fingerprint found is reported once, by a finding of the highest severity it was found with, worst first.\<close>

definition reports_findings :: "finding list \<Rightarrow> finding set \<Rightarrow> bool" where
  "reports_findings fs due \<longleftrightarrow>
     set fs \<subseteq> due \<and> fn_fingerprint ` set fs = fn_fingerprint ` due \<and> distinct (map fn_fingerprint fs)
     \<and> (\<forall>f \<in> set fs. \<forall>g \<in> due. fn_fingerprint g = fn_fingerprint f \<longrightarrow> fn_severity g \<le> fn_severity f)
     \<and> sorted_wrt (\<lambda>f g. fn_severity g \<le> fn_severity f) fs"

lemma worst_first: "sorted_wrt (\<lambda>f g. fn_severity g \<le> fn_severity f) (sort_key (\<lambda>f. - int (severity_value (fn_severity f))) fs)"
proof -
  have "sorted (map (\<lambda>f. - int (severity_value (fn_severity f))) (sort_key (\<lambda>f. - int (severity_value (fn_severity f))) fs))"
    by simp
  then show ?thesis by (simp add: sorted_map less_eq_severity_def)
qed

lemma deduplicated_reports:
  "reports_findings (sort_key (\<lambda>f. - int (severity_value (fn_severity f))) (deduplicated fs)) (set fs)"
proof -
  have "distinct (map fn_fingerprint (sort_key k (deduplicated fs)))" for k :: "finding \<Rightarrow> int"
    using deduplicated_distinct [of fs] by (simp add: distinct_map)
  then show ?thesis
    using deduplicated_subset [of _ fs] deduplicated_worst [of _ fs] deduplicated_all [of fs] worst_first
    by (auto simp: reports_findings_def)
qed

lemma reported_worst:
  assumes "reports_findings fs due"
  shows "(\<exists>f \<in> set fs. t \<le> fn_severity f) \<longleftrightarrow> (\<exists>f \<in> due. t \<le> fn_severity f)"
proof
  assume "\<exists>f \<in> due. t \<le> fn_severity f"
  then obtain g where g: "g \<in> due" "t \<le> fn_severity g" by blast
  then have "fn_fingerprint g \<in> fn_fingerprint ` set fs" using assms by (auto simp: reports_findings_def)
  then obtain f where f: "f \<in> set fs" "fn_fingerprint g = fn_fingerprint f" by auto
  then have "fn_severity g \<le> fn_severity f" using assms g by (simp add: reports_findings_def)
  with g f show "\<exists>f \<in> set fs. t \<le> fn_severity f" by (meson order.trans)
qed (use assms in \<open>auto simp: reports_findings_def\<close>)

lemma findings_due_idle: "select_plugins plugins p = [] \<Longrightarrow> findings_due p plugins = {}"
  by (auto simp: findings_due_def select_plugins_def filter_empty_conv)

lemma engine_findings:
  assumes run: "engine_run order workers t0 t1 plugins p = Inr r"
    and order: "mset (order (select_plugins plugins p)) = mset (select_plugins plugins p)"
  shows "reports_findings (sr_findings r) (findings_due p plugins)"
proof (cases "select_plugins plugins p = []")
  case True
  then have "sr_findings r = []" using run engine_run_idle [OF True] by auto
  then show ?thesis using findings_due_idle [OF True] by (simp add: reports_findings_def)
next
  case False
  then have w: "0 < workers" using run by (auto simp: engine_run_def Let_def split: if_splits)
  show ?thesis
    using run deduplicated_reports [of "concat (map (found_by p) (order (select_plugins plugins p)))"]
      found_by_permuted [OF order] unfolding engine_run_eq [OF False w] by auto
qed

lemma engine_errors:
  assumes run: "engine_run order workers t0 t1 plugins p = Inr r"
    and order: "mset (order (select_plugins plugins p)) = mset (select_plugins plugins p)"
    and some: "select_plugins plugins p \<noteq> []"
  shows "mset (sr_errors r) = mset (concat (map (error_of p) (select_plugins plugins p)))"
proof -
  have w: "0 < workers" using run some by (auto simp: engine_run_def Let_def split: if_splits)
  have "mset (concat (map g xs)) = (\<Sum>x \<in># mset xs. mset (g x))" for g :: "plugin \<Rightarrow> string list" and xs
    by (induction xs) auto
  then show ?thesis using run unfolding engine_run_eq [OF some w] by (auto simp: order)
qed

lemma reported_marks:
  assumes "reports_findings fs due" "reports_findings gs due"
  shows "image_mset mark (mset fs) = image_mset mark (mset gs)"
proof -
  have sub: "mark ` set fs \<subseteq> mark ` set gs" if "reports_findings fs due" "reports_findings gs due" for fs gs
  proof
    fix m assume "m \<in> mark ` set fs"
    then obtain f where f: "f \<in> set fs" "m = mark f" by auto
    then have "fn_fingerprint f \<in> fn_fingerprint ` set gs" using that by (auto simp: reports_findings_def)
    then obtain g where g: "g \<in> set gs" "fn_fingerprint f = fn_fingerprint g" by auto
    have "fn_severity f = fn_severity g"
      using f g that by (intro order.antisym) (auto simp: reports_findings_def subset_iff)
    then have "m = mark g" using f g by (simp add: mark_def)
    with g show "m \<in> mark ` set gs" by simp
  qed
  have dist: "distinct (map mark fs)" if "reports_findings fs due" for fs
  proof -
    have "map fn_fingerprint fs = map fst (map mark fs)" by (simp add: mark_def)
    then show ?thesis using that by (metis distinct_map reports_findings_def)
  qed
  have "set (map mark fs) = set (map mark gs)"
    using sub [OF assms] sub [OF assms(2,1)] by auto
  then show ?thesis using dist [OF assms(1)] dist [OF assms(2)] by (metis mset_map set_eq_iff_mset_eq_distinct)
qed


lemma engine_entries:
  assumes names: "names_agree classes" and ps: "ps = engine_plugins classes"
    and perm: "mset (order (select_plugins ps p)) = mset (select_plugins ps p)"
    and run: "engine_run order workers t0 t1 ps p = Inr r"
  shows "mset (sr_plugin_execution r) = mset (map (\<lambda>pl. (pl_name pl, status_due p pl)) ps)"
proof -
  let ?es = "map (\<lambda>pl. (pl_name pl, status_due p pl)) ps"
  have "engine_run order (if 0 < workers then workers else 1) t0 t1 ps p = Inr r"
    using run engine_run_idle [of ps p] by (auto simp: engine_run_def Let_def split: if_splits)
  then have d: "distinct (dict_keys (sr_plugin_execution r))"
    and dom: "fst ` set (sr_plugin_execution r) = pl_name ` set ps"
    and get: "pl \<in> set ps \<Longrightarrow> dict_get (sr_plugin_execution r) (pl_name pl) = Some (status_due p pl)" for pl
    using engine_statuses [OF names ps, of order p "if 0 < workers then workers else 1" t0 t1] perm by auto
  have "e \<in> set (sr_plugin_execution r) \<longleftrightarrow> e \<in> set ?es" for e
  proof
    assume e: "e \<in> set (sr_plugin_execution r)"
    then obtain pl where "pl \<in> set ps" "fst e = pl_name pl" using dom by force
    moreover have "dict_get (sr_plugin_execution r) (fst e) = Some (snd e)" using d e by (simp add: map_of_is_SomeI)
    ultimately have "e = (pl_name pl, status_due p pl)" using get [of pl] by (cases e) simp
    then show "e \<in> set ?es" using \<open>pl \<in> set ps\<close> by simp
  next
    assume "e \<in> set ?es"
    then show "e \<in> set (sr_plugin_execution r)" using get by (auto simp del: map_of_eq_Some_iff dest: map_of_SomeD)
  qed
  moreover have "distinct (sr_plugin_execution r)" using d by (simp add: distinct_map)
  moreover have "distinct ?es" using engine_plugins_distinct [OF names] by (simp add: ps distinct_map inj_on_def)
  ultimately show ?thesis by (intro set_eq_iff_mset_eq_distinct [THEN iffD1]) auto
qed

text \<open>
  C36. A scan gives each plugin of the registry exactly one entry in its report: skipped for its mode, skipped because
  it does not handle the target, failed with its exception, or executed with the number of its findings; and the
  findings of the report are those the executed plugins returned, one for each fingerprint, of the highest severity
  it was found with, the worst first. This holds for every order in which the threads complete.
\<close>

theorem scan_report_accounts:
  assumes "names_agree classes" "0 < workers"
    and "mset (order (select_plugins (engine_plugins classes) p)) = mset (select_plugins (engine_plugins classes) p)"
  shows "\<exists>r. engine_run order workers started finished (engine_plugins classes) p = Inr r
      \<and> distinct (dict_keys (sr_plugin_execution r))
      \<and> set (dict_keys (sr_plugin_execution r)) = pl_name ` set (engine_plugins classes)
      \<and> (\<forall>pl \<in> set (engine_plugins classes).
            dict_get (sr_plugin_execution r) (pl_name pl) = Some (status_due p pl))
      \<and> reports_findings (sr_findings r) (findings_due p (engine_plugins classes))"
  using engine_statuses [OF assms(1) refl, of order p workers started finished] assms(2,3)
    engine_findings [of order workers started finished "engine_plugins classes" p]
  by auto

text \<open>A secret scanner and a dependency scanner report the same finding, a third plugin fails and a fourth skips.\<close>

definition demo_finding :: "string \<Rightarrow> severity \<Rightarrow> string \<Rightarrow> finding" where
  "demo_finding tool sev fp =
     \<lparr>fn_tool = tool, fn_rule_id = ''R1'', fn_title = ''t'', fn_description = [], fn_severity = sev,
      fn_file_path = None, fn_line = 0, fn_category = [], fn_raw = JNull, fn_fingerprint = fp\<rparr>"

definition demo_class :: "string \<Rightarrow> string \<Rightarrow> (string + finding list) \<Rightarrow> plugin_class" where
  "demo_class name mode res =
     \<lparr>pc_has_bases = True, pc_is_abstract = False, pc_name = name,
      pc_new = Some \<lparr>pl_name = name, pl_scan_modes = [mode], pl_can_handle = (\<lambda>p. Some True),
                     pl_execute = (\<lambda>p. res)\<rparr>\<rparr>"

definition demo_classes :: "plugin_class list" where
  "demo_classes =
     [demo_class ''a'' ''source'' (Inr [demo_finding ''a'' LOW ''f1'']),
      demo_class ''b'' ''source'' (Inr [demo_finding ''b'' HIGH ''f1'', demo_finding ''b'' INFO ''f2'']),
      demo_class ''c'' ''source'' (Inl ''boom''), demo_class ''d'' ''runtime'' (Inr [])]"

definition demo_profile :: target_profile where
  "demo_profile = source_profile ''/src'' []"

lemma demo_names: "names_agree demo_classes"
  by (simp add: names_agree_def demo_classes_def demo_class_def)

lemma demo_selected: "map pl_name (select_plugins (engine_plugins demo_classes) demo_profile) = [''a'', ''b'', ''c'']"
  by (simp add: demo_classes_def demo_class_def engine_plugins_def instantiate_plugins_def register_class_def
      select_plugins_def is_applicable_def demo_profile_def source_profile_def List.map_filter_simps)

theorem scan_report_accounts_witness:
  "\<exists>r. engine_run rev 4 ''t0'' ''t1'' (engine_plugins demo_classes) demo_profile = Inr r
      \<and> distinct (dict_keys (sr_plugin_execution r))
      \<and> set (dict_keys (sr_plugin_execution r)) = pl_name ` set (engine_plugins demo_classes)
      \<and> (\<forall>pl \<in> set (engine_plugins demo_classes).
            dict_get (sr_plugin_execution r) (pl_name pl) = Some (status_due demo_profile pl))
      \<and> reports_findings (sr_findings r) (findings_due demo_profile (engine_plugins demo_classes))"
  by (rule scan_report_accounts [OF demo_names]) simp_all

text \<open>
  C37. The order in which the threads of a scan complete shows in nothing that is acted on: two runs that complete in
  different orders report the same fingerprints with the same severities, the same counts and verdict, the same entry
  for every plugin and the same errors (in another order).
\<close>

theorem scan_order_irrelevant:
  assumes "names_agree classes"
    and "mset (order (select_plugins (engine_plugins classes) p)) = mset (select_plugins (engine_plugins classes) p)"
    and "mset (order' (select_plugins (engine_plugins classes) p)) = mset (select_plugins (engine_plugins classes) p)"
    and "engine_run order workers t0 t1 (engine_plugins classes) p = Inr r"
    and "engine_run order' workers' t0' t1' (engine_plugins classes) p = Inr r'"
  shows "image_mset mark (mset (sr_findings r)) = image_mset mark (mset (sr_findings r'))
      \<and> severity_counts r = severity_counts r' \<and> scan_verdict r = scan_verdict r'
      \<and> mset (sr_plugin_execution r) = mset (sr_plugin_execution r')
      \<and> mset (sr_errors r) = mset (sr_errors r')"
proof -
  let ?ps = "engine_plugins classes"
  note found = engine_findings [OF assms(4,2)] engine_findings [OF assms(5,3)]
  note marks = reported_marks [OF found]
  have "mset (sr_errors r) = mset (sr_errors r')"
  proof (cases "select_plugins ?ps p = []")
    case True
    then show ?thesis using assms(4,5) by (auto simp: engine_run_idle [OF True])
  next
    case False
    then show ?thesis using engine_errors [OF assms(4,2)] engine_errors [OF assms(5,3)] by simp
  qed
  then show ?thesis
    using marks report_by_marks [OF marks] engine_entries [OF assms(1) refl assms(2,4)]
      engine_entries [OF assms(1) refl assms(3,5)] by simp
qed


definition demo_report :: "(plugin list \<Rightarrow> plugin list) \<Rightarrow> scan_report" where
  "demo_report order =
     (case engine_run order 4 ''t0'' ''t1'' (engine_plugins demo_classes) demo_profile of
        Inr r \<Rightarrow> r | Inl e \<Rightarrow> new_report [] [] [])"

lemma demo_runs: "engine_run order 4 ''t0'' ''t1'' (engine_plugins demo_classes) demo_profile = Inr (demo_report order)"
  by (simp add: demo_report_def engine_run_def Let_def)

theorem scan_order_irrelevant_witness:
  "image_mset mark (mset (sr_findings (demo_report id))) = image_mset mark (mset (sr_findings (demo_report rev)))
      \<and> severity_counts (demo_report id) = severity_counts (demo_report rev)
      \<and> scan_verdict (demo_report id) = scan_verdict (demo_report rev)
      \<and> mset (sr_plugin_execution (demo_report id)) = mset (sr_plugin_execution (demo_report rev))
      \<and> mset (sr_errors (demo_report id)) = mset (sr_errors (demo_report rev))"
  by (rule scan_order_irrelevant [OF demo_names _ _ demo_runs demo_runs]) simp_all

section \<open>The exit code\<close>

text \<open>The profiles a command scans.\<close>

definition profiles_of :: "world \<Rightarrow> command \<Rightarrow> target_profile list py" where
  "profiles_of w cmd =
     (case cmd of
        Scan t \<Rightarrow> py_seq [profile_target w (Some t) None None None]
      | Inspect img pid url \<Rightarrow> py_seq [profile_target w None img pid url]
      | FullScan t img url \<Rightarrow> py_seq [profile_target w (Some t) None None None, profile_target w None img None url])"

definition cmd_findings :: "world \<Rightarrow> plugin list \<Rightarrow> command \<Rightarrow> finding set" where
  "cmd_findings w plugins cmd =
     (case profiles_of w cmd of Inl e \<Rightarrow> {} | Inr ps \<Rightarrow> (\<Union>p \<in> set ps. findings_due p plugins))"

lemma outcome_Reported: "outcome_of x = Reported r \<longleftrightarrow> x = Inr r"
  by (cases x) (simp_all add: outcome_of_def)

lemma merged_reports:
  assumes "reports_findings (sr_findings a) A" "reports_findings (sr_findings b) B"
  shows "(\<exists>f \<in> set (sr_findings (merge_reports t l c a b)). s \<le> fn_severity f)
      \<longleftrightarrow> (\<exists>f \<in> A \<union> B. s \<le> fn_severity f)"
proof -
  have "sr_findings (merge_reports t l c a b)
      = sort_key (\<lambda>f. - int (severity_value (fn_severity f))) (deduplicated (sr_findings a @ sr_findings b))"
    by (simp add: merge_reports_def sort_by_severity_def deduplicate_def)
  then show ?thesis
    using reported_worst [OF deduplicated_reports [of "sr_findings a @ sr_findings b"], of s]
      reported_worst [OF assms(1), of s] reported_worst [OF assms(2), of s] by auto
qed

definition bad_usage :: "command \<Rightarrow> bool" where
  "bad_usage cmd \<longleftrightarrow>
     (case cmd of
        Scan t \<Rightarrow> False
      | Inspect img pid url \<Rightarrow> no_text img \<and> (pid = None \<or> pid = Some 0) \<and> no_text url
      | FullScan t img url \<Rightarrow> no_text img \<and> no_text url)"

lemma engine_reports:
  assumes "mset (order (select_plugins plugins p)) = mset (select_plugins plugins p)" "0 < workers"
  obtains r where "engine_run order workers t0 t1 plugins p = Inr r"
    and "reports_findings (sr_findings r) (findings_due p plugins)"
proof (cases "select_plugins plugins p = []")
  case True
  from engine_findings [of order workers t0 t1 plugins p] assms(1) engine_run_idle [OF True] that show ?thesis by blast
next
  case False
  from engine_findings [of order workers t0 t1 plugins p] assms(1) engine_run_eq [OF False assms(2)] that
  show ?thesis by blast
qed

text \<open>A command that is used well and whose targets have a profile ends in a report of its findings.\<close>

lemma command_reports:
  assumes order: "\<And>p ps. mset (order p ps) = mset ps" and w: "0 < workers"
    and "\<not> bad_usage cmd" "profiles_of w cmd = Inr ps"
  shows "\<exists>r. run_command w order clock workers plugins cmd = Reported r
      \<and> (\<forall>s. (\<exists>f \<in> set (sr_findings r). s \<le> fn_severity f) \<longleftrightarrow> (\<exists>f \<in> cmd_findings w plugins cmd. s \<le> fn_severity f))"
proof (cases "\<exists>t i u. cmd = FullScan t i u")
  case True
  then obtain t i u where cmd: "cmd = FullScan t i u" by blast
  with assms(4) obtain sp rp where p: "profile_target w (Some t) None None None = Inr sp"
      "profile_target w None i None u = Inr rp" "ps = [sp, rp]"
    by (auto simp: profiles_of_def py_bind_eq_Inr)
  obtain a where a: "engine_run (order sp) workers (clock 0) (clock (Suc 0)) plugins sp = Inr a"
      "reports_findings (sr_findings a) (findings_due sp plugins)"
    using engine_reports [of "order sp" plugins sp workers "clock 0" "clock (Suc 0)"] order w by auto
  obtain b where b: "engine_run (order rp) workers (clock 2) (clock (Suc 2)) plugins rp = Inr b"
      "reports_findings (sr_findings b) (findings_due rp plugins)"
    using engine_reports [of "order rp" plugins rp workers "clock 2" "clock (Suc 2)"] order w by auto
  have "cmd_findings w plugins cmd = findings_due sp plugins \<union> findings_due rp plugins"
    using assms(4) p(3) by (simp add: cmd_findings_def)
  moreover have "\<exists>l. run_command w order clock workers plugins cmd = Reported (merge_reports t l (clock 4) a b)"
    using assms(3) p a(1) b(1) by (auto simp: run_command_def cmd bad_usage_def outcome_of_def)
  ultimately show ?thesis using merged_reports [OF a(2) b(2)] by auto
next
  case False
  with assms(4) obtain p where ps: "ps = [p]"
    by (cases cmd) (auto simp: profiles_of_def py_bind_eq_Inr)
  obtain r where r: "engine_run (order p) workers (clock 0) (clock (Suc 0)) plugins p = Inr r"
      "reports_findings (sr_findings r) (findings_due p plugins)"
    using engine_reports [of "order p" plugins p workers "clock 0" "clock (Suc 0)"] order w by auto
  have "run_command w order clock workers plugins cmd = Reported r"
    using False assms(3,4) ps r(1)
    by (cases cmd) (auto simp: run_command_def profiles_of_def bad_usage_def outcome_of_def py_bind_eq_Inr)
  moreover have "cmd_findings w plugins cmd = findings_due p plugins"
    using assms(4) ps by (simp add: cmd_findings_def)
  ultimately show ?thesis using reported_worst [OF r(2)] by auto
qed

lemma command_fails:
  assumes "bad_usage cmd \<or> (\<exists>e. profiles_of w cmd = Inl e)"
  shows "\<not> (\<exists>r. run_command w order clock workers plugins cmd = Reported r)"
  using assms
  by (cases cmd)
     (auto simp: run_command_def bad_usage_def profiles_of_def outcome_Reported py_bind_eq_Inr Let_def split: sum.splits)

text \<open>
  C38. The exit code of the security toolkit is 1 exactly when some plugin that was executed for a profile of the
  command returned a finding at or above the threshold of \<open>--fail-on\<close>: neither the deduplication of a scan nor the
  merge of the two scans of \<open>full\<close> hides one. It is 2 for a wrong usage or a target without a profile, and 0 otherwise,
  whatever the order in which the threads complete. (The report files that the command writes before it exits are
  not part of the outcome: an error in writing them is left out.)
\<close>

theorem exit_code_of_command:
  assumes "\<And>p ps. mset (order p ps) = mset ps" and "0 < workers"
  shows "exit_code fail_on (run_command w order clock workers plugins cmd) =
    (if bad_usage cmd \<or> (\<exists>e. profiles_of w cmd = Inl e) then 2
     else if \<exists>f \<in> cmd_findings w plugins cmd. fail_threshold fail_on \<le> fn_severity f then 1 else 0)"
proof (cases "bad_usage cmd \<or> (\<exists>e. profiles_of w cmd = Inl e)")
  case True
  then show ?thesis
    using command_fails [OF True, where order = order and clock = clock and workers = workers and plugins = plugins]
    by (simp add: exit_code_def split: cli_outcome.splits)
next
  case False
  then obtain ps where "profiles_of w cmd = Inr ps" by (cases "profiles_of w cmd") auto
  with False command_reports [where order = order and workers = workers and cmd = cmd and w = w and ps = ps
      and clock = clock and plugins = plugins] assms show ?thesis
    by (auto simp: exit_code_def list_ex_iff)
qed

text \<open>The finding that is merely low in one scanner and high in another fails a scan that stops at high.\<close>

definition demo_world :: world where
  "demo_world =
     \<lparr>w_cwd = ''/'', w_dir = (\<lambda>p. if p = ''/src'' then Some [] else None), w_exists = (\<lambda>p. p = ''/src''),
      w_docker_ports = (\<lambda>i. None), w_ip_ok = (\<lambda>h. True)\<rparr>"

theorem exit_code_of_command_witness:
  "exit_code ''high'' (run_command demo_world (\<lambda>p. rev) (\<lambda>i. ''t'') 4 (engine_plugins demo_classes) (Scan ''src'')) =
    (if bad_usage (Scan ''src'') \<or> (\<exists>e. profiles_of demo_world (Scan ''src'') = Inl e) then 2
     else if \<exists>f \<in> cmd_findings demo_world (engine_plugins demo_classes) (Scan ''src''). fail_threshold ''high'' \<le> fn_severity f
          then 1 else 0)"
  by (rule exit_code_of_command) simp_all

end
