(* ===== verification/Scanners.thy ===== *)
theory Scanners
  imports SecurityCli PyRegex
begin

text \<open>
  The scanner plugins that wrap a command line tool: semgrep with its reduction of false positives, gitleaks, and the
  three uses of trivy (\<open>scanners/static\<close>, \<open>scanners/dynamic/vulnerabilities\<close>). What the tools print and how
  \<open>json.loads\<close> reads it are arguments; an entry of their documents is a record of the keys the code reads, \<open>None\<close>
  for a key that is missing.
\<close>

section \<open>Tools\<close>

text \<open>
  The tools on the path, and what running a command prints on its standard output, \<open>None\<close> when the call raises.
\<close>

record toolbox =
  tb_available :: "string \<Rightarrow> bool"
  tb_run :: "string list \<Rightarrow> string option"

definition get_or :: "'a \<Rightarrow> 'a option \<Rightarrow> 'a" where
  "get_or d x = (case x of None \<Rightarrow> d | Some v \<Rightarrow> v)"

text \<open>The document a tool prints: nothing for a failed call, for blank output and for text that is not JSON.\<close>

definition tool_document :: "toolbox \<Rightarrow> (string \<Rightarrow> 'd option) \<Rightarrow> string list \<Rightarrow> 'd option" where
  "tool_document tb loads cmd =
     (case tb_run tb cmd of
        None \<Rightarrow> None
      | Some out \<Rightarrow> if str_strip out = [] then None else loads out)"

section \<open>semgrep\<close>

definition noisy_rules :: "string list" where
  "noisy_rules = [''dynamic-urllib-use-detected'']"

definition fp_consolidation_threshold :: nat where
  "fp_consolidation_threshold = 3"

definition safe_path_patterns :: "rx list" where
  "safe_path_patterns =
     [rlit ''plugins/'', rseq [rlit ''test'', ropt (rchr CHR ''s''), rchr CHR ''/''],
      rseq [rlit ''util'', ropt (rchr CHR ''s''), rchr CHR ''/''],
      rseq [rlit ''tool'', ropt (rchr CHR ''s''), rchr CHR ''/''],
      rseq [rlit ''script'', ropt (rchr CHR ''s''), rchr CHR ''/''], rlit ''internal/'',
      rseq [rlit ''health'', ropt (RChar (\<lambda>c. c = CHR ''_'' \<or> c = CHR ''-'')), rlit ''check'']]"

definition mandatory_rulesets :: "string list" where
  "mandatory_rulesets = [''p/security-audit'', ''p/secrets'', ''p/owasp-top-ten'', ''p/ci'', ''p/supply-chain'']"

definition language_rulesets :: "(string, string) dict" where
  "language_rulesets =
     [(''python'', ''p/python''), (''javascript'', ''p/javascript''), (''typescript'', ''p/typescript''),
      (''go'', ''p/golang''), (''rust'', ''p/rust''), (''java'', ''p/java''), (''ruby'', ''p/ruby''),
      (''php'', ''p/php''), (''c'', ''p/c''), (''csharp'', ''p/csharp''), (''kotlin'', ''p/kotlin''),
      (''scala'', ''p/scala''), (''swift'', ''p/swift''), (''bash'', ''p/bash''), (''elixir'', ''p/elixir'')]"

text \<open>The languages are a set; the argument lists them in the order the set is iterated.\<close>

definition build_rulesets :: "string list \<Rightarrow> string list" where
  "build_rulesets languages =
     fold (\<lambda>lang rulesets.
             case dict_get language_rulesets lang of
               None \<Rightarrow> rulesets
             | Some rs \<Rightarrow> if rs \<in> set rulesets then rulesets else rulesets @ [rs])
       languages mandatory_rulesets"

record semgrep_result =
  sg_check_id :: "string option"
  sg_message :: "string option"
  sg_severity :: "string option"
  sg_path :: "string option"
  sg_start_line :: "int option"
  sg_json :: json

definition semgrep_finding :: "(string \<Rightarrow> string) \<Rightarrow> semgrep_result \<Rightarrow> finding" where
  "semgrep_finding sha r =
     new_finding sha ''semgrep'' (get_or ''unknown'' (sg_check_id r))
       (get_or (get_or ''Semgrep finding'' (sg_check_id r)) (sg_message r)) (get_or [] (sg_message r))
       (normalize_severity (get_or ''warning'' (sg_severity r))) (Some (get_or [] (sg_path r)))
       (get_or 0 (sg_start_line r)) ''sast'' (sg_json r)"

definition rule_short :: "finding \<Rightarrow> string" where
  "rule_short f = rev (takeWhile (\<lambda>c. c \<noteq> CHR ''.'') (rev (fn_rule_id f)))"

definition in_safe_path :: "finding \<Rightarrow> bool" where
  "in_safe_path f =
     list_ex (\<lambda>pat. re_search pat (get_or [] (fn_file_path f)) \<noteq> None) safe_path_patterns"

definition place_text :: "finding \<Rightarrow> string" where
  "place_text f = get_or ''None'' (fn_file_path f) @ '':'' @ int_str (fn_line f)"

definition location_summary :: "finding list \<Rightarrow> string" where
  "location_summary hits =
     (let locations = sort (remdups (map place_text hits))
      in str_join '', '' (take 5 locations)
         @ (if 5 < length locations then '' (+'' @ nat_digits (length locations - 5) @ '' more)'' else []))"

definition consolidated :: "(string \<Rightarrow> string) \<Rightarrow> string \<Rightarrow> finding list \<Rightarrow> finding" where
  "consolidated sha rule hits =
     new_finding sha ''semgrep'' (''FP-CONSOLIDATED-'' @ rule)
       (''Consolidated: '' @ nat_digits (length hits) @ '' '' @ [squote] @ rule @ [squote]
        @ '' findings in internal/tool code (likely false positives)'')
       (''Semgrep rule '' @ [squote] @ rule @ [squote] @ '' fired '' @ nat_digits (length hits)
        @ '' time(s) in internal tooling paths. These typically flag safe usage of urllib for health checks, API ''
        @ ''calls to localhost, or test fixtures. Locations: '' @ location_summary hits)
       INFO (fn_file_path (hd hits)) (fn_line (hd hits)) ''sast'' (JObj [])"

definition partition_finding ::
  "finding \<Rightarrow> (string, finding list) dict \<times> finding list \<Rightarrow> (string, finding list) dict \<times> finding list" where
  "partition_finding f st =
     (case st of (noisy, clean) \<Rightarrow>
        if rule_short f \<in> set noisy_rules then (dict_append (rule_short f) f noisy, clean)
        else (noisy, clean @ [f]))"

definition process_bucket :: "(string \<Rightarrow> string) \<Rightarrow> string \<times> finding list \<Rightarrow> finding list \<Rightarrow> finding list" where
  "process_bucket sha b clean =
     (case b of (rule, bucket) \<Rightarrow>
        if length bucket < fp_consolidation_threshold then clean @ bucket
        else
          let safe_hits = filter in_safe_path bucket;
              unsafe_hits = filter (\<lambda>f. \<not> in_safe_path f) bucket
          in clean @ unsafe_hits @ (if safe_hits = [] then [] else [consolidated sha rule safe_hits]))"

definition reduce_false_positives :: "(string \<Rightarrow> string) \<Rightarrow> finding list \<Rightarrow> finding list" where
  "reduce_false_positives sha findings =
     (case fold partition_finding findings ([], []) of
        (noisy, clean) \<Rightarrow> fold (process_bucket sha) noisy clean)"

definition semgrep_results :: "(string \<Rightarrow> string) \<Rightarrow> semgrep_result list \<Rightarrow> finding list" where
  "semgrep_results sha rs = reduce_false_positives sha (map (semgrep_finding sha) rs)"

definition semgrep_command :: "string list \<Rightarrow> string \<Rightarrow> string list" where
  "semgrep_command rulesets path =
     [''semgrep'', ''scan'', ''--json'', ''--quiet'', ''--no-git-ignore'']
     @ concat (map (\<lambda>rs. [''--config'', rs]) rulesets) @ [path]"

text \<open>\<open>loads\<close> gives the list under \<open>results\<close>. An assertion that fails has an empty message.\<close>

definition semgrep_plugin ::
  "(string \<Rightarrow> string) \<Rightarrow> toolbox \<Rightarrow> (string list \<Rightarrow> string list) \<Rightarrow> (string \<Rightarrow> semgrep_result list option) \<Rightarrow> plugin" where
  "semgrep_plugin sha tb iter loads =
     \<lparr>pl_name = ''semgrep'', pl_scan_modes = [''source''],
      pl_can_handle = (\<lambda>p. Some (tb_available tb ''semgrep'' \<and> tp_mode p = ''source'' \<and> tp_path p \<noteq> None)),
      pl_execute = (\<lambda>p. case tp_path p of
         None \<Rightarrow> Inl []
       | Some path \<Rightarrow>
           Inr (semgrep_results sha
             (get_or [] (tool_document tb loads (semgrep_command (build_rulesets (iter (tp_languages p))) path)))))\<rparr>"

section \<open>gitleaks\<close>

definition rule_severity :: "(string, severity) dict" where
  "rule_severity =
     [(''aws-access-token'', CRITICAL), (''aws-secret-access-key'', CRITICAL), (''private-key'', CRITICAL),
      (''rsa-private-key'', CRITICAL), (''generic-api-key'', HIGH), (''generic-password'', HIGH),
      (''github-pat'', CRITICAL), (''github-fine-grained-pat'', CRITICAL), (''github-oauth'', CRITICAL),
      (''gitlab-pat'', CRITICAL), (''slack-token'', HIGH), (''slack-webhook'', HIGH), (''stripe-api-key'', CRITICAL),
      (''twilio-api-key'', HIGH), (''sendgrid-api-key'', HIGH), (''npm-access-token'', HIGH),
      (''pypi-upload-token'', HIGH), (''hashicorp-tf-api-token'', HIGH), (''jwt'', HIGH)]"

record leak =
  lk_rule :: "string option"
  lk_file :: "string option"
  lk_line :: "int option"
  lk_commit :: "string option"
  lk_author :: "string option"
  lk_date :: "string option"
  lk_description :: "string option"
  lk_json :: json

definition upper_char :: "char \<Rightarrow> char" where
  "upper_char c = (if is_alpha c \<and> \<not> is_upper c then char_of (of_char c - 32 :: nat) else c)"

text \<open>\<open>str.title\<close>; the flag says that the character before is a letter.\<close>

fun title_case :: "bool \<Rightarrow> string \<Rightarrow> string" where
  "title_case after [] = []"
| "title_case after (c # s) = (if after then lower_char c else upper_char c) # title_case (is_alpha c) s"

definition rule_title :: "string \<Rightarrow> string" where
  "rule_title rule = title_case False (map (\<lambda>c. if c = CHR ''-'' then CHR '' '' else c) rule)"

definition leak_finding :: "(string \<Rightarrow> string) \<Rightarrow> leak \<Rightarrow> finding" where
  "leak_finding sha e =
     (let rule = get_or ''unknown'' (lk_rule e); file = get_or [] (lk_file e); line = get_or 0 (lk_line e);
          commit = take 12 (get_or [] (lk_commit e));
          severity = get_or HIGH (dict_get rule_severity rule);
          secret_type = get_or (rule_title rule) (lk_description e);
          place = file @ '':'' @ int_str line
      in if commit \<noteq> [] then
           new_finding sha ''gitleaks'' rule (''Secret leaked in Git history: '' @ secret_type)
             (''Gitleaks detected a '' @ secret_type @ '' in the Git repository. Commit: '' @ commit @ '' by ''
              @ get_or [] (lk_author e) @ '' on '' @ get_or [] (lk_date e) @ ''. File: '' @ place
              @ ''. Even if removed from the current tree, the secret exists in Git history and should be rotated ''
              @ ''immediately.'')
             severity (Some file) line ''secrets'' (lk_json e)
         else
           new_finding sha ''gitleaks'' rule (''Secret detected in source: '' @ secret_type)
             (''Gitleaks detected a '' @ secret_type @ '' in '' @ place @ ''. This secret should be removed and rotated.'')
             severity (Some file) line ''secrets'' (lk_json e))"

text \<open>
  One run of gitleaks: nothing when the call raises or times out, otherwise the exit code and the report file, where
  \<open>loads\<close> gives a list of leaks, and no list (the inner \<open>None\<close>) for another document.
\<close>

definition run_gitleaks ::
  "(string \<Rightarrow> string) \<Rightarrow> (string \<Rightarrow> leak list option) \<Rightarrow> (int \<times> string) option \<Rightarrow> finding list" where
  "run_gitleaks sha loads run =
     (case run of
        None \<Rightarrow> []
      | Some (code, content) \<Rightarrow>
          if code \<noteq> 0 \<and> code \<noteq> 1 then []
          else if str_strip content = [] then []
          else map (leak_finding sha) (get_or [] (loads (str_strip content))))"

definition gitleaks_command :: "bool \<Rightarrow> string \<Rightarrow> string \<Rightarrow> string list" where
  "gitleaks_command has_git target output_file =
     [''gitleaks'', ''detect'', ''--source'', target] @ (if has_git then [] else [''--no-git''])
     @ [''--report-format'', ''json'', ''--report-path'', output_file, ''--no-banner'']"

definition gitleaks_plugin ::
  "(string \<Rightarrow> string) \<Rightarrow> (string \<Rightarrow> bool) \<Rightarrow> (string \<Rightarrow> bool) \<Rightarrow> (string list \<Rightarrow> (int \<times> string) option)
     \<Rightarrow> (string \<Rightarrow> leak list option) \<Rightarrow> string \<Rightarrow> plugin" where
  "gitleaks_plugin sha available has_git run loads output_file =
     \<lparr>pl_name = ''gitleaks'', pl_scan_modes = [''source''],
      pl_can_handle = (\<lambda>p. Some (tp_path p \<noteq> None \<and> available ''gitleaks'')),
      pl_execute = (\<lambda>p. case tp_path p of
         None \<Rightarrow> Inl []
       | Some path \<Rightarrow> Inr (run_gitleaks sha loads (run (gitleaks_command (has_git path) path output_file))))\<rparr>"

section \<open>trivy\<close>

record vulnerability =
  vu_id :: "string option"
  vu_package :: "string option"
  vu_version :: "string option"
  vu_description :: "string option"
  vu_severity :: "string option"
  vu_json :: json

record misconfiguration =
  mc_id :: "string option"
  mc_title :: "string option"
  mc_description :: "string option"
  mc_severity :: "string option"
  mc_start_line :: "int option"
  mc_json :: json

text \<open>A block of \<open>Results\<close>: its target and its entries.\<close>

type_synonym 'e block = "string option \<times> 'e list"

definition vulnerability_finding :: "(string \<Rightarrow> string) \<Rightarrow> string \<Rightarrow> vulnerability \<Rightarrow> finding" where
  "vulnerability_finding sha target v =
     new_finding sha ''trivy'' (get_or ''UNKNOWN'' (vu_id v))
       (get_or ''?'' (vu_package v) @ '' '' @ get_or ''?'' (vu_version v) @ '': '' @ get_or [] (vu_id v))
       (get_or [] (vu_description v)) (normalize_severity (get_or ''UNKNOWN'' (vu_severity v))) (Some target) 0 ''sca''
       (vu_json v)"

definition misconfiguration_finding :: "(string \<Rightarrow> string) \<Rightarrow> string \<Rightarrow> misconfiguration \<Rightarrow> finding" where
  "misconfiguration_finding sha target m =
     new_finding sha ''trivy'' (get_or ''UNKNOWN'' (mc_id m)) (get_or ''IaC misconfiguration'' (mc_title m))
       (get_or [] (mc_description m)) (normalize_severity (get_or ''UNKNOWN'' (mc_severity m))) (Some target)
       (get_or 0 (mc_start_line m)) ''iac'' (mc_json m)"

definition block_findings :: "(string \<Rightarrow> 'e \<Rightarrow> finding) \<Rightarrow> 'e block list \<Rightarrow> finding list" where
  "block_findings mk blocks = concat (map (\<lambda>(target, es). map (mk (get_or [] target)) es) blocks)"

definition trivy_sca_plugin ::
  "(string \<Rightarrow> string) \<Rightarrow> toolbox \<Rightarrow> (string \<Rightarrow> vulnerability block list option) \<Rightarrow> plugin" where
  "trivy_sca_plugin sha tb loads =
     \<lparr>pl_name = ''trivy-sca'', pl_scan_modes = [''source''],
      pl_can_handle = (\<lambda>p. Some (tb_available tb ''trivy'' \<and> tp_mode p = ''source'' \<and> tp_path p \<noteq> None)),
      pl_execute = (\<lambda>p. case tp_path p of
         None \<Rightarrow> Inl []
       | Some path \<Rightarrow>
           Inr (block_findings (vulnerability_finding sha)
             (get_or [] (tool_document tb loads
               [''trivy'', ''filesystem'', ''--format'', ''json'', ''--scanners'', ''vuln'', ''--quiet'', path]))))\<rparr>"

definition iac_config_plugin ::
  "(string \<Rightarrow> string) \<Rightarrow> toolbox \<Rightarrow> (string \<Rightarrow> misconfiguration block list option) \<Rightarrow> plugin" where
  "iac_config_plugin sha tb loads =
     \<lparr>pl_name = ''iac-config'', pl_scan_modes = [''source''],
      pl_can_handle = (\<lambda>p. Some (tb_available tb ''trivy'' \<and> tp_mode p = ''source'' \<and> tp_path p \<noteq> None
                                 \<and> (tp_has_docker p \<or> tp_has_k8s p \<or> tp_has_terraform p))),
      pl_execute = (\<lambda>p. case tp_path p of
         None \<Rightarrow> Inl []
       | Some path \<Rightarrow>
           Inr (block_findings (misconfiguration_finding sha)
             (get_or [] (tool_document tb loads
               [''trivy'', ''filesystem'', ''--format'', ''json'', ''--scanners'', ''misconfig'', ''--quiet'', path]))))\<rparr>"

definition container_plugin ::
  "(string \<Rightarrow> string) \<Rightarrow> toolbox \<Rightarrow> (string \<Rightarrow> vulnerability block list option) \<Rightarrow> plugin" where
  "container_plugin sha tb loads =
     \<lparr>pl_name = ''container-scanner'', pl_scan_modes = [''runtime''],
      pl_can_handle = (\<lambda>p. Some (tp_image p \<noteq> None \<and> tb_available tb ''trivy'')),
      pl_execute = (\<lambda>p. case tp_image p of
         None \<Rightarrow> Inl []
       | Some img \<Rightarrow>
           Inr (block_findings (vulnerability_finding sha)
             (get_or [] (tool_document tb loads [''trivy'', ''image'', ''--format'', ''json'', ''--quiet'', img]))))\<rparr>"

section \<open>The reduction of false positives\<close>

text \<open>What a dismissed finding is: of a noisy rule, one of at least three, in a path that is known to be internal.\<close>

definition noisy :: "finding \<Rightarrow> bool" where
  "noisy f \<longleftrightarrow> rule_short f \<in> set noisy_rules"

definition dismissed :: "finding list \<Rightarrow> finding \<Rightarrow> bool" where
  "dismissed fs f \<longleftrightarrow> noisy f \<and> in_safe_path f \<and> fp_consolidation_threshold \<le> length (filter noisy fs)"

definition advisory :: "(string \<Rightarrow> string) \<Rightarrow> finding list \<Rightarrow> finding list" where
  "advisory sha fs =
     (let hits = filter (dismissed fs) fs
      in if hits = [] then [] else [consolidated sha ''dynamic-urllib-use-detected'' hits])"

lemma partition_fold:
  "fold partition_finding fs (d, clean)
     = (fold (\<lambda>f. dict_append (rule_short f) f) (filter noisy fs) d, clean @ filter (\<lambda>f. \<not> noisy f) fs)"
  by (induction fs arbitrary: d clean) (simp_all add: partition_finding_def noisy_def)

lemma noisy_bucket:
  "fold (\<lambda>f. dict_append (rule_short f) f) (filter noisy fs) []
     = (if filter noisy fs = [] then [] else [(''dynamic-urllib-use-detected'', filter noisy fs)])"
proof -
  have "fold (\<lambda>f. dict_append (rule_short f) f) (filter noisy fs) [(''dynamic-urllib-use-detected'', b)]
      = [(''dynamic-urllib-use-detected'', b @ filter noisy fs)]" for b fs
    by (induction fs arbitrary: b) (simp_all add: noisy_def noisy_rules_def dict_append_def)
  then show ?thesis
    by (induction fs) (simp_all add: noisy_def noisy_rules_def dict_append_def)
qed

lemma reduce_eq:
  "reduce_false_positives sha fs =
     filter (\<lambda>f. \<not> noisy f) fs @ filter (\<lambda>f. noisy f \<and> \<not> dismissed fs f) fs @ advisory sha fs"
proof -
  let ?bucket = "filter noisy fs"
  have safe: "filter in_safe_path ?bucket = filter (dismissed fs) fs"
    and unsafe: "filter (\<lambda>f. \<not> in_safe_path f) ?bucket = filter (\<lambda>f. noisy f \<and> \<not> dismissed fs f) fs"
    if "fp_consolidation_threshold \<le> length ?bucket"
    using that by (auto simp: dismissed_def intro!: filter_cong)
  have few: "?bucket = filter (\<lambda>f. noisy f \<and> \<not> dismissed fs f) fs" "filter (dismissed fs) fs = []"
    if "length ?bucket < fp_consolidation_threshold"
    using that by (auto simp: dismissed_def intro!: filter_cong)
  show ?thesis
  proof (cases "length ?bucket < fp_consolidation_threshold")
    case True
    have "reduce_false_positives sha fs = filter (\<lambda>f. \<not> noisy f) fs @ ?bucket"
      using True by (simp add: reduce_false_positives_def partition_fold noisy_bucket process_bucket_def)
    then show ?thesis unfolding few(1) [OF True, symmetric] by (simp add: advisory_def few(2) [OF True])
  next
    case False
    then have "?bucket \<noteq> []" by (auto simp: fp_consolidation_threshold_def)
    then show ?thesis
      using False safe unsafe
      by (simp add: reduce_false_positives_def partition_fold noisy_bucket process_bucket_def advisory_def Let_def)
  qed
qed

end
