(* ===== verification/RuntimeScan.thy ===== *)
theory RuntimeScan
  imports SecurityCli PyRegex FrontEnd
begin

text \<open>
  The plugins that look at a running container: the search for secrets in its memory
  (\<open>scanners/dynamic/forensics/memory.py\<close>) and the watch on its memory and connections
  (\<open>scanners/dynamic/testing/resource_monitor.py\<close>). What Docker and the service answer are arguments, \<open>None\<close> for a
  call that raises; \<open>math.log2\<close> is the argument \<open>log2\<close>.
\<close>

section \<open>Formatted numbers\<close>

text \<open>The value of a finite float times \<open>10 ^ k\<close>, rounded half to even, without its sign.\<close>

definition scaled :: "nat \<Rightarrow> pyfloat \<Rightarrow> int" where
  "scaled k x =
     (case x of
        FFin s m e \<Rightarrow>
          let n = 10 ^ k * fl_num False m e; d = fl_den e; q = n div d; r = n mod d
          in if d < 2 * r \<or> (d = 2 * r \<and> odd q) then q + 1 else q
      | _ \<Rightarrow> 0)"

definition float_sign :: "pyfloat \<Rightarrow> bool" where
  "float_sign x = (case x of FFin s m e \<Rightarrow> s | FInf s \<Rightarrow> s | FNaN \<Rightarrow> False)"

definition pad_left :: "nat \<Rightarrow> string \<Rightarrow> string" where
  "pad_left k s = replicate (k - length s) (CHR ''0'') @ s"

text \<open>\<open>f"{x:.kf}"\<close>.\<close>

definition fixed :: "nat \<Rightarrow> pyfloat \<Rightarrow> string" where
  "fixed k x =
     (case x of
        FNaN \<Rightarrow> ''nan''
      | FInf s \<Rightarrow> if s then ''-inf'' else ''inf''
      | FFin s m e \<Rightarrow>
          let n = scaled k x
          in (if s then ''-'' else []) @ int_str (n div 10 ^ k)
             @ (if k = 0 then [] else ''.'' @ pad_left k (int_str (n mod 10 ^ k))))"

text \<open>\<open>round(x, k)\<close> on a finite float.\<close>

definition round_to :: "nat \<Rightarrow> pyfloat \<Rightarrow> pyfloat" where
  "round_to k x = (case x of FFin s m e \<Rightarrow> dec_to_float s (scaled k x) (- int k) | _ \<Rightarrow> x)"

section \<open>Secret patterns\<close>

abbreviation "rset P \<equiv> RChar P"

definition rrep :: "nat \<Rightarrow> rx \<Rightarrow> rx" where
  "rrep n r = rseq (replicate n r)"

definition ratleast :: "nat \<Rightarrow> rx \<Rightarrow> rx" where
  "ratleast n r = RSeq (rrep n r) (rstar r)"

text \<open>A literal under \<open>IGNORECASE\<close>.\<close>

definition rlit_any_case :: "string \<Rightarrow> rx" where
  "rlit_any_case s = rseq (map (\<lambda>c. RChar (\<lambda>x. lower_char x = lower_char c)) s)"

definition is_quote :: "char \<Rightarrow> bool" where
  "is_quote c \<longleftrightarrow> c = squote \<or> c = dquote"

definition is_hex :: "char \<Rightarrow> bool" where
  "is_hex c \<longleftrightarrow> is_digit c \<or> c \<in> set ''abcdefABCDEF''"

definition is_lower_hex :: "char \<Rightarrow> bool" where
  "is_lower_hex c \<longleftrightarrow> is_digit c \<or> c \<in> set ''abcdef''"

definition is_dash_word :: "char \<Rightarrow> bool" where
  "is_dash_word c \<longleftrightarrow> is_word c \<or> c = CHR ''-''"

text \<open>The separator between a name and its value: an optional quote, \<open>:\<close> or \<open>=\<close>, an optional quote.\<close>

definition assign_rx :: rx where
  "assign_rx =
     rseq [ropt (rset is_quote), rstar rspace, rset (\<lambda>c. c = CHR '':'' \<or> c = CHR ''=''), rstar rspace,
           ropt (rset is_quote)]"

definition uuid_rx :: rx where
  "uuid_rx =
     rseq [rrep 8 (rset is_hex), rchr CHR ''-'', rrep 4 (rset is_hex), rchr CHR ''-'', rrep 4 (rset is_hex),
           rchr CHR ''-'', rrep 4 (rset is_hex), rchr CHR ''-'', rrep 12 (rset is_hex)]"

definition secret_patterns :: "(string \<times> string \<times> rx) list" where
  "secret_patterns =
     [(''MEM-SECRET-001'', ''AWS Access Key ID'',
       RSeq (rlit ''AKIA'') (rrep 16 (rset (\<lambda>c. is_digit c \<or> is_upper c)))),
      (''MEM-SECRET-002'', ''AWS Secret Key'',
       rseq [ralt [rlit ''aws_secret_access_key'', rlit ''secret''], assign_rx,
             rrep 40 (rset (\<lambda>c. is_alnum c \<or> c \<in> set ''/+=''))]),
      (''MEM-SECRET-003'', ''Generic API Key'',
       rseq [ralt [rseq [rlit_any_case ''api'', ropt (rset (\<lambda>c. c = CHR ''_'' \<or> c = CHR ''-'')), rlit_any_case ''key''],
                   rlit_any_case ''apikey''],
             assign_rx, ratleast 20 (rset is_dash_word)]),
      (''MEM-SECRET-004'', ''Generic Password'',
       rseq [ralt [rlit_any_case ''password'', rlit_any_case ''passwd'', rlit_any_case ''pwd''], assign_rx,
             ratleast 8 (rset (\<lambda>c. \<not> is_space c \<and> \<not> is_quote c))]),
      (''MEM-SECRET-005'', ''Connection String'',
       rseq [ralt (map rlit_any_case [''mysql'', ''postgres'', ''mongodb'', ''redis'', ''amqp'']), rlit ''://'',
             ratleast 10 (rset (\<lambda>c. \<not> is_space c))]),
      (''MEM-SECRET-006'', ''Private Key Block'',
       rseq [rlit ''-----BEGIN '', ropt (ralt [rlit ''RSA '', rlit ''EC '', rlit ''DSA '']), rlit ''PRIVATE KEY-----'']),
      (''MEM-SECRET-007'', ''Bearer Token'',
       rseq [rlit_any_case ''Bearer'', rplus rspace, rplus (rset (\<lambda>c. is_alnum c \<or> c \<in> set ''-._~+/'')),
             rstar (rchr CHR ''='')]),
      (''MEM-SECRET-008'', ''GitHub Token'',
       rseq [rlit ''gh'', rset (\<lambda>c. c \<in> set ''pousr''), rchr CHR ''_'', ratleast 36 rword]),
      (''MEM-SECRET-009'', ''Slack Token'',
       rseq [rlit ''xox'', rset (\<lambda>c. c \<in> set ''baprs''), rchr CHR ''-'',
             ratleast 10 (rset (\<lambda>c. is_alnum c \<or> c = CHR ''-''))]),
      (''MEM-SECRET-010'', ''JWT Token'',
       rseq [rlit ''eyJ'', ratleast 10 (rset is_dash_word), rchr CHR ''.'', ratleast 10 (rset is_dash_word),
             rchr CHR ''.'', ratleast 10 (rset is_dash_word)]),
      (''MEM-SECRET-011'', ''Google Cloud API Key'', RSeq (rlit ''AIza'') (rrep 35 (rset is_dash_word))),
      (''MEM-SECRET-012'', ''Stripe Secret Key'', RSeq (rlit ''sk_live_'') (ratleast 24 (rset is_alnum))),
      (''MEM-SECRET-013'', ''Stripe Publishable Key'', RSeq (rlit ''pk_live_'') (ratleast 24 (rset is_alnum))),
      (''MEM-SECRET-014'', ''SendGrid API Key'',
       rseq [rlit ''SG.'', rrep 22 (rset is_dash_word), rchr CHR ''.'', rrep 43 (rset is_dash_word)]),
      (''MEM-SECRET-015'', ''Mailchimp API Key'',
       rseq [rrep 32 (rset is_lower_hex), rlit ''-us'', rdigit, ropt rdigit]),
      (''MEM-SECRET-016'', ''Twilio API Key'', RSeq (rlit ''SK'') (rrep 32 (rset is_hex))),
      (''MEM-SECRET-017'', ''HashiCorp Vault Token'', RSeq (rlit ''hvs.'') (ratleast 24 (rset is_dash_word))),
      (''MEM-SECRET-018'', ''Heroku API Key'',
       rseq [ralt [rlit ''HEROKU'', rlit ''heroku''], rstar rdot, uuid_rx]),
      (''MEM-SECRET-019'', ''PEM Certificate'', rlit ''-----BEGIN CERTIFICATE-----''),
      (''MEM-SECRET-020'', ''Hex-Encoded Secret'',
       rseq [ralt [rlit_any_case ''secret'', rlit_any_case ''token'', rlit_any_case ''key''], assign_rx,
             rrep 64 (rset is_hex)])]"

section \<open>The search\<close>

definition entropy_term :: "(pyfloat \<Rightarrow> pyfloat) \<Rightarrow> nat \<Rightarrow> nat \<Rightarrow> pyfloat" where
  "entropy_term log2 n k = (let p = fl_ratio (int k) (int n) in fl_mul p (log2 p))"

definition char_counts :: "string \<Rightarrow> (char, nat) dict" where
  "char_counts s =
     fold (\<lambda>c d. dict_set c ((case dict_get d c of None \<Rightarrow> 0 | Some n \<Rightarrow> n) + 1) d) s []"

definition shannon_entropy :: "(pyfloat \<Rightarrow> pyfloat) \<Rightarrow> string \<Rightarrow> pyfloat" where
  "shannon_entropy log2 s =
     (if s = [] then FFin False 0 0
      else fl_neg (fold (\<lambda>(c, k) acc. fl_add acc (entropy_term log2 (length s) k)) (char_counts s) (FFin False 0 0)))"

definition redact :: "string \<Rightarrow> string" where
  "redact t = take 6 t @ ''...'' @ drop (length t - 4) t"

definition secret_finding :: "(string \<Rightarrow> string) \<Rightarrow> string \<Rightarrow> string \<Rightarrow> string \<Rightarrow> string \<Rightarrow> finding" where
  "secret_finding sha source rule description matched =
     (let redacted = (if 12 < length matched then redact matched else ''***REDACTED***'')
      in new_finding sha ''memory-forensics'' rule (''Runtime secret detected: '' @ description)
           (''Cleartext secret found in process memory of image '' @ source @ ''. Pattern: '' @ description
            @ ''. Value (redacted): '' @ redacted)
           CRITICAL (Some (''memory://'' @ source)) 0 ''memory''
           (JObj [(''pattern'', JStr description), (''redacted_match'', JStr redacted)]))"

type_synonym search_state = "finding list \<times> string list"

definition see_match ::
  "(string \<Rightarrow> string) \<Rightarrow> string \<Rightarrow> string \<Rightarrow> string \<Rightarrow> string \<Rightarrow> search_state \<Rightarrow> search_state" where
  "see_match sha source rule description matched st =
     (case st of (findings, seen) \<Rightarrow>
        let key = rule @ '':'' @ take 40 matched
        in if key \<in> set seen then st
           else (findings @ [secret_finding sha source rule description matched], seen @ [key]))"

definition search_pattern ::
  "(string \<Rightarrow> string) \<Rightarrow> string \<Rightarrow> string \<Rightarrow> string \<times> string \<times> rx \<Rightarrow> search_state \<Rightarrow> search_state" where
  "search_pattern sha raw source e st =
     (case e of (rule, description, pat) \<Rightarrow>
        fold (see_match sha source rule description) (re_findall pat raw) st)"

definition fp_prefixes :: "string list" where
  "fp_prefixes = [''PATH='', ''HOME='', ''LANG='', ''TERM='', ''HOSTNAME='', ''SHLVL='']"

definition token_rx :: rx where
  "token_rx = rseq [RBegin, ratleast 20 (rset (\<lambda>c. is_alnum c \<or> c \<in> set ''+/=_-.:'')), REnd]"

definition entropy_finding :: "(string \<Rightarrow> string) \<Rightarrow> string \<Rightarrow> pyfloat \<Rightarrow> string \<Rightarrow> finding" where
  "entropy_finding sha source entropy line =
     new_finding sha ''memory-forensics'' ''MEM-ENTROPY-001'' ''High-entropy string in process memory''
       (''A high-entropy string (Shannon='' @ fixed 2 entropy
        @ '') was found in memory, potentially a secret or token. Value (redacted): '' @ redact line)
       HIGH (Some (''memory://'' @ source)) 0 ''memory''
       (JObj [(''entropy'', JFloat entropy), (''redacted_match'', JStr (redact line))])"

definition see_line ::
  "(string \<Rightarrow> string) \<Rightarrow> (pyfloat \<Rightarrow> pyfloat) \<Rightarrow> string \<Rightarrow> string \<Rightarrow> search_state \<Rightarrow> search_state" where
  "see_line sha log2 source raw_line st =
     (case st of (findings, seen) \<Rightarrow>
        let line = str_strip raw_line; entropy = shannon_entropy log2 line; key = ''HI-ENTROPY:'' @ take 30 line
        in if length line < 20 \<or> 200 < length line then st
           else if list_ex (startswith line) fp_prefixes then st
           else if fl_cmp entropy (FFin False 5 0) = Some 1 \<and> re_match token_rx line \<noteq> None then
             if key \<in> set seen then st
             else (findings @ [entropy_finding sha source entropy line], seen @ [key])
           else st)"

definition scan_strings ::
  "(string \<Rightarrow> string) \<Rightarrow> (pyfloat \<Rightarrow> pyfloat) \<Rightarrow> string \<Rightarrow> string \<Rightarrow> finding list" where
  "scan_strings sha log2 raw source =
     fst (fold (see_line sha log2 source) (split_on newline raw)
            (fold (search_pattern sha raw source) secret_patterns ([], [])))"

section \<open>A container and its end\<close>

datatype docker_action = StartContainer string | RemoveContainer string | RemoveNetwork string

text \<open>
  The answers of Docker in one run: the network that is created, the container that is started with its exit code,
  whether it is found running at each of the polls, and the text of the three tiers (\<open>None\<close> also for a container
  whose configuration cannot be read).
\<close>

record sandbox =
  sb_network :: "string option"
  sb_container :: "(string \<times> int) option"
  sb_running :: "nat \<Rightarrow> bool"
  sb_proc :: "string option"
  sb_env :: "string option"
  sb_config_env :: "string option"

definition wait_for_container :: "nat \<Rightarrow> sandbox \<Rightarrow> bool" where
  "wait_for_container timeout sb = list_ex (sb_running sb) [0..<timeout]"

definition dumped_text :: "sandbox \<Rightarrow> string" where
  "dumped_text sb =
     (let tier = (\<lambda>t. case t of None \<Rightarrow> [] | Some s \<Rightarrow> newline # s)
      in (case sb_proc sb of None \<Rightarrow> [] | Some s \<Rightarrow> s) @ tier (sb_env sb) @ tier (sb_config_env sb))"

text \<open>The lines of a text without blank ones and without repetitions, in the order they come first.\<close>

definition unique_lines :: "string \<Rightarrow> string list" where
  "unique_lines raw = uniq (filter (\<lambda>l. str_strip l \<noteq> []) (splitlines_acc [] raw))"

definition dump_and_scan :: "(string \<Rightarrow> string) \<Rightarrow> (pyfloat \<Rightarrow> pyfloat) \<Rightarrow> sandbox \<Rightarrow> string \<Rightarrow> finding list" where
  "dump_and_scan sha log2 sb img =
     (let raw = dumped_text sb
      in if str_strip raw = [] then [] else scan_strings sha log2 (str_join [newline] (unique_lines raw)) img)"

definition memory_execute ::
  "(string \<Rightarrow> string) \<Rightarrow> (pyfloat \<Rightarrow> pyfloat) \<Rightarrow> sandbox \<Rightarrow> string \<Rightarrow> finding list \<times> docker_action list" where
  "memory_execute sha log2 sb img =
     (case sb_network sb of
        None \<Rightarrow> ([], [])
      | Some network \<Rightarrow>
          (case sb_container sb of
             None \<Rightarrow> ([], [RemoveNetwork network])
           | Some (name, code) \<Rightarrow>
               (if code \<noteq> 0 then []
                else if \<not> wait_for_container 15 sb then []
                else dump_and_scan sha log2 sb img,
                [StartContainer name, RemoveContainer name, RemoveNetwork network])))"

definition memory_plugin ::
  "(string \<Rightarrow> string) \<Rightarrow> (pyfloat \<Rightarrow> pyfloat) \<Rightarrow> bool \<Rightarrow> (string \<Rightarrow> sandbox) \<Rightarrow> plugin" where
  "memory_plugin sha log2 docker_available docker =
     \<lparr>pl_name = ''memory-forensics'', pl_scan_modes = [''runtime''],
      pl_can_handle = (\<lambda>p. Some (tp_image p \<noteq> None \<and> docker_available)),
      pl_execute = (\<lambda>p. case tp_image p of
         None \<Rightarrow> Inl []
       | Some img \<Rightarrow> Inr (fst (memory_execute sha log2 (docker img) img)))\<rparr>"

section \<open>Memory figures\<close>

definition multipliers :: "(string \<times> int) list" where
  "multipliers =
     [(''KiB'', 1024), (''MiB'', 1024 ^ 2), (''GiB'', 1024 ^ 3), (''kB'', 1000), (''MB'', 1000 ^ 2), (''GB'', 1000 ^ 3),
      (''B'', 1)]"

text \<open>The table above is in the order \<open>sorted\<close> gives it: the longest suffixes first.\<close>

fun parse_suffix :: "string \<Rightarrow> (string \<times> int) list \<Rightarrow> pyfloat option" where
  "parse_suffix s [] = None"
| "parse_suffix s ((suffix, factor) # rest) =
     (if endswith s suffix then
        (case py_float (str_strip (take (length s - length suffix) s)) of
           Some x \<Rightarrow> Some (fl_mul x (fl_ratio factor 1))
         | None \<Rightarrow> parse_suffix s rest)
      else parse_suffix s rest)"

definition parse_memory :: "string \<Rightarrow> pyfloat py" where
  "parse_memory mem_str =
     (let s = str_strip mem_str
      in case parse_suffix s multipliers of
           Some x \<Rightarrow> Inr x
         | None \<Rightarrow>
             (let head = takeWhile (\<lambda>c. is_digit c \<or> c = CHR ''.'') s
              in if head = [] then Inr (FFin False 0 0)
                 else case py_float head of
                        Some x \<Rightarrow> Inr x
                      | None \<Rightarrow> Inl (ValueError ''could not convert string to float'')))"

text \<open>What \<open>docker stats\<close> prints, \<open>None\<close> for a failed call.\<close>

definition container_memory :: "string option \<Rightarrow> pyfloat" where
  "container_memory out =
     (case out of
        None \<Rightarrow> FFin False 0 0
      | Some text \<Rightarrow>
          if str_strip text = [] then FFin False 0 0
          else (case parse_memory (str_strip (hd (split_on (CHR ''/'') (str_strip text)))) of
                  Inr x \<Rightarrow> x | Inl e \<Rightarrow> FFin False 0 0))"

section \<open>The resource monitor\<close>

definition web_ports :: "int list" where
  "web_ports = [80, 443, 8080, 8443, 3000, 5000, 8000, 9000]"

definition service_port :: "int list \<Rightarrow> int option" where
  "service_port ports =
     (case find (\<lambda>p. p \<in> set web_ports) ports of
        Some p \<Rightarrow> Some p
      | None \<Rightarrow> (case ports of [] \<Rightarrow> None | p # ps \<Rightarrow> Some p))"

definition monitor_can_handle :: "bool \<Rightarrow> target_profile \<Rightarrow> bool" where
  "monitor_can_handle docker_available p =
     (if tp_image p = None \<and> tp_service_url p = None then False
      else if str_or (tp_image p) \<noteq> None \<and> \<not> docker_available then False
      else if str_or (tp_service_url p) \<noteq> None then True
      else list_ex (\<lambda>n. n \<in> set web_ports) (tp_exposed_ports p))"

text \<open>
  The answers of the service: which of the requests to an endpoint succeed, and the number of connections the last of
  ten requests reports (\<open>None\<close> when one of them fails).
\<close>

record service =
  sv_ok :: "string \<Rightarrow> nat \<Rightarrow> bool"
  sv_connections :: "int option"

definition mib :: "pyfloat \<Rightarrow> string" where
  "mib x = (case fl_div x (fl_ratio (1024 ^ 2) 1) of Inr y \<Rightarrow> fixed 1 y | Inl e \<Rightarrow> [])"

definition growth_pct :: "pyfloat \<Rightarrow> pyfloat \<Rightarrow> pyfloat py" where
  "growth_pct initial final =
     py_bind (fl_div (fl_sub final initial) initial) (\<lambda>q. Inr (fl_mul q (fl_ratio 100 1)))"

definition leak_report :: "(string \<Rightarrow> string) \<Rightarrow> string \<Rightarrow> pyfloat \<Rightarrow> pyfloat \<Rightarrow> pyfloat \<Rightarrow> finding" where
  "leak_report sha img initial final growth =
     new_finding sha ''resource-monitor'' ''RESLEAK-001'' ''Memory leak detected: significant memory growth''
       (''Container memory grew from '' @ mib initial @ '' MiB to '' @ mib final @ '' MiB ('' @ fixed 0 growth
        @ ''% increase) after hitting /leak and /allocate endpoints. This indicates unbounded memory growth that ''
        @ ''could lead to OOM crashes in long-running deployments.'')
       HIGH (Some (''runtime://'' @ img)) 0 ''resource-leak''
       (JObj [(''initial_memory_bytes'', JFloat initial), (''final_memory_bytes'', JFloat final),
              (''growth_percentage'', JFloat (round_to 1 growth)), (''threshold_percentage'', JInt 50)])"

definition connection_report :: "(string \<Rightarrow> string) \<Rightarrow> string \<Rightarrow> string \<Rightarrow> int \<Rightarrow> finding" where
  "connection_report sha label remark n =
     new_finding sha ''resource-monitor'' ''RESLEAK-002''
       ''Connection leak detected: unclosed connections accumulating''
       (''After 10 requests to /connection-leak, '' @ int_str n @ '' connections remain unclosed. '' @ remark)
       MEDIUM (Some (''runtime://'' @ label @ ''/connection-leak'')) 0 ''resource-leak''
       (JObj [(''open_connections'', JInt n)])"

definition monitor_resources ::
  "(string \<Rightarrow> string) \<Rightarrow> pyfloat \<Rightarrow> pyfloat \<Rightarrow> service \<Rightarrow> string \<Rightarrow> finding list py" where
  "monitor_resources sha initial final sv img =
     (if fl_is_zero initial then Inr []
      else if \<not> list_ex (sv_ok sv ''/leak'') [0..<5] \<and> \<not> list_ex (sv_ok sv ''/allocate?size=500000'') [0..<5]
      then Inr []
      else if fl_is_zero final then Inr []
      else py_bind (growth_pct initial final) (\<lambda>growth.
        Inr ((if fl_cmp growth (FFin False 50 0) = Some 1 then [leak_report sha img initial final growth] else [])
             @ (case sv_connections sv of
                  Some n \<Rightarrow> if 5 < n then
                      [connection_report sha img
                        (''Connections are accumulated in a list without proper cleanup, which will eventually ''
                         @ ''exhaust file descriptors or connection pool limits.'') n] else []
                | None \<Rightarrow> []))))"

definition url_only_resources :: "(string \<Rightarrow> string) \<Rightarrow> service \<Rightarrow> string \<Rightarrow> finding list" where
  "url_only_resources sha sv label =
     (case sv_connections sv of
        Some n \<Rightarrow> if 5 < n then
            [connection_report sha label ''Connections are accumulated without proper cleanup.'' n] else []
      | None \<Rightarrow> [])
     @ (if list_all (sv_ok sv ''/allocate?size=500000'') [0..<5] then
          [new_finding sha ''resource-monitor'' ''RESLEAK-003'' ''Unbounded memory allocation accepted without limit''
             (''The /allocate endpoint accepted 5/5 large allocation requests (500 KB each) without any rate ''
              @ ''limiting or size cap.'')
             MEDIUM (Some (''runtime://'' @ label @ ''/allocate'')) 0 ''resource-leak''
             (JObj [(''successful_allocations'', JInt 5)])]
        else [])"

end
