(* ===== verification/ScannerFacts.thy ===== *)
theory ScannerFacts
  imports SecurityFacts Scanners RuntimeScan
begin

text \<open>
  The profiler and the scanners: which languages and marker files a tree has, what the reduction of false positives
  of semgrep keeps, what becomes of the secrets found in the memory of a container, and when the two files of a report
  are one.
\<close>

section \<open>The profiler\<close>

text \<open>The names the profiler sees: of the entries at most so many levels down, not below a hidden directory.\<close>

inductive visible :: "nat \<Rightarrow> entry list \<Rightarrow> string \<Rightarrow> bool" where
  here: "e \<in> set es \<Longrightarrow> visible (Suc n) es (entry_name e)"
| below: "DirEntry d sub \<in> set es \<Longrightarrow> \<not> startswith d ''.'' \<Longrightarrow> visible n sub name \<Longrightarrow> visible (Suc n) es name"

inductive_cases visible_zero: "visible 0 es name"

lemma visible_Suc:
  "visible (Suc n) es name \<longleftrightarrow>
     (\<exists>e \<in> set es. entry_name e = name
        \<or> (case e of FileEntry f c \<Rightarrow> False | DirEntry d sub \<Rightarrow> \<not> startswith d ''.'' \<and> visible n sub name))"
proof
  assume "visible (Suc n) es name"
  then show "\<exists>e \<in> set es. entry_name e = name
        \<or> (case e of FileEntry f c \<Rightarrow> False | DirEntry d sub \<Rightarrow> \<not> startswith d ''.'' \<and> visible n sub name)"
    by cases (fastforce split: entry.splits)+
next
  assume "\<exists>e \<in> set es. entry_name e = name
        \<or> (case e of FileEntry f c \<Rightarrow> False | DirEntry d sub \<Rightarrow> \<not> startswith d ''.'' \<and> visible n sub name)"
  then obtain e where e: "e \<in> set es" "entry_name e = name
        \<or> (case e of FileEntry f c \<Rightarrow> False | DirEntry d sub \<Rightarrow> \<not> startswith d ''.'' \<and> visible n sub name)" ..
  show "visible (Suc n) es name"
  proof (cases e)
    case (FileEntry f c)
    then have "entry_name e = name" using e(2) by simp
    then show ?thesis using visible.here [OF e(1), of n] by simp
  next
    case (DirEntry d sub)
    then show ?thesis using e visible.here [OF e(1), of n] visible.below [of d sub es n name] by auto
  qed
qed

definition indicates :: "string \<Rightarrow> string \<Rightarrow> bool" where
  "indicates name lang \<longleftrightarrow> (\<exists>ps. (lang, ps) \<in> set language_indicators \<and> list_ex (matches_pattern name) ps)"

lemma set_add_languages: "set (add_languages name d) = set d \<union> {lang. indicates name lang}"
proof -
  have "set (fold (\<lambda>(lang, ps) d. if lang \<in> set d then d else if list_ex (matches_pattern name) ps then d @ [lang] else d) table d)
      = set d \<union> {lang. \<exists>ps. (lang, ps) \<in> set table \<and> list_ex (matches_pattern name) ps}" for table d
    by (induction table arbitrary: d) (auto split: if_splits)
  then show ?thesis by (simp add: add_languages_def indicates_def)
qed

lemma set_scan_languages:
  "set (scan_languages n es d) = set d \<union> {lang. \<exists>name. visible n es name \<and> indicates name lang}"
proof (induction n arbitrary: es d)
  case 0
  show ?case by (auto elim: visible_zero)
next
  case (Suc n)
  define step where "step e d = (let d = add_languages (entry_name e) d
             in case e of FileEntry f c \<Rightarrow> d
                | DirEntry f sub \<Rightarrow> if startswith f ''.'' then d else scan_languages n sub d)" for e d
  define seen where "seen e = {lang. \<exists>name. visible (Suc n) [e] name \<and> indicates name lang}" for e
  have "set (step e d) = set d \<union> seen e" for e d
    by (cases e) (auto simp: step_def seen_def Suc Let_def set_add_languages visible_Suc entry_name_def)
  then have "set (fold step es d) = set d \<union> (\<Union>e \<in> set es. seen e)" for es d
    by (induction es arbitrary: d) auto
  moreover have "scan_languages (Suc n) es d = fold step es d" by (simp add: step_def [abs_def])
  moreover have "(\<Union>e \<in> set es. seen e) = {lang. \<exists>name. visible (Suc n) es name \<and> indicates name lang}"
    unfolding seen_def visible_Suc by auto
  ultimately show ?case by simp
qed

text \<open>The languages of a tree, and its marker files, are those of the names seen in its first four levels.\<close>

lemma languages_of_tree: "set (detect_languages es) = {lang. \<exists>name. visible 4 es name \<and> indicates name lang}"
proof -
  have "Suc max_depth = 4" by (simp add: max_depth_def)
  then show ?thesis unfolding detect_languages_def by (simp only: set_scan_languages) simp
qed

lemma scan_file_visible: "scan_file names n es \<longleftrightarrow> (\<exists>name \<in> set names. visible n es name)"
proof (induction n arbitrary: es)
  case 0
  show ?case by (auto elim: visible_zero)
next
  case (Suc n)
  have seen: "(entry_name e \<in> set names \<or> (case e of FileEntry f c \<Rightarrow> False
            | DirEntry f sub \<Rightarrow> \<not> startswith f ''.'' \<and> scan_file names n sub))
      \<longleftrightarrow> (\<exists>name \<in> set names. entry_name e = name \<or> (case e of FileEntry f c \<Rightarrow> False
            | DirEntry d sub \<Rightarrow> \<not> startswith d ''.'' \<and> visible n sub name))" for e
    by (cases e) (auto simp: Suc)
  show ?case
    by (simp add: list_ex_iff visible_Suc seen) blast
qed

lemma marker_of_tree: "has_file names es \<longleftrightarrow> (\<exists>name \<in> set names. visible 4 es name)"
  by (simp add: has_file_def scan_file_visible max_depth_def eval_nat_numeral)

lemma four_levels_are_searched:
  "has_file [''Dockerfile''] [DirEntry ''a'' [DirEntry ''b'' [DirEntry ''c'' [FileEntry ''Dockerfile'' None]]]]"
  "\<not> has_file [''Dockerfile'']
     [DirEntry ''a'' [DirEntry ''b'' [DirEntry ''c'' [DirEntry ''d'' [FileEntry ''Dockerfile'' None]]]]]"
  by (simp_all add: has_file_def max_depth_def eval_nat_numeral entry_name_def startswith_def)

section \<open>The static scanners\<close>

text \<open>Every leak is at least high, so it fails a scan at the default threshold.\<close>

lemma new_finding_simps [simp]:
  "fn_severity (new_finding sha tool rule title descr sev file line cat raw) = sev"
  "fn_rule_id (new_finding sha tool rule title descr sev file line cat raw) = rule"
  by (simp_all add: new_finding_def post_init_def)

lemma new_finding_fingerprint:
  "fn_fingerprint (new_finding sha tool rule title descr sev file line cat raw) =
     take 16 (sha (rule @ ''|'' @ get_or ''None'' file @ ''|'' @ int_str line @ ''|'' @ title))"
  by (simp add: new_finding_def post_init_def compute_fingerprint_def get_or_def)

lemma leak_at_least_high: "HIGH \<le> fn_severity (leak_finding sha e)"
proof -
  have "list_all (\<lambda>e. HIGH \<le> snd e) rule_severity" by (simp add: rule_severity_def less_eq_severity_def)
  then have "dict_get rule_severity r = Some s \<Longrightarrow> HIGH \<le> s" for r s
    by (auto simp: list_all_iff dest!: map_of_SomeD)
  then show ?thesis by (auto simp: leak_finding_def Let_def get_or_def split: option.splits)
qed

lemma mset_split: "mset (filter (\<lambda>f. \<not> P f) fs) + mset (filter (\<lambda>f. P f \<and> \<not> Q f) fs) = mset (filter (\<lambda>f. \<not> Q f) fs)"
  if "\<And>f. Q f \<Longrightarrow> P f"
  using that by (induction fs) auto

text \<open>
  Three findings are enough: when all of them lie in internal paths, only the advisory is left. The comment
  on the constant says three or more; the comment on the table of rules says more than three.
\<close>

lemma three_findings_are_consolidated:
  assumes "length fs = 3" "list_all noisy fs" "list_all in_safe_path fs"
  shows "reduce_false_positives sha fs = advisory sha fs" "length (advisory sha fs) = 1"
proof -
  have "dismissed fs f" if "f \<in> set fs" for f
    using assms that by (simp add: dismissed_def list_all_iff fp_consolidation_threshold_def)
  then show "reduce_false_positives sha fs = advisory sha fs" "length (advisory sha fs) = 1"
    using assms by (auto simp: reduce_eq advisory_def list_all_iff Let_def filter_empty_conv)
qed

text \<open>
  C39. The reduction of false positives of semgrep dismisses only findings of the noisy rule that lie in internal paths,
  and only when the rule fired at least three times, as the comment on the threshold says (the comment on the table of
  rules, which says more than three times, does not describe the code: \<open>three_findings_are_consolidated\<close>); it keeps every
  other finding as it is, and answers for the dismissed ones with exactly one advisory of severity INFO.
\<close>

theorem semgrep_reduction:
  "mset (reduce_false_positives sha fs) = mset (filter (\<lambda>f. \<not> dismissed fs f) fs) + mset (advisory sha fs)
     \<and> length (advisory sha fs) = (if list_ex (dismissed fs) fs then 1 else 0)
     \<and> list_all (\<lambda>f. fn_severity f = INFO) (advisory sha fs)"
proof -
  have "mset (reduce_false_positives sha fs) = mset (filter (\<lambda>f. \<not> dismissed fs f) fs) + mset (advisory sha fs)"
    using mset_split [of "dismissed fs" noisy fs] by (simp add: reduce_eq dismissed_def)
  then show ?thesis by (auto simp: advisory_def consolidated_def list_ex_iff filter_empty_conv Let_def)
qed

section \<open>Secrets in memory\<close>

text \<open>The rules of the search with their titles.\<close>

definition memory_rules :: "(string \<times> string) list" where
  "memory_rules =
     map (\<lambda>(rule, description, pat). (rule, ''Runtime secret detected: '' @ description)) secret_patterns
     @ [(''MEM-ENTROPY-001'', ''High-entropy string in process memory'')]"

definition memory_fingerprint :: "(string \<Rightarrow> string) \<Rightarrow> string \<Rightarrow> string \<Rightarrow> string" where
  "memory_fingerprint sha source rule =
     take 16 (sha (rule @ ''|memory://'' @ source @ ''|0|'' @ get_or [] (map_of memory_rules rule)))"

definition memory_finding :: "(string \<Rightarrow> string) \<Rightarrow> string \<Rightarrow> finding \<Rightarrow> bool" where
  "memory_finding sha source f \<longleftrightarrow>
     fn_rule_id f \<in> fst ` set memory_rules \<and> fn_fingerprint f = memory_fingerprint sha source (fn_rule_id f)"

lemma rules_distinct: "distinct (map fst memory_rules)"
  by (simp add: memory_rules_def secret_patterns_def)

lemma rule_title_known: "(rule, title) \<in> set memory_rules \<Longrightarrow> map_of memory_rules rule = Some title"
  using rules_distinct by simp

lemma int_str_zero: "int_str 0 = ''0''"
  by code_simp

lemma secret_is_memory_finding:
  assumes "(rule, description, pat) \<in> set secret_patterns"
  shows "memory_finding sha source (secret_finding sha source rule description t)"
proof -
  have "(rule, ''Runtime secret detected: '' @ description) \<in> set memory_rules"
    using assms by (force simp: memory_rules_def)
  from rule_title_known [OF this] image_eqI [OF _ this, of _ fst] show ?thesis
    by (simp add: memory_finding_def memory_fingerprint_def secret_finding_def Let_def new_finding_fingerprint
        get_or_def int_str_zero)
qed

lemma entropy_is_memory_finding: "memory_finding sha source (entropy_finding sha source x t)"
proof -
  have "(''MEM-ENTROPY-001'', ''High-entropy string in process memory'') \<in> set memory_rules"
    by (simp add: memory_rules_def)
  from rule_title_known [OF this] image_eqI [OF _ this, of _ fst] show ?thesis
    by (simp add: memory_finding_def memory_fingerprint_def entropy_finding_def new_finding_fingerprint
        get_or_def int_str_zero)
qed

lemma search_memory_findings:
  assumes "list_all (memory_finding sha source) (fst st)" "set es \<subseteq> set secret_patterns"
  shows "list_all (memory_finding sha source) (fst (fold (search_pattern sha raw source) es st))"
  using assms
proof (induction es arbitrary: st)
  case (Cons e es)
  obtain rule description pat where e: "e = (rule, description, pat)" by (cases e)
  have "list_all (memory_finding sha source) (fst (fold (see_match sha source rule description) ts st))"
    if "list_all (memory_finding sha source) (fst st)" for ts st
    using that Cons.prems(2) e
    by (induction ts arbitrary: st) (auto simp: see_match_def Let_def secret_is_memory_finding split: prod.splits)
  with Cons show ?case by (simp add: e search_pattern_def)
qed simp

lemma scan_memory_findings: "list_all (memory_finding sha source) (scan_strings sha log2 raw source)"
proof -
  have "list_all (memory_finding sha source) (fst (fold (see_line sha log2 source) ls st))"
    if "list_all (memory_finding sha source) (fst st)" for ls st
    using that
    by (induction ls arbitrary: st) (auto simp: see_line_def Let_def entropy_is_memory_finding split: prod.splits)
  then show ?thesis unfolding scan_strings_def by (simp add: search_memory_findings)
qed

text \<open>
  C40. However many secrets the memory of a container holds, a report has at most one finding for each of the 21 rules:
  the fingerprint of a memory finding does not depend on the secret, so the deduplication of the report merges the
  secrets that the search took care to list apart.
\<close>

theorem memory_secrets_collapse:
  "distinct (map fn_rule_id (deduplicated (scan_strings sha log2 raw source)))
     \<and> length (deduplicated (scan_strings sha log2 raw source)) \<le> 21"
proof -
  let ?fs = "deduplicated (scan_strings sha log2 raw source)"
  have ok: "memory_finding sha source f" if "f \<in> set ?fs" for f
    using deduplicated_subset [OF that] scan_memory_findings [of sha source log2 raw] by (simp add: list_all_iff)
  have "inj_on fn_rule_id (set ?fs)"
  proof (rule inj_onI)
    fix f g assume fg: "f \<in> set ?fs" "g \<in> set ?fs" "fn_rule_id f = fn_rule_id g"
    then have "fn_fingerprint f = fn_fingerprint g" using ok by (simp add: memory_finding_def)
    then show "f = g" using fg deduplicated_distinct by (metis distinct_map inj_on_eq_iff)
  qed
  moreover have "distinct ?fs" using deduplicated_distinct by (metis distinct_map)
  ultimately have dist: "distinct (map fn_rule_id ?fs)" by (simp add: distinct_map)
  have "set (map fn_rule_id ?fs) \<subseteq> fst ` set memory_rules" using ok by (auto simp: memory_finding_def)
  then have "card (set (map fn_rule_id ?fs)) \<le> card (fst ` set memory_rules)" by (intro card_mono) simp_all
  also have "card (fst ` set memory_rules) = 21"
    using distinct_card [OF rules_distinct] by (simp add: memory_rules_def secret_patterns_def)
  finally have "length ?fs \<le> 21" using distinct_card [OF dist] by simp
  with dist show ?thesis by simp
qed

text \<open>Two different secrets of one rule: two findings of the search, one finding in the report.\<close>

lemma two_keys_one_finding:
  assumes "take 40 t \<noteq> take 40 u"
  shows "length (fst (fold (see_match sha source rule description) [t, u] ([], []))) = 2
     \<and> length (deduplicated (fst (fold (see_match sha source rule description) [t, u] ([], [])))) = 1"
  using assms
  by (simp add: see_match_def Let_def deduplicated_def keep_finding_def secret_finding_def new_finding_fingerprint
      less_severity_def)

text \<open>A container that was started is removed, and then its network.\<close>

lemma memory_cleanup:
  "StartContainer name \<in> set (snd (memory_execute sha log2 sb img)) \<Longrightarrow>
     \<exists>network. sb_network sb = Some network
       \<and> snd (memory_execute sha log2 sb img) = [StartContainer name, RemoveContainer name, RemoveNetwork network]"
  by (auto simp: memory_execute_def split: option.splits)

section \<open>Report files\<close>

lemma path_name_split: "take (length p - length (path_name p)) p @ path_name p = p"
proof -
  have "rev p = takeWhile (\<lambda>c. c \<noteq> CHR ''/'') (rev p) @ dropWhile (\<lambda>c. c \<noteq> CHR ''/'') (rev p)" by simp
  then have "p = rev (dropWhile (\<lambda>c. c \<noteq> CHR ''/'') (rev p)) @ path_name p"
    unfolding path_name_def by (metis rev_append rev_rev_ident)
  then show ?thesis by (metis append_eq_conv_conj diff_add_inverse2 length_append)
qed

lemma last_part:
  assumes "d \<in> set s"
  shows "\<exists>u. s = u @ d # rev (takeWhile (\<lambda>c. c \<noteq> d) (rev s))"
proof -
  let ?rest = "dropWhile (\<lambda>c. c \<noteq> d) (rev s)"
  have ne: "?rest \<noteq> []" using assms by simp
  have "hd ?rest = d" using hd_dropWhile [OF ne] by simp
  with ne obtain v where v: "?rest = d # v" by (cases ?rest) auto
  have "rev s = takeWhile (\<lambda>c. c \<noteq> d) (rev s) @ ?rest" by simp
  then have "rev (rev s) = rev (takeWhile (\<lambda>c. c \<noteq> d) (rev s) @ d # v)" unfolding v by (rule arg_cong)
  then have "s = rev v @ d # rev (takeWhile (\<lambda>c. c \<noteq> d) (rev s))" by simp
  then show ?thesis ..
qed

lemma suffix_cases:
  obtains "path_suffix p = []" | u where "path_name p = u @ path_suffix p"
proof (cases "path_suffix p = []")
  case False
  then have "CHR ''.'' \<in> set (path_name p)" "path_suffix p = CHR ''.'' # rev (takeWhile (\<lambda>c. c \<noteq> CHR ''.'') (rev (path_name p)))"
    by (auto simp: path_suffix_def Let_def split: if_splits)
  with last_part [OF this(1)] that show ?thesis by metis
qed (use that in blast)

lemma stem_suffix: "path_stem p @ path_suffix p = path_name p"
  by (rule suffix_cases [of p]) (simp_all add: path_stem_def Let_def)

lemma with_own_suffix: "with_name p (path_stem p @ path_suffix p) = p"
  by (simp add: with_name_def stem_suffix path_name_split)

text \<open>An output that ends in \<open>.md\<close>: the Markdown report is written over the JSON report.\<close>

lemma reports_collide:
  assumes "\<not> is_dir w (parts_path (path_parts output))" "path_suffix (parts_path (path_parts output)) = ''.md''"
    and "path_suffix (abs_path (w_cwd w) (parts_path (path_parts output))) = ''.md''"
  shows "fst (report_files w output) = snd (report_files w output)"
  using assms with_own_suffix [of "parts_path (path_parts output)"]
  by (simp add: report_files_def report_paths_def report_target_def is_dir_def Let_def)

lemma reports_collide_example:
  "report_files \<lparr>w_cwd = ''/w'', w_dir = (\<lambda>p. None), w_exists = (\<lambda>p. False), w_docker_ports = (\<lambda>i. None),
                 w_ip_ok = (\<lambda>h. True)\<rparr> ''out.md'' = (''/w/out.md'', ''/w/out.md'')"
  by code_simp

end
