(* ===== verification/Spec2Isabelle.thy ===== *)
theory Spec2Isabelle
  imports Dag ExprRoundtrip Kernel CloneSemantic NearMissFacts FrontEndFacts VmTerm VmFacts VmBrace JavaFrontFacts JavaTextFacts
    CommentsReportFacts DetectRunFacts ScannerFacts
begin

text \<open>
  A model of CDUP, the clone detector and program analyser under \<open>src/cdup/src\<close>, of the comment service
  under \<open>src/comments\<close> and of the security toolkit under \<open>src/security_toolkit/src\<close>, with their correctness.

  The program. A C file is cut into blocks, statements and slots (\<open>parse.py\<close>), with an expression tree
  on every statement that has one (\<open>expr.py\<close>). The result, a list of segments (\<open>models.py\<close>), is what all
  other parts work on: \<open>matrix.py\<close> turns it into rows of reads and writes with merge rows for branches and
  loops, \<open>dag.py\<close> turns the rows into a data-flow graph, \<open>detect.py\<close> looks for four types of clones, and
  \<open>vm.py\<close> runs the program on a virtual memory, with \<open>kernel.py\<close> as its arithmetic. \<open>parse_c_file\<close> builds
  the segments, the matrix and the graph in one go; the detectors and the virtual machine read them back
  as JSON.

  Preludes. \<open>PyBase\<close>: Python's \<open>str\<close>, \<open>list\<close> and \<open>dict\<close> (an association list in insertion order),
  exceptions as the left summand of \<open>py\<close>. \<open>PyFloat\<close>: IEEE doubles on integers, with \<open>float()\<close> of a text.
  \<open>PyRegex\<close>: a backtracking matcher for the patterns the program uses, with match objects. \<open>PyValue\<close>: run-time
  values and Python's operators on them.

  Front end (\<open>parse.py\<close>, \<open>expr.py\<close>, \<open>models.py\<close>). \<open>IR\<close> has the records of \<open>models.py\<close> and their \<open>to_dict\<close>
  documents; \<open>Literals\<close> the identifiers, literals and constant names of a statement; \<open>Braces\<close> the bracket scanner
  and \<open>_parse_code_segs\<close>; \<open>Statements\<close> the statement splitter; \<open>Classify\<close> the kinds, parameters, memory slots,
  types and names; \<open>FrontEnd\<close> the loop of \<open>parse_c_file\<close> over all blocks; \<open>Exprs\<close> the Pratt parser. \<open>BraceFacts\<close>
  proves that the blocks partition the file and that parents are the enclosing blocks; \<open>Statements\<close> that
  splitting loses no visible character; \<open>FrontEndFacts\<close> when \<open>parse_c_file\<close> raises and that its segments are
  well formed; \<open>ExprRoundtrip\<close> that the parser inverts a printer with minimal parentheses and always ends.

  Java (\<open>java_preprocess.py\<close>, \<open>java_parse.py\<close>). \<open>JavaText\<close> has the passes that rewrite Java into near-C,
  \<open>JavaFront\<close> the fix-ups of the segments that the C front end makes of the result. \<open>JavaTextFacts\<close> proves which
  passes keep the braces and shows the inputs single passes get wrong; \<open>JavaFrontFacts\<close> that the Java front
  end raises exactly for brackets closed but never opened and else returns the C segments with the
  documented changes only.

  Analyses. \<open>Matrix\<close> (\<open>matrix.py\<close>): every statement has exactly one row, rows are well formed, names resolve
  to the innermost scope, and no exception or endless recursion is possible on a well-formed tree.
  \<open>Dag\<close> (\<open>dag.py\<close>): the forward edges are exactly the declarative def-use edges of the rows, the back edges
  those from the last writer in the loop body unless a scope path continues a loop path other than at a dot
  (ten loops in one block: the code compares paths as strings); nodes are numbered by position, and only
  loop edges run backwards.

  Evaluation. \<open>Kernel\<close> (\<open>kernel.py\<close>): integer expressions have integer values or one of three errors,
  division and remainder are those of C below \<open>2^53\<close>, a value depends only on the slots of the expression.

  Virtual machine (\<open>vm.py\<close>). \<open>VmText\<close> has the functions on text, \<open>VmState\<close> the state (output, trace, frames,
  heap, address map, and a store for Python lists, which are shared by reference) with the actions on it,
  \<open>VmEval\<close> expressions and calls, \<open>VmExec\<close> statements and entry points. An action maps a state to an
  exception or a value and the new state; \<open>_Return\<close>, \<open>_Break\<close> and \<open>_Continue\<close> are exceptions, as in the source.
  \<open>VmSteps\<close> is the locale of relations that every handler keeps, interpreted three times in \<open>VmMemory\<close>: the
  history only grows, memory is never dropped, the address map and the frames agree. \<open>VmFuel\<close> and \<open>VmTerm\<close> show
  that programs without recursion end. \<open>VmFacts\<close> relates the evaluator to the kernel and proves the laws of
  allocation and strings; \<open>VmBrace\<close> is the round trip of initialisers; \<open>VmPrograms\<close> runs small programs on
  which the machine leaves the meaning of C.

  Clone detection (\<open>detect.py\<close>). \<open>CloneBase\<close> reads the documents; \<open>CloneNorm\<close> the normal forms (Type II forms
  agree exactly for statements equal up to a renaming of identifiers and an exchange of literals of one
  class; Java keywords count as identifiers, against the documentation); \<open>CloneHash\<close> the block types; \<open>CloneRuns\<close> the scan for
  maximal runs; \<open>Clones\<close> and \<open>CloneFacts\<close> the classes and filters of \<open>detect_clones\<close>, sound and complete.
  \<open>DiffLib\<close> is \<open>difflib.SequenceMatcher\<close>, \<open>UnionFind\<close> the partition structure, \<open>NearMiss\<close> and \<open>NearMissFacts\<close>
  Type III; \<open>CloneSemantic\<close> is Type IV.

  Command line (\<open>cli/utils.py\<close>, \<open>cli/cmds.py\<close>). \<open>Pipeline\<close> parses the files of a project, merges their
  documents and has the CSV and DOT exports; \<open>DetectRun\<close> is the subcommand \<open>detect\<close> with its metadata.
  \<open>PipelineFacts\<close> proves which files are skipped and that the merged document is well formed and counted
  correctly; \<open>Type3Facts\<close> that Type III detection returns and respects the exclusions; \<open>DetectRunFacts\<close> that
  \<open>detect\<close> returns on all sources, numbers its classes, keeps the types apart and finds the graph nodes of
  a clone. \<open>Files\<close> has paths and the walk over a directory, for both programs.

  Comment service (\<open>src/comments/app\<close>). \<open>Comments\<close> extracts the comments of a file, reads the answer of the
  language model and gives tags; \<open>CommentsReport\<close> walks a submission, writes the report and has the two
  routes. \<open>CommentsFacts\<close> proves where comments stand and what merging and normalising do to the counts;
  \<open>CommentsReportFacts\<close> which files and which messages a report has.

  Security toolkit (\<open>src/security_toolkit/src\<close>). \<open>Security\<close> has the findings, the report, the registry of plugins
  and the engine (\<open>core/models.py\<close>, \<open>plugin.py\<close>, \<open>engine.py\<close>); \<open>SecurityCli\<close> the profile of a target
  (\<open>core/profiler.py\<close>) and the commands with their exit code (\<open>cli.py\<close>); \<open>Scanners\<close> and \<open>RuntimeScan\<close> the
  plugins. \<open>SecurityFacts\<close> proves that a report accounts for every plugin and every fingerprint, that the order in
  which the threads complete does not matter, and what the exit code says; \<open>ScannerFacts\<close> what the profiler sees,
  what the reduction of false positives of semgrep keeps, and that the secrets of a memory collapse to one finding
  for each rule.

  Interfaces. A locale is stated where a client uses operations by their laws (dictionaries, sets,
  the step relations of the virtual machine, the relation of runs) and is interpreted on the model's own
  definitions in the theory that provides them.

  Fuel. Recursion that is not structural has a budget as its first argument and a theorem that the budget
  given is enough: the expression parser starts with the length of its text plus one; \<open>build_matrix\<close>, the
  block types and the walks over parents and children with the number of segments plus one; \<open>find\<close> with the
  number of entries plus one. \<open>exec_seg\<close> has the depth of nested calls and blocks; the termination
  theorem of \<open>VmTerm\<close> gives the bound, and shows that more never changes the answer. The loops over strings stop at the latest
  behind the last address.

  Parameters. The digest of the block types and of the Type IV signature; the order in which a Python set
  is iterated; the functions of \<open>math\<close> and the text of a float; whether \<open>from expr import\<close> succeeds in
  \<open>vm.py\<close>; the order in which the set of Java modifiers is iterated; the language model of the comment service and
  \<open>json.loads\<close> on its answers; its file system. In the security toolkit sha256, the order in which threads complete,
  the clock, and what tools, Docker and services answer. Statements about the digest assume that it has no collision on the texts at hand.

  Text. A character is one of the 256 of \<open>char\<close>; classes such as \<open>str.isspace\<close> and \<open>\w\<close> are those of ASCII.

  Not modelled. \<open>json\<close> in both directions (the documents are modelled, not their text); Python's recursion
  limit; in the virtual machine the text of a printed list, \<open>chr\<close> above 255 (both end the run as \<open>Unmodelled\<close>)
  and lists that contain themselves. The rendering of graphs (matplotlib, networkx), the HTML pages, the
  parsing of arguments and the subcommand \<open>run\<close> are input and output. The legacy detector is superseded. The chaos
  tester drives processes and containers; of the security toolkit the sandbox, the parsing of arguments and the text
  of the console and Markdown reports are left out.
\<close>

section \<open>Properties of the data model and the literals\<close>

text \<open>
  C21. Serialisation loses nothing: two well-formed segments with the same \<open>to_dict\<close> document are the
  same segment (slots, statements and expression trees included), so the JSON the front end hands to
  the detectors and the virtual machine determines the parsed program.
\<close>
theorem segment_serialisation_faithful:
  assumes "segment_to_dict s = segment_to_dict t" "segment_ok s" "segment_ok t"
  shows "s = t"
  by (rule segment_to_dict_inj [OF assms])

theorem segment_serialisation_faithful_witness:
  "\<exists>s. segment_ok s \<and> sg_stmts s \<noteq> [] \<and> (\<forall>t. segment_ok t \<longrightarrow> segment_to_dict s = segment_to_dict t \<longrightarrow> s = t)"
proof -
  have "segment_ok (sample_segments ! 1)" "sg_stmts (sample_segments ! 1) \<noteq> []"
    by (simp_all add: sample_segments_def sample_seg_def segment_ok_def slot_ok_def stmt_ok_def opt_ok_def
        sample_slot_def sample_stmt_def)
  then show ?thesis using segment_serialisation_faithful by blast
qed

text \<open>
  An integer literal is lost when its digits also occur in a float of the same statement: the
  literals of \<open>y = 1 + 1.5;\<close> contain no integer, so the constant slot of \<open>1\<close> is never created.
\<close>

lemma integer_literal_lost_beside_float:
  "extract_literals ''y = 1 + 1.5;'' = \<lparr>lit_ints = [], lit_floats = [''1.5''], lit_strings = [], lit_chars = []\<rparr>
   \<and> lit_ints (extract_literals ''y = 1 + 2.5;'') = [''1'']"
  by code_simp

text \<open>
  The character literal of a quote, backslash and quote between quotes, never reaches its entry in the escape
  table: \<open>strip\<close> removes the escaped quote too and the name is built from the lone backslash, which
  is also not the name of the backslash literal.
\<close>

lemma quote_literal_name:
  "canonical_constant_name ''char'' [squote, bslash, squote, squote] 0 = ''const_char_0x5c''
   \<and> canonical_constant_name ''char'' [squote, bslash, bslash, squote] 0 = ''const_char_backslash''"
  by code_simp

end
